(* ===== verification/Prelude.thy ===== *)
theory Prelude
  imports Main "HOL-Library.Word"
begin

text \<open>
  Shared vocabulary of the development: the machine integers of the C++ sources as words,
  \<^verbatim>\<open>size_t\<close> arithmetic with its wrap-around written out, little-endian byte codecs, and the
  generic list lemmas the component theories use.

  Conventions.  \<^verbatim>\<open>uint8_t\<close>, \<^verbatim>\<open>uint16_t\<close>, \<^verbatim>\<open>uint32_t\<close> and \<^verbatim>\<open>uint64_t\<close> are words of
  that width.  A \<^verbatim>\<open>size_t\<close> is a natural number below \<open>2 ^ 64\<close>; where the source can
  overflow, the operation is \<open>add_size\<close> or \<open>sub_size\<close>.  A fixed array
  \<^verbatim>\<open>std::array<uint8_t, n>\<close> is a byte list of length \<open>n\<close>.
\<close>

unbundle bit_operations_syntax

type_synonym byte = "8 word"
type_synonym u8 = "8 word"
type_synonym u16 = "16 word"
type_synonym u32 = "32 word"
type_synonym u64 = "64 word"
type_synonym bytes = "byte list"

named_theorems codec_defs "definitions of the primitive codecs"
named_theorems cursor_simps "equations that move the cursor of a codec state"

section \<open>Arithmetic of size_t\<close>

definition add_size :: "nat \<Rightarrow> nat \<Rightarrow> nat" where
  "add_size a b = (a + b) mod 2 ^ 64"

definition sub_size :: "nat \<Rightarrow> nat \<Rightarrow> nat" where
  "sub_size a b = (a + (2 ^ 64 - b mod 2 ^ 64)) mod 2 ^ 64"

lemma add_size_assoc: "add_size (add_size a b) c = add_size a (b + c)"
  by (simp add: add_size_def mod_add_left_eq add.assoc)

lemma add_size_small: "a + b < 2 ^ 64 \<Longrightarrow> add_size a b = a + b"
  by (simp add: add_size_def)

lemma sub_size_le:
  assumes "b \<le> a" and "a < 2 ^ 64"
  shows "sub_size a b = a - b"
proof -
  from assms have "a + (2 ^ 64 - b mod 2 ^ 64) = (a - b) + 2 ^ 64"
    by simp
  then show ?thesis
    using assms(2) unfolding sub_size_def by (simp only: mod_add_self2) simp
qed

lemma sub_size_wrap: "a < b \<Longrightarrow> b < 2 ^ 64 \<Longrightarrow> sub_size a b = 2 ^ 64 - (b - a)"
  by (simp add: sub_size_def)

section \<open>Narrowing casts\<close>

lemma ucast_ucast_u64:
  fixes v :: u64
  shows "v \<le> 0xFC \<Longrightarrow> ucast (ucast v :: u8) = v"
    and "v \<le> 0xFFFF \<Longrightarrow> ucast (ucast v :: u16) = v"
    and "v \<le> 0xFFFFFFFF \<Longrightarrow> ucast (ucast v :: u32) = v"
  by (simp_all add: word_le_nat_alt word_unat_eq_iff unsigned_ucast_eq unsigned_take_bit_eq
      take_bit_nat_eq_self)

end
