(* ===== verification/Routing_Table.thy ===== *)
theory Routing_Table
  imports Prelude "HOL-Library.List_Lexorder" "HOL-Library.Sublist"
begin

text \<open>
  The Kademlia routing table (\<^verbatim>\<open>include/hyperdht/routing_table.hpp\<close>,
  \<^verbatim>\<open>src/routing_table.cpp\<close>): XOR distance, k-buckets kept sorted by id and searched by
  bisection, and the table of 256 buckets.

  A node id is a list of 32 bytes; \<^verbatim>\<open>std::array\<close>'s \<^verbatim>\<open>operator<\<close> is the lexicographic order on byte
  lists.  \<^verbatim>\<open>std::vector<Node>\<close> is a node list.  The \<^verbatim>\<open>on_full\<close> callback is modelled by what it is
  called with: \<open>RoutingTable_add\<close> returns the call, if one happens.
\<close>

section \<open>Identifiers and distances\<close>

type_synonym NodeId = bytes

definition ID_LEN :: nat where "ID_LEN = 32"
definition ID_BITS :: nat where "ID_BITS = ID_LEN * 8"
definition K :: nat where "K = 20"

record Node =
  node_id :: NodeId
  node_host :: string
  node_port :: u16
  node_token :: bytes
  node_round_trip_time :: u64
  node_added_at :: u64
  node_added :: u32
  node_pinged :: u32
  node_seen :: u32
  node_sampled :: u32
  node_down_hints :: u32

definition countl_zero :: "u8 \<Rightarrow> nat" where
  "countl_zero b = length (takeWhile (\<lambda>i. \<not> bit b i) [7, 6, 5, 4, 3, 2, 1, 0])"

fun bucket_index_from :: "nat \<Rightarrow> NodeId \<Rightarrow> NodeId \<Rightarrow> nat" where
  "bucket_index_from i (x # xs) (y # ys) =
     (let xor_byte = x XOR y in
      if xor_byte \<noteq> 0 then i * 8 + countl_zero xor_byte
      else bucket_index_from (Suc i) xs ys)"
| "bucket_index_from i _ _ = ID_BITS"

definition bucket_index :: "NodeId \<Rightarrow> NodeId \<Rightarrow> nat" where
  "bucket_index local_id remote_id = bucket_index_from 0 local_id remote_id"

fun compare_distance :: "NodeId \<Rightarrow> NodeId \<Rightarrow> NodeId \<Rightarrow> int" where
  "compare_distance (t # ts) (a # as) (b # bs) =
     (let da = t XOR a; db = t XOR b in
      if da < db then -1 else if da > db then 1 else compare_distance ts as bs)"
| "compare_distance _ _ _ = 0"

section \<open>Buckets\<close>

type_synonym Bucket = "Node list"

function find_index_loop :: "Bucket \<Rightarrow> NodeId \<Rightarrow> nat \<Rightarrow> nat \<Rightarrow> nat" where
  "find_index_loop nodes nid lo hi =
     (if lo < hi then
        let mid = lo + (hi - lo) div 2 in
        if node_id (nodes ! mid) < nid then find_index_loop nodes nid (mid + 1) hi
        else find_index_loop nodes nid lo mid
      else lo)"
  by pat_completeness auto
termination
  by (relation "measure (\<lambda>(nodes, nid, lo, hi). hi - lo)") (auto simp: Let_def)

declare find_index_loop.simps [simp del]

definition Bucket_find_index :: "Bucket \<Rightarrow> NodeId \<Rightarrow> nat" where
  "Bucket_find_index nodes nid = find_index_loop nodes nid 0 (length nodes)"

definition Bucket_has_id :: "Bucket \<Rightarrow> NodeId \<Rightarrow> bool" where
  "Bucket_has_id nodes nid =
     (let idx = Bucket_find_index nodes nid in idx < length nodes \<and> node_id (nodes ! idx) = nid)"

definition Bucket_is_full :: "Bucket \<Rightarrow> bool" where
  "Bucket_is_full nodes \<longleftrightarrow> length nodes \<ge> K"

definition Bucket_add :: "Bucket \<Rightarrow> Node \<Rightarrow> bool \<times> Bucket" where
  "Bucket_add nodes node =
     (if Bucket_has_id nodes (node_id node) then (False, nodes)
      else if Bucket_is_full nodes then (False, nodes)
      else let idx = Bucket_find_index nodes (node_id node) in
        (True, take idx nodes @ node # drop idx nodes))"

definition Bucket_remove :: "Bucket \<Rightarrow> NodeId \<Rightarrow> bool \<times> Bucket" where
  "Bucket_remove nodes nid =
     (let idx = Bucket_find_index nodes nid in
      if idx < length nodes \<and> node_id (nodes ! idx) = nid
      then (True, take idx nodes @ drop (Suc idx) nodes) else (False, nodes))"

definition Bucket_get :: "Bucket \<Rightarrow> NodeId \<Rightarrow> Node option" where
  "Bucket_get nodes nid =
     (let idx = Bucket_find_index nodes nid in
      if idx < length nodes \<and> node_id (nodes ! idx) = nid then Some (nodes ! idx) else None)"

text \<open>\<^verbatim>\<open>get_mut\<close> hands out a pointer that the caller writes metadata through: an update function.\<close>

definition Bucket_update :: "Bucket \<Rightarrow> NodeId \<Rightarrow> (Node \<Rightarrow> Node) \<Rightarrow> Bucket" where
  "Bucket_update nodes nid f =
     (let idx = Bucket_find_index nodes nid in
      if idx < length nodes \<and> node_id (nodes ! idx) = nid
      then nodes[idx := f (nodes ! idx)] else nodes)"

definition Bucket_oldest :: "Bucket \<Rightarrow> Node option" where
  "Bucket_oldest nodes = (if nodes = [] then None else Some (hd nodes))"

section \<open>The table\<close>

record RoutingTable =
  rt_id :: NodeId
  rt_buckets :: "Bucket list"
  rt_size :: nat
  rt_on_full :: bool

definition RoutingTable_new :: "NodeId \<Rightarrow> RoutingTable" where
  "RoutingTable_new local_id =
     \<lparr>rt_id = local_id, rt_buckets = replicate ID_BITS [], rt_size = 0, rt_on_full = False\<rparr>"

definition RoutingTable_add :: "RoutingTable \<Rightarrow> Node \<Rightarrow> bool \<times> RoutingTable \<times> (nat \<times> Node) option" where
  "RoutingTable_add t node =
     (if node_id node = rt_id t then (False, t, None) else
      let idx = bucket_index (rt_id t) (node_id node) in
      if idx \<ge> ID_BITS then (False, t, None) else
      case Bucket_add (rt_buckets t ! idx) node of
        (True, b) \<Rightarrow> (True, t\<lparr>rt_buckets := (rt_buckets t)[idx := b], rt_size := rt_size t + 1\<rparr>, None)
      | (False, _) \<Rightarrow> (False, t, if rt_on_full t then Some (idx, node) else None))"

definition RoutingTable_remove :: "RoutingTable \<Rightarrow> NodeId \<Rightarrow> bool \<times> RoutingTable" where
  "RoutingTable_remove t nid =
     (let idx = bucket_index (rt_id t) nid in
      if idx \<ge> ID_BITS then (False, t) else
      case Bucket_remove (rt_buckets t ! idx) nid of
        (True, b) \<Rightarrow> (True, t\<lparr>rt_buckets := (rt_buckets t)[idx := b], rt_size := rt_size t - 1\<rparr>)
      | (False, _) \<Rightarrow> (False, t))"

definition RoutingTable_get :: "RoutingTable \<Rightarrow> NodeId \<Rightarrow> Node option" where
  "RoutingTable_get t nid =
     (let idx = bucket_index (rt_id t) nid in
      if idx \<ge> ID_BITS then None else Bucket_get (rt_buckets t ! idx) nid)"

definition RoutingTable_update :: "RoutingTable \<Rightarrow> NodeId \<Rightarrow> (Node \<Rightarrow> Node) \<Rightarrow> RoutingTable" where
  "RoutingTable_update t nid f =
     (let idx = bucket_index (rt_id t) nid in
      if idx \<ge> ID_BITS then t
      else t\<lparr>rt_buckets := (rt_buckets t)[idx := Bucket_update (rt_buckets t ! idx) nid f]\<rparr>)"

definition RoutingTable_has :: "RoutingTable \<Rightarrow> NodeId \<Rightarrow> bool" where
  "RoutingTable_has t nid \<longleftrightarrow> RoutingTable_get t nid \<noteq> None"

text \<open>\<^verbatim>\<open>std::sort\<close> with a strict comparator.\<close>

fun insert_by :: "('a \<Rightarrow> 'a \<Rightarrow> bool) \<Rightarrow> 'a \<Rightarrow> 'a list \<Rightarrow> 'a list" where
  "insert_by lt x [] = [x]"
| "insert_by lt x (y # ys) = (if lt y x then y # insert_by lt x ys else x # y # ys)"

definition sort_by :: "('a \<Rightarrow> 'a \<Rightarrow> bool) \<Rightarrow> 'a list \<Rightarrow> 'a list" where
  "sort_by lt xs = foldr (insert_by lt) xs []"

definition collect_from :: "RoutingTable \<Rightarrow> nat \<Rightarrow> Node list \<Rightarrow> nat \<Rightarrow> Node list" where
  "collect_from t count result bucket_idx =
     (if length result < count
      then result @ take (count - length result) (rt_buckets t ! bucket_idx) else result)"

definition RoutingTable_closest :: "RoutingTable \<Rightarrow> NodeId \<Rightarrow> nat \<Rightarrow> Node list" where
  "RoutingTable_closest t target count =
     (let d = bucket_index (rt_id t) target;
          d = (if d \<ge> ID_BITS then ID_BITS - 1 else d);
          result = foldl (collect_from t count) [] [d..<ID_BITS];
          result = foldl (collect_from t count) result (rev [0..<d]);
          result = sort_by (\<lambda>a b. compare_distance target (node_id a) (node_id b) < 0) result
      in take count result)"

text \<open>\<^verbatim>\<open>random()\<close>: the drawn index \<open>n\<close> is a parameter.\<close>

fun nth_node :: "Bucket list \<Rightarrow> nat \<Rightarrow> Node option" where
  "nth_node [] n = None"
| "nth_node (b # bs) n = (if n < length b then Some (b ! n) else nth_node bs (n - length b))"

definition RoutingTable_random :: "RoutingTable \<Rightarrow> nat \<Rightarrow> Node option" where
  "RoutingTable_random t n = (if rt_size t = 0 then None else nth_node (rt_buckets t) n)"

definition RoutingTable_rebuild_with_id :: "RoutingTable \<Rightarrow> NodeId \<Rightarrow> RoutingTable" where
  "RoutingTable_rebuild_with_id t new_id =
     (let all_nodes = concat (rt_buckets t);
          saved_on_full = rt_on_full t;
          t1 = t\<lparr>rt_buckets := map (\<lambda>_. []) (rt_buckets t), rt_size := 0, rt_id := new_id,
                 rt_on_full := False\<rparr>;
          t2 = foldl (\<lambda>t node. fst (snd (RoutingTable_add t node))) t1 all_nodes
      in t2\<lparr>rt_on_full := saved_on_full\<rparr>)"

section \<open>Bits of an identifier\<close>

definition id_bit :: "NodeId \<Rightarrow> nat \<Rightarrow> bool" where
  "id_bit x k = bit (x ! (k div 8)) (7 - k mod 8)"

lemma xor_zero_iff: "x XOR y = 0 \<longleftrightarrow> x = (y :: u8)"
  by (auto simp: bit_eq_iff [of "x XOR y"] bit_eq_iff [of x] bit_simps)

lemma countl_zero_bits:
  assumes "b \<noteq> 0"
  shows "countl_zero b < 8 \<and> bit b (7 - countl_zero b) \<and> (\<forall>c < countl_zero b. \<not> bit b (7 - c))"
proof -
  have "\<exists>i. bit b i"
    using assms bit_eq_iff [of b 0] by auto
  then obtain i where i: "bit b i" "i < 8"
    using bit_imp_le_length by fastforce
  then have "bit b 0 \<or> bit b 1 \<or> bit b 2 \<or> bit b 3 \<or> bit b 4 \<or> bit b 5 \<or> bit b 6 \<or> bit b 7"
    by (auto simp: numeral_eq_Suc less_Suc_eq)
  then show ?thesis
    by (auto simp: countl_zero_def less_Suc_eq numeral_eq_Suc)
qed

text \<open>\<open>first_diff xs ys k\<close>: \<open>k\<close> is the first bit at which the identifiers differ.\<close>

definition first_diff :: "NodeId \<Rightarrow> NodeId \<Rightarrow> nat \<Rightarrow> bool" where
  "first_diff xs ys k \<longleftrightarrow> k < 8 * length xs \<and> id_bit xs k \<noteq> id_bit ys k \<and>
     (\<forall>j < k. id_bit xs j = id_bit ys j)"

lemma id_bit_Cons: "id_bit (x # xs) k = (if k < 8 then bit x (7 - k) else id_bit xs (k - 8))"
  by (simp add: id_bit_def le_div_geq le_mod_geq)

lemma first_diff_Cons_eq: "first_diff (x # xs) (x # ys) (8 + k) \<longleftrightarrow> first_diff xs ys k"
proof
  assume "first_diff (x # xs) (x # ys) (8 + k)"
  then show "first_diff xs ys k"
    by (auto simp: first_diff_def id_bit_Cons dest!: spec [where x = "8 + _"])
next
  assume k: "first_diff xs ys k"
  have "id_bit (x # xs) j = id_bit (x # ys) j" if "j < 8 + k" for j
    using k that by (cases "j < 8") (auto simp: first_diff_def id_bit_Cons)
  with k show "first_diff (x # xs) (x # ys) (8 + k)"
    by (simp add: first_diff_def id_bit_Cons)
qed

lemma bucket_index_from_first_diff:
  assumes "length xs = length ys" and "xs \<noteq> ys"
  shows "\<exists>k. first_diff xs ys k \<and> bucket_index_from i xs ys = i * 8 + k"
  using assms
proof (induction i xs ys rule: bucket_index_from.induct)
  case (1 i x xs y ys)
  show ?case
  proof (cases "x = y")
    case True
    then obtain k where "first_diff xs ys k" "bucket_index_from (Suc i) xs ys = Suc i * 8 + k"
      using 1 by auto
    then show ?thesis
      using True first_diff_Cons_eq [of y xs ys k] by (auto intro!: exI [of _ "8 + k"])
  next
    case False
    then have nz: "x XOR y \<noteq> 0"
      by (simp add: xor_zero_iff)
    let ?k = "countl_zero (x XOR y)"
    have "first_diff (x # xs) (y # ys) ?k"
      using countl_zero_bits [OF nz] by (auto simp: first_diff_def id_bit_Cons bit_simps)
    then show ?thesis
      using nz by auto
  qed
qed auto

lemma first_diff_unique: "first_diff xs ys k \<Longrightarrow> first_diff xs ys k' \<Longrightarrow> k = k'"
  unfolding first_diff_def by (metis linorder_neqE_nat)

lemma bucket_index_from_self: "bucket_index_from i b b = ID_BITS"
  by (induction b arbitrary: i) auto

text \<open>\<^verbatim>\<open>bucket_index\<close> is the position of the first differing bit of the two 256-bit identifiers.\<close>

lemma bucket_index_first_diff:
  assumes "length a = 32" and "length b = 32"
  shows "bucket_index a b = k \<and> k < ID_BITS \<longleftrightarrow> first_diff a b k"
proof (cases "a = b")
  case True
  then show ?thesis
    by (auto simp: bucket_index_def first_diff_def bucket_index_from_self)
next
  case False
  then obtain j where j: "first_diff a b j" "bucket_index a b = j"
    using bucket_index_from_first_diff [of a b 0] assms by (auto simp: bucket_index_def)
  have "j < ID_BITS"
    using j(1) assms by (simp add: first_diff_def ID_BITS_def ID_LEN_def)
  then show ?thesis
    using j first_diff_unique by blast
qed

lemma bucket_index_less:
  assumes "length a = 32" and "length b = 32"
  shows "bucket_index a b < ID_BITS \<longleftrightarrow> a \<noteq> b"
    and "bucket_index a b \<le> ID_BITS"
  using bucket_index_from_first_diff [of a b 0] assms bucket_index_from_self [of 0 b]
  by (fastforce simp: bucket_index_def first_diff_def ID_BITS_def ID_LEN_def)+

text \<open>The ultrametric law: what the buckets of \<open>n\<close> and of \<open>t\<close> relative to \<open>l\<close> say of the bucket
  of \<open>n\<close> relative to \<open>t\<close>.\<close>

lemma bucket_index_ultrametric:
  assumes len: "length l = 32" "length t = 32" "length n = 32"
    and d: "bucket_index l t = d" "d < ID_BITS"
  shows "bucket_index l n < d \<Longrightarrow> bucket_index t n = bucket_index l n"
    and "d < bucket_index l n \<Longrightarrow> bucket_index t n = d"
    and "bucket_index l n = d \<Longrightarrow> d < bucket_index t n"
proof -
  have lt: "first_diff l t d"
    using bucket_index_first_diff [OF len(1,2)] d by blast
  show "bucket_index t n = bucket_index l n" if i: "bucket_index l n < d"
  proof -
    have "first_diff l n (bucket_index l n)"
      using bucket_index_first_diff [OF len(1,3), of "bucket_index l n"] i d(2) by simp
    then have "first_diff t n (bucket_index l n)"
      using lt i len by (auto simp: first_diff_def)
    then show ?thesis
      using bucket_index_first_diff [OF len(2,3)] by blast
  qed
  show "bucket_index t n = d" if i: "d < bucket_index l n"
  proof -
    have "id_bit l j = id_bit n j" if "j \<le> d" for j
    proof (cases "l = n")
      case False
      then have "first_diff l n (bucket_index l n)"
        using bucket_index_first_diff [OF len(1,3), of "bucket_index l n"]
          bucket_index_less [OF len(1,3)] by simp
      then show ?thesis
        using i that by (simp add: first_diff_def)
    qed simp
    then have "first_diff t n d"
      using lt len by (auto simp: first_diff_def)
    then show ?thesis
      using bucket_index_first_diff [OF len(2,3)] by blast
  qed
  show "d < bucket_index t n" if i: "bucket_index l n = d"
  proof (cases "t = n")
    case True
    then show ?thesis
      using bucket_index_less [OF len(2,3)] d(2) by simp
  next
    case False
    have ln: "first_diff l n d"
      using bucket_index_first_diff [OF len(1,3)] i d(2) by blast
    have tn: "first_diff t n (bucket_index t n)"
      using False bucket_index_first_diff [OF len(2,3), of "bucket_index t n"]
        bucket_index_less [OF len(2,3)] by simp
    have "id_bit t j = id_bit n j" if "j \<le> d" for j
      using that lt ln by (cases "j = d") (auto simp: first_diff_def)
    then show ?thesis
      using tn by (metis first_diff_def not_le)
  qed
qed

section \<open>XOR distance\<close>

definition xor_dist :: "NodeId \<Rightarrow> NodeId \<Rightarrow> bytes" where
  "xor_dist t a = map2 (XOR) t a"

lemma xor_cancel_left: "t XOR x = t XOR y \<longleftrightarrow> x = (y :: u8)"
  by (metis xor.assoc xor.left_neutral xor_self_eq)

lemma compare_distance_dist:
  assumes "length t = length a" and "length t = length b"
  shows "compare_distance t a b < 0 \<longleftrightarrow> xor_dist t a < xor_dist t b"
    and "compare_distance t a b = 0 \<longleftrightarrow> a = b"
    and "compare_distance t a b > 0 \<longleftrightarrow> xor_dist t b < xor_dist t a"
  using assms
  by (induction t a b rule: compare_distance.induct)
    (auto simp: xor_dist_def Let_def xor_cancel_left)

lemma list_less_at:
  fixes xs ys :: "'a :: linorder list"
  assumes "length xs = length ys" "p < length xs" "\<forall>j < p. xs ! j = ys ! j" "xs ! p < ys ! p"
  shows "xs < ys"
  using assms
proof (induction xs ys arbitrary: p rule: list_induct2)
  case (Cons x xs y ys)
  then show ?case
    by (cases p) (auto simp: All_less_Suc2)
qed simp

text \<open>An identifier that leaves the target at an earlier bit is farther away.\<close>

lemma byte_less:
  fixes u v :: u8
  assumes "\<forall>m. c \<le> m \<longrightarrow> \<not> bit u m" and "bit v c"
  shows "u < v"
proof -
  have "bit (take_bit c u) n = bit u n" for n
    using assms(1) by (cases "c \<le> n") (auto simp: bit_simps)
  then have "take_bit c u = u"
    by (intro bit_word_eqI) simp
  then have "unat u = take_bit c (unat u)"
    using unsigned_take_bit_eq [of c u, where 'a = nat] by simp
  then have "unat u < 2 ^ c"
    using take_bit_nat_less_exp [of c "unat u"] by simp
  moreover have "\<not> unat v < 2 ^ c"
  proof
    assume "unat v < 2 ^ c"
    then have "\<not> bit (unat v) c"
      by (simp add: bit_iff_odd)
    then show False
      using assms(2) by (simp add: bit_unsigned_iff)
  qed
  ultimately show ?thesis
    by (simp add: word_less_nat_alt)
qed

lemma smaller_index_farther:
  assumes len: "length t = 32" "length a = 32" "length b = 32"
    and less: "bucket_index t a < bucket_index t b"
  shows "xor_dist t b < xor_dist t a"
proof -
  define i where "i = bucket_index t a"
  have ta: "first_diff t a i"
    using bucket_index_first_diff [OF len(1,2), of i] bucket_index_less(2) [OF len(1,3)] less
    by (simp add: i_def)
  have tb: "id_bit t j = id_bit b j" if "j \<le> i" for j
  proof (cases "t = b")
    case False
    then have "first_diff t b (bucket_index t b)"
      using bucket_index_first_diff [OF len(1,3), of "bucket_index t b"] bucket_index_less [OF len(1,3)]
      by simp
    then show ?thesis
      using that less by (simp add: first_diff_def i_def)
  qed simp
  let ?p = "i div 8" and ?c = "7 - i mod 8"
  have p: "?p < 32"
    using ta len by (intro less_mult_imp_div_less) (simp add: first_diff_def)
  have bits: "bit (t ! j XOR x ! j) (7 - c) \<longleftrightarrow> id_bit t (8 * j + c) \<noteq> id_bit x (8 * j + c)"
    if "c < 8" for j c and x :: bytes
    using that by (simp add: id_bit_def bit_simps)
  have same: "t ! j XOR x ! j = 0" if "\<forall>k < i. id_bit t k = id_bit x k" "j < ?p" for j and x :: bytes
  proof (rule bit_word_eqI)
    fix m assume "m < LENGTH(8)"
    then have "8 * j + (7 - m) < i" and "7 - (7 - m) = m"
      using that(2) by auto
    then show "bit (t ! j XOR x ! j) m = bit (0 :: u8) m"
      using bits [of "7 - m" j x] that(1) \<open>m < LENGTH(8)\<close> by simp
  qed
  have "t ! ?p XOR b ! ?p < t ! ?p XOR a ! ?p"
  proof (rule byte_less [where c = ?c])
    show "bit (t ! ?p XOR a ! ?p) ?c"
      using ta bits [of "i mod 8" ?p a] by (simp add: first_diff_def)
    show "\<forall>m. ?c \<le> m \<longrightarrow> \<not> bit (t ! ?p XOR b ! ?p) m"
    proof (intro allI impI notI)
      fix m assume m: "?c \<le> m" "bit (t ! ?p XOR b ! ?p) m"
      then have "m < 8"
        using bit_imp_le_length by fastforce
      then have le: "8 * ?p + (7 - m) \<le> i" and e: "7 - (7 - m) = m" and c: "7 - m < 8"
        using m(1) by presburger+
      show False
        using m(2) bits [OF c, of ?p b] tb [OF le] unfolding e by blast
    qed
  qed
  then show ?thesis
    using len p ta tb same
    by (intro list_less_at [where p = ?p]) (auto simp: xor_dist_def first_diff_def)
qed

section \<open>Buckets: bisection and the sorted invariant\<close>

definition Bucket_ok :: "Bucket \<Rightarrow> bool" where
  "Bucket_ok nodes \<longleftrightarrow> sorted_wrt (<) (map node_id nodes) \<and> length nodes \<le> K"

lemma sorted_ids_nth:
  "sorted_wrt (<) (map node_id nodes) \<Longrightarrow> i < j \<Longrightarrow> j < length nodes \<Longrightarrow>
     node_id (nodes ! i) < node_id (nodes ! j)"
  by (simp add: sorted_wrt_iff_nth_less)

lemma find_index_loop_bounds:
  assumes "sorted_wrt (<) (map node_id nodes)" and "lo \<le> hi" and "hi \<le> length nodes"
    and "\<forall>j < lo. node_id (nodes ! j) < x" and "\<forall>j. hi \<le> j \<and> j < length nodes \<longrightarrow> x \<le> node_id (nodes ! j)"
  shows "let r = find_index_loop nodes x lo hi in r \<le> length nodes \<and>
     (\<forall>j < r. node_id (nodes ! j) < x) \<and> (\<forall>j. r \<le> j \<and> j < length nodes \<longrightarrow> x \<le> node_id (nodes ! j))"
  using assms
proof (induction nodes x lo hi rule: find_index_loop.induct)
  case (1 nodes x lo hi)
  let ?P = "\<lambda>r. r \<le> length nodes \<and> (\<forall>j < r. node_id (nodes ! j) < x) \<and>
     (\<forall>j. r \<le> j \<and> j < length nodes \<longrightarrow> x \<le> node_id (nodes ! j))"
  show ?case
  proof (cases "lo < hi")
    case True
    define mid where "mid = lo + (hi - lo) div 2"
    then have mid: "lo \<le> mid" "mid < hi" "mid < length nodes"
      using True "1.prems"(3) by auto
    note nth = sorted_ids_nth [OF "1.prems"(1)]
    show ?thesis
    proof (cases "node_id (nodes ! mid) < x")
      case less: True
      have "node_id (nodes ! j) < x" if "j < mid + 1" for j
        using less nth [of j mid] that mid by (cases "j = mid") auto
      then have "?P (find_index_loop nodes x (mid + 1) hi)"
        using "1.prems" mid by (intro "1.IH"(1) [OF True mid_def less, unfolded Let_def]) auto
      moreover have "find_index_loop nodes x lo hi = find_index_loop nodes x (mid + 1) hi"
        using True less by (simp add: find_index_loop.simps [of nodes x lo hi] mid_def)
      ultimately show ?thesis
        unfolding Let_def by metis
    next
      case ge: False
      have "x \<le> node_id (nodes ! j)" if "mid \<le> j" "j < length nodes" for j
        using ge nth [of mid j] that by (cases "mid = j") auto
      then have "?P (find_index_loop nodes x lo mid)"
        using "1.prems" mid by (intro "1.IH"(2) [OF True mid_def ge, unfolded Let_def]) auto
      moreover have "find_index_loop nodes x lo hi = find_index_loop nodes x lo mid"
        using True ge by (simp add: find_index_loop.simps [of nodes x lo hi] mid_def)
      ultimately show ?thesis
        unfolding Let_def by metis
    qed
  next
    case False
    then have "find_index_loop nodes x lo hi = lo"
      by (simp add: find_index_loop.simps)
    then show ?thesis
      using "1.prems" False by simp
  qed
qed

lemma find_index_bounds:
  assumes "sorted_wrt (<) (map node_id nodes)"
  shows "Bucket_find_index nodes x \<le> length nodes"
    and "j < Bucket_find_index nodes x \<Longrightarrow> node_id (nodes ! j) < x"
    and "Bucket_find_index nodes x \<le> j \<Longrightarrow> j < length nodes \<Longrightarrow> x \<le> node_id (nodes ! j)"
proof -
  have "let r = find_index_loop nodes x 0 (length nodes) in r \<le> length nodes \<and>
     (\<forall>j < r. node_id (nodes ! j) < x) \<and> (\<forall>j. r \<le> j \<and> j < length nodes \<longrightarrow> x \<le> node_id (nodes ! j))"
    by (rule find_index_loop_bounds [OF assms]) auto
  then show "Bucket_find_index nodes x \<le> length nodes"
    and "j < Bucket_find_index nodes x \<Longrightarrow> node_id (nodes ! j) < x"
    and "Bucket_find_index nodes x \<le> j \<Longrightarrow> j < length nodes \<Longrightarrow> x \<le> node_id (nodes ! j)"
    by (simp_all add: Bucket_find_index_def Let_def)
qed

lemma found_iff:
  assumes "sorted_wrt (<) (map node_id nodes)"
  shows "Bucket_find_index nodes x < length nodes \<and> node_id (nodes ! Bucket_find_index nodes x) = x
     \<longleftrightarrow> x \<in> node_id ` set nodes"
proof
  assume "x \<in> node_id ` set nodes"
  then obtain j where j: "j < length nodes" "node_id (nodes ! j) = x"
    by (metis imageE in_set_conv_nth)
  let ?r = "Bucket_find_index nodes x"
  have r: "?r \<le> j"
    using find_index_bounds(2) [OF assms, of j] j by (meson less_irrefl not_le)
  moreover have "x \<le> node_id (nodes ! ?r)"
    using find_index_bounds(3) [OF assms, of x ?r] r j by simp
  ultimately show "?r < length nodes \<and> node_id (nodes ! ?r) = x"
    using sorted_ids_nth [OF assms, of ?r j] j by (cases "?r = j") auto
qed (metis image_eqI nth_mem)

lemma Bucket_has_id_iff: "Bucket_ok nodes \<Longrightarrow> Bucket_has_id nodes x \<longleftrightarrow> x \<in> node_id ` set nodes"
  using found_iff by (simp add: Bucket_has_id_def Bucket_ok_def Let_def)

lemma ids_inj:
  assumes "sorted_wrt (<) (map node_id nodes)"
  shows "inj_on node_id (set nodes)" and "distinct nodes" and "distinct (map node_id nodes)"
proof -
  show d: "distinct (map node_id nodes)"
    using assms strict_sorted_iff by blast
  then show "inj_on node_id (set nodes)" "distinct nodes"
    by (simp_all add: distinct_map)
qed

lemma Bucket_get_iff:
  assumes "Bucket_ok nodes"
  shows "Bucket_get nodes x = Some n \<longleftrightarrow> n \<in> set nodes \<and> node_id n = x"
proof -
  have s: "sorted_wrt (<) (map node_id nodes)"
    using assms by (simp add: Bucket_ok_def)
  have "Bucket_get nodes x = Some n" if n: "n \<in> set nodes" "node_id n = x"
  proof -
    let ?r = "Bucket_find_index nodes x"
    have r: "?r < length nodes" "node_id (nodes ! ?r) = x"
      using found_iff [OF s, of x] n by auto
    moreover have "nodes ! ?r = n"
      using ids_inj(1) [OF s] r n by (auto dest: inj_onD)
    ultimately show ?thesis
      by (simp add: Bucket_get_def Let_def)
  qed
  then show ?thesis
    by (auto simp: Bucket_get_def Let_def split: if_splits)
qed

lemma sorted_insert_at:
  assumes "sorted_wrt (<) xs" and "r \<le> length xs" and "\<forall>j < r. xs ! j < x"
    and "\<forall>j. r \<le> j \<and> j < length xs \<longrightarrow> x < xs ! j"
  shows "sorted_wrt (<) (take r xs @ x # drop r xs)"
proof -
  have "y < x" if "y \<in> set (take r xs)" for y
    using that assms(2,3) by (auto simp: in_set_conv_nth)
  moreover have "x < y" if "y \<in> set (drop r xs)" for y
    using that assms(4) by (auto simp: in_set_conv_nth)
  moreover have "y < z" if "y \<in> set (take r xs)" "z \<in> set (drop r xs)" for y z
    using assms(1) that by (metis append_take_drop_id sorted_wrt_append)
  ultimately show ?thesis
    using assms(1) by (simp add: sorted_wrt_append sorted_wrt_take sorted_wrt_drop)
qed

lemma Bucket_add_ok:
  assumes "Bucket_ok nodes"
  shows "Bucket_ok (snd (Bucket_add nodes n))"
    and "fst (Bucket_add nodes n) \<longleftrightarrow> node_id n \<notin> node_id ` set nodes \<and> length nodes < K"
    and "set (snd (Bucket_add nodes n)) = (if fst (Bucket_add nodes n) then insert n (set nodes) else set nodes)"
    and "length (snd (Bucket_add nodes n)) = (if fst (Bucket_add nodes n) then Suc (length nodes) else length nodes)"
proof -
  let ?r = "Bucket_find_index nodes (node_id n)"
  have s: "sorted_wrt (<) (map node_id nodes)"
    using assms by (simp add: Bucket_ok_def)
  note b = find_index_bounds [OF s, where x = "node_id n"]
  show fst: "fst (Bucket_add nodes n) \<longleftrightarrow> node_id n \<notin> node_id ` set nodes \<and> length nodes < K"
    using Bucket_has_id_iff [OF assms] by (auto simp: Bucket_add_def Bucket_is_full_def Let_def)
  have union: "set (take ?r nodes) \<union> set (drop ?r nodes) = set nodes"
    by (metis append_take_drop_id set_append)
  then show "set (snd (Bucket_add nodes n)) = (if fst (Bucket_add nodes n) then insert n (set nodes) else set nodes)"
    by (auto simp: Bucket_add_def Let_def)
  show "length (snd (Bucket_add nodes n)) = (if fst (Bucket_add nodes n) then Suc (length nodes) else length nodes)"
    using b(1) by (simp add: Bucket_add_def Let_def)
  show "Bucket_ok (snd (Bucket_add nodes n))"
  proof (cases "fst (Bucket_add nodes n)")
    case True
    then have new: "node_id n \<notin> node_id ` set nodes" "length nodes < K"
      using fst by simp_all
    have "node_id n < node_id (nodes ! j)" if "?r \<le> j" "j < length nodes" for j
      using b(3) [OF that] new that by (metis image_eqI le_less nth_mem)
    then have "sorted_wrt (<) (take ?r (map node_id nodes) @ node_id n # drop ?r (map node_id nodes))"
      using s b by (intro sorted_insert_at) auto
    then show ?thesis
      using True new b(1)
      by (auto simp: Bucket_ok_def Bucket_add_def Let_def take_map drop_map split: if_splits)
  next
    case False
    then show ?thesis
      using assms by (auto simp: Bucket_add_def Let_def split: if_splits)
  qed
qed

lemma Bucket_remove_ok:
  assumes "Bucket_ok nodes"
  shows "Bucket_ok (snd (Bucket_remove nodes x))"
    and "fst (Bucket_remove nodes x) \<longleftrightarrow> x \<in> node_id ` set nodes"
    and "set (snd (Bucket_remove nodes x)) = {n \<in> set nodes. node_id n \<noteq> x}"
    and "length (snd (Bucket_remove nodes x)) =
           (if fst (Bucket_remove nodes x) then length nodes - 1 else length nodes)"
proof -
  let ?r = "Bucket_find_index nodes x"
  have s: "sorted_wrt (<) (map node_id nodes)"
    using assms by (simp add: Bucket_ok_def)
  show fst: "fst (Bucket_remove nodes x) \<longleftrightarrow> x \<in> node_id ` set nodes"
    using found_iff [OF s] by (auto simp: Bucket_remove_def Let_def)
  have split: "nodes = take ?r nodes @ nodes ! ?r # drop (Suc ?r) nodes" "node_id (nodes ! ?r) = x"
      "?r < length nodes" if "x \<in> node_id ` set nodes"
    using found_iff [OF s, of x] that id_take_nth_drop by auto
  have snd: "snd (Bucket_remove nodes x) = (if x \<in> node_id ` set nodes
      then take ?r nodes @ drop (Suc ?r) nodes else nodes)"
    using found_iff [OF s] by (auto simp: Bucket_remove_def Let_def)
  then show "length (snd (Bucket_remove nodes x)) =
      (if fst (Bucket_remove nodes x) then length nodes - 1 else length nodes)"
    using fst split(3) by auto
  show "set (snd (Bucket_remove nodes x)) = {n \<in> set nodes. node_id n \<noteq> x}"
  proof (cases "x \<in> node_id ` set nodes")
    case True
    have "distinct (map node_id (take ?r nodes @ nodes ! ?r # drop (Suc ?r) nodes))"
      using ids_inj(3) [OF s] split(1) [OF True] by simp
    then have "node_id n \<noteq> x" if "n \<in> set (take ?r nodes @ drop (Suc ?r) nodes)" for n
      using that split(2) [OF True] by (auto simp: image_iff)
    then show ?thesis
      using snd True split(2) [OF True] arg_cong [OF split(1) [OF True], of set] by auto
  qed (auto simp: snd)
  have "sorted_wrt (<) (map node_id (take ?r nodes @ drop (Suc ?r) nodes))"
    if "x \<in> node_id ` set nodes"
  proof -
    have "sorted_wrt (<) (map node_id (take ?r nodes @ nodes ! ?r # drop (Suc ?r) nodes))"
      using s split(1) [OF that] by simp
    then show ?thesis
      by (auto simp: sorted_wrt_append)
  qed
  then show "Bucket_ok (snd (Bucket_remove nodes x))"
    using assms snd by (auto simp: Bucket_ok_def)
qed

end
