(* ===== verification/Routing_Store.thy ===== *)
theory Routing_Store
  imports Routing_Table
begin

text \<open>
  The routing table as a bounded map from identifiers to nodes: the table invariant, its
  preservation by every operation, and the interface \<open>node_store\<close> that states the table's contract
  and carries the laws its clients use (insertions, removals and the rebuild under a new id).
\<close>

section \<open>The invariant\<close>

definition bucket_member :: "NodeId \<Rightarrow> nat \<Rightarrow> Node \<Rightarrow> bool" where
  "bucket_member local_id i n \<longleftrightarrow> length (node_id n) = 32 \<and> bucket_index local_id (node_id n) = i"

definition table_ok :: "RoutingTable \<Rightarrow> bool" where
  "table_ok t \<longleftrightarrow> length (rt_id t) = 32 \<and> length (rt_buckets t) = ID_BITS \<and>
     (\<forall>i < ID_BITS. Bucket_ok (rt_buckets t ! i) \<and>
        (\<forall>n \<in> set (rt_buckets t ! i). bucket_member (rt_id t) i n)) \<and>
     rt_size t = sum_list (map length (rt_buckets t))"

definition nodes_of :: "RoutingTable \<Rightarrow> Node set" where
  "nodes_of t = (\<Union>i < ID_BITS. set (rt_buckets t ! i))"

text \<open>The bucket an identifier belongs to, and whether it has room.\<close>

definition bucket_of :: "RoutingTable \<Rightarrow> NodeId \<Rightarrow> Bucket" where
  "bucket_of t x = rt_buckets t ! bucket_index (rt_id t) x"

definition has_room :: "RoutingTable \<Rightarrow> NodeId \<Rightarrow> bool" where
  "has_room t x \<longleftrightarrow> length (bucket_of t x) < K"

lemma table_okD:
  assumes "table_ok t"
  shows "length (rt_id t) = 32" and "length (rt_buckets t) = ID_BITS"
    and "i < ID_BITS \<Longrightarrow> Bucket_ok (rt_buckets t ! i)"
    and "i < ID_BITS \<Longrightarrow> n \<in> set (rt_buckets t ! i) \<Longrightarrow> length (node_id n) = 32"
    and "i < ID_BITS \<Longrightarrow> n \<in> set (rt_buckets t ! i) \<Longrightarrow> bucket_index (rt_id t) (node_id n) = i"
    and "rt_size t = sum_list (map length (rt_buckets t))"
  using assms by (auto simp: table_ok_def bucket_member_def)

lemma table_ok_new: "length local_id = 32 \<Longrightarrow> table_ok (RoutingTable_new local_id)"
  by (simp add: table_ok_def RoutingTable_new_def Bucket_ok_def sum_list_replicate)

lemma nodes_of_new: "nodes_of (RoutingTable_new local_id) = {}"
  by (simp add: nodes_of_def RoutingTable_new_def)

lemma nodes_of_bucket:
  assumes "table_ok t"
  shows "n \<in> nodes_of t \<longleftrightarrow> length (node_id n) = 32 \<and> node_id n \<noteq> rt_id t \<and> n \<in> set (bucket_of t (node_id n))"
proof
  assume "n \<in> nodes_of t"
  then obtain i where i: "i < ID_BITS" "n \<in> set (rt_buckets t ! i)"
    by (auto simp: nodes_of_def)
  then have "length (node_id n) = 32" "bucket_index (rt_id t) (node_id n) = i"
    using table_okD [OF assms] by auto
  then show "length (node_id n) = 32 \<and> node_id n \<noteq> rt_id t \<and> n \<in> set (bucket_of t (node_id n))"
    using i bucket_index_less(1) [of "rt_id t" "node_id n"] table_okD(1) [OF assms]
    by (auto simp: bucket_of_def)
next
  assume n: "length (node_id n) = 32 \<and> node_id n \<noteq> rt_id t \<and> n \<in> set (bucket_of t (node_id n))"
  then have "bucket_index (rt_id t) (node_id n) < ID_BITS"
    using bucket_index_less(1) [of "rt_id t" "node_id n"] table_okD(1) [OF assms] by auto
  then show "n \<in> nodes_of t"
    using n by (auto simp: nodes_of_def bucket_of_def)
qed

text \<open>Replacing one bucket.\<close>

lemma table_ok_replace:
  assumes t: "table_ok t" and i: "i < ID_BITS" and b: "Bucket_ok b"
    and mem: "\<forall>n \<in> set b. bucket_member (rt_id t) i n"
    and size: "s + length (rt_buckets t ! i) = rt_size t + length b"
  shows "table_ok (t\<lparr>rt_buckets := (rt_buckets t)[i := b], rt_size := s\<rparr>)"
proof -
  have len: "i < length (rt_buckets t)"
    using i table_okD(2) [OF t] by simp
  have "sum_list (map length ((rt_buckets t)[i := b])) + length (rt_buckets t ! i) =
      sum_list (map length (rt_buckets t)) + length b"
    using len member_le_sum_list [of "length (rt_buckets t ! i)" "map length (rt_buckets t)"]
    by (simp add: map_update sum_list_update)
  then have "s = sum_list (map length ((rt_buckets t)[i := b]))"
    using size table_okD(6) [OF t] by simp
  then show ?thesis
    using t b mem len by (auto simp: table_ok_def nth_list_update)
qed

lemma nodes_of_replace:
  assumes "length (rt_buckets t) = ID_BITS" and "i < ID_BITS"
  shows "nodes_of (t\<lparr>rt_buckets := (rt_buckets t)[i := b], rt_size := s\<rparr>) =
     (\<Union>j \<in> {..<ID_BITS} - {i}. set (rt_buckets t ! j)) \<union> set b"
  using assms by (auto simp: nodes_of_def nth_list_update split: if_splits)

section \<open>Lookup, insertion, removal\<close>

lemma Bucket_get_None: "Bucket_ok b \<Longrightarrow> Bucket_get b x = None \<longleftrightarrow> x \<notin> node_id ` set b"
  using Bucket_get_iff [of b x] by (metis (no_types, lifting) image_iff not_None_eq)

lemma get_iff:
  assumes "table_ok t" and "length x = 32"
  shows "RoutingTable_get t x = Some n \<longleftrightarrow> n \<in> nodes_of t \<and> node_id n = x"
proof (cases "x = rt_id t")
  case True
  then show ?thesis
    using nodes_of_bucket [OF assms(1), of n] bucket_index_less(1) [of "rt_id t" x] assms table_okD(1) [OF assms(1)]
    by (auto simp: RoutingTable_get_def)
next
  case False
  then have i: "bucket_index (rt_id t) x < ID_BITS"
    using bucket_index_less(1) [of "rt_id t" x] assms table_okD(1) [OF assms(1)] by auto
  then show ?thesis
    using Bucket_get_iff [OF table_okD(3) [OF assms(1) i]] nodes_of_bucket [OF assms(1), of n] assms False
    by (auto simp: RoutingTable_get_def bucket_of_def)
qed

lemma add_cases:
  assumes "table_ok t" and "length (node_id n) = 32"
  shows "fst (RoutingTable_add t n) \<longleftrightarrow>
      node_id n \<noteq> rt_id t \<and> RoutingTable_get t (node_id n) = None \<and> has_room t (node_id n)" (is ?fst)
    and "table_ok (fst (snd (RoutingTable_add t n)))" (is ?ok)
    and "nodes_of (fst (snd (RoutingTable_add t n))) =
      (if fst (RoutingTable_add t n) then insert n (nodes_of t) else nodes_of t)" (is ?nodes)
proof -
  have "?fst \<and> ?ok \<and> ?nodes"
  proof (cases "node_id n = rt_id t")
    case True
    then show ?thesis
      using assms by (simp add: RoutingTable_add_def)
  next
    case False
    define i where "i = bucket_index (rt_id t) (node_id n)"
    define b where "b = rt_buckets t ! i"
    have i: "i < ID_BITS"
      using False bucket_index_less(1) [of "rt_id t" "node_id n"] assms table_okD(1) [OF assms(1)]
      by (auto simp: i_def)
    note b = Bucket_add_ok [OF table_okD(3) [OF assms(1) i], of n, folded b_def]
    have get: "RoutingTable_get t (node_id n) = None \<longleftrightarrow> node_id n \<notin> node_id ` set b"
      using Bucket_get_None [OF table_okD(3) [OF assms(1) i], folded b_def, of "node_id n"] i
      by (simp add: RoutingTable_get_def Let_def i_def [symmetric] b_def [symmetric])
    have fst: "fst (RoutingTable_add t n) = fst (Bucket_add b n)"
      and snd: "fst (snd (RoutingTable_add t n)) = (if fst (Bucket_add b n)
        then t\<lparr>rt_buckets := (rt_buckets t)[i := snd (Bucket_add b n)], rt_size := rt_size t + 1\<rparr> else t)"
      using False i by (auto simp: RoutingTable_add_def i_def [symmetric] b_def [symmetric] Let_def split: prod.splits bool.splits)
    have room: "has_room t (node_id n) \<longleftrightarrow> length b < K"
      by (simp add: has_room_def bucket_of_def i_def [symmetric] b_def [symmetric])
    have ?ok
    proof (cases "fst (Bucket_add b n)")
      case True
      have "\<forall>m \<in> set (snd (Bucket_add b n)). bucket_member (rt_id t) i m"
        using b(3) True table_okD(4,5) [OF assms(1) i] assms(2)
        by (auto simp: bucket_member_def b_def i_def)
      then show ?thesis
        using table_ok_replace [OF assms(1) i b(1), of "rt_size t + 1"] b(4) True snd
        by (simp add: b_def)
    qed (simp add: snd assms)
    moreover have ?nodes
      using fst snd b(3) nodes_of_replace [OF table_okD(2) [OF assms(1)] i] i
      by (auto simp: nodes_of_def b_def)
    ultimately show ?thesis
      using fst b(2) get room False by auto
  qed
  then show ?fst ?ok ?nodes
    by blast+
qed

lemma add_id: "rt_id (fst (snd (RoutingTable_add t n))) = rt_id t"
  and add_on_full: "rt_on_full (fst (snd (RoutingTable_add t n))) = rt_on_full t"
  by (auto simp: RoutingTable_add_def Let_def split: prod.splits bool.splits)

lemma remove_cases:
  assumes "table_ok t" and "length x = 32"
  shows "fst (RoutingTable_remove t x) \<longleftrightarrow> RoutingTable_get t x \<noteq> None" (is ?fst)
    and "table_ok (snd (RoutingTable_remove t x))" (is ?ok)
    and "nodes_of (snd (RoutingTable_remove t x)) = {n \<in> nodes_of t. node_id n \<noteq> x}" (is ?nodes)
proof -
  have "?fst \<and> ?ok \<and> ?nodes"
  proof (cases "x = rt_id t")
    case True
    then show ?thesis
      using assms nodes_of_bucket [OF assms(1)] bucket_index_less(1) [of "rt_id t" x]
      by (auto simp: RoutingTable_remove_def RoutingTable_get_def)
  next
    case False
    define i where "i = bucket_index (rt_id t) x"
    define b where "b = rt_buckets t ! i"
    have i: "i < ID_BITS"
      using False bucket_index_less(1) [of "rt_id t" x] assms table_okD(1) [OF assms(1)]
      by (auto simp: i_def)
    note b = Bucket_remove_ok [OF table_okD(3) [OF assms(1) i], of x, folded b_def]
    have get: "RoutingTable_get t x \<noteq> None \<longleftrightarrow> x \<in> node_id ` set b"
      using Bucket_get_None [OF table_okD(3) [OF assms(1) i], folded b_def, of x] i
      by (simp add: RoutingTable_get_def Let_def i_def [symmetric] b_def [symmetric])
    have fst: "fst (RoutingTable_remove t x) = fst (Bucket_remove b x)"
      and snd: "snd (RoutingTable_remove t x) = (if fst (Bucket_remove b x)
        then t\<lparr>rt_buckets := (rt_buckets t)[i := snd (Bucket_remove b x)], rt_size := rt_size t - 1\<rparr> else t)"
      using i by (auto simp: RoutingTable_remove_def i_def [symmetric] b_def [symmetric] Let_def split: prod.splits bool.splits)
    have other: "node_id n \<noteq> x" if "j < ID_BITS" "j \<noteq> i" "n \<in> set (rt_buckets t ! j)" for j n
      using table_okD(5) [OF assms(1) that(1,3)] that(2) by (auto simp: i_def)
    have ?ok
    proof (cases "fst (Bucket_remove b x)")
      case True
      then have "b \<noteq> []"
        using b(2) by auto
      moreover have "length b \<le> rt_size t"
        using member_le_sum_list [of "length b" "map length (rt_buckets t)"] i table_okD(2,6) [OF assms(1)]
        by (auto simp: b_def)
      moreover have "\<forall>m \<in> set (snd (Bucket_remove b x)). bucket_member (rt_id t) i m"
        using b(3) table_okD(4,5) [OF assms(1) i] by (auto simp: bucket_member_def b_def)
      ultimately show ?thesis
        using table_ok_replace [OF assms(1) i b(1), of "rt_size t - 1"] b(4) True snd
        by (cases b) (auto simp: b_def [symmetric])
    qed (simp add: snd assms)
    moreover have ?nodes
    proof (cases "fst (Bucket_remove b x)")
      case True
      then show ?thesis
        using snd b(3) nodes_of_replace [OF table_okD(2) [OF assms(1)] i] other i
        unfolding b_def nodes_of_def [of t] by simp blast
    next
      case False
      then show ?thesis
        using snd b(2) other i unfolding nodes_of_def b_def by force
    qed
    ultimately show ?thesis
      using fst b(2) get by auto
  qed
  then show ?fst ?ok ?nodes
    by blast+
qed

section \<open>The contract of a bounded node store\<close>

locale node_store =
  fixes inv :: "'s \<Rightarrow> bool"
    and lookup :: "'s \<Rightarrow> NodeId \<Rightarrow> Node option"
    and accepts :: "'s \<Rightarrow> Node \<Rightarrow> bool"
    and ins :: "'s \<Rightarrow> Node \<Rightarrow> 's"
    and del :: "'s \<Rightarrow> NodeId \<Rightarrow> 's"
    and room :: "'s \<Rightarrow> NodeId \<Rightarrow> bool"
  assumes ins_inv: "inv s \<Longrightarrow> length (node_id n) = 32 \<Longrightarrow> inv (ins s n)"
    and accepts_iff: "inv s \<Longrightarrow> length (node_id n) = 32 \<Longrightarrow>
      accepts s n \<longleftrightarrow> lookup s (node_id n) = None \<and> room s (node_id n)"
    and ins_lookup: "inv s \<Longrightarrow> length (node_id n) = 32 \<Longrightarrow> length x = 32 \<Longrightarrow>
      lookup (ins s n) x = (if accepts s n \<and> x = node_id n then Some n else lookup s x)"
    and ins_room: "inv s \<Longrightarrow> length (node_id n) = 32 \<Longrightarrow> length x = 32 \<Longrightarrow>
      room (ins s n) x \<Longrightarrow> room s x"
    and del_inv: "inv s \<Longrightarrow> length x = 32 \<Longrightarrow> inv (del s x)"
    and del_lookup: "inv s \<Longrightarrow> length x = 32 \<Longrightarrow> length y = 32 \<Longrightarrow>
      lookup (del s x) y = (if y = x then None else lookup s y)"
    and lookup_id: "inv s \<Longrightarrow> length x = 32 \<Longrightarrow> lookup s x = Some n \<Longrightarrow> node_id n = x"
begin

lemma insert_then_lookup:
  assumes "inv s" "length (node_id n) = 32"
  shows "accepts s n \<Longrightarrow> lookup (ins s n) (node_id n) = Some n"
    and "\<not> accepts (ins s n) n"
    and "\<not> accepts s n \<Longrightarrow> length x = 32 \<Longrightarrow> lookup (ins s n) x = lookup s x"
  using assms by (auto simp: ins_lookup accepts_iff ins_inv dest: ins_room)

text \<open>Undoing an accepted insertion gives the old contents back.\<close>

lemma delete_undoes_insert:
  assumes "inv s" "length (node_id n) = 32" "accepts s n" "length x = 32"
  shows "lookup (del (ins s n) (node_id n)) x = lookup s x"
  using assms by (auto simp: del_lookup ins_inv ins_lookup accepts_iff)

lemma bulk_insert:
  assumes "inv s" and "\<forall>n \<in> set ns. length (node_id n) = 32"
  shows "inv (foldl ins s ns)"
    and "length x = 32 \<Longrightarrow> lookup s x = Some m \<Longrightarrow> lookup (foldl ins s ns) x = Some m"
    and "length x = 32 \<Longrightarrow> room (foldl ins s ns) x \<Longrightarrow> room s x"
    and "length x = 32 \<Longrightarrow> lookup (foldl ins s ns) x = Some m \<Longrightarrow> lookup s x = Some m \<or> m \<in> set ns"
  using assms
proof (induction ns arbitrary: s)
  case (Cons n ns)
  {
    case 1
    then show ?case
      using Cons.IH(1) [of "ins s n"] by (simp add: ins_inv)
  next
    case 2
    then show ?case
      using Cons.IH(2) [of "ins s n"] by (cases "x = node_id n") (auto simp: ins_inv ins_lookup accepts_iff)
  next
    case 3
    then show ?case
      using Cons.IH(3) [of "ins s n"] ins_room [of s n x] by (auto simp: ins_inv)
  next
    case 4
    then show ?case
      using Cons.IH(4) [of "ins s n"] by (auto simp: ins_inv ins_lookup split: if_splits)
  }
qed simp_all

text \<open>Every node of a batch with distinct fresh ids ends up in the store, unless there is no room for it.\<close>

lemma bulk_insert_complete:
  assumes "inv s" and "\<forall>n \<in> set ns. length (node_id n) = 32" and "distinct (map node_id ns)"
    and "\<forall>n \<in> set ns. lookup s (node_id n) = None" and "m \<in> set ns"
  shows "lookup (foldl ins s ns) (node_id m) = Some m \<or> \<not> room (foldl ins s ns) (node_id m)"
  using assms
proof (induction ns arbitrary: s)
  case (Cons n ns)
  have i: "inv (ins s n)"
    using Cons.prems by (simp add: ins_inv)
  show ?case
  proof (cases "m = n")
    case True
    show ?thesis
    proof (cases "accepts s n")
      case True
      then show ?thesis
        using insert_then_lookup(1) [of s n] bulk_insert(2) [of "ins s n" ns "node_id n" n] \<open>m = n\<close> i Cons.prems
        by simp
    next
      case False
      then show ?thesis
        using bulk_insert(3) [of "ins s n" ns "node_id n"] ins_room [of s n "node_id n"]
          accepts_iff [of s n] \<open>m = n\<close> i Cons.prems by auto
    qed
  next
    case False
    have "\<forall>k \<in> set ns. lookup (ins s n) (node_id k) = None"
      using Cons.prems by (auto simp: ins_lookup image_iff)
    then show ?thesis
      using Cons.IH [of "ins s n"] Cons.prems i False by simp
  qed
qed simp

end

abbreviation table_insert :: "RoutingTable \<Rightarrow> Node \<Rightarrow> RoutingTable" where
  "table_insert t n \<equiv> fst (snd (RoutingTable_add t n))"

lemma add_bucket_mono:
  assumes "table_ok t" "has_room (table_insert t n) x"
  shows "has_room t x"
proof -
  let ?i = "bucket_index (rt_id t) (node_id n)" and ?b = "rt_buckets t"
  have "length (?b ! j) \<le> length (?b[?i := snd (Bucket_add (?b ! ?i) n)] ! j)" if "?i < length ?b" for j
    using that by (cases "?i = j") (auto simp: Bucket_add_def Let_def)
  then have "length (bucket_of t x) \<le> length (bucket_of (table_insert t n) x)"
    using table_okD(2) [OF assms(1)]
    by (auto simp: bucket_of_def RoutingTable_add_def Let_def split: prod.splits bool.splits)
  then show ?thesis
    using assms(2) by (simp add: has_room_def)
qed

lemma option_eqI: "(\<And>v. a = Some v \<longleftrightarrow> b = Some v) \<Longrightarrow> a = b"
  by (metis option.exhaust)

interpretation rt: node_store table_ok RoutingTable_get "\<lambda>t n. fst (RoutingTable_add t n)" table_insert
  "\<lambda>t x. snd (RoutingTable_remove t x)" "\<lambda>t x. x \<noteq> rt_id t \<and> has_room t x"
proof unfold_locales
  fix t n x y
  assume t: "table_ok t"
  show "table_ok (table_insert t n)" if "length (node_id n) = 32"
    by (rule add_cases(2) [OF t that])
  show "fst (RoutingTable_add t n) \<longleftrightarrow> RoutingTable_get t (node_id n) = None \<and>
      node_id n \<noteq> rt_id t \<and> has_room t (node_id n)" if "length (node_id n) = 32"
    using add_cases(1) [OF t that] by auto
  show "table_ok (snd (RoutingTable_remove t x))" if "length x = 32"
    by (rule remove_cases(2) [OF t that])
  show "RoutingTable_get (table_insert t n) x = (if fst (RoutingTable_add t n) \<and> x = node_id n
      then Some n else RoutingTable_get t x)" if "length (node_id n) = 32" "length x = 32"
  proof (rule option_eqI)
    fix m
    note add = add_cases [OF t that(1)]
    have "RoutingTable_get t (node_id n) = None" if "fst (RoutingTable_add t n)"
      using that add(1) by simp
    then show "RoutingTable_get (table_insert t n) x = Some m \<longleftrightarrow> (if fst (RoutingTable_add t n) \<and> x = node_id n
      then Some n else RoutingTable_get t x) = Some m"
      using get_iff [OF add(2) that(2)] get_iff [OF t that(2)] add(3) by (auto split: if_splits)
  qed
  show "RoutingTable_get (snd (RoutingTable_remove t x)) y = (if y = x then None else RoutingTable_get t y)"
    if "length x = 32" "length y = 32"
    using get_iff [OF remove_cases(2) [OF t that(1)] that(2)] get_iff [OF t that(2)] remove_cases(3) [OF t that(1)]
    by (intro option_eqI) auto
  show "x \<noteq> rt_id t \<and> has_room t x" if "length (node_id n) = 32" "length x = 32"
      "x \<noteq> rt_id (table_insert t n) \<and> has_room (table_insert t n) x"
    using that add_bucket_mono [OF t, of n x] by (simp add: add_id)
  show "node_id n = x" if "length x = 32" "RoutingTable_get t x = Some n"
    using that get_iff [OF t] by simp
qed

section \<open>Rebuilding under a new identity\<close>

lemma nodes_of_concat: "table_ok t \<Longrightarrow> nodes_of t = set (concat (rt_buckets t))"
  using table_okD(2) [of t] by (auto simp: nodes_of_def set_conv_nth [of "rt_buckets t"])

lemma distinct_concat_keys:
  assumes "\<forall>b \<in> set bs. distinct (map f b)"
    and "\<forall>i j. i < j \<and> j < length bs \<longrightarrow> f ` set (bs ! i) \<inter> f ` set (bs ! j) = {}"
  shows "distinct (map f (concat bs))"
  using assms
proof (induction bs)
  case (Cons b bs)
  have "f ` set b \<inter> f ` set c = {}" if "c \<in> set bs" for c
    using that Cons.prems(2) by (force simp: in_set_conv_nth)
  moreover have "\<forall>i j. i < j \<and> j < length bs \<longrightarrow> f ` set (bs ! i) \<inter> f ` set (bs ! j) = {}"
    using Cons.prems(2) by (metis Suc_less_eq length_Cons nth_Cons_Suc)
  ultimately show ?case
    using Cons.IH Cons.prems(1) by (auto simp: image_iff)
qed simp

lemma table_ids_distinct:
  assumes "table_ok t"
  shows "distinct (map node_id (concat (rt_buckets t)))"
proof (rule distinct_concat_keys)
  show "\<forall>b \<in> set (rt_buckets t). distinct (map node_id b)"
    using table_okD(2,3) [OF assms] by (auto simp: set_conv_nth [of "rt_buckets t"] Bucket_ok_def intro: ids_inj(3))
  show "\<forall>i j. i < j \<and> j < length (rt_buckets t) \<longrightarrow>
      node_id ` set (rt_buckets t ! i) \<inter> node_id ` set (rt_buckets t ! j) = {}"
    using table_okD(2,5) [OF assms] by (auto simp: image_iff) (metis less_irrefl less_trans)
qed

lemma rebuild_foldl:
  assumes "table_ok t"
  shows "RoutingTable_rebuild_with_id t new_id =
     (foldl table_insert (RoutingTable_new new_id) (concat (rt_buckets t)))\<lparr>rt_on_full := rt_on_full t\<rparr>"
proof -
  have "map (\<lambda>_. []) (rt_buckets t) = replicate ID_BITS []"
    using table_okD(2) [OF assms] by (simp add: map_replicate_const)
  then have "t\<lparr>rt_buckets := map (\<lambda>_. []) (rt_buckets t), rt_size := 0, rt_id := new_id, rt_on_full := False\<rparr> =
      RoutingTable_new new_id"
    by (cases t) (simp add: RoutingTable_new_def)
  then show ?thesis
    by (simp add: RoutingTable_rebuild_with_id_def Let_def)
qed

lemma table_on_full_simps [simp]:
  "table_ok (t\<lparr>rt_on_full := b\<rparr>) = table_ok t"
  "nodes_of (t\<lparr>rt_on_full := b\<rparr>) = nodes_of t"
  "RoutingTable_get (t\<lparr>rt_on_full := b\<rparr>) x = RoutingTable_get t x"
  "has_room (t\<lparr>rt_on_full := b\<rparr>) x = has_room t x"
  by (simp_all add: table_ok_def nodes_of_def RoutingTable_get_def has_room_def bucket_of_def Let_def)

lemma foldl_add_id: "rt_id (foldl table_insert t ns) = rt_id t"
  by (induction ns arbitrary: t) (auto simp: add_id)

lemma rebuild_spec:
  assumes t: "table_ok t" and new: "length new_id = 32"
  defines "r \<equiv> RoutingTable_rebuild_with_id t new_id"
  shows "table_ok r \<and> rt_id r = new_id \<and> rt_on_full r = rt_on_full t" (is ?ok)
    and "nodes_of r \<subseteq> nodes_of t" (is ?sub)
    and "n \<in> nodes_of t \<Longrightarrow> n \<notin> nodes_of r \<Longrightarrow> node_id n = new_id \<or> \<not> has_room r (node_id n)"
proof -
  let ?ns = "concat (rt_buckets t)" and ?e = "RoutingTable_new new_id"
  have e: "table_ok ?e" "RoutingTable_get ?e x = None" if "length x = 32" for x
    using table_ok_new [OF new] get_iff [OF table_ok_new [OF new] that] nodes_of_new
    by (auto intro: option_eqI)
  have ns: "\<forall>n \<in> set ?ns. length (node_id n) = 32"
    using nodes_of_bucket [OF t] nodes_of_concat [OF t] by auto
  note bulk = rt.bulk_insert [OF table_ok_new [OF new] ns]
  have r: "r = (foldl table_insert ?e ?ns)\<lparr>rt_on_full := rt_on_full t\<rparr>"
    using rebuild_foldl [OF t] by (simp add: r_def)
  show ok: ?ok
    using r bulk(1) foldl_add_id [of ?e ?ns] by (simp add: RoutingTable_new_def)
  have get: "RoutingTable_get r x = Some m \<longleftrightarrow> m \<in> nodes_of r \<and> node_id m = x" if "length x = 32" for x m
    using get_iff ok that by blast
  show ?sub
  proof
    fix m assume m: "m \<in> nodes_of r"
    then have len: "length (node_id m) = 32"
      using nodes_of_bucket ok by blast
    then show "m \<in> nodes_of t"
      using bulk(4) [of "node_id m" m] e(2) [OF len] get [OF len, of m] m nodes_of_concat [OF t] r by simp
  qed
  show "node_id n = new_id \<or> \<not> has_room r (node_id n)" if n: "n \<in> nodes_of t" "n \<notin> nodes_of r"
  proof -
    have len: "length (node_id n) = 32" and "n \<in> set ?ns"
      using n ns nodes_of_concat [OF t] by auto
    then show ?thesis
      using rt.bulk_insert_complete [OF table_ok_new [OF new] ns table_ids_distinct [OF t], of n]
        e(2) ns get [OF len, of n] n r ok by auto
  qed
qed

end
