(* ===== verification/Routing_Closest.thy ===== *)
theory Routing_Closest
  imports Routing_Store "HOL-Library.Multiset"
begin

text \<open>
  What \<^verbatim>\<open>RoutingTable::closest\<close>, \<^verbatim>\<open>get_mut\<close> and \<^verbatim>\<open>random\<close> return: the routing table's query side, and
  the properties of the routing table as a whole.
\<close>

section \<open>Sorting with a comparator\<close>

lemma insert_by_insort:
  "\<forall>y \<in> set ys. lt y x \<longleftrightarrow> f y < f x \<Longrightarrow> insert_by lt x ys = insort_key f x ys"
  for f :: "'a \<Rightarrow> 'b :: linorder"
  by (induction ys) auto

lemma sort_by_sort_key:
  "\<forall>x \<in> set xs. \<forall>y \<in> set xs. lt x y \<longleftrightarrow> f x < f y \<Longrightarrow> sort_by lt xs = sort_key f xs"
  for f :: "'a \<Rightarrow> 'b :: linorder"
proof (induction xs)
  case (Cons x xs)
  then have "sort_by lt xs = sort_key f xs"
    by simp
  then show ?case
    using Cons.prems insert_by_insort [of "sort_key f xs" lt x f] by (simp add: sort_by_def)
qed (simp add: sort_by_def)

section \<open>Collecting candidates outward from the target's bucket\<close>

definition target_bucket :: "RoutingTable \<Rightarrow> NodeId \<Rightarrow> nat" where
  "target_bucket t target =
     (let d = bucket_index (rt_id t) target in if d \<ge> ID_BITS then ID_BITS - 1 else d)"

definition visit_order :: "nat \<Rightarrow> nat list" where
  "visit_order d = [d..<ID_BITS] @ rev [0..<d]"

definition candidates :: "RoutingTable \<Rightarrow> NodeId \<Rightarrow> Node list" where
  "candidates t target = concat (map ((!) (rt_buckets t)) (visit_order (target_bucket t target)))"

lemma foldl_collect:
  "length r \<le> k \<Longrightarrow>
     foldl (collect_from t k) r js = take k (r @ concat (map ((!) (rt_buckets t)) js))"
proof (induction js arbitrary: r)
  case (Cons j js)
  have "collect_from t k r j = take k (r @ rt_buckets t ! j)"
    using Cons.prems by (auto simp: collect_from_def)
  moreover have "take k (take k (r @ b) @ c) = take k (r @ b @ c)" for b c :: "Node list"
    by (simp add: take_append min_def)
  ultimately show ?case
    using Cons.IH [of "collect_from t k r j"] by simp
qed simp

lemma candidates_perm:
  assumes "table_ok t"
  shows "mset (candidates t target) = mset (concat (rt_buckets t))"
proof -
  define d where "d = target_bucket t target"
  have "d \<le> ID_BITS"
    by (auto simp: d_def target_bucket_def Let_def)
  then have "[0..<ID_BITS] = [0..<d] @ [d..<ID_BITS]"
    by (metis le0 le_add_diff_inverse upt_add_eq_append)
  moreover have "map ((!) (rt_buckets t)) [0..<ID_BITS] = rt_buckets t"
    using table_okD(2) [OF assms] map_nth [of "rt_buckets t"] by simp
  ultimately have "mset (map ((!) (rt_buckets t)) (visit_order d)) = mset (rt_buckets t)"
    by (metis (no_types, lifting) add.commute map_append mset_append mset_rev rev_map visit_order_def)
  then show ?thesis
    unfolding candidates_def d_def [symmetric] by (metis mset_concat mset_map sum_mset_sum_list)
qed

lemma candidates_set: "table_ok t \<Longrightarrow> set (candidates t target) = nodes_of t"
  by (metis candidates_perm mset_eq_setD nodes_of_concat)

lemma closest_candidates:
  assumes "table_ok t" and "length target = 32"
  shows "RoutingTable_closest t target k =
     sort_key (\<lambda>n. xor_dist target (node_id n)) (take k (candidates t target))"
proof -
  let ?lt = "\<lambda>a b. compare_distance target (node_id a) (node_id b) < 0"
  let ?r = "take k (candidates t target)"
  define d where "d = target_bucket t target"
  have len: "length (node_id n) = 32" if "n \<in> set ?r" for n
    using in_set_takeD [OF that] candidates_set [OF assms(1)] nodes_of_bucket [OF assms(1)] by simp
  have sorted: "sort_by ?lt ?r = sort_key (\<lambda>n. xor_dist target (node_id n)) ?r"
    using compare_distance_dist(1) [of target] assms(2) len by (intro sort_by_sort_key) auto
  have "foldl (collect_from t k) (foldl (collect_from t k) [] [d..<ID_BITS]) (rev [0..<d]) = ?r"
    by (simp add: candidates_def visit_order_def d_def foldl_collect min_def flip: foldl_append)
  then show ?thesis
    using sorted by (simp add: RoutingTable_closest_def d_def target_bucket_def Let_def)
qed

lemma candidates_length: "table_ok t \<Longrightarrow> length (candidates t target) = rt_size t"
  by (metis candidates_perm length_concat mset_eq_length table_okD(6))

lemma candidates_distinct: "table_ok t \<Longrightarrow> distinct (map node_id (candidates t target))"
  by (metis candidates_perm mset_eq_imp_distinct_iff mset_map table_ids_distinct)

text \<open>Where the nodes of a bucket stand relative to the target.\<close>

lemma bucket_class:
  assumes t: "table_ok t" and len: "length target = 32"
    and i: "i < ID_BITS" "n \<in> set (rt_buckets t ! i)"
  defines "d \<equiv> target_bucket t target"
  shows "i < d \<Longrightarrow> bucket_index target (node_id n) = i"
    and "d < i \<Longrightarrow> bucket_index target (node_id n) = d"
    and "i = d \<Longrightarrow> d \<le> bucket_index target (node_id n) \<and> (d < bucket_index target (node_id n) \<or> Suc d = ID_BITS)"
proof -
  have n: "length (node_id n) = 32" "bucket_index (rt_id t) (node_id n) = i"
    using table_okD(4,5) [OF t i] by auto
  note l = table_okD(1) [OF t]
  have "(i < d \<longrightarrow> bucket_index target (node_id n) = i) \<and> (d < i \<longrightarrow> bucket_index target (node_id n) = d) \<and>
      (i = d \<longrightarrow> d \<le> bucket_index target (node_id n) \<and> (d < bucket_index target (node_id n) \<or> Suc d = ID_BITS))"
  proof (cases "target = rt_id t")
    case True
    then have "d = ID_BITS - 1"
      using bucket_index_less(1) [OF l len] by (auto simp: d_def target_bucket_def Let_def)
    then show ?thesis
      using True n(2) i(1) by auto
  next
    case False
    then have "bucket_index (rt_id t) target = d" "d < ID_BITS"
      using bucket_index_less(1) [OF l len] by (auto simp: d_def target_bucket_def Let_def)
    then show ?thesis
      using bucket_index_ultrametric [OF l len n(1)] n(2) by auto
  qed
  then show "i < d \<Longrightarrow> bucket_index target (node_id n) = i"
    and "d < i \<Longrightarrow> bucket_index target (node_id n) = d"
    and "i = d \<Longrightarrow> d \<le> bucket_index target (node_id n) \<and> (d < bucket_index target (node_id n) \<or> Suc d = ID_BITS)"
    by blast+
qed

definition no_farther :: "RoutingTable \<Rightarrow> NodeId \<Rightarrow> Node \<Rightarrow> Node \<Rightarrow> bool" where
  "no_farther t target n m \<longleftrightarrow> xor_dist target (node_id n) < xor_dist target (node_id m) \<or>
     bucket_index target (node_id n) = bucket_index target (node_id m) \<or>
     bucket_index (rt_id t) (node_id n) = target_bucket t target \<and>
     bucket_index (rt_id t) (node_id m) = target_bucket t target"

lemma sorted_wrt_concat:
  "\<forall>b \<in> set bs. sorted_wrt R b \<Longrightarrow> sorted_wrt (\<lambda>b c. \<forall>x \<in> set b. \<forall>y \<in> set c. R x y) bs \<Longrightarrow>
     sorted_wrt R (concat bs)"
  by (induction bs) (auto simp: sorted_wrt_append)

lemma no_farther_within:
  assumes "table_ok t" "length target = 32" "i < ID_BITS" "n \<in> set (rt_buckets t ! i)" "m \<in> set (rt_buckets t ! i)"
  shows "no_farther t target n m"
  using bucket_class [OF assms(1-3), of n] bucket_class [OF assms(1-3), of m] assms(4,5)
    table_okD(5) [OF assms(1,3)]
  by (cases i "target_bucket t target" rule: linorder_cases) (auto simp: no_farther_def)

lemma no_farther_across:
  assumes t: "table_ok t" and len: "length target = 32"
    and i: "i < ID_BITS" "n \<in> set (rt_buckets t ! i)" and j: "j < ID_BITS" "m \<in> set (rt_buckets t ! j)"
    and before: "target_bucket t target \<le> i \<and> i < j \<or> j < i \<and> j < target_bucket t target"
  shows "no_farther t target n m"
proof -
  have "bucket_index target (node_id m) \<le> bucket_index target (node_id n)"
    using bucket_class [OF t len i] bucket_class [OF t len j] before j(1)
    by (cases i "target_bucket t target" rule: linorder_cases; cases j "target_bucket t target" rule: linorder_cases) auto
  then show ?thesis
    using smaller_index_farther [OF len table_okD(4) [OF t j] table_okD(4) [OF t i]]
    by (auto simp: no_farther_def le_less)
qed

lemma candidates_ordered:
  assumes t: "table_ok t" and len: "length target = 32"
  shows "sorted_wrt (no_farther t target) (candidates t target)"
proof -
  define d where "d = target_bucket t target"
  let ?b = "(!) (rt_buckets t)"
  let ?R = "\<lambda>b c. \<forall>x \<in> set b. \<forall>y \<in> set c. no_farther t target x y"
  have order: "set (visit_order d) \<subseteq> {..<ID_BITS}"
    by (auto simp: visit_order_def d_def target_bucket_def Let_def)
  have "sorted_wrt (\<lambda>i j. d \<le> i \<and> i < j \<or> j < i \<and> j < d) (visit_order d)"
    by (auto simp: visit_order_def sorted_wrt_append sorted_wrt_rev
        intro!: sorted_wrt_mono_rel [OF _ sorted_wrt_upt])
  then have "sorted_wrt ?R (map ?b (visit_order d))"
    unfolding sorted_wrt_map
  proof (rule sorted_wrt_mono_rel [rotated])
    fix i j
    assume "i \<in> set (visit_order d)" "j \<in> set (visit_order d)" "d \<le> i \<and> i < j \<or> j < i \<and> j < d"
    then show "?R (?b i) (?b j)"
      using order no_farther_across [OF t len, of i _ j] unfolding d_def by blast
  qed
  moreover have "sorted_wrt (no_farther t target) b" if "b \<in> set (map ?b (visit_order d))" for b
    using that order no_farther_within [OF t len]
    by (auto simp: sorted_wrt_iff_nth_less)
  ultimately show ?thesis
    by (simp add: candidates_def d_def [symmetric] sorted_wrt_concat)
qed

section \<open>Metadata updates and random draws\<close>

definition apply_at :: "NodeId \<Rightarrow> (Node \<Rightarrow> Node) \<Rightarrow> Node \<Rightarrow> Node" where
  "apply_at x f n = (if node_id n = x then f n else n)"

lemma Bucket_update_map:
  assumes "Bucket_ok b"
  shows "Bucket_update b x f = map (apply_at x f) b"
proof -
  let ?r = "Bucket_find_index b x"
  have s: "sorted_wrt (<) (map node_id b)"
    using assms by (simp add: Bucket_ok_def)
  show ?thesis
  proof (cases "x \<in> node_id ` set b")
    case True
    then have r: "?r < length b" "node_id (b ! ?r) = x"
      using found_iff [OF s, of x] by auto
    have "node_id (b ! j) = x \<longleftrightarrow> j = ?r" if "j < length b" for j
      using ids_inj(3) [OF s] r that nth_eq_iff_index_eq [of "map node_id b" j ?r] by auto
    then show ?thesis
      using r by (auto simp: Bucket_update_def apply_at_def Let_def nth_list_update intro!: nth_equalityI)
  next
    case False
    then have "map (apply_at x f) b = b"
      by (auto simp: apply_at_def intro!: map_idI)
    then show ?thesis
      using found_iff [OF s, of x] False by (auto simp: Bucket_update_def Let_def)
  qed
qed

lemma update_buckets:
  assumes t: "table_ok t" and x: "length x = 32"
  shows "rt_buckets (RoutingTable_update t x f) = map (map (apply_at x f)) (rt_buckets t)"
proof (rule nth_equalityI)
  show "length (rt_buckets (RoutingTable_update t x f)) = length (map (map (apply_at x f)) (rt_buckets t))"
    by (simp add: RoutingTable_update_def Let_def)
  fix i assume "i < length (rt_buckets (RoutingTable_update t x f))"
  then have i: "i < ID_BITS"
    using table_okD(2) [OF t] by (simp add: RoutingTable_update_def Let_def split: if_splits)
  have "map (apply_at x f) (rt_buckets t ! i) = rt_buckets t ! i" if "bucket_index (rt_id t) x \<noteq> i"
    using table_okD(5) [OF t i] that by (auto simp: apply_at_def intro!: map_idI)
  then show "rt_buckets (RoutingTable_update t x f) ! i = map (map (apply_at x f)) (rt_buckets t) ! i"
    using i table_okD(2) [OF t] Bucket_update_map [OF table_okD(3) [OF t i]]
    by (auto simp: RoutingTable_update_def Let_def nth_list_update)
qed

lemma update_spec:
  assumes t: "table_ok t" and x: "length x = 32" and f: "\<And>n. node_id (f n) = node_id n"
  shows "table_ok (RoutingTable_update t x f)"
    and "length y = 32 \<Longrightarrow> RoutingTable_get (RoutingTable_update t x f) y =
      (if y = x then map_option f (RoutingTable_get t y) else RoutingTable_get t y)"
proof -
  let ?t = "RoutingTable_update t x f"
  have keep: "node_id (apply_at x f n) = node_id n" for n
    by (simp add: apply_at_def f)
  have ids: "map node_id (map (apply_at x f) b) = map node_id b" for b
    by (simp add: keep)
  have same: "rt_id ?t = rt_id t" "rt_size ?t = rt_size t"
    by (simp_all add: RoutingTable_update_def Let_def)
  have sizes: "map length (map (map g) bs) = map length bs" for g :: "Node \<Rightarrow> Node" and bs
    by simp
  show ok: "table_ok ?t"
    using t unfolding table_ok_def Bucket_ok_def same update_buckets [OF t x]
    by (auto simp: ids sizes bucket_member_def keep simp del: map_map)
  have nodes: "nodes_of ?t = apply_at x f ` nodes_of t"
    using table_okD(2) [OF t] by (auto simp: nodes_of_def update_buckets [OF t x])
  show "RoutingTable_get ?t y = (if y = x then map_option f (RoutingTable_get t y) else RoutingTable_get t y)"
    if y: "length y = 32"
  proof -
    have "RoutingTable_get ?t y = Some m \<longleftrightarrow> (\<exists>n. RoutingTable_get t y = Some n \<and> m = apply_at x f n)" for m
      using get_iff [OF ok y] get_iff [OF t y] nodes keep by auto
    then have "RoutingTable_get ?t y = map_option (apply_at x f) (RoutingTable_get t y)"
      by (intro option_eqI) auto
    moreover have "node_id n = y" if "RoutingTable_get t y = Some n" for n
      using get_iff [OF t y, of n] that by simp
    ultimately show ?thesis
      by (cases "RoutingTable_get t y") (auto simp: apply_at_def)
  qed
qed

lemma nth_node_concat: "n < length (concat bs) \<Longrightarrow> nth_node bs n = Some (concat bs ! n)"
  by (induction bs arbitrary: n) (auto simp: nth_append)

lemma random_nth: "table_ok t \<Longrightarrow> n < rt_size t \<Longrightarrow> RoutingTable_random t n = Some (concat (rt_buckets t) ! n)"
  unfolding RoutingTable_random_def by (metis length_concat less_nat_zero_code nth_node_concat table_okD(6))

section \<open>Properties of the routing table\<close>

definition node_at :: "u8 \<Rightarrow> u16 \<Rightarrow> Node" where
  "node_at b port = \<lparr>node_id = b # replicate 31 0, node_host = ''10.0.0.1'', node_port = port, node_token = [],
     node_round_trip_time = 0, node_added_at = 0, node_added = 0, node_pinged = 0, node_seen = 0,
     node_sampled = 0, node_down_hints = 0\<rparr>"

definition one_node_table :: RoutingTable where
  "one_node_table = (fst (snd (RoutingTable_add (RoutingTable_new (replicate 32 0)) (node_at 5 1))))\<lparr>rt_on_full := True\<rparr>"

lemma one_node_table_ok: "table_ok one_node_table" "rt_size one_node_table = 1"
    "nodes_of one_node_table = {node_at 5 1}"
proof -
  have len: "length (node_id (node_at 5 1)) = 32"
    and r: "fst (RoutingTable_add (RoutingTable_new (replicate 32 0)) (node_at 5 1))"
    by code_simp+
  note add = add_cases [OF table_ok_new [of "replicate 32 0"] len]
  show "table_ok one_node_table" "nodes_of one_node_table = {node_at 5 1}"
    using add(2,3) r by (simp_all add: one_node_table_def nodes_of_new)
  show "rt_size one_node_table = 1"
    by code_simp
qed

text \<open>C36. The routing table is a bounded map: an insertion succeeds exactly for an unknown id other
  than the local one whose bucket holds fewer than 20 nodes, and then adds that one binding; a removal
  deletes exactly the binding of its id; both keep the table invariant (256 buckets, each sorted by id
  and of at most 20 nodes, every node in the bucket of its first differing bit, and an exact size).\<close>

theorem routing_table_map:
  assumes "table_ok t" and "length (node_id n) = 32" and "length x = 32" and "length y = 32"
  shows "table_ok (fst (snd (RoutingTable_add t n))) \<and> table_ok (snd (RoutingTable_remove t x)) \<and>
    (fst (RoutingTable_add t n) \<longleftrightarrow>
       node_id n \<noteq> rt_id t \<and> RoutingTable_get t (node_id n) = None \<and> has_room t (node_id n)) \<and>
    RoutingTable_get (fst (snd (RoutingTable_add t n))) x =
      (if fst (RoutingTable_add t n) \<and> x = node_id n then Some n else RoutingTable_get t x) \<and>
    (fst (RoutingTable_remove t x) \<longleftrightarrow> RoutingTable_get t x \<noteq> None) \<and>
    RoutingTable_get (snd (RoutingTable_remove t x)) y = (if y = x then None else RoutingTable_get t y)"
  using assms add_cases [OF assms(1,2)] remove_cases [OF assms(1,3)]
    rt.ins_lookup [OF assms(1-3)] rt.del_lookup [OF assms(1,3,4)]
  by simp

theorem routing_table_map_witness:
  "RoutingTable_get (fst (snd (RoutingTable_add one_node_table (node_at 9 1)))) (9 # replicate 31 0) = Some (node_at 9 1) \<and>
   RoutingTable_get (snd (RoutingTable_remove one_node_table (9 # replicate 31 0))) (5 # replicate 31 0) = Some (node_at 5 1)"
proof -
  have "fst (RoutingTable_add one_node_table (node_at 9 1))"
    "RoutingTable_get one_node_table (5 # replicate 31 0) = Some (node_at 5 1)"
    by code_simp+
  then show ?thesis
    using routing_table_map [OF one_node_table_ok(1), of "node_at 9 1" "9 # replicate 31 0" "5 # replicate 31 0"]
    by (simp add: node_at_def)
qed

text \<open>Rebuilding the table under a new local id keeps the invariant, the new id and the callback,
  invents no node, and loses a node only if it is the new local id itself or its new bucket is full.\<close>

lemma rebuild_with_id_complete:
  assumes "table_ok t" and "length new_id = 32"
  shows "table_ok (RoutingTable_rebuild_with_id t new_id) \<and>
    rt_id (RoutingTable_rebuild_with_id t new_id) = new_id \<and>
    rt_on_full (RoutingTable_rebuild_with_id t new_id) = rt_on_full t \<and>
    nodes_of (RoutingTable_rebuild_with_id t new_id) \<subseteq> nodes_of t \<and>
    (\<forall>n \<in> nodes_of t - nodes_of (RoutingTable_rebuild_with_id t new_id).
       node_id n = new_id \<or> \<not> has_room (RoutingTable_rebuild_with_id t new_id) (node_id n))"
  using rebuild_spec [OF assms] by blast

text \<open>C35. \<^verbatim>\<open>closest\<close> returns distinct nodes of the table, sorted by XOR distance to the target, as many as
  asked for or all there are.  A node it leaves out is farther than every node it returns, except that
  the two may leave the target at the same bit, or both lie in the target's own bucket.\<close>

theorem closest_spec:
  assumes "table_ok t" and "length target = 32"
  shows "sorted (map (\<lambda>n. xor_dist target (node_id n)) (RoutingTable_closest t target k)) \<and>
    distinct (map node_id (RoutingTable_closest t target k)) \<and>
    set (RoutingTable_closest t target k) \<subseteq> nodes_of t \<and>
    length (RoutingTable_closest t target k) = min k (rt_size t) \<and>
    (\<forall>n \<in> set (RoutingTable_closest t target k). \<forall>m \<in> nodes_of t - set (RoutingTable_closest t target k).
       no_farther t target n m)"
proof -
  let ?c = "candidates t target"
  have m: "set (take k ?c) \<subseteq> nodes_of t" "nodes_of t = set (take k ?c) \<union> set (drop k ?c)"
    using candidates_set [OF assms(1), of target] set_take_subset [of k ?c]
    by (auto simp flip: set_append)
  have "distinct (map node_id (take k ?c))"
    using candidates_distinct [OF assms(1)] by (simp add: distinct_take flip: take_map)
  then have "distinct (map node_id (sort_key (\<lambda>n. xor_dist target (node_id n)) (take k ?c)))"
    by (metis mset_map mset_sort mset_eq_imp_distinct_iff)
  moreover have "sorted_wrt (no_farther t target) (take k ?c @ drop k ?c)"
    using candidates_ordered [OF assms] by simp
  then have "no_farther t target n m" if "n \<in> set (take k ?c)" "m \<in> set (drop k ?c)" for n m
    using that unfolding sorted_wrt_append by blast
  ultimately show ?thesis
    using m candidates_length [OF assms(1), of target] unfolding closest_candidates [OF assms]
    by auto
qed

theorem closest_spec_witness:
  "length (RoutingTable_closest one_node_table (replicate 32 7) 20) = 1 \<and>
   set (RoutingTable_closest one_node_table (replicate 32 7) 20) \<subseteq> {node_at 5 1}"
  using closest_spec [OF one_node_table_ok(1), of "replicate 32 7" 20] by (simp add: one_node_table_ok)

text \<open>The result is not always the set of the nearest nodes: with two nodes in the target's bucket
  and a request for one, \<^verbatim>\<open>closest\<close> cuts the bucket in id order before it sorts by distance, and
  returns the node that is farther from the target.\<close>

lemma closest_not_nearest:
  "let t = foldl (\<lambda>t n. fst (snd (RoutingTable_add t n))) (RoutingTable_new (replicate 32 0)) [node_at 4 1, node_at 6 2];
       target = 7 # replicate 31 0
   in RoutingTable_closest t target 1 = [node_at 4 1] \<and>
      compare_distance target (node_id (node_at 6 2)) (node_id (node_at 4 1)) = -1"
  by code_simp

text \<open>Drawing an index below the table's size yields each node of the table for exactly one index, so
  a uniform index gives a uniform node, and the walk over the buckets never runs past the end.\<close>

lemma random_uniform:
  assumes "table_ok t"
  shows "bij_betw (RoutingTable_random t) {..<rt_size t} (Some ` nodes_of t)"
proof (rule bij_betw_imageI)
  let ?c = "concat (rt_buckets t)"
  have d: "distinct ?c" and len: "length ?c = rt_size t"
    using table_ids_distinct [OF assms] table_okD(6) [OF assms] by (simp_all add: distinct_map length_concat)
  show "inj_on (RoutingTable_random t) {..<rt_size t}"
    using d len by (auto simp: inj_on_def random_nth [OF assms] nth_eq_iff_index_eq)
  show "RoutingTable_random t ` {..<rt_size t} = Some ` nodes_of t"
    unfolding nodes_of_concat [OF assms] set_conv_nth [of ?c] len
    by (auto simp: random_nth [OF assms] image_iff)
qed

text \<open>The \<^verbatim>\<open>on_full\<close> callback also fires for a node that is already in the table, whatever the fill of
  its bucket.\<close>

lemma on_full_for_known_node:
  assumes "table_ok t" and "length (node_id n) = 32" and "rt_on_full t"
    and "RoutingTable_get t (node_id n) = Some m"
  shows "RoutingTable_add t n = (False, t, Some (bucket_index (rt_id t) (node_id n), n))"
proof -
  have rej: "\<not> fst (RoutingTable_add t n)"
    using add_cases(1) [OF assms(1,2)] assms(4) by simp
  have "\<not> ID_BITS \<le> bucket_index (rt_id t) (node_id n)" "node_id n \<noteq> rt_id t"
    using assms(1,2,4) bucket_index_less(1) [of "rt_id t" "node_id n"] table_okD(1) [OF assms(1)]
    by (auto simp: RoutingTable_get_def Let_def split: if_splits)
  then show ?thesis
    using rej assms(3) by (auto simp: RoutingTable_add_def Let_def split: prod.splits bool.splits)
qed

text \<open>Of two identifiers, the one that shares the longer bit prefix with the target is the nearer one by
  \<^verbatim>\<open>compare_distance\<close>.\<close>

lemma longer_prefix_nearer:
  assumes "length t = 32" and "length a = 32" and "length b = 32"
    and "bucket_index t a < bucket_index t b"
  shows "compare_distance t b a < 0"
  using smaller_index_farther [OF assms] compare_distance_dist(1) [of t b a] assms by simp

end
