(* ===== verification/Lru_Cache.thy ===== *)
theory Lru_Cache
  imports Prelude "HOL-Library.AList" "HOL-Library.Sublist"
begin

text \<open>
  The LRU cache (\<^verbatim>\<open>include/hyperdht/lru_cache.hpp\<close>) behind the mutable and immutable record stores.  The
  linked list is a list of nodes with an identity, the hash map sends a key to the identity of its node,
  as the iterators of \<^verbatim>\<open>std::list\<close> do; \<open>lc_next\<close> is the allocator's next fresh identity.  Following an
  iterator whose node is gone sets \<open>lc_fault\<close>.  The refinement theorems relate the two structures to one
  list of entries in recency order.
\<close>

section \<open>The cache\<close>

record ('k, 'v) Entry =
  en_key :: 'k
  en_value :: 'v
  en_created_at :: u64

record ('k, 'v) LruCache =
  lc_max_size :: nat
  lc_entries :: "(nat \<times> ('k, 'v) Entry) list"
  lc_map :: "('k \<times> nat) list"
  lc_next :: nat
  lc_fault :: bool

definition LruCache_new :: "nat \<Rightarrow> ('k, 'v) LruCache" where
  "LruCache_new max_size = \<lparr>lc_max_size = max_size, lc_entries = [], lc_map = [], lc_next = 0, lc_fault = False\<rparr>"

text \<open>\<^verbatim>\<open>entries_.splice(entries_.begin(), entries_, it)\<close>: the node moves to the front.\<close>

definition splice_front :: "nat \<Rightarrow> ('k, 'v) LruCache \<Rightarrow> ('k, 'v) LruCache" where
  "splice_front it c =
     (case map_of (lc_entries c) it of
        Some e \<Rightarrow> c\<lparr>lc_entries := (it, e) # filter (\<lambda>n. fst n \<noteq> it) (lc_entries c)\<rparr>
      | None \<Rightarrow> c\<lparr>lc_fault := True\<rparr>)"

definition write_front :: "'v \<Rightarrow> u64 \<Rightarrow> ('k, 'v) LruCache \<Rightarrow> ('k, 'v) LruCache" where
  "write_front v now_ms c =
     (case lc_entries c of
        (it, e) # es \<Rightarrow> c\<lparr>lc_entries := (it, e\<lparr>en_value := v, en_created_at := now_ms\<rparr>) # es\<rparr>
      | [] \<Rightarrow> c\<lparr>lc_fault := True\<rparr>)"

function evict_loop :: "('k, 'v) LruCache \<Rightarrow> ('k, 'v) LruCache" where
  "evict_loop c =
     (if length (lc_entries c) \<ge> lc_max_size c \<and> lc_entries c \<noteq> [] then
        let oldest = snd (last (lc_entries c)) in
        evict_loop (c\<lparr>lc_entries := butlast (lc_entries c), lc_map := AList.delete (en_key oldest) (lc_map c)\<rparr>)
      else c)"
  by pat_completeness auto
termination
  by (relation "measure (\<lambda>c. length (lc_entries c))") auto

declare evict_loop.simps [simp del]

definition LruCache_put :: "'k \<Rightarrow> 'v \<Rightarrow> u64 \<Rightarrow> ('k, 'v) LruCache \<Rightarrow> ('k, 'v) LruCache" where
  "LruCache_put key v now_ms c =
     (case map_of (lc_map c) key of
        Some it \<Rightarrow> write_front v now_ms (splice_front it c)
      | None \<Rightarrow>
          let c1 = evict_loop c; it = lc_next c1 in
          c1\<lparr>lc_entries := (it, \<lparr>en_key = key, en_value = v, en_created_at = now_ms\<rparr>) # lc_entries c1,
             lc_map := AList.update key it (lc_map c1), lc_next := Suc it\<rparr>)"

definition LruCache_get :: "'k \<Rightarrow> ('k, 'v) LruCache \<Rightarrow> 'v option \<times> ('k, 'v) LruCache" where
  "LruCache_get key c =
     (case map_of (lc_map c) key of
        None \<Rightarrow> (None, c)
      | Some it \<Rightarrow>
          let c1 = splice_front it c in (map_option en_value (map_of (lc_entries c1) it), c1))"

definition LruCache_remove :: "'k \<Rightarrow> ('k, 'v) LruCache \<Rightarrow> ('k, 'v) LruCache" where
  "LruCache_remove key c =
     (case map_of (lc_map c) key of
        None \<Rightarrow> c
      | Some it \<Rightarrow>
          c\<lparr>lc_entries := filter (\<lambda>n. fst n \<noteq> it) (lc_entries c), lc_map := AList.delete key (lc_map c)\<rparr>)"

definition expired :: "u64 \<Rightarrow> u64 \<Rightarrow> ('k, 'v) Entry \<Rightarrow> bool" where
  "expired now_ms max_age_ms e \<longleftrightarrow> now_ms \<ge> en_created_at e \<and> now_ms - en_created_at e > max_age_ms"

fun gc_loop :: "u64 \<Rightarrow> u64 \<Rightarrow> (nat \<times> ('k, 'v) Entry) list \<Rightarrow> ('k \<times> nat) list \<Rightarrow>
    (nat \<times> ('k, 'v) Entry) list \<times> ('k \<times> nat) list" where
  "gc_loop now_ms max_age_ms [] m = ([], m)"
| "gc_loop now_ms max_age_ms (n # ns) m =
     (if expired now_ms max_age_ms (snd n)
      then gc_loop now_ms max_age_ms ns (AList.delete (en_key (snd n)) m)
      else let (ns', m') = gc_loop now_ms max_age_ms ns m in (n # ns', m'))"

definition LruCache_gc :: "u64 \<Rightarrow> u64 \<Rightarrow> ('k, 'v) LruCache \<Rightarrow> ('k, 'v) LruCache" where
  "LruCache_gc now_ms max_age_ms c =
     (let (ns, m) = gc_loop now_ms max_age_ms (lc_entries c) (lc_map c)
      in c\<lparr>lc_entries := ns, lc_map := m\<rparr>)"

definition LruCache_size :: "('k, 'v) LruCache \<Rightarrow> nat" where
  "LruCache_size c = length (lc_map c)"

section \<open>Invariant and abstraction\<close>

definition lru_list :: "('k, 'v) LruCache \<Rightarrow> ('k, 'v) Entry list" where
  "lru_list c = map snd (lc_entries c)"

text \<open>Both structures hold the same entries, and every iterator in the map points at the node of its key.\<close>

definition lru_ok :: "('k, 'v) LruCache \<Rightarrow> bool" where
  "lru_ok c \<longleftrightarrow> distinct (map fst (lc_entries c)) \<and> distinct (map en_key (lru_list c)) \<and>
     (\<forall>n \<in> set (lc_entries c). fst n < lc_next c) \<and> distinct (map fst (lc_map c)) \<and>
     set (lc_map c) = (\<lambda>(it, e). (en_key e, it)) ` set (lc_entries c) \<and>
     length (lc_entries c) \<le> max 1 (lc_max_size c) \<and> \<not> lc_fault c"

definition lru_find :: "'k \<Rightarrow> ('k, 'v) Entry list \<Rightarrow> ('k, 'v) Entry option" where
  "lru_find k es = find (\<lambda>e. en_key e = k) es"

lemma map_iterator:
  assumes "lru_ok c"
  shows "map_of (lc_map c) k = Some it \<longleftrightarrow> (\<exists>e. (it, e) \<in> set (lc_entries c) \<and> en_key e = k)"
  using assms by (auto simp: lru_ok_def map_of_eq_Some_iff image_iff split: prod.splits)

lemma delete_set: "set (AList.delete k m) = {p \<in> set m. fst p \<noteq> k}"
  by (auto simp: AList.delete_eq split: prod.splits)

lemma update_fresh: "k \<notin> fst ` set m \<Longrightarrow> AList.update k v m = m @ [(k, v)]"
  by (induction m) auto

lemma lru_okD:
  assumes "lru_ok c"
  shows "inj_on fst (set (lc_entries c))" and "inj_on (\<lambda>n. en_key (snd n)) (set (lc_entries c))"
    and "set (lc_map c) = (\<lambda>(it, e). (en_key e, it)) ` set (lc_entries c)"
    and "length (lc_entries c) \<le> max 1 (lc_max_size c)" and "distinct (map fst (lc_map c))"
proof -
  have "distinct (map (\<lambda>n. en_key (snd n)) (lc_entries c))"
    using assms by (simp add: lru_ok_def lru_list_def comp_def)
  then show "inj_on (\<lambda>n. en_key (snd n)) (set (lc_entries c))"
    by (simp only: distinct_map)
  show "inj_on fst (set (lc_entries c))"
    using assms by (simp add: lru_ok_def distinct_map)
qed (use assms in \<open>simp_all add: lru_ok_def\<close>)

lemma node_key_iff:
  assumes "lru_ok c" "(it, e) \<in> set (lc_entries c)" "n \<in> set (lc_entries c)"
  shows "fst n = it \<longleftrightarrow> en_key (snd n) = en_key e"
  using inj_on_eq_iff [OF lru_okD(1) [OF assms(1)] assms(3,2)]
    inj_on_eq_iff [OF lru_okD(2) [OF assms(1)] assms(3,2)] by simp

lemma filter_node:
  assumes "lru_ok c" "(it, e) \<in> set (lc_entries c)"
  shows "filter (\<lambda>n. fst n \<noteq> it) (lc_entries c) = filter (\<lambda>n. en_key (snd n) \<noteq> en_key e) (lc_entries c)"
  by (rule filter_cong) (simp_all add: node_key_iff [OF assms])

lemma lru_list_filter: "map snd (filter (\<lambda>n. P (snd n)) ns) = filter P (map snd ns)"
  by (simp add: filter_map comp_def)

lemma lru_list_filter_key:
  "map snd (filter (\<lambda>n. en_key (snd n) \<noteq> k) ns) = filter (\<lambda>e. en_key e \<noteq> k) (map snd ns)"
  "map snd (filter (\<lambda>n. \<not> expired now age (snd n)) ns) = filter (\<lambda>e. \<not> expired now age e) (map snd ns)"
  by (rule lru_list_filter)+

text \<open>Dropping nodes from the list together with their keys from the map.\<close>

lemma lru_ok_filter:
  assumes "lru_ok c" and "set m = {p \<in> set (lc_map c). \<exists>n \<in> set (lc_entries c). fst p = en_key (snd n) \<and> P (snd n)}"
    and "distinct (map fst m)"
  shows "lru_ok (c\<lparr>lc_entries := filter (\<lambda>n. P (snd n)) (lc_entries c), lc_map := m\<rparr>)"
proof -
  have "set m = (\<lambda>(it, e). (en_key e, it)) ` {n \<in> set (lc_entries c). P (snd n)}"
  proof (intro equalityI subsetI)
    fix p assume "p \<in> set m"
    then obtain n n' where n: "n \<in> set (lc_entries c)" "p = (en_key (snd n), fst n)"
      "n' \<in> set (lc_entries c)" "fst p = en_key (snd n')" "P (snd n')"
      using lru_okD(3) [OF assms(1)] by (auto simp: assms(2))
    then have "n = n'"
      using inj_onD [OF lru_okD(2) [OF assms(1)], of n n'] by simp
    then show "p \<in> (\<lambda>(it, e). (en_key e, it)) ` {n \<in> set (lc_entries c). P (snd n)}"
      using n by (auto intro!: image_eqI [of _ _ n] split: prod.splits)
  next
    fix p assume "p \<in> (\<lambda>(it, e). (en_key e, it)) ` {n \<in> set (lc_entries c). P (snd n)}"
    then show "p \<in> set m"
      using lru_okD(3) [OF assms(1)] by (force simp: assms(2))
  qed
  moreover have "length (filter (\<lambda>n. P (snd n)) (lc_entries c)) \<le> max 1 (lc_max_size c)"
    using lru_okD(4) [OF assms(1)] length_filter_le [of "\<lambda>n. P (snd n)" "lc_entries c"] by linarith
  moreover have "distinct (map en_key (filter P (map snd (lc_entries c))))"
    using assms(1) by (intro distinct_map_filter) (simp add: lru_ok_def lru_list_def)
  ultimately show ?thesis
    using assms(1,3) by (simp add: lru_ok_def lru_list_def lru_list_filter distinct_map_filter)
qed

lemma map_keys: "lru_ok c \<Longrightarrow> p \<in> set (lc_map c) \<Longrightarrow> fst p \<in> (\<lambda>n. en_key (snd n)) ` set (lc_entries c)"
  using lru_okD(3) [of c] by (auto intro: rev_image_eqI)

lemma lru_ok_delete:
  assumes "lru_ok c"
  shows "lru_ok (c\<lparr>lc_entries := filter (\<lambda>n. en_key (snd n) \<noteq> k) (lc_entries c), lc_map := AList.delete k (lc_map c)\<rparr>)"
proof (rule lru_ok_filter [OF assms])
  show "set (AList.delete k (lc_map c)) =
      {p \<in> set (lc_map c). \<exists>n \<in> set (lc_entries c). fst p = en_key (snd n) \<and> en_key (snd n) \<noteq> k}"
    using map_keys [OF assms] unfolding delete_set by (auto simp: image_iff)
  show "distinct (map fst (AList.delete k (lc_map c)))"
    using lru_okD(5) [OF assms] by (rule distinct_delete)
qed

section \<open>The operations on the abstract list\<close>

lemma splice_front_spec:
  assumes "lru_ok c" "(it, e) \<in> set (lc_entries c)"
  shows "splice_front it c = c\<lparr>lc_entries := (it, e) # filter (\<lambda>n. en_key (snd n) \<noteq> en_key e) (lc_entries c)\<rparr>"
proof -
  have "map_of (lc_entries c) it = Some e"
    using assms by (simp add: lru_ok_def map_of_eq_Some_iff)
  then show ?thesis
    by (simp add: splice_front_def filter_node [OF assms])
qed

text \<open>Moving an entry to the front, with a new value or the old one.\<close>

lemma lru_ok_promote:
  assumes "lru_ok c" "(it, e) \<in> set (lc_entries c)" "en_key e' = en_key e"
  shows "lru_ok (c\<lparr>lc_entries := (it, e') # filter (\<lambda>n. en_key (snd n) \<noteq> en_key e) (lc_entries c)\<rparr>)"
proof -
  let ?f = "filter (\<lambda>n. en_key (snd n) \<noteq> en_key e) (lc_entries c)"
  have it: "it \<notin> fst ` set ?f" "en_key e \<notin> (\<lambda>n. en_key (snd n)) ` set ?f"
    using node_key_iff [OF assms(1,2)] by auto
  have "length ?f < length (lc_entries c)"
    using assms(2) by (intro length_filter_less) auto
  then have len: "Suc (length ?f) \<le> max 1 (lc_max_size c)"
    using lru_okD(4) [OF assms(1)] by linarith
  have "set (lc_entries c) = insert (it, e) (set ?f)"
    using inj_onD [OF lru_okD(2) [OF assms(1)], of _ "(it, e)"] assms(2) by fastforce
  then have "set (lc_map c) = (\<lambda>(it, e). (en_key e, it)) ` insert (it, e) (set ?f)"
    using lru_okD(3) [OF assms(1)] by metis
  then have "set (lc_map c) = insert (en_key e, it) ((\<lambda>(it, e). (en_key e, it)) ` set ?f)"
    by simp
  moreover have "distinct (map en_key (filter (\<lambda>x. en_key x \<noteq> en_key e) (map snd (lc_entries c))))"
    using assms(1) by (intro distinct_map_filter) (simp add: lru_ok_def lru_list_def)
  moreover have "it < lc_next c"
    using assms(1,2) by (auto simp: lru_ok_def)
  ultimately show ?thesis
    using assms(1,3) it len
    by (simp add: lru_ok_def lru_list_def lru_list_filter distinct_map_filter del: max_def)
qed

lemma evict_loop_spec:
  assumes "lru_ok c"
  shows "lru_ok (evict_loop c) \<and> lru_list (evict_loop c) = take (lc_max_size c - 1) (lru_list c) \<and>
    lc_max_size (evict_loop c) = lc_max_size c \<and> lc_next (evict_loop c) = lc_next c"
  using assms
proof (induction c rule: evict_loop.induct)
  case (1 c)
  show ?case
  proof (cases "length (lc_entries c) \<ge> lc_max_size c \<and> lc_entries c \<noteq> []")
    case True
    then obtain ns it e where es: "lc_entries c = ns @ [(it, e)]"
      by (metis append_butlast_last_id surj_pair)
    let ?c = "c\<lparr>lc_entries := butlast (lc_entries c), lc_map := AList.delete (en_key e) (lc_map c)\<rparr>"
    have "\<forall>n \<in> set ns. en_key (snd n) \<noteq> en_key e"
      using "1.prems" es by (auto simp: lru_ok_def lru_list_def image_iff)
    then have "butlast (lc_entries c) = filter (\<lambda>n. en_key (snd n) \<noteq> en_key e) (lc_entries c)"
      by (simp add: es)
    then have ok: "lru_ok ?c"
      using lru_ok_delete [OF "1.prems", of "en_key e"] by simp
    have "lru_list ?c = butlast (lru_list c)"
      by (simp add: lru_list_def map_butlast)
    moreover have "evict_loop c = evict_loop ?c"
      using True by (simp add: evict_loop.simps [of c] es)
    moreover have "lru_ok (evict_loop ?c) \<and> lru_list (evict_loop ?c) = take (lc_max_size ?c - 1) (lru_list ?c) \<and>
        lc_max_size (evict_loop ?c) = lc_max_size ?c \<and> lc_next (evict_loop ?c) = lc_next ?c"
      using "1.IH" [OF True refl] ok by (simp add: es)
    moreover have "lc_max_size c - 1 < length (lru_list c)"
      using True by (cases "lc_entries c") (auto simp: lru_list_def)
    ultimately show ?thesis
      by (simp add: take_butlast)
  next
    case False
    then show ?thesis
      using "1.prems" by (auto simp: evict_loop.simps [of c] lru_list_def)
  qed
qed

lemma lru_find_Some:
  "distinct (map en_key es) \<Longrightarrow> lru_find k es = Some e \<longleftrightarrow> e \<in> set es \<and> en_key e = k"
  by (induction es) (auto simp: lru_find_def)

lemma lru_find_filter:
  assumes "distinct (map en_key es)"
  shows "lru_find k (filter P es) = (case lru_find k es of None \<Rightarrow> None | Some e \<Rightarrow> if P e then Some e else None)"
  using assms
proof (induction es)
  case (Cons x es)
  have "lru_find k (filter P es) = None" if "en_key x = k"
    using Cons.prems that by (auto simp: lru_find_def find_None_iff image_iff)
  then show ?case
    using Cons by (auto simp: lru_find_def)
qed (simp add: lru_find_def)

lemma lru_find_cong:
  assumes "distinct (map en_key xs)" "distinct (map en_key ys)" "set xs = set ys"
  shows "lru_find k xs = lru_find k ys"
  using lru_find_Some [OF assms(1), of k] lru_find_Some [OF assms(2), of k] assms(3)
  by (metis option.exhaust)

lemma lru_find_None: "lru_find k es = None \<longleftrightarrow> k \<notin> en_key ` set es"
  by (auto simp: lru_find_def find_None_iff)

lemma lru_find_iterator:
  assumes "lru_ok c"
  shows "map_of (lc_map c) k = None \<longleftrightarrow> lru_find k (lru_list c) = None"
    and "map_of (lc_map c) k = Some it \<Longrightarrow> (it, e) \<in> set (lc_entries c) \<Longrightarrow> lru_find k (lru_list c) = Some e"
    and "map_of (lc_map c) k = Some it \<Longrightarrow> \<exists>e. (it, e) \<in> set (lc_entries c) \<and> en_key e = k"
proof -
  have "fst ` set (lc_map c) = en_key ` set (lru_list c)"
    using lru_okD(3) [OF assms] by (force simp: lru_list_def)
  then show "map_of (lc_map c) k = None \<longleftrightarrow> lru_find k (lru_list c) = None"
    by (simp add: map_of_eq_None_iff lru_find_None)
  show "\<exists>e. (it, e) \<in> set (lc_entries c) \<and> en_key e = k" if "map_of (lc_map c) k = Some it"
    using map_iterator [OF assms] that by simp
  then show "lru_find k (lru_list c) = Some e" if it: "map_of (lc_map c) k = Some it" "(it, e) \<in> set (lc_entries c)"
  proof -
    obtain e' where e': "(it, e') \<in> set (lc_entries c)" "en_key e' = k"
      using map_iterator [OF assms] it(1) by blast
    then have "e' = e"
      using inj_onD [OF lru_okD(1) [OF assms] _ e'(1) it(2)] by simp
    then have "en_key e = k" "e \<in> set (lru_list c)"
      using e'(2) it(2) by (auto simp: lru_list_def intro: image_eqI [of _ snd "(it, e)"])
    then show ?thesis
      using assms by (simp add: lru_find_Some lru_ok_def)
  qed
qed

lemma put_fresh:
  assumes "lru_ok c" and k: "map_of (lc_map c) k = None"
  shows "lru_ok (LruCache_put k v now c)"
    and "lru_list (LruCache_put k v now c) =
      \<lparr>en_key = k, en_value = v, en_created_at = now\<rparr> # take (lc_max_size c - 1) (lru_list c)"
proof -
  let ?c = "evict_loop c"
  have c: "lru_ok ?c" "lru_list ?c = take (lc_max_size c - 1) (lru_list c)" "lc_max_size ?c = lc_max_size c"
    using evict_loop_spec [OF assms(1)] by auto
  have keys: "k \<notin> en_key ` set (lru_list ?c)"
    using lru_find_iterator(1) [OF assms(1)] k c(2) by (auto simp: lru_find_None dest: in_set_takeD)
  then have new: "k \<notin> fst ` set (lc_map ?c)"
    using lru_okD(3) [OF c(1)] by (force simp: lru_list_def)
  have keys': "k \<notin> (\<lambda>n. en_key (snd n)) ` set (lc_entries ?c)"
    using keys by (simp add: lru_list_def image_image)
  have fresh: "lc_next ?c \<notin> fst ` set (lc_entries ?c)" "\<forall>n \<in> set (lc_entries ?c). fst n < Suc (lc_next ?c)"
    using c(1) by (auto simp: lru_ok_def)
  have "length (lc_entries ?c) \<le> lc_max_size c - 1"
    using c(2) by (metis length_map length_take lru_list_def min.cobounded2)
  then have len: "Suc (length (lc_entries ?c)) \<le> max 1 (lc_max_size c)"
    by linarith
  show "lru_list (LruCache_put k v now c) =
      \<lparr>en_key = k, en_value = v, en_created_at = now\<rparr> # take (lc_max_size c - 1) (lru_list c)"
    using k c(2) by (simp add: LruCache_put_def Let_def lru_list_def)
  show "lru_ok (LruCache_put k v now c)"
    using k c(1,3) fresh keys' new len lru_okD(3,5) [OF c(1)]
    by (simp add: LruCache_put_def Let_def lru_ok_def lru_list_def update_fresh)
qed

lemma put_known:
  assumes "lru_ok c" and k: "map_of (lc_map c) k = Some it"
  shows "lru_ok (LruCache_put k v now c)"
    and "lru_list (LruCache_put k v now c) =
      \<lparr>en_key = k, en_value = v, en_created_at = now\<rparr> # filter (\<lambda>e. en_key e \<noteq> k) (lru_list c)"
proof -
  obtain e where e: "(it, e) \<in> set (lc_entries c)" "en_key e = k"
    using lru_find_iterator(3) [OF assms] by blast
  let ?e = "e\<lparr>en_value := v, en_created_at := now\<rparr>"
  have put: "LruCache_put k v now c =
      c\<lparr>lc_entries := (it, ?e) # filter (\<lambda>n. en_key (snd n) \<noteq> en_key e) (lc_entries c)\<rparr>"
    using k by (simp add: LruCache_put_def write_front_def splice_front_spec [OF assms(1) e(1)])
  show "lru_ok (LruCache_put k v now c)"
    unfolding put by (rule lru_ok_promote [OF assms(1) e(1)]) simp
  have "?e = \<lparr>en_key = k, en_value = v, en_created_at = now\<rparr>"
    using e(2) by (cases e) simp
  then show "lru_list (LruCache_put k v now c) =
      \<lparr>en_key = k, en_value = v, en_created_at = now\<rparr> # filter (\<lambda>e. en_key e \<noteq> k) (lru_list c)"
    unfolding put lru_list_def by (simp add: lru_list_filter_key e(2))
qed

lemma put_spec:
  assumes "lru_ok c"
  shows "lru_ok (LruCache_put k v now c)"
    and "lru_list (LruCache_put k v now c) =
      take (max 1 (lc_max_size c)) (\<lparr>en_key = k, en_value = v, en_created_at = now\<rparr> # filter (\<lambda>e. en_key e \<noteq> k) (lru_list c))"
    and "lc_max_size (LruCache_put k v now c) = lc_max_size c"
proof -
  have keep: "filter (\<lambda>e. en_key e \<noteq> k) (lru_list c) = lru_list c" if "map_of (lc_map c) k = None"
    using lru_find_iterator(1) [OF assms, of k] that by (auto simp: lru_find_None filter_id_conv)
  have m: "take (max 1 n) (x # xs) = x # take (n - 1) xs" for n and x :: "('a, 'b) Entry" and xs
    by (cases n) auto
  show "lru_ok (LruCache_put k v now c)"
    using put_fresh(1) [OF assms] put_known(1) [OF assms] by (cases "map_of (lc_map c) k") auto
  have "length (lru_list (LruCache_put k v now c)) \<le> max 1 (lc_max_size (LruCache_put k v now c))"
    using lru_okD(4) [OF \<open>lru_ok (LruCache_put k v now c)\<close>] by (simp add: lru_list_def)
  moreover show "lc_max_size (LruCache_put k v now c) = lc_max_size c"
    using evict_loop_spec [OF assms]
    by (auto simp: LruCache_put_def write_front_def splice_front_def Let_def split: option.splits list.splits)
  ultimately show "lru_list (LruCache_put k v now c) =
      take (max 1 (lc_max_size c)) (\<lparr>en_key = k, en_value = v, en_created_at = now\<rparr> # filter (\<lambda>e. en_key e \<noteq> k) (lru_list c))"
    using put_fresh(2) [OF assms, of k v now] put_known(2) [OF assms, of k _ v now] keep m
    by (cases "map_of (lc_map c) k") (auto simp: min_def)
qed

lemma get_spec:
  assumes "lru_ok c"
  shows "lru_ok (snd (LruCache_get k c))"
    and "fst (LruCache_get k c) = map_option en_value (lru_find k (lru_list c))"
    and "lru_list (snd (LruCache_get k c)) =
      (case lru_find k (lru_list c) of None \<Rightarrow> lru_list c | Some e \<Rightarrow> e # filter (\<lambda>e. en_key e \<noteq> k) (lru_list c))"
    and "lc_max_size (snd (LruCache_get k c)) = lc_max_size c"
proof -
  have "lru_ok (snd (LruCache_get k c)) \<and> fst (LruCache_get k c) = map_option en_value (lru_find k (lru_list c)) \<and>
    lru_list (snd (LruCache_get k c)) =
      (case lru_find k (lru_list c) of None \<Rightarrow> lru_list c | Some e \<Rightarrow> e # filter (\<lambda>e. en_key e \<noteq> k) (lru_list c)) \<and>
    lc_max_size (snd (LruCache_get k c)) = lc_max_size c"
  proof (cases "map_of (lc_map c) k")
    case None
    then show ?thesis
      using assms lru_find_iterator(1) [OF assms, of k] unfolding LruCache_get_def by simp
  next
    case (Some it)
    then obtain e where e: "(it, e) \<in> set (lc_entries c)" "en_key e = k"
      using lru_find_iterator(3) [OF assms] by blast
    show ?thesis
      using Some e lru_find_iterator(2) [OF assms Some e(1)] lru_ok_promote [OF assms e(1) refl]
      by (simp add: LruCache_get_def splice_front_spec [OF assms e(1)] lru_list_def lru_list_filter_key)
  qed
  then show "lru_ok (snd (LruCache_get k c))"
    and "fst (LruCache_get k c) = map_option en_value (lru_find k (lru_list c))"
    and "lru_list (snd (LruCache_get k c)) =
      (case lru_find k (lru_list c) of None \<Rightarrow> lru_list c | Some e \<Rightarrow> e # filter (\<lambda>e. en_key e \<noteq> k) (lru_list c))"
    and "lc_max_size (snd (LruCache_get k c)) = lc_max_size c"
    by blast+
qed

lemma remove_spec:
  assumes "lru_ok c"
  shows "lru_ok (LruCache_remove k c)" and "lru_list (LruCache_remove k c) = filter (\<lambda>e. en_key e \<noteq> k) (lru_list c)"
proof -
  have "LruCache_remove k c = c\<lparr>lc_entries := filter (\<lambda>n. en_key (snd n) \<noteq> k) (lc_entries c),
      lc_map := AList.delete k (lc_map c)\<rparr>"
  proof (cases "map_of (lc_map c) k")
    case None
    then have "k \<notin> en_key ` set (lru_list c)" "k \<notin> fst ` set (lc_map c)"
      using lru_find_iterator(1) [OF assms, of k] by (simp_all add: lru_find_None map_of_eq_None_iff)
    then have "filter (\<lambda>n. en_key (snd n) \<noteq> k) (lc_entries c) = lc_entries c" "AList.delete k (lc_map c) = lc_map c"
      by (auto simp: filter_id_conv lru_list_def image_iff AList.delete_eq)
    with None show ?thesis
      by (simp add: LruCache_remove_def)
  next
    case (Some it)
    then obtain e where e: "(it, e) \<in> set (lc_entries c)" "en_key e = k"
      using lru_find_iterator(3) [OF assms] by blast
    show ?thesis
      using Some e(2) filter_node [OF assms e(1)] by (simp add: LruCache_remove_def)
  qed
  then show "lru_ok (LruCache_remove k c)" "lru_list (LruCache_remove k c) = filter (\<lambda>e. en_key e \<noteq> k) (lru_list c)"
    using lru_ok_delete [OF assms, of k] by (simp_all add: lru_list_def lru_list_filter_key)
qed

lemma gc_loop_spec:
  "gc_loop now age ns m = (filter (\<lambda>n. \<not> expired now age (snd n)) ns,
     fold AList.delete (map (\<lambda>n. en_key (snd n)) (filter (\<lambda>n. expired now age (snd n)) ns)) m)"
  by (induction ns arbitrary: m) (auto simp: Let_def)

lemma fold_delete_set: "set (fold AList.delete ks m) = {p \<in> set m. fst p \<notin> set ks}"
  by (induction ks arbitrary: m) (auto simp: delete_set)

lemma fold_delete_distinct: "distinct (map fst m) \<Longrightarrow> distinct (map fst (fold AList.delete ks m))"
  by (induction ks arbitrary: m) (auto simp: distinct_delete)

lemma gc_spec:
  assumes "lru_ok c"
  shows "lru_ok (LruCache_gc now age c)"
    and "lru_list (LruCache_gc now age c) = filter (\<lambda>e. \<not> expired now age e) (lru_list c)"
proof -
  let ?ks = "map (\<lambda>n. en_key (snd n)) (filter (\<lambda>n. expired now age (snd n)) (lc_entries c))"
  have gc: "LruCache_gc now age c = c\<lparr>lc_entries := filter (\<lambda>n. \<not> expired now age (snd n)) (lc_entries c),
      lc_map := fold AList.delete ?ks (lc_map c)\<rparr>"
    by (simp add: LruCache_gc_def gc_loop_spec)
  show "lru_list (LruCache_gc now age c) = filter (\<lambda>e. \<not> expired now age e) (lru_list c)"
    by (simp add: gc lru_list_def lru_list_filter_key)
  show "lru_ok (LruCache_gc now age c)"
    unfolding gc
  proof (rule lru_ok_filter [OF assms])
    show "distinct (map fst (fold AList.delete ?ks (lc_map c)))"
      using lru_okD(5) [OF assms] by (rule fold_delete_distinct)
    show "set (fold AList.delete ?ks (lc_map c)) =
        {p \<in> set (lc_map c). \<exists>n \<in> set (lc_entries c). fst p = en_key (snd n) \<and> \<not> expired now age (snd n)}"
    proof -
      have "en_key (snd n) \<notin> set ?ks \<longleftrightarrow> \<not> expired now age (snd n)" if "n \<in> set (lc_entries c)" for n
      proof
        assume "\<not> expired now age (snd n)"
        then show "en_key (snd n) \<notin> set ?ks"
          using that inj_onD [OF lru_okD(2) [OF assms], of n] by auto
      qed (use that in auto)
      then show ?thesis
        unfolding fold_delete_set lru_okD(3) [OF assms] by force
    qed
  qed
qed

section \<open>The contract of a recency cache\<close>

text \<open>\<open>within k i es\<close>: an entry of key \<open>k\<close> stands at position \<open>i\<close> or before.\<close>

definition within :: "'k \<Rightarrow> nat \<Rightarrow> ('k, 'v) Entry list \<Rightarrow> bool" where
  "within k i es \<longleftrightarrow> (\<exists>e \<in> set (take (Suc i) es). en_key e = k)"

lemma within_mono: "within k i es \<Longrightarrow> i \<le> j \<Longrightarrow> within k j es"
  unfolding within_def by (meson Suc_le_mono set_take_subset_set_take subsetD)

lemma within_find: "within k i es \<Longrightarrow> lru_find k es \<noteq> None"
  by (auto simp: within_def lru_find_None dest: in_set_takeD)

lemma within_push:
  assumes "within k i es" and "Suc i < n"
  shows "within k (Suc i) (take n (new # filter (\<lambda>e. en_key e \<noteq> en_key new) es))"
proof (cases "k = en_key new")
  case True
  then show ?thesis
    using assms(2) by (cases n) (auto simp: within_def)
next
  case False
  obtain e where e: "e \<in> set (take (Suc i) es)" "en_key e = k"
    using assms(1) by (auto simp: within_def)
  let ?P = "\<lambda>e. en_key e \<noteq> en_key new"
  have "filter ?P es = filter ?P (take (Suc i) es) @ filter ?P (drop (Suc i) es)"
    by (metis append_take_drop_id filter_append)
  moreover have "length (filter ?P (take (Suc i) es)) \<le> Suc i"
    using length_filter_le [of ?P "take (Suc i) es"] by simp
  ultimately have "e \<in> set (take (Suc i) (filter ?P es))"
    using e False by simp
  then show ?thesis
    using assms(2) e(2) by (auto simp: within_def min_def)
qed

locale recency_cache =
  fixes inv :: "'c \<Rightarrow> bool"
    and contents :: "'c \<Rightarrow> ('k, 'v) Entry list"
    and capacity :: "'c \<Rightarrow> nat"
    and put :: "'k \<Rightarrow> 'v \<Rightarrow> u64 \<Rightarrow> 'c \<Rightarrow> 'c"
    and fetch :: "'k \<Rightarrow> 'c \<Rightarrow> 'v option \<times> 'c"
    and purge :: "u64 \<Rightarrow> u64 \<Rightarrow> 'c \<Rightarrow> 'c"
  assumes capacity_pos: "inv c \<Longrightarrow> 0 < capacity c"
    and keys_distinct: "inv c \<Longrightarrow> distinct (map en_key (contents c))"
    and put_inv: "inv c \<Longrightarrow> inv (put k v now c)"
    and put_capacity: "inv c \<Longrightarrow> capacity (put k v now c) = capacity c"
    and put_contents: "inv c \<Longrightarrow> contents (put k v now c) =
      take (capacity c) (\<lparr>en_key = k, en_value = v, en_created_at = now\<rparr> # filter (\<lambda>e. en_key e \<noteq> k) (contents c))"
    and fetch_inv: "inv c \<Longrightarrow> inv (snd (fetch k c))"
    and fetch_capacity: "inv c \<Longrightarrow> capacity (snd (fetch k c)) = capacity c"
    and fetch_value: "inv c \<Longrightarrow> fst (fetch k c) = map_option en_value (lru_find k (contents c))"
    and fetch_contents: "inv c \<Longrightarrow> contents (snd (fetch k c)) =
      (case lru_find k (contents c) of None \<Rightarrow> contents c | Some e \<Rightarrow> e # filter (\<lambda>e. en_key e \<noteq> k) (contents c))"
    and purge_inv: "inv c \<Longrightarrow> inv (purge now age c)"
    and purge_contents: "inv c \<Longrightarrow> contents (purge now age c) = filter (\<lambda>e. \<not> expired now age e) (contents c)"
begin

lemma fetch_put_same: "inv c \<Longrightarrow> fst (fetch k (put k v now c)) = Some v"
  using capacity_pos [of c] by (cases "capacity c") (auto simp: fetch_value put_inv put_contents lru_find_def)

text \<open>A store never changes the value of another key: it stays or is evicted.\<close>

lemma fetch_put_other:
  assumes "inv c" "k' \<noteq> k"
  shows "fst (fetch k' (put k v now c)) \<in> {None, fst (fetch k' c)}"
proof (cases "lru_find k' (contents (put k v now c))")
  case (Some e)
  have "e \<in> set (contents c) \<and> en_key e = k'"
    using Some assms keys_distinct [OF put_inv [OF assms(1)], of k v now]
    by (auto simp: lru_find_Some put_contents [OF assms(1)] dest!: in_set_takeD)
  then have "lru_find k' (contents c) = Some e"
    using keys_distinct [OF assms(1)] by (simp add: lru_find_Some)
  then show ?thesis
    using Some assms by (simp add: fetch_value put_inv)
qed (simp add: fetch_value put_inv assms)

lemma fetch_fetch:
  assumes "inv c"
  shows "fst (fetch k' (snd (fetch k c))) = fst (fetch k' c)"
proof (cases "lru_find k (contents c)")
  case (Some e)
  then have e: "e \<in> set (contents c)" "en_key e = k"
    using keys_distinct [OF assms] by (auto simp: lru_find_Some)
  have "x = e" if "x \<in> set (contents c)" "en_key x = k" for x
    using that e keys_distinct [OF assms] by (auto simp: distinct_map dest: inj_onD)
  then have "set (contents c) = insert e {x \<in> set (contents c). en_key x \<noteq> k}"
    using e by blast
  then have "set (contents (snd (fetch k c))) = set (contents c)"
    by (simp add: fetch_contents [OF assms] Some)
  then have "lru_find k' (contents (snd (fetch k c))) = lru_find k' (contents c)"
    using keys_distinct assms fetch_inv by (intro lru_find_cong) auto
  then show ?thesis
    by (simp add: fetch_value assms fetch_inv)
qed (simp add: fetch_value fetch_inv fetch_contents assms)

text \<open>A key that is used survives the next \<open>capacity - 1\<close> stores of any other keys.\<close>

lemma puts_inv: "inv c \<Longrightarrow> inv (fold (\<lambda>(k, v, now). put k v now) ps c) \<and>
    capacity (fold (\<lambda>(k, v, now). put k v now) ps c) = capacity c"
  by (induction ps arbitrary: c) (auto simp: put_inv put_capacity)

lemma within_puts:
  "inv c \<Longrightarrow> within k i (contents c) \<Longrightarrow> i + length ps < capacity c \<Longrightarrow>
     within k (i + length ps) (contents (fold (\<lambda>(k, v, now). put k v now) ps c))"
proof (induction ps arbitrary: c i)
  case (Cons p ps)
  obtain k' v now where p: "p = (k', v, now)"
    by (cases p) auto
  have "within k (Suc i) (contents (put k' v now c))"
    using within_push [OF Cons.prems(2), of "capacity c" "\<lparr>en_key = k', en_value = v, en_created_at = now\<rparr>"] Cons.prems
    by (simp add: put_contents)
  then show ?case
    using Cons.IH [of "put k' v now c" "Suc i"] Cons.prems by (simp add: p put_inv put_capacity)
qed simp

lemma used_key_survives:
  assumes "inv c" and "fst (fetch k c) \<noteq> None" and "length ps < capacity c"
  shows "fst (fetch k (fold (\<lambda>(k, v, now). put k v now) ps (snd (fetch k c)))) \<noteq> None"
proof -
  let ?c = "snd (fetch k c)"
  obtain e where e: "lru_find k (contents c) = Some e"
    using assms(1,2) by (auto simp: fetch_value)
  then have "en_key e = k"
    using keys_distinct [OF assms(1)] by (simp add: lru_find_Some)
  then have "within k 0 (contents ?c)"
    by (simp add: within_def fetch_contents [OF assms(1)] e)
  then have "within k (length ps) (contents (fold (\<lambda>(k, v, now). put k v now) ps ?c))"
    using within_puts [of ?c k 0 ps] assms by (simp add: fetch_inv fetch_capacity)
  then show ?thesis
    using within_find puts_inv [OF fetch_inv [OF assms(1)], of ps k] by (auto simp: fetch_value)
qed

text \<open>A purge keeps exactly the entries that have not expired.\<close>

lemma fetch_purge:
  assumes "inv c"
  shows "fst (fetch k (purge now age c)) =
    (case lru_find k (contents c) of None \<Rightarrow> None | Some e \<Rightarrow> if expired now age e then None else Some (en_value e))"
  using assms lru_find_filter [OF keys_distinct [OF assms], of k "\<lambda>e. \<not> expired now age e"]
  by (simp add: fetch_value purge_inv purge_contents split: option.splits)

end

interpretation lru: recency_cache lru_ok lru_list "\<lambda>c. max 1 (lc_max_size c)" LruCache_put LruCache_get LruCache_gc
proof unfold_locales
  show "distinct (map en_key (lru_list c))" if "lru_ok c" for c
    using that by (simp add: lru_ok_def)
qed (simp_all add: put_spec get_spec gc_spec)

lemma lru_ok_new: "lru_ok (LruCache_new n)"
  by (simp add: lru_ok_def LruCache_new_def lru_list_def)

text \<open>C40. The cache's linked list and hash map act as one list of entries in recency order: a store puts its
  entry in front and drops what exceeds the capacity from the back, a lookup returns the entry of its key
  and moves it to the front, a removal and an expiry sweep drop exactly the entries meant.  The two
  structures stay consistent and no operation follows a dangling iterator.\<close>

theorem lru_refines_list:
  assumes "lru_ok c"
  shows "lru_ok (LruCache_put k v now c) \<and> lru_ok (snd (LruCache_get k c)) \<and>
    lru_ok (LruCache_remove k c) \<and> lru_ok (LruCache_gc now age c) \<and>
    lru_list (LruCache_put k v now c) = take (max 1 (lc_max_size c))
      (\<lparr>en_key = k, en_value = v, en_created_at = now\<rparr> # filter (\<lambda>e. en_key e \<noteq> k) (lru_list c)) \<and>
    fst (LruCache_get k c) = map_option en_value (lru_find k (lru_list c)) \<and>
    lru_list (snd (LruCache_get k c)) = (case lru_find k (lru_list c) of
        None \<Rightarrow> lru_list c | Some e \<Rightarrow> e # filter (\<lambda>e. en_key e \<noteq> k) (lru_list c)) \<and>
    lru_list (LruCache_remove k c) = filter (\<lambda>e. en_key e \<noteq> k) (lru_list c) \<and>
    lru_list (LruCache_gc now age c) = filter (\<lambda>e. \<not> expired now age e) (lru_list c)"
  using put_spec [OF assms] get_spec [OF assms] remove_spec [OF assms] gc_spec [OF assms] by blast

theorem lru_refines_list_witness:
  "lru_list (LruCache_put (1::nat) ''a'' 5 (LruCache_new 2)) = [\<lparr>en_key = 1, en_value = ''a'', en_created_at = 5\<rparr>]"
proof -
  have "lru_list (LruCache_new 2 :: (nat, string) LruCache) = []" "max 1 (lc_max_size (LruCache_new 2)) = 2"
    by (simp_all add: LruCache_new_def lru_list_def)
  then show ?thesis
    using lru_refines_list [OF lru_ok_new [of 2], of "1::nat" "''a''" 5] by simp
qed

text \<open>A value read from the cache survives the next capacity minus one stores under any keys: eviction
  takes the least recently used entry first.\<close>

lemma lru_used_key_survives:
  assumes "lru_ok c" and "fst (LruCache_get k c) \<noteq> None" and "length ps < max 1 (lc_max_size c)"
  shows "fst (LruCache_get k (fold (\<lambda>(k, v, now). LruCache_put k v now) ps (snd (LruCache_get k c)))) \<noteq> None"
  by (rule lru.used_key_survives [OF assms])

text \<open>An expiry sweep removes an expired entry wherever it stands in the list, and leaves the value of
  every other key as it was.\<close>

lemma lru_gc_exact:
  assumes "lru_ok c"
  shows "fst (LruCache_get k (LruCache_gc now age c)) = (case lru_find k (lru_list c) of
     None \<Rightarrow> None | Some e \<Rightarrow> if expired now age e then None else Some (en_value e))"
  by (rule lru.fetch_purge [OF assms])

end
