(* ===== verification/Compact.thy ===== *)
theory Compact
  imports Prelude
begin

text \<open>
  The compact-encoding codec (\<^verbatim>\<open>include/hyperdht/compact.hpp\<close>, \<^verbatim>\<open>src/compact.cpp\<close>): the cursor
  \<^verbatim>\<open>State\<close>, the primitive codecs and the Array and Frame combinators.

  The C++ cursor holds raw pointers.  Here \<open>st_buffer\<close> and \<open>st_read_buffer\<close> hold the memory
  block the pointer designates (\<open>None\<close> is \<^verbatim>\<open>nullptr\<close>), and the ghost field \<open>st_fault\<close> records
  that a read or write left that block or went through \<^verbatim>\<open>nullptr\<close>: it becomes true exactly where
  the C++ would have undefined behaviour, so "never faults" is memory safety.  Every other
  field is a member of the C++ struct.  A codec is a triple of a \<^verbatim>\<open>preencode\<close>, an
  \<^verbatim>\<open>encode\<close> and a \<^verbatim>\<open>decode\<close> function on the cursor.
\<close>

section \<open>The cursor\<close>

record State =
  st_start :: nat
  st_end :: nat
  st_buffer :: "bytes option"
  st_error :: bool
  st_read_buffer :: "bytes option"
  st_fault :: bool

definition State_init :: State where
  "State_init = \<lparr>st_start = 0, st_end = 0, st_buffer = None, st_error = False,
     st_read_buffer = None, st_fault = False\<rparr>"

definition st_data :: "State \<Rightarrow> bytes option" where
  "st_data s = (case st_read_buffer s of Some d \<Rightarrow> Some d | None \<Rightarrow> st_buffer s)"

definition for_decode :: "bytes option \<Rightarrow> nat \<Rightarrow> State" where
  "for_decode buf len = State_init\<lparr>st_read_buffer := buf, st_end := len\<rparr>"

abbreviation set_error :: "State \<Rightarrow> State" where
  "set_error s \<equiv> s\<lparr>st_error := True\<rparr>"

text \<open>Memory accesses at the cursor: \<open>mem_read s n\<close> reads \<open>n\<close> bytes at \<^verbatim>\<open>s.data() + s.start\<close>,
  \<open>mem_write s bs\<close> stores \<open>bs\<close> at \<^verbatim>\<open>s.buffer + s.start\<close>; \<open>adv s n\<close> is \<^verbatim>\<open>s.start += n\<close>.\<close>

definition mem_read :: "State \<Rightarrow> nat \<Rightarrow> bytes \<times> State" where
  "mem_read s n =
     (if n = 0 then ([], s) else
      case st_data s of
        None \<Rightarrow> (replicate n 0, s\<lparr>st_fault := True\<rparr>)
      | Some d \<Rightarrow>
          if st_start s + n \<le> length d then (take n (drop (st_start s) d), s)
          else (replicate n 0, s\<lparr>st_fault := True\<rparr>))"

definition overwrite :: "bytes \<Rightarrow> nat \<Rightarrow> bytes \<Rightarrow> bytes" where
  "overwrite b i bs = take i b @ bs @ drop (i + length bs) b"

definition mem_write :: "State \<Rightarrow> bytes \<Rightarrow> State" where
  "mem_write s bs =
     (if bs = [] then s else
      case st_buffer s of
        None \<Rightarrow> s\<lparr>st_fault := True\<rparr>
      | Some b \<Rightarrow>
          if st_start s + length bs \<le> length b
          then s\<lparr>st_buffer := Some (overwrite b (st_start s) bs)\<rparr>
          else s\<lparr>st_fault := True\<rparr>)"

definition adv :: "State \<Rightarrow> nat \<Rightarrow> State" where
  "adv s n = s\<lparr>st_start := st_start s + n\<rparr>"

definition put_bytes :: "State \<Rightarrow> bytes \<Rightarrow> State" where
  "put_bytes s bs = adv (mem_write s bs) (length bs)"

definition get_bytes :: "State \<Rightarrow> nat \<Rightarrow> bytes \<times> State" where
  "get_bytes s n = (case mem_read s n of (bs, s') \<Rightarrow> (bs, adv s' n))"

definition has_bytes :: "State \<Rightarrow> nat \<Rightarrow> bool" where
  "has_bytes s n \<longleftrightarrow> st_start s \<le> st_end s \<and> n \<le> st_end s - st_start s"

definition pre_add :: "State \<Rightarrow> nat \<Rightarrow> State" where
  "pre_add s n = s\<lparr>st_end := add_size (st_end s) n\<rparr>"

section \<open>Little-endian bytes\<close>

definition write_le16 :: "u16 \<Rightarrow> bytes" where
  "write_le16 v = [ucast v, ucast (drop_bit 8 v)]"

definition write_le32 :: "u32 \<Rightarrow> bytes" where
  "write_le32 v = [ucast v, ucast (drop_bit 8 v), ucast (drop_bit 16 v), ucast (drop_bit 24 v)]"

definition write_le64 :: "u64 \<Rightarrow> bytes" where
  "write_le64 v = write_le32 (ucast v) @ write_le32 (ucast (drop_bit 32 v))"

definition read_le16 :: "bytes \<Rightarrow> u16" where
  "read_le16 p = ucast (p ! 0) OR push_bit 8 (ucast (p ! 1))"

definition read_le32 :: "bytes \<Rightarrow> u32" where
  "read_le32 p = ucast (p ! 0) OR push_bit 8 (ucast (p ! 1)) OR
     push_bit 16 (ucast (p ! 2)) OR push_bit 24 (ucast (p ! 3))"

definition read_le64 :: "bytes \<Rightarrow> u64" where
  "read_le64 p = ucast (read_le32 p) OR push_bit 32 (ucast (read_le32 (drop 4 p)))"

lemma length_write_le [simp]:
  "length (write_le16 a) = 2" "length (write_le32 b) = 4" "length (write_le64 c) = 8"
  by (simp_all add: write_le16_def write_le32_def write_le64_def)

lemma read_write_le16 [simp]: "read_le16 (write_le16 v) = v"
  by (rule bit_word_eqI) (auto simp: read_le16_def write_le16_def bit_simps)

lemma read_le32_append [simp]: "read_le32 (write_le32 v @ q) = v"
proof (rule bit_word_eqI)
  fix n
  assume "n < LENGTH(32)"
  then consider "n < 8" | "8 \<le> n" "n < 16" | "16 \<le> n" "n < 24" | "24 \<le> n" "n < 32"
    by fastforce
  then show "bit (read_le32 (write_le32 v @ q)) n \<longleftrightarrow> bit v n"
    by cases (auto simp: read_le32_def write_le32_def bit_simps)
qed

lemma read_write_le64 [simp]: "read_le64 (write_le64 v) = v"
proof -
  have "drop 4 (write_le64 v) = write_le32 (ucast (drop_bit 32 v)) @ []"
    by (simp add: write_le64_def)
  moreover have "read_le32 (write_le64 v) = ucast v"
    unfolding write_le64_def by (rule read_le32_append)
  ultimately have "read_le64 (write_le64 v) = ucast (ucast v :: u32) OR push_bit 32 (ucast (ucast (drop_bit 32 v) :: u32))"
    unfolding read_le64_def using read_le32_append by metis
  also have "\<dots> = v"
    by (rule bit_word_eqI) (auto simp: bit_simps)
  finally show ?thesis .
qed

lemma read_write_le32 [simp]: "read_le32 (write_le32 v) = v"
  using read_le32_append [of v "[]"] by simp

section \<open>Primitive codecs\<close>

subsection \<open>Uint (varint)\<close>

definition Uint_preencode :: "State \<Rightarrow> u64 \<Rightarrow> State" where
  "Uint_preencode s v =
     (if v \<le> 0xFC then pre_add s 1
      else if v \<le> 0xFFFF then pre_add s 3
      else if v \<le> 0xFFFFFFFF then pre_add s 5
      else pre_add s 9)"

definition Uint_encode :: "State \<Rightarrow> u64 \<Rightarrow> State" where
  "Uint_encode s v =
     (if st_error s \<or> st_buffer s = None then set_error s
      else if v \<le> 0xFC then
        (if \<not> has_bytes s 1 then set_error s else put_bytes s [ucast v])
      else if v \<le> 0xFFFF then
        (if \<not> has_bytes s 3 then set_error s else put_bytes (put_bytes s [0xFD]) (write_le16 (ucast v)))
      else if v \<le> 0xFFFFFFFF then
        (if \<not> has_bytes s 5 then set_error s else put_bytes (put_bytes s [0xFE]) (write_le32 (ucast v)))
      else
        (if \<not> has_bytes s 9 then set_error s else put_bytes (put_bytes s [0xFF]) (write_le64 v)))"

definition Uint_decode :: "State \<Rightarrow> u64 \<times> State" where
  "Uint_decode s =
     (if st_error s \<or> \<not> has_bytes s 1 then (0, set_error s) else
      case get_bytes s 1 of (b, s1) \<Rightarrow>
      let first = b ! 0 in
      if first \<le> 0xFC then (ucast first, s1)
      else if first = 0xFD then
        (if \<not> has_bytes s1 2 then (0, set_error s1)
         else case get_bytes s1 2 of (p, s2) \<Rightarrow> (ucast (read_le16 p), s2))
      else if first = 0xFE then
        (if \<not> has_bytes s1 4 then (0, set_error s1)
         else case get_bytes s1 4 of (p, s2) \<Rightarrow> (ucast (read_le32 p), s2))
      else
        (if \<not> has_bytes s1 8 then (0, set_error s1)
         else case get_bytes s1 8 of (p, s2) \<Rightarrow> (read_le64 p, s2)))"

subsection \<open>Uint8, Uint16, Uint32, Uint64, Bool\<close>

definition Uint8_preencode :: "State \<Rightarrow> u8 \<Rightarrow> State" where
  "Uint8_preencode s v = pre_add s 1"

definition Uint8_encode :: "State \<Rightarrow> u8 \<Rightarrow> State" where
  "Uint8_encode s v =
     (if st_error s \<or> st_buffer s = None \<or> \<not> has_bytes s 1 then set_error s else put_bytes s [v])"

definition Uint8_decode :: "State \<Rightarrow> u8 \<times> State" where
  "Uint8_decode s =
     (if st_error s \<or> \<not> has_bytes s 1 then (0, set_error s)
      else case get_bytes s 1 of (p, s') \<Rightarrow> (p ! 0, s'))"

definition Uint16_preencode :: "State \<Rightarrow> u16 \<Rightarrow> State" where
  "Uint16_preencode s v = pre_add s 2"

definition Uint16_encode :: "State \<Rightarrow> u16 \<Rightarrow> State" where
  "Uint16_encode s v =
     (if st_error s \<or> st_buffer s = None \<or> \<not> has_bytes s 2 then set_error s
      else put_bytes s (write_le16 v))"

definition Uint16_decode :: "State \<Rightarrow> u16 \<times> State" where
  "Uint16_decode s =
     (if st_error s \<or> \<not> has_bytes s 2 then (0, set_error s)
      else case get_bytes s 2 of (p, s') \<Rightarrow> (read_le16 p, s'))"

definition Uint32_preencode :: "State \<Rightarrow> u32 \<Rightarrow> State" where
  "Uint32_preencode s v = pre_add s 4"

definition Uint32_encode :: "State \<Rightarrow> u32 \<Rightarrow> State" where
  "Uint32_encode s v =
     (if st_error s \<or> st_buffer s = None \<or> \<not> has_bytes s 4 then set_error s
      else put_bytes s (write_le32 v))"

definition Uint32_decode :: "State \<Rightarrow> u32 \<times> State" where
  "Uint32_decode s =
     (if st_error s \<or> \<not> has_bytes s 4 then (0, set_error s)
      else case get_bytes s 4 of (p, s') \<Rightarrow> (read_le32 p, s'))"

definition Uint64_preencode :: "State \<Rightarrow> u64 \<Rightarrow> State" where
  "Uint64_preencode s v = pre_add s 8"

definition Uint64_encode :: "State \<Rightarrow> u64 \<Rightarrow> State" where
  "Uint64_encode s v =
     (if st_error s \<or> st_buffer s = None \<or> \<not> has_bytes s 8 then set_error s
      else put_bytes s (write_le64 v))"

definition Uint64_decode :: "State \<Rightarrow> u64 \<times> State" where
  "Uint64_decode s =
     (if st_error s \<or> \<not> has_bytes s 8 then (0, set_error s)
      else case get_bytes s 8 of (p, s') \<Rightarrow> (read_le64 p, s'))"

definition Bool_preencode :: "State \<Rightarrow> bool \<Rightarrow> State" where
  "Bool_preencode s v = pre_add s 1"

definition Bool_encode :: "State \<Rightarrow> bool \<Rightarrow> State" where
  "Bool_encode s v =
     (if st_error s \<or> st_buffer s = None then set_error s
      else Uint8_encode s (if v then 1 else 0))"

definition Bool_decode :: "State \<Rightarrow> bool \<times> State" where
  "Bool_decode s = (case Uint8_decode s of (b, s') \<Rightarrow> (b \<noteq> 0, s'))"

subsection \<open>Buffer: nullable, length-prefixed\<close>

text \<open>A \<^verbatim>\<open>(data, len)\<close> argument is \<open>None\<close> for \<^verbatim>\<open>nullptr\<close> and \<open>Some bs\<close> with
  \<open>len = length bs\<close> otherwise; a \<^verbatim>\<open>DecodeResult\<close> is the bytes it views.\<close>

definition Buffer_preencode :: "State \<Rightarrow> bytes option \<Rightarrow> State" where
  "Buffer_preencode s data =
     (case data of
        None \<Rightarrow> pre_add s 1
      | Some bs \<Rightarrow> if bs = [] then pre_add s 1
          else pre_add (Uint_preencode s (of_nat (length bs))) (length bs))"

definition Buffer_preencode_null :: "State \<Rightarrow> State" where
  "Buffer_preencode_null s = pre_add s 1"

definition Buffer_encode :: "State \<Rightarrow> bytes option \<Rightarrow> State" where
  "Buffer_encode s data =
     (if st_error s \<or> st_buffer s = None then set_error s else
      case data of
        None \<Rightarrow> Uint8_encode s 0
      | Some bs \<Rightarrow> if bs = [] then Uint8_encode s 0 else
          let s1 = Uint_encode s (of_nat (length bs)) in
          if st_error s1 \<or> \<not> has_bytes s1 (length bs) then set_error s1 else put_bytes s1 bs)"

definition Buffer_encode_null :: "State \<Rightarrow> State" where
  "Buffer_encode_null s = Uint8_encode s 0"

definition MAX_BUFFER_DECODE :: nat where
  "MAX_BUFFER_DECODE = 65536"

definition Buffer_decode :: "State \<Rightarrow> bytes option \<times> State" where
  "Buffer_decode s =
     (case Uint_decode s of (len, s1) \<Rightarrow>
      if st_error s1 then (None, s1)
      else if len = 0 then (None, s1)
      else if unat len > MAX_BUFFER_DECODE then (None, set_error s1)
      else if \<not> has_bytes s1 (unat len) then (None, set_error s1)
      else case get_bytes s1 (unat len) of (p, s2) \<Rightarrow> (Some p, s2))"

subsection \<open>Raw\<close>

definition Raw_preencode :: "State \<Rightarrow> bytes \<Rightarrow> State" where
  "Raw_preencode s bs = pre_add s (length bs)"

definition Raw_encode :: "State \<Rightarrow> bytes \<Rightarrow> State" where
  "Raw_encode s bs =
     (if st_error s \<or> \<not> has_bytes s (length bs) then set_error s
      else if length bs > 0 then put_bytes s bs else s)"

text \<open>\<^verbatim>\<open>Raw::decode\<close> computes \<^verbatim>\<open>s.end - s.start\<close> without a check, so the length wraps when the
  cursor is past its end; the fault is charged where the view is handed out.\<close>

definition Raw_decode :: "State \<Rightarrow> bytes \<times> State" where
  "Raw_decode s =
     (if st_error s then ([], s) else
      let remaining = sub_size (st_end s) (st_start s) in
      case mem_read s remaining of (p, s1) \<Rightarrow> (p, s1\<lparr>st_start := st_end s1\<rparr>))"

subsection \<open>Fixed32, Fixed64\<close>

definition Fixed_preencode :: "nat \<Rightarrow> State \<Rightarrow> bytes \<Rightarrow> State" where
  "Fixed_preencode SIZE s v = pre_add s SIZE"

definition Fixed_encode :: "nat \<Rightarrow> State \<Rightarrow> bytes \<Rightarrow> State" where
  "Fixed_encode SIZE s v =
     (if st_error s \<or> \<not> has_bytes s SIZE then set_error s else put_bytes s v)"

definition Fixed_decode :: "nat \<Rightarrow> State \<Rightarrow> bytes \<times> State" where
  "Fixed_decode SIZE s =
     (if st_error s \<or> \<not> has_bytes s SIZE then (replicate SIZE 0, set_error s)
      else get_bytes s SIZE)"

definition Fixed32_preencode :: "State \<Rightarrow> bytes \<Rightarrow> State" where
  "Fixed32_preencode = Fixed_preencode 32"

definition Fixed32_encode :: "State \<Rightarrow> bytes \<Rightarrow> State" where
  "Fixed32_encode = Fixed_encode 32"

definition Fixed32_decode :: "State \<Rightarrow> bytes \<times> State" where
  "Fixed32_decode = Fixed_decode 32"

definition Fixed64_preencode :: "State \<Rightarrow> bytes \<Rightarrow> State" where
  "Fixed64_preencode = Fixed_preencode 64"

definition Fixed64_encode :: "State \<Rightarrow> bytes \<Rightarrow> State" where
  "Fixed64_encode = Fixed_encode 64"

definition Fixed64_decode :: "State \<Rightarrow> bytes \<times> State" where
  "Fixed64_decode = Fixed_decode 64"

subsection \<open>IPv4 and IPv6 addresses\<close>

record Ipv4Address =
  ip_host :: bytes
  ip_port :: u16

record Ipv6Address =
  ip6_host :: bytes
  ip6_port :: u16

definition Ipv4Address_init :: Ipv4Address where
  "Ipv4Address_init = \<lparr>ip_host = replicate 4 0, ip_port = 0\<rparr>"

definition Ipv6Address_init :: Ipv6Address where
  "Ipv6Address_init = \<lparr>ip6_host = replicate 16 0, ip6_port = 0\<rparr>"

definition Ipv4Addr_preencode :: "State \<Rightarrow> Ipv4Address \<Rightarrow> State" where
  "Ipv4Addr_preencode s v = pre_add s 6"

definition Ipv4Addr_encode :: "State \<Rightarrow> Ipv4Address \<Rightarrow> State" where
  "Ipv4Addr_encode s v =
     (if st_error s \<or> \<not> has_bytes s 6 then set_error s
      else put_bytes (put_bytes s (ip_host v)) (write_le16 (ip_port v)))"

definition Ipv4Addr_decode :: "State \<Rightarrow> Ipv4Address \<times> State" where
  "Ipv4Addr_decode s =
     (if st_error s \<or> \<not> has_bytes s 6 then (Ipv4Address_init, set_error s) else
      case get_bytes s 4 of (h, s1) \<Rightarrow>
      case get_bytes s1 2 of (p, s2) \<Rightarrow> (\<lparr>ip_host = h, ip_port = read_le16 p\<rparr>, s2))"

definition Ipv6Addr_preencode :: "State \<Rightarrow> Ipv6Address \<Rightarrow> State" where
  "Ipv6Addr_preencode s v = pre_add s 18"

definition Ipv6Addr_encode :: "State \<Rightarrow> Ipv6Address \<Rightarrow> State" where
  "Ipv6Addr_encode s v =
     (if st_error s \<or> \<not> has_bytes s 18 then set_error s
      else put_bytes (put_bytes s (ip6_host v)) (write_le16 (ip6_port v)))"

definition Ipv6Addr_decode :: "State \<Rightarrow> Ipv6Address \<times> State" where
  "Ipv6Addr_decode s =
     (if st_error s \<or> \<not> has_bytes s 18 then (Ipv6Address_init, set_error s) else
      case get_bytes s 16 of (h, s1) \<Rightarrow>
      case get_bytes s1 2 of (p, s2) \<Rightarrow> (\<lparr>ip6_host = h, ip6_port = read_le16 p\<rparr>, s2))"

section \<open>Combinators\<close>

text \<open>The template parameter \<^verbatim>\<open>Enc\<close> is passed as its functions.\<close>

definition ARRAY_MAX_LENGTH :: nat where
  "ARRAY_MAX_LENGTH = 4096"

definition Array_preencode :: "(State \<Rightarrow> 'a \<Rightarrow> State) \<Rightarrow> State \<Rightarrow> 'a list \<Rightarrow> State" where
  "Array_preencode pre s v = foldl pre (Uint_preencode s (of_nat (length v))) v"

definition Array_encode :: "(State \<Rightarrow> 'a \<Rightarrow> State) \<Rightarrow> State \<Rightarrow> 'a list \<Rightarrow> State" where
  "Array_encode enc s v = foldl enc (Uint_encode s (of_nat (length v))) v"

fun Array_decode_loop :: "(State \<Rightarrow> 'a \<times> State) \<Rightarrow> nat \<Rightarrow> State \<Rightarrow> 'a list \<times> State" where
  "Array_decode_loop dec 0 s = ([], s)"
| "Array_decode_loop dec (Suc n) s =
     (if st_error s then ([], s) else
      case dec s of (x, s1) \<Rightarrow>
      case Array_decode_loop dec n s1 of (xs, s2) \<Rightarrow> (x # xs, s2))"

definition Array_decode :: "(State \<Rightarrow> 'a \<times> State) \<Rightarrow> State \<Rightarrow> 'a list \<times> State" where
  "Array_decode dec s =
     (case Uint_decode s of (count, s1) \<Rightarrow>
      if st_error s1 \<or> unat count > ARRAY_MAX_LENGTH then ([], set_error s1)
      else Array_decode_loop dec (unat count) s1)"

definition Frame_preencode :: "(State \<Rightarrow> 'a \<Rightarrow> State) \<Rightarrow> State \<Rightarrow> 'a \<Rightarrow> State" where
  "Frame_preencode pre s v =
     (let inner = pre State_init v in
      pre_add (Uint_preencode s (of_nat (st_end inner))) (st_end inner))"

definition Frame_encode ::
  "(State \<Rightarrow> 'a \<Rightarrow> State) \<Rightarrow> (State \<Rightarrow> 'a \<Rightarrow> State) \<Rightarrow> State \<Rightarrow> 'a \<Rightarrow> State" where
  "Frame_encode pre enc s v =
     (let inner = pre State_init v in enc (Uint_encode s (of_nat (st_end inner))) v)"

definition Frame_decode :: "'a \<Rightarrow> (State \<Rightarrow> 'a \<times> State) \<Rightarrow> State \<Rightarrow> 'a \<times> State" where
  "Frame_decode dflt dec s =
     (case Uint_decode s of (len, s1) \<Rightarrow>
      if st_error s1 then (dflt, s1) else
      let saved_end = st_end s1;
          s2 = s1\<lparr>st_end := add_size (st_start s1) (unat len)\<rparr> in
      if st_end s2 > saved_end then (dflt, s2\<lparr>st_error := True, st_end := saved_end\<rparr>) else
      case dec s2 of (result, s3) \<Rightarrow>
        (result, s3\<lparr>st_start := st_end s3, st_end := saved_end\<rparr>))"

section \<open>The readable and the writable cursor\<close>

definition data_of :: "State \<Rightarrow> bytes" where
  "data_of s = (case st_data s of None \<Rightarrow> [] | Some d \<Rightarrow> d)"

text \<open>The bytes between the cursor and its end; every decoder is a function of them.\<close>

definition rest :: "State \<Rightarrow> bytes" where
  "rest s = take (st_end s - st_start s) (drop (st_start s) (data_of s))"

definition rd_safe :: "State \<Rightarrow> bool" where
  "rd_safe s \<longleftrightarrow> \<not> st_fault s \<and> st_start s \<le> st_end s \<and> st_end s \<le> length (data_of s) \<and>
     st_end s < 2 ^ 64"

text \<open>What one decoding step may do to the cursor: it stays inside its block, only moves
  forward, touches neither the data nor the end, and keeps an error that was already there.\<close>

definition safe_step :: "State \<Rightarrow> State \<Rightarrow> bool" where
  "safe_step s s' \<longleftrightarrow> rd_safe s' \<and> st_start s \<le> st_start s' \<and> st_end s' = st_end s \<and>
     st_buffer s' = st_buffer s \<and> st_read_buffer s' = st_read_buffer s \<and>
     (st_error s \<longrightarrow> st_error s')"

definition wr_ok :: "State \<Rightarrow> bool" where
  "wr_ok s \<longleftrightarrow> \<not> st_error s \<and> \<not> st_fault s \<and> st_start s \<le> st_end s \<and>
     (\<exists>b. st_buffer s = Some b \<and> st_end s \<le> length b)"

definition room :: "State \<Rightarrow> nat" where
  "room s = st_end s - st_start s"

lemma adv_simps [cursor_simps, simp]:
  "st_start (adv s n) = st_start s + n" "st_end (adv s n) = st_end s"
  "st_error (adv s n) = st_error s" "st_fault (adv s n) = st_fault s"
  "st_buffer (adv s n) = st_buffer s" "st_read_buffer (adv s n) = st_read_buffer s"
  "st_data (adv s n) = st_data s" "data_of (adv s n) = data_of s"
  "adv (adv s m) n = adv s (m + n)" "adv s 0 = s"
  by (simp_all add: adv_def st_data_def data_of_def add.assoc split: option.split)

lemma data_of_update [simp]:
  "data_of (s\<lparr>st_error := e\<rparr>) = data_of s" "data_of (s\<lparr>st_end := n\<rparr>) = data_of s"
  "data_of (s\<lparr>st_start := m\<rparr>) = data_of s" "data_of (s\<lparr>st_fault := f\<rparr>) = data_of s"
  by (simp_all add: data_of_def st_data_def split: option.split)

lemma rest_set_error [simp]: "rest (set_error s) = rest s"
  by (simp add: rest_def)

lemma rd_safe_set_error [simp]: "rd_safe (set_error s) = rd_safe s"
  by (simp add: rd_safe_def)

lemma length_rest: "rd_safe s \<Longrightarrow> length (rest s) = st_end s - st_start s"
  by (auto simp: rd_safe_def rest_def)

lemma has_bytes_rest [cursor_simps]: "rd_safe s \<Longrightarrow> has_bytes s n \<longleftrightarrow> n \<le> length (rest s)"
  by (simp add: length_rest) (simp add: has_bytes_def rd_safe_def)

lemma get_bytes_rest [cursor_simps]:
  assumes "rd_safe s" and "n \<le> length (rest s)"
  shows "get_bytes s n = (take n (rest s), adv s n)"
proof (cases "n = 0")
  case False
  have n: "st_start s + n \<le> st_end s"
    using assms by (auto simp: length_rest rd_safe_def)
  moreover have "st_end s \<le> length (data_of s)"
    using assms(1) by (simp add: rd_safe_def)
  ultimately obtain d where "st_data s = Some d" "data_of s = d" "st_start s + n \<le> length d"
    using False by (cases "st_data s") (auto simp: data_of_def)
  then show ?thesis
    using False n by (simp add: get_bytes_def mem_read_def rest_def min_def)
qed (simp add: get_bytes_def mem_read_def)

lemma rest_adv [cursor_simps]: "rest (adv s n) = drop n (rest s)"
  by (simp add: rest_def drop_take add.commute)

lemma rd_safe_adv [cursor_simps]:
  "rd_safe s \<Longrightarrow> n \<le> length (rest s) \<Longrightarrow> rd_safe (adv s n)"
  by (simp add: length_rest) (auto simp: rd_safe_def)

lemma safe_step_refl: "rd_safe s \<Longrightarrow> safe_step s s"
  by (simp add: safe_step_def)

lemma safe_step_set_error: "rd_safe s \<Longrightarrow> safe_step s (set_error s)"
  by (simp add: safe_step_def)

lemma safe_step_adv: "rd_safe s \<Longrightarrow> n \<le> length (rest s) \<Longrightarrow> safe_step s (adv s n)"
  by (simp add: safe_step_def rd_safe_adv)

lemma safe_step_adv_error:
  "rd_safe s \<Longrightarrow> n \<le> length (rest s) \<Longrightarrow> safe_step s (set_error (adv s n))"
  by (simp add: safe_step_def rd_safe_adv)

lemma safe_step_trans: "safe_step s s' \<Longrightarrow> safe_step s' s'' \<Longrightarrow> safe_step s s''"
  by (auto simp: safe_step_def)

lemmas safe_steps = safe_step_refl safe_step_set_error safe_step_adv safe_step_adv_error

lemma for_decode_simps [simp]:
  "st_error (for_decode b n) = False" "st_fault (for_decode b n) = False"
  "st_start (for_decode b n) = 0" "st_end (for_decode b n) = n"
  "st_buffer (for_decode b n) = None" "st_read_buffer (for_decode b n) = b"
  by (simp_all add: for_decode_def State_init_def)

lemma for_decode_cursor:
  assumes "length bs < 2 ^ 64"
  shows rd_safe_for_decode: "rd_safe (for_decode (Some bs) (length bs))"
    and rest_for_decode: "rest (for_decode (Some bs) (length bs)) = bs"
  using assms by (simp_all add: rd_safe_def rest_def data_of_def st_data_def)

subsection \<open>Writing\<close>

lemma pre_add_simps [cursor_simps]:
  "pre_add (pre_add s a) b = pre_add s (a + b)" "st_start (pre_add s a) = st_start s"
  "st_end (pre_add s a) = add_size (st_end s) a"
  by (simp_all add: pre_add_def add_size_assoc)

lemma has_bytes_room [cursor_simps]: "wr_ok s \<Longrightarrow> has_bytes s n \<longleftrightarrow> n \<le> room s"
  by (auto simp: wr_ok_def has_bytes_def room_def)

lemma length_overwrite: "i + length bs \<le> length b \<Longrightarrow> length (overwrite b i bs) = length b"
  by (simp add: overwrite_def)

lemma overwrite_overwrite:
  "i + length u + length v \<le> length b \<Longrightarrow>
     overwrite (overwrite b i u) (i + length u) v = overwrite b i (u @ v)"
  by (simp add: overwrite_def ac_simps)

lemma wr_okE:
  assumes "wr_ok s" and "length bs \<le> room s"
  obtains b where "st_buffer s = Some b" "st_start s + length bs \<le> length b"
    "put_bytes s bs = s\<lparr>st_buffer := Some (overwrite b (st_start s) bs),
                      st_start := st_start s + length bs\<rparr>"
proof -
  from assms obtain b where b: "st_buffer s = Some b" "st_start s + length bs \<le> length b"
    by (auto simp: wr_ok_def room_def)
  moreover have "put_bytes s bs = s\<lparr>st_buffer := Some (overwrite b (st_start s) bs),
      st_start := st_start s + length bs\<rparr>"
    using b by (cases "bs = []") (auto simp: put_bytes_def mem_write_def adv_def overwrite_def)
  ultimately show ?thesis by (rule that)
qed

lemma put_bytes_ok [cursor_simps]:
  assumes "wr_ok s" and "length bs \<le> room s"
  shows "wr_ok (put_bytes s bs)" and "room (put_bytes s bs) = room s - length bs"
proof -
  obtain b where b: "st_buffer s = Some b" "st_start s + length bs \<le> length b"
      "put_bytes s bs = s\<lparr>st_buffer := Some (overwrite b (st_start s) bs),
                      st_start := st_start s + length bs\<rparr>"
    using assms by (rule wr_okE)
  show "wr_ok (put_bytes s bs)"
    using assms b by (auto simp: wr_ok_def length_overwrite room_def)
  show "room (put_bytes s bs) = room s - length bs"
    using b by (simp add: room_def)
qed

lemma put_bytes_append [cursor_simps]:
  assumes "wr_ok s" and "length u + length v \<le> room s"
  shows "put_bytes (put_bytes s u) v = put_bytes s (u @ v)"
proof -
  obtain b where b: "st_buffer s = Some b" "st_start s + length u \<le> length b"
      and u: "put_bytes s u = s\<lparr>st_buffer := Some (overwrite b (st_start s) u),
                      st_start := st_start s + length u\<rparr>"
    using assms by (auto elim: wr_okE [of s u])
  have uv: "st_start s + length (u @ v) \<le> length b"
      "put_bytes s (u @ v) = s\<lparr>st_buffer := Some (overwrite b (st_start s) (u @ v)),
                      st_start := st_start s + length (u @ v)\<rparr>"
    using assms b(1) by (auto elim: wr_okE [of s "u @ v"])
  obtain b' where b': "st_buffer (put_bytes s u) = Some b'"
      "put_bytes (put_bytes s u) v = (put_bytes s u)\<lparr>
         st_buffer := Some (overwrite b' (st_start (put_bytes s u)) v),
         st_start := st_start (put_bytes s u) + length v\<rparr>"
    using assms by (metis wr_okE put_bytes_ok add_leD1 le_diff_conv2 add.commute)
  then have "b' = overwrite b (st_start s) u"
    by (simp add: u)
  then show ?thesis
    using b' uv by (simp add: u overwrite_overwrite add.assoc)
qed

lemma wr_ok_simps: "wr_ok s \<Longrightarrow> \<not> st_error s" "wr_ok s \<Longrightarrow> \<not> st_fault s" "wr_ok s \<Longrightarrow> st_buffer s \<noteq> None"
  by (auto simp: wr_ok_def)

text \<open>The cursor an encoder starts from: a zeroed block of the preencoded size.\<close>

definition alloc :: "State \<Rightarrow> State" where
  "alloc s = s\<lparr>st_buffer := Some (replicate (st_end s) 0), st_start := 0\<rparr>"

definition buffer_of :: "State \<Rightarrow> bytes" where
  "buffer_of s = (case st_buffer s of None \<Rightarrow> [] | Some b \<Rightarrow> b)"

lemma alloc_pre_add:
  assumes "n < 2 ^ 64"
  shows "wr_ok (alloc (pre_add State_init n))" and "room (alloc (pre_add State_init n)) = n"
  using assms by (auto simp: alloc_def pre_add_def State_init_def wr_ok_def room_def add_size_def)

lemma put_bytes_alloc:
  assumes "length w < 2 ^ 64"
  shows "buffer_of (put_bytes (alloc (pre_add State_init (length w))) w) = w"
proof -
  let ?s = "alloc (pre_add State_init (length w))"
  have "st_buffer ?s = Some (replicate (length w) 0)" "st_start ?s = 0"
    using assms by (auto simp: alloc_def pre_add_def State_init_def add_size_def)
  moreover have "wr_ok ?s" "length w \<le> room ?s"
    using assms by (simp_all add: alloc_pre_add)
  ultimately show ?thesis
    by (auto elim!: wr_okE [of ?s w] simp: buffer_of_def overwrite_def)
qed

end
