(* ===== verification/Address.thy ===== *)
theory Address
  imports Compact
begin

text \<open>
  Textual IPv4 and IPv6 addresses (\<^verbatim>\<open>Ipv4Address\<close> and \<^verbatim>\<open>Ipv6Address\<close> of
  \<^verbatim>\<open>src/compact.cpp\<close>): printing, parsing, and the \<^verbatim>\<open>host:port\<close> keys that the NAT sampler and
  the query engine deduplicate by.  \<open>to_chars\<close> and \<open>from_chars\<close> model \<^verbatim>\<open>std::to_chars\<close> /
  \<^verbatim>\<open>std::to_string\<close> and \<^verbatim>\<open>std::from_chars\<close> on unsigned decimals.
\<close>

section \<open>Decimal numerals\<close>

definition digit_char :: "nat \<Rightarrow> char" where
  "digit_char d = char_of (48 + d)"

definition is_digit :: "char \<Rightarrow> bool" where
  "is_digit c \<longleftrightarrow> 48 \<le> (of_char c :: nat) \<and> (of_char c :: nat) \<le> 57"

fun to_chars :: "nat \<Rightarrow> string" where
  "to_chars n = (if n < 10 then [digit_char n] else to_chars (n div 10) @ [digit_char (n mod 10)])"

declare to_chars.simps [simp del]

text \<open>\<^verbatim>\<open>std::from_chars\<close> reads the longest prefix of digits, ignores what follows, and fails
  when there is no digit or the value does not fit an \<^verbatim>\<open>unsigned int\<close>.\<close>

definition digits_value :: "string \<Rightarrow> nat" where
  "digits_value ds = foldl (\<lambda>a c. 10 * a + (of_char c - 48)) 0 ds"

definition from_chars :: "string \<Rightarrow> nat option" where
  "from_chars seg =
     (let ds = takeWhile is_digit seg in
      if ds = [] then None
      else if digits_value ds < 2 ^ 32 then Some (digits_value ds) else None)"

text \<open>The same test over the integers, for evaluation.\<close>

lemma from_chars_code [code]:
  "from_chars seg =
     (let ds = takeWhile is_digit seg in
      if ds = [] then None
      else if int (digits_value ds) < 2 ^ 32 then Some (digits_value ds) else None)"
proof -
  have "digits_value ds < 2 ^ 32 \<longleftrightarrow> int (digits_value ds) < 2 ^ 32" for ds
    by simp
  then show ?thesis
    by (simp only: from_chars_def)
qed

definition find_from :: "char \<Rightarrow> string \<Rightarrow> nat \<Rightarrow> nat" where
  "find_from c s pos = pos + length (takeWhile (\<lambda>x. x \<noteq> c) (drop pos s))"

section \<open>IPv4\<close>

definition Ipv4_host_string :: "Ipv4Address \<Rightarrow> string" where
  "Ipv4_host_string a =
     concat (map (\<lambda>i. (if i > 0 then ''.'' else []) @ to_chars (unat (ip_host a ! i))) [0..<4])"

fun Ipv4_from_string_loop :: "nat \<Rightarrow> nat \<Rightarrow> nat \<Rightarrow> string \<Rightarrow> Ipv4Address \<Rightarrow> Ipv4Address option" where
  "Ipv4_from_string_loop 0 i pos s addr = Some addr"
| "Ipv4_from_string_loop (Suc n) i pos s addr =
     (if pos \<le> length s then
        let dot = find_from CHR ''.'' s pos in
        case from_chars (take (dot - pos) (drop pos s)) of
          None \<Rightarrow> None
        | Some octet_val \<Rightarrow>
            if octet_val > 255 then None
            else Ipv4_from_string_loop n (Suc i) (dot + 1) s
                   (addr\<lparr>ip_host := (ip_host addr)[i := of_nat octet_val]\<rparr>)
      else Some addr)"

definition Ipv4_from_string :: "string \<Rightarrow> u16 \<Rightarrow> Ipv4Address" where
  "Ipv4_from_string s port =
     (case Ipv4_from_string_loop 4 0 0 s (Ipv4Address_init\<lparr>ip_port := port\<rparr>) of
        None \<Rightarrow> Ipv4Address_init | Some a \<Rightarrow> a)"

definition addr_key :: "Ipv4Address \<Rightarrow> string" where
  "addr_key a = Ipv4_host_string a @ '':'' @ to_chars (unat (ip_port a))"

section \<open>IPv6\<close>

definition hex_char :: "nat \<Rightarrow> char" where
  "hex_char d = ''0123456789abcdef'' ! d"

fun hex_rev :: "nat \<Rightarrow> string" where
  "hex_rev v = (if v > 0 then hex_char (v mod 16) # hex_rev (v div 16) else [])"

declare hex_rev.simps [simp del]

definition group_string :: "u16 \<Rightarrow> string" where
  "group_string val = (if val = 0 then ''0'' else rev (hex_rev (unat val)))"

definition group_at :: "bytes \<Rightarrow> nat \<Rightarrow> u16" where
  "group_at h g = push_bit 8 (ucast (h ! (2 * g))) OR ucast (h ! (2 * g + 1))"

definition Ipv6_host_string :: "Ipv6Address \<Rightarrow> string" where
  "Ipv6_host_string a =
     concat (map (\<lambda>g. (if g > 0 then '':'' else []) @ group_string (group_at (ip6_host a) g)) [0..<8])"

fun split_double_colon :: "string \<Rightarrow> (string \<times> string) option" where
  "split_double_colon (c # d # r) =
     (if c = CHR '':'' \<and> d = CHR '':'' then Some ([], r)
      else map_option (\<lambda>(b, a). (c # b, a)) (split_double_colon (d # r)))"
| "split_double_colon s = None"

fun parse_hex :: "u16 \<Rightarrow> string \<Rightarrow> u16 option" where
  "parse_hex val [] = Some val"
| "parse_hex val (c # cs) =
     (let n = (of_char c :: nat) in
      if 48 \<le> n \<and> n \<le> 57 then parse_hex (val * 16 + of_nat (n - 48)) cs
      else if 97 \<le> n \<and> n \<le> 102 then parse_hex (val * 16 + of_nat (n - 97 + 10)) cs
      else if 65 \<le> n \<and> n \<le> 70 then parse_hex (val * 16 + of_nat (n - 65 + 10)) cs
      else None)"

function parse_groups :: "string \<Rightarrow> u16 list option" where
  "parse_groups s =
     (if s = [] then Some [] else
      let seg = takeWhile (\<lambda>x. x \<noteq> CHR '':'') s in
      case parse_hex 0 seg of
        None \<Rightarrow> None
      | Some val \<Rightarrow> map_option ((#) val) (parse_groups (drop (Suc (length seg)) s)))"
  by pat_completeness auto
termination
  by (relation "measure length") auto

declare parse_groups.simps [simp del]

fun write_groups :: "nat \<Rightarrow> u16 list \<Rightarrow> bytes \<Rightarrow> bytes" where
  "write_groups g [] h = h"
| "write_groups g (x # xs) h =
     (if g < 8
      then write_groups (Suc g) xs (h[2 * g := ucast (drop_bit 8 x), 2 * g + 1 := ucast (x AND 0xff)])
      else h)"

definition Ipv6_from_string :: "string \<Rightarrow> u16 \<Rightarrow> Ipv6Address" where
  "Ipv6_from_string s port =
     (let addr = Ipv6Address_init\<lparr>ip6_port := port\<rparr> in
      case split_double_colon s of
        Some (before_str, after_str) \<Rightarrow>
          (case (parse_groups before_str, parse_groups after_str) of
             (Some before_groups, Some after_groups) \<Rightarrow>
               let total = length before_groups + length after_groups;
                   missing = (if total < 8 then 8 - total else 0) in
               addr\<lparr>ip6_host := write_groups 0 (before_groups @ replicate missing 0 @ after_groups)
                                 (ip6_host addr)\<rparr>
           | _ \<Rightarrow> addr)
      | None \<Rightarrow>
          (case parse_groups s of
             Some before_groups \<Rightarrow> addr\<lparr>ip6_host := write_groups 0 before_groups (ip6_host addr)\<rparr>
           | None \<Rightarrow> addr))"

section \<open>Lemmas\<close>

lemma is_digit_digit_char [simp]: "d < 10 \<Longrightarrow> is_digit (digit_char d)"
  by (simp add: is_digit_def digit_char_def)

lemma of_char_digit_char [simp]: "d < 10 \<Longrightarrow> (of_char (digit_char d) :: nat) = 48 + d"
  by (simp add: digit_char_def)

lemma digits_value_snoc: "digits_value (ds @ [c]) = 10 * digits_value ds + (of_char c - 48)"
  by (simp add: digits_value_def)

lemma to_chars_props: "to_chars n \<noteq> [] \<and> (\<forall>c \<in> set (to_chars n). is_digit c) \<and> digits_value (to_chars n) = n"
proof (induction n rule: to_chars.induct)
  case (1 n)
  show ?case
  proof (cases "n < 10")
    case True
    then show ?thesis
      by (simp add: to_chars.simps [of n] digits_value_def)
  next
    case False
    with 1 show ?thesis
      by (auto simp: to_chars.simps [of n] digits_value_snoc)
  qed
qed

lemma from_chars_to_chars: "n < 2 ^ 32 \<Longrightarrow> from_chars (to_chars n) = Some n"
  using to_chars_props [of n] by (simp add: from_chars_def Let_def takeWhile_eq_all_conv [THEN iffD2])

lemma to_chars_inject: "to_chars m = to_chars n \<longleftrightarrow> m = n"
  by (metis to_chars_props)

lemma no_sep: "c \<in> set (to_chars n) \<Longrightarrow> c \<noteq> CHR ''.'' \<and> c \<noteq> CHR '':''"
  using to_chars_props [of n] by (auto simp: is_digit_def)

lemma takeWhile_sep:
  assumes "\<forall>x \<in> set u. x \<noteq> c" and "r = [] \<or> hd r = c"
  shows "takeWhile (\<lambda>x. x \<noteq> c) (u @ r) = u"
  using assms by (cases r) (simp_all add: takeWhile_append2 takeWhile_eq_all_conv [THEN iffD2])

lemma from_string_step:
  assumes "pos = length p" and "n < 256" and "r = [] \<or> hd r = CHR ''.''"
  shows "Ipv4_from_string_loop (Suc k) i pos (p @ to_chars n @ r) addr =
         Ipv4_from_string_loop k (Suc i) (length (p @ to_chars n) + 1) (p @ to_chars n @ r)
           (addr\<lparr>ip_host := (ip_host addr)[i := of_nat n]\<rparr>)"
proof -
  have "takeWhile (\<lambda>x. x \<noteq> CHR ''.'') (to_chars n @ r) = to_chars n"
    using assms(3) no_sep by (intro takeWhile_sep) auto
  then show ?thesis
    using assms(1,2) from_chars_to_chars [of n] by (simp add: find_from_def)
qed

lemma host_string_explicit:
  assumes "ip_host a = [b0, b1, b2, b3]"
  shows "Ipv4_host_string a = to_chars (unat b0) @ ''.'' @ to_chars (unat b1) @ ''.'' @
    to_chars (unat b2) @ ''.'' @ to_chars (unat b3)"
proof -
  have "[0..<4] = [0, 1, 2, 3 :: nat]"
    by (simp add: upt_rec)
  with assms show ?thesis
    by (simp add: Ipv4_host_string_def)
qed

lemma Ipv4_from_host_string:
  assumes "length (ip_host a) = 4"
  shows "Ipv4_from_string (Ipv4_host_string a) p = \<lparr>ip_host = ip_host a, ip_port = p\<rparr>"
proof -
  obtain b0 b1 b2 b3 where h: "ip_host a = [b0, b1, b2, b3]"
    using assms by (auto simp: length_Suc_conv eval_nat_numeral)
  have b: "unat b < 256" for b :: byte
    using unsigned_less [of b, where ?'a = nat] by simp
  let ?t = "\<lambda>b :: byte. to_chars (unat b)"
  have dots: "Ipv4_from_string_loop (Suc k) i (length p) (p @ ?t b @ r) addr =
       Ipv4_from_string_loop k (Suc i) (length (p @ ?t b @ ''.'')) (p @ ?t b @ r)
           (addr\<lparr>ip_host := (ip_host addr)[i := b]\<rparr>)"
    if "r = [] \<or> hd r = CHR ''.''" for k i p r addr and b :: byte
    using from_string_step [OF refl b that] by simp
  define str where "str = Ipv4_host_string a"
  define p1 where "p1 = ?t b0 @ ''.''"
  define p2 where "p2 = p1 @ ?t b1 @ ''.''"
  define p3 where "p3 = p2 @ ?t b2 @ ''.''"
  have str: "str = [] @ ?t b0 @ ''.'' @ ?t b1 @ ''.'' @ ?t b2 @ ''.'' @ ?t b3"
      "str = p1 @ ?t b1 @ ''.'' @ ?t b2 @ ''.'' @ ?t b3"
      "str = p2 @ ?t b2 @ ''.'' @ ?t b3" "str = p3 @ ?t b3 @ []"
    by (simp_all add: str_def host_string_explicit [OF h] p1_def p2_def p3_def)
  let ?L = Ipv4_from_string_loop
  have "?L (Suc k) 0 0 str A = ?L k 1 (length p1) str (A\<lparr>ip_host := (ip_host A)[0 := b0]\<rparr>)" for k A
    unfolding str(1) using dots [of _ k 0 "[]" b0 A] by (simp add: p1_def)
  moreover have "?L (Suc k) 1 (length p1) str A =
      ?L k 2 (length p2) str (A\<lparr>ip_host := (ip_host A)[1 := b1]\<rparr>)" for k A
    unfolding str(2) p2_def by (subst dots) (simp_all add: numeral_2_eq_2)
  moreover have "?L (Suc k) 2 (length p2) str A =
      ?L k 3 (length p3) str (A\<lparr>ip_host := (ip_host A)[2 := b2]\<rparr>)" for k A
    unfolding str(3) p3_def by (subst dots) (simp_all add: numeral_2_eq_2 numeral_3_eq_3)
  moreover have "?L (Suc 0) 3 (length p3) str A = Some (A\<lparr>ip_host := (ip_host A)[3 := b3]\<rparr>)" for A
    unfolding str(4) by (subst dots) simp_all
  ultimately have "?L 4 0 0 str (Ipv4Address_init\<lparr>ip_port := p\<rparr>) =
      Some \<lparr>ip_host = ip_host a, ip_port = p\<rparr>"
    by (simp add: eval_nat_numeral Ipv4Address_init_def h del: Ipv4_from_string_loop.simps)
  then show ?thesis
    by (simp add: Ipv4_from_string_def str_def)
qed


lemma host_string_no_colon: "length (ip_host a) = 4 \<Longrightarrow> CHR '':'' \<notin> set (Ipv4_host_string a)"
  using no_sep by (force simp: Ipv4_host_string_def)

lemma host_string_inject:
  assumes "length (ip_host a) = 4" and "length (ip_host b) = 4"
  shows "Ipv4_host_string a = Ipv4_host_string b \<longleftrightarrow> ip_host a = ip_host b"
proof
  assume "Ipv4_host_string a = Ipv4_host_string b"
  then show "ip_host a = ip_host b"
    using Ipv4_from_host_string [OF assms(1), of 0] Ipv4_from_host_string [OF assms(2), of 0] by simp
qed (simp add: Ipv4_host_string_def)

lemma append_sep_eq:
  assumes "c \<notin> set u" and "c \<notin> set v"
  shows "u @ c # x = v @ c # y \<longleftrightarrow> u = v \<and> x = y"
  using assms by (induction u arbitrary: v) (case_tac v; auto)+

lemma addr_key_inject:
  assumes "length (ip_host a) = 4" and "length (ip_host b) = 4"
  shows "addr_key a = addr_key b \<longleftrightarrow> a = b"
proof -
  have "addr_key a = addr_key b \<longleftrightarrow> ip_host a = ip_host b \<and> unat (ip_port a) = unat (ip_port b)"
    using assms
    by (simp add: addr_key_def append_sep_eq host_string_no_colon host_string_inject to_chars_inject)
  then show ?thesis
    by (cases a; cases b) (simp add: word_unat_eq_iff)
qed

subsection \<open>IPv6 groups\<close>

lemma parse_hex_append:
  "parse_hex v (xs @ ys) = (case parse_hex v xs of None \<Rightarrow> None | Some w \<Rightarrow> parse_hex w ys)"
  by (induction v xs rule: parse_hex.induct) (auto simp: Let_def)

lemma parse_hex_char: "d < 16 \<Longrightarrow> parse_hex v [hex_char d] = Some (v * 16 + of_nat d)"
  by (simp add: hex_char_def less_Suc_eq numeral_eq_Suc) (elim disjE; simp)

lemma hex_char_no_colon: "d < 16 \<Longrightarrow> hex_char d \<noteq> CHR '':''"
  by (simp add: hex_char_def less_Suc_eq numeral_eq_Suc) (elim disjE; simp)

lemma hex_rev_props:
  "parse_hex 0 (rev (hex_rev n)) = Some (of_nat n) \<and> CHR '':'' \<notin> set (hex_rev n) \<and> (0 < n \<longrightarrow> hex_rev n \<noteq> [])"
proof (induction n rule: hex_rev.induct)
  case (1 n)
  show ?case
  proof (cases "n > 0")
    case True
    have "of_nat (n div 16) * 16 + of_nat (n mod 16) = (of_nat (n div 16 * 16 + n mod 16) :: u16)"
      by (simp only: of_nat_add of_nat_mult of_nat_numeral)
    then have n: "of_nat (n div 16) * 16 + of_nat (n mod 16) = (of_nat n :: u16)"
      by simp
    show ?thesis
      using 1 [OF True] True hex_char_no_colon [of "n mod 16"]
      by (simp add: hex_rev.simps [of n] parse_hex_append parse_hex_char n
          del: parse_hex.simps(2))
  qed (simp add: hex_rev.simps)
qed

lemma group_string_props:
  "parse_hex 0 (group_string v) = Some v" "CHR '':'' \<notin> set (group_string v)" "group_string v \<noteq> []"
  using hex_rev_props [of "unat v"] by (auto simp: group_string_def unat_gt_0)

fun join_colon :: "string list \<Rightarrow> string" where
  "join_colon [] = []"
| "join_colon [x] = x"
| "join_colon (x # y # xs) = x @ CHR '':'' # join_colon (y # xs)"

lemma parse_groups_join:
  "parse_groups (join_colon (map group_string vs)) = Some vs"
proof (induction vs rule: induct_list012)
  case 1
  show ?case by (simp add: parse_groups.simps)
next
  case (2 v)
  have tw: "takeWhile (\<lambda>x. x \<noteq> CHR '':'') (group_string v) = group_string v"
    using takeWhile_sep [of "group_string v" "CHR '':''" "[]"] group_string_props(2) [of v] by auto
  show ?case
    by (subst parse_groups.simps)
      (simp add: tw group_string_props parse_groups.simps [of "[]"] Let_def del: takeWhile_eq_all_conv)
next
  case (3 v w vs)
  let ?r = "join_colon (map group_string (w # vs))"
  have "takeWhile (\<lambda>x. x \<noteq> CHR '':'') (group_string v @ CHR '':'' # ?r) = group_string v"
    using group_string_props(2) [of v] by (intro takeWhile_sep) auto
  with 3 show ?case
    by (subst parse_groups.simps) (simp add: group_string_props)
qed

lemma split_prefix:
  "CHR '':'' \<notin> set u \<Longrightarrow> split_double_colon r = None \<Longrightarrow> split_double_colon (u @ r) = None"
proof (induction u)
  case (Cons c u)
  then show ?case
    by (cases "u @ r") auto
qed simp

lemma split_join: "split_double_colon (join_colon (map group_string vs)) = None"
proof (induction vs rule: induct_list012)
  case (2 v)
  then show ?case
    using split_prefix [of "group_string v" "[]"] group_string_props(2) by simp
next
  case (3 v w vs)
  let ?r = "join_colon (map group_string (w # vs))"
  obtain c cs where r: "?r = c # cs" "c \<noteq> CHR '':''"
    using group_string_props(2,3) [of w] by (cases "group_string w"; cases vs) auto
  then have "split_double_colon (CHR '':'' # ?r) = None"
    using 3 by simp
  then show ?case
    using split_prefix group_string_props(2) [of v] by simp
qed simp

lemma group_bytes:
  fixes x y :: byte
  shows "ucast (drop_bit 8 (push_bit 8 (ucast x) OR ucast y :: u16)) = x"
    and "ucast ((push_bit 8 (ucast x) OR ucast y :: u16) AND 0xff) = y"
proof -
  have m: "(0xff :: u16) = mask 8"
    by (simp add: mask_eq_exp_minus_1)
  show "ucast (drop_bit 8 (push_bit 8 (ucast x) OR ucast y :: u16)) = x"
    by (rule bit_word_eqI) (auto simp: bit_simps dest: bit_imp_le_length)
  show "ucast ((push_bit 8 (ucast x) OR ucast y :: u16) AND 0xff) = y"
    unfolding m by (rule bit_word_eqI) (auto simp: bit_simps)
qed

lemma group_at_bytes:
  "ucast (drop_bit 8 (group_at h g)) = h ! (2 * g)" "ucast (group_at h g AND 0xff) = h ! (2 * g + 1)"
  unfolding group_at_def by (rule group_bytes)+

lemma Ipv6_from_host_string:
  assumes "length (ip6_host a) = 16"
  shows "Ipv6_from_string (Ipv6_host_string a) p = \<lparr>ip6_host = ip6_host a, ip6_port = p\<rparr>"
proof -
  let ?h = "ip6_host a"
  have up: "[0..<8] = [0, 1, 2, 3, 4, 5, 6, 7 :: nat]"
    by (simp add: upt_rec)
  have join: "Ipv6_host_string a = join_colon (map group_string (map (group_at ?h) [0..<8]))"
    by (simp add: Ipv6_host_string_def up)
  obtain h0 h1 h2 h3 h4 h5 h6 h7 h8 h9 ha hb hc hd he hf where
      h: "?h = [h0, h1, h2, h3, h4, h5, h6, h7, h8, h9, ha, hb, hc, hd, he, hf]"
    using assms by (auto simp: length_Suc_conv eval_nat_numeral)
  have zeros: "replicate 16 (0 :: byte) = [0, 0, 0, 0, 0, 0, 0, 0, 0, 0, 0, 0, 0, 0, 0, 0]"
    by (simp add: numeral_nat)
  have "write_groups 0 (map (group_at ?h) [0..<8]) (replicate 16 0) = ?h"
    unfolding zeros up by (simp add: group_at_bytes) (simp add: h)
  then show ?thesis
    by (simp add: Ipv6_from_string_def join split_join parse_groups_join Ipv6Address_init_def Let_def
        del: map_map)
qed

section \<open>Properties\<close>

text \<open>Printing an address and parsing it back gives the address again, for every IPv4 and every
  IPv6 address: \<^verbatim>\<open>from_string(a.host_string(), a.port) == a\<close>.\<close>

lemma address_text_roundtrip:
  assumes "length (ip_host a) = 4" and "length (ip6_host b) = 16"
  shows "Ipv4_from_string (Ipv4_host_string a) (ip_port a) = a \<and>
         Ipv6_from_string (Ipv6_host_string b) (ip6_port b) = b"
  using Ipv4_from_host_string [OF assms(1)] Ipv6_from_host_string [OF assms(2)] by simp

text \<open>The \<^verbatim>\<open>host:port\<close> strings under which the NAT sampler and the query engine record the
  nodes they have seen identify addresses: two addresses have the same key exactly when they
  are equal.\<close>

lemma addr_key_identifies:
  assumes "length (ip_host a) = 4" and "length (ip_host b) = 4"
  shows "addr_key a = addr_key b \<longleftrightarrow> a = b"
  using assms by (rule addr_key_inject)

end
