(* ===== verification/Announce_Store.thy ===== *)
theory Announce_Store
  imports Address "HOL-Library.AList"
begin

text \<open>
  The announce store (\<^verbatim>\<open>include/hyperdht/announce.hpp\<close>, \<^verbatim>\<open>src/announce.cpp\<close>): peer announcements by target
  key, at most 20 per target and 65536 targets.  The hash map is an association list with distinct keys;
  its iteration order is never observed.
\<close>

section \<open>The store\<close>

type_synonym TargetKey = bytes

definition DEFAULT_TTL_MS :: u64 where "DEFAULT_TTL_MS = 20 * 60 * 1000"
definition MAX_PEERS_PER_TARGET :: nat where "MAX_PEERS_PER_TARGET = 20"
definition MAX_TOTAL_TARGETS :: nat where "MAX_TOTAL_TARGETS = 65536"

record PeerAnnouncement =
  pa_from :: Ipv4Address
  pa_value :: bytes
  pa_created_at :: u64
  pa_ttl :: u64

type_synonym AnnounceStore = "(TargetKey \<times> PeerAnnouncement list) list"

definition same_from :: "Ipv4Address \<Rightarrow> PeerAnnouncement \<Rightarrow> bool" where
  "same_from from a \<longleftrightarrow> Ipv4_host_string (pa_from a) = Ipv4_host_string from \<and> ip_port (pa_from a) = ip_port from"

text \<open>The replacement loop: the first entry of the same address becomes the new one, \<open>None\<close> if there is none.\<close>

fun replace_from :: "PeerAnnouncement \<Rightarrow> PeerAnnouncement list \<Rightarrow> PeerAnnouncement list option" where
  "replace_from ann [] = None"
| "replace_from ann (e # es) =
     (if same_from (pa_from ann) e then Some (ann # es) else map_option ((#) e) (replace_from ann es))"

text \<open>\<^verbatim>\<open>std::min_element\<close>: the index of the first smallest element.\<close>

fun min_element_loop :: "('a \<Rightarrow> 'a \<Rightarrow> bool) \<Rightarrow> 'a list \<Rightarrow> nat \<Rightarrow> 'a \<Rightarrow> nat \<Rightarrow> nat" where
  "min_element_loop lt [] i best r = r"
| "min_element_loop lt (x # xs) i best r =
     (if lt x best then min_element_loop lt xs (Suc i) x i else min_element_loop lt xs (Suc i) best r)"

definition min_element :: "('a \<Rightarrow> 'a \<Rightarrow> bool) \<Rightarrow> 'a list \<Rightarrow> nat" where
  "min_element lt xs = (case xs of [] \<Rightarrow> 0 | x # xs' \<Rightarrow> min_element_loop lt xs' 1 x 0)"

definition put_peer :: "PeerAnnouncement \<Rightarrow> PeerAnnouncement list \<Rightarrow> PeerAnnouncement list" where
  "put_peer ann peers =
     (case replace_from ann peers of
        Some peers' \<Rightarrow> peers'
      | None \<Rightarrow>
          if length peers \<ge> MAX_PEERS_PER_TARGET
          then peers[min_element (\<lambda>a b. pa_created_at a < pa_created_at b) peers := ann]
          else peers @ [ann])"

definition AnnounceStore_get :: "AnnounceStore \<Rightarrow> TargetKey \<Rightarrow> PeerAnnouncement list" where
  "AnnounceStore_get s target = (case map_of s target of None \<Rightarrow> [] | Some peers \<Rightarrow> peers)"

definition AnnounceStore_put :: "AnnounceStore \<Rightarrow> TargetKey \<Rightarrow> PeerAnnouncement \<Rightarrow> AnnounceStore" where
  "AnnounceStore_put s target ann =
     (if length s \<ge> MAX_TOTAL_TARGETS \<and> map_of s target = None then s
      else AList.update target (put_peer ann (AnnounceStore_get s target)) s)"

definition AnnounceStore_remove :: "AnnounceStore \<Rightarrow> TargetKey \<Rightarrow> Ipv4Address \<Rightarrow> bool \<times> AnnounceStore" where
  "AnnounceStore_remove s target from =
     (case map_of s target of
        None \<Rightarrow> (False, s)
      | Some peers \<Rightarrow>
          let kept = filter (\<lambda>a. \<not> same_from from a) peers in
          if length kept = length peers then (False, s)
          else if kept = [] then (True, AList.delete target s)
          else (True, AList.update target kept s))"

definition ann_expired :: "u64 \<Rightarrow> PeerAnnouncement \<Rightarrow> bool" where
  "ann_expired now_ms a \<longleftrightarrow> (if now_ms < pa_created_at a then False else now_ms - pa_created_at a > pa_ttl a)"

fun AnnounceStore_gc :: "u64 \<Rightarrow> AnnounceStore \<Rightarrow> AnnounceStore" where
  "AnnounceStore_gc now_ms [] = []"
| "AnnounceStore_gc now_ms ((target, peers) # s) =
     (let kept = filter (\<lambda>a. \<not> ann_expired now_ms a) peers in
      if kept = [] then AnnounceStore_gc now_ms s else (target, kept) # AnnounceStore_gc now_ms s)"

definition AnnounceStore_size :: "AnnounceStore \<Rightarrow> nat" where
  "AnnounceStore_size s = sum_list (map (\<lambda>(_, peers). length peers) s)"

definition target_count :: "AnnounceStore \<Rightarrow> nat" where
  "target_count s = length s"

section \<open>Invariant\<close>

definition from_key :: "PeerAnnouncement \<Rightarrow> string \<times> u16" where
  "from_key a = (Ipv4_host_string (pa_from a), ip_port (pa_from a))"

definition peers_ok :: "PeerAnnouncement list \<Rightarrow> bool" where
  "peers_ok peers \<longleftrightarrow> length peers \<le> MAX_PEERS_PER_TARGET \<and> distinct (map from_key peers)"

definition store_ok :: "AnnounceStore \<Rightarrow> bool" where
  "store_ok s \<longleftrightarrow> distinct (map fst s) \<and> length s \<le> MAX_TOTAL_TARGETS \<and>
     (\<forall>(target, peers) \<in> set s. peers \<noteq> [] \<and> peers_ok peers)"

lemma same_from_key: "same_from (pa_from ann) a \<longleftrightarrow> from_key a = from_key ann"
  by (auto simp: same_from_def from_key_def)

lemma replace_from_spec:
  "replace_from ann es = None \<longleftrightarrow> from_key ann \<notin> from_key ` set es"
  "replace_from ann es = Some es' \<Longrightarrow> map from_key es' = map from_key es \<and> ann \<in> set es' \<and>
     (distinct (map from_key es) \<longrightarrow> set es' = insert ann {e \<in> set es. from_key e \<noteq> from_key ann})"
proof (induction es arbitrary: es')
  case (Cons e es)
  {
    case 1
    then show ?case
      using Cons.IH(1) by (auto simp: same_from_key)
  next
    case 2
    then show ?case
      using Cons.IH(2) by (fastforce simp: same_from_key image_iff split: if_splits)
  }
qed simp_all

lemma min_element_loop_spec:
  fixes f :: "'a \<Rightarrow> 'b :: linorder"
  assumes "xs = take i xs @ ys" "r < i" "i \<le> length xs" "xs ! r = best" "\<forall>x \<in> set (take i xs). f best \<le> f x"
  shows "min_element_loop (\<lambda>a b. f a < f b) ys i best r < length xs \<and>
    (\<forall>x \<in> set xs. f (xs ! min_element_loop (\<lambda>a b. f a < f b) ys i best r) \<le> f x)"
  using assms
proof (induction ys arbitrary: i best r)
  case (Cons y ys)
  have i: "i < length xs" "xs ! i = y" "drop i xs = y # ys"
    using Cons.prems(1,3) by (metis append_Nil2 append_take_drop_id le_neq_implies_less list.distinct(1) same_append_eq take_all_iff nle_le,
      metis append_take_drop_id length_append_singleton length_take min.absorb2 nth_append_length same_append_eq Cons.prems(1,3),
      metis append_take_drop_id same_append_eq)
  have t: "take (Suc i) xs = take i xs @ [y]"
    using i by (simp add: take_Suc_conv_app_nth)
  have xs: "xs = take (Suc i) xs @ ys"
    using Cons.prems(1) t by simp
  show ?case
  proof (cases "f y < f best")
    case True
    then show ?thesis
      using Cons.IH [OF xs, of i y] Cons.prems i t by (auto intro: less_imp_le less_le_trans)
  next
    case False
    then show ?thesis
      using Cons.IH [OF xs, of r best] Cons.prems i t by auto
  qed
qed (metis append_Nil2 less_le_trans min_element_loop.simps(1))

lemma min_element_spec:
  fixes f :: "'a \<Rightarrow> 'b :: linorder"
  assumes "xs \<noteq> []"
  shows "min_element (\<lambda>a b. f a < f b) xs < length xs"
    and "x \<in> set xs \<Longrightarrow> f (xs ! min_element (\<lambda>a b. f a < f b) xs) \<le> f x"
proof -
  obtain y ys where xs: "xs = y # ys"
    using assms by (cases xs) auto
  show "min_element (\<lambda>a b. f a < f b) xs < length xs"
    and "x \<in> set xs \<Longrightarrow> f (xs ! min_element (\<lambda>a b. f a < f b) xs) \<le> f x"
    using min_element_loop_spec [of "y # ys" 1 ys 0 y f] by (auto simp: xs min_element_def)
qed

text \<open>What one store does to the announcements of a target: it replaces the entry of its address, or else
  the oldest entry of a full list, or else it is added.\<close>

lemma put_peer_spec:
  assumes "peers_ok peers"
  shows "peers_ok (put_peer ann peers)" and "ann \<in> set (put_peer ann peers)"
    and "e \<in> set peers \<Longrightarrow> e \<notin> set (put_peer ann peers) \<Longrightarrow>
      from_key e = from_key ann \<or> length peers = MAX_PEERS_PER_TARGET \<and> (\<forall>x \<in> set peers. pa_created_at e \<le> pa_created_at x)"
    and "e \<in> set (put_peer ann peers) \<Longrightarrow> e = ann \<or> e \<in> set peers"
proof -
  have "peers_ok (put_peer ann peers) \<and> ann \<in> set (put_peer ann peers) \<and>
    (\<forall>e \<in> set peers - set (put_peer ann peers). from_key e = from_key ann \<or>
       length peers = MAX_PEERS_PER_TARGET \<and> (\<forall>x \<in> set peers. pa_created_at e \<le> pa_created_at x)) \<and>
    set (put_peer ann peers) \<subseteq> insert ann (set peers)"
  proof (cases "replace_from ann peers")
    case (Some peers')
    then show ?thesis
      using replace_from_spec(2) [OF Some] assms
      by (auto simp: put_peer_def peers_ok_def dest!: arg_cong [of "map from_key _" _ length])
  next
    case None
    then have new: "from_key ann \<notin> from_key ` set peers"
      by (simp add: replace_from_spec(1))
    show ?thesis
    proof (cases "length peers \<ge> MAX_PEERS_PER_TARGET")
      case True
      define i where "i = min_element (\<lambda>a b. pa_created_at a < pa_created_at b) peers"
      have "peers \<noteq> []"
        using True by (auto simp: MAX_PEERS_PER_TARGET_def)
      note i = min_element_spec [OF this, where f = pa_created_at, folded i_def]
      have put: "put_peer ann peers = peers[i := ann]"
        using None True by (simp add: put_peer_def i_def)
      have "e = peers ! i" if "e \<in> set peers" "e \<notin> set (peers[i := ann])" for e
        using that by (metis in_set_conv_nth length_list_update nth_list_update_neq)
      then have "\<forall>e \<in> set peers - set (peers[i := ann]). \<forall>x \<in> set peers. pa_created_at e \<le> pa_created_at x"
        using i(2) by blast
      moreover have "distinct (map from_key (peers[i := ann]))"
        using assms new by (simp add: map_update peers_ok_def distinct_list_update image_image)
      moreover have "length peers = MAX_PEERS_PER_TARGET"
        using assms True by (simp add: peers_ok_def)
      ultimately show ?thesis
        using set_update_subset_insert [of peers i ann] set_update_memI [OF i(1), of ann]
        unfolding put peers_ok_def length_list_update by simp
    next
      case False
      then show ?thesis
        using None new assms by (auto simp: put_peer_def peers_ok_def)
    qed
  qed
  then show "peers_ok (put_peer ann peers)" and "ann \<in> set (put_peer ann peers)"
    and "e \<in> set peers \<Longrightarrow> e \<notin> set (put_peer ann peers) \<Longrightarrow>
      from_key e = from_key ann \<or> length peers = MAX_PEERS_PER_TARGET \<and> (\<forall>x \<in> set peers. pa_created_at e \<le> pa_created_at x)"
    and "e \<in> set (put_peer ann peers) \<Longrightarrow> e = ann \<or> e \<in> set peers"
    by blast+
qed

section \<open>The store as a map from targets to announcements\<close>

lemma get_peers_ok: "store_ok s \<Longrightarrow> peers_ok (AnnounceStore_get s target)"
  by (auto simp: AnnounceStore_get_def store_ok_def peers_ok_def dest!: map_of_SomeD split: option.splits)

lemma get_update: "AnnounceStore_get (AList.update t ps s) u = (if u = t then ps else AnnounceStore_get s u)"
  by (simp add: AnnounceStore_get_def update_conv')

lemma get_delete: "AnnounceStore_get (AList.delete t s) u = (if u = t then [] else AnnounceStore_get s u)"
  by (simp add: AnnounceStore_get_def delete_conv')

lemma update_length: "length (AList.update k v s) = (if k \<in> fst ` set s then length s else Suc (length s))"
  by (induction s) auto

lemma store_ok_update:
  assumes "store_ok s" and "ps \<noteq> []" and "peers_ok ps" and "map_of s t = None \<Longrightarrow> length s < MAX_TOTAL_TARGETS"
  shows "store_ok (AList.update t ps s)"
proof -
  have "set (AList.update t ps s) \<subseteq> insert (t, ps) (set s)"
    by (induction s) auto
  moreover have "length (AList.update t ps s) \<le> MAX_TOTAL_TARGETS"
    using assms(1,4) by (auto simp: update_length store_ok_def map_of_eq_None_iff)
  ultimately show ?thesis
    using assms(1-3) by (auto simp: store_ok_def distinct_update)
qed

lemma store_ok_delete: "store_ok s \<Longrightarrow> store_ok (AList.delete t s)"
proof -
  assume s: "store_ok s"
  have "set (AList.delete t s) \<subseteq> set s"
    by (auto simp: AList.delete_eq)
  then show "store_ok (AList.delete t s)"
    using s length_delete_le [of t s] by (auto simp: store_ok_def distinct_delete)
qed

lemma put_cases:
  assumes "store_ok s"
  shows "store_ok (AnnounceStore_put s target ann)"
    and "AnnounceStore_get (AnnounceStore_put s target ann) u =
      (if u = target \<and> \<not> (target_count s \<ge> MAX_TOTAL_TARGETS \<and> AnnounceStore_get s target = [])
       then put_peer ann (AnnounceStore_get s target) else AnnounceStore_get s u)"
proof -
  have none: "map_of s target = None \<longleftrightarrow> AnnounceStore_get s target = []"
    using assms by (auto simp: AnnounceStore_get_def store_ok_def dest!: map_of_SomeD split: option.splits)
  have "put_peer ann (AnnounceStore_get s target) \<noteq> []"
    using put_peer_spec(2) [OF get_peers_ok [OF assms, of target], of ann] by auto
  then show "store_ok (AnnounceStore_put s target ann)"
    using assms store_ok_update [OF assms _ put_peer_spec(1) [OF get_peers_ok [OF assms]], of ann target target]
    by (auto simp: AnnounceStore_put_def)
  show "AnnounceStore_get (AnnounceStore_put s target ann) u =
      (if u = target \<and> \<not> (target_count s \<ge> MAX_TOTAL_TARGETS \<and> AnnounceStore_get s target = [])
       then put_peer ann (AnnounceStore_get s target) else AnnounceStore_get s u)"
    by (auto simp: AnnounceStore_put_def get_update none target_count_def)
qed

lemma remove_cases_ann:
  assumes "store_ok s"
  shows "store_ok (snd (AnnounceStore_remove s target from))"
    and "fst (AnnounceStore_remove s target from) \<longleftrightarrow> (\<exists>a \<in> set (AnnounceStore_get s target). same_from from a)"
    and "AnnounceStore_get (snd (AnnounceStore_remove s target from)) u =
      (if u = target then filter (\<lambda>a. \<not> same_from from a) (AnnounceStore_get s u) else AnnounceStore_get s u)"
proof -
  have "store_ok (snd (AnnounceStore_remove s target from)) \<and>
    (fst (AnnounceStore_remove s target from) \<longleftrightarrow> (\<exists>a \<in> set (AnnounceStore_get s target). same_from from a)) \<and>
    AnnounceStore_get (snd (AnnounceStore_remove s target from)) u =
      (if u = target then filter (\<lambda>a. \<not> same_from from a) (AnnounceStore_get s u) else AnnounceStore_get s u)"
  proof (cases "map_of s target")
    case None
    then show ?thesis
      using assms by (simp add: AnnounceStore_remove_def AnnounceStore_get_def)
  next
    case (Some peers)
    let ?kept = "filter (\<lambda>a. \<not> same_from from a) peers"
    have g: "AnnounceStore_get s target = peers"
      using Some by (simp add: AnnounceStore_get_def)
    have same: "length ?kept = length peers \<longleftrightarrow> ?kept = peers"
      by (metis filter_id_conv length_filter_less less_irrefl)
    have ok: "peers_ok ?kept"
      using get_peers_ok [OF assms, of target] g order_trans [OF length_filter_le]
      by (auto simp: peers_ok_def distinct_map_filter)
    show ?thesis
    proof (cases "?kept = peers")
      case True
      then show ?thesis
        using assms Some g by (auto simp: AnnounceStore_remove_def Let_def filter_id_conv)
    next
      case False
      then have "\<exists>a \<in> set peers. same_from from a"
        by (metis (mono_tags, lifting) filter_True)
      then show ?thesis
        using False same Some g ok assms store_ok_delete [OF assms] store_ok_update [OF assms _ ok, of target]
        by (auto simp: AnnounceStore_remove_def Let_def get_delete get_update)
    qed
  qed
  then show "store_ok (snd (AnnounceStore_remove s target from))"
    and "fst (AnnounceStore_remove s target from) \<longleftrightarrow> (\<exists>a \<in> set (AnnounceStore_get s target). same_from from a)"
    and "AnnounceStore_get (snd (AnnounceStore_remove s target from)) u =
      (if u = target then filter (\<lambda>a. \<not> same_from from a) (AnnounceStore_get s u) else AnnounceStore_get s u)"
    by blast+
qed

lemma gc_keys: "fst ` set (AnnounceStore_gc now s) \<subseteq> fst ` set s"
proof (induction s)
  case (Cons p s)
  then show ?case
    by (cases p) (auto simp: Let_def)
qed simp

lemma gc_cases:
  assumes "store_ok s"
  shows "store_ok (AnnounceStore_gc now s)"
    and "AnnounceStore_get (AnnounceStore_gc now s) u = filter (\<lambda>a. \<not> ann_expired now a) (AnnounceStore_get s u)"
proof -
  have kept: "peers_ok (filter P ps)" if "peers_ok ps" for P ps
    using that order_trans [OF length_filter_le] by (auto simp: peers_ok_def distinct_map_filter)
  have "store_ok (AnnounceStore_gc now s) \<and> length (AnnounceStore_gc now s) \<le> length s \<and>
      AnnounceStore_get (AnnounceStore_gc now s) u = filter (\<lambda>a. \<not> ann_expired now a) (AnnounceStore_get s u)"
    using assms
  proof (induction s)
    case (Cons p s)
    obtain t ps where p: "p = (t, ps)"
      by (cases p)
    have s: "store_ok s" "t \<notin> fst ` set s" "peers_ok ps" "length s < MAX_TOTAL_TARGETS"
      using Cons.prems by (auto simp: store_ok_def p)
    let ?kept = "filter (\<lambda>a. \<not> ann_expired now a) ps"
    have t: "t \<notin> fst ` set (AnnounceStore_gc now s)"
      using s(2) gc_keys [of now s] by blast
    have get: "AnnounceStore_get ((t, qs) # r) v = (if v = t then qs else AnnounceStore_get r v)" for qs r v
      by (simp add: AnnounceStore_get_def)
    have none: "AnnounceStore_get s t = []"
      using s(2) map_of_eq_None_iff [of s t] by (simp add: AnnounceStore_get_def)
    have "AnnounceStore_get (AnnounceStore_gc now (p # s)) u = filter (\<lambda>a. \<not> ann_expired now a) (AnnounceStore_get (p # s) u)"
      using Cons.IH [OF s(1)] none by (auto simp: p get Let_def)
    moreover have "store_ok (AnnounceStore_gc now (p # s))"
      using Cons.IH [OF s(1)] t s(4) kept [OF s(3)] by (auto simp: p store_ok_def Let_def)
    ultimately show ?case
      using Cons.IH [OF s(1)] by (auto simp: p Let_def)
  qed (simp add: AnnounceStore_get_def)
  then show "store_ok (AnnounceStore_gc now s)"
    and "AnnounceStore_get (AnnounceStore_gc now s) u = filter (\<lambda>a. \<not> ann_expired now a) (AnnounceStore_get s u)"
    by blast+
qed

section \<open>Properties\<close>

text \<open>Announcing keeps the store bounded (at most 65536 targets, 20 announcements each, one per address)
  and, unless the target is new and the store is full, makes the announcement visible.  It changes no
  other target, and the only announcement it can displace is the one of the same address or, from a full
  list, an oldest one.\<close>

lemma announce_put_visible:
  assumes "store_ok s"
    and "target_count s < MAX_TOTAL_TARGETS \<or> AnnounceStore_get s target \<noteq> []"
  shows "store_ok (AnnounceStore_put s target ann) \<and>
    ann \<in> set (AnnounceStore_get (AnnounceStore_put s target ann) target) \<and>
    (\<forall>u. u \<noteq> target \<longrightarrow> AnnounceStore_get (AnnounceStore_put s target ann) u = AnnounceStore_get s u) \<and>
    set (AnnounceStore_get (AnnounceStore_put s target ann) target) \<subseteq> insert ann (set (AnnounceStore_get s target)) \<and>
    (\<forall>e \<in> set (AnnounceStore_get s target) - set (AnnounceStore_get (AnnounceStore_put s target ann) target).
       from_key e = from_key ann \<or>
       length (AnnounceStore_get s target) = MAX_PEERS_PER_TARGET \<and>
       (\<forall>x \<in> set (AnnounceStore_get s target). pa_created_at e \<le> pa_created_at x))"
proof -
  have "AnnounceStore_get (AnnounceStore_put s target ann) target = put_peer ann (AnnounceStore_get s target)"
    using put_cases(2) [OF assms(1), of target ann target] assms(2) by (auto simp: not_le)
  then show ?thesis
    using put_cases [OF assms(1), of target ann] put_peer_spec [OF get_peers_ok [OF assms(1), of target], where ann = ann]
    by auto
qed

definition an_announcement :: "u8 \<Rightarrow> u64 \<Rightarrow> PeerAnnouncement" where
  "an_announcement b now = \<lparr>pa_from = \<lparr>ip_host = [10, 0, 0, b], ip_port = 4000\<rparr>, pa_value = [b], pa_created_at = now,
     pa_ttl = DEFAULT_TTL_MS\<rparr>"

text \<open>Unannouncing removes exactly the announcements of its address from its target and reports whether
  there was one; an expiry sweep removes exactly the announcements whose lifetime is over.  Both keep the
  store well-formed: no target is left with an empty list.\<close>

lemma announce_remove_gc:
  assumes "store_ok s"
  shows "store_ok (snd (AnnounceStore_remove s target from)) \<and> store_ok (AnnounceStore_gc now s) \<and>
    (fst (AnnounceStore_remove s target from) \<longleftrightarrow> (\<exists>a \<in> set (AnnounceStore_get s target). same_from from a)) \<and>
    AnnounceStore_get (snd (AnnounceStore_remove s target from)) u =
      (if u = target then filter (\<lambda>a. \<not> same_from from a) (AnnounceStore_get s u) else AnnounceStore_get s u) \<and>
    AnnounceStore_get (AnnounceStore_gc now s) u = filter (\<lambda>a. \<not> ann_expired now a) (AnnounceStore_get s u)"
  using remove_cases_ann [OF assms] gc_cases [OF assms] by blast

end
