(* ===== verification/Nat_Sampler.thy ===== *)
theory Nat_Sampler
  imports Address "HOL-Library.Multiset"
begin

text \<open>
  The NAT sampler (\<^verbatim>\<open>include/hyperdht/nat_sampler.hpp\<close>, \<^verbatim>\<open>src/nat_sampler.cpp\<close>): it counts the addresses
  that remote nodes report for this node and classifies the firewall as consistent or random.  The
  \<^verbatim>\<open>on_change\<close> callback is modelled by the log of its calls.
\<close>

section \<open>Samples\<close>

definition FW_UNKNOWN :: u32 where "FW_UNKNOWN = 0"
definition FW_CONSISTENT :: u32 where "FW_CONSISTENT = 2"
definition FW_RANDOM :: u32 where "FW_RANDOM = 3"

record Sample =
  sm_host :: string
  sm_port :: u16
  sm_hits :: int

definition swap :: "'a list \<Rightarrow> nat \<Rightarrow> nat \<Rightarrow> 'a list" where
  "swap xs i j = xs[i := xs ! j, j := xs ! i]"

text \<open>The bubble-up loop.  In the source \<^verbatim>\<open>s\<close> is a reference to the slot \<open>slot\<close> where the match was found;
  the loop swaps values between slots, so after the first swap \<^verbatim>\<open>s\<close> names the element that moved down.\<close>

fun bubble_up :: "Sample list \<Rightarrow> nat \<Rightarrow> nat \<Rightarrow> Sample list" where
  "bubble_up samples slot 0 = samples"
| "bubble_up samples slot (Suc i) =
     (if sm_hits (samples ! i) \<ge> sm_hits (samples ! slot) then samples
      else bubble_up (swap samples i (Suc i)) slot i)"

fun find_sample :: "Sample list \<Rightarrow> string \<Rightarrow> u16 \<Rightarrow> nat option" where
  "find_sample [] host port = None"
| "find_sample (s # ss) host port =
     (if sm_host s \<noteq> host \<or> sm_port s \<noteq> port then map_option Suc (find_sample ss host port) else Some 0)"

definition add_sample :: "Sample list \<Rightarrow> string \<Rightarrow> u16 \<Rightarrow> Sample list" where
  "add_sample samples host port =
     (case find_sample samples host port of
        Some i \<Rightarrow>
          let samples1 = samples[i := (samples ! i)\<lparr>sm_hits := sm_hits (samples ! i) + 1\<rparr>]
          in bubble_up samples1 i i
      | None \<Rightarrow> samples @ [\<lparr>sm_host = host, sm_port = port, sm_hits = 1\<rparr>])"

section \<open>The sampler\<close>

record NatSampler =
  ns_firewall :: u32
  ns_sampled :: int
  ns_frozen :: bool
  ns_host :: string
  ns_port :: u16
  ns_samples_host :: "Sample list"
  ns_samples_full :: "Sample list"
  ns_visited :: "string list"
  ns_addresses :: "Ipv4Address list"
  ns_on_change :: bool
  ns_changes :: "(u32 \<times> u32) list"

definition NatSampler_new :: NatSampler where
  "NatSampler_new = \<lparr>ns_firewall = FW_UNKNOWN, ns_sampled = 0, ns_frozen = False, ns_host = [], ns_port = 0,
     ns_samples_host = [], ns_samples_full = [], ns_visited = [], ns_addresses = [], ns_on_change = False,
     ns_changes = []\<rparr>"

definition NatSampler_reset :: "NatSampler \<Rightarrow> NatSampler" where
  "NatSampler_reset s = s\<lparr>ns_firewall := FW_UNKNOWN, ns_sampled := 0, ns_frozen := False, ns_host := [],
     ns_port := 0, ns_samples_host := [], ns_samples_full := [], ns_visited := [], ns_addresses := []\<rparr>"

definition classify :: "u32 \<Rightarrow> int \<Rightarrow> Sample list \<Rightarrow> Sample list \<Rightarrow> u32" where
  "classify firewall sampled samples_host samples_full =
     (let max_hits = sm_hits (samples_full ! 0) in
      if max_hits \<ge> 3 then FW_CONSISTENT
      else if max_hits = 1 then FW_RANDOM
      else if length samples_host = 1 \<and> sampled > 3 then FW_RANDOM
      else if length samples_host > 1 \<and> length samples_full > 1 \<and> sm_hits (samples_full ! 1) > 1 then FW_CONSISTENT
      else if sampled > 4 then FW_RANDOM
      else firewall)"

definition update_firewall :: "NatSampler \<Rightarrow> NatSampler" where
  "update_firewall s =
     (if ns_sampled s < 3 then s
      else if ns_samples_full s = [] then s
      else
        let old_fw = ns_firewall s;
            fw = classify old_fw (ns_sampled s) (ns_samples_host s) (ns_samples_full s);
            s = s\<lparr>ns_firewall := fw\<rparr>
        in if fw \<noteq> old_fw \<and> ns_on_change s then s\<lparr>ns_changes := ns_changes s @ [(old_fw, fw)]\<rparr> else s)"

definition MAX_ADDRESSES :: nat where "MAX_ADDRESSES = 4"

fun collect_addresses :: "Sample list \<Rightarrow> Ipv4Address list \<Rightarrow> Ipv4Address list" where
  "collect_addresses [] addrs = addrs"
| "collect_addresses (s # ss) addrs =
     (if length addrs \<ge> MAX_ADDRESSES then addrs
      else if sm_hits s \<ge> 2 \<or> length addrs < 2
      then collect_addresses ss (addrs @ [Ipv4_from_string (sm_host s) (sm_port s)])
      else collect_addresses ss addrs)"

definition update_addresses :: "NatSampler \<Rightarrow> NatSampler" where
  "update_addresses s =
     (let s = s\<lparr>ns_addresses := []\<rparr> in
      if ns_firewall s = FW_UNKNOWN then s
      else if ns_firewall s = FW_RANDOM \<and> ns_samples_host s \<noteq> []
      then s\<lparr>ns_addresses := [Ipv4_from_string (sm_host (ns_samples_host s ! 0)) 0]\<rparr>
      else if ns_firewall s = FW_CONSISTENT
      then s\<lparr>ns_addresses := collect_addresses (ns_samples_full s) []\<rparr>
      else s)"

definition NatSampler_freeze :: "NatSampler \<Rightarrow> NatSampler" where
  "NatSampler_freeze s = s\<lparr>ns_frozen := True\<rparr>"

definition NatSampler_unfreeze :: "NatSampler \<Rightarrow> NatSampler" where
  "NatSampler_unfreeze s = update_addresses (update_firewall (s\<lparr>ns_frozen := False\<rparr>))"

definition MAX_VISITED :: nat where "MAX_VISITED = 1024"

definition NatSampler_add :: "NatSampler \<Rightarrow> Ipv4Address \<Rightarrow> Ipv4Address \<Rightarrow> bool \<times> NatSampler" where
  "NatSampler_add s addr from =
     (let ref = addr_key from in
      if ref \<in> set (ns_visited s) then (False, s)
      else if length (ns_visited s) \<ge> MAX_VISITED then (False, s)
      else
        let s = s\<lparr>ns_visited := ref # ns_visited s,
                  ns_samples_host := add_sample (ns_samples_host s) (Ipv4_host_string addr) 0,
                  ns_samples_full := add_sample (ns_samples_full s) (Ipv4_host_string addr) (ip_port addr),
                  ns_sampled := ns_sampled s + 1\<rparr>;
            s = (if ns_sampled s \<ge> 3 \<and> \<not> ns_frozen s then update_addresses (update_firewall s) else s);
            s = (if ns_samples_full s \<noteq> []
                 then s\<lparr>ns_host := sm_host (ns_samples_full s ! 0), ns_port := sm_port (ns_samples_full s ! 0)\<rparr>
                 else s)
        in (True, s))"

section \<open>Runs\<close>

datatype nat_event =
    Add Ipv4Address Ipv4Address
  | Freeze
  | Unfreeze
  | Reset
  | OnChange

fun nat_apply :: "nat_event \<Rightarrow> NatSampler \<Rightarrow> NatSampler" where
  "nat_apply (Add addr from) s = snd (NatSampler_add s addr from)"
| "nat_apply Freeze s = NatSampler_freeze s"
| "nat_apply Unfreeze s = NatSampler_unfreeze s"
| "nat_apply Reset s = NatSampler_reset s"
| "nat_apply OnChange s = s\<lparr>ns_on_change := True\<rparr>"

text \<open>\<open>nat_reach s reports\<close>: the sampler can be in state \<open>s\<close> having accepted, since the last reset, the
  reported addresses \<open>reports\<close>, each with the node that reported it.\<close>

inductive nat_reach :: "NatSampler \<Rightarrow> (Ipv4Address \<times> Ipv4Address) list \<Rightarrow> bool" where
  start: "nat_reach NatSampler_new []"
| accept: "nat_reach s rs \<Longrightarrow> fst (NatSampler_add s addr from) \<Longrightarrow>
    nat_reach (snd (NatSampler_add s addr from)) ((addr, from) # rs)"
| refuse: "nat_reach s rs \<Longrightarrow> \<not> fst (NatSampler_add s addr from) \<Longrightarrow>
    nat_reach (snd (NatSampler_add s addr from)) rs"
| freeze: "nat_reach s rs \<Longrightarrow> nat_reach (nat_apply Freeze s) rs"
| unfreeze: "nat_reach s rs \<Longrightarrow> nat_reach (nat_apply Unfreeze s) rs"
| reset: "nat_reach s rs \<Longrightarrow> nat_reach (nat_apply Reset s) []"
| on_change: "nat_reach s rs \<Longrightarrow> nat_reach (nat_apply OnChange s) rs"

inductive_cases nat_reachE: "nat_reach s rs"

section \<open>Counting\<close>

definition sample_key :: "Sample \<Rightarrow> string \<times> u16" where
  "sample_key s = (sm_host s, sm_port s)"

text \<open>\<open>samples_ok ss ks\<close>: the samples count the occurrences of each key of \<open>ks\<close>.\<close>

definition samples_ok :: "Sample list \<Rightarrow> (string \<times> u16) list \<Rightarrow> bool" where
  "samples_ok ss ks \<longleftrightarrow> distinct (map sample_key ss) \<and> sample_key ` set ss = set ks \<and>
     (\<forall>s \<in> set ss. sm_hits s = int (count_list ks (sample_key s)))"

lemma bubble_up_perm: "i \<le> slot \<Longrightarrow> slot < length ss \<Longrightarrow> mset (bubble_up ss slot i) = mset ss"
proof (induction ss slot i rule: bubble_up.induct)
  case (2 ss slot i)
  then have "mset (swap ss i (Suc i)) = mset ss"
    unfolding swap_def by (intro mset_swap) auto
  then show ?case
    using 2 by (simp add: swap_def)
qed simp

lemma samples_ok_perm:
  assumes "mset ss = mset ss'"
  shows "samples_ok ss ks \<longleftrightarrow> samples_ok ss' ks"
proof -
  have "mset (map sample_key ss) = mset (map sample_key ss')"
    using assms by simp
  then show ?thesis
    using mset_eq_setD [OF assms] mset_eq_imp_distinct_iff [of "map sample_key ss" "map sample_key ss'"]
    by (simp add: samples_ok_def)
qed

lemma find_sample_spec:
  "find_sample ss h p = None \<longleftrightarrow> (h, p) \<notin> sample_key ` set ss"
  "find_sample ss h p = Some i \<Longrightarrow> i < length ss \<and> sample_key (ss ! i) = (h, p)"
  by (induction ss arbitrary: i) (auto simp: sample_key_def image_iff split: if_splits)

lemma add_sample_ok:
  assumes ok: "samples_ok ss ks"
  shows "samples_ok (add_sample ss h p) ((h, p) # ks)"
proof (cases "find_sample ss h p")
  case None
  then have "(h, p) \<notin> set ks" "(h, p) \<notin> sample_key ` set ss"
    using ok find_sample_spec(1) [of ss h p] by (auto simp: samples_ok_def)
  then show ?thesis
    using ok None count_notin [of "(h, p)" ks]
    by (auto simp: add_sample_def samples_ok_def sample_key_def image_iff)
next
  case (Some i)
  then have i: "i < length ss" "sample_key (ss ! i) = (h, p)"
    using find_sample_spec(2) by auto
  let ?x = "(ss ! i)\<lparr>sm_hits := sm_hits (ss ! i) + 1\<rparr>"
  have key: "sample_key ?x = (h, p)"
    using i(2) by (simp add: sample_key_def)
  have keys: "map sample_key (ss[i := ?x]) = map sample_key ss"
    using i key by (simp add: map_update list_update_same_conv)
  have "sm_hits s = int (count_list ((h, p) # ks) (sample_key s))" if s: "s \<in> set (ss[i := ?x])" for s
  proof -
    obtain j where j: "j < length ss" "s = ss[i := ?x] ! j"
      using s unfolding in_set_conv_nth length_list_update by blast
    have "sample_key (ss ! j) \<noteq> (h, p)" if "j \<noteq> i"
      using ok i j(1) that nth_eq_iff_index_eq [of "map sample_key ss" i j] by (auto simp: samples_ok_def)
    then show ?thesis
      using ok i j key by (cases "j = i") (auto simp: samples_ok_def)
  qed
  moreover have "(h, p) \<in> set ks"
    using ok i by (metis image_eqI nth_mem samples_ok_def)
  moreover have "sample_key ` set (ss[i := ?x]) = sample_key ` set ss"
    using arg_cong [OF keys, of set] by (simp only: set_map)
  ultimately have "samples_ok (ss[i := ?x]) ((h, p) # ks)"
    using ok unfolding samples_ok_def keys by (auto simp: insert_absorb)
  then show ?thesis
    using Some i(1) samples_ok_perm [OF bubble_up_perm [of i i "ss[i := ?x]"], of "(h, p) # ks"]
    by (simp add: add_sample_def Let_def)
qed

lemma samples_ok_nonempty: "samples_ok ss (k # ks) \<Longrightarrow> ss \<noteq> []"
  by (auto simp: samples_ok_def)

section \<open>The invariant of every run\<close>

definition full_keys :: "(Ipv4Address \<times> Ipv4Address) list \<Rightarrow> (string \<times> u16) list" where
  "full_keys rs = map (\<lambda>(a, _). (Ipv4_host_string a, ip_port a)) rs"

definition host_keys :: "(Ipv4Address \<times> Ipv4Address) list \<Rightarrow> (string \<times> u16) list" where
  "host_keys rs = map (\<lambda>(a, _). (Ipv4_host_string a, 0)) rs"

text \<open>Some address was reported by two nodes.\<close>

definition repeated :: "(Ipv4Address \<times> Ipv4Address) list \<Rightarrow> bool" where
  "repeated rs \<longleftrightarrow> (\<exists>k. 2 \<le> count_list (full_keys rs) k)"

lemma repeated_Cons: "repeated rs \<Longrightarrow> repeated (r # rs)"
proof -
  assume "repeated rs"
  then obtain k where "2 \<le> count_list (full_keys rs) k"
    by (auto simp: repeated_def)
  then have "2 \<le> count_list (full_keys (r # rs)) k"
    by (simp add: full_keys_def)
  then show "repeated (r # rs)"
    unfolding repeated_def by blast
qed

definition counted :: "NatSampler \<Rightarrow> (Ipv4Address \<times> Ipv4Address) list \<Rightarrow> bool" where
  "counted s rs \<longleftrightarrow> samples_ok (ns_samples_full s) (full_keys rs) \<and> samples_ok (ns_samples_host s) (host_keys rs) \<and>
     ns_sampled s = int (length rs) \<and> ns_visited s = map (\<lambda>(_, f). addr_key f) rs \<and>
     distinct (map (\<lambda>(_, f). addr_key f) rs) \<and> length rs \<le> MAX_VISITED"

definition classified :: "NatSampler \<Rightarrow> (Ipv4Address \<times> Ipv4Address) list \<Rightarrow> bool" where
  "classified s rs \<longleftrightarrow> ns_firewall s \<in> {FW_UNKNOWN, FW_CONSISTENT, FW_RANDOM} \<and>
     (length rs < 3 \<longrightarrow> ns_firewall s = FW_UNKNOWN) \<and>
     (ns_firewall s = FW_CONSISTENT \<longrightarrow> repeated rs) \<and>
     length (ns_addresses s) \<le> MAX_ADDRESSES \<and> (ns_firewall s = FW_UNKNOWN \<longrightarrow> ns_addresses s = [])"

lemma classified_cong:
  "ns_firewall s = ns_firewall t \<Longrightarrow> ns_addresses s = ns_addresses t \<Longrightarrow> classified t rs \<Longrightarrow> classified s rs"
  by (simp add: classified_def)

lemma update_firewall_keeps [simp]:
  "ns_sampled (update_firewall s) = ns_sampled s" "ns_visited (update_firewall s) = ns_visited s"
  "ns_samples_full (update_firewall s) = ns_samples_full s" "ns_samples_host (update_firewall s) = ns_samples_host s"
  by (simp_all add: update_firewall_def Let_def)

lemma update_addresses_keeps [simp]:
  "ns_sampled (update_addresses s) = ns_sampled s" "ns_visited (update_addresses s) = ns_visited s"
  "ns_samples_full (update_addresses s) = ns_samples_full s" "ns_samples_host (update_addresses s) = ns_samples_host s"
  "ns_firewall (update_addresses s) = ns_firewall s"
  by (simp_all add: update_addresses_def Let_def)

lemma FW_distinct: "FW_UNKNOWN \<noteq> FW_CONSISTENT" "FW_UNKNOWN \<noteq> FW_RANDOM" "FW_CONSISTENT \<noteq> FW_RANDOM"
  "FW_CONSISTENT \<noteq> FW_UNKNOWN" "FW_RANDOM \<noteq> FW_UNKNOWN" "FW_RANDOM \<noteq> FW_CONSISTENT"
  by (simp_all add: FW_UNKNOWN_def FW_CONSISTENT_def FW_RANDOM_def)

lemma classify_sound:
  assumes "samples_ok full ks" "full \<noteq> []"
  shows "classify fw n hosts full = FW_CONSISTENT \<Longrightarrow> fw \<noteq> FW_CONSISTENT \<Longrightarrow> \<exists>k. 2 \<le> count_list ks k"
    and "classify fw n hosts full \<in> {fw, FW_CONSISTENT, FW_RANDOM}"
proof -
  have count: "\<exists>k. 2 \<le> count_list ks k" if "i < length full" "2 \<le> sm_hits (full ! i)" for i
    using assms(1) that by (intro exI [of _ "sample_key (full ! i)"]) (auto simp: samples_ok_def)
  show "\<exists>k. 2 \<le> count_list ks k" if "classify fw n hosts full = FW_CONSISTENT" "fw \<noteq> FW_CONSISTENT"
  proof -
    have "0 < length full \<and> 2 \<le> sm_hits (full ! 0) \<or> 1 < length full \<and> 2 \<le> sm_hits (full ! 1)"
      using that assms(2) unfolding classify_def Let_def by (auto simp: FW_distinct split: if_splits)
    then show ?thesis
      using count by blast
  qed
  show "classify fw n hosts full \<in> {fw, FW_CONSISTENT, FW_RANDOM}"
    by (simp add: classify_def Let_def)
qed

lemma collect_addresses_length: "length as \<le> MAX_ADDRESSES \<Longrightarrow> length (collect_addresses ss as) \<le> MAX_ADDRESSES"
  by (induction ss as rule: collect_addresses.induct) (auto simp: MAX_ADDRESSES_def)

lemma update_firewall_sound:
  assumes "counted s rs" "classified s rs"
  shows "ns_firewall (update_firewall s) \<in> {FW_UNKNOWN, FW_CONSISTENT, FW_RANDOM}"
    and "length rs < 3 \<Longrightarrow> ns_firewall (update_firewall s) = FW_UNKNOWN"
    and "ns_firewall (update_firewall s) = FW_CONSISTENT \<Longrightarrow> repeated rs"
proof -
  have fw: "ns_firewall (update_firewall s) = (if ns_sampled s < 3 \<or> ns_samples_full s = [] then ns_firewall s
      else classify (ns_firewall s) (ns_sampled s) (ns_samples_host s) (ns_samples_full s))"
    by (simp add: update_firewall_def Let_def)
  have ok: "samples_ok (ns_samples_full s) (full_keys rs)"
    using assms(1) by (simp add: counted_def)
  note c = classify_sound [OF ok, of "ns_firewall s" "ns_sampled s" "ns_samples_host s"]
  have old: "ns_firewall s = FW_UNKNOWN \<or> ns_firewall s = FW_CONSISTENT \<or> ns_firewall s = FW_RANDOM"
    "ns_firewall s = FW_CONSISTENT \<Longrightarrow> repeated rs"
    using assms(2) unfolding classified_def by blast+
  show "ns_firewall (update_firewall s) \<in> {FW_UNKNOWN, FW_CONSISTENT, FW_RANDOM}"
    using c(2) old(1) unfolding fw by (simp split: if_split) metis
  show "length rs < 3 \<Longrightarrow> ns_firewall (update_firewall s) = FW_UNKNOWN"
    using assms unfolding fw by (simp add: counted_def classified_def)
  show "repeated rs" if "ns_firewall (update_firewall s) = FW_CONSISTENT"
  proof (cases "ns_firewall s = FW_CONSISTENT")
    case False
    then show ?thesis
      using that c(1) unfolding fw repeated_def by (metis (full_types))
  qed (rule old(2))
qed

lemma update_classified:
  assumes "counted s rs" "classified s rs"
  shows "classified (update_addresses (update_firewall s)) rs"
  using update_firewall_sound [OF assms] collect_addresses_length [of "[]"]
  by (auto simp: classified_def update_addresses_def Let_def MAX_ADDRESSES_def)

lemma counted_add:
  assumes "counted s rs" and "fst (NatSampler_add s addr from)"
  shows "counted (snd (NatSampler_add s addr from)) ((addr, from) # rs)"
  using assms add_sample_ok [of "ns_samples_full s" "full_keys rs" "Ipv4_host_string addr" "ip_port addr"]
    add_sample_ok [of "ns_samples_host s" "host_keys rs" "Ipv4_host_string addr" 0]
  by (auto simp: NatSampler_add_def counted_def Let_def full_keys_def host_keys_def not_le split: if_splits)

lemma classified_add:
  assumes "counted s rs" and "classified s rs" and "fst (NatSampler_add s addr from)"
  shows "classified (snd (NatSampler_add s addr from)) ((addr, from) # rs)"
proof -
  let ?rs = "(addr, from) # rs"
  let ?s = "s\<lparr>ns_visited := addr_key from # ns_visited s,
     ns_samples_host := add_sample (ns_samples_host s) (Ipv4_host_string addr) 0,
     ns_samples_full := add_sample (ns_samples_full s) (Ipv4_host_string addr) (ip_port addr),
     ns_sampled := ns_sampled s + 1\<rparr>"
  let ?t = "if ns_sampled ?s \<ge> 3 \<and> \<not> ns_frozen ?s then update_addresses (update_firewall ?s) else ?s"
  have "counted ?s ?rs"
    using counted_add [OF assms(1,3)] assms(3)
    by (auto simp: NatSampler_add_def Let_def counted_def split: if_splits)
  moreover have "classified ?s ?rs"
    using assms(2) by (auto simp: classified_def repeated_Cons)
  ultimately have "classified ?t ?rs"
    using update_classified by simp
  moreover have "ns_firewall (snd (NatSampler_add s addr from)) = ns_firewall ?t"
    "ns_addresses (snd (NatSampler_add s addr from)) = ns_addresses ?t"
    using assms(3) by (auto simp: NatSampler_add_def Let_def split: if_splits)
  ultimately show ?thesis
    using classified_cong by blast
qed

lemma nat_invariant: "nat_reach s rs \<Longrightarrow> counted s rs \<and> classified s rs"
proof (induction rule: nat_reach.induct)
  case (accept s rs addr f)
  then show ?case
    using counted_add classified_add by blast
next
  case (refuse s rs addr f)
  then have "snd (NatSampler_add s addr f) = s"
    by (auto simp: NatSampler_add_def Let_def split: if_splits)
  with refuse show ?case
    by simp
next
  case (unfreeze s rs)
  have c: "counted (s\<lparr>ns_frozen := False\<rparr>) rs" "classified (s\<lparr>ns_frozen := False\<rparr>) rs"
    using unfreeze.IH unfolding counted_def classified_def by simp_all
  then show ?case
    using update_classified [OF c] by (simp add: NatSampler_unfreeze_def counted_def)
qed (auto simp: NatSampler_new_def NatSampler_freeze_def NatSampler_reset_def counted_def classified_def samples_ok_def
    full_keys_def host_keys_def FW_UNKNOWN_def FW_CONSISTENT_def)

section \<open>Properties\<close>

text \<open>In every run of the sampler, each stored sample carries the exact number of accepted reports of its
  address, no two accepted reports come from the same node, at most 1024 are accepted, so the counters
  stay far from overflow, and at most four addresses are published, none while the firewall is unknown.\<close>

lemma nat_counts_exact:
  assumes "nat_reach s rs"
  shows "(\<forall>sm \<in> set (ns_samples_full s). sm_hits sm = int (count_list (full_keys rs) (sample_key sm))) \<and>
    sample_key ` set (ns_samples_full s) = set (full_keys rs) \<and> distinct (map sample_key (ns_samples_full s)) \<and>
    ns_sampled s = int (length rs) \<and> length rs \<le> 1024 \<and> distinct (map (\<lambda>(_, f). addr_key f) rs) \<and>
    length (ns_addresses s) \<le> 4 \<and> (ns_firewall s = FW_UNKNOWN \<longrightarrow> ns_addresses s = [])"
  using nat_invariant [OF assms]
  by (simp add: counted_def classified_def samples_ok_def MAX_VISITED_def MAX_ADDRESSES_def)

definition ip :: "u8 \<Rightarrow> u16 \<Rightarrow> Ipv4Address" where
  "ip b port = \<lparr>ip_host = [10, 0, 0, b], ip_port = port\<rparr>"

definition sample_run :: "(Ipv4Address \<times> Ipv4Address) list \<Rightarrow> NatSampler" where
  "sample_run rs = foldl (\<lambda>s (addr, from). snd (NatSampler_add s addr from)) NatSampler_new rs"

text \<open>A firewall is classified only after three reports, and as consistent only if two different nodes have
  reported the same address.\<close>

lemma nat_consistent_sound:
  assumes "nat_reach s rs" and "ns_firewall s = FW_CONSISTENT"
  shows "3 \<le> length rs \<and> (\<exists>k. 2 \<le> count_list (full_keys rs) k) \<and> distinct (map (\<lambda>(_, f). addr_key f) rs)"
proof -
  have "\<not> length rs < 3" "repeated rs"
    using nat_invariant [OF assms(1)] assms(2) FW_distinct(4) by (auto simp: classified_def)
  then show ?thesis
    using nat_invariant [OF assms(1)] unfolding repeated_def counted_def by simp
qed

definition same_reports :: "(Ipv4Address \<times> Ipv4Address) list" where
  "same_reports = [(ip 1 1, ip 9 1), (ip 1 1, ip 9 2), (ip 1 1, ip 9 3)]"

text \<open>The list of samples is not kept in descending order of hits: the reference the source compares with
  names the wrong element after the first swap, so a sample climbs one place per report.  Three nodes
  report the same address after three others reported different ones; the list still starts with an
  address of one hit, and the firewall is classified as random although one address has three hits.\<close>

lemma nat_bubble_up_stops_early:
  "let s = sample_run [(ip 1 1, ip 9 1), (ip 1 2, ip 9 2), (ip 1 3, ip 9 3), (ip 1 4, ip 9 4), (ip 1 4, ip 9 5), (ip 1 4, ip 9 6)]
   in map sm_hits (ns_samples_full s) = [1, 3, 1, 1] \<and> ns_firewall s = FW_RANDOM"
  by code_simp

end
