(* ===== verification/Health.thy ===== *)
theory Health
  imports Prelude
begin

text \<open>
  The health monitor (\<^verbatim>\<open>include/hyperdht/health.hpp\<close>, \<^verbatim>\<open>src/health.cpp\<close>): a ring of the last four ticks with
  running counts of degraded and healthy ticks.  The comparison of the timeout rate with 0.5, a division
  of two 32-bit counts in double precision, is exact and modelled as \<open>2 * timeouts > activity\<close>; the sums
  of counts wrap at 32 bits as in the source.
\<close>

section \<open>The monitor\<close>

definition WINDOW_SIZE :: nat where "WINDOW_SIZE = 4"
definition IDLE_THRESHOLD :: u32 where "IDLE_THRESHOLD = 4"

datatype HealthState = ONLINE | DEGRADED | OFFLINE

record Snapshot =
  sn_responses :: u32
  sn_timeouts :: u32
  sn_degraded :: int

record HealthMonitor =
  hm_window :: "Snapshot list"
  hm_head :: int
  hm_count :: nat
  hm_degraded_ticks :: int
  hm_healthy_ticks :: int
  hm_state :: HealthState

definition Snapshot_init :: Snapshot where
  "Snapshot_init = \<lparr>sn_responses = 0, sn_timeouts = 0, sn_degraded = -1\<rparr>"

definition HealthMonitor_new :: HealthMonitor where
  "HealthMonitor_new = \<lparr>hm_window = replicate WINDOW_SIZE Snapshot_init, hm_head = -1, hm_count = 0,
     hm_degraded_ticks = 0, hm_healthy_ticks = 0, hm_state = ONLINE\<rparr>"

definition HealthMonitor_reset :: "HealthMonitor \<Rightarrow> HealthMonitor" where
  "HealthMonitor_reset h = h\<lparr>hm_window := replicate WINDOW_SIZE Snapshot_init, hm_head := -1, hm_count := 0,
     hm_degraded_ticks := 0, hm_healthy_ticks := 0, hm_state := ONLINE\<rparr>"

definition total_responses :: "HealthMonitor \<Rightarrow> u32" where
  "total_responses h = foldl (\<lambda>total i. total + sn_responses (hm_window h ! i)) 0 [0..<hm_count h]"

definition total_timeouts :: "HealthMonitor \<Rightarrow> u32" where
  "total_timeouts h = foldl (\<lambda>total i. total + sn_timeouts (hm_window h ! i)) 0 [0..<hm_count h]"

definition is_cold :: "HealthMonitor \<Rightarrow> bool" where
  "is_cold h \<longleftrightarrow> hm_count h < WINDOW_SIZE"

definition is_idle :: "HealthMonitor \<Rightarrow> bool" where
  "is_idle h \<longleftrightarrow> total_responses h + total_timeouts h < IDLE_THRESHOLD"

definition all_degraded :: "HealthMonitor \<Rightarrow> bool" where
  "all_degraded h \<longleftrightarrow> hm_degraded_ticks h = int WINDOW_SIZE"

definition all_healthy :: "HealthMonitor \<Rightarrow> bool" where
  "all_healthy h \<longleftrightarrow> hm_healthy_ticks h = int WINDOW_SIZE"

definition tick_degraded :: "u32 \<Rightarrow> u32 \<Rightarrow> bool" where
  "tick_degraded new_responses new_timeouts \<longleftrightarrow>
     (let activity = new_responses + new_timeouts in
      activity > 0 \<and> 2 * unat new_timeouts > unat activity)"

text \<open>The first half of \<^verbatim>\<open>update\<close>: advance the ring, forget the oldest observation, record the new one.\<close>

definition record_tick :: "HealthMonitor \<Rightarrow> u32 \<Rightarrow> u32 \<Rightarrow> HealthMonitor" where
  "record_tick h new_responses new_timeouts =
     (let h = h\<lparr>hm_head := (hm_head h + 1) mod int WINDOW_SIZE\<rparr>;
          h = (if hm_count h = WINDOW_SIZE then
                 let oldest = hm_window h ! nat (hm_head h) in
                 if sn_degraded oldest = 1 then h\<lparr>hm_degraded_ticks := hm_degraded_ticks h - 1\<rparr>
                 else if sn_degraded oldest = 0 then h\<lparr>hm_healthy_ticks := hm_healthy_ticks h - 1\<rparr>
                 else h
               else h\<lparr>hm_count := hm_count h + 1\<rparr>)
      in h\<lparr>hm_window := (hm_window h)[nat (hm_head h) :=
             \<lparr>sn_responses = new_responses, sn_timeouts = new_timeouts, sn_degraded = -1\<rparr>]\<rparr>)"

text \<open>The second half: classify the tick and the socket.\<close>

definition evaluate_tick :: "HealthMonitor \<Rightarrow> u32 \<Rightarrow> u32 \<Rightarrow> HealthMonitor" where
  "evaluate_tick h new_responses new_timeouts =
     (let degraded = tick_degraded new_responses new_timeouts;
          i = nat (hm_head h);
          h = h\<lparr>hm_window := (hm_window h)[i := (hm_window h ! i)\<lparr>sn_degraded := if degraded then 1 else 0\<rparr>]\<rparr>;
          h = (if degraded then h\<lparr>hm_degraded_ticks := hm_degraded_ticks h + 1\<rparr>
               else h\<lparr>hm_healthy_ticks := hm_healthy_ticks h + 1\<rparr>);
          has_responses = (total_responses h > 0)
      in if has_responses \<and> all_degraded h then h\<lparr>hm_state := DEGRADED\<rparr>
         else if \<not> has_responses then h\<lparr>hm_state := OFFLINE\<rparr>
         else if has_responses \<and> all_healthy h then h\<lparr>hm_state := ONLINE\<rparr>
         else h)"

definition HealthMonitor_update :: "HealthMonitor \<Rightarrow> u32 \<Rightarrow> u32 \<Rightarrow> HealthMonitor" where
  "HealthMonitor_update h new_responses new_timeouts =
     (let h = record_tick h new_responses new_timeouts in
      if is_cold h \<or> is_idle h then h else evaluate_tick h new_responses new_timeouts)"

section \<open>Specification: the list of the last four ticks\<close>

record HealthSpec =
  hs_recent :: "Snapshot list"
  hs_state :: HealthState

definition spec_update :: "HealthSpec \<Rightarrow> u32 \<Rightarrow> u32 \<Rightarrow> HealthSpec" where
  "spec_update a r t =
     (let rest = take 3 (hs_recent a);
          new = \<lparr>sn_responses = r, sn_timeouts = t, sn_degraded = -1\<rparr>;
          responses = sum_list (map sn_responses (new # rest));
          timeouts = sum_list (map sn_timeouts (new # rest))
      in if length (new # rest) < 4 \<or> responses + timeouts < 4 then a\<lparr>hs_recent := new # rest\<rparr>
         else
           let ticks = new\<lparr>sn_degraded := if tick_degraded r t then 1 else 0\<rparr> # rest in
           \<lparr>hs_recent = ticks,
            hs_state = (if responses > 0 \<and> (\<forall>x \<in> set ticks. sn_degraded x = 1) then DEGRADED
                        else if responses = 0 then OFFLINE
                        else if \<forall>x \<in> set ticks. sn_degraded x = 0 then ONLINE
                        else hs_state a)\<rparr>)"

definition abs_health :: "HealthMonitor \<Rightarrow> HealthSpec" where
  "abs_health h = \<lparr>hs_recent = map (\<lambda>i. hm_window h ! nat ((hm_head h - int i) mod 4)) [0..<hm_count h],
     hs_state = hm_state h\<rparr>"

definition flag_count :: "int \<Rightarrow> Snapshot list \<Rightarrow> int" where
  "flag_count f xs = int (length (filter (\<lambda>x. sn_degraded x = f) xs))"

definition health_ok :: "HealthMonitor \<Rightarrow> bool" where
  "health_ok h \<longleftrightarrow> length (hm_window h) = 4 \<and> hm_count h \<le> 4 \<and>
     (hm_count h < 4 \<longrightarrow> hm_head h = int (hm_count h) - 1) \<and> (hm_count h = 4 \<longrightarrow> 0 \<le> hm_head h \<and> hm_head h < 4) \<and>
     hm_degraded_ticks h = flag_count 1 (hs_recent (abs_health h)) \<and>
     hm_healthy_ticks h = flag_count 0 (hs_recent (abs_health h))"

lemma ring_cases:
  assumes "health_ok h"
  obtains (cold) a b c d where "hm_window h = [a, b, c, d]" "hm_count h = 0" "hm_head h = -1"
  | (one) a b c d where "hm_window h = [a, b, c, d]" "hm_count h = 1" "hm_head h = 0"
  | (two) a b c d where "hm_window h = [a, b, c, d]" "hm_count h = 2" "hm_head h = 1"
  | (three) a b c d where "hm_window h = [a, b, c, d]" "hm_count h = 3" "hm_head h = 2"
  | (full0) a b c d where "hm_window h = [a, b, c, d]" "hm_count h = 4" "hm_head h = 0"
  | (full1) a b c d where "hm_window h = [a, b, c, d]" "hm_count h = 4" "hm_head h = 1"
  | (full2) a b c d where "hm_window h = [a, b, c, d]" "hm_count h = 4" "hm_head h = 2"
  | (full3) a b c d where "hm_window h = [a, b, c, d]" "hm_count h = 4" "hm_head h = 3"
proof -
  have "\<exists>a b c d. hm_window h = [a, b, c, d]"
    using assms by (auto simp: health_ok_def length_Suc_conv numeral_eq_Suc)
  then obtain a b c d where w: "hm_window h = [a, b, c, d]"
    by blast
  have "hm_count h = 0 \<or> hm_count h = 1 \<or> hm_count h = 2 \<or> hm_count h = 3 \<or> hm_count h = 4"
    using assms unfolding health_ok_def by presburger
  moreover have "hm_head h = 0 \<or> hm_head h = 1 \<or> hm_head h = 2 \<or> hm_head h = 3" if "hm_count h = 4"
    using assms that unfolding health_ok_def by presburger
  moreover have "hm_head h = int (hm_count h) - 1" if "hm_count h \<noteq> 4"
    using assms that unfolding health_ok_def by presburger
  ultimately show thesis
    using w that by (elim disjE) (simp_all, elim disjE, simp_all)
qed

lemma upt_ring: "[0..<0] = ([] :: nat list)" "[0..<1] = [0 :: nat]" "[0..<2] = [0, 1 :: nat]" "[0..<3] = [0, 1, 2 :: nat]"
  "[0..<4] = [0, 1, 2, 3 :: nat]" "[0..<Suc 0] = [0 :: nat]"
  by (simp_all add: upt_rec)

lemma recent_ring:
  assumes "hm_window h = [a, b, c, d]"
  shows "hm_count h = 0 \<Longrightarrow> hs_recent (abs_health h) = []"
    and "hm_count h = 1 \<Longrightarrow> hm_head h = 0 \<Longrightarrow> hs_recent (abs_health h) = [a]"
    and "hm_count h = 2 \<Longrightarrow> hm_head h = 1 \<Longrightarrow> hs_recent (abs_health h) = [b, a]"
    and "hm_count h = 3 \<Longrightarrow> hm_head h = 2 \<Longrightarrow> hs_recent (abs_health h) = [c, b, a]"
    and "hm_count h = 4 \<Longrightarrow> hm_head h = 0 \<Longrightarrow> hs_recent (abs_health h) = [a, d, c, b]"
    and "hm_count h = 4 \<Longrightarrow> hm_head h = 1 \<Longrightarrow> hs_recent (abs_health h) = [b, a, d, c]"
    and "hm_count h = 4 \<Longrightarrow> hm_head h = 2 \<Longrightarrow> hs_recent (abs_health h) = [c, b, a, d]"
    and "hm_count h = 4 \<Longrightarrow> hm_head h = 3 \<Longrightarrow> hs_recent (abs_health h) = [d, c, b, a]"
  using assms by (simp_all add: abs_health_def upt_ring)

lemma flag_count_simps: "flag_count f [] = 0" "flag_count f (x # xs) = (if sn_degraded x = f then 1 else 0) + flag_count f xs"
  by (simp_all add: flag_count_def)

lemma record_tick_abs:
  assumes "health_ok h"
  shows "hs_recent (abs_health (record_tick h r t)) =
      \<lparr>sn_responses = r, sn_timeouts = t, sn_degraded = -1\<rparr> # take 3 (hs_recent (abs_health h)) \<and>
    hm_state (record_tick h r t) = hm_state h \<and> health_ok (record_tick h r t)"
proof -
  have ticks: "hm_degraded_ticks h = flag_count 1 (hs_recent (abs_health h))"
    "hm_healthy_ticks h = flag_count 0 (hs_recent (abs_health h))"
    using assms by (simp_all add: health_ok_def)
  show ?thesis
    using assms
    by (cases rule: ring_cases)
      (simp_all add: record_tick_def health_ok_def flag_count_simps Let_def WINDOW_SIZE_def recent_ring ticks)
qed

text \<open>The ring at the four ages of a full window.\<close>

lemma totals_ring:
  assumes "health_ok h"
  shows "total_responses h = sum_list (map sn_responses (hs_recent (abs_health h)))"
    and "total_timeouts h = sum_list (map sn_timeouts (hs_recent (abs_health h)))"
  using assms
  by (cases rule: ring_cases; simp add: total_responses_def total_timeouts_def upt_ring recent_ring algebra_simps)+

lemma recent_length: "length (hs_recent (abs_health h)) = hm_count h"
  by (simp add: abs_health_def)

definition mark :: "int \<Rightarrow> Snapshot list \<Rightarrow> Snapshot list" where
  "mark f xs = (case xs of [] \<Rightarrow> [] | x # xs \<Rightarrow> x\<lparr>sn_degraded := f\<rparr> # xs)"

lemma mark_newest:
  assumes "health_ok h" "hm_count h = 4" "hm_count g = 4" "hm_head g = hm_head h"
    "hm_window g = (hm_window h)[nat (hm_head h) := (hm_window h ! nat (hm_head h))\<lparr>sn_degraded := f\<rparr>]"
  shows "hs_recent (abs_health g) = mark f (hs_recent (abs_health h))"
  using assms by (cases rule: ring_cases) (simp_all add: recent_ring mark_def)

lemma length_filter_all: "length (filter P xs) = length xs \<longleftrightarrow> (\<forall>x \<in> set xs. P x)"
proof (induction xs)
  case (Cons x xs)
  have "length (filter P xs) < Suc (length xs)"
    by (simp add: le_imp_less_Suc)
  then show ?case
    using Cons by auto
qed simp

lemma flag_count_all: "length xs = 4 \<Longrightarrow> flag_count f xs = 4 \<longleftrightarrow> (\<forall>x \<in> set xs. sn_degraded x = f)"
proof -
  assume "length xs = 4"
  then have "flag_count f xs = 4 \<longleftrightarrow> length (filter (\<lambda>x. sn_degraded x = f) xs) = length xs"
    by (simp add: flag_count_def)
  then show ?thesis
    by (simp only: length_filter_all)
qed

lemma health_state_cong:
  "health_ok (h\<lparr>hm_state := z\<rparr>) = health_ok h" "hs_recent (abs_health (h\<lparr>hm_state := z\<rparr>)) = hs_recent (abs_health h)"
  by (simp_all add: health_ok_def abs_health_def)

lemma evaluate_tick_abs:
  fixes r t :: u32
  assumes "health_ok h" "hm_count h = 4" "hs_recent (abs_health h) = x # xs" "sn_degraded x = -1"
  defines "ys \<equiv> x\<lparr>sn_degraded := if tick_degraded r t then 1 else 0\<rparr> # xs"
  shows "hs_recent (abs_health (evaluate_tick h r t)) = ys \<and> health_ok (evaluate_tick h r t) \<and>
    hm_state (evaluate_tick h r t) =
      (if sum_list (map sn_responses ys) > 0 \<and> (\<forall>x \<in> set ys. sn_degraded x = 1) then DEGRADED
       else if sum_list (map sn_responses ys) = 0 then OFFLINE
       else if \<forall>x \<in> set ys. sn_degraded x = 0 then ONLINE else hm_state h)"
proof -
  define f :: int where "f = (if tick_degraded r t then 1 else 0)"
  define g where "g = h\<lparr>hm_window := (hm_window h)[nat (hm_head h) := (hm_window h ! nat (hm_head h))\<lparr>sn_degraded := f\<rparr>],
      hm_degraded_ticks := hm_degraded_ticks h + (if tick_degraded r t then 1 else 0),
      hm_healthy_ticks := hm_healthy_ticks h + (if tick_degraded r t then 0 else 1), hm_state := hm_state h\<rparr>"
  have state: "hm_state g = hm_state h"
    by (simp add: g_def)
  have recent: "hs_recent (abs_health g) = ys"
    using mark_newest [OF assms(1,2), of g f] assms(2,3) by (simp add: g_def mark_def ys_def f_def [symmetric])
  have len: "length ys = 4"
    using recent_length [of h] assms(2,3) by (simp add: ys_def)
  have ok: "health_ok g"
    using assms(1,2,4) recent by (auto simp: health_ok_def flag_count_def assms(3) ys_def) (auto simp: g_def)
  have "all_degraded g \<longleftrightarrow> (\<forall>x \<in> set ys. sn_degraded x = 1)" "all_healthy g \<longleftrightarrow> (\<forall>x \<in> set ys. sn_degraded x = 0)"
    using ok flag_count_all [OF len] recent by (simp_all add: health_ok_def all_degraded_def all_healthy_def WINDOW_SIZE_def)
  moreover have "total_responses g = sum_list (map sn_responses ys)"
    using totals_ring(1) [OF ok] recent by simp
  moreover have "evaluate_tick h r t = (let has_responses = (total_responses g > 0)
      in if has_responses \<and> all_degraded g then g\<lparr>hm_state := DEGRADED\<rparr>
         else if \<not> has_responses then g\<lparr>hm_state := OFFLINE\<rparr>
         else if has_responses \<and> all_healthy g then g\<lparr>hm_state := ONLINE\<rparr> else g)"
    by (simp add: evaluate_tick_def g_def f_def Let_def)
  ultimately show ?thesis
    using ok recent state health_state_cong by (auto simp: Let_def word_neq_0_conv)
qed

section \<open>Refinement and properties\<close>

lemma update_refines:
  assumes "health_ok h"
  shows "health_ok (HealthMonitor_update h r t)"
    and "abs_health (HealthMonitor_update h r t) = spec_update (abs_health h) r t"
proof -
  let ?g = "record_tick h r t" and ?new = "\<lparr>sn_responses = r, sn_timeouts = t, sn_degraded = -1\<rparr>"
  let ?ws = "take 3 (hs_recent (abs_health h))"
  have g: "hs_recent (abs_health ?g) = ?new # ?ws" "hm_state ?g = hm_state h" "health_ok ?g"
    using record_tick_abs [OF assms] by auto
  have count: "hm_count ?g = length (?new # ?ws)"
    using recent_length [of ?g] g(1) by simp
  have tot: "total_responses ?g = sum_list (map sn_responses (?new # ?ws))"
    "total_timeouts ?g = sum_list (map sn_timeouts (?new # ?ws))"
    using totals_ring [OF g(3)] by (simp_all only: g(1))
  have upd: "(abs_health h)\<lparr>hs_recent := x\<rparr> = \<lparr>hs_recent = x, hs_state = hm_state h\<rparr>"
    "hs_state (abs_health h) = hm_state h" for x
    by (simp_all add: abs_health_def)
  have spec: "abs_health k = \<lparr>hs_recent = hs_recent (abs_health k), hs_state = hm_state k\<rparr>" for k
    by (simp add: abs_health_def)
  have skip: "is_cold ?g \<or> is_idle ?g \<longleftrightarrow> length (?new # ?ws) < 4 \<or>
      sum_list (map sn_responses (?new # ?ws)) + sum_list (map sn_timeouts (?new # ?ws)) < 4"
    by (simp only: is_cold_def is_idle_def WINDOW_SIZE_def IDLE_THRESHOLD_def count tot)
  have "health_ok (HealthMonitor_update h r t) \<and> abs_health (HealthMonitor_update h r t) = spec_update (abs_health h) r t"
  proof (cases "is_cold ?g \<or> is_idle ?g")
    case True
    then show ?thesis
      using g spec [of ?g] skip by (simp add: HealthMonitor_update_def spec_update_def Let_def upd)
  next
    case False
    then have four: "hm_count ?g = 4"
      using count skip recent_length [of h] by auto
    note e = evaluate_tick_abs [OF g(3) four g(1), of r t]
    show ?thesis
      using False skip e g(2) spec [of "evaluate_tick ?g r t"]
      by (cases "tick_degraded r t") (simp_all add: HealthMonitor_update_def spec_update_def Let_def upd cong: if_cong)
  qed
  then show "health_ok (HealthMonitor_update h r t)"
    and "abs_health (HealthMonitor_update h r t) = spec_update (abs_health h) r t"
    by blast+
qed

definition health_run :: "(u32 \<times> u32) list \<Rightarrow> HealthMonitor" where
  "health_run ticks = foldl (\<lambda>h (r, t). HealthMonitor_update h r t) HealthMonitor_new ticks"

definition spec_run :: "(u32 \<times> u32) list \<Rightarrow> HealthSpec" where
  "spec_run ticks = foldl (\<lambda>a (r, t). spec_update a r t) \<lparr>hs_recent = [], hs_state = ONLINE\<rparr> ticks"

definition counts :: "Snapshot \<Rightarrow> u32 \<times> u32" where
  "counts x = (sn_responses x, sn_timeouts x)"

text \<open>A flag of the window says what the counts of its tick say.\<close>

definition flags_ok :: "Snapshot list \<Rightarrow> bool" where
  "flags_ok xs \<longleftrightarrow> (\<forall>x \<in> set xs. (sn_degraded x = 1 \<longrightarrow> tick_degraded (sn_responses x) (sn_timeouts x)) \<and>
     (sn_degraded x = 0 \<longrightarrow> \<not> tick_degraded (sn_responses x) (sn_timeouts x)))"

lemma new_ok: "health_ok HealthMonitor_new" "abs_health HealthMonitor_new = \<lparr>hs_recent = [], hs_state = ONLINE\<rparr>"
  by (simp_all add: health_ok_def HealthMonitor_new_def abs_health_def flag_count_def WINDOW_SIZE_def)

lemma run_snoc [simp]:
  "health_run (ticks @ [(r, t)]) = HealthMonitor_update (health_run ticks) r t"
  "spec_run (ticks @ [(r, t)]) = spec_update (spec_run ticks) r t"
  by (simp_all add: health_run_def spec_run_def)

lemma run_refines: "health_ok (health_run ticks) \<and> abs_health (health_run ticks) = spec_run ticks"
proof (induction ticks rule: rev_induct)
  case (snoc p ticks)
  then show ?case
    using update_refines [of "health_run ticks" "fst p" "snd p"] by (cases p) auto
qed (simp add: health_run_def spec_run_def new_ok)

lemma spec_recent: "hs_recent (spec_update a r t) =
    \<lparr>sn_responses = r, sn_timeouts = t, sn_degraded = sn_degraded (hd (hs_recent (spec_update a r t)))\<rparr> # take 3 (hs_recent a)"
  by (simp add: spec_update_def Let_def)

lemma spec_run_window:
  "map counts (hs_recent (spec_run ticks)) = take 4 (rev ticks)" "flags_ok (hs_recent (spec_run ticks))"
proof (induction ticks rule: rev_induct)
  case (snoc p ticks)
  obtain r t where p: "p = (r, t)"
    by (cases p)
  {
    case 1
    have "map counts (take 3 (hs_recent (spec_run ticks))) = take 3 (take 4 (rev ticks))"
      using snoc.IH(1) by (metis take_map)
    then show ?case
      unfolding p run_snoc by (subst spec_recent) (simp add: counts_def eval_nat_numeral)
  next
    case 2
    have "flags_ok (take 3 (hs_recent (spec_run ticks)))"
      using snoc.IH(2) by (auto simp: flags_ok_def dest: in_set_takeD)
    then show ?case
      unfolding p run_snoc by (auto simp: spec_update_def flags_ok_def Let_def)
  }
qed (simp_all add: spec_run_def flags_ok_def)

text \<open>The ring buffer with its head index and running counts is equivalent to a list of the last four
  ticks: after any sequence of updates the monitor's state is the specification's, and the window holds
  exactly the last four ticks, newest first.\<close>

lemma health_refines:
  "abs_health (health_run ticks) = spec_run ticks \<and>
   map counts (hs_recent (abs_health (health_run ticks))) = take 4 (rev ticks)"
  using run_refines spec_run_window(1) by simp

text \<open>The state changes only on the evidence of a full window: it becomes degraded only if more than half of
  the activity of each of the last four ticks were timeouts and some response arrived, online again only
  if none of the last four ticks was degraded, and offline only if the four ticks count no response.\<close>

lemma health_transitions:
  assumes "hm_state (health_run (ticks @ [(r, t)])) \<noteq> hm_state (health_run ticks)"
  shows "4 \<le> length (ticks @ [(r, t)]) \<and>
    (case hm_state (health_run (ticks @ [(r, t)])) of
       DEGRADED \<Rightarrow> \<forall>(r, t) \<in> set (take 4 (rev (ticks @ [(r, t)]))). tick_degraded r t
     | ONLINE \<Rightarrow> \<forall>(r, t) \<in> set (take 4 (rev (ticks @ [(r, t)]))). \<not> tick_degraded r t
     | OFFLINE \<Rightarrow> sum_list (map fst (take 4 (rev (ticks @ [(r, t)])))) = 0)"
proof -
  let ?ts = "ticks @ [(r, t)]" and ?a = "spec_run ticks"
  let ?ws = "hs_recent (spec_run ?ts)"
  have st: "hm_state (health_run us) = hs_state (spec_run us)" for us
    using run_refines [of us] by (metis HealthSpec.select_convs(2) abs_health_def)
  have ws: "take 4 (rev ?ts) = map counts ?ws"
    using spec_run_window(1) [of ?ts] by simp
  have ev: "hs_state (spec_update ?a r t) \<noteq> hs_state ?a \<Longrightarrow> length (hs_recent (spec_update ?a r t)) = 4 \<and>
      (case hs_state (spec_update ?a r t) of
         DEGRADED \<Rightarrow> \<forall>x \<in> set (hs_recent (spec_update ?a r t)). sn_degraded x = 1
       | ONLINE \<Rightarrow> \<forall>x \<in> set (hs_recent (spec_update ?a r t)). sn_degraded x = 0
       | OFFLINE \<Rightarrow> sum_list (map sn_responses (hs_recent (spec_update ?a r t))) = 0)"
    by (auto simp: spec_update_def Let_def split: if_splits)
  have "hs_state (spec_run ?ts) \<noteq> hs_state ?a"
    using assms unfolding st .
  then have "length ?ws = 4" and c: "case hs_state (spec_run ?ts) of
      DEGRADED \<Rightarrow> \<forall>x \<in> set ?ws. sn_degraded x = 1 | ONLINE \<Rightarrow> \<forall>x \<in> set ?ws. sn_degraded x = 0
    | OFFLINE \<Rightarrow> sum_list (map sn_responses ?ws) = 0"
    using ev unfolding run_snoc by blast+
  moreover have "length (take 4 (rev ?ts)) = length ?ws"
    by (simp only: ws length_map)
  ultimately have "4 \<le> length ?ts"
    by simp
  moreover have "map fst (map counts ?ws) = map sn_responses ?ws"
    by (simp add: counts_def)
  ultimately show ?thesis
    using c spec_run_window(2) [of ?ts] unfolding st ws flags_ok_def
    by (auto simp: counts_def comp_def split: HealthState.splits)
qed

end
