(* ===== verification/Codec_Contract.thy ===== *)
theory Codec_Contract
  imports Compact
begin

text \<open>
  The contract every compact-encoding codec keeps, as a locale over its three functions, and
  its discharge for the codecs of \<^verbatim>\<open>src/compact.cpp\<close>.  The contract fixes the wire format
  \<open>wire v\<close> of a value and says: \<^verbatim>\<open>preencode\<close> adds exactly its length, \<^verbatim>\<open>encode\<close> stores exactly
  those bytes when they fit and reports an error, without touching memory outside the block,
  when they do not, \<^verbatim>\<open>decode\<close> reads them back, and \<^verbatim>\<open>decode\<close> is memory safe on every input.
  The Array and Frame combinators are proved once, for any codec that keeps the contract.
\<close>

section \<open>The contract\<close>

locale codec =
  fixes pre :: "State \<Rightarrow> 'a \<Rightarrow> State"
    and enc :: "State \<Rightarrow> 'a \<Rightarrow> State"
    and dec :: "State \<Rightarrow> 'a \<times> State"
    and wire :: "'a \<Rightarrow> bytes"
    and ok :: "'a \<Rightarrow> bool"
  assumes pre_wire: "ok v \<Longrightarrow> pre s v = pre_add s (length (wire v))"
    and enc_error: "st_error s \<Longrightarrow> enc s v = s"
    and enc_wire: "ok v \<Longrightarrow> wr_ok s \<Longrightarrow> length (wire v) \<le> room s \<Longrightarrow> enc s v = put_bytes s (wire v)"
    and enc_full: "ok v \<Longrightarrow> wr_ok s \<Longrightarrow> room s < length (wire v) \<Longrightarrow>
           st_error (enc s v) \<and> \<not> st_fault (enc s v)"
    and dec_wire: "ok v \<Longrightarrow> rd_safe s \<Longrightarrow> \<not> st_error s \<Longrightarrow> rest s = wire v @ t \<Longrightarrow>
           dec s = (v, adv s (length (wire v)))"
    and dec_safe: "rd_safe s \<Longrightarrow> safe_step s (snd (dec s))"

section \<open>Wire formats\<close>

definition Uint_wire :: "u64 \<Rightarrow> bytes" where
  "Uint_wire v =
     (if v \<le> 0xFC then [ucast v]
      else if v \<le> 0xFFFF then 0xFD # write_le16 (ucast v)
      else if v \<le> 0xFFFFFFFF then 0xFE # write_le32 (ucast v)
      else 0xFF # write_le64 v)"

definition Buffer_wire :: "bytes option \<Rightarrow> bytes" where
  "Buffer_wire data =
     (case data of None \<Rightarrow> [0]
      | Some bs \<Rightarrow> if bs = [] then [0] else Uint_wire (of_nat (length bs)) @ bs)"

definition Buffer_ok :: "bytes option \<Rightarrow> bool" where
  "Buffer_ok data \<longleftrightarrow> (case data of None \<Rightarrow> True
     | Some bs \<Rightarrow> bs \<noteq> [] \<and> length bs \<le> MAX_BUFFER_DECODE)"

definition Ipv4Addr_wire :: "Ipv4Address \<Rightarrow> bytes" where
  "Ipv4Addr_wire a = ip_host a @ write_le16 (ip_port a)"

definition Ipv4_ok :: "Ipv4Address \<Rightarrow> bool" where
  "Ipv4_ok a \<longleftrightarrow> length (ip_host a) = 4"

definition Ipv6Addr_wire :: "Ipv6Address \<Rightarrow> bytes" where
  "Ipv6Addr_wire a = ip6_host a @ write_le16 (ip6_port a)"

definition Ipv6_ok :: "Ipv6Address \<Rightarrow> bool" where
  "Ipv6_ok a \<longleftrightarrow> length (ip6_host a) = 16"

definition Array_wire :: "('a \<Rightarrow> bytes) \<Rightarrow> 'a list \<Rightarrow> bytes" where
  "Array_wire wire xs = Uint_wire (of_nat (length xs)) @ concat (map wire xs)"

definition Array_ok :: "('a \<Rightarrow> bool) \<Rightarrow> 'a list \<Rightarrow> bool" where
  "Array_ok ok xs \<longleftrightarrow> length xs \<le> ARRAY_MAX_LENGTH \<and> list_all ok xs"

definition Frame_wire :: "('a \<Rightarrow> bytes) \<Rightarrow> 'a \<Rightarrow> bytes" where
  "Frame_wire wire v = Uint_wire (of_nat (length (wire v))) @ wire v"

lemma data_of_cong:
  "st_buffer s' = st_buffer s \<Longrightarrow> st_read_buffer s' = st_read_buffer s \<Longrightarrow> data_of s' = data_of s"
  by (simp add: data_of_def st_data_def split: option.split)

lemma put_bytes_Nil: "put_bytes s [] = s"
  by (simp add: put_bytes_def mem_write_def)

section \<open>Primitive codecs keep the contract\<close>

lemma set_error_same: "st_error s \<Longrightarrow> set_error s = s"
  by (cases s) simp

lemma first_byte_bound: "(v :: u64) \<le> 0xFC \<Longrightarrow> (ucast v :: u8) \<le> 0xFC"
  by (simp add: word_le_nat_alt unsigned_ucast_eq unsigned_take_bit_eq take_bit_nat_eq_self)

lemma Uint_decode_wire:
  assumes "rd_safe s" and "\<not> st_error s" and "rest s = Uint_wire v @ t"
  shows "Uint_decode s = (v, adv s (length (Uint_wire v)))"
  using assms
  by (auto simp: Uint_decode_def Uint_wire_def cursor_simps first_byte_bound ucast_ucast_u64 Let_def)

text \<open>Every primitive decoder is one guarded read of a known size, possibly after the first
  byte of a varint.\<close>

lemma safe_step_if:
  "(c \<Longrightarrow> safe_step s (snd a)) \<Longrightarrow> (\<not> c \<Longrightarrow> safe_step s (snd b)) \<Longrightarrow>
     safe_step s (snd (if c then a else b))"
  by simp

lemma guarded_read_safe:
  assumes "rd_safe s"
  shows "safe_step s (snd (if \<not> has_bytes s n then (d, set_error s)
           else case get_bytes s n of (p, s') \<Rightarrow> (f p, s')))"
  using assms by (simp add: cursor_simps safe_steps)

lemma checked_read_safe:
  assumes "rd_safe s"
  shows "safe_step s (snd (if st_error s \<or> \<not> has_bytes s n then (d, set_error s)
           else case get_bytes s n of (p, s') \<Rightarrow> (f p, s')))"
  using assms by (simp add: cursor_simps safe_steps)

lemma Uint_decode_safe:
  assumes "rd_safe s"
  shows "safe_step s (snd (Uint_decode s))"
proof (cases "st_error s \<or> \<not> has_bytes s 1")
  case True
  then show ?thesis
    using assms by (simp add: Uint_decode_def safe_steps)
next
  case False
  then have one: "1 \<le> length (rest s)"
    using assms by (simp add: cursor_simps)
  have s1: "rd_safe (adv s 1)" "safe_step s (adv s 1)"
    using assms one by (simp_all add: cursor_simps safe_steps)
  have get: "get_bytes s 1 = (take 1 (rest s), adv s 1)"
    using assms one by (simp add: cursor_simps)
  note step = guarded_read_safe [OF s1(1), THEN safe_step_trans [OF s1(2)]]
  show ?thesis
    unfolding Uint_decode_def get prod.case Let_def if_not_P [OF False]
    using s1(2) by (intro safe_step_if step) simp_all
qed

lemma Uint_enc:
  assumes "wr_ok s"
  shows "Uint_encode s v = (if length (Uint_wire v) \<le> room s then put_bytes s (Uint_wire v) else set_error s)"
  using assms wr_ok_simps [OF assms] 
  by (auto simp: Uint_encode_def Uint_wire_def cursor_simps)

lemma Uint_pre: "Uint_preencode s v = pre_add s (length (Uint_wire v))"
  by (simp add: Uint_preencode_def Uint_wire_def)

interpretation Uint: codec Uint_preencode Uint_encode Uint_decode Uint_wire "\<lambda>_. True"
proof
  show "Uint_encode s v = s" if "st_error s" for s v
    using that by (simp add: Uint_encode_def set_error_same)
qed (simp_all add: Uint_pre Uint_enc wr_ok_simps Uint_decode_wire Uint_decode_safe)

interpretation Uint8: codec Uint8_preencode Uint8_encode Uint8_decode "\<lambda>v. [v]" "\<lambda>_. True"
  by unfold_locales
    (simp_all add: Uint8_preencode_def Uint8_encode_def Uint8_decode_def wr_ok_simps set_error_same
      cursor_simps safe_steps)

interpretation Uint16: codec Uint16_preencode Uint16_encode Uint16_decode write_le16 "\<lambda>_. True"
  by unfold_locales
    (simp_all add: Uint16_preencode_def Uint16_encode_def Uint16_decode_def wr_ok_simps
      set_error_same cursor_simps safe_steps)

interpretation Uint32: codec Uint32_preencode Uint32_encode Uint32_decode write_le32 "\<lambda>_. True"
  by unfold_locales
    (simp_all add: Uint32_preencode_def Uint32_encode_def Uint32_decode_def wr_ok_simps
      set_error_same cursor_simps safe_steps)

interpretation Uint64: codec Uint64_preencode Uint64_encode Uint64_decode write_le64 "\<lambda>_. True"
  by unfold_locales
    (simp_all add: Uint64_preencode_def Uint64_encode_def Uint64_decode_def wr_ok_simps
      set_error_same cursor_simps safe_steps)

interpretation Bool: codec Bool_preencode Bool_encode Bool_decode "\<lambda>v. [if v then 1 else 0]" "\<lambda>_. True"
  by unfold_locales
    (simp_all add: Bool_preencode_def Bool_encode_def Bool_decode_def Uint8_encode_def
      Uint8_decode_def wr_ok_simps set_error_same cursor_simps safe_steps)

lemma Fixed_codec:
  "codec (Fixed_preencode n) (Fixed_encode n) (Fixed_decode n) (\<lambda>v. v) (\<lambda>v. length v = n)"
  by unfold_locales
    (simp_all add: Fixed_preencode_def Fixed_encode_def Fixed_decode_def wr_ok_simps
      set_error_same cursor_simps safe_steps)

interpretation Fixed32: codec Fixed32_preencode Fixed32_encode Fixed32_decode "\<lambda>v. v" "\<lambda>v. length v = 32"
  unfolding Fixed32_preencode_def Fixed32_encode_def Fixed32_decode_def by (rule Fixed_codec)

interpretation Fixed64: codec Fixed64_preencode Fixed64_encode Fixed64_decode "\<lambda>v. v" "\<lambda>v. length v = 64"
  unfolding Fixed64_preencode_def Fixed64_encode_def Fixed64_decode_def by (rule Fixed_codec)

lemma two_reads_safe:
  assumes "rd_safe s"
  shows "safe_step s (snd (if st_error s \<or> \<not> has_bytes s (m + n) then (d, set_error s)
           else case get_bytes s m of (p, s1) \<Rightarrow> case get_bytes s1 n of (q, s2) \<Rightarrow> (f p q, s2)))"
proof (cases "st_error s \<or> \<not> has_bytes s (m + n)")
  case False
  then have "m + n \<le> length (rest s)"
    using assms by (simp add: cursor_simps)
  moreover from this have "rd_safe (adv s m)" "n \<le> length (rest (adv s m))"
    using assms by (simp_all add: cursor_simps)
  ultimately show ?thesis
    using False assms by (simp add: cursor_simps safe_steps)
qed (use assms in \<open>simp add: safe_steps\<close>)

interpretation Ipv4: codec Ipv4Addr_preencode Ipv4Addr_encode Ipv4Addr_decode Ipv4Addr_wire Ipv4_ok
proof
  show "safe_step s (snd (Ipv4Addr_decode s))" if "rd_safe s" for s
    using two_reads_safe [OF that, of 4 2 Ipv4Address_init "\<lambda>h p. \<lparr>ip_host = h, ip_port = read_le16 p\<rparr>"]
    by (simp add: Ipv4Addr_decode_def)
qed (simp_all add: Ipv4Addr_preencode_def Ipv4Addr_encode_def Ipv4Addr_decode_def Ipv4Addr_wire_def
      Ipv4_ok_def wr_ok_simps set_error_same cursor_simps)

interpretation Ipv6: codec Ipv6Addr_preencode Ipv6Addr_encode Ipv6Addr_decode Ipv6Addr_wire Ipv6_ok
proof
  show "safe_step s (snd (Ipv6Addr_decode s))" if "rd_safe s" for s
    using two_reads_safe [OF that, of 16 2 Ipv6Address_init "\<lambda>h p. \<lparr>ip6_host = h, ip6_port = read_le16 p\<rparr>"]
    by (simp add: Ipv6Addr_decode_def)
qed (simp_all add: Ipv6Addr_preencode_def Ipv6Addr_encode_def Ipv6Addr_decode_def Ipv6Addr_wire_def
      Ipv6_ok_def wr_ok_simps set_error_same cursor_simps)

subsection \<open>Buffer\<close>

lemma unat_of_nat_u64: "n < 2 ^ 64 \<Longrightarrow> unat (of_nat n :: u64) = n"
  by (simp add: unat_of_nat)

lemma of_nat_u64_zero: "n < 2 ^ 64 \<Longrightarrow> (of_nat n :: u64) = 0 \<longleftrightarrow> n = 0"
  by (simp add: word_of_nat_eq_0_iff dvd_imp_le nat_dvd_not_less) (auto dest: dvd_imp_le)

lemma Uint_wire_zero: "Uint_wire 0 = [0]"
  by (simp add: Uint_wire_def)

lemma Buffer_decode_wire:
  assumes "Buffer_ok v" "rd_safe s" "\<not> st_error s" "rest s = Buffer_wire v @ t"
  shows "Buffer_decode s = (v, adv s (length (Buffer_wire v)))"
proof (cases v)
  case None
  then have "Uint_decode s = (0, adv s 1)"
    using assms Uint.dec_wire [where v = 0 and t = t] by (simp add: Buffer_wire_def Uint_wire_zero)
  then show ?thesis
    using None assms by (simp add: Buffer_decode_def Buffer_wire_def)
next
  case (Some bs)
  let ?n = "length bs" and ?w = "Uint_wire (of_nat (length bs))"
  have n: "bs \<noteq> []" "?n \<le> 65536"
    using Some assms(1) by (simp_all add: Buffer_ok_def MAX_BUFFER_DECODE_def)
  have rest: "rest s = ?w @ bs @ t"
    using Some n assms(4) by (simp add: Buffer_wire_def)
  have "Uint_decode s = (of_nat ?n, adv s (length ?w))"
    using assms rest Uint.dec_wire by simp
  then show ?thesis
    using Some n assms rest
    by (simp add: Buffer_decode_def Buffer_wire_def unat_of_nat_u64 of_nat_u64_zero
        MAX_BUFFER_DECODE_def cursor_simps)
qed

lemma Buffer_decode_safe:
  assumes "rd_safe s"
  shows "safe_step s (snd (Buffer_decode s))"
proof -
  obtain len s1 where u: "Uint_decode s = (len, s1)"
    by force
  then have step: "safe_step s s1" and s1: "rd_safe s1"
    using Uint.dec_safe [OF assms] by (simp_all add: safe_step_def)
  have "safe_step s1 (snd (Buffer_decode s))"
    unfolding Buffer_decode_def u prod.case
    using s1 by (intro safe_step_if guarded_read_safe) (simp_all add: safe_steps)
  with step show ?thesis by (rule safe_step_trans)
qed

lemma Buffer_enc:
  assumes "wr_ok s" and "Buffer_ok v"
  shows "if length (Buffer_wire v) \<le> room s then Buffer_encode s v = put_bytes s (Buffer_wire v)
         else st_error (Buffer_encode s v) \<and> \<not> st_fault (Buffer_encode s v)"
proof (cases v)
  case None
  then show ?thesis
    using assms by (simp add: Buffer_encode_def Buffer_wire_def Uint8_encode_def wr_ok_simps
        cursor_simps)
next
  case (Some bs)
  then have "bs \<noteq> []"
    using assms(2) by (simp add: Buffer_ok_def)
  with Some assms show ?thesis
    by (auto simp: Buffer_encode_def Buffer_wire_def Uint_enc wr_ok_simps cursor_simps Let_def)
qed

interpretation Buffer: codec Buffer_preencode Buffer_encode Buffer_decode Buffer_wire Buffer_ok
proof
  show "Buffer_encode s v = s" if "st_error s" for s v
    using that by (simp add: Buffer_encode_def set_error_same)
  show "Buffer_preencode s v = pre_add s (length (Buffer_wire v))" for s v
    by (simp add: Buffer_preencode_def Buffer_wire_def Uint_pre cursor_simps split: option.split)
  show "Buffer_encode s v = put_bytes s (Buffer_wire v)"
    if "Buffer_ok v" "wr_ok s" "length (Buffer_wire v) \<le> room s" for v s
    using Buffer_enc [OF that(2,1)] that(3) by simp
  show "st_error (Buffer_encode s v) \<and> \<not> st_fault (Buffer_encode s v)"
    if "Buffer_ok v" "wr_ok s" "room s < length (Buffer_wire v)" for v s
    using Buffer_enc [OF that(2,1)] that(3) by simp
qed (simp_all add: Buffer_decode_wire Buffer_decode_safe)

section \<open>The Array and Frame combinators, for any codec\<close>

context codec
begin

lemma foldl_pre:
  "list_all ok xs \<Longrightarrow> foldl pre (pre_add s n) xs = pre_add s (n + length (concat (map wire xs)))"
  by (induction xs arbitrary: n) (simp_all add: pre_wire cursor_simps add.assoc)

lemma foldl_enc_error: "st_error s \<Longrightarrow> foldl enc s xs = s"
  by (induction xs) (simp_all add: enc_error)

lemma foldl_enc:
  assumes "list_all ok xs" and "wr_ok s"
  shows "if length (concat (map wire xs)) \<le> room s
         then foldl enc s xs = put_bytes s (concat (map wire xs))
         else st_error (foldl enc s xs) \<and> \<not> st_fault (foldl enc s xs)"
  using assms
proof (induction xs arbitrary: s)
  case Nil
  then show ?case by (simp add: put_bytes_Nil)
next
  case (Cons x xs)
  then have x: "ok x" and xs: "list_all ok xs"
    by simp_all
  show ?case
  proof (cases "length (wire x) \<le> room s")
    case True
    then have "enc s x = put_bytes s (wire x)"
      using x Cons.prems(2) by (simp add: enc_wire)
    then show ?thesis
      using True Cons.prems(2) Cons.IH [OF xs, of "put_bytes s (wire x)"]
      by (auto simp: cursor_simps split: if_splits)
  next
    case False
    then have "st_error (enc s x)" "\<not> st_fault (enc s x)"
      using x Cons.prems(2) enc_full [of x s] by simp_all
    with False show ?thesis
      by (simp add: foldl_enc_error)
  qed
qed

lemma decode_loop_wire:
  assumes "list_all ok xs" "rd_safe s" "\<not> st_error s" "rest s = concat (map wire xs) @ t"
  shows "Array_decode_loop dec (length xs) s = (xs, adv s (length (concat (map wire xs))))"
  using assms
proof (induction xs arbitrary: s)
  case (Cons x xs)
  have "dec s = (x, adv s (length (wire x)))"
    using Cons.prems by (intro dec_wire) auto
  then show ?case
    using Cons.prems Cons.IH [of "adv s (length (wire x))"] by (simp add: cursor_simps)
qed simp

lemma decode_loop_safe: "rd_safe s \<Longrightarrow> safe_step s (snd (Array_decode_loop dec n s))"
proof (induction n arbitrary: s)
  case (Suc n)
  show ?case
  proof (cases "st_error s")
    case False
    obtain x s1 where d: "dec s = (x, s1)"
      by force
    then have "safe_step s s1" and "rd_safe s1"
      using dec_safe [OF Suc.prems] by (simp_all add: safe_step_def)
    with Suc.IH [of s1] show ?thesis
      using False d by (auto simp: split: prod.split elim: safe_step_trans)
  qed (simp add: Suc.prems safe_step_refl)
qed (simp add: safe_step_refl)

lemma Array_codec:
  "codec (Array_preencode pre) (Array_encode enc) (Array_decode dec) (Array_wire wire) (Array_ok ok)"
proof
  fix s :: State and v :: "'a list"
  show "Array_preencode pre s v = pre_add s (length (Array_wire wire v))" if "Array_ok ok v"
    using that
    by (simp add: Array_preencode_def Array_wire_def Array_ok_def foldl_pre Uint_pre cursor_simps)
  show "Array_encode enc s v = s" if "st_error s"
    using that by (simp add: Array_encode_def Uint.enc_error foldl_enc_error)
  show "Array_encode enc s v = put_bytes s (Array_wire wire v)"
    if "Array_ok ok v" "wr_ok s" "length (Array_wire wire v) \<le> room s"
    using that foldl_enc [of v "put_bytes s (Uint_wire (of_nat (length v)))"]
    by (simp add: Array_encode_def Array_wire_def Array_ok_def Uint_enc cursor_simps)
  show "st_error (Array_encode enc s v) \<and> \<not> st_fault (Array_encode enc s v)"
    if "Array_ok ok v" "wr_ok s" "room s < length (Array_wire wire v)"
    using that foldl_enc [of v "put_bytes s (Uint_wire (of_nat (length v)))"]
    by (auto simp: Array_encode_def Array_wire_def Array_ok_def Uint_enc cursor_simps
        foldl_enc_error wr_ok_simps split: if_splits)
  show "Array_decode dec s = (v, adv s (length (Array_wire wire v)))"
    if "Array_ok ok v" "rd_safe s" "\<not> st_error s" "rest s = Array_wire wire v @ t" for t
  proof -
    let ?w = "Uint_wire (of_nat (length v))"
    have "Uint_decode s = (of_nat (length v), adv s (length ?w))"
      using that by (intro Uint.dec_wire) (auto simp: Array_wire_def)
    then show ?thesis
      using that decode_loop_wire [of v "adv s (length ?w)" t]
      by (simp add: Array_decode_def Array_wire_def Array_ok_def ARRAY_MAX_LENGTH_def
          unat_of_nat_u64 cursor_simps)
  qed
  show "safe_step s (snd (Array_decode dec s))" if s: "rd_safe s"
  proof -
    obtain c s1 where u: "Uint_decode s = (c, s1)"
      by force
    then have step: "safe_step s s1" and s1: "rd_safe s1"
      using Uint.dec_safe [OF s] by (simp_all add: safe_step_def)
    have "safe_step s1 (snd (Array_decode dec s))"
      using s1 by (simp add: Array_decode_def u decode_loop_safe safe_steps)
    with step show ?thesis by (rule safe_step_trans)
  qed
qed

lemma Frame_pre:
  assumes "ok v" and "length (wire v) < 2 ^ 64"
  shows "Frame_preencode pre s v = pre_add s (length (Frame_wire wire v))"
  using assms
  by (simp add: Frame_preencode_def Frame_wire_def pre_wire Uint_pre cursor_simps Let_def
      State_init_def add_size_small)

lemma Frame_enc:
  assumes "ok v" and "wr_ok s" and "length (Frame_wire wire v) \<le> room s" "length (wire v) < 2 ^ 64"
  shows "Frame_encode pre enc s v = put_bytes s (Frame_wire wire v)"
  using assms
  by (simp add: Frame_encode_def Frame_wire_def pre_wire Uint_enc enc_wire cursor_simps Let_def
      State_init_def add_size_small)

lemma Frame_dec:
  assumes v: "ok v" and s: "rd_safe s" "\<not> st_error s" and r: "rest s = Frame_wire wire v @ t"
  shows "Frame_decode dflt dec s = (v, adv s (length (Frame_wire wire v)))"
proof -
  let ?n = "length (wire v)" and ?w = "Uint_wire (of_nat (length (wire v)))"
  let ?s1 = "adv s (length ?w)"
  have r1: "rest s = ?w @ wire v @ t"
    using r by (simp add: Frame_wire_def)
  have len: "length (rest s) = st_end s - st_start s" "st_start s \<le> st_end s" "st_end s < 2 ^ 64"
      "st_end s \<le> length (data_of s)"
    using s(1) length_rest by (auto simp: rd_safe_def)
  then have n: "?n < 2 ^ 64" "st_start ?s1 + ?n \<le> st_end s"
    using r1 by simp_all
  let ?s2 = "?s1\<lparr>st_end := st_start ?s1 + ?n\<rparr>"
  have u: "Uint_decode s = (of_nat ?n, ?s1)"
    using s r1 by (intro Uint.dec_wire) auto
  have add: "add_size (st_start ?s1) ?n = st_start ?s1 + ?n"
    using n len by (intro add_size_small) simp
  have "rest ?s2 = take ?n (drop (st_start ?s1) (data_of s))"
    by (simp add: rest_def)
  also have "\<dots> = take ?n (drop (length ?w) (rest s))"
    using n len by (simp add: rest_def drop_take min_def add.commute)
  finally have "rest ?s2 = wire v @ []"
    using r1 by simp
  moreover have "rd_safe ?s2"
    using s(1) n len by (simp add: rd_safe_def)
  ultimately have "dec ?s2 = (v, adv ?s2 ?n)"
    using v s(2) by (intro dec_wire) simp_all
  moreover have "(adv ?s2 ?n)\<lparr>st_start := st_end (adv ?s2 ?n), st_end := st_end ?s1\<rparr> = adv ?s1 ?n"
    by (cases s) (simp add: adv_def)
  ultimately show ?thesis
    using n s unfolding Frame_decode_def u prod.case Let_def unat_of_nat_u64 [OF n(1)] add
    by (simp add: Frame_wire_def)
qed

text \<open>Without wrap-around, a Frame decode stays inside its block: the inner decoder runs on a
  shorter block, and the cursor ends at the end of the frame.\<close>

lemma Frame_safe:
  assumes s: "rd_safe s" and nowrap: "st_start (snd (Uint_decode s)) + unat (fst (Uint_decode s)) < 2 ^ 64"
  shows "safe_step s (snd (Frame_decode dflt dec s))"
proof -
  obtain len s1 where u: "Uint_decode s = (len, s1)"
    by force
  then have step: "safe_step s s1" and s1: "rd_safe s1"
    using Uint.dec_safe [OF s] by (simp_all add: safe_step_def)
  let ?s2 = "s1\<lparr>st_end := st_start s1 + unat len\<rparr>"
  have add: "add_size (st_start s1) (unat len) = st_start s1 + unat len"
    using nowrap u by (simp add: add_size_small)
  have "safe_step s1 (snd (Frame_decode dflt dec s))"
  proof (cases "st_error s1 \<or> st_end ?s2 > st_end s1")
    case True
    then show ?thesis
      using s1 by (auto simp: Frame_decode_def u add Let_def safe_step_def rd_safe_def)
  next
    case False
    then have "rd_safe ?s2"
      using s1 by (simp add: rd_safe_def)
    then have "safe_step ?s2 (snd (dec ?s2))"
      by (rule dec_safe)
    moreover obtain x s3 where d: "dec ?s2 = (x, s3)"
      by force
    ultimately have s3: "safe_step ?s2 s3" "data_of s3 = data_of s1"
      using data_of_cong [of s3 s1] by (simp_all add: safe_step_def)
    then show ?thesis
      using False s1 by (simp add: Frame_decode_def u add d Let_def safe_step_def rd_safe_def)
  qed
  with step show ?thesis by (rule safe_step_trans)
qed

end

interpretation Ipv4Array: codec "Array_preencode Ipv4Addr_preencode" "Array_encode Ipv4Addr_encode"
  "Array_decode Ipv4Addr_decode" "Array_wire Ipv4Addr_wire" "Array_ok Ipv4_ok"
  by (rule Ipv4.Array_codec)

interpretation Ipv6Array: codec "Array_preencode Ipv6Addr_preencode" "Array_encode Ipv6Addr_encode"
  "Array_decode Ipv6Addr_decode" "Array_wire Ipv6Addr_wire" "Array_ok Ipv6_ok"
  by (rule Ipv6.Array_codec)

section \<open>Properties of the codec layer\<close>

context codec
begin

text \<open>A whole encoding: preencode, allocate, encode, then decode the finished block.\<close>

lemma roundtrip_alloc:
  assumes "ok v" and "length (wire v) < 2 ^ 64"
  shows "buffer_of (enc (alloc (pre State_init v)) v) = wire v \<and>
         dec (for_decode (Some (wire v)) (length (wire v))) =
           (v, adv (for_decode (Some (wire v)) (length (wire v))) (length (wire v)))"
proof
  have "enc (alloc (pre State_init v)) v = put_bytes (alloc (pre State_init v)) (wire v)"
    using assms by (simp add: pre_wire enc_wire alloc_pre_add)
  then show "buffer_of (enc (alloc (pre State_init v)) v) = wire v"
    using assms by (simp add: pre_wire put_bytes_alloc)
  show "dec (for_decode (Some (wire v)) (length (wire v))) =
      (v, adv (for_decode (Some (wire v)) (length (wire v))) (length (wire v)))"
    using assms by (intro dec_wire [where t = "[]"]) (simp_all add: for_decode_cursor)
qed

text \<open>Encoding into any block, of any size: no byte outside the block is written, and the error
  flag tells exactly whether the value fitted.\<close>

lemma enc_in_bounds:
  assumes "ok v" and "wr_ok s"
  shows "\<not> st_fault (enc s v)" and "st_error (enc s v) \<longleftrightarrow> room s < length (wire v)"
proof -
  have "wr_ok (enc s v)" if "length (wire v) \<le> room s"
    using that assms by (simp add: enc_wire cursor_simps)
  moreover have "st_error (enc s v) \<and> \<not> st_fault (enc s v)" if "room s < length (wire v)"
    using that assms by (simp add: enc_full)
  ultimately show "\<not> st_fault (enc s v)" and "st_error (enc s v) \<longleftrightarrow> room s < length (wire v)"
    using wr_ok_simps by (metis linorder_not_less)+
qed

end

text \<open>Any 64-bit value written by \<^verbatim>\<open>Uint::encode\<close> into a buffer of the size that
  \<^verbatim>\<open>Uint::preencode\<close> announced is read back unchanged by \<^verbatim>\<open>Uint::decode\<close>, which consumes the
  whole buffer without an error and without leaving it.\<close>

lemma Uint_roundtrip:
  "let w = buffer_of (Uint_encode (alloc (Uint_preencode State_init v)) v);
       (v', s') = Uint_decode (for_decode (Some w) (length w))
   in v' = v \<and> st_start s' = length w \<and> \<not> st_error s' \<and> \<not> st_fault s'"
proof -
  have "length (Uint_wire v) < 2 ^ 64"
    by (simp add: Uint_wire_def)
  then show ?thesis
    using Uint.roundtrip_alloc [of v] by (simp add: Let_def)
qed

text \<open>An address list of at most \<^verbatim>\<open>ARRAY_MAX_LENGTH\<close> IPv4 addresses survives
  \<^verbatim>\<open>Array<Ipv4Addr>\<close> encoding into a buffer of the preencoded size followed by decoding.\<close>

lemma Ipv4Array_roundtrip:
  assumes "length xs \<le> ARRAY_MAX_LENGTH" and "\<forall>a \<in> set xs. length (ip_host a) = 4"
  shows "let w = buffer_of (Array_encode Ipv4Addr_encode
                    (alloc (Array_preencode Ipv4Addr_preencode State_init xs)) xs);
             (ys, s') = Array_decode Ipv4Addr_decode (for_decode (Some w) (length w))
         in ys = xs \<and> st_start s' = length w \<and> \<not> st_error s' \<and> \<not> st_fault s'"
proof -
  have ok: "Array_ok Ipv4_ok xs"
    using assms by (simp add: Array_ok_def Ipv4_ok_def list_all_iff)
  have "length (concat (map Ipv4Addr_wire xs)) = 6 * length xs"
    using assms(2) by (induction xs) (simp_all add: Ipv4Addr_wire_def)
  then have "length (Array_wire Ipv4Addr_wire xs) < 2 ^ 64"
    using assms(1) by (simp add: Array_wire_def Uint_wire_def ARRAY_MAX_LENGTH_def)
  then show ?thesis
    using Ipv4Array.roundtrip_alloc [OF ok] by (simp add: Let_def)
qed

text \<open>Encoding a buffer into a block of any size never writes outside the block: it reports
  an error exactly when the value does not fit, and otherwise stores precisely its wire bytes
  at the cursor.\<close>

lemma Buffer_encode_in_bounds:
  assumes "wr_ok s" and "data = None \<or> (\<exists>bs. data = Some bs \<and> bs \<noteq> [] \<and> length bs \<le> 65536)"
  shows "\<not> st_fault (Buffer_encode s data) \<and>
         (if length (Buffer_wire data) \<le> room s
          then Buffer_encode s data = put_bytes s (Buffer_wire data) \<and> \<not> st_error (Buffer_encode s data)
          else st_error (Buffer_encode s data))"
proof -
  have ok: "Buffer_ok data"
    using assms(2) by (auto simp: Buffer_ok_def MAX_BUFFER_DECODE_def)
  show ?thesis
    using Buffer.enc_in_bounds [OF ok assms(1)] Buffer.enc_wire [OF ok assms(1)] by auto
qed

text \<open>The length field of a \<^verbatim>\<open>Frame\<close> is added to the cursor without an overflow check: on the
  nine bytes \<^verbatim>\<open>FF FF .. FF\<close> the sum wraps, the bounds test passes, and the inner decoder runs with
  its end before its start; \<^verbatim>\<open>Frame<Raw>\<close> then hands out a view outside the input.\<close>

lemma Frame_length_overflow:
  "st_fault (snd (Frame_decode [] Raw_decode (for_decode (Some (replicate 9 0xFF)) 9))) \<and>
   st_error (snd (Frame_decode 0 Uint8_decode (for_decode (Some (replicate 9 0xFF)) 9))) \<and>
   st_start (snd (Frame_decode 0 Uint8_decode (for_decode (Some (replicate 9 0xFF)) 9))) = 8"
proof -
  let ?s = "for_decode (Some (replicate 9 0xFF)) 9" and ?n = "0xFFFFFFFFFFFFFFFF :: u64"
  have w: "Uint_wire ?n = replicate 9 0xFF"
    by code_simp
  have u: "Uint_decode ?s = (?n, adv ?s 9)"
    using Uint.roundtrip_alloc [of ?n] by (simp add: w)
  have "add_size 9 (unat ?n) = 8" "sub_size 8 9 = 0xFFFFFFFFFFFFFFFF"
    by (simp_all add: add_size_def sub_size_def)
  then show ?thesis
    by (simp add: Frame_decode_def u Raw_decode_def mem_read_def Uint8_decode_def has_bytes_def
        st_data_def Let_def)
qed

end
