(* ===== verification/Message_Steps.thy ===== *)
theory Message_Steps
  imports Codec_Contract
begin

text \<open>
  The two idioms in which every message codec of the program is written, as combinators, with
  the lemmas that carry the proofs about whole messages.

  Encoding runs a list of \<^verbatim>\<open>preencode\<close> calls on a fresh cursor, allocates a vector of the resulting
  size and runs the matching list of \<^verbatim>\<open>encode\<close> calls on it (\<open>encode_steps\<close>).  Decoding is a
  sequence of statements \<^verbatim>\<open>m.f = Codec::decode(state); if (state.error) return ..;\<close> (\<open>field\<close>),
  some guarded by a flag bit (\<open>guarded\<close>), chained by \<open>and_then\<close>; a step yields \<open>False\<close> where the
  C++ function returns early.  The cursor stays in the result so that memory safety can be
  stated of it; in the C++ it is a local variable.
\<close>

section \<open>Encoding\<close>

definition opt :: "(State \<Rightarrow> 'a \<Rightarrow> State) \<Rightarrow> 'a option \<Rightarrow> State \<Rightarrow> State" where
  "opt f v s = (case v of None \<Rightarrow> s | Some x \<Rightarrow> f s x)"

definition run_steps :: "(State \<Rightarrow> State) list \<Rightarrow> State \<Rightarrow> State" where
  "run_steps fs s = foldl (\<lambda>s f. f s) s fs"

definition encode_steps :: "(State \<Rightarrow> State) list \<Rightarrow> (State \<Rightarrow> State) list \<Rightarrow> bytes" where
  "encode_steps pres encs = buffer_of (run_steps encs (alloc (run_steps pres State_init)))"

text \<open>\<open>step_wire p e w\<close>: the preencode step \<open>p\<close> and the encode step \<open>e\<close> agree on the wire bytes \<open>w\<close>.\<close>

definition step_wire :: "(State \<Rightarrow> State) \<Rightarrow> (State \<Rightarrow> State) \<Rightarrow> bytes \<Rightarrow> bool" where
  "step_wire p e w \<longleftrightarrow> (\<forall>s k. p (pre_add s k) = pre_add s (k + length w)) \<and>
     (\<forall>s. wr_ok s \<longrightarrow> length w \<le> room s \<longrightarrow> e s = put_bytes s w)"

definition opt_wire :: "('a \<Rightarrow> bytes) \<Rightarrow> 'a option \<Rightarrow> bytes" where
  "opt_wire w v = (case v of None \<Rightarrow> [] | Some x \<Rightarrow> w x)"

lemma State_init_pre_add: "State_init = pre_add State_init 0"
  by (simp add: pre_add_def State_init_def add_size_def)

lemma run_pres:
  "list_all2 (\<lambda>(p, e) w. step_wire p e w) pes ws \<Longrightarrow>
     run_steps (map fst pes) (pre_add s k) = pre_add s (k + length (concat ws))"
  by (induction pes ws arbitrary: k rule: list_all2_induct)
    (auto simp: run_steps_def step_wire_def add.assoc)

lemma run_encs:
  "list_all2 (\<lambda>(p, e) w. step_wire p e w) pes ws \<Longrightarrow> wr_ok s \<Longrightarrow> length (concat ws) \<le> room s \<Longrightarrow>
     run_steps (map snd pes) s = put_bytes s (concat ws)"
proof (induction pes ws arbitrary: s rule: list_all2_induct)
  case Nil
  then show ?case by (simp add: run_steps_def put_bytes_Nil)
next
  case (Cons pe pes w ws)
  obtain p e where pe: "pe = (p, e)"
    by force
  have "e s = put_bytes s w"
    using Cons.prems Cons.hyps(1) pe by (simp add: step_wire_def)
  moreover have "run_steps (map snd pes) (put_bytes s w) = put_bytes (put_bytes s w) (concat ws)"
    using Cons.prems by (intro Cons.IH) (simp_all add: cursor_simps)
  ultimately show ?case
    using Cons.prems pe by (simp add: run_steps_def cursor_simps)
qed

lemma encode_steps_wire:
  assumes "list_all2 (\<lambda>(p, e) w. step_wire p e w) (zip pres encs) ws"
    and "length pres = length encs" and "length (concat ws) < 2 ^ 64"
  shows "encode_steps pres encs = concat ws"
proof -
  have "run_steps pres State_init = pre_add State_init (length (concat ws))"
    using run_pres [OF assms(1), of State_init 0] assms(2) State_init_pre_add by simp
  moreover have "run_steps encs (alloc (pre_add State_init (length (concat ws)))) =
      put_bytes (alloc (pre_add State_init (length (concat ws)))) (concat ws)"
    using run_encs [OF assms(1)] assms(2,3) by (simp add: alloc_pre_add)
  ultimately show ?thesis
    using assms(3) by (simp add: encode_steps_def put_bytes_alloc)
qed

context codec
begin

lemma step_wire_codec: "ok v \<Longrightarrow> step_wire (\<lambda>s. pre s v) (\<lambda>s. enc s v) (wire v)"
  by (simp add: step_wire_def pre_wire enc_wire cursor_simps)

lemma step_wire_opt:
  "(\<And>x. v = Some x \<Longrightarrow> ok x) \<Longrightarrow> step_wire (opt pre v) (opt enc v) (opt_wire wire v)"
  using step_wire_codec
  by (cases v) (simp_all add: step_wire_def opt_def opt_wire_def put_bytes_Nil)

end

lemma Buffer_Some_Nil:
  "Buffer_preencode s (Some []) = Buffer_preencode s None"
  "Buffer_encode s (Some []) = Buffer_encode s None" "Buffer_wire (Some []) = Buffer_wire None"
  by (simp_all add: Buffer_preencode_def Buffer_encode_def Buffer_wire_def)

text \<open>A vector argument, which may be empty.\<close>

lemma step_wire_vector:
  assumes "length v \<le> MAX_BUFFER_DECODE"
  shows "step_wire (\<lambda>s. Buffer_preencode s (Some v)) (\<lambda>s. Buffer_encode s (Some v)) (Buffer_wire (Some v))"
proof (cases "v = []")
  case True
  then show ?thesis
    using Buffer.step_wire_codec [of None] by (simp add: Buffer_Some_Nil Buffer_ok_def)
next
  case False
  then show ?thesis
    using Buffer.step_wire_codec [of "Some v"] assms by (simp add: Buffer_ok_def)
qed

lemma step_wire_opt_vector:
  assumes "\<And>b. v = Some b \<Longrightarrow> length b \<le> MAX_BUFFER_DECODE"
  shows "step_wire (opt (\<lambda>s b. Buffer_preencode s (Some b)) v) (opt (\<lambda>s b. Buffer_encode s (Some b)) v)
           (opt_wire (\<lambda>b. Buffer_wire (Some b)) v)"
  using assms step_wire_vector
  by (cases v) (simp_all add: opt_def opt_wire_def step_wire_def put_bytes_Nil)

section \<open>Decoding\<close>

type_synonym 'r step = "'r \<times> State \<Rightarrow> bool \<times> 'r \<times> State"

definition field :: "(State \<Rightarrow> 'a \<times> State) \<Rightarrow> ('a \<Rightarrow> 'r \<Rightarrow> 'r) \<Rightarrow> 'r step" where
  "field dec upd = (\<lambda>(r, s). case dec s of (x, s') \<Rightarrow> (\<not> st_error s', upd x r, s'))"

text \<open>\<^verbatim>\<open>auto x = Codec::decode(state); if (state.error) return ..;\<close> before the field is assigned.\<close>

definition checked :: "(State \<Rightarrow> 'a \<times> State) \<Rightarrow> ('a \<Rightarrow> 'r \<Rightarrow> 'r) \<Rightarrow> 'r step" where
  "checked dec upd = (\<lambda>(r, s). case dec s of (x, s') \<Rightarrow> if st_error s' then (False, r, s') else (True, upd x r, s'))"

definition assign :: "('r \<Rightarrow> 'r) \<Rightarrow> 'r step" where
  "assign upd = (\<lambda>(r, s). (True, upd r, s))"

definition guarded :: "('r \<Rightarrow> bool) \<Rightarrow> 'r step \<Rightarrow> 'r step" where
  "guarded c f = (\<lambda>x. if c (fst x) then f x else (True, x))"

definition and_then :: "'r step \<Rightarrow> 'r step \<Rightarrow> 'r step" where
  "and_then f g = (\<lambda>x. case f x of (ok, y) \<Rightarrow> if ok then g y else (False, y))"

text \<open>\<^verbatim>\<open>flags_raw = Uint::decode(state); if (state.error || flags_raw > 0xFF) return ..;\<close>\<close>

definition flags_field :: "(u8 \<Rightarrow> 'r \<Rightarrow> 'r) \<Rightarrow> 'r step" where
  "flags_field upd = (\<lambda>(r, s). case Uint_decode s of (x, s') \<Rightarrow>
     if st_error s' \<or> x > 0xFF then (False, r, s') else (True, upd (ucast x) r, s'))"

definition step_safe :: "'r step \<Rightarrow> bool" where
  "step_safe f \<longleftrightarrow> (\<forall>r s. rd_safe s \<longrightarrow> safe_step s (snd (snd (f (r, s)))))"

lemma step_safe_field: "(\<And>s. rd_safe s \<Longrightarrow> safe_step s (snd (dec s))) \<Longrightarrow> step_safe (field dec upd)"
  by (fastforce simp: step_safe_def field_def split: prod.split)

lemma step_safe_checked: "(\<And>s. rd_safe s \<Longrightarrow> safe_step s (snd (dec s))) \<Longrightarrow> step_safe (checked dec upd)"
  by (fastforce simp: step_safe_def checked_def split: prod.split)

lemma step_safe_flags: "step_safe (flags_field upd)"
  using Uint.dec_safe by (fastforce simp: step_safe_def flags_field_def split: prod.split)

lemma step_safe_assign: "step_safe (assign upd)"
  by (simp add: step_safe_def assign_def safe_step_refl)

lemma step_safe_guarded: "step_safe f \<Longrightarrow> step_safe (guarded c f)"
  by (simp add: step_safe_def guarded_def safe_step_refl)

lemma step_safe_and_then:
  assumes "step_safe f" and "step_safe g"
  shows "step_safe (and_then f g)"
  unfolding step_safe_def
proof (intro allI impI)
  fix r s
  assume s: "rd_safe s"
  obtain ok r' s' where f: "f (r, s) = (ok, r', s')"
    using prod_cases3 by blast
  then have s': "safe_step s s'"
    using assms(1) s by (metis snd_conv step_safe_def)
  then have "safe_step s' (snd (snd (g (r', s'))))"
    using assms(2) by (simp add: step_safe_def safe_step_def)
  then show "safe_step s (snd (snd (and_then f g (r, s))))"
    using s' f by (auto simp: and_then_def elim: safe_step_trans)
qed

lemmas step_safes = step_safe_field step_safe_checked step_safe_flags step_safe_assign step_safe_guarded
  step_safe_and_then Uint.dec_safe Uint16.dec_safe Ipv4.dec_safe Fixed32.dec_safe Fixed64.dec_safe
  Buffer.dec_safe Ipv4Array.dec_safe

text \<open>\<open>step_reads f r w r'\<close>: on a cursor at the bytes \<open>w\<close>, the step \<open>f\<close> consumes exactly \<open>w\<close>,
  succeeds, and turns the record \<open>r\<close> into \<open>r'\<close>.\<close>

definition step_reads :: "'r step \<Rightarrow> 'r \<Rightarrow> bytes \<Rightarrow> 'r \<Rightarrow> bool" where
  "step_reads f r w r' \<longleftrightarrow> (\<forall>s t. rd_safe s \<longrightarrow> \<not> st_error s \<longrightarrow> rest s = w @ t \<longrightarrow>
     f (r, s) = (True, r', adv s (length w)))"

lemma step_reads_and_then:
  assumes "step_reads f r w r'" and "step_reads g r' w' r''"
  shows "step_reads (and_then f g) r (w @ w') r''"
  using assms by (simp add: step_reads_def and_then_def cursor_simps)

lemma step_reads_checked: "step_reads (field dec upd) r w r' \<Longrightarrow> step_reads (checked dec upd) r w r'"
  by (fastforce simp: step_reads_def field_def checked_def split: prod.splits)

lemma step_reads_assign: "step_reads (assign upd) r [] (upd r)"
  by (simp add: step_reads_def assign_def)

lemma step_reads_guarded:
  "(c r \<Longrightarrow> step_reads f r w r') \<Longrightarrow> (\<not> c r \<Longrightarrow> w = [] \<and> r' = r) \<Longrightarrow> step_reads (guarded c f) r w r'"
  by (cases "c r") (auto simp: step_reads_def guarded_def)

lemma step_reads_flags: "step_reads (flags_field upd) r (Uint_wire (ucast f)) (upd f r)"
proof -
  have "(ucast f :: u64) \<le> 0xFF"
    using unsigned_less [of f, where 'a = nat]
    by (simp add: word_le_nat_alt unsigned_ucast_eq unsigned_take_bit_eq take_bit_nat_eq_self)
  moreover have "ucast (ucast f :: u64) = f"
    by (rule bit_word_eqI) (simp add: bit_simps)
  ultimately show ?thesis
    by (auto simp: step_reads_def flags_field_def Uint.dec_wire)
qed

lemma step_reads_vector:
  assumes "length v \<le> MAX_BUFFER_DECODE"
  shows "step_reads (field Buffer_decode (\<lambda>b. upd (case b of None \<Rightarrow> [] | Some b \<Rightarrow> b))) r
           (Buffer_wire (Some v)) (upd v r)"
proof (cases "v = []")
  case True
  then show ?thesis
    using Buffer.dec_wire [of None]
    by (auto simp: step_reads_def field_def Buffer_Some_Nil Buffer_ok_def)
next
  case False
  then show ?thesis
    using Buffer.dec_wire [of "Some v"] assms
    by (auto simp: step_reads_def field_def Buffer_ok_def)
qed

context codec
begin

text \<open>Encodings are self-delimiting: an encoding followed by anything determines the value.\<close>

lemma wire_prefix_free:
  assumes "ok v" "ok v'" "wire v @ t = wire v' @ t'" "length (wire v @ t) < 2 ^ 64"
  shows "v = v' \<and> t = t'"
proof -
  let ?s = "for_decode (Some (wire v @ t)) (length (wire v @ t))"
  have s: "rd_safe ?s" "\<not> st_error ?s" "rest ?s = wire v @ t"
    using for_decode_cursor [OF assms(4)] by simp_all
  have "dec ?s = (v, adv ?s (length (wire v)))"
    using dec_wire [OF assms(1) s] .
  moreover have "dec ?s = (v', adv ?s (length (wire v')))"
    using dec_wire [OF assms(2) s(1,2), of t'] s(3) assms(3) by simp
  ultimately show ?thesis
    using assms(3) by simp
qed

lemma step_reads_field: "ok v \<Longrightarrow> step_reads (field dec upd) r (wire v) (upd v r)"
  by (auto simp: step_reads_def field_def dec_wire)

end

lemma step_reads_run:
  assumes "step_reads f r w r'" and "length w < 2 ^ 64"
  shows "f (r, for_decode (Some w) (length w)) = (True, r', adv (for_decode (Some w) (length w)) (length w))"
  using assms for_decode_cursor [OF assms(2)] by (simp add: step_reads_def)

end
