(* ===== verification/Messages.thy ===== *)
theory Messages
  imports Message_Steps
begin

text \<open>
  The dht-rpc envelope (\<^verbatim>\<open>include/hyperdht/messages.hpp\<close>, \<^verbatim>\<open>src/messages.cpp\<close>): requests and
  responses, their encoders and decoders.  \<^verbatim>\<open>Address\<close> wraps one \<^verbatim>\<open>Ipv4Address\<close> and is that address
  here.  The decoders fill a caller's struct: the model takes the struct and returns it updated
  as far as the decoder got, with the Boolean result and the final cursor.
\<close>

section \<open>Constants\<close>

definition REQUEST_ID :: byte where "REQUEST_ID = 0x03"
definition RESPONSE_ID :: byte where "RESPONSE_ID = 0x13"

definition FLAG_HAS_ID :: u8 where "FLAG_HAS_ID = 1"
definition FLAG_HAS_TOKEN :: u8 where "FLAG_HAS_TOKEN = 2"
definition FLAG_INTERNAL :: u8 where "FLAG_INTERNAL = 4"
definition FLAG_HAS_TARGET :: u8 where "FLAG_HAS_TARGET = 8"
definition FLAG_HAS_VALUE :: u8 where "FLAG_HAS_VALUE = 16"

definition RESP_FLAG_HAS_ID :: u8 where "RESP_FLAG_HAS_ID = 1"
definition RESP_FLAG_HAS_TOKEN :: u8 where "RESP_FLAG_HAS_TOKEN = 2"
definition RESP_FLAG_HAS_CLOSER :: u8 where "RESP_FLAG_HAS_CLOSER = 4"
definition RESP_FLAG_HAS_ERROR :: u8 where "RESP_FLAG_HAS_ERROR = 8"
definition RESP_FLAG_HAS_VALUE :: u8 where "RESP_FLAG_HAS_VALUE = 16"

definition CMD_PING :: u32 where "CMD_PING = 0"
definition CMD_PING_NAT :: u32 where "CMD_PING_NAT = 1"
definition CMD_FIND_NODE :: u32 where "CMD_FIND_NODE = 2"
definition CMD_DOWN_HINT :: u32 where "CMD_DOWN_HINT = 3"
definition CMD_DELAYED_PING :: u32 where "CMD_DELAYED_PING = 4"

definition CMD_PEER_HANDSHAKE :: u32 where "CMD_PEER_HANDSHAKE = 0"
definition CMD_PEER_HOLEPUNCH :: u32 where "CMD_PEER_HOLEPUNCH = 1"
definition CMD_FIND_PEER :: u32 where "CMD_FIND_PEER = 2"
definition CMD_LOOKUP :: u32 where "CMD_LOOKUP = 3"
definition CMD_ANNOUNCE :: u32 where "CMD_ANNOUNCE = 4"
definition CMD_UNANNOUNCE :: u32 where "CMD_UNANNOUNCE = 5"
definition CMD_MUTABLE_PUT :: u32 where "CMD_MUTABLE_PUT = 6"
definition CMD_MUTABLE_GET :: u32 where "CMD_MUTABLE_GET = 7"
definition CMD_IMMUTABLE_PUT :: u32 where "CMD_IMMUTABLE_PUT = 8"
definition CMD_IMMUTABLE_GET :: u32 where "CMD_IMMUTABLE_GET = 9"

definition ERR_SEQ_REUSED :: u32 where "ERR_SEQ_REUSED = 16"
definition ERR_SEQ_TOO_LOW :: u32 where "ERR_SEQ_TOO_LOW = 17"

lemmas req_flag_defs = FLAG_HAS_ID_def FLAG_HAS_TOKEN_def FLAG_INTERNAL_def FLAG_HAS_TARGET_def
  FLAG_HAS_VALUE_def
lemmas resp_flag_defs = RESP_FLAG_HAS_ID_def RESP_FLAG_HAS_TOKEN_def RESP_FLAG_HAS_CLOSER_def
  RESP_FLAG_HAS_ERROR_def RESP_FLAG_HAS_VALUE_def

section \<open>Messages\<close>

record Request =
  rq_flags :: u8
  rq_tid :: u16
  rq_to :: Ipv4Address
  rq_from :: Ipv4Address
  rq_id :: "bytes option"
  rq_token :: "bytes option"
  rq_command :: u32
  rq_target :: "bytes option"
  rq_value :: "bytes option"
  rq_internal :: bool
  rq_from_server :: bool

record Response =
  rs_flags :: u8
  rs_tid :: u16
  rs_from :: Ipv4Address
  rs_id :: "bytes option"
  rs_token :: "bytes option"
  rs_closer_nodes :: "Ipv4Address list"
  rs_error :: "u32 option"
  rs_value :: "bytes option"

definition Request_init :: Request where
  "Request_init = \<lparr>rq_flags = 0, rq_tid = 0, rq_to = Ipv4Address_init, rq_from = Ipv4Address_init,
     rq_id = None, rq_token = None, rq_command = 0, rq_target = None, rq_value = None,
     rq_internal = False, rq_from_server = False\<rparr>"

definition Response_init :: Response where
  "Response_init = \<lparr>rs_flags = 0, rs_tid = 0, rs_from = Ipv4Address_init, rs_id = None,
     rs_token = None, rs_closer_nodes = [], rs_error = None, rs_value = None\<rparr>"

section \<open>Encoding\<close>

definition request_flags :: "Request \<Rightarrow> u8" where
  "request_flags req =
     (let flags = 0;
          flags = (if rq_id req \<noteq> None then flags OR FLAG_HAS_ID else flags);
          flags = (if rq_token req \<noteq> None then flags OR FLAG_HAS_TOKEN else flags);
          flags = (if rq_internal req then flags OR FLAG_INTERNAL else flags);
          flags = (if rq_target req \<noteq> None then flags OR FLAG_HAS_TARGET else flags);
          flags = (if rq_value req \<noteq> None then flags OR FLAG_HAS_VALUE else flags)
      in flags)"

definition encode_request :: "Request \<Rightarrow> bytes" where
  "encode_request req =
     (let flags = request_flags req in
      REQUEST_ID # encode_steps
        [\<lambda>s. Uint_preencode s (ucast flags),
         \<lambda>s. Uint16_preencode s (rq_tid req),
         \<lambda>s. Ipv4Addr_preencode s (rq_to req),
         opt Fixed32_preencode (rq_id req),
         opt Fixed32_preencode (rq_token req),
         \<lambda>s. Uint_preencode s (ucast (rq_command req)),
         opt Fixed32_preencode (rq_target req),
         opt (\<lambda>s v. Buffer_preencode s (Some v)) (rq_value req)]
        [\<lambda>s. Uint_encode s (ucast flags),
         \<lambda>s. Uint16_encode s (rq_tid req),
         \<lambda>s. Ipv4Addr_encode s (rq_to req),
         opt Fixed32_encode (rq_id req),
         opt Fixed32_encode (rq_token req),
         \<lambda>s. Uint_encode s (ucast (rq_command req)),
         opt Fixed32_encode (rq_target req),
         opt (\<lambda>s v. Buffer_encode s (Some v)) (rq_value req)])"

definition response_flags :: "Response \<Rightarrow> u8" where
  "response_flags resp =
     (let flags = 0;
          flags = (if rs_id resp \<noteq> None then flags OR RESP_FLAG_HAS_ID else flags);
          flags = (if rs_token resp \<noteq> None then flags OR RESP_FLAG_HAS_TOKEN else flags);
          flags = (if rs_closer_nodes resp \<noteq> [] then flags OR RESP_FLAG_HAS_CLOSER else flags);
          flags = (if rs_error resp \<noteq> None then flags OR RESP_FLAG_HAS_ERROR else flags);
          flags = (if rs_value resp \<noteq> None then flags OR RESP_FLAG_HAS_VALUE else flags)
      in flags)"

definition nonempty :: "'a list \<Rightarrow> 'a list option" where
  "nonempty xs = (if xs \<noteq> [] then Some xs else None)"

definition encode_response :: "Response \<Rightarrow> bytes" where
  "encode_response resp =
     (let flags = response_flags resp in
      RESPONSE_ID # encode_steps
        [\<lambda>s. Uint_preencode s (ucast flags),
         \<lambda>s. Uint16_preencode s (rs_tid resp),
         \<lambda>s. Ipv4Addr_preencode s (rs_from resp),
         opt Fixed32_preencode (rs_id resp),
         opt Fixed32_preencode (rs_token resp),
         opt (Array_preencode Ipv4Addr_preencode) (nonempty (rs_closer_nodes resp)),
         opt (\<lambda>s e. Uint_preencode s (ucast e)) (rs_error resp),
         opt (\<lambda>s v. Buffer_preencode s (Some v)) (rs_value resp)]
        [\<lambda>s. Uint_encode s (ucast flags),
         \<lambda>s. Uint16_encode s (rs_tid resp),
         \<lambda>s. Ipv4Addr_encode s (rs_from resp),
         opt Fixed32_encode (rs_id resp),
         opt Fixed32_encode (rs_token resp),
         opt (Array_encode Ipv4Addr_encode) (nonempty (rs_closer_nodes resp)),
         opt (\<lambda>s e. Uint_encode s (ucast e)) (rs_error resp),
         opt (\<lambda>s v. Buffer_encode s (Some v)) (rs_value resp)])"

section \<open>Decoding\<close>

definition has_flag :: "u8 \<Rightarrow> u8 \<Rightarrow> bool" where
  "has_flag flags f \<longleftrightarrow> flags AND f \<noteq> 0"

definition vector_of :: "bytes option \<Rightarrow> bytes" where
  "vector_of b = (case b of None \<Rightarrow> [] | Some bs \<Rightarrow> bs)"

definition request_steps :: "Request step" where
  "request_steps =
     and_then (flags_field (\<lambda>f r. r\<lparr>rq_flags := f\<rparr>))
    (and_then (field Uint16_decode (\<lambda>x r. r\<lparr>rq_tid := x\<rparr>))
    (and_then (field Ipv4Addr_decode (\<lambda>x r. r\<lparr>rq_to := x\<rparr>))
    (and_then (guarded (\<lambda>r. has_flag (rq_flags r) FLAG_HAS_ID)
                 (field Fixed32_decode (\<lambda>x r. r\<lparr>rq_id := Some x\<rparr>)))
    (and_then (guarded (\<lambda>r. has_flag (rq_flags r) FLAG_HAS_TOKEN)
                 (field Fixed32_decode (\<lambda>x r. r\<lparr>rq_token := Some x\<rparr>)))
    (and_then (assign (\<lambda>r. r\<lparr>rq_internal := has_flag (rq_flags r) FLAG_INTERNAL\<rparr>))
    (and_then (field Uint_decode (\<lambda>x r. r\<lparr>rq_command := ucast x\<rparr>))
    (and_then (guarded (\<lambda>r. has_flag (rq_flags r) FLAG_HAS_TARGET)
                 (field Fixed32_decode (\<lambda>x r. r\<lparr>rq_target := Some x\<rparr>)))
              (guarded (\<lambda>r. has_flag (rq_flags r) FLAG_HAS_VALUE)
                 (checked Buffer_decode (\<lambda>x r. r\<lparr>rq_value := Some (vector_of x)\<rparr>))))))))))"

definition decode_request :: "bytes \<Rightarrow> Request \<Rightarrow> bool \<times> Request \<times> State" where
  "decode_request data req = request_steps (req, for_decode (Some data) (length data))"

definition response_steps :: "Response step" where
  "response_steps =
     and_then (flags_field (\<lambda>f r. r\<lparr>rs_flags := f\<rparr>))
    (and_then (field Uint16_decode (\<lambda>x r. r\<lparr>rs_tid := x\<rparr>))
    (and_then (field Ipv4Addr_decode (\<lambda>x r. r\<lparr>rs_from := x\<rparr>))
    (and_then (guarded (\<lambda>r. has_flag (rs_flags r) RESP_FLAG_HAS_ID)
                 (field Fixed32_decode (\<lambda>x r. r\<lparr>rs_id := Some x\<rparr>)))
    (and_then (guarded (\<lambda>r. has_flag (rs_flags r) RESP_FLAG_HAS_TOKEN)
                 (field Fixed32_decode (\<lambda>x r. r\<lparr>rs_token := Some x\<rparr>)))
    (and_then (guarded (\<lambda>r. has_flag (rs_flags r) RESP_FLAG_HAS_CLOSER)
                 (field (Array_decode Ipv4Addr_decode) (\<lambda>x r. r\<lparr>rs_closer_nodes := x\<rparr>)))
    (and_then (guarded (\<lambda>r. has_flag (rs_flags r) RESP_FLAG_HAS_ERROR)
                 (field Uint_decode (\<lambda>x r. r\<lparr>rs_error := Some (ucast x)\<rparr>)))
              (guarded (\<lambda>r. has_flag (rs_flags r) RESP_FLAG_HAS_VALUE)
                 (checked Buffer_decode (\<lambda>x r. r\<lparr>rs_value := Some (vector_of x)\<rparr>)))))))))"

definition decode_response :: "bytes \<Rightarrow> Response \<Rightarrow> bool \<times> Response \<times> State" where
  "decode_response data resp = response_steps (resp, for_decode (Some data) (length data))"

definition decode_message :: "bytes \<Rightarrow> Request \<Rightarrow> Response \<Rightarrow> byte \<times> Request \<times> Response" where
  "decode_message data req resp =
     (if length data < 2 then (0, req, resp) else
      let type = data ! 0 in
      if type = REQUEST_ID then
        (case decode_request (drop 1 data) req of
           (ok, req', _) \<Rightarrow> ((if ok then REQUEST_ID else 0), req', resp))
      else if type = RESPONSE_ID then
        (case decode_response (drop 1 data) resp of
           (ok, resp', _) \<Rightarrow> ((if ok then RESPONSE_ID else 0), req, resp'))
      else (0, req, resp))"

section \<open>Well-formed messages and their wire format\<close>

definition opt_all :: "('a \<Rightarrow> bool) \<Rightarrow> 'a option \<Rightarrow> bool" where
  "opt_all P v \<longleftrightarrow> (case v of None \<Rightarrow> True | Some x \<Rightarrow> P x)"

text \<open>What the C++ types guarantee (array lengths), and the decoder's size caps.\<close>

definition Request_ok :: "Request \<Rightarrow> bool" where
  "Request_ok r \<longleftrightarrow> length (ip_host (rq_to r)) = 4 \<and> opt_all (\<lambda>x. length x = 32) (rq_id r) \<and>
     opt_all (\<lambda>x. length x = 32) (rq_token r) \<and> opt_all (\<lambda>x. length x = 32) (rq_target r) \<and>
     opt_all (\<lambda>x. length x \<le> 65536) (rq_value r)"

definition Response_ok :: "Response \<Rightarrow> bool" where
  "Response_ok r \<longleftrightarrow> length (ip_host (rs_from r)) = 4 \<and> opt_all (\<lambda>x. length x = 32) (rs_id r) \<and>
     opt_all (\<lambda>x. length x = 32) (rs_token r) \<and> length (rs_closer_nodes r) \<le> 4096 \<and>
     list_all (\<lambda>a. length (ip_host a) = 4) (rs_closer_nodes r) \<and>
     opt_all (\<lambda>x. length x \<le> 65536) (rs_value r)"

definition request_wires :: "Request \<Rightarrow> bytes list" where
  "request_wires r =
     [Uint_wire (ucast (request_flags r)), write_le16 (rq_tid r), Ipv4Addr_wire (rq_to r),
      opt_wire (\<lambda>v. v) (rq_id r), opt_wire (\<lambda>v. v) (rq_token r), Uint_wire (ucast (rq_command r)),
      opt_wire (\<lambda>v. v) (rq_target r), opt_wire (\<lambda>b. Buffer_wire (Some b)) (rq_value r)]"

definition response_wires :: "Response \<Rightarrow> bytes list" where
  "response_wires r =
     [Uint_wire (ucast (response_flags r)), write_le16 (rs_tid r), Ipv4Addr_wire (rs_from r),
      opt_wire (\<lambda>v. v) (rs_id r), opt_wire (\<lambda>v. v) (rs_token r),
      opt_wire (Array_wire Ipv4Addr_wire) (nonempty (rs_closer_nodes r)),
      opt_wire (\<lambda>e. Uint_wire (ucast e)) (rs_error r),
      opt_wire (\<lambda>b. Buffer_wire (Some b)) (rs_value r)]"

lemma request_flags_bits:
  "has_flag (request_flags r) FLAG_HAS_ID \<longleftrightarrow> rq_id r \<noteq> None"
  "has_flag (request_flags r) FLAG_HAS_TOKEN \<longleftrightarrow> rq_token r \<noteq> None"
  "has_flag (request_flags r) FLAG_INTERNAL \<longleftrightarrow> rq_internal r"
  "has_flag (request_flags r) FLAG_HAS_TARGET \<longleftrightarrow> rq_target r \<noteq> None"
  "has_flag (request_flags r) FLAG_HAS_VALUE \<longleftrightarrow> rq_value r \<noteq> None"
  by (simp_all add: has_flag_def request_flags_def req_flag_defs Let_def)

lemma response_flags_bits:
  "has_flag (response_flags r) RESP_FLAG_HAS_ID \<longleftrightarrow> rs_id r \<noteq> None"
  "has_flag (response_flags r) RESP_FLAG_HAS_TOKEN \<longleftrightarrow> rs_token r \<noteq> None"
  "has_flag (response_flags r) RESP_FLAG_HAS_CLOSER \<longleftrightarrow> rs_closer_nodes r \<noteq> []"
  "has_flag (response_flags r) RESP_FLAG_HAS_ERROR \<longleftrightarrow> rs_error r \<noteq> None"
  "has_flag (response_flags r) RESP_FLAG_HAS_VALUE \<longleftrightarrow> rs_value r \<noteq> None"
  by (simp_all add: has_flag_def response_flags_def resp_flag_defs Let_def)

lemma length_Uint_wire: "length (Uint_wire v) \<le> 9"
  by (simp add: Uint_wire_def)

lemma Uint_wire_Cons: "\<exists>b bs. Uint_wire v = b # bs"
  by (simp add: Uint_wire_def)

lemma length_Buffer_wire: "length (Buffer_wire (Some b)) \<le> 9 + length b"
  using length_Uint_wire [of "of_nat (length b)"] by (simp add: Buffer_wire_def)

lemma length_opt_wire: "opt_all (\<lambda>x. length (w x) \<le> n) v \<Longrightarrow> length (opt_wire w v) \<le> n"
  by (cases v) (simp_all add: opt_wire_def opt_all_def)

section \<open>Whole messages\<close>

lemma opt_all_Some: "opt_all P v \<Longrightarrow> v = Some x \<Longrightarrow> P x"
  by (simp add: opt_all_def)

lemma length_Ipv4Array_wire:
  assumes "length xs \<le> 4096" and "list_all (\<lambda>a. length (ip_host a) = 4) xs"
  shows "length (Array_wire Ipv4Addr_wire xs) \<le> 9 + 6 * 4096"
proof -
  have "length (concat (map Ipv4Addr_wire xs)) = 6 * length xs"
    using assms(2) by (induction xs) (simp_all add: Ipv4Addr_wire_def)
  then show ?thesis
    using assms(1) length_Uint_wire [of "of_nat (length xs)"] by (simp add: Array_wire_def)
qed

lemma length_opt_id: "opt_all (\<lambda>x. length x = 32) v \<Longrightarrow> length (opt_wire (\<lambda>v. v) v) \<le> 32"
  by (rule length_opt_wire) (auto simp: opt_all_def split: option.splits)

lemma length_opt_vector:
  "opt_all (\<lambda>x. length x \<le> 65536) v \<Longrightarrow> length (opt_wire (\<lambda>b. Buffer_wire (Some b)) v) \<le> 9 + 65536"
  by (rule length_opt_wire)
    (auto simp: opt_all_def split: option.splits intro: order_trans [OF length_Buffer_wire])

lemma length_request_wires:
  assumes "Request_ok r"
  shows "length (concat (request_wires r)) < 2 ^ 64"
proof -
  have "length (opt_wire (\<lambda>v. v) (rq_id r)) \<le> 32" "length (opt_wire (\<lambda>v. v) (rq_token r)) \<le> 32"
      "length (opt_wire (\<lambda>v. v) (rq_target r)) \<le> 32"
      "length (opt_wire (\<lambda>b. Buffer_wire (Some b)) (rq_value r)) \<le> 65545"
    using assms length_opt_id length_opt_vector by (auto simp: Request_ok_def)
  moreover have "length (Ipv4Addr_wire (rq_to r)) = 6"
    using assms by (simp add: Request_ok_def Ipv4Addr_wire_def)
  ultimately show ?thesis
    using length_Uint_wire [of "ucast (request_flags r)"] length_Uint_wire [of "ucast (rq_command r)"]
    by (simp add: request_wires_def)
qed

lemma length_response_wires:
  assumes "Response_ok r"
  shows "length (concat (response_wires r)) < 2 ^ 64"
proof -
  have "length (opt_wire (\<lambda>v. v) (rs_id r)) \<le> 32" "length (opt_wire (\<lambda>v. v) (rs_token r)) \<le> 32"
      "length (opt_wire (\<lambda>b. Buffer_wire (Some b)) (rs_value r)) \<le> 65545"
    using assms length_opt_id length_opt_vector by (auto simp: Response_ok_def)
  moreover have "length (opt_wire (\<lambda>e. Uint_wire (ucast e)) (rs_error r)) \<le> 9"
    by (rule length_opt_wire) (simp add: opt_all_def length_Uint_wire split: option.split)
  moreover have "length (opt_wire (Array_wire Ipv4Addr_wire) (nonempty (rs_closer_nodes r))) \<le> 9 + 6 * 4096"
    using assms length_Ipv4Array_wire
    by (intro length_opt_wire) (simp add: opt_all_def nonempty_def Response_ok_def)
  moreover have "length (Ipv4Addr_wire (rs_from r)) = 6"
    using assms by (simp add: Response_ok_def Ipv4Addr_wire_def)
  ultimately show ?thesis
    using length_Uint_wire [of "ucast (response_flags r)"] by (simp add: response_wires_def)
qed

lemma step_wire_error:
  "step_wire (opt (\<lambda>s e. Uint_preencode s (ucast e)) v) (opt (\<lambda>s e. Uint_encode s (ucast e)) v)
     (opt_wire (\<lambda>e :: u32. Uint_wire (ucast e)) v)"
  using Uint.step_wire_codec
  by (cases v) (simp_all add: opt_def opt_wire_def step_wire_def put_bytes_Nil)

lemmas step_wires = Uint.step_wire_codec Uint16.step_wire_codec Ipv4.step_wire_codec
  Fixed32.step_wire_codec Fixed64.step_wire_codec Fixed32.step_wire_opt Fixed64.step_wire_opt
  Ipv4Array.step_wire_codec Ipv4Array.step_wire_opt step_wire_opt_vector step_wire_vector
  step_wire_error

lemma encode_request_wire:
  assumes "Request_ok r"
  shows "encode_request r = REQUEST_ID # concat (request_wires r)"
proof -
  note a = assms [unfolded Request_ok_def]
  show ?thesis
    unfolding encode_request_def Let_def
    by (rule arg_cong [where f = "(#) REQUEST_ID"],
        rule encode_steps_wire [OF _ _ length_request_wires [OF assms]])
      (use a in \<open>auto simp: request_wires_def Ipv4_ok_def MAX_BUFFER_DECODE_def
         intro!: step_wires dest: opt_all_Some\<close>)
qed

lemma encode_response_wire:
  assumes "Response_ok r"
  shows "encode_response r = RESPONSE_ID # concat (response_wires r)"
proof -
  note a = assms [unfolded Response_ok_def]
  show ?thesis
    unfolding encode_response_def Let_def
    by (rule arg_cong [where f = "(#) RESPONSE_ID"],
        rule encode_steps_wire [OF _ _ length_response_wires [OF assms]])
      (use a in \<open>auto simp: response_wires_def Ipv4_ok_def Array_ok_def MAX_BUFFER_DECODE_def
         ARRAY_MAX_LENGTH_def nonempty_def list_all_iff intro!: step_wires
         dest: opt_all_Some split: if_splits\<close>)
qed

text \<open>What a decoder makes of the encoding of a message: the message itself, with the flags byte
  computed by the encoder and the transport-layer fields as the caller left them.\<close>

definition request_received :: "Request \<Rightarrow> Request" where
  "request_received r = r\<lparr>rq_flags := request_flags r, rq_from := Ipv4Address_init, rq_from_server := False\<rparr>"

definition response_received :: "Response \<Rightarrow> Response" where
  "response_received r = r\<lparr>rs_flags := response_flags r\<rparr>"

lemma step_reads_opt:
  assumes "c r0 \<longleftrightarrow> v \<noteq> None" and "\<And>x. v = Some x \<Longrightarrow> step_reads f r0 (w x) r1"
    and "v = None \<Longrightarrow> r1 = r0"
  shows "step_reads (guarded c f) r0 (opt_wire w v) r1"
  using assms by (cases v) (auto simp: opt_wire_def intro!: step_reads_guarded)

lemma step_reads_opt_id:
  assumes "c r0 \<longleftrightarrow> v \<noteq> None" and "opt_all (\<lambda>x. length x = 32) v" and "\<And>x. v = Some x \<Longrightarrow> r1 = upd x r0"
    and "v = None \<Longrightarrow> r1 = r0"
  shows "step_reads (guarded c (field Fixed32_decode upd)) r0 (opt_wire (\<lambda>v. v) v) r1"
  using assms by (intro step_reads_opt) (auto simp: opt_all_def intro!: Fixed32.step_reads_field)

lemma step_reads_opt_vector:
  assumes "c r0 \<longleftrightarrow> v \<noteq> None" and "opt_all (\<lambda>x. length x \<le> 65536) v" and "\<And>x. v = Some x \<Longrightarrow> r1 = upd x r0"
    and "v = None \<Longrightarrow> r1 = r0"
  shows "step_reads (guarded c (field Buffer_decode (\<lambda>x. upd (vector_of x)))) r0
           (opt_wire (\<lambda>b. Buffer_wire (Some b)) v) r1"
  using assms step_reads_vector [of _ upd]
  by (intro step_reads_opt) (auto simp: opt_all_def vector_of_def MAX_BUFFER_DECODE_def)

lemma step_reads_checked_vector:
  assumes "c r0 \<longleftrightarrow> v \<noteq> None" and "opt_all (\<lambda>x. length x \<le> 65536) v" and "\<And>x. v = Some x \<Longrightarrow> r1 = upd x r0"
    and "v = None \<Longrightarrow> r1 = r0"
  shows "step_reads (guarded c (checked Buffer_decode (\<lambda>x. upd (vector_of x)))) r0
           (opt_wire (\<lambda>b. Buffer_wire (Some b)) v) r1"
  using assms step_reads_checked [OF step_reads_vector [of _ upd]]
  by (intro step_reads_opt) (auto simp: opt_all_def vector_of_def MAX_BUFFER_DECODE_def)

lemma ucast_u32_u64: "ucast (ucast (c :: u32) :: u64) = c"
  by (rule bit_word_eqI) (simp add: bit_simps)

lemma step_reads_command:
  "step_reads (field Uint_decode (\<lambda>x. upd (ucast x))) r (Uint_wire (ucast c)) (upd (c :: u32) r)"
  using Uint.step_reads_field [where v = "ucast c" and upd = "\<lambda>x. upd (ucast x)"]
  by (simp add: ucast_u32_u64)

lemmas step_reads_fields = step_reads_flags Uint16.step_reads_field [OF TrueI] step_reads_command
  step_reads_assign Ipv4.step_reads_field

lemma request_steps_read:
  assumes "Request_ok r"
  shows "step_reads request_steps Request_init (concat (request_wires r)) (request_received r)"
proof -
  note a = assms [unfolded Request_ok_def] and fl = request_flags_bits [of r]
  let ?r0 = "Request_init\<lparr>rq_flags := request_flags r\<rparr>"
  let ?r1 = "?r0\<lparr>rq_tid := rq_tid r\<rparr>"
  let ?r2 = "?r1\<lparr>rq_to := rq_to r\<rparr>"
  let ?r3 = "?r2\<lparr>rq_id := rq_id r\<rparr>"
  let ?r4 = "?r3\<lparr>rq_token := rq_token r\<rparr>"
  let ?r5 = "?r4\<lparr>rq_internal := has_flag (rq_flags ?r4) FLAG_INTERNAL\<rparr>"
  let ?r6 = "?r5\<lparr>rq_command := rq_command r\<rparr>"
  let ?r7 = "?r6\<lparr>rq_target := rq_target r\<rparr>"
  have final: "request_received r = ?r7\<lparr>rq_value := rq_value r\<rparr>"
    using fl by (cases r) (simp add: request_received_def Request_init_def)
  have "step_reads request_steps Request_init (concat (request_wires r)) (?r7\<lparr>rq_value := rq_value r\<rparr>)"
    unfolding request_steps_def request_wires_def concat.simps append_Nil2
    apply (rule step_reads_and_then [OF step_reads_flags])
    apply (rule step_reads_and_then [OF Uint16.step_reads_field [OF TrueI]])
    apply (rule step_reads_and_then [OF Ipv4.step_reads_field], simp add: a Ipv4_ok_def)
    apply (rule step_reads_and_then [where r' = ?r3], (rule step_reads_opt_id; simp add: fl a Request_init_def))
    apply (rule step_reads_and_then [where r' = ?r4], (rule step_reads_opt_id; simp add: fl a Request_init_def))
    apply (rule step_reads_and_then [OF step_reads_assign, simplified])
    apply (rule step_reads_and_then [OF step_reads_command [where upd = "\<lambda>x r. r\<lparr>rq_command := x\<rparr>"]])
    apply (rule step_reads_and_then [where r' = ?r7], (rule step_reads_opt_id; simp add: fl a Request_init_def))
    by (rule step_reads_checked_vector [where upd = "\<lambda>x r. r\<lparr>rq_value := Some x\<rparr>"];
        simp add: fl a Request_init_def)
  then show ?thesis by (simp only: final)
qed

lemma response_steps_read:
  assumes "Response_ok r"
  shows "step_reads response_steps Response_init (concat (response_wires r)) (response_received r)"
proof -
  note a = assms [unfolded Response_ok_def] and fl = response_flags_bits [of r]
  let ?r2 = "Response_init\<lparr>rs_flags := response_flags r, rs_tid := rs_tid r, rs_from := rs_from r\<rparr>"
  let ?r3 = "?r2\<lparr>rs_id := rs_id r\<rparr>"
  let ?r4 = "?r3\<lparr>rs_token := rs_token r\<rparr>"
  let ?r5 = "?r4\<lparr>rs_closer_nodes := rs_closer_nodes r\<rparr>"
  let ?r6 = "?r5\<lparr>rs_error := rs_error r\<rparr>"
  have nodes: "step_reads (field (Array_decode Ipv4Addr_decode) (\<lambda>x r. r\<lparr>rs_closer_nodes := x\<rparr>)) r0
      (Array_wire Ipv4Addr_wire (rs_closer_nodes r)) (r0\<lparr>rs_closer_nodes := rs_closer_nodes r\<rparr>)" for r0 :: Response
    using a by (intro Ipv4Array.step_reads_field)
      (simp add: Array_ok_def ARRAY_MAX_LENGTH_def Ipv4_ok_def list_all_iff)
  have final: "response_received r = ?r6\<lparr>rs_value := rs_value r\<rparr>"
    by (cases r) (simp add: response_received_def Response_init_def)
  have "step_reads response_steps Response_init (concat (response_wires r)) (?r6\<lparr>rs_value := rs_value r\<rparr>)"
    unfolding response_steps_def response_wires_def concat.simps append_Nil2
    apply (rule step_reads_and_then [OF step_reads_flags])
    apply (rule step_reads_and_then [OF Uint16.step_reads_field [OF TrueI]])
    apply (rule step_reads_and_then [OF Ipv4.step_reads_field], simp add: a Ipv4_ok_def)
    apply (rule step_reads_and_then [where r' = ?r3], (rule step_reads_opt_id; simp add: fl a Response_init_def))
    apply (rule step_reads_and_then [where r' = ?r4], (rule step_reads_opt_id; simp add: fl a Response_init_def))
    apply (rule step_reads_and_then [where r' = ?r5], rule step_reads_opt)
       apply (simp add: fl nonempty_def Response_init_def)
      apply (use nodes in \<open>simp add: nonempty_def split: if_splits\<close>)
     apply (simp add: nonempty_def Response_init_def split: if_splits)
    apply (rule step_reads_and_then [where r' = ?r6], rule step_reads_opt)
       apply (simp add: fl Response_init_def)
      apply (simp only:, rule step_reads_command [where upd = "\<lambda>x r. r\<lparr>rs_error := Some x\<rparr>"])
     apply (simp add: Response_init_def)
    by (rule step_reads_checked_vector [where upd = "\<lambda>x r. r\<lparr>rs_value := Some x\<rparr>"];
        simp add: fl a Response_init_def)
  then show ?thesis by (simp only: final)
qed

lemma decode_encoded_request:
  assumes "Request_ok r"
  shows "decode_message (encode_request r) Request_init resp = (REQUEST_ID, request_received r, resp)"
proof -
  have "decode_request (concat (request_wires r)) Request_init =
      (True, request_received r, adv (for_decode (Some (concat (request_wires r)))
         (length (concat (request_wires r)))) (length (concat (request_wires r))))"
    unfolding decode_request_def
    using request_steps_read [OF assms] length_request_wires [OF assms] by (rule step_reads_run)
  moreover obtain b bs where "concat (request_wires r) = b # bs"
    using Uint_wire_Cons by (metis append_Cons concat.simps(2) request_wires_def)
  ultimately show ?thesis
    by (simp add: decode_message_def encode_request_wire [OF assms] Suc_le_eq)
qed

lemma decode_encoded_response:
  assumes "Response_ok r"
  shows "decode_message (encode_response r) req Response_init = (RESPONSE_ID, req, response_received r)"
proof -
  have "decode_response (concat (response_wires r)) Response_init =
      (True, response_received r, adv (for_decode (Some (concat (response_wires r)))
         (length (concat (response_wires r)))) (length (concat (response_wires r))))"
    unfolding decode_response_def
    using response_steps_read [OF assms] length_response_wires [OF assms] by (rule step_reads_run)
  moreover obtain b bs where "concat (response_wires r) = b # bs"
    using Uint_wire_Cons by (metis append_Cons concat.simps(2) response_wires_def)
  ultimately show ?thesis
    by (simp add: decode_message_def encode_response_wire [OF assms] Suc_le_eq
        REQUEST_ID_def RESPONSE_ID_def)
qed

section \<open>Properties\<close>

text \<open>C37. Every well-formed request that is encoded and then received by \<^verbatim>\<open>decode_message\<close> comes out
  as the same request: same transaction id, addresses, optional fields, command and internal
  flag.\<close>

theorem request_roundtrip:
  assumes "Request_ok r"
  shows "decode_message (encode_request r) Request_init resp = (REQUEST_ID, request_received r, resp)"
  by (rule decode_encoded_request [OF assms])

text \<open>The same for responses, including closer-node lists of up to 4096 addresses.\<close>

lemma response_roundtrip:
  assumes "Response_ok r"
  shows "decode_message (encode_response r) req Response_init = (RESPONSE_ID, req, response_received r)"
  by (rule decode_encoded_response [OF assms])

text \<open>C38. Decoding is memory safe on every datagram: whatever bytes arrive and whatever the caller's
  structs held, neither decoder reads outside the input, and the cursor stays inside it.\<close>

theorem decode_memory_safe:
  assumes "length data < 2 ^ 64"
  shows "\<not> st_fault (snd (snd (decode_request data req))) \<and>
         \<not> st_fault (snd (snd (decode_response data resp))) \<and>
         st_start (snd (snd (decode_request data req))) \<le> length data \<and>
         st_start (snd (snd (decode_response data resp))) \<le> length data"
proof -
  have "step_safe request_steps" "step_safe response_steps"
    unfolding request_steps_def response_steps_def by (intro step_safes; assumption)+
  then have "safe_step (for_decode (Some data) (length data)) (snd (snd (decode_request data req)))"
      "safe_step (for_decode (Some data) (length data)) (snd (snd (decode_response data resp)))"
    using rd_safe_for_decode [OF assms] by (simp_all add: step_safe_def decode_request_def decode_response_def)
  then show ?thesis
    by (simp add: safe_step_def rd_safe_def)
qed

text \<open>The command of a request is a 64-bit varint cut down to 32 bits without a range check, so
  a request that carries \<open>2 ^ 32 + c\<close> is accepted as command \<open>c\<close>.\<close>

lemma command_truncated:
  "let data = Uint_wire 0 @ write_le16 7 @ [1, 2, 3, 4] @ write_le16 80 @ Uint_wire (0x100000000 + 9)
   in fst (decode_request data Request_init) \<and>
      rq_command (fst (snd (decode_request data Request_init))) = CMD_IMMUTABLE_GET"
  by code_simp

theorem request_roundtrip_witness:
  "let r = Request_init\<lparr>rq_tid := 42, rq_target := Some (replicate 32 9), rq_command := 3,
             rq_value := Some [], rq_internal := True\<rparr>
   in decode_message (encode_request r) Request_init Response_init =
        (REQUEST_ID, request_received r, Response_init)"
  using request_roundtrip [of "Request_init\<lparr>rq_tid := 42, rq_target := Some (replicate 32 9),
      rq_command := 3, rq_value := Some [], rq_internal := True\<rparr>" Response_init]
  by (simp add: Request_ok_def Request_init_def Ipv4Address_init_def opt_all_def Let_def)

theorem decode_memory_safe_witness:
  "\<not> st_fault (snd (snd (decode_response [4, 0, 0, 1, 2, 3, 4, 0, 0, 0xFD, 0xFF, 0xFF] Response_init)))"
  using decode_memory_safe [of "[4, 0, 0, 1, 2, 3, 4, 0, 0, 0xFD, 0xFF, 0xFF]"] by simp

end
