(* ===== verification/Tokens.thy ===== *)
theory Tokens
  imports Prelude
begin

text \<open>
  Address tokens (\<^verbatim>\<open>include/hyperdht/tokens.hpp\<close>, \<^verbatim>\<open>src/tokens.cpp\<close>).  A node hands a token to a peer and
  later takes it as proof that the peer receives traffic at its address.  BLAKE2b comes from libsodium:
  \<open>keyed message key\<close> and \<open>plain message\<close> stand for the keyed and the unkeyed
  \<^verbatim>\<open>crypto_generichash\<close>, and what is needed of them is a hypothesis on the inputs in play.
\<close>

section \<open>The token store\<close>

type_synonym Token = bytes
type_synonym Secret = bytes
type_synonym keyed_hash = "bytes \<Rightarrow> bytes \<Rightarrow> bytes"
type_synonym plain_hash = "bytes \<Rightarrow> bytes"

text \<open>The documented output length of the 32-byte BLAKE2b of libsodium.\<close>

definition hash32 :: "plain_hash \<Rightarrow> bool" where
  "hash32 plain \<longleftrightarrow> (\<forall>m. length (plain m) = 32)"

definition TOKEN_LEN :: nat where "TOKEN_LEN = 32"
definition SECRET_LEN :: nat where "SECRET_LEN = 32"

definition str_bytes :: "string \<Rightarrow> bytes" where
  "str_bytes s = map of_char s"

definition generate_token :: "keyed_hash \<Rightarrow> string \<Rightarrow> Secret \<Rightarrow> Token" where
  "generate_token keyed host secret = keyed (str_bytes host) secret"

record TokenStore =
  ts_current :: Secret
  ts_previous :: Secret

definition TokenStore_new :: "Secret \<Rightarrow> Secret \<Rightarrow> TokenStore" where
  "TokenStore_new random1 random2 = \<lparr>ts_current = random1, ts_previous = random2\<rparr>"

definition TokenStore_rotate :: "plain_hash \<Rightarrow> TokenStore \<Rightarrow> TokenStore" where
  "TokenStore_rotate plain s =
     (let s1 = s\<lparr>ts_current := ts_previous s, ts_previous := ts_current s\<rparr>;
          temp = plain (ts_current s1)
      in s1\<lparr>ts_current := temp\<rparr>)"

definition TokenStore_create :: "keyed_hash \<Rightarrow> TokenStore \<Rightarrow> string \<Rightarrow> Token" where
  "TokenStore_create keyed s host = generate_token keyed host (ts_current s)"

definition TokenStore_validate :: "keyed_hash \<Rightarrow> TokenStore \<Rightarrow> string \<Rightarrow> Token \<Rightarrow> bool" where
  "TokenStore_validate keyed s host token =
     (if token = generate_token keyed host (ts_current s) then True
      else token = generate_token keyed host (ts_previous s))"

section \<open>Rotation\<close>

definition rotations :: "plain_hash \<Rightarrow> nat \<Rightarrow> TokenStore \<Rightarrow> TokenStore" where
  "rotations plain n = (TokenStore_rotate plain ^^ n)"

lemma rotations_simps [simp]:
  "rotations plain 0 s = s"
  "rotations plain (Suc n) s = TokenStore_rotate plain (rotations plain n s)"
  by (simp_all add: rotations_def)

lemma rotate_simps [simp]:
  "ts_current (TokenStore_rotate plain s) = plain (ts_previous s)"
  "ts_previous (TokenStore_rotate plain s) = ts_current s"
  by (simp_all add: TokenStore_rotate_def Let_def)

lemma str_bytes_inject: "str_bytes a = str_bytes b \<longleftrightarrow> a = b"
proof -
  have "inj (of_char :: char \<Rightarrow> u8)"
  proof (rule injI)
    fix c d :: char
    assume "(of_char c :: u8) = of_char d"
    then have "unat (of_nat (of_char c) :: u8) = unat (of_nat (of_char d) :: u8)"
      by (simp only: of_nat_of_char)
    then have "(of_char c :: nat) mod 256 = of_char d mod 256"
      unfolding unat_of_nat by simp
    then show "c = d"
      using nat_of_char_less_256 [of c] nat_of_char_less_256 [of d] by simp
  qed
  then show ?thesis
    by (simp add: str_bytes_def inj_map_eq_map)
qed

text \<open>\<open>no_collision keyed hosts secrets\<close>: the keyed hash separates the hosts and secrets in play.\<close>

definition no_collision :: "keyed_hash \<Rightarrow> string set \<Rightarrow> Secret set \<Rightarrow> bool" where
  "no_collision keyed hosts secrets \<longleftrightarrow>
     inj_on (\<lambda>(h, k). keyed (str_bytes h) k) (hosts \<times> secrets)"

lemma validate_iff:
  assumes "no_collision keyed {h, host} {k, ts_current s, ts_previous s}"
  shows "TokenStore_validate keyed s host (generate_token keyed h k) \<longleftrightarrow>
    h = host \<and> (k = ts_current s \<or> k = ts_previous s)"
proof -
  have "keyed (str_bytes h) k = keyed (str_bytes host) k' \<longleftrightarrow> h = host \<and> k = k'"
    if "k' \<in> {ts_current s, ts_previous s}" for k'
    using inj_on_eq_iff [OF assms [unfolded no_collision_def], of "(h, k)" "(host, k')"] that by auto
  then show ?thesis
    by (auto simp: TokenStore_validate_def generate_token_def)
qed

text \<open>C39. A token is accepted for its host when it is made and after one rotation of the secrets.  From then
  on, and for any other host at any time, it is refused, as long as the secrets in use do not repeat and
  the hash does not collide on them.\<close>

theorem token_window:
  assumes "no_collision keyed {host, host'} (insert (ts_current s) (ts_current ` (\<lambda>i. rotations plain i s) ` {..n}) \<union> {ts_previous s})"
    and "\<forall>i \<in> {1..n}. ts_current (rotations plain i s) \<noteq> ts_current s" and "ts_previous s \<noteq> ts_current s"
  shows "TokenStore_validate keyed (rotations plain n s) host' (TokenStore_create keyed s host) \<longleftrightarrow>
    host' = host \<and> n \<le> 1"
proof -
  let ?c = "\<lambda>i. ts_current (rotations plain i s)"
  have prev: "ts_previous (rotations plain n s) = (if n = 0 then ts_previous s else ?c (n - 1))"
    by (cases n) auto
  have "no_collision keyed {host, host'} {ts_current s, ?c n, ts_previous (rotations plain n s)}"
    using assms(1) unfolding no_collision_def by (rule inj_on_subset) (auto simp: prev image_iff)
  then have "TokenStore_validate keyed (rotations plain n s) host' (TokenStore_create keyed s host) \<longleftrightarrow>
      host = host' \<and> (ts_current s = ?c n \<or> ts_current s = ts_previous (rotations plain n s))"
    unfolding TokenStore_create_def by (rule validate_iff)
  moreover have "ts_current s = ?c n \<or> ts_current s = ts_previous (rotations plain n s) \<longleftrightarrow> n \<le> 1"
  proof (cases "n \<le> 1")
    case True
    then show ?thesis
      by (auto simp: prev le_Suc_eq)
  next
    case False
    then have "?c n \<noteq> ts_current s" "?c (n - 1) \<noteq> ts_current s"
      using assms(2) by auto
    then show ?thesis
      using False by (auto simp: prev)
  qed
  ultimately show ?thesis
    by auto
qed

theorem token_window_witness:
  "\<not> TokenStore_validate (\<lambda>m k. k @ m) (rotations (\<lambda>m. map (\<lambda>b. b + 2) m) 2 (TokenStore_new [1] [2])) ''10.0.0.1''
       (TokenStore_create (\<lambda>m k. k @ m) (TokenStore_new [1] [2]) ''10.0.0.1'')"
proof -
  let ?p = "\<lambda>m :: bytes. map (\<lambda>b. b + 2) m" and ?s = "TokenStore_new [1] [2]"
  have at: "{..2::nat} = {0, 1, 2}" "{1..2::nat} = {1, 2}"
    by auto
  have "no_collision (\<lambda>m k. k @ m) {''10.0.0.1'', ''10.0.0.1''}
      (insert (ts_current ?s) (ts_current ` (\<lambda>i. rotations ?p i ?s) ` {..2}) \<union> {ts_previous ?s})"
    by (auto simp: no_collision_def inj_on_def at TokenStore_new_def numeral_2_eq_2)
  moreover have "\<forall>i \<in> {1..2}. ts_current (rotations ?p i ?s) \<noteq> ts_current ?s"
    unfolding at by code_simp
  ultimately show ?thesis
    using token_window [of "\<lambda>m k. k @ m" "''10.0.0.1''" "''10.0.0.1''" ?s ?p 2] by (simp add: TokenStore_new_def)
qed

text \<open>A token always passes for its own host under the secret that made it and under its successor,
  whatever the hash functions are: a peer that answers within one rotation period is never refused.\<close>

lemma token_accepted:
  "TokenStore_validate keyed s host (TokenStore_create keyed s host) \<and>
   TokenStore_validate keyed (TokenStore_rotate plain s) host (TokenStore_create keyed s host)"
  by (simp add: TokenStore_validate_def TokenStore_create_def)

text \<open>Rotation draws no fresh randomness: the secret two rotations later is the hash of the present one,
  so the secrets form two interleaved hash chains fixed by the two initial values.\<close>

lemma rotation_is_hash_chain:
  "ts_current (rotations plain (2 * n) s) = (plain ^^ n) (ts_current s) \<and>
   ts_current (rotations plain (2 * n + 1) s) = (plain ^^ Suc n) (ts_previous s)"
proof -
  have "ts_current (rotations plain (2 * n) s) = (plain ^^ n) (ts_current s) \<and>
      ts_previous (rotations plain (2 * n) s) = (plain ^^ n) (ts_previous s)"
    by (induction n) auto
  then show ?thesis
    by simp
qed

end
