(* ===== verification/Dht_Messages.thy ===== *)
theory Dht_Messages
  imports Messages Tokens
begin

text \<open>
  The payloads of the storage and announce commands (\<^verbatim>\<open>include/hyperdht/dht_messages.hpp\<close>,
  \<^verbatim>\<open>src/dht_messages.cpp\<close>): peer records, announce messages, mutable records, lookup replies, and the
  namespace hashes that separate the signatures of different commands.  The codecs are written with the
  steps of the theory \<open>Message_Steps\<close>; BLAKE2b is the parameter \<open>plain\<close>.
\<close>

section \<open>Namespaces\<close>

definition compute_ns :: "plain_hash \<Rightarrow> u8 \<Rightarrow> bytes" where
  "compute_ns plain cmd_byte =
     (let ns_hash = plain (str_bytes ''hyperswarm/dht''); ns_input = ns_hash @ [cmd_byte]
      in plain ns_input)"

definition ns_announce :: "plain_hash \<Rightarrow> bytes" where "ns_announce plain = compute_ns plain 4"
definition ns_unannounce :: "plain_hash \<Rightarrow> bytes" where "ns_unannounce plain = compute_ns plain 5"
definition ns_mutable_put :: "plain_hash \<Rightarrow> bytes" where "ns_mutable_put plain = compute_ns plain 6"
definition ns_peer_handshake :: "plain_hash \<Rightarrow> bytes" where "ns_peer_handshake plain = compute_ns plain 0"
definition ns_peer_holepunch :: "plain_hash \<Rightarrow> bytes" where "ns_peer_holepunch plain = compute_ns plain 1"

section \<open>Peer records\<close>

record PeerRecord =
  pr_public_key :: bytes
  pr_relay_addresses :: "Ipv4Address list"

definition PeerRecord_init :: PeerRecord where
  "PeerRecord_init = \<lparr>pr_public_key = replicate 32 0, pr_relay_addresses = []\<rparr>"

definition peer_preencode :: "State \<Rightarrow> PeerRecord \<Rightarrow> State" where
  "peer_preencode s p =
     Array_preencode Ipv4Addr_preencode (Fixed32_preencode s (pr_public_key p)) (pr_relay_addresses p)"

definition peer_encode :: "State \<Rightarrow> PeerRecord \<Rightarrow> State" where
  "peer_encode s p = Array_encode Ipv4Addr_encode (Fixed32_encode s (pr_public_key p)) (pr_relay_addresses p)"

definition peer_decode :: "State \<Rightarrow> PeerRecord \<times> State" where
  "peer_decode s =
     (case Fixed32_decode s of (k, s1) \<Rightarrow>
        if st_error s1 then (PeerRecord_init\<lparr>pr_public_key := k\<rparr>, s1)
        else case Array_decode Ipv4Addr_decode s1 of (addrs, s2) \<Rightarrow>
          (\<lparr>pr_public_key = k, pr_relay_addresses = addrs\<rparr>, s2))"

definition encode_peer_record :: "PeerRecord \<Rightarrow> bytes" where
  "encode_peer_record p = encode_steps [\<lambda>s. peer_preencode s p] [\<lambda>s. peer_encode s p]"

definition decode_peer_record :: "bytes \<Rightarrow> PeerRecord \<times> State" where
  "decode_peer_record data = peer_decode (for_decode (Some data) (length data))"

section \<open>Announce messages\<close>

record AnnounceMessage =
  am_peer :: "PeerRecord option"
  am_refresh :: "bytes option"
  am_signature :: "bytes option"
  am_bump :: u64

definition AnnounceMessage_init :: AnnounceMessage where
  "AnnounceMessage_init = \<lparr>am_peer = None, am_refresh = None, am_signature = None, am_bump = 0\<rparr>"

definition announce_flags :: "AnnounceMessage \<Rightarrow> u8" where
  "announce_flags m =
     (let flags = 0;
          flags = (if am_peer m \<noteq> None then flags OR 1 else flags);
          flags = (if am_refresh m \<noteq> None then flags OR 2 else flags);
          flags = (if am_signature m \<noteq> None then flags OR 4 else flags);
          flags = (if am_bump m > 0 then flags OR 8 else flags)
      in flags)"

definition positive :: "u64 \<Rightarrow> u64 option" where
  "positive n = (if n > 0 then Some n else None)"

definition encode_announce_msg :: "AnnounceMessage \<Rightarrow> bytes" where
  "encode_announce_msg m =
     encode_steps
       [\<lambda>s. Uint_preencode s (ucast (announce_flags m)), opt peer_preencode (am_peer m),
        opt Fixed32_preencode (am_refresh m), opt Fixed64_preencode (am_signature m),
        opt Uint_preencode (positive (am_bump m))]
       [\<lambda>s. Uint_encode s (ucast (announce_flags m)), opt peer_encode (am_peer m),
        opt Fixed32_encode (am_refresh m), opt Fixed64_encode (am_signature m),
        opt Uint_encode (positive (am_bump m))]"

text \<open>A field that is decoded into a local variable and stored only when the decoder succeeded.\<close>

definition local_field :: "(State \<Rightarrow> 'a \<times> State) \<Rightarrow> ('a \<Rightarrow> 'r \<Rightarrow> 'r) \<Rightarrow> 'r step" where
  "local_field dec upd = (\<lambda>(r, s). case dec s of (x, s') \<Rightarrow>
     if st_error s' then (False, r, s') else (True, upd x r, s'))"

definition announce_steps :: "(u8 \<times> AnnounceMessage) step" where
  "announce_steps =
     and_then (flags_field (\<lambda>f (_, m). (f, m)))
     (and_then (guarded (\<lambda>(f, _). has_flag f 1) (local_field peer_decode (\<lambda>p (f, m). (f, m\<lparr>am_peer := Some p\<rparr>))))
     (and_then (guarded (\<lambda>(f, _). has_flag f 2) (field Fixed32_decode (\<lambda>v (f, m). (f, m\<lparr>am_refresh := Some v\<rparr>))))
     (and_then (guarded (\<lambda>(f, _). has_flag f 4) (field Fixed64_decode (\<lambda>v (f, m). (f, m\<lparr>am_signature := Some v\<rparr>))))
     (guarded (\<lambda>(f, _). has_flag f 8) (field Uint_decode (\<lambda>v (f, m). (f, m\<lparr>am_bump := v\<rparr>)))))))"

text \<open>The decoder returns what it has, with no sign of failure.  The cursor is returned with it.\<close>

definition decode_announce_msg :: "bytes \<Rightarrow> AnnounceMessage \<times> State" where
  "decode_announce_msg data =
     (case announce_steps ((0, AnnounceMessage_init), for_decode (Some data) (length data)) of
        (_, (_, m), s) \<Rightarrow> (m, s))"

section \<open>Mutable records\<close>

record MutablePutRequest =
  mp_public_key :: bytes
  mp_seq :: u64
  mp_value :: bytes
  mp_signature :: bytes

definition MutablePutRequest_init :: MutablePutRequest where
  "MutablePutRequest_init = \<lparr>mp_public_key = replicate 32 0, mp_seq = 0, mp_value = [], mp_signature = replicate 64 0\<rparr>"

definition encode_mutable_put :: "MutablePutRequest \<Rightarrow> bytes" where
  "encode_mutable_put m =
     encode_steps
       [\<lambda>s. Fixed32_preencode s (mp_public_key m), \<lambda>s. Uint_preencode s (mp_seq m),
        \<lambda>s. Buffer_preencode s (Some (mp_value m)), \<lambda>s. Fixed64_preencode s (mp_signature m)]
       [\<lambda>s. Fixed32_encode s (mp_public_key m), \<lambda>s. Uint_encode s (mp_seq m),
        \<lambda>s. Buffer_encode s (Some (mp_value m)), \<lambda>s. Fixed64_encode s (mp_signature m)]"

text \<open>\<^verbatim>\<open>auto val = Buffer::decode(state); if (state.error) return m; if (!val.is_null()) m.value.assign(..)\<close>\<close>

definition vector_field :: "(bytes \<Rightarrow> 'r \<Rightarrow> 'r) \<Rightarrow> 'r step" where
  "vector_field upd = local_field Buffer_decode (\<lambda>b r. case b of None \<Rightarrow> r | Some v \<Rightarrow> upd v r)"

definition mutable_put_steps :: "MutablePutRequest step" where
  "mutable_put_steps =
     and_then (field Fixed32_decode (\<lambda>v m. m\<lparr>mp_public_key := v\<rparr>))
     (and_then (field Uint_decode (\<lambda>v m. m\<lparr>mp_seq := v\<rparr>))
     (and_then (vector_field (\<lambda>v m. m\<lparr>mp_value := v\<rparr>))
     (field Fixed64_decode (\<lambda>v m. m\<lparr>mp_signature := v\<rparr>))))"

definition decode_mutable_put :: "bytes \<Rightarrow> MutablePutRequest \<times> State" where
  "decode_mutable_put data =
     snd (mutable_put_steps (MutablePutRequest_init, for_decode (Some data) (length data)))"

record MutableGetResponse =
  mg_seq :: u64
  mg_value :: bytes
  mg_signature :: bytes

definition MutableGetResponse_init :: MutableGetResponse where
  "MutableGetResponse_init = \<lparr>mg_seq = 0, mg_value = [], mg_signature = replicate 64 0\<rparr>"

definition encode_mutable_get_resp :: "MutableGetResponse \<Rightarrow> bytes" where
  "encode_mutable_get_resp m =
     encode_steps
       [\<lambda>s. Uint_preencode s (mg_seq m), \<lambda>s. Buffer_preencode s (Some (mg_value m)),
        \<lambda>s. Fixed64_preencode s (mg_signature m)]
       [\<lambda>s. Uint_encode s (mg_seq m), \<lambda>s. Buffer_encode s (Some (mg_value m)),
        \<lambda>s. Fixed64_encode s (mg_signature m)]"

definition mutable_get_steps :: "MutableGetResponse step" where
  "mutable_get_steps =
     and_then (field Uint_decode (\<lambda>v m. m\<lparr>mg_seq := v\<rparr>))
     (and_then (vector_field (\<lambda>v m. m\<lparr>mg_value := v\<rparr>))
     (field Fixed64_decode (\<lambda>v m. m\<lparr>mg_signature := v\<rparr>)))"

definition decode_mutable_get_resp :: "bytes \<Rightarrow> MutableGetResponse \<times> State" where
  "decode_mutable_get_resp data =
     snd (mutable_get_steps (MutableGetResponse_init, for_decode (Some data) (length data)))"

definition encode_mutable_signable :: "u64 \<Rightarrow> bytes \<Rightarrow> bytes" where
  "encode_mutable_signable seq v =
     encode_steps [\<lambda>s. Uint_preencode s seq, \<lambda>s. Buffer_preencode s (Some v)]
       [\<lambda>s. Uint_encode s seq, \<lambda>s. Buffer_encode s (Some v)]"

section \<open>Lookup replies\<close>

record LookupRawReply =
  lr_peers :: "bytes list"
  lr_bump :: u64

definition LookupRawReply_init :: LookupRawReply where
  "LookupRawReply_init = \<lparr>lr_peers = [], lr_bump = 0\<rparr>"

definition encode_lookup_reply :: "LookupRawReply \<Rightarrow> bytes" where
  "encode_lookup_reply r =
     encode_steps
       ((\<lambda>s. Uint_preencode s (of_nat (length (lr_peers r)))) #
        map (\<lambda>p s. Buffer_preencode s (Some p)) (lr_peers r) @ [\<lambda>s. Uint_preencode s (lr_bump r)])
       ((\<lambda>s. Uint_encode s (of_nat (length (lr_peers r)))) #
        map (\<lambda>p s. Buffer_encode s (Some p)) (lr_peers r) @ [\<lambda>s. Uint_encode s (lr_bump r)])"

fun lookup_loop :: "nat \<Rightarrow> LookupRawReply step" where
  "lookup_loop 0 = (\<lambda>x. (True, x))"
| "lookup_loop (Suc n) =
     and_then (local_field Buffer_decode (\<lambda>b r. case b of None \<Rightarrow> r | Some p \<Rightarrow> r\<lparr>lr_peers := lr_peers r @ [p]\<rparr>))
       (lookup_loop n)"

definition MAX_LOOKUP_PEERS :: u64 where "MAX_LOOKUP_PEERS = 1024"

definition decode_lookup_reply :: "bytes \<Rightarrow> LookupRawReply \<times> State" where
  "decode_lookup_reply data =
     (let s = for_decode (Some data) (length data); r = LookupRawReply_init in
      case Uint_decode s of (n, s1) \<Rightarrow>
        if st_error s1 \<or> n > MAX_LOOKUP_PEERS then (r, s1)
        else case lookup_loop (unat n) (r, s1) of (ok, r1, s2) \<Rightarrow>
          if \<not> ok then (r1, s2)
          else if st_start s2 < st_end s2
          then case Uint_decode s2 of (b, s3) \<Rightarrow> (r1\<lparr>lr_bump := b\<rparr>, s3)
          else (r1, s2))"

section \<open>The peer record codec\<close>

definition PeerRecord_wire :: "PeerRecord \<Rightarrow> bytes" where
  "PeerRecord_wire p = pr_public_key p @ Array_wire Ipv4Addr_wire (pr_relay_addresses p)"

definition PeerRecord_ok :: "PeerRecord \<Rightarrow> bool" where
  "PeerRecord_ok p \<longleftrightarrow> length (pr_public_key p) = 32 \<and> Array_ok Ipv4_ok (pr_relay_addresses p)"

interpretation Peer: codec peer_preencode peer_encode peer_decode PeerRecord_wire PeerRecord_ok
proof
  fix s v
  show "peer_preencode s v = pre_add s (length (PeerRecord_wire v))" if "PeerRecord_ok v"
    using that by (simp add: peer_preencode_def PeerRecord_ok_def PeerRecord_wire_def Fixed32.pre_wire
        Ipv4Array.pre_wire cursor_simps)
  show "peer_encode s v = s" if "st_error s"
    using that by (simp add: peer_encode_def Fixed32.enc_error Ipv4Array.enc_error)
  show "peer_encode s v = put_bytes s (PeerRecord_wire v)"
    if "PeerRecord_ok v" "wr_ok s" "length (PeerRecord_wire v) \<le> room s"
    using that by (simp add: peer_encode_def PeerRecord_ok_def PeerRecord_wire_def Fixed32.enc_wire
        Ipv4Array.enc_wire cursor_simps)
  show "st_error (peer_encode s v) \<and> \<not> st_fault (peer_encode s v)"
    if "PeerRecord_ok v" "wr_ok s" "room s < length (PeerRecord_wire v)"
  proof (cases "room s < 32")
    case True
    then show ?thesis
      using that Fixed32.enc_full [of "pr_public_key v" s]
      by (simp add: peer_encode_def PeerRecord_ok_def Ipv4Array.enc_error)
  next
    case False
    then show ?thesis
      using that Ipv4Array.enc_full [of "pr_relay_addresses v" "put_bytes s (pr_public_key v)"]
      by (simp add: peer_encode_def PeerRecord_ok_def PeerRecord_wire_def Fixed32.enc_wire cursor_simps)
  qed
  show "peer_decode s = (v, adv s (length (PeerRecord_wire v)))"
    if "PeerRecord_ok v" "rd_safe s" "\<not> st_error s" "rest s = PeerRecord_wire v @ t" for t
    using that Fixed32.dec_wire [of "pr_public_key v" s] Ipv4Array.dec_wire [of "pr_relay_addresses v" "adv s 32"]
    by (cases v) (simp add: peer_decode_def PeerRecord_ok_def PeerRecord_wire_def cursor_simps)
  show "safe_step s (snd (peer_decode s))" if "rd_safe s"
  proof -
    obtain k s1 where d1: "Fixed32_decode s = (k, s1)"
      by fastforce
    obtain as s2 where d2: "Array_decode Ipv4Addr_decode s1 = (as, s2)"
      by fastforce
    have s1: "safe_step s s1"
      using Fixed32.dec_safe [OF that] d1 by simp
    then have "safe_step s1 s2"
      using Ipv4Array.dec_safe [of s1] d2 by (simp add: safe_step_def)
    then show ?thesis
      using s1 safe_step_trans [OF s1] by (simp add: peer_decode_def d1 d2)
  qed
qed

section \<open>Local fields and vectors\<close>

lemma step_safe_local: "(\<And>s. rd_safe s \<Longrightarrow> safe_step s (snd (dec s))) \<Longrightarrow> step_safe (local_field dec upd)"
  by (fastforce simp: step_safe_def local_field_def split: prod.split)

lemma step_safe_vector: "step_safe (vector_field upd)"
  unfolding vector_field_def by (rule step_safe_local) (rule Buffer.dec_safe)

lemma step_safe_lookup_loop: "step_safe (lookup_loop n)"
proof (induction n)
  case 0
  then show ?case
    by (simp add: step_safe_def safe_step_refl)
next
  case (Suc n)
  then show ?case
    by (auto intro!: step_safe_and_then step_safe_local Buffer.dec_safe)
qed

context codec
begin

lemma step_reads_local: "ok v \<Longrightarrow> step_reads (local_field dec upd) r (wire v) (upd v r)"
  by (auto simp: step_reads_def local_field_def dec_wire)

end

lemma step_reads_vector_field:
  assumes "length v \<le> MAX_BUFFER_DECODE" "v = [] \<Longrightarrow> upd v r = r"
  shows "step_reads (vector_field upd) r (Buffer_wire (Some v)) (upd v r)"
proof (cases "v = []")
  case True
  then show ?thesis
    using Buffer.step_reads_local [of None "\<lambda>b r. case b of None \<Rightarrow> r | Some v \<Rightarrow> upd v r" r] assms(2)
    by (simp add: vector_field_def Buffer_Some_Nil Buffer_ok_def)
next
  case False
  then show ?thesis
    using Buffer.step_reads_local [of "Some v" "\<lambda>b r. case b of None \<Rightarrow> r | Some v \<Rightarrow> upd v r" r] assms(1)
    by (simp add: vector_field_def Buffer_ok_def)
qed

lemmas payload_wires = step_wires Peer.step_wire_codec Peer.step_wire_opt Uint.step_wire_opt

section \<open>Wire formats\<close>

definition AnnounceMessage_ok :: "AnnounceMessage \<Rightarrow> bool" where
  "AnnounceMessage_ok m \<longleftrightarrow> opt_all PeerRecord_ok (am_peer m) \<and> opt_all (\<lambda>x. length x = 32) (am_refresh m) \<and>
     opt_all (\<lambda>x. length x = 64) (am_signature m)"

definition announce_wires :: "AnnounceMessage \<Rightarrow> bytes list" where
  "announce_wires m =
     [Uint_wire (ucast (announce_flags m)), opt_wire PeerRecord_wire (am_peer m), opt_wire (\<lambda>v. v) (am_refresh m),
      opt_wire (\<lambda>v. v) (am_signature m), opt_wire Uint_wire (positive (am_bump m))]"

lemma length_peer_wire: "PeerRecord_ok p \<Longrightarrow> length (PeerRecord_wire p) \<le> 32 + (9 + 6 * 4096)"
  using length_Ipv4Array_wire [of "pr_relay_addresses p"]
  by (simp add: PeerRecord_ok_def PeerRecord_wire_def Array_ok_def ARRAY_MAX_LENGTH_def Ipv4_ok_def list_all_iff)

lemma length_announce_wires:
  assumes "AnnounceMessage_ok m"
  shows "length (concat (announce_wires m)) < 2 ^ 64"
proof -
  have "length (opt_wire PeerRecord_wire (am_peer m)) \<le> 32 + (9 + 6 * 4096)"
    using assms length_peer_wire by (intro length_opt_wire) (auto simp: opt_all_def AnnounceMessage_ok_def split: option.splits)
  moreover have "length (opt_wire (\<lambda>v. v) (am_refresh m)) \<le> 32"
    using assms by (intro length_opt_id) (simp add: AnnounceMessage_ok_def)
  moreover have "length (opt_wire (\<lambda>v. v) (am_signature m)) \<le> 64"
    using assms by (intro length_opt_wire) (auto simp: opt_all_def AnnounceMessage_ok_def split: option.splits)
  moreover have "length (opt_wire Uint_wire (positive (am_bump m))) \<le> 9"
    by (intro length_opt_wire) (simp add: opt_all_def length_Uint_wire split: option.splits)
  ultimately show ?thesis
    using length_Uint_wire [of "ucast (announce_flags m)"] by (simp add: announce_wires_def)
qed

lemma encode_announce_wire:
  assumes "AnnounceMessage_ok m"
  shows "encode_announce_msg m = concat (announce_wires m)"
  unfolding encode_announce_msg_def
  by (rule encode_steps_wire [OF _ _ length_announce_wires [OF assms]])
    (use assms [unfolded AnnounceMessage_ok_def] in
      \<open>auto simp: announce_wires_def intro!: payload_wires dest: opt_all_Some\<close>)

lemma announce_flags_bits:
  "has_flag (announce_flags m) 1 \<longleftrightarrow> am_peer m \<noteq> None"
  "has_flag (announce_flags m) 2 \<longleftrightarrow> am_refresh m \<noteq> None"
  "has_flag (announce_flags m) 4 \<longleftrightarrow> am_signature m \<noteq> None"
  "has_flag (announce_flags m) 8 \<longleftrightarrow> am_bump m > 0"
  by (simp_all add: has_flag_def announce_flags_def Let_def)

lemma announce_steps_read:
  assumes "AnnounceMessage_ok m"
  shows "step_reads announce_steps (0, AnnounceMessage_init) (concat (announce_wires m)) (announce_flags m, m)"
proof -
  note a = assms [unfolded AnnounceMessage_ok_def] and fl = announce_flags_bits [of m]
  let ?f = "announce_flags m" and ?m0 = AnnounceMessage_init
  let ?m1 = "?m0\<lparr>am_peer := am_peer m\<rparr>"
  let ?m2 = "?m1\<lparr>am_refresh := am_refresh m\<rparr>"
  let ?m3 = "?m2\<lparr>am_signature := am_signature m\<rparr>"
  have final: "(?f, m) = (?f, ?m3\<lparr>am_bump := am_bump m\<rparr>)"
    by (cases m) (simp add: AnnounceMessage_init_def)
  have bump: "positive (am_bump m) \<noteq> None \<longleftrightarrow> am_bump m > 0" "positive (am_bump m) = Some x \<Longrightarrow> x = am_bump m"
      "positive (am_bump m) = None \<Longrightarrow> am_bump m = 0" for x
    by (auto simp: positive_def word_gt_0 split: if_splits)
  show ?thesis
    unfolding announce_steps_def announce_wires_def concat.simps append_Nil2 final
    apply (rule step_reads_and_then [where r' = "(?f, ?m0)"])
     apply (use step_reads_flags [of "\<lambda>f (_, m). (f, m)" "(0, ?m0)" ?f] in simp)
    apply (rule step_reads_and_then [where r' = "(?f, ?m1)"], rule step_reads_opt)
       apply (simp add: fl)
      apply (use a Peer.step_reads_local [of _ "\<lambda>p (f, m). (f, m\<lparr>am_peer := Some p\<rparr>)" "(?f, ?m0)"] in \<open>force simp: opt_all_def\<close>)
     apply (simp add: AnnounceMessage_init_def)
    apply (rule step_reads_and_then [where r' = "(?f, ?m2)"], rule step_reads_opt)
       apply (simp add: fl)
      apply (use a Fixed32.step_reads_field [of _ "\<lambda>p (f, m). (f, m\<lparr>am_refresh := Some p\<rparr>)" "(?f, ?m1)"] in \<open>force simp: opt_all_def\<close>)
     apply (simp add: AnnounceMessage_init_def)
    apply (rule step_reads_and_then [where r' = "(?f, ?m3)"], rule step_reads_opt)
       apply (simp add: fl)
      apply (use a Fixed64.step_reads_field [of _ "\<lambda>p (f, m). (f, m\<lparr>am_signature := Some p\<rparr>)" "(?f, ?m2)"] in \<open>force simp: opt_all_def\<close>)
     apply (simp add: AnnounceMessage_init_def)
    apply (rule step_reads_opt)
      apply (use bump(1) in \<open>simp add: fl\<close>)
     apply (use Uint.step_reads_field [OF TrueI, where upd = "\<lambda>p (f, m). (f, m\<lparr>am_bump := p\<rparr>)" and r = "(?f, ?m3)"] bump(2) in force)
    apply (drule bump(3), simp add: AnnounceMessage_init_def)
    done
qed

definition MutablePut_ok :: "MutablePutRequest \<Rightarrow> bool" where
  "MutablePut_ok m \<longleftrightarrow> length (mp_public_key m) = 32 \<and> length (mp_value m) \<le> 65536 \<and> length (mp_signature m) = 64"

definition MutableGet_ok :: "MutableGetResponse \<Rightarrow> bool" where
  "MutableGet_ok m \<longleftrightarrow> length (mg_value m) \<le> 65536 \<and> length (mg_signature m) = 64"

definition mutable_put_wires :: "MutablePutRequest \<Rightarrow> bytes list" where
  "mutable_put_wires m = [mp_public_key m, Uint_wire (mp_seq m), Buffer_wire (Some (mp_value m)), mp_signature m]"

definition mutable_get_wires :: "MutableGetResponse \<Rightarrow> bytes list" where
  "mutable_get_wires m = [Uint_wire (mg_seq m), Buffer_wire (Some (mg_value m)), mg_signature m]"

lemma length_mutable_wires:
  "MutablePut_ok p \<Longrightarrow> length (concat (mutable_put_wires p)) < 2 ^ 64"
  "MutableGet_ok g \<Longrightarrow> length (concat (mutable_get_wires g)) < 2 ^ 64"
  using length_Uint_wire [of "mp_seq p"] length_Buffer_wire [of "mp_value p"]
    length_Uint_wire [of "mg_seq g"] length_Buffer_wire [of "mg_value g"]
  by (simp_all add: mutable_put_wires_def MutablePut_ok_def mutable_get_wires_def MutableGet_ok_def)

lemma encode_mutable_wire:
  "MutablePut_ok p \<Longrightarrow> encode_mutable_put p = concat (mutable_put_wires p)"
  "MutableGet_ok g \<Longrightarrow> encode_mutable_get_resp g = concat (mutable_get_wires g)"
  unfolding encode_mutable_put_def encode_mutable_get_resp_def
  by (rule encode_steps_wire [OF _ _ length_mutable_wires(1)], simp_all add: mutable_put_wires_def MutablePut_ok_def
      payload_wires MAX_BUFFER_DECODE_def)
    (rule encode_steps_wire [OF _ _ length_mutable_wires(2)], simp_all add: mutable_get_wires_def MutableGet_ok_def
      payload_wires MAX_BUFFER_DECODE_def)

lemma mutable_put_steps_read:
  assumes "MutablePut_ok m"
  shows "step_reads mutable_put_steps MutablePutRequest_init (concat (mutable_put_wires m)) m"
proof -
  note a = assms [unfolded MutablePut_ok_def]
  let ?m1 = "MutablePutRequest_init\<lparr>mp_public_key := mp_public_key m\<rparr>"
  let ?m2 = "?m1\<lparr>mp_seq := mp_seq m\<rparr>"
  let ?m3 = "?m2\<lparr>mp_value := mp_value m\<rparr>"
  have "step_reads mutable_put_steps MutablePutRequest_init (concat (mutable_put_wires m))
      (?m3\<lparr>mp_signature := mp_signature m\<rparr>)"
    unfolding mutable_put_steps_def mutable_put_wires_def concat.simps append_Nil2
    by (intro step_reads_and_then [OF Fixed32.step_reads_field] step_reads_and_then [OF Uint.step_reads_field [OF TrueI]]
        step_reads_and_then [OF step_reads_vector_field] Fixed64.step_reads_field)
      (simp_all add: a MAX_BUFFER_DECODE_def MutablePutRequest_init_def)
  moreover have "?m3\<lparr>mp_signature := mp_signature m\<rparr> = m"
    by (cases m) (simp add: MutablePutRequest_init_def)
  ultimately show ?thesis
    by (simp only:)
qed

lemma mutable_get_steps_read:
  assumes "MutableGet_ok m"
  shows "step_reads mutable_get_steps MutableGetResponse_init (concat (mutable_get_wires m)) m"
proof -
  note a = assms [unfolded MutableGet_ok_def]
  let ?m2 = "MutableGetResponse_init\<lparr>mg_seq := mg_seq m\<rparr>"
  let ?m3 = "?m2\<lparr>mg_value := mg_value m\<rparr>"
  have "step_reads mutable_get_steps MutableGetResponse_init (concat (mutable_get_wires m))
      (?m3\<lparr>mg_signature := mg_signature m\<rparr>)"
    unfolding mutable_get_steps_def mutable_get_wires_def concat.simps append_Nil2
    by (intro step_reads_and_then [OF Uint.step_reads_field [OF TrueI]]
        step_reads_and_then [OF step_reads_vector_field] Fixed64.step_reads_field)
      (simp_all add: a MAX_BUFFER_DECODE_def MutableGetResponse_init_def)
  moreover have "?m3\<lparr>mg_signature := mg_signature m\<rparr> = m"
    by (cases m) (simp add: MutableGetResponse_init_def)
  ultimately show ?thesis
    by (simp only:)
qed

lemma encode_signable_wire:
  assumes "length v \<le> 65536"
  shows "encode_mutable_signable seq v = Uint_wire seq @ Buffer_wire (Some v)"
proof -
  have "encode_mutable_signable seq v = concat [Uint_wire seq, Buffer_wire (Some v)]"
    unfolding encode_mutable_signable_def
    using length_Uint_wire [of seq] length_Buffer_wire [of v] assms
    by (intro encode_steps_wire) (simp_all add: payload_wires MAX_BUFFER_DECODE_def)
  then show ?thesis
    by simp
qed

definition LookupReply_ok :: "LookupRawReply \<Rightarrow> bool" where
  "LookupReply_ok r \<longleftrightarrow> length (lr_peers r) \<le> 1024 \<and> (\<forall>p \<in> set (lr_peers r). p \<noteq> [] \<and> length p \<le> 65536)"

definition lookup_wires :: "LookupRawReply \<Rightarrow> bytes list" where
  "lookup_wires r = Uint_wire (of_nat (length (lr_peers r))) # map (\<lambda>p. Buffer_wire (Some p)) (lr_peers r) @
     [Uint_wire (lr_bump r)]"

lemma length_peers_wire:
  "\<forall>p \<in> set ps. length p \<le> 65536 \<Longrightarrow> length (concat (map (\<lambda>p. Buffer_wire (Some p)) ps)) \<le> length ps * 65545"
proof (induction ps)
  case (Cons p ps)
  then show ?case
    using length_Buffer_wire [of p] by simp
qed simp

lemma length_lookup_wires:
  assumes "LookupReply_ok r"
  shows "length (concat (lookup_wires r)) < 2 ^ 64"
proof -
  have "length (concat (map (\<lambda>p. Buffer_wire (Some p)) (lr_peers r))) \<le> 1024 * 65545"
    using length_peers_wire [of "lr_peers r"] assms
    by (meson LookupReply_ok_def mult_le_mono1 order_trans)
  then show ?thesis
    using length_Uint_wire [of "of_nat (length (lr_peers r))"] length_Uint_wire [of "lr_bump r"]
    by (simp add: lookup_wires_def)
qed

lemma encode_lookup_wire:
  assumes "LookupReply_ok r"
  shows "encode_lookup_reply r = concat (lookup_wires r)"
  unfolding encode_lookup_reply_def
proof (rule encode_steps_wire [OF _ _ length_lookup_wires [OF assms]])
  have "list_all2 (\<lambda>(p, e) w. step_wire p e w) (zip (map (\<lambda>p s. Buffer_preencode s (Some p)) ps)
      (map (\<lambda>p s. Buffer_encode s (Some p)) ps)) (map (\<lambda>p. Buffer_wire (Some p)) ps)"
    if "\<forall>p \<in> set ps. length p \<le> 65536" for ps
    using that by (induction ps) (auto simp: MAX_BUFFER_DECODE_def intro: step_wire_vector)
  then show "list_all2 (\<lambda>(p, e) w. step_wire p e w)
      (zip ((\<lambda>s. Uint_preencode s (of_nat (length (lr_peers r)))) #
        map (\<lambda>p s. Buffer_preencode s (Some p)) (lr_peers r) @ [\<lambda>s. Uint_preencode s (lr_bump r)])
       ((\<lambda>s. Uint_encode s (of_nat (length (lr_peers r)))) #
        map (\<lambda>p s. Buffer_encode s (Some p)) (lr_peers r) @ [\<lambda>s. Uint_encode s (lr_bump r)])) (lookup_wires r)"
    using assms by (auto simp: lookup_wires_def LookupReply_ok_def zip_append intro!: list_all2_appendI step_wires)
qed simp

lemma lookup_loop_read:
  "\<forall>p \<in> set ps. p \<noteq> [] \<and> length p \<le> 65536 \<Longrightarrow>
     step_reads (lookup_loop (length ps)) r (concat (map (\<lambda>p. Buffer_wire (Some p)) ps)) (r\<lparr>lr_peers := lr_peers r @ ps\<rparr>)"
proof (induction ps arbitrary: r)
  case Nil
  then show ?case
    by (simp add: step_reads_def)
next
  case (Cons p ps)
  let ?upd = "\<lambda>b (r :: LookupRawReply). case b of None \<Rightarrow> r | Some p \<Rightarrow> r\<lparr>lr_peers := lr_peers r @ [p]\<rparr>"
  have "step_reads (local_field Buffer_decode ?upd) r (Buffer_wire (Some p)) (?upd (Some p) r)"
    using Cons.prems by (intro Buffer.step_reads_local) (simp add: Buffer_ok_def MAX_BUFFER_DECODE_def)
  then show ?case
    using step_reads_and_then [OF _ Cons.IH [of "?upd (Some p) r"]] Cons.prems by simp
qed

lemma lookup_decode_safe:
  assumes "rd_safe (for_decode (Some data) (length data))"
  shows "safe_step (for_decode (Some data) (length data)) (snd (decode_lookup_reply data))"
proof -
  let ?s = "for_decode (Some data) (length data)"
  obtain n s1 where d1: "Uint_decode ?s = (n, s1)"
    by fastforce
  have s1: "safe_step ?s s1"
    using Uint.dec_safe [OF assms] d1 by simp
  obtain ok r1 s2 where d2: "lookup_loop (unat n) (LookupRawReply_init, s1) = (ok, r1, s2)"
    using prod_cases3 by blast
  have s2: "safe_step s1 s2"
    using step_safe_lookup_loop [of "unat n"] s1 d2 unfolding step_safe_def safe_step_def by (metis snd_conv)
  obtain b s3 where d3: "Uint_decode s2 = (b, s3)"
    by fastforce
  have "safe_step s2 s3"
    using Uint.dec_safe [of s2] s2 d3 by (simp add: safe_step_def)
  then show ?thesis
    using s1 safe_step_trans [OF s1 s2] by (auto simp: decode_lookup_reply_def Let_def d1 d2 d3 elim: safe_step_trans)
qed

section \<open>Properties\<close>

text \<open>Announce messages survive encoding and decoding: the peer record with its relay addresses, the refresh
  token, the signature and the bump, each present or absent.\<close>

lemma announce_msg_roundtrip:
  assumes "AnnounceMessage_ok m"
  shows "fst (decode_announce_msg (encode_announce_msg m)) = m"
  using step_reads_run [OF announce_steps_read [OF assms] length_announce_wires [OF assms]]
  by (simp add: decode_announce_msg_def encode_announce_wire [OF assms])

text \<open>Mutable records survive encoding and decoding, in requests and in responses, for values up to the
  buffer cap of 65536 bytes.\<close>

lemma mutable_roundtrip:
  assumes "MutablePut_ok p" and "MutableGet_ok g"
  shows "fst (decode_mutable_put (encode_mutable_put p)) = p \<and>
    fst (decode_mutable_get_resp (encode_mutable_get_resp g)) = g"
  using step_reads_run [OF mutable_put_steps_read [OF assms(1)] length_mutable_wires(1) [OF assms(1)]]
    step_reads_run [OF mutable_get_steps_read [OF assms(2)] length_mutable_wires(2) [OF assms(2)]]
  by (simp add: decode_mutable_put_def decode_mutable_get_resp_def encode_mutable_wire assms)

text \<open>The bytes that are hashed and signed for a mutable record determine its sequence number and its value:
  a signature cannot be moved to another version or another value.\<close>

lemma signable_injective:
  assumes "length v \<le> 65536" and "length v' \<le> 65536"
    and "encode_mutable_signable seq v = encode_mutable_signable seq' v'"
  shows "seq = seq' \<and> v = v'"
proof -
  have dec: "decode_mutable_put (replicate 32 0 @ encode_mutable_signable n w @ replicate 64 0) =
      decode_mutable_put (encode_mutable_put \<lparr>mp_public_key = replicate 32 0, mp_seq = n, mp_value = w,
        mp_signature = replicate 64 0\<rparr>)" if "length w \<le> 65536" for n w
    using that encode_mutable_wire(1) [of "\<lparr>mp_public_key = replicate 32 0, mp_seq = n, mp_value = w,
        mp_signature = replicate 64 0\<rparr>"]
    by (simp add: encode_signable_wire MutablePut_ok_def mutable_put_wires_def)
  have ok: "MutablePut_ok \<lparr>mp_public_key = replicate 32 0, mp_seq = n, mp_value = w, mp_signature = replicate 64 0\<rparr>"
    if "length w \<le> 65536" for n w
    using that by (simp add: MutablePut_ok_def)
  have read: "fst (decode_mutable_put (encode_mutable_put p)) = p" if "MutablePut_ok p" for p
    using step_reads_run [OF mutable_put_steps_read [OF that] length_mutable_wires(1) [OF that]]
    by (simp add: decode_mutable_put_def encode_mutable_wire that)
  have "fst (decode_mutable_put (replicate 32 0 @ encode_mutable_signable n w @ replicate 64 0)) =
      \<lparr>mp_public_key = replicate 32 0, mp_seq = n, mp_value = w, mp_signature = replicate 64 0\<rparr>"
    if "length w \<le> 65536" for n w
    using dec [OF that, of n] read [OF ok [OF that]] by simp
  from this [OF assms(1), of seq] this [OF assms(2), of seq'] show ?thesis
    unfolding assms(3) by simp
qed

text \<open>Lookup replies survive encoding and decoding for up to 1024 nonempty peer records.\<close>

lemma lookup_reply_roundtrip:
  assumes "LookupReply_ok r"
  shows "fst (decode_lookup_reply (encode_lookup_reply r)) = r"
proof -
  let ?n = "of_nat (length (lr_peers r)) :: u64" and ?ps = "concat (map (\<lambda>p. Buffer_wire (Some p)) (lr_peers r))"
  define w where "w = concat (lookup_wires r)"
  define s where "s = for_decode (Some w) (length w)"
  have w: "w = Uint_wire ?n @ ?ps @ Uint_wire (lr_bump r)"
    by (simp add: w_def lookup_wires_def)
  have s: "rd_safe s" "rest s = w" "\<not> st_error s"
    using for_decode_cursor [OF length_lookup_wires [OF assms]] by (simp_all add: s_def w_def for_decode_def State_init_def)
  have n: "unat ?n = length (lr_peers r)" "\<not> MAX_LOOKUP_PEERS < ?n"
    using assms by (simp_all add: LookupReply_ok_def unat_of_nat MAX_LOOKUP_PEERS_def word_less_nat_alt)
  let ?s1 = "adv s (length (Uint_wire ?n))" and ?s2 = "adv s (length (Uint_wire ?n) + length ?ps)"
  have d1: "Uint_decode s = (?n, ?s1)"
    using Uint.dec_wire [OF TrueI s(1,3)] s(2) w by simp
  have r1: "rd_safe ?s1" "rest ?s1 = ?ps @ Uint_wire (lr_bump r)" and r2: "rd_safe ?s2" "rest ?s2 = Uint_wire (lr_bump r)"
    using s w by (simp_all add: rd_safe_adv rest_adv)
  have "step_reads (lookup_loop (length (lr_peers r))) LookupRawReply_init ?ps (LookupRawReply_init\<lparr>lr_peers := lr_peers r\<rparr>)"
    using lookup_loop_read [of "lr_peers r" LookupRawReply_init] assms by (simp add: LookupReply_ok_def LookupRawReply_init_def)
  then have d2: "lookup_loop (length (lr_peers r)) (LookupRawReply_init, ?s1) =
      (True, LookupRawReply_init\<lparr>lr_peers := lr_peers r\<rparr>, ?s2)"
    using r1 s(3) by (simp add: step_reads_def)
  have d3: "Uint_decode ?s2 = (lr_bump r, adv ?s2 (length (Uint_wire (lr_bump r))))"
    using Uint.dec_wire [OF TrueI r2(1), of "lr_bump r" "[]"] s(3) r2(2) by simp
  have "st_start ?s2 < st_end ?s2"
  proof (rule ccontr)
    assume "\<not> st_start ?s2 < st_end ?s2"
    then have "rest ?s2 = []"
      by (simp add: rest_def)
    then show False
      using r2(2) Uint_wire_Cons [of "lr_bump r"] by auto
  qed
  then have "fst (decode_lookup_reply w) = LookupRawReply_init\<lparr>lr_peers := lr_peers r, lr_bump := lr_bump r\<rparr>"
    using d1 d2 d3 n s(3) by (simp add: decode_lookup_reply_def s_def [symmetric] Let_def)
  then show ?thesis
    unfolding encode_lookup_wire [OF assms] w_def by (simp add: LookupRawReply_init_def)
qed

text \<open>None of the payload decoders reads outside its input, whatever bytes arrive.\<close>

lemma payload_decode_safe:
  assumes "length data < 2 ^ 64"
  shows "\<not> st_fault (snd (decode_announce_msg data)) \<and> \<not> st_fault (snd (decode_mutable_put data)) \<and>
    \<not> st_fault (snd (decode_mutable_get_resp data)) \<and> \<not> st_fault (snd (decode_lookup_reply data)) \<and>
    \<not> st_fault (snd (decode_peer_record data))"
proof -
  let ?s = "for_decode (Some data) (length data)"
  have s: "rd_safe ?s"
    by (rule rd_safe_for_decode [OF assms])
  have steps: "step_safe announce_steps" "step_safe mutable_put_steps" "step_safe mutable_get_steps"
    unfolding announce_steps_def mutable_put_steps_def mutable_get_steps_def
    by (intro step_safes step_safe_vector step_safe_local Peer.dec_safe; assumption)+
  have fault: "\<not> st_fault t" if "safe_step u t" for u t
    using that by (simp add: safe_step_def rd_safe_def)
  have run: "\<not> st_fault (snd (snd (f (r, ?s))))" if "step_safe f" for f :: "'x step" and r
    using that s fault unfolding step_safe_def by blast
  have "\<not> st_fault (snd (decode_announce_msg data))"
    using run [OF steps(1), of "(0, AnnounceMessage_init)"]
    by (cases "announce_steps ((0, AnnounceMessage_init), ?s)") (auto simp: decode_announce_msg_def split: prod.splits)
  moreover have "\<not> st_fault (snd (decode_lookup_reply data))"
    by (rule fault [OF lookup_decode_safe [OF s]])
  ultimately show ?thesis
    using run [OF steps(2)] run [OF steps(3)] fault [OF Peer.dec_safe [OF s]]
    by (simp add: decode_mutable_put_def decode_mutable_get_resp_def decode_peer_record_def)
qed

text \<open>The five namespaces that separate the signatures of different commands are distinct, if the hash does not
  collide on the five namespace inputs.\<close>

lemma namespaces_distinct:
  assumes "inj_on plain ((\<lambda>c. plain (str_bytes ''hyperswarm/dht'') @ [c]) ` {0, 1, 4, 5, 6})"
  shows "distinct [ns_announce plain, ns_unannounce plain, ns_mutable_put plain, ns_peer_handshake plain, ns_peer_holepunch plain]"
proof -
  have "compute_ns plain c = compute_ns plain d \<longleftrightarrow> c = d" if "c \<in> {0, 1, 4, 5, 6}" "d \<in> {0, 1, 4, 5, 6}" for c d
    using inj_on_eq_iff [OF assms, of "plain (str_bytes ''hyperswarm/dht'') @ [c]" "plain (str_bytes ''hyperswarm/dht'') @ [d]"] that
    by (simp add: compute_ns_def Let_def)
  then show ?thesis
    by (simp add: ns_announce_def ns_unannounce_def ns_mutable_put_def ns_peer_handshake_def ns_peer_holepunch_def)
qed

end
