(* ===== verification/Peer_Id.thy ===== *)
theory Peer_Id
  imports Routing_Closest Address Messages Tokens
begin

text \<open>
  The id of a node is the hash of its address (\<^verbatim>\<open>compute_peer_id\<close> in \<^verbatim>\<open>src/rpc.cpp\<close>): a node cannot choose its
  place in the key space.  The hash function is a parameter.
\<close>

section \<open>Peer ids\<close>

definition compute_peer_id :: "plain_hash \<Rightarrow> Ipv4Address \<Rightarrow> NodeId" where
  "compute_peer_id plain addr =
     plain [ip_host addr ! 0, ip_host addr ! 1, ip_host addr ! 2, ip_host addr ! 3,
            ucast (ip_port addr AND 0xFF), ucast (drop_bit 8 (ip_port addr) AND 0xFF)]"

lemma port_bytes_inject:
  fixes p q :: u16
  shows "(ucast (p AND 0xFF) :: u8) = ucast (q AND 0xFF) \<Longrightarrow> (ucast (drop_bit 8 p AND 0xFF) :: u8) = ucast (drop_bit 8 q AND 0xFF) \<Longrightarrow> p = q"
proof (rule bit_word_eqI)
  fix n
  assume lo: "(ucast (p AND 0xFF) :: u8) = ucast (q AND 0xFF)" and hi: "(ucast (drop_bit 8 p AND 0xFF) :: u8) = ucast (drop_bit 8 q AND 0xFF)"
    and n: "n < LENGTH(16)"
  have mask: "(0xFF :: u16) = mask 8"
    by (simp add: mask_eq_exp_minus_1)
  show "bit p n = bit q n"
  proof (cases "n < 8")
    case True
    then show ?thesis
      using arg_cong [OF lo, of "\<lambda>w. bit w n"] by (simp add: mask bit_simps)
  next
    case False
    moreover have "n - 8 < 8"
      using n by simp
    ultimately show ?thesis
      using arg_cong [OF hi, of "\<lambda>w. bit w (n - 8)"] by (simp add: mask bit_simps)
  qed
qed

lemma peer_id_inject:
  assumes "inj_on plain {m. length m = 6}" and "length (ip_host a) = 4" and "length (ip_host b) = 4"
    and "compute_peer_id plain a = compute_peer_id plain b"
  shows "a = b"
proof -
  obtain a0 a1 a2 a3 where a: "ip_host a = [a0, a1, a2, a3]"
    using assms(2) by (auto simp: length_Suc_conv eval_nat_numeral)
  obtain b0 b1 b2 b3 where b: "ip_host b = [b0, b1, b2, b3]"
    using assms(3) by (auto simp: length_Suc_conv eval_nat_numeral)
  have "ip_host a = ip_host b \<and> ip_port a = ip_port b"
    using inj_onD [OF assms(1) assms(4) [unfolded compute_peer_id_def]] port_bytes_inject [of "ip_port a" "ip_port b"]
    by (simp add: a b)
  then show ?thesis
    by simp
qed

end
