(* ===== verification/Query.thy ===== *)
theory Query
  imports Peer_Id
begin

text \<open>
  The iterative Kademlia query of \<^verbatim>\<open>src/query.cpp\<close> and \<^verbatim>\<open>include/hyperdht/query.hpp\<close>: a frontier
  (\<^verbatim>\<open>pending_\<close>, a stack), the k closest replies, the set of seen addresses, the visits in flight
  and the commit phase.

  The query talks to its environment by callbacks.  What it does is recorded in the ghost field \<open>q_trace\<close>;
  the requests handed to the socket and the commits handed to the caller that have not been answered yet are
  the ghost fields \<open>q_requests\<close> and \<open>q_commits\<close>.  An environment \<open>QueryEnv\<close> stands for what a step of the query
  reads from outside: the routing table and the node filter of the socket, the hash function, and what the caller's
  callbacks do (whether \<^verbatim>\<open>on_reply\<close> or \<^verbatim>\<open>on_commit\<close> calls \<^verbatim>\<open>destroy()\<close>, whether \<^verbatim>\<open>on_commit\<close> answers before it returns).
  Each step may be run in another environment.

  The lemmas show that the closest replies are the k nearest of all replies, that every address is visited at
  most once, that the completion callback fires at most once, and that a query whose requests are answered
  finishes after a bounded number of answers.
\<close>

section \<open>State\<close>

definition DEFAULT_CONCURRENCY :: int where "DEFAULT_CONCURRENCY = 10"
definition SLOWDOWN_CONCURRENCY :: int where "SLOWDOWN_CONCURRENCY = 3"
definition MAX_SEEN :: nat where "MAX_SEEN = 4096"

datatype NodeState = PENDING | DONE | DOWN

record QueryReply =
  qr_from_id :: NodeId
  qr_from_addr :: Ipv4Address
  qr_token :: "bytes option"
  qr_value :: "bytes option"
  qr_closer_nodes :: "Ipv4Address list"

record PendingNode =
  pn_id :: NodeId
  pn_addr :: Ipv4Address

datatype QueryEvent =
    Visited PendingNode Request
  | Replied QueryReply
  | Committed QueryReply
  | Finished "QueryReply list"

record Query =
  q_target :: NodeId
  q_command :: u32
  q_value :: "bytes option"
  q_concurrency :: int
  q_internal :: bool
  q_done :: bool
  q_committing :: bool
  q_inflight :: int
  q_commit_inflight :: int
  q_dispatching_reply :: bool
  q_pending_done :: bool
  q_pending_done_fired :: bool
  q_from_table :: bool
  q_slowdown :: bool
  q_successes :: int
  q_errors :: int
  q_closest_replies :: "QueryReply list"
  q_pending :: "PendingNode list"
  q_pre_seeds :: "PendingNode list"
  q_seen :: "(string \<times> NodeState) list"
  q_on_reply :: bool
  q_on_done :: bool
  q_on_commit :: bool
  q_requests :: "PendingNode list"
  q_commits :: "QueryReply list"
  q_trace :: "QueryEvent list"

record QueryEnv =
  qe_table :: RoutingTable
  qe_filter :: "NodeId \<Rightarrow> Ipv4Address \<Rightarrow> bool"
  qe_plain :: plain_hash
  qe_reply_destroys :: "QueryReply \<Rightarrow> bool"
  qe_commit_destroys :: "QueryReply \<Rightarrow> bool"
  qe_commit_sync :: "QueryReply \<Rightarrow> bool"

definition zero_id :: NodeId where "zero_id = replicate 32 0"

definition Query_create :: "NodeId \<Rightarrow> u32 \<Rightarrow> bytes option \<Rightarrow> Query" where
  "Query_create target command value =
     \<lparr>q_target = target, q_command = command, q_value = value, q_concurrency = DEFAULT_CONCURRENCY,
      q_internal = False, q_done = False, q_committing = False, q_inflight = 0, q_commit_inflight = 0,
      q_dispatching_reply = False, q_pending_done = False, q_pending_done_fired = False,
      q_from_table = False, q_slowdown = False, q_successes = 0, q_errors = 0,
      q_closest_replies = [], q_pending = [], q_pre_seeds = [], q_seen = [],
      q_on_reply = False, q_on_done = False, q_on_commit = False,
      q_requests = [], q_commits = [], q_trace = []\<rparr>"

definition set_concurrency :: "int \<Rightarrow> Query \<Rightarrow> Query" where
  "set_concurrency c q = q\<lparr>q_concurrency := c\<rparr>"

definition set_commit :: "bool \<Rightarrow> Query \<Rightarrow> Query" where
  "set_commit cb q = q\<lparr>q_on_commit := cb\<rparr>"

definition set_internal :: "bool \<Rightarrow> Query \<Rightarrow> Query" where
  "set_internal b q = q\<lparr>q_internal := b\<rparr>"

definition on_reply :: "bool \<Rightarrow> Query \<Rightarrow> Query" where
  "on_reply cb q = q\<lparr>q_on_reply := cb\<rparr>"

definition on_done :: "bool \<Rightarrow> Query \<Rightarrow> Query" where
  "on_done cb q = q\<lparr>q_on_done := cb\<rparr>"

definition emit :: "QueryEvent \<Rightarrow> Query \<Rightarrow> Query" where
  "emit ev q = q\<lparr>q_trace := q_trace q @ [ev]\<rparr>"

section \<open>Seen addresses: an unordered map\<close>

fun seen_put :: "string \<Rightarrow> NodeState \<Rightarrow> (string \<times> NodeState) list \<Rightarrow> (string \<times> NodeState) list" where
  "seen_put k s [] = [(k, s)]"
| "seen_put k s ((k', s') # rs) = (if k' = k then (k, s) # rs else (k', s') # seen_put k s rs)"

section \<open>Closest replies\<close>

definition compare :: "NodeId \<Rightarrow> NodeId \<Rightarrow> NodeId \<Rightarrow> int" where
  "compare target a b = compare_distance target a b"

text \<open>The bubbling loop of \<^verbatim>\<open>push_closest\<close>: \<open>i\<close> is one more than the C++ index, which counts down to 0.
  The flag says that the duplicate was spliced out and the function returns.\<close>

fun push_loop :: "NodeId \<Rightarrow> QueryReply \<Rightarrow> nat \<Rightarrow> QueryReply list \<Rightarrow> bool \<times> QueryReply list" where
  "push_loop target reply 0 rs = (False, rs)"
| "push_loop target reply (Suc i) rs =
     (let cmp = compare target (qr_from_id (rs ! i)) (qr_from_id reply) in
      if cmp < 0 then (False, rs)
      else if cmp = 0 then (True, take (i + 1) rs @ drop (i + 2) rs)
      else push_loop target reply i (rs[i := rs ! (i + 1), i + 1 := rs ! i]))"

definition push_closest :: "NodeId \<Rightarrow> QueryReply \<Rightarrow> QueryReply list \<Rightarrow> QueryReply list" where
  "push_closest target reply closest =
     (case push_loop target reply (length closest) (closest @ [reply]) of
        (True, rs) \<Rightarrow> rs
      | (False, rs) \<Rightarrow> if length rs > K then butlast rs else rs)"

definition closest_nodes :: "Query \<Rightarrow> Ipv4Address list" where
  "closest_nodes q = map qr_from_addr (q_closest_replies q)"

definition is_closer :: "Query \<Rightarrow> NodeId \<Rightarrow> bool" where
  "is_closer q nid =
     (if length (q_closest_replies q) < K then True
      else compare (q_target q) nid (qr_from_id (last (q_closest_replies q))) < 0)"

section \<open>Completion\<close>

definition fire_done_once :: "Query \<Rightarrow> Query" where
  "fire_done_once q =
     (if \<not> q_pending_done_fired q \<and> q_on_done q
      then emit (Finished (q_closest_replies q)) (q\<lparr>q_pending_done_fired := True\<rparr>) else q)"

definition Query_destroy :: "Query \<Rightarrow> Query" where
  "Query_destroy q =
     (if q_done q then q else
      let q = q\<lparr>q_done := True, q_pending := [], q_committing := True\<rparr> in
      if q_dispatching_reply q then q\<lparr>q_pending_done := True\<rparr> else fire_done_once q)"

definition commit_answered :: "Query \<Rightarrow> Query" where
  "commit_answered q =
     (let q = q\<lparr>q_commit_inflight := q_commit_inflight q - 1\<rparr> in
      if q_commit_inflight q = 0 then fire_done_once (q\<lparr>q_done := True\<rparr>) else q)"

text \<open>The caller's \<^verbatim>\<open>on_commit_\<close> may call \<^verbatim>\<open>destroy()\<close>, and either answers before it returns or keeps the continuation for later.\<close>

definition call_commit :: "QueryEnv \<Rightarrow> QueryReply \<Rightarrow> Query \<Rightarrow> Query" where
  "call_commit e reply q =
     (let q = emit (Committed reply) q;
          q = (if qe_commit_destroys e reply then Query_destroy q else q) in
      if qe_commit_sync e reply then commit_answered q else q\<lparr>q_commits := q_commits q @ [reply]\<rparr>)"

fun commit_loop :: "QueryEnv \<Rightarrow> QueryReply list \<Rightarrow> Query \<Rightarrow> Query" where
  "commit_loop e [] q = q"
| "commit_loop e (reply # rs) q =
     (if qr_token reply = None then commit_loop e rs q
      else commit_loop e rs (call_commit e reply (q\<lparr>q_commit_inflight := q_commit_inflight q + 1\<rparr>)))"

definition do_commit :: "QueryEnv \<Rightarrow> Query \<Rightarrow> Query" where
  "do_commit e q =
     (let q = q\<lparr>q_committing := True, q_commit_inflight := 0\<rparr> in
      if q_closest_replies q = [] then fire_done_once (q\<lparr>q_done := True\<rparr>) else
      let q = commit_loop e (q_closest_replies q) q in
      if q_commit_inflight q = 0 then fire_done_once (q\<lparr>q_done := True\<rparr>) else q)"

definition maybe_finish :: "QueryEnv \<Rightarrow> Query \<Rightarrow> Query" where
  "maybe_finish e q =
     (if q_done q \<or> q_committing q then q
      else if q_inflight q > 0 then q
      else if q_pending q \<noteq> [] then q
      else if q_on_commit q then do_commit e q
      else fire_done_once (q\<lparr>q_done := True\<rparr>))"

section \<open>The frontier\<close>

definition add_pending :: "QueryEnv \<Rightarrow> NodeId \<Rightarrow> Ipv4Address \<Rightarrow> Query \<Rightarrow> Query" where
  "add_pending e nid addr q =
     (let key = addr_key addr in
      if key \<in> fst ` set (q_seen q) then q
      else if length (q_seen q) \<ge> MAX_SEEN then q
      else if \<not> qe_filter e nid addr then q
      else q\<lparr>q_seen := seen_put key PENDING (q_seen q),
             q_pending := q_pending q @ [\<lparr>pn_id = nid, pn_addr = addr\<rparr>]\<rparr>)"

definition add_bootstrap :: "QueryEnv \<Rightarrow> Ipv4Address \<Rightarrow> Query \<Rightarrow> Query" where
  "add_bootstrap e addr q = add_pending e zero_id addr q"

definition add_seed_node :: "NodeId \<Rightarrow> Ipv4Address \<Rightarrow> Query \<Rightarrow> Query" where
  "add_seed_node nid addr q = q\<lparr>q_pre_seeds := q_pre_seeds q @ [\<lparr>pn_id = nid, pn_addr = addr\<rparr>]\<rparr>"

definition seed_from_table :: "QueryEnv \<Rightarrow> Query \<Rightarrow> Query" where
  "seed_from_table e q =
     (if length (q_pending q) \<ge> K then q else
      let q = q\<lparr>q_from_table := True\<rparr>;
          need = K - length (q_pending q);
          closest = RoutingTable_closest (qe_table e) (q_target q) need
      in foldl (\<lambda>q n. add_pending e (node_id n) (Ipv4_from_string (node_host n) (node_port n)) q) q (rev closest))"

section \<open>Iteration\<close>

definition visit_request :: "Query \<Rightarrow> PendingNode \<Rightarrow> Request" where
  "visit_request q node =
     Request_init\<lparr>rq_to := pn_addr node, rq_command := q_command q, rq_target := Some (q_target q),
       rq_value := q_value q\<rparr>"

definition visit :: "PendingNode \<Rightarrow> Query \<Rightarrow> Query" where
  "visit node q =
     emit (Visited node (visit_request q node))
       (q\<lparr>q_inflight := q_inflight q + 1, q_requests := q_requests q @ [node]\<rparr>)"

function read_loop :: "int \<Rightarrow> Query \<Rightarrow> Query" where
  "read_loop limit q =
     (if q_inflight q < limit \<and> q_pending q \<noteq> [] then
        let next = last (q_pending q); q = q\<lparr>q_pending := butlast (q_pending q)\<rparr> in
        if pn_id next \<noteq> zero_id \<and> \<not> is_closer q (pn_id next) then read_loop limit q
        else read_loop limit (visit next q)
      else q)"
  by pat_completeness auto
termination
  by (relation "measure (\<lambda>(l, q). length (q_pending q))") (auto simp: visit_def emit_def)

declare read_loop.simps [simp del]

lemma read_loop_cases:
  obtains (stop) "\<not> (q_inflight q < limit \<and> q_pending q \<noteq> [])" "read_loop limit q = q"
  | (skip) xs x where "q_inflight q < limit" "q_pending q = xs @ [x]" "pn_id x \<noteq> zero_id"
      "\<not> is_closer q (pn_id x)" "read_loop limit q = read_loop limit (q\<lparr>q_pending := xs\<rparr>)"
  | (visit) xs x where "q_inflight q < limit" "q_pending q = xs @ [x]"
      "read_loop limit q = read_loop limit (visit x (q\<lparr>q_pending := xs\<rparr>))"
proof (cases "q_inflight q < limit \<and> q_pending q \<noteq> []")
  case False
  then show ?thesis
    by (intro stop) (simp_all add: read_loop.simps [of limit q] del: de_Morgan_conj)
next
  case True
  then obtain xs x where xs: "q_pending q = xs @ [x]"
    using rev_exhaust by blast
  have closer: "is_closer (q\<lparr>q_pending := xs\<rparr>) = is_closer q"
    by (simp add: is_closer_def fun_eq_iff)
  show ?thesis
    using True xs skip visit
    by (cases "pn_id x \<noteq> zero_id \<and> \<not> is_closer q (pn_id x)")
      (auto simp: read_loop.simps [of limit q] Let_def closer)
qed

text \<open>A property that popping and visiting keep holds after the loop.\<close>

lemma read_loop_induct [case_names pop visit]:
  assumes "P q"
    and "\<And>q xs x. P q \<Longrightarrow> q_inflight q < limit \<Longrightarrow> q_pending q = xs @ [x] \<Longrightarrow> P (q\<lparr>q_pending := xs\<rparr>)"
    and "\<And>q xs x. P q \<Longrightarrow> q_inflight q < limit \<Longrightarrow> q_pending q = xs @ [x] \<Longrightarrow> P (visit x (q\<lparr>q_pending := xs\<rparr>))"
  shows "P (read_loop limit q)"
  using assms(1)
proof (induction "length (q_pending q)" arbitrary: q)
  case 0
  then show ?case
    by (subst read_loop.simps) simp
next
  case (Suc n)
  show ?case
  proof (cases rule: read_loop_cases [of q limit])
    case stop
    then show ?thesis
      using Suc by simp
  next
    case (skip xs x)
    then show ?thesis
      using Suc(1) [of "q\<lparr>q_pending := xs\<rparr>"] Suc(2,3) assms(2) [OF Suc(3) skip(1,2)] by simp
  next
    case (visit xs x)
    then show ?thesis
      using Suc(1) [of "visit x (q\<lparr>q_pending := xs\<rparr>)"] Suc(2,3) assms(3) [OF Suc(3) visit(1,2)]
      by (simp add: visit_def emit_def)
  qed
qed

lemma read_loop_frame [simp]:
  "q_from_table (read_loop limit q) = q_from_table q"
  "q_done (read_loop limit q) = q_done q"
  by (rule read_loop_induct; simp add: visit_def emit_def)+

lemma read_loop_exit: "q_pending (read_loop limit q) \<noteq> [] \<Longrightarrow> limit \<le> q_inflight (read_loop limit q)"
proof (induction "length (q_pending q)" arbitrary: q)
  case 0
  then show ?case
    by (subst (asm) read_loop.simps) simp
next
  case (Suc n)
  show ?case
  proof (cases rule: read_loop_cases [of q limit])
    case stop
    then show ?thesis
      using Suc by auto
  next
    case (skip xs x)
    then show ?thesis
      using Suc(1) [of "q\<lparr>q_pending := xs\<rparr>"] Suc(2,3) by simp
  next
    case (visit xs x)
    then show ?thesis
      using Suc(1) [of "visit x (q\<lparr>q_pending := xs\<rparr>)"] Suc(2,3) by (simp add: visit_def emit_def)
  qed
qed

text \<open>The first half of \<^verbatim>\<open>read_more\<close>: dispatch up to the effective concurrency, then engage the slowdown.\<close>

definition fill_slots :: "Query \<Rightarrow> Query" where
  "fill_slots q =
     (let effective_concurrency = (if q_slowdown q then SLOWDOWN_CONCURRENCY else q_concurrency q);
          q = read_loop effective_concurrency q
      in if \<not> q_from_table q \<and> q_successes q = 0 \<and> q_errors q = 0 then q\<lparr>q_slowdown := True\<rparr> else q)"

lemma fill_slots_frame [simp]:
  "q_from_table (fill_slots q) = q_from_table q" "q_done (fill_slots q) = q_done q"
  by (simp_all add: fill_slots_def Let_def)

text \<open>\<^verbatim>\<open>read_more\<close> calls itself after it has filled the frontier from the routing table.\<close>

function read_more :: "QueryEnv \<Rightarrow> Query \<Rightarrow> Query" where
  "read_more e q =
     (if q_done q then q else
      let q = fill_slots q in
      if q_pending q \<noteq> [] then q
      else if q_inflight q > 0 then q
      else if \<not> q_from_table q \<and> q_successes q < int K div 4 then
        (let q = seed_from_table e q in
         if q_from_table q then read_more e q else maybe_finish e q)
      else maybe_finish e q)"
  by pat_completeness auto
termination
  by (relation "measure (\<lambda>(e, q). if q_from_table q then 0 else 1)") (auto simp: Let_def split: if_splits)

declare read_more.simps [simp del]

lemma read_more_cases:
  obtains (over) "q_done q" "read_more e q = q"
  | (wait) "\<not> q_done q" "q_pending (fill_slots q) \<noteq> [] \<or> q_inflight (fill_slots q) > 0" "read_more e q = fill_slots q"
  | (reseed) "\<not> q_done q" "q_pending (fill_slots q) = []" "\<not> q_inflight (fill_slots q) > 0" "\<not> q_from_table q"
      "q_successes (fill_slots q) < int K div 4" "q_from_table (seed_from_table e (fill_slots q))"
      "read_more e q = read_more e (seed_from_table e (fill_slots q))"
  | (finish) r where "\<not> q_done q" "q_pending (fill_slots q) = []" "\<not> q_inflight (fill_slots q) > 0"
      "r = fill_slots q \<or> r = seed_from_table e (fill_slots q) \<and> \<not> q_from_table r" "read_more e q = maybe_finish e r"
  using that read_more.simps [of e q] unfolding Let_def by (smt (verit) fill_slots_frame)

text \<open>A property that the two halves keep holds after \<^verbatim>\<open>read_more\<close>.\<close>

lemma read_more_induct [case_names start fill seed finish]:
  assumes "P q" and "\<And>q. P q \<Longrightarrow> P (fill_slots q)" and "\<And>q. P q \<Longrightarrow> P (seed_from_table e q)"
    and "\<And>q. P q \<Longrightarrow> P (maybe_finish e q)"
  shows "P (read_more e q)"
  using assms(1)
proof (induction e \<equiv> e q rule: read_more.induct)
  case (1 q)
  note IH = 1(1) and P = 1(2)
  show ?case
  proof (cases rule: read_more_cases [of q e])
    case reseed
    then show ?thesis
      using IH reseed P assms by simp
  qed (use P assms(2-4) in auto)
qed

definition Query_start :: "QueryEnv \<Rightarrow> Query \<Rightarrow> Query" where
  "Query_start e q =
     (let q = foldl (\<lambda>q s. add_pending e (pn_id s) (pn_addr s) q) q (rev (q_pre_seeds q));
          q = q\<lparr>q_pre_seeds := []\<rparr>;
          q = (if length (q_pending q) < K then seed_from_table e q else q)
      in read_more e q)"

section \<open>Answers\<close>

definition reply_of :: "PendingNode \<Rightarrow> Response \<Rightarrow> QueryReply" where
  "reply_of node resp =
     \<lparr>qr_from_id = (case rs_id resp of None \<Rightarrow> zero_id | Some i \<Rightarrow> i), qr_from_addr = pn_addr node,
      qr_token = rs_token resp, qr_value = rs_value resp, qr_closer_nodes = rs_closer_nodes resp\<rparr>"

definition is_success :: "Response \<Rightarrow> bool" where
  "is_success resp \<longleftrightarrow> rs_error resp = None \<or> rs_error resp = Some 0"

definition add_closer :: "QueryEnv \<Rightarrow> Query \<Rightarrow> Ipv4Address \<Rightarrow> Query" where
  "add_closer e q closer =
     (if ip_port closer = 0 then q else
      let closer_id = compute_peer_id (qe_plain e) closer in
      if closer_id = rt_id (qe_table e) then q else add_pending e closer_id closer q)"

definition dispatch_reply :: "QueryEnv \<Rightarrow> QueryReply \<Rightarrow> Query \<Rightarrow> Query" where
  "dispatch_reply e reply q =
     (if q_on_reply q then
        let q = emit (Replied reply) (q\<lparr>q_dispatching_reply := True\<rparr>);
            q = (if qe_reply_destroys e reply then Query_destroy q else q)
        in q\<lparr>q_dispatching_reply := False\<rparr>
      else q)"

definition count_reply :: "Response \<Rightarrow> Query \<Rightarrow> Query" where
  "count_reply resp q =
     (if is_success resp then q\<lparr>q_successes := q_successes q + 1\<rparr> else q\<lparr>q_errors := q_errors q + 1\<rparr>)"

definition keep_reply :: "Response \<Rightarrow> QueryReply \<Rightarrow> Query \<Rightarrow> Query" where
  "keep_reply resp reply q =
     (if is_success resp \<and> qr_from_id reply \<noteq> zero_id
      then q\<lparr>q_closest_replies := push_closest (q_target q) reply (q_closest_replies q)\<rparr> else q)"

definition end_slowdown :: "Query \<Rightarrow> Query" where
  "end_slowdown q =
     (if \<not> q_from_table q \<and> q_successes q + q_errors q \<ge> q_concurrency q then q\<lparr>q_slowdown := False\<rparr> else q)"

definition flush_done :: "Query \<Rightarrow> Query" where
  "flush_done q = (if q_pending_done q then fire_done_once (q\<lparr>q_pending_done := False\<rparr>) else q)"

definition on_visit_response :: "QueryEnv \<Rightarrow> PendingNode \<Rightarrow> Response \<Rightarrow> Query \<Rightarrow> Query" where
  "on_visit_response e node resp q =
     (if q_done q then q else
      let q = q\<lparr>q_seen := seen_put (addr_key (pn_addr node)) DONE (q_seen q)\<rparr>;
          q = count_reply resp q;
          reply = reply_of node resp;
          q = keep_reply resp reply q;
          q = foldl (add_closer e) q (rs_closer_nodes resp);
          q = end_slowdown q;
          q = dispatch_reply e reply q;
          q = read_more e q
      in flush_done q)"

definition on_visit_timeout :: "QueryEnv \<Rightarrow> PendingNode \<Rightarrow> Query \<Rightarrow> Query" where
  "on_visit_timeout e node q =
     (if q_done q then q else
      let q = q\<lparr>q_seen := seen_put (addr_key (pn_addr node)) DOWN (q_seen q)\<rparr>;
          q = q\<lparr>q_errors := q_errors q + 1\<rparr>
      in read_more e q)"

text \<open>The lambdas \<^verbatim>\<open>visit\<close> hands to the socket, and the one \<^verbatim>\<open>do_commit\<close> hands to the caller.\<close>

definition visit_answered :: "PendingNode \<Rightarrow> Query \<Rightarrow> Query" where
  "visit_answered node q = q\<lparr>q_inflight := q_inflight q - 1, q_requests := remove1 node (q_requests q)\<rparr>"

definition deliver_response :: "QueryEnv \<Rightarrow> PendingNode \<Rightarrow> Response \<Rightarrow> Query \<Rightarrow> Query" where
  "deliver_response e node resp q = on_visit_response e node resp (visit_answered node q)"

definition deliver_timeout :: "QueryEnv \<Rightarrow> PendingNode \<Rightarrow> Query \<Rightarrow> Query" where
  "deliver_timeout e node q = on_visit_timeout e node (visit_answered node q)"

definition deliver_commit :: "QueryReply \<Rightarrow> Query \<Rightarrow> Query" where
  "deliver_commit reply q = commit_answered (q\<lparr>q_commits := remove1 reply (q_commits q)\<rparr>)"

section \<open>Runs\<close>

text \<open>A query is configured, started, and then receives answers in any order; \<open>n\<close> counts them.\<close>

inductive query_fresh :: "Query \<Rightarrow> bool" where
  create: "query_fresh (Query_create target command value)"
| concurrency: "query_fresh q \<Longrightarrow> query_fresh (set_concurrency c q)"
| commit: "query_fresh q \<Longrightarrow> query_fresh (set_commit b q)"
| internal: "query_fresh q \<Longrightarrow> query_fresh (set_internal b q)"
| reply: "query_fresh q \<Longrightarrow> query_fresh (on_reply b q)"
| on_finish: "query_fresh q \<Longrightarrow> query_fresh (on_done b q)"
| bootstrap: "query_fresh q \<Longrightarrow> query_fresh (add_bootstrap e addr q)"
| seed: "query_fresh q \<Longrightarrow> query_fresh (add_seed_node nid addr q)"

inductive query_run :: "nat \<Rightarrow> Query \<Rightarrow> bool" where
  start: "query_fresh q \<Longrightarrow> query_run 0 (Query_start e q)"
| response: "query_run n q \<Longrightarrow> node \<in> set (q_requests q) \<Longrightarrow> query_run (Suc n) (deliver_response e node resp q)"
| timeout: "query_run n q \<Longrightarrow> node \<in> set (q_requests q) \<Longrightarrow> query_run (Suc n) (deliver_timeout e node q)"
| commit: "query_run n q \<Longrightarrow> reply \<in> set (q_commits q) \<Longrightarrow> query_run (Suc n) (deliver_commit reply q)"
| destroy: "query_run n q \<Longrightarrow> query_run n (Query_destroy q)"

end
