(* ===== verification/Query_Live.thy ===== *)
theory Query_Live
  imports Query
begin

text \<open>
  Correctness of the query engine: the closest replies are the k nearest, no address is visited twice, the completion
  callback fires at most once, and a query that is answered finishes.  The invariant \<open>query_ok\<close> holds in every
  state of a run and \<open>settled\<close> between two answers.
\<close>

section \<open>Closest replies\<close>

abbreviation reply_dist :: "NodeId \<Rightarrow> QueryReply \<Rightarrow> bytes" where
  "reply_dist target r \<equiv> xor_dist target (qr_from_id r)"

abbreviation ids_ok :: "NodeId \<Rightarrow> QueryReply list \<Rightarrow> bool" where
  "ids_ok target rs \<equiv> (\<forall>r \<in> set rs. length (qr_from_id r) = length target)"

lemma push_loop_spec:
  assumes "ids_ok target (reply # A)" and "sorted_wrt (<) (map (reply_dist target) A)"
  shows "push_loop target reply (length A) (A @ reply # B) =
    (if reply_dist target reply \<in> reply_dist target ` set A then (True, A @ B)
     else (False, takeWhile (\<lambda>a. reply_dist target a < reply_dist target reply) A @ reply #
       dropWhile (\<lambda>a. reply_dist target a < reply_dist target reply) A @ B))"
  using assms
proof (induction A arbitrary: B rule: rev_induct)
  case (snoc a A)
  let ?d = "reply_dist target"
  have len: "length target = length (qr_from_id a)" "length target = length (qr_from_id reply)"
    using snoc.prems(1) by simp_all
  note cmp = compare_distance_dist [OF len]
  have less: "\<forall>x \<in> set A. ?d x < ?d a"
    using snoc.prems(2) by (simp add: sorted_wrt_append)
  have nth: "(A @ a # reply # B) ! length A = a" "(A @ a # reply # B) ! Suc (length A) = reply"
    by (simp_all add: nth_append)
  have swap: "(A @ reply # reply # B)[Suc (length A) := a] = A @ reply # a # B"
    by (simp add: list_update_append)
  have eq: "?d a = ?d reply \<longleftrightarrow> qr_from_id a = qr_from_id reply"
    using cmp by (metis less_irrefl not_less_iff_gr_or_eq)
  have IH: "push_loop target reply (length A) (A @ reply # a # B) =
      (if ?d reply \<in> ?d ` set A then (True, A @ a # B)
       else (False, takeWhile (\<lambda>a. ?d a < ?d reply) A @ reply # dropWhile (\<lambda>a. ?d a < ?d reply) A @ a # B))"
    using snoc.IH [of "a # B"] snoc.prems by (simp add: sorted_wrt_append)
  consider "?d a < ?d reply" | "?d a = ?d reply" | "?d reply < ?d a"
    by fastforce
  then show ?case
  proof cases
    case 1
    then have "\<forall>x \<in> set A. ?d x < ?d reply"
      using less by force
    then show ?thesis
      using 1 cmp(1) by (auto simp: Query.compare_def nth takeWhile_eq_all_conv [THEN iffD2])
  next
    case 2
    then show ?thesis
      using cmp(2) eq by (auto simp: Query.compare_def nth Let_def)
  next
    case 3
    then have "\<not> compare_distance target (qr_from_id a) (qr_from_id reply) < 0"
      "compare_distance target (qr_from_id a) (qr_from_id reply) \<noteq> 0"
      using cmp by auto
    then show ?thesis
      using 3 IH by (auto simp: Query.compare_def nth swap Let_def takeWhile_append dropWhile_append)
  qed
qed simp

lemma insort_split:
  fixes x :: "'a :: linorder"
  shows "insort x xs = takeWhile (\<lambda>y. y < x) xs @ x # dropWhile (\<lambda>y. y < x) xs"
  by (induction xs) auto

lemma push_closest_keys:
  assumes "ids_ok target (reply # c)" and "sorted_wrt (<) (map (reply_dist target) c)" and "length c \<le> K"
  shows "map (reply_dist target) (push_closest target reply c) =
    take K (insort_insert (reply_dist target reply) (map (reply_dist target) c))"
proof -
  let ?d = "reply_dist target"
  have len: "length (insort (?d reply) (map ?d c)) \<le> Suc K"
    using assms(3) by simp
  have ins: "map ?d (takeWhile (\<lambda>a. ?d a < ?d reply) c @ reply # dropWhile (\<lambda>a. ?d a < ?d reply) c) =
      insort (?d reply) (map ?d c)"
    by (simp add: insort_split takeWhile_map dropWhile_map o_def)
  have cap: "map ?d (if K < length rs then butlast rs else rs) = take K (map ?d rs)" if "length rs \<le> Suc K" for rs
    using that by (cases "length rs = Suc K") (simp_all add: butlast_conv_take take_map)
  have l: "length (takeWhile (\<lambda>a. ?d a < ?d reply) c @ reply # dropWhile (\<lambda>a. ?d a < ?d reply) c) \<le> Suc K"
    using arg_cong [OF ins, of length] len by simp
  show ?thesis
    using push_loop_spec [OF assms(1,2), of "[]"] assms(3) cap [OF l, unfolded ins]
    by (cases "?d reply \<in> ?d ` set c") (simp_all add: push_closest_def insort_insert_key_def)
qed

lemma take_insort_insert:
  fixes xs :: "'a :: linorder list"
  assumes "sorted_wrt (<) xs"
  shows "take k (insort_insert x (take k xs)) = take k (insort_insert x xs)"
  using assms
proof (induction xs arbitrary: k)
  case (Cons y ys)
  show ?case
  proof (cases k)
    case (Suc m)
    consider "x < y" | "x = y" | "y < x"
      by fastforce
    then show ?thesis
    proof cases
      case 1
      then have "x \<notin> set (y # ys)"
        using Cons.prems by auto
      then have "x \<notin> set (take k (y # ys))"
        using in_set_takeD by fastforce
      then show ?thesis
        using 1 \<open>x \<notin> set (y # ys)\<close> by (cases m) (simp_all add: Suc insort_insert_key_def)
    next
      case 2
      then show ?thesis
        by (simp add: Suc insort_insert_key_def)
    next
      case 3
      have ys: "insort_insert x (y # zs) = y # insort_insert x zs" for zs
        using 3 by (auto simp: insort_insert_key_def)
      show ?thesis
        using Cons.IH [of m] Cons.prems by (simp add: Suc ys)
    qed
  qed simp
qed simp

lemma sorted_list_of_set_insert':
  "finite S \<Longrightarrow> sorted_list_of_set (insert x S) = insort_insert x (sorted_list_of_set S)"
  by (intro sorted_distinct_set_unique)
    (simp_all add: sorted_insort_insert distinct_insort_insert set_insort_insert del: sorted_list_of_set_insert_remove)

lemma push_closest_keeps:
  assumes "ids_ok target (reply # c)" and "map (reply_dist target) c = take K (sorted_list_of_set S)" and "finite S"
  shows "map (reply_dist target) (push_closest target reply c) =
    take K (sorted_list_of_set (insert (reply_dist target reply) S))"
proof -
  have strict: "sorted_wrt (<) (sorted_list_of_set S)"
    by (simp add: strict_sorted_iff)
  then have "sorted_wrt (<) (map (reply_dist target) c)"
    unfolding assms(2) by (rule sorted_wrt_take)
  moreover have "length c \<le> K"
    using arg_cong [OF assms(2), of length] by simp
  ultimately show ?thesis
    using push_closest_keys [OF assms(1)] take_insort_insert [OF strict, of K]
    by (simp add: assms(2,3) sorted_list_of_set_insert' del: sorted_list_of_set_insert_remove)
qed

lemma push_loop_set: "i < length rs \<Longrightarrow> set (snd (push_loop target reply i rs)) \<subseteq> set rs"
proof (induction target reply i rs rule: push_loop.induct)
  case (2 target reply i rs)
  have "set (rs[i := rs ! (i + 1), i + 1 := rs ! i]) \<subseteq> set rs"
    using 2(2) by (intro set_update_subsetI) auto
  then show ?case
    using 2 set_take_subset [of "i + 1" rs] set_drop_subset [of "i + 2" rs] by (auto simp: Let_def)
qed simp

lemma push_closest_subset: "set (push_closest target reply c) \<subseteq> insert reply (set c)"
proof -
  obtain dup rs where l: "push_loop target reply (length c) (c @ [reply]) = (dup, rs)"
    by (rule prod.exhaust)
  then have "set rs \<subseteq> insert reply (set c)"
    using push_loop_set [of "length c" "c @ [reply]" target reply] by simp
  moreover have "set (butlast rs) \<subseteq> set rs"
    by (auto dest: in_set_butlastD)
  ultimately show ?thesis
    by (cases dup) (auto simp: push_closest_def l)
qed

lemma push_loop_length: "i < length rs \<Longrightarrow> length (snd (push_loop target reply i rs)) \<le> length rs \<and>
    (fst (push_loop target reply i rs) \<longrightarrow> length (snd (push_loop target reply i rs)) < length rs)"
  by (induction target reply i rs rule: push_loop.induct) (auto simp: Let_def)

lemma push_closest_length: "length c \<le> K \<Longrightarrow> length (push_closest target reply c) \<le> K"
  using push_loop_length [of "length c" "c @ [reply]" target reply]
  by (cases "push_loop target reply (length c) (c @ [reply])"; cases "fst (push_loop target reply (length c) (c @ [reply]))")
    (auto simp: push_closest_def)

lemma foldl_push_keys:
  assumes "ids_ok target rs"
  shows "map (reply_dist target) (foldl (\<lambda>c r. push_closest target r c) [] rs) =
      take K (sorted_list_of_set (reply_dist target ` set rs)) \<and>
    set (foldl (\<lambda>c r. push_closest target r c) [] rs) \<subseteq> set rs"
  using assms
proof (induction rs rule: rev_induct)
  case (snoc r rs)
  let ?c = "foldl (\<lambda>c r. push_closest target r c) [] rs"
  have "map (reply_dist target) ?c = take K (sorted_list_of_set (reply_dist target ` set rs))" "set ?c \<subseteq> set rs"
    using snoc by simp_all
  moreover from this have "ids_ok target (r # ?c)"
    using snoc.prems by auto
  ultimately show ?case
    using push_closest_keeps [of r ?c target "reply_dist target ` set rs"] push_closest_subset [of target r ?c] by auto
qed simp

section \<open>The invariant of a run\<close>

fun visits :: "QueryEvent list \<Rightarrow> PendingNode list" where
  "visits [] = []"
| "visits (Visited node req # es) = node # visits es"
| "visits (_ # es) = visits es"

fun commits_in :: "QueryEvent list \<Rightarrow> QueryReply list" where
  "commits_in [] = []"
| "commits_in (Committed r # es) = r # commits_in es"
| "commits_in (_ # es) = commits_in es"

fun finishes :: "QueryEvent list \<Rightarrow> QueryReply list list" where
  "finishes [] = []"
| "finishes (Finished rs # es) = rs # finishes es"
| "finishes (_ # es) = finishes es"

lemma trace_append [simp]:
  "visits (xs @ ys) = visits xs @ visits ys"
  "commits_in (xs @ ys) = commits_in xs @ commits_in ys"
  "finishes (xs @ ys) = finishes xs @ finishes ys"
  subgoal by (induction xs rule: visits.induct) simp_all
  subgoal by (induction xs rule: commits_in.induct) simp_all
  subgoal by (induction xs rule: finishes.induct) simp_all
  done

abbreviation node_key :: "PendingNode \<Rightarrow> string" where
  "node_key n \<equiv> addr_key (pn_addr n)"

definition query_ok :: "nat \<Rightarrow> Query \<Rightarrow> bool" where
  "query_ok n q \<longleftrightarrow>
     q_inflight q = int (length (q_requests q)) \<and> set (q_requests q) \<subseteq> set (visits (q_trace q)) \<and>
     n + length (q_requests q) + length (q_commits q) \<le> length (visits (q_trace q)) + length (commits_in (q_trace q)) \<and>
     distinct (map fst (q_seen q)) \<and> length (q_seen q) \<le> MAX_SEEN \<and>
     distinct (map node_key (visits (q_trace q) @ q_pending q)) \<and>
     node_key ` set (visits (q_trace q) @ q_pending q) \<subseteq> fst ` set (q_seen q) \<and>
     length (q_closest_replies q) \<le> K \<and> length (commits_in (q_trace q)) \<le> K \<and>
     (\<not> q_committing q \<longrightarrow> commits_in (q_trace q) = [] \<and> q_commits q = []) \<and>
     length (finishes (q_trace q)) = of_bool (q_pending_done_fired q) \<and>
     (q_pending_done_fired q \<or> q_pending_done q \<longrightarrow> q_done q)"

lemma seen_put_keys: "fst ` set (seen_put k s rs) = insert k (fst ` set rs)"
  by (induction k s rs rule: seen_put.induct) auto

lemma seen_put_distinct: "distinct (map fst rs) \<Longrightarrow> distinct (map fst (seen_put k s rs))"
proof (induction k s rs rule: seen_put.induct)
  case (2 k s k' s' rs)
  then show ?case
    using seen_put_keys [of k s rs] by auto
qed simp

lemma seen_put_length: "length (seen_put k s rs) = length rs + of_bool (k \<notin> fst ` set rs)"
  by (induction k s rs rule: seen_put.induct) auto

lemma query_ok_add_pending: "query_ok n q \<Longrightarrow> query_ok n (add_pending e nid addr q)"
  by (auto simp: query_ok_def add_pending_def Let_def seen_put_keys seen_put_distinct seen_put_length)

lemma query_ok_visit:
  "query_ok n q \<Longrightarrow> q_pending q = xs @ [x] \<Longrightarrow> query_ok n (visit x (q\<lparr>q_pending := xs\<rparr>))"
  by (auto simp: query_ok_def visit_def emit_def)

lemma query_ok_pop: "query_ok n q \<Longrightarrow> q_pending q = xs @ [x] \<Longrightarrow> query_ok n (q\<lparr>q_pending := xs\<rparr>)"
  by (auto simp: query_ok_def)

lemma query_ok_read_loop: "query_ok n q \<Longrightarrow> query_ok n (read_loop limit q)"
  by (rule read_loop_induct) (auto intro: query_ok_visit query_ok_pop)

lemma query_ok_fire: "query_ok n q \<Longrightarrow> q_done q \<Longrightarrow> query_ok n (fire_done_once q)"
  by (auto simp: query_ok_def fire_done_once_def emit_def)

text \<open>Updates of the flags and counters the invariant does not mention.\<close>

lemma query_ok_flags [simp]:
  "query_ok n (q\<lparr>q_slowdown := b\<rparr>) = query_ok n q"
  "query_ok n (q\<lparr>q_from_table := b\<rparr>) = query_ok n q"
  "query_ok n (q\<lparr>q_successes := i\<rparr>) = query_ok n q"
  "query_ok n (q\<lparr>q_errors := i\<rparr>) = query_ok n q"
  "query_ok n (q\<lparr>q_pre_seeds := ps\<rparr>) = query_ok n q"
  "query_ok n (q\<lparr>q_dispatching_reply := b\<rparr>) = query_ok n q"
  "query_ok n (q\<lparr>q_commit_inflight := i\<rparr>) = query_ok n q"
  by (simp_all add: query_ok_def)

lemma query_ok_done: "query_ok n q \<Longrightarrow> query_ok n (q\<lparr>q_done := True\<rparr>)"
  by (simp add: query_ok_def)

lemma query_ok_fold:
  "query_ok n q \<Longrightarrow> (\<And>q x. query_ok n q \<Longrightarrow> query_ok n (f q x)) \<Longrightarrow> query_ok n (foldl f q xs)"
  by (induction xs arbitrary: q) auto

lemma query_ok_seed: "query_ok n q \<Longrightarrow> query_ok n (seed_from_table e q)"
  by (auto simp: seed_from_table_def Let_def intro: query_ok_fold query_ok_add_pending)

lemma query_ok_destroy: "query_ok n q \<Longrightarrow> query_ok n (Query_destroy q)"
  by (auto simp: Query_destroy_def Let_def query_ok_def fire_done_once_def emit_def)

section \<open>The commit phase\<close>

text \<open>During the commit loop at most \<open>k\<close> further commits are issued.\<close>

definition commit_ok :: "nat \<Rightarrow> nat \<Rightarrow> Query \<Rightarrow> bool" where
  "commit_ok n k q \<longleftrightarrow> query_ok n q \<and> q_committing q \<and> length (commits_in (q_trace q)) + k \<le> K"

lemma commit_ok_call:
  "commit_ok n (Suc k) q \<Longrightarrow> commit_ok n k (call_commit e r (q\<lparr>q_commit_inflight := i\<rparr>))"
  by (auto simp: commit_ok_def query_ok_def call_commit_def commit_answered_def Query_destroy_def fire_done_once_def emit_def Let_def)

lemma commit_ok_loop: "commit_ok n (length rs) q \<Longrightarrow> commit_ok n 0 (commit_loop e rs q)"
proof (induction e rs q rule: commit_loop.induct)
  case (2 e r rs q)
  moreover have "commit_ok n (length rs) q" if "commit_ok n (length (r # rs)) q"
    using that by (simp add: commit_ok_def)
  ultimately show ?case
    using commit_ok_call [of n "length rs" q e r] by simp
qed simp

lemma query_ok_do_commit:
  assumes "query_ok n q" and "\<not> q_committing q"
  shows "query_ok n (do_commit e q)"
proof -
  let ?q = "q\<lparr>q_committing := True, q_commit_inflight := 0\<rparr>"
  have "query_ok n ?q" and "commit_ok n (length (q_closest_replies q)) ?q"
    using assms by (auto simp: commit_ok_def query_ok_def)
  moreover from this have "query_ok n (commit_loop e (q_closest_replies q) ?q)"
    using commit_ok_loop by (simp add: commit_ok_def)
  ultimately show ?thesis
    by (simp add: do_commit_def Let_def query_ok_fire query_ok_done)
qed

lemma query_ok_finish: "query_ok n q \<Longrightarrow> query_ok n (maybe_finish e q)"
  by (simp add: maybe_finish_def query_ok_do_commit query_ok_fire query_ok_done)

lemma query_ok_fill: "query_ok n q \<Longrightarrow> query_ok n (fill_slots q)"
  by (simp add: fill_slots_def Let_def query_ok_read_loop)

lemma query_ok_read_more: "query_ok n q \<Longrightarrow> query_ok n (read_more e q)"
  by (rule read_more_induct) (simp_all add: query_ok_fill query_ok_finish query_ok_seed)

lemma query_ok_dispatch: "query_ok n q \<Longrightarrow> query_ok n (dispatch_reply e r q)"
proof -
  assume "query_ok n q"
  then have "query_ok n (emit (Replied r) (q\<lparr>q_dispatching_reply := True\<rparr>))"
    by (simp add: query_ok_def emit_def)
  then show ?thesis
    using \<open>query_ok n q\<close> by (simp add: dispatch_reply_def Let_def query_ok_destroy)
qed

lemma query_ok_closer: "query_ok n q \<Longrightarrow> query_ok n (add_closer e q a)"
  by (simp add: add_closer_def Let_def query_ok_add_pending)

lemma query_ok_seen_put:
  "query_ok n q \<Longrightarrow> k \<in> fst ` set (q_seen q) \<Longrightarrow> query_ok n (q\<lparr>q_seen := seen_put k s (q_seen q)\<rparr>)"
  by (auto simp: query_ok_def seen_put_keys seen_put_distinct seen_put_length)

lemma query_ok_stages:
  assumes "query_ok n q"
  shows "query_ok n (count_reply resp q)" "query_ok n (keep_reply resp r q)" "query_ok n (end_slowdown q)"
    "query_ok n (flush_done q)"
  using assms query_ok_fire [of n "q\<lparr>q_pending_done := False\<rparr>"]
  by (simp_all add: count_reply_def keep_reply_def end_slowdown_def flush_done_def)
    (auto simp: query_ok_def push_closest_length)

lemma Suc_length_remove1: "x \<in> set xs \<Longrightarrow> Suc (length (remove1 x xs)) = length xs"
  using length_pos_if_in_set [of x xs] by (simp add: length_remove1)

lemma query_ok_answered:
  assumes "query_ok n q" and "node \<in> set (q_requests q)"
  shows "query_ok (Suc n) (visit_answered node q)"
proof -
  have "int (length (q_requests q)) - 1 = int (length (remove1 node (q_requests q)))"
    using Suc_length_remove1 [OF assms(2)] by linarith
  moreover have "set (remove1 node (q_requests q)) \<subseteq> set (visits (q_trace q))"
    using assms(1) set_remove1_subset [of node "q_requests q"] unfolding query_ok_def by blast
  ultimately show ?thesis
    using assms(1) Suc_length_remove1 [OF assms(2)] by (simp add: query_ok_def visit_answered_def)
qed

text \<open>Everything asked was visited, so its address has been seen.\<close>

lemma requests_seen:
  assumes "query_ok n q" and "node \<in> set (q_requests q)"
  shows "node_key node \<in> fst ` set (q_seen q)"
proof -
  have "node \<in> set (visits (q_trace q) @ q_pending q)" "node_key ` set (visits (q_trace q) @ q_pending q) \<subseteq> fst ` set (q_seen q)"
    using assms unfolding query_ok_def by auto
  then show ?thesis
    by blast
qed

lemma query_ok_response:
  assumes "query_ok n q" and "node_key node \<in> fst ` set (q_seen q)"
  shows "query_ok n (on_visit_response e node resp q)"
  using assms
  by (simp add: on_visit_response_def Let_def query_ok_stages query_ok_read_more query_ok_dispatch query_ok_fold
      query_ok_closer query_ok_seen_put)

lemma query_ok_timeout:
  assumes "query_ok n q" and "node_key node \<in> fst ` set (q_seen q)"
  shows "query_ok n (on_visit_timeout e node q)"
  using assms by (simp add: on_visit_timeout_def Let_def query_ok_read_more query_ok_seen_put)

lemma query_ok_commit:
  assumes "query_ok n q" and "r \<in> set (q_commits q)"
  shows "query_ok (Suc n) (deliver_commit r q)"
proof -
  have "query_ok (Suc n) (q\<lparr>q_commits := remove1 r (q_commits q)\<rparr>)"
    using assms Suc_length_remove1 [OF assms(2)] by (auto simp: query_ok_def)
  then show ?thesis
    using query_ok_fire [OF query_ok_done] by (simp add: deliver_commit_def commit_answered_def Let_def)
qed

section \<open>Progress\<close>

text \<open>The control part of the state; building up the frontier and dispatching visits leave it alone.\<close>

definition control where
  "control q = (q_done q, q_committing q, q_dispatching_reply q, q_pending_done q, q_pending_done_fired q, q_on_done q,
     q_concurrency q, q_commits q)"

lemma control_eqD:
  assumes "control q = control r"
  shows "q_done q = q_done r" "q_committing q = q_committing r" "q_dispatching_reply q = q_dispatching_reply r"
    "q_pending_done q = q_pending_done r" "q_pending_done_fired q = q_pending_done_fired r"
    "q_on_done q = q_on_done r" "q_concurrency q = q_concurrency r" "q_commits q = q_commits r"
  using assms by (simp_all add: control_def)

lemma control_add_pending [simp]: "control (add_pending e nid a q) = control q"
  by (simp add: add_pending_def control_def Let_def)

lemma control_fold: "(\<And>q x. control (f q x) = control q) \<Longrightarrow> control (foldl f q xs) = control q"
  by (induction xs arbitrary: q) auto

lemma control_frame [simp]:
  "control (q\<lparr>q_from_table := b\<rparr>) = control q" "control (q\<lparr>q_slowdown := b\<rparr>) = control q"
  "control (q\<lparr>q_pre_seeds := ps\<rparr>) = control q" "control (q\<lparr>q_seen := sn\<rparr>) = control q"
  "control (q\<lparr>q_successes := i\<rparr>) = control q" "control (q\<lparr>q_errors := i\<rparr>) = control q"
  "control (q\<lparr>q_closest_replies := rs\<rparr>) = control q" "control (q\<lparr>q_pending := ps'\<rparr>) = control q"
  "control (visit x q) = control q" "control (visit_answered x q) = control q"
  by (simp_all add: control_def visit_def emit_def visit_answered_def)

lemma control_stages [simp]:
  "control (seed_from_table e q) = control q" "control (fill_slots q) = control q"
  "control (add_closer e q a) = control q" "control (count_reply resp q) = control q"
  "control (keep_reply resp r q) = control q" "control (end_slowdown q) = control q"
proof -
  have "control (read_loop limit r) = control r" for limit r
    by (rule read_loop_induct [where P = "\<lambda>r'. control r' = control r"]) simp_all
  then show "control (fill_slots q) = control q"
    by (simp add: fill_slots_def Let_def)
qed (simp_all add: seed_from_table_def Let_def control_fold add_closer_def count_reply_def keep_reply_def end_slowdown_def)

text \<open>No callback is being dispatched and a finished query has told its caller, or is about to.\<close>

definition calm :: "Query \<Rightarrow> bool" where
  "calm q \<longleftrightarrow> \<not> q_dispatching_reply q \<and> (q_done q \<and> q_on_done q \<longrightarrow> q_pending_done_fired q \<or> q_pending_done q)"

definition ready :: "Query \<Rightarrow> bool" where
  "ready q \<longleftrightarrow> calm q \<and> (\<not> q_done q \<longrightarrow> \<not> q_committing q)"

text \<open>Between two answers a query is over, waits for a commit, or waits for a visit.\<close>

definition settled :: "Query \<Rightarrow> bool" where
  "settled q \<longleftrightarrow> calm q \<and>
     (\<not> q_done q \<longrightarrow>
        (if q_committing q then q_requests q = [] \<and> q_commits q \<noteq> [] \<and> q_commit_inflight q = int (length (q_commits q))
         else q_requests q \<noteq> []))"

lemma ready_control: "control q = control r \<Longrightarrow> ready q = ready r"
  by (simp add: ready_def calm_def control_def)

lemma settled_fire: "\<not> q_dispatching_reply q \<Longrightarrow> q_done q \<Longrightarrow> settled (fire_done_once q)"
  by (simp add: settled_def calm_def fire_done_once_def emit_def)

text \<open>The commit loop counts the commits that were not answered at once.\<close>

definition commit_calm :: "Query \<Rightarrow> bool" where
  "commit_calm q \<longleftrightarrow> calm q \<and> q_committing q \<and> q_requests q = [] \<and> q_commit_inflight q = int (length (q_commits q))"

lemma commit_calm_call:
  "commit_calm q \<Longrightarrow> commit_calm (call_commit e r (q\<lparr>q_commit_inflight := q_commit_inflight q + 1\<rparr>))"
  by (cases "qe_commit_sync e r"; cases "q_commits q = []")
    (simp_all add: commit_calm_def calm_def call_commit_def commit_answered_def Query_destroy_def fire_done_once_def emit_def Let_def)

lemma commit_calm_loop: "commit_calm q \<Longrightarrow> commit_calm (commit_loop e rs q)"
  by (induction e rs q rule: commit_loop.induct) (simp_all add: commit_calm_call)

lemma settled_do_commit:
  assumes "ready q" and "\<not> q_done q" and "q_requests q = []" and "q_commits q = []"
  shows "settled (do_commit e q)"
proof -
  let ?q = "q\<lparr>q_committing := True, q_commit_inflight := 0\<rparr>"
  let ?r = "commit_loop e (q_closest_replies q) ?q"
  have "commit_calm ?q"
    using assms by (simp add: commit_calm_def ready_def calm_def)
  then have r: "commit_calm ?r"
    by (rule commit_calm_loop)
  have "settled (fire_done_once (?q\<lparr>q_done := True\<rparr>))"
    using assms by (intro settled_fire) (simp_all add: ready_def calm_def)
  moreover have "settled (if q_commit_inflight ?r = 0 then fire_done_once (?r\<lparr>q_done := True\<rparr>) else ?r)"
    using r settled_fire [of "?r\<lparr>q_done := True\<rparr>"] by (auto simp: commit_calm_def settled_def calm_def)
  ultimately show ?thesis
    by (simp add: do_commit_def Let_def)
qed

lemma settled_finish:
  assumes "ready q" and "\<not> q_done q" and "query_ok n q" and "q_pending q = []" and "\<not> q_inflight q > 0"
  shows "settled (maybe_finish e q)"
proof -
  have "q_requests q = []" "q_commits q = []"
    using assms by (simp_all add: ready_def query_ok_def)
  then show ?thesis
    using assms settled_do_commit [of q e] settled_fire [of "q\<lparr>q_done := True\<rparr>"]
    by (simp add: maybe_finish_def ready_def calm_def)
qed

lemma fill_slots_wait:
  assumes "query_ok n q" and "0 < q_concurrency q" and "q_pending (fill_slots q) \<noteq> [] \<or> q_inflight (fill_slots q) > 0"
  shows "q_requests (fill_slots q) \<noteq> []"
proof -
  have "0 < q_inflight (fill_slots q)"
    using assms(2,3) read_loop_exit [of "if q_slowdown q then SLOWDOWN_CONCURRENCY else q_concurrency q" q]
    by (auto simp: fill_slots_def Let_def SLOWDOWN_CONCURRENCY_def split: if_splits)
  then show ?thesis
    using query_ok_fill [OF assms(1)] by (auto simp: query_ok_def)
qed

lemma from_table_fold: "(\<And>q x. q_from_table (f q x) = q_from_table q) \<Longrightarrow> q_from_table (foldl f q xs) = q_from_table q"
  by (induction xs arbitrary: q) auto

lemma seed_sets_from_table: "length (q_pending q) < K \<Longrightarrow> q_from_table (seed_from_table e q)"
  by (simp add: seed_from_table_def Let_def from_table_fold add_pending_def)

lemma settled_read_more:
  assumes "ready q" and "query_ok n q" and "0 < q_concurrency q"
  shows "settled (read_more e q)"
  using assms
proof (induction e q rule: read_more.induct)
  case (1 e q)
  have fill: "ready (fill_slots q)" "query_ok n (fill_slots q)" "q_concurrency (fill_slots q) = q_concurrency q"
    using 1 ready_control [of "fill_slots q" q] control_eqD [of "fill_slots q" q] by (simp_all add: query_ok_fill)
  show ?case
  proof (cases rule: read_more_cases [of q e])
    case over
    then show ?thesis
      using 1 by (simp add: settled_def ready_def)
  next
    case wait
    then show ?thesis
      using fill fill_slots_wait [OF 1(3,4) wait(2)] by (simp add: settled_def ready_def)
  next
    case reseed
    let ?r = "seed_from_table e (fill_slots q)"
    have "ready ?r" "query_ok n ?r" "0 < q_concurrency ?r"
      using fill 1(4) ready_control [of ?r "fill_slots q"] control_eqD [of ?r "fill_slots q"]
      by (simp_all add: query_ok_seed)
    then show ?thesis
      using 1(1) [OF reseed(1) refl] reseed by simp
  next
    case (finish r)
    then have "r = fill_slots q"
      using seed_sets_from_table [of "fill_slots q" e] by (auto simp: K_def)
    then show ?thesis
      using finish fill settled_finish [of r n e] by simp
  qed
qed

section \<open>Runs\<close>

lemma fresh_ok: "query_fresh q \<Longrightarrow> query_ok 0 q \<and> ready q \<and> \<not> q_pending_done q \<and> \<not> q_done q"
proof (induction rule: query_fresh.induct)
  case (bootstrap q e addr)
  then show ?case
    using ready_control [of "add_pending e zero_id addr q" q] control_eqD(1,4) [of "add_pending e zero_id addr q" q]
    by (simp add: add_bootstrap_def query_ok_add_pending)
qed (auto simp: query_ok_def ready_def calm_def Query_create_def set_concurrency_def set_commit_def set_internal_def
    on_reply_def on_done_def add_seed_node_def)

lemma query_ok_start: "query_ok n q \<Longrightarrow> query_ok n (Query_start e q)"
  by (simp add: Query_start_def Let_def query_ok_read_more query_ok_seed query_ok_fold query_ok_add_pending)

lemma run_ok: "query_run n q \<Longrightarrow> query_ok n q"
proof (induction rule: query_run.induct)
  case (start q e)
  then show ?case
    using fresh_ok query_ok_start by blast
next
  case (response n q node e resp)
  then show ?case
    using requests_seen [of n q node] query_ok_response [OF query_ok_answered]
    by (simp add: deliver_response_def visit_answered_def)
next
  case (timeout n q node e)
  then show ?case
    using requests_seen [of n q node] query_ok_timeout [OF query_ok_answered]
    by (simp add: deliver_timeout_def visit_answered_def)
qed (simp_all add: query_ok_commit query_ok_destroy)

text \<open>What \<^verbatim>\<open>read_more\<close> leaves alone.\<close>

definition fixed where "fixed q = (q_concurrency q, q_on_done q)"

lemma fixed_control: "control q = control r \<Longrightarrow> fixed q = fixed r"
  by (simp add: control_def fixed_def)

lemma fixed_fire [simp]: "fixed (fire_done_once q) = fixed q" "fixed (q\<lparr>q_done := b\<rparr>) = fixed q"
  by (simp_all add: fixed_def fire_done_once_def emit_def)

lemma fixed_commit: "fixed (commit_answered q) = fixed q"
  by (simp add: commit_answered_def Let_def) (simp add: fixed_def)

lemma fixed_destroy: "fixed (Query_destroy q) = fixed q"
  by (simp add: Query_destroy_def fixed_def fire_done_once_def emit_def Let_def)

lemma fixed_commit_loop: "fixed (commit_loop e rs q) = fixed q"
proof (induction e rs q rule: commit_loop.induct)
  case (2 e r rs q)
  have "fixed (call_commit e r (q\<lparr>q_commit_inflight := i\<rparr>)) = fixed q" for i
    by (simp add: call_commit_def Let_def fixed_commit fixed_destroy) (auto simp: fixed_def emit_def Query_destroy_def fire_done_once_def Let_def)
  then show ?case
    using 2 by simp
qed simp

lemma fixed_finish: "fixed (maybe_finish e q) = fixed q"
proof -
  have "fixed (q\<lparr>q_committing := True, q_commit_inflight := 0\<rparr>) = fixed q"
    by (simp add: fixed_def)
  then show ?thesis
    by (simp add: maybe_finish_def do_commit_def Let_def fixed_commit_loop)
qed

lemma fixed_read_more: "fixed (read_more e q) = fixed q"
proof (rule read_more_induct [where P = "\<lambda>r. fixed r = fixed q"])
  show "fixed (fill_slots r) = fixed q" "fixed (seed_from_table e r) = fixed q" if "fixed r = fixed q" for r
    using that fixed_control [of "fill_slots r" r] fixed_control [of "seed_from_table e r" r] by simp_all
qed (simp_all add: fixed_finish)

lemma concurrency_read_more [simp]: "q_concurrency (read_more e q) = q_concurrency q"
  using fixed_read_more [of e q] by (simp add: fixed_def)

text \<open>Completion is put off only while a reply is dispatched.\<close>

definition prompt :: "Query \<Rightarrow> bool" where
  "prompt q \<longleftrightarrow> \<not> q_dispatching_reply q \<and> \<not> q_pending_done q"

lemma prompt_control: "control q = control r \<Longrightarrow> prompt q = prompt r"
  by (simp add: control_def prompt_def)

lemma prompt_fire [simp]: "prompt (fire_done_once q) = prompt q" "prompt (q\<lparr>q_done := b\<rparr>) = prompt q"
  "prompt (q\<lparr>q_commit_inflight := i\<rparr>) = prompt q" "prompt (q\<lparr>q_commits := rs\<rparr>) = prompt q" "prompt (emit ev q) = prompt q"
  "prompt (q\<lparr>q_committing := b\<rparr>) = prompt q" "prompt (q\<lparr>q_pending := ps\<rparr>) = prompt q"
  by (simp_all add: prompt_def fire_done_once_def emit_def)

lemma prompt_call: "prompt q \<Longrightarrow> prompt (call_commit e r q)"
  by (simp add: call_commit_def commit_answered_def Query_destroy_def Let_def) (simp add: prompt_def emit_def)

lemma prompt_commit_loop: "prompt q \<Longrightarrow> prompt (commit_loop e rs q)"
  by (induction e rs q rule: commit_loop.induct) (simp_all add: prompt_call)

lemma prompt_read_more: "prompt q \<Longrightarrow> prompt (read_more e q)"
proof (rule read_more_induct)
  show "prompt (fill_slots r)" "prompt (seed_from_table e r)" if "prompt r" for r
    using that prompt_control [of "fill_slots r" r] prompt_control [of "seed_from_table e r" r] by simp_all
  show "prompt (maybe_finish e r)" if "prompt r" for r
    using that by (simp add: maybe_finish_def do_commit_def prompt_commit_loop Let_def)
qed

lemma pending_done_read_more: "ready q \<Longrightarrow> \<not> q_pending_done q \<Longrightarrow> \<not> q_pending_done (read_more e q)"
  using prompt_read_more [of q e] by (simp add: prompt_def ready_def calm_def)

lemma ready_dispatch: "ready q \<Longrightarrow> ready (dispatch_reply e r q)"
  by (auto simp: dispatch_reply_def Let_def Query_destroy_def ready_def calm_def emit_def)

lemma concurrency_dispatch: "q_concurrency (dispatch_reply e r q) = q_concurrency q"
  by (simp add: dispatch_reply_def Let_def Query_destroy_def emit_def fire_done_once_def)

lemma settled_flush:
  assumes "settled q" and "query_ok n q"
  shows "settled (flush_done q) \<and> \<not> q_pending_done (flush_done q)"
proof (cases "q_pending_done q")
  case True
  then have "q_done q" "\<not> q_dispatching_reply q"
    using assms by (simp_all add: query_ok_def settled_def calm_def)
  then show ?thesis
    using settled_fire [of "q\<lparr>q_pending_done := False\<rparr>"] True by (simp add: flush_done_def fire_done_once_def emit_def)
qed (use assms in \<open>simp add: flush_done_def\<close>)

lemma settled_response:
  assumes "settled q" and "\<not> q_pending_done q" and "query_ok n q" and "node \<in> set (q_requests q)" and "0 < q_concurrency q"
  shows "settled (deliver_response e node resp q) \<and> \<not> q_pending_done (deliver_response e node resp q)"
proof (cases "q_done q")
  case True
  then show ?thesis
    using assms by (simp add: deliver_response_def on_visit_response_def visit_answered_def settled_def calm_def)
next
  case False
  let ?a = "visit_answered node q"
  let ?s = "?a\<lparr>q_seen := seen_put (node_key node) DONE (q_seen ?a)\<rparr>"
  let ?r = "end_slowdown (foldl (add_closer e) (keep_reply resp (reply_of node resp) (count_reply resp ?s)) (rs_closer_nodes resp))"
  let ?d = "dispatch_reply e (reply_of node resp) ?r"
  have c: "control ?r = control q"
    by (simp add: control_fold)
  have "ready q"
    using assms False by (auto simp: settled_def ready_def split: if_splits)
  then have "ready ?d"
    using ready_control [OF c] by (simp add: ready_dispatch)
  moreover have "query_ok (Suc n) ?s"
    using query_ok_answered [OF assms(3,4)] requests_seen [OF assms(3,4)]
    by (intro query_ok_seen_put) (simp_all add: visit_answered_def)
  then have "query_ok (Suc n) ?d"
    by (simp add: query_ok_dispatch query_ok_stages query_ok_fold query_ok_closer)
  moreover have "0 < q_concurrency ?d"
    using assms(5) control_eqD(7) [OF c] by (simp add: concurrency_dispatch)
  ultimately have "settled (read_more e ?d)" "query_ok (Suc n) (read_more e ?d)"
    by (simp_all add: settled_read_more query_ok_read_more)
  then show ?thesis
    using False settled_flush
    by (simp add: deliver_response_def on_visit_response_def Let_def) (simp add: visit_answered_def)
qed

lemma settled_timeout:
  assumes "settled q" and "\<not> q_pending_done q" and "query_ok n q" and "node \<in> set (q_requests q)" and "0 < q_concurrency q"
  shows "settled (deliver_timeout e node q) \<and> \<not> q_pending_done (deliver_timeout e node q)"
proof (cases "q_done q")
  case True
  then show ?thesis
    using assms by (simp add: deliver_timeout_def on_visit_timeout_def visit_answered_def settled_def calm_def)
next
  case False
  let ?a = "visit_answered node q"
  let ?s = "?a\<lparr>q_seen := seen_put (node_key node) DOWN (q_seen ?a)\<rparr>"
  let ?r = "?s\<lparr>q_errors := q_errors ?s + 1\<rparr>"
  have c: "control ?r = control q"
    by (simp add: control_def visit_answered_def)
  have "ready ?r"
    using assms False ready_control [OF c] by (auto simp: settled_def ready_def split: if_splits)
  moreover have "query_ok (Suc n) ?s"
    using query_ok_answered [OF assms(3,4)] requests_seen [OF assms(3,4)]
    by (intro query_ok_seen_put) (simp_all add: visit_answered_def)
  then have "query_ok (Suc n) ?r"
    by simp
  ultimately have "settled (read_more e ?r)" "\<not> q_pending_done (read_more e ?r)"
    using assms(2,5) control_eqD(4,7) [OF c] settled_read_more [of ?r "Suc n" e] pending_done_read_more [of ?r e] by simp_all
  then show ?thesis
    using False assms(2) by (simp add: deliver_timeout_def on_visit_timeout_def Let_def visit_answered_def)
qed

lemma settled_commit:
  assumes "settled q" and "query_ok n q" and "r \<in> set (q_commits q)"
  shows "settled (deliver_commit r q)"
proof -
  let ?r = "q\<lparr>q_commits := remove1 r (q_commits q), q_commit_inflight := q_commit_inflight q - 1\<rparr>"
  have len: "int (length (q_commits q)) = int (length (remove1 r (q_commits q))) + 1"
    using Suc_length_remove1 [OF assms(3)] by linarith
  have "q_committing q"
    using assms(2,3) by (auto simp: query_ok_def)
  then have "settled ?r" if "q_commit_inflight q \<noteq> 1"
    using assms(1) len that by (auto simp: settled_def calm_def)
  moreover have "settled (fire_done_once (?r\<lparr>q_done := True\<rparr>))"
    using assms(1) by (intro settled_fire) (simp_all add: settled_def calm_def)
  ultimately show ?thesis
    by (cases "q_commit_inflight q = 1") (simp_all add: deliver_commit_def commit_answered_def Let_def)
qed

lemma settled_destroy: "settled q \<Longrightarrow> settled (Query_destroy q)"
  using settled_fire [of "q\<lparr>q_done := True, q_pending := [], q_committing := True\<rparr>"]
  by (auto simp: Query_destroy_def Let_def settled_def calm_def)

lemma settled_start:
  assumes "query_fresh q" and "0 < q_concurrency (Query_start e q)"
  shows "settled (Query_start e q) \<and> \<not> q_pending_done (Query_start e q)"
proof -
  let ?s = "foldl (\<lambda>q s. add_pending e (pn_id s) (pn_addr s) q) q (rev (q_pre_seeds q))\<lparr>q_pre_seeds := []\<rparr>"
  let ?r = "if length (q_pending ?s) < K then seed_from_table e ?s else ?s"
  have c: "control ?r = control q"
    by (simp add: control_fold)
  have start: "Query_start e q = read_more e ?r"
    by (simp add: Query_start_def Let_def)
  have "query_ok 0 ?r"
    using fresh_ok [OF assms(1)] by (simp add: query_ok_seed query_ok_fold query_ok_add_pending)
  moreover have "ready ?r" "\<not> q_pending_done ?r"
    using fresh_ok [OF assms(1)] ready_control [OF c] control_eqD(4) [OF c] by blast+
  moreover have "0 < q_concurrency ?r"
    using assms(2) unfolding start by (simp only: concurrency_read_more)
  ultimately show ?thesis
    unfolding start by (blast intro: settled_read_more pending_done_read_more [THEN notE])
qed

lemma concurrency_deliver [simp]:
  "q_concurrency (deliver_response e node resp q) = q_concurrency q"
  "q_concurrency (deliver_timeout e node q) = q_concurrency q"
  "q_concurrency (deliver_commit r q) = q_concurrency q"
  "q_concurrency (Query_destroy q) = q_concurrency q"
proof -
  have fire: "q_concurrency (fire_done_once r) = q_concurrency r" for r
    by (simp add: fire_done_once_def emit_def)
  have fold: "q_concurrency (foldl (add_closer e) r as) = q_concurrency r" for r as
    using control_eqD(7) [OF control_fold [of "add_closer e" r as]] by simp
  have "q_concurrency (count_reply resp r) = q_concurrency r" "q_concurrency (keep_reply resp p r) = q_concurrency r"
    "q_concurrency (end_slowdown r) = q_concurrency r" "q_concurrency (flush_done r) = q_concurrency r" for p r
    by (simp_all add: count_reply_def keep_reply_def end_slowdown_def flush_done_def fire)
  then show "q_concurrency (deliver_response e node resp q) = q_concurrency q"
    by (simp add: deliver_response_def on_visit_response_def Let_def concurrency_dispatch fold) (simp add: visit_answered_def)
  show "q_concurrency (deliver_timeout e node q) = q_concurrency q"
    by (simp add: deliver_timeout_def on_visit_timeout_def Let_def) (simp add: visit_answered_def)
  show "q_concurrency (deliver_commit r q) = q_concurrency q"
    by (simp add: deliver_commit_def commit_answered_def Let_def fire)
  show "q_concurrency (Query_destroy q) = q_concurrency q"
    by (simp add: Query_destroy_def Let_def fire)
qed

lemma pending_done_steps [simp]:
  "q_pending_done (deliver_commit r q) = q_pending_done q"
  "\<not> q_dispatching_reply q \<Longrightarrow> q_pending_done (Query_destroy q) = q_pending_done q"
  by (simp_all add: deliver_commit_def commit_answered_def Query_destroy_def Let_def fire_done_once_def emit_def)

lemma run_settled: "query_run n q \<Longrightarrow> 0 < q_concurrency q \<Longrightarrow> settled q \<and> \<not> q_pending_done q"
proof (induction rule: query_run.induct)
  case (start q e)
  then show ?case
    by (rule settled_start)
next
  case (response n q node e resp)
  then show ?case
    using settled_response [OF _ _ run_ok [OF response(1)]] by simp
next
  case (timeout n q node e)
  then show ?case
    using settled_timeout [OF _ _ run_ok [OF timeout(1)]] by simp
next
  case (commit n q r)
  then show ?case
    using settled_commit [OF _ run_ok [OF commit(1)]] by simp
next
  case (destroy n q)
  then have "settled q" "\<not> q_pending_done q"
    by simp_all
  moreover from this have "\<not> q_dispatching_reply q"
    by (simp add: settled_def calm_def)
  ultimately show ?case
    by (simp add: settled_destroy)
qed

lemma run_visits_bounded:
  assumes "query_run n q"
  shows "length (visits (q_trace q)) \<le> MAX_SEEN"
proof -
  note ok = run_ok [OF assms, unfolded query_ok_def]
  have "length (visits (q_trace q)) = card (node_key ` set (visits (q_trace q)))"
    using ok distinct_card [of "map node_key (visits (q_trace q))"] by simp
  also have "\<dots> \<le> card (fst ` set (q_seen q))"
    using ok by (intro card_mono) auto
  also have "\<dots> \<le> length (q_seen q)"
    by (metis card_length length_map list.set_map)
  finally show ?thesis
    using ok by linarith
qed

section \<open>Replies\<close>

text \<open>A run together with the responses that reached the query while it was not done, in their order.\<close>

inductive query_answered :: "(PendingNode \<times> Response) list \<Rightarrow> Query \<Rightarrow> bool" where
  start: "query_fresh q \<Longrightarrow> query_answered [] (Query_start e q)"
| response: "query_answered log q \<Longrightarrow> node \<in> set (q_requests q) \<Longrightarrow>
    query_answered (if q_done q then log else log @ [(node, resp)]) (deliver_response e node resp q)"
| timeout: "query_answered log q \<Longrightarrow> node \<in> set (q_requests q) \<Longrightarrow> query_answered log (deliver_timeout e node q)"
| commit: "query_answered log q \<Longrightarrow> reply \<in> set (q_commits q) \<Longrightarrow> query_answered log (deliver_commit reply q)"
| destroy: "query_answered log q \<Longrightarrow> query_answered log (Query_destroy q)"

lemma answered_run: "query_answered log q \<Longrightarrow> \<exists>n. query_run n q"
  by (induction rule: query_answered.induct) (blast intro: query_run.intros)+

text \<open>The closest replies of a target, and a caller that was told them.\<close>

definition keeps :: "NodeId \<Rightarrow> QueryReply list \<Rightarrow> Query \<Rightarrow> bool" where
  "keeps target rs q \<longleftrightarrow> q_target q = target \<and> q_closest_replies q = rs \<and> (\<forall>fs \<in> set (finishes (q_trace q)). fs = rs)"

lemma keeps_frame [simp]:
  "keeps t rs (q\<lparr>q_done := b\<rparr>) = keeps t rs q" "keeps t rs (q\<lparr>q_committing := b\<rparr>) = keeps t rs q"
  "keeps t rs (q\<lparr>q_pending := ps\<rparr>) = keeps t rs q" "keeps t rs (q\<lparr>q_pre_seeds := ps\<rparr>) = keeps t rs q"
  "keeps t rs (q\<lparr>q_seen := sn\<rparr>) = keeps t rs q" "keeps t rs (q\<lparr>q_pending_done := b\<rparr>) = keeps t rs q"
  "keeps t rs (q\<lparr>q_dispatching_reply := b\<rparr>) = keeps t rs q" "keeps t rs (q\<lparr>q_from_table := b\<rparr>) = keeps t rs q"
  "keeps t rs (q\<lparr>q_slowdown := b\<rparr>) = keeps t rs q" "keeps t rs (q\<lparr>q_successes := i\<rparr>) = keeps t rs q"
  "keeps t rs (q\<lparr>q_errors := i\<rparr>) = keeps t rs q" "keeps t rs (q\<lparr>q_commit_inflight := i\<rparr>) = keeps t rs q"
  "keeps t rs (q\<lparr>q_commits := cs\<rparr>) = keeps t rs q" "keeps t rs (visit_answered node q) = keeps t rs q"
  "keeps t rs (visit node q) = keeps t rs q" "keeps t rs (emit (Committed r) q) = keeps t rs q"
  "keeps t rs (emit (Replied r) q) = keeps t rs q"
  by (simp_all add: keeps_def visit_answered_def visit_def emit_def)

lemma keeps_fold: "keeps t rs q \<Longrightarrow> (\<And>q x. keeps t rs q \<Longrightarrow> keeps t rs (f q x)) \<Longrightarrow> keeps t rs (foldl f q xs)"
  by (induction xs arbitrary: q) auto

lemma keeps_fire: "keeps t rs q \<Longrightarrow> keeps t rs (fire_done_once q)"
  by (auto simp: keeps_def fire_done_once_def emit_def)

lemma keeps_add_pending: "keeps t rs q \<Longrightarrow> keeps t rs (add_pending e nid addr q)"
  by (simp add: add_pending_def keeps_def Let_def)

lemma keeps_destroy: "keeps t rs q \<Longrightarrow> keeps t rs (Query_destroy q)"
  by (simp add: Query_destroy_def keeps_fire Let_def)

lemma keeps_commit_answered: "keeps t rs q \<Longrightarrow> keeps t rs (commit_answered q)"
  by (simp add: commit_answered_def keeps_fire Let_def)

lemma keeps_commit_loop: "keeps t rs q \<Longrightarrow> keeps t rs (commit_loop e cs q)"
  by (induction e cs q rule: commit_loop.induct) (simp_all add: call_commit_def keeps_commit_answered keeps_destroy Let_def)

lemma keeps_read_more: "keeps t rs q \<Longrightarrow> keeps t rs (read_more e q)"
proof (rule read_more_induct)
  show "keeps t rs (fill_slots r)" if "keeps t rs r" for r
  proof -
    have "keeps t rs (read_loop limit r)" for limit
      using that by (rule read_loop_induct) simp_all
    then show ?thesis
      by (simp add: fill_slots_def Let_def)
  qed
  show "keeps t rs (seed_from_table e r)" "keeps t rs (maybe_finish e r)" if "keeps t rs r" for r
    using that
    by (simp_all add: seed_from_table_def maybe_finish_def do_commit_def keeps_fold keeps_add_pending keeps_fire keeps_commit_loop Let_def)
qed

lemma keeps_tail:
  "keeps t rs q \<Longrightarrow> keeps t rs (foldl (add_closer e) q cs)" "keeps t rs q \<Longrightarrow> keeps t rs (end_slowdown q)"
  "keeps t rs q \<Longrightarrow> keeps t rs (dispatch_reply e r q)" "keeps t rs q \<Longrightarrow> keeps t rs (flush_done q)"
  "keeps t rs q \<Longrightarrow> keeps t rs (count_reply resp q)"
  by (simp_all add: keeps_fold add_closer_def keeps_add_pending end_slowdown_def dispatch_reply_def keeps_destroy flush_done_def
      keeps_fire count_reply_def Let_def)

lemma keeps_response:
  assumes "keeps t rs q" and "finishes (q_trace q) = []" and "\<not> q_done q"
  shows "keeps t (if is_success resp \<and> qr_from_id (reply_of node resp) \<noteq> zero_id then push_closest t (reply_of node resp) rs else rs)
    (deliver_response e node resp q)"
proof -
  let ?q = "count_reply resp ((visit_answered node q)\<lparr>q_seen := seen_put (node_key node) DONE (q_seen q)\<rparr>)"
  have "keeps t rs ?q" "finishes (q_trace ?q) = []"
    using assms by (simp_all add: keeps_tail) (simp add: count_reply_def visit_answered_def)
  then have "keeps t (if is_success resp \<and> qr_from_id (reply_of node resp) \<noteq> zero_id then push_closest t (reply_of node resp) rs else rs)
      (keep_reply resp (reply_of node resp) ?q)"
    by (simp add: keeps_def keep_reply_def)
  moreover have "q_seen (visit_answered node q) = q_seen q" "\<not> q_done (visit_answered node q)"
    using assms(3) by (simp_all add: visit_answered_def)
  ultimately show ?thesis
    unfolding deliver_response_def on_visit_response_def Let_def by (simp only: if_False keeps_tail keeps_read_more)
qed

lemma keeps_start:
  assumes "query_fresh q"
  shows "keeps (q_target q) [] (Query_start e q)"
proof -
  have "q_closest_replies q = [] \<and> finishes (q_trace q) = []"
    using assms
    by (induction rule: query_fresh.induct)
      (simp_all add: Query_create_def set_concurrency_def set_commit_def set_internal_def on_reply_def on_done_def add_seed_node_def
        add_bootstrap_def add_pending_def Let_def)
  then have "keeps (q_target q) [] q"
    by (simp add: keeps_def)
  then show ?thesis
    by (simp add: Query_start_def seed_from_table_def keeps_read_more keeps_fold keeps_add_pending Let_def)
qed

text \<open>The responses whose sender can be among the closest: successful ones that carry an id.\<close>

definition counted :: "(PendingNode \<times> Response) list \<Rightarrow> (PendingNode \<times> Response) list" where
  "counted log = filter (\<lambda>(node, resp). (rs_error resp = None \<or> rs_error resp = Some 0) \<and> rs_id resp \<noteq> None \<and> rs_id resp \<noteq> Some zero_id) log"

lemma counted_snoc:
  "counted (log @ [(node, resp)]) = (if is_success resp \<and> qr_from_id (reply_of node resp) \<noteq> zero_id then counted log @ [(node, resp)] else counted log)"
  by (auto simp: counted_def is_success_def reply_of_def split: option.splits)

lemma answered_keeps:
  "query_answered log q \<Longrightarrow>
    keeps (q_target q) (foldl (\<lambda>c r. push_closest (q_target q) r c) [] (map (\<lambda>(node, resp). reply_of node resp) (counted log))) q"
proof (induction rule: query_answered.induct)
  case (start q e)
  then show ?case
    using keeps_start [OF start, of e] by (simp add: counted_def keeps_def)
next
  case (response log q node resp e)
  obtain n where n: "query_run n q"
    using answered_run [OF response(1)] by blast
  show ?case
  proof (cases "q_done q")
    case True
    then have "deliver_response e node resp q = visit_answered node q"
      by (simp add: deliver_response_def on_visit_response_def) (simp add: visit_answered_def)
    then show ?thesis
      using response True by simp (simp add: visit_answered_def)
  next
    case False
    then have "finishes (q_trace q) = []"
      using run_ok [OF n] by (auto simp: query_ok_def)
    note keeps = keeps_response [OF response(3) this False, where node = node and resp = resp and e = e]
    then have "q_target (deliver_response e node resp q) = q_target q"
      by (simp add: keeps_def)
    then show ?thesis
      using keeps False by (auto simp: counted_snoc split: if_splits)
  qed
next
  case (timeout log q node e)
  have "keeps t rs (deliver_timeout e node q)" if "keeps t rs q" for t rs
    using that by (simp add: deliver_timeout_def on_visit_timeout_def keeps_read_more Let_def)
  then show ?case
    using timeout(3) by (fastforce simp: keeps_def)
next
  case (commit log q reply)
  then have "keeps t rs (deliver_commit reply q)" if "keeps t rs q" for t rs
    using that by (simp add: deliver_commit_def keeps_commit_answered)
  then show ?case
    using commit(3) by (fastforce simp: keeps_def)
next
  case (destroy log q)
  then show ?case
    using keeps_destroy by (fastforce simp: keeps_def)
qed

section \<open>Properties\<close>

lemma push_closest_nearest:
  assumes "\<forall>r \<in> set rs. length (qr_from_id r) = length target"
  shows "map qr_from_id (foldl (\<lambda>c r. push_closest target r c) [] rs) =
    take K (sort_key (xor_dist target) (remdups (map qr_from_id rs)))"
proof -
  let ?d = "xor_dist target" and ?ids = "remdups (map qr_from_id rs)"
  let ?c = "foldl (\<lambda>c r. push_closest target r c) [] rs"
  have eq: "a = b" if "?d a = ?d b" "length a = length target" "length b = length target" for a b
    using compare_distance_dist [of target a b] that by (metis less_irrefl not_less_iff_gr_or_eq)
  have inj: "inj_on ?d (set ?ids)"
    using assms by (auto simp: inj_on_def intro: eq)
  have "map ?d (sort_key ?d ?ids) = sorted_list_of_set (?d ` set ?ids)"
    using inj by (intro sorted_distinct_set_unique) (auto simp: distinct_map)
  then have "map ?d (map qr_from_id ?c) = map ?d (take K (sort_key ?d ?ids))"
    using foldl_push_keys [of rs target] assms by (simp add: take_map [symmetric] image_image o_def)
  moreover have "set (map qr_from_id ?c) \<union> set (take K (sort_key ?d ?ids)) \<subseteq> set ?ids"
    using foldl_push_keys [of rs target] assms set_take_subset [of K "sort_key ?d ?ids"] by auto
  then have "inj_on ?d (set (map qr_from_id ?c) \<union> set (take K (sort_key ?d ?ids)))"
    using inj inj_on_subset by blast
  ultimately show ?thesis
    by (rule map_inj_on)
qed

text \<open>C2. In every run, however the answers arrive, the closest replies of a query are the k nearest of the nodes that answered it successfully and
  with an id, each node once, in the order of their XOR distance to the target, and each closest reply is what such a node answered.\<close>

theorem query_closest_nearest:
  assumes run: "query_answered log q" and ids: "\<forall>(node, resp) \<in> set log. \<forall>i. rs_id resp = Some i \<longrightarrow> length i = length (q_target q)"
  shows "map qr_from_id (q_closest_replies q) =
      take 20 (sort_key (xor_dist (q_target q)) (remdups (map (\<lambda>(node, resp). the (rs_id resp)) (counted log)))) \<and>
    (\<forall>r \<in> set (q_closest_replies q). \<exists>node resp. (node, resp) \<in> set (counted log) \<and>
      r = \<lparr>qr_from_id = the (rs_id resp), qr_from_addr = pn_addr node, qr_token = rs_token resp, qr_value = rs_value resp,
           qr_closer_nodes = rs_closer_nodes resp\<rparr>)"
proof -
  let ?rs = "map (\<lambda>(node, resp). reply_of node resp) (counted log)"
  have closest: "q_closest_replies q = foldl (\<lambda>c r. push_closest (q_target q) r c) [] ?rs"
    using answered_keeps [OF run] by (simp add: keeps_def)
  have reply: "reply_of node resp = \<lparr>qr_from_id = the (rs_id resp), qr_from_addr = pn_addr node, qr_token = rs_token resp,
      qr_value = rs_value resp, qr_closer_nodes = rs_closer_nodes resp\<rparr>" if "(node, resp) \<in> set (counted log)" for node resp
    using that by (auto simp: counted_def reply_of_def)
  then have from_id: "map qr_from_id ?rs = map (\<lambda>(node, resp). the (rs_id resp)) (counted log)"
    by auto
  have len: "\<forall>r \<in> set ?rs. length (qr_from_id r) = length (q_target q)"
    using ids by (fastforce simp: counted_def reply_of_def)
  have "set (q_closest_replies q) \<subseteq> set ?rs"
    unfolding closest using foldl_push_keys [OF len] by blast
  then show ?thesis
    using push_closest_nearest [OF len, unfolded from_id] reply unfolding closest K_def by fastforce
qed

text \<open>C4. A query visits every address at most once and never more than 4096 addresses in all, and it counts its
  outstanding visits exactly, whatever nodes the answers name and in whatever order they arrive.\<close>

theorem query_visits_once:
  assumes "query_run n q"
  shows "distinct (map (\<lambda>node. addr_key (pn_addr node)) (visits (q_trace q))) \<and> length (visits (q_trace q)) \<le> 4096 \<and>
    q_inflight q = int (length (q_requests q)) \<and> length (q_closest_replies q) \<le> 20"
  using run_ok [OF assms] run_visits_bounded [OF assms] by (simp add: query_ok_def MAX_SEEN_def K_def)

text \<open>A query with one bootstrap node, run against an empty routing table.\<close>

definition demo_env :: QueryEnv where
  "demo_env = \<lparr>qe_table = RoutingTable_new (replicate 32 0), qe_filter = (\<lambda>_ _. True), qe_plain = (\<lambda>m. take 32 (m @ replicate 32 0)),
     qe_reply_destroys = (\<lambda>_. False), qe_commit_destroys = (\<lambda>_. False),
     qe_commit_sync = (\<lambda>_. False)\<rparr>"

definition demo_addr :: Ipv4Address where
  "demo_addr = \<lparr>ip_host = [88, 99, 3, 86], ip_port = 49737\<rparr>"

definition demo_query :: Query where
  "demo_query = Query_start demo_env (add_bootstrap demo_env demo_addr
     (on_done True (Query_create (replicate 32 1) CMD_FIND_NODE None)))"

definition demo_node :: PendingNode where
  "demo_node = \<lparr>pn_id = zero_id, pn_addr = demo_addr\<rparr>"

lemma closest_empty: "RoutingTable_closest (RoutingTable_new (replicate 32 0)) (replicate 32 x) n = []"
  using closest_candidates [of "RoutingTable_new (replicate 32 0)" "replicate 32 x" n]
    candidates_set [of "RoutingTable_new (replicate 32 0)" "replicate 32 x"]
  by (simp add: table_ok_new nodes_of_new)

lemmas demo_defs = demo_env_def demo_addr_def demo_node_def zero_id_def K_def MAX_SEEN_def DEFAULT_CONCURRENCY_def
  SLOWDOWN_CONCURRENCY_def Query_create_def on_done_def add_bootstrap_def add_pending_def visit_def emit_def
  fill_slots_def is_closer_def seed_from_table_def visit_request_def

definition demo_started :: Query where
  "demo_started = (Query_create (replicate 32 1) CMD_FIND_NODE None)\<lparr>q_on_done := True, q_from_table := True,
     q_seen := [(addr_key demo_addr, PENDING)], q_inflight := 1, q_requests := [demo_node],
     q_trace := [Visited demo_node (visit_request (Query_create (replicate 32 1) CMD_FIND_NODE None) demo_node)]\<rparr>"

lemma demo_query_eq: "demo_query = demo_started"
  by (simp add: demo_query_def demo_started_def Query_start_def Let_def closest_empty read_more.simps read_loop.simps demo_defs)

lemma demo_requests: "q_requests demo_query = [demo_node]" "q_concurrency demo_query = 10"
  by (simp_all add: demo_query_eq demo_started_def Query_create_def DEFAULT_CONCURRENCY_def)

lemma demo_run: "query_run 0 demo_query" "query_run 1 (deliver_timeout demo_env demo_node demo_query)"
proof -
  show run: "query_run 0 demo_query"
    unfolding demo_query_def by (intro query_run.start query_fresh.intros)
  show "query_run 1 (deliver_timeout demo_env demo_node demo_query)"
    using query_run.timeout [OF run, of demo_node demo_env] by (simp add: demo_requests)
qed

theorem query_visits_once_witness:
  "length (visits (q_trace (deliver_timeout demo_env demo_node demo_query))) \<le> 4096"
  using query_visits_once [OF demo_run(2)] by simp

text \<open>C3. The completion callback of a query fires at most once, and it has fired exactly once, with the closest replies that the query ends up
  with, as soon as the query is done: neither an early \<^verbatim>\<open>destroy()\<close>, also from inside a callback, nor late answers make it fire again, get lost or
  report anything else.\<close>

theorem query_done_once:
  assumes "query_answered log q" and "0 < q_concurrency q"
  shows "length (finishes (q_trace q)) \<le> 1 \<and>
    (q_done q \<and> q_on_done q \<longrightarrow> finishes (q_trace q) = [q_closest_replies q]) \<and> (\<not> q_done q \<longrightarrow> finishes (q_trace q) = [])"
proof -
  obtain n where n: "query_run n q"
    using answered_run [OF assms(1)] by blast
  have "\<forall>fs \<in> set (finishes (q_trace q)). fs = q_closest_replies q"
    using answered_keeps [OF assms(1)] by (simp add: keeps_def)
  moreover have "length (finishes (q_trace q)) \<le> 1" "q_done q \<and> q_on_done q \<longrightarrow> length (finishes (q_trace q)) = 1"
    "\<not> q_done q \<longrightarrow> finishes (q_trace q) = []"
    using run_ok [OF n] run_settled [OF n assms(2)] by (auto simp: query_ok_def settled_def calm_def)
  ultimately show ?thesis
    by (cases "finishes (q_trace q)") auto
qed

text \<open>The bootstrap node answers with its id; the query is then done.\<close>

definition demo_answer :: Response where
  "demo_answer = Response_init\<lparr>rs_id := Some (replicate 32 2)\<rparr>"

definition demo_answered :: Query where
  "demo_answered = deliver_response demo_env demo_node demo_answer demo_query"

lemma demo_log: "query_answered [(demo_node, demo_answer)] demo_answered" "query_answered [] demo_query"
proof -
  show run: "query_answered [] demo_query"
    unfolding demo_query_def by (intro query_answered.start query_fresh.intros)
  have "\<not> q_done demo_query"
    by (simp add: demo_query_eq demo_started_def Query_create_def)
  then show "query_answered [(demo_node, demo_answer)] demo_answered"
    using query_answered.response [OF run, of demo_node demo_answer demo_env] by (simp add: demo_requests demo_answered_def)
qed

lemma demo_answered_fields:
  "q_target demo_answered = replicate 32 1" "q_done demo_answered" "q_on_done demo_answered" "q_concurrency demo_answered = 10"
  by (simp_all add: demo_answered_def demo_answer_def demo_query_eq demo_started_def deliver_response_def on_visit_response_def
      visit_answered_def count_reply_def keep_reply_def end_slowdown_def dispatch_reply_def flush_done_def is_success_def reply_of_def
      Response_init_def read_more.simps read_loop.simps maybe_finish_def fire_done_once_def demo_defs Let_def)

theorem query_closest_nearest_witness:
  "map qr_from_id (q_closest_replies demo_answered) = [replicate 32 2]"
proof -
  have "counted [(demo_node, demo_answer)] = [(demo_node, demo_answer)]"
    by (simp add: counted_def demo_answer_def Response_init_def zero_id_def)
  then show ?thesis
    using query_closest_nearest [OF demo_log(1)] by (simp add: demo_answered_fields demo_answer_def)
qed

theorem query_done_once_witness:
  "finishes (q_trace demo_query) = [] \<and> finishes (q_trace demo_answered) = [q_closest_replies demo_answered]"
  using query_done_once [OF demo_log(1)] query_done_once [OF demo_log(2)]
  by (simp add: demo_answered_fields demo_query_eq demo_started_def Query_create_def DEFAULT_CONCURRENCY_def)

text \<open>C1. A query ends: the answers it has taken in and those it still waits for are no more than its visits, one per distinct address and at
  most 4096, and its commits, at most 20; it waits for an answer as long as it is not done, and when nothing is outstanding it is done and has
  called its completion callback.\<close>

theorem query_terminates:
  assumes "query_run n q" and "0 < q_concurrency q"
  shows "n + length (q_requests q) + length (q_commits q) \<le> length (visits (q_trace q)) + length (commits_in (q_trace q)) \<and>
    distinct (map (\<lambda>node. addr_key (pn_addr node)) (visits (q_trace q))) \<and> length (commits_in (q_trace q)) \<le> 20 \<and>
    n \<le> 4096 + 20 \<and> (\<not> q_done q \<longrightarrow> q_requests q \<noteq> [] \<or> q_commits q \<noteq> []) \<and>
    (q_requests q = [] \<and> q_commits q = [] \<and> q_on_done q \<longrightarrow> q_done q \<and> length (finishes (q_trace q)) = 1)"
proof -
  have "n \<le> length (visits (q_trace q)) + length (commits_in (q_trace q))" "length (commits_in (q_trace q)) \<le> K"
    using run_ok [OF assms(1)] by (simp_all add: query_ok_def)
  then have "n \<le> 4096 + 20"
    using run_visits_bounded [OF assms(1)] by (simp add: MAX_SEEN_def K_def)
  moreover have "n + length (q_requests q) + length (q_commits q) \<le> length (visits (q_trace q)) + length (commits_in (q_trace q))"
    "distinct (map (\<lambda>node. addr_key (pn_addr node)) (visits (q_trace q)))" "length (commits_in (q_trace q)) \<le> 20"
    using run_ok [OF assms(1)] by (simp_all add: query_ok_def K_def)
  moreover have "\<not> q_done q \<longrightarrow> q_requests q \<noteq> [] \<or> q_commits q \<noteq> []"
    using run_settled [OF assms] by (auto simp: settled_def split: if_splits)
  ultimately show ?thesis
    using run_ok [OF assms(1)] run_settled [OF assms] by (auto simp: query_ok_def settled_def calm_def)
qed

theorem query_terminates_witness:
  "q_requests demo_query \<noteq> [] \<and> q_done (deliver_timeout demo_env demo_node demo_query)"
proof -
  have "q_requests (deliver_timeout demo_env demo_node demo_query) = []"
    "q_commits (deliver_timeout demo_env demo_node demo_query) = []"
    "q_on_done (deliver_timeout demo_env demo_node demo_query)"
    by (simp_all add: demo_query_eq demo_started_def deliver_timeout_def on_visit_timeout_def visit_answered_def Let_def
        read_more.simps read_loop.simps maybe_finish_def fire_done_once_def demo_defs)
  then show ?thesis
    using query_terminates [OF demo_run(2)] demo_requests by simp
qed

end
