(* ===== verification/Peer_Messages.thy ===== *)
theory Peer_Messages
  imports Dht_Messages
begin

text \<open>
  The messages two peers exchange to connect: the outer \<^verbatim>\<open>PEER_HANDSHAKE\<close> wrapper and the payload of the Noise
  messages (\<^verbatim>\<open>src/peer_connect.cpp\<close>), the outer \<^verbatim>\<open>PEER_HOLEPUNCH\<close> wrapper and its encrypted payload
  (\<^verbatim>\<open>src/holepunch.cpp\<close>).  They are written in the idiom of \<open>Message_Steps\<close>; optional sub-records are decoded into
  a local variable (\<open>sub_steps\<close>).  The lemmas show round trips and memory safety.
\<close>

section \<open>Constants\<close>

definition MODE_FROM_CLIENT :: u32 where "MODE_FROM_CLIENT = 0"
definition MODE_FROM_SERVER :: u32 where "MODE_FROM_SERVER = 1"
definition MODE_FROM_RELAY :: u32 where "MODE_FROM_RELAY = 2"
definition MODE_FROM_SECOND_RELAY :: u32 where "MODE_FROM_SECOND_RELAY = 3"
definition MODE_REPLY :: u32 where "MODE_REPLY = 4"

definition FIREWALL_UNKNOWN :: u32 where "FIREWALL_UNKNOWN = 0"
definition FIREWALL_OPEN :: u32 where "FIREWALL_OPEN = 1"
definition FIREWALL_CONSISTENT :: u32 where "FIREWALL_CONSISTENT = 2"
definition FIREWALL_RANDOM :: u32 where "FIREWALL_RANDOM = 3"

definition ERROR_NONE :: u32 where "ERROR_NONE = 0"
definition ERROR_ABORTED :: u32 where "ERROR_ABORTED = 1"
definition ERROR_VERSION_MISMATCH :: u32 where "ERROR_VERSION_MISMATCH = 2"
definition ERROR_TRY_LATER :: u32 where "ERROR_TRY_LATER = 3"

abbreviation uint32_pre :: "u32 \<Rightarrow> State \<Rightarrow> State" where "uint32_pre v s \<equiv> Uint_preencode s (ucast v)"
abbreviation uint32_enc :: "u32 \<Rightarrow> State \<Rightarrow> State" where "uint32_enc v s \<equiv> Uint_encode s (ucast v)"

text \<open>\<^verbatim>\<open>x = static_cast<uint32_t>(Uint::decode(state)); if (state.error) return ..\<close>\<close>

definition uint32_field :: "(u32 \<Rightarrow> 'r \<Rightarrow> 'r) \<Rightarrow> 'r step" where
  "uint32_field upd = field Uint_decode (\<lambda>x. upd (ucast x))"

text \<open>A sub-record that is decoded into a local variable and stored only when all of it was read.\<close>

definition sub_steps :: "'a step \<Rightarrow> 'a \<Rightarrow> ('a \<Rightarrow> 'r \<Rightarrow> 'r) \<Rightarrow> 'r step" where
  "sub_steps f init upd = (\<lambda>(r, s). case f (init, s) of (ok, x, s') \<Rightarrow> if ok then (True, upd x r, s') else (False, r, s'))"

text \<open>A varint that must not exceed a bound.\<close>

definition bounded_field :: "u64 \<Rightarrow> (u64 \<Rightarrow> 'r \<Rightarrow> 'r) \<Rightarrow> 'r step" where
  "bounded_field m upd = (\<lambda>(r, s). case Uint_decode s of (x, s') \<Rightarrow>
     if st_error s' \<or> x > m then (False, r, set_error s') else (True, upd x r, s'))"

section \<open>The handshake wrapper\<close>

record HandshakeMessage =
  hm_mode :: u32
  hm_noise :: bytes
  hm_peer_address :: "Ipv4Address option"
  hm_relay_address :: "Ipv4Address option"

definition HandshakeMessage_init :: HandshakeMessage where
  "HandshakeMessage_init = \<lparr>hm_mode = MODE_FROM_CLIENT, hm_noise = [], hm_peer_address = None, hm_relay_address = None\<rparr>"

definition handshake_flags :: "HandshakeMessage \<Rightarrow> u8" where
  "handshake_flags m =
     (let flags = 0;
          flags = (if hm_peer_address m \<noteq> None then flags OR 1 else flags);
          flags = (if hm_relay_address m \<noteq> None then flags OR 2 else flags)
      in flags)"

definition encode_handshake_msg :: "HandshakeMessage \<Rightarrow> bytes" where
  "encode_handshake_msg m =
     encode_steps
       [\<lambda>s. Uint_preencode s (ucast (handshake_flags m)), uint32_pre (hm_mode m),
        \<lambda>s. Buffer_preencode s (Some (hm_noise m)), opt Ipv4Addr_preencode (hm_peer_address m),
        opt Ipv4Addr_preencode (hm_relay_address m)]
       [\<lambda>s. Uint_encode s (ucast (handshake_flags m)), uint32_enc (hm_mode m),
        \<lambda>s. Buffer_encode s (Some (hm_noise m)), opt Ipv4Addr_encode (hm_peer_address m),
        opt Ipv4Addr_encode (hm_relay_address m)]"

definition handshake_steps :: "(u8 \<times> HandshakeMessage) step" where
  "handshake_steps =
     and_then (field Uint_decode (\<lambda>f (_, m). (ucast f, m)))
     (and_then (uint32_field (\<lambda>v (f, m). (f, m\<lparr>hm_mode := v\<rparr>)))
     (and_then (vector_field (\<lambda>v (f, m). (f, m\<lparr>hm_noise := v\<rparr>)))
     (and_then (guarded (\<lambda>(f, _). has_flag f 1) (field Ipv4Addr_decode (\<lambda>v (f, m). (f, m\<lparr>hm_peer_address := Some v\<rparr>))))
     (guarded (\<lambda>(f, _). has_flag f 2) (field Ipv4Addr_decode (\<lambda>v (f, m). (f, m\<lparr>hm_relay_address := Some v\<rparr>)))))))"

definition decode_handshake_msg :: "bytes \<Rightarrow> HandshakeMessage \<times> State" where
  "decode_handshake_msg data =
     (case handshake_steps ((0, HandshakeMessage_init), for_decode (Some data) (length data)) of (_, (_, m), s) \<Rightarrow> (m, s))"

section \<open>The holepunch wrapper\<close>

record HolepunchMessage =
  hpm_mode :: u32
  hpm_id :: u32
  hpm_payload :: bytes
  hpm_peer_address :: "Ipv4Address option"

definition HolepunchMessage_init :: HolepunchMessage where
  "HolepunchMessage_init = \<lparr>hpm_mode = MODE_FROM_CLIENT, hpm_id = 0, hpm_payload = [], hpm_peer_address = None\<rparr>"

definition holepunch_flags :: "HolepunchMessage \<Rightarrow> u8" where
  "holepunch_flags m = (if hpm_peer_address m \<noteq> None then 1 else 0)"

definition encode_holepunch_msg :: "HolepunchMessage \<Rightarrow> bytes" where
  "encode_holepunch_msg m =
     encode_steps
       [\<lambda>s. Uint_preencode s (ucast (holepunch_flags m)), uint32_pre (hpm_mode m), uint32_pre (hpm_id m),
        \<lambda>s. Buffer_preencode s (Some (hpm_payload m)), opt Ipv4Addr_preencode (hpm_peer_address m)]
       [\<lambda>s. Uint_encode s (ucast (holepunch_flags m)), uint32_enc (hpm_mode m), uint32_enc (hpm_id m),
        \<lambda>s. Buffer_encode s (Some (hpm_payload m)), opt Ipv4Addr_encode (hpm_peer_address m)]"

definition holepunch_steps :: "(u8 \<times> HolepunchMessage) step" where
  "holepunch_steps =
     and_then (bounded_field 0xFF (\<lambda>f (_, m). (ucast f, m)))
     (and_then (bounded_field 0xFF (\<lambda>v (f, m). (f, m\<lparr>hpm_mode := ucast v\<rparr>)))
     (and_then (bounded_field 0xFFFFFFFF (\<lambda>v (f, m). (f, m\<lparr>hpm_id := ucast v\<rparr>)))
     (and_then (vector_field (\<lambda>v (f, m). (f, m\<lparr>hpm_payload := v\<rparr>)))
     (guarded (\<lambda>(f, _). has_flag f 1) (field Ipv4Addr_decode (\<lambda>v (f, m). (f, m\<lparr>hpm_peer_address := Some v\<rparr>)))))))"

definition decode_holepunch_msg :: "bytes \<Rightarrow> HolepunchMessage \<times> State" where
  "decode_holepunch_msg data =
     (case holepunch_steps ((0, HolepunchMessage_init), for_decode (Some data) (length data)) of (_, (_, m), s) \<Rightarrow> (m, s))"

section \<open>The holepunch payload\<close>

record HolepunchPayload =
  hp_connected :: bool
  hp_punching :: bool
  hp_error :: u32
  hp_firewall :: u32
  hp_round :: u32
  hp_addresses :: "Ipv4Address list"
  hp_remote_address :: "Ipv4Address option"
  hp_token :: "bytes option"
  hp_remote_token :: "bytes option"

definition HolepunchPayload_init :: HolepunchPayload where
  "HolepunchPayload_init = \<lparr>hp_connected = False, hp_punching = False, hp_error = 0, hp_firewall = 0, hp_round = 0,
     hp_addresses = [], hp_remote_address = None, hp_token = None, hp_remote_token = None\<rparr>"

definition holepunch_payload_flags :: "HolepunchPayload \<Rightarrow> u32" where
  "holepunch_payload_flags p =
     (let flags = 0;
          flags = (if hp_connected p then flags OR 1 else flags);
          flags = (if hp_punching p then flags OR 2 else flags);
          flags = (if hp_addresses p \<noteq> [] then flags OR 4 else flags);
          flags = (if hp_remote_address p \<noteq> None then flags OR 8 else flags);
          flags = (if hp_token p \<noteq> None then flags OR 16 else flags);
          flags = (if hp_remote_token p \<noteq> None then flags OR 32 else flags)
      in flags)"

definition encode_holepunch_payload :: "HolepunchPayload \<Rightarrow> bytes" where
  "encode_holepunch_payload p =
     (let flags = holepunch_payload_flags p in
      encode_steps
       [uint32_pre flags, uint32_pre (hp_error p), uint32_pre (hp_firewall p), uint32_pre (hp_round p),
        opt (Array_preencode Ipv4Addr_preencode) (nonempty (hp_addresses p)), opt Ipv4Addr_preencode (hp_remote_address p),
        opt Fixed32_preencode (hp_token p), opt Fixed32_preencode (hp_remote_token p)]
       [uint32_enc flags, uint32_enc (hp_error p), uint32_enc (hp_firewall p), uint32_enc (hp_round p),
        opt (Array_encode Ipv4Addr_encode) (nonempty (hp_addresses p)), opt Ipv4Addr_encode (hp_remote_address p),
        opt Fixed32_encode (hp_token p), opt Fixed32_encode (hp_remote_token p)])"

definition has_flag32 :: "u32 \<Rightarrow> u32 \<Rightarrow> bool" where
  "has_flag32 flags f \<longleftrightarrow> flags AND f \<noteq> 0"

text \<open>\<^verbatim>\<open>p.firewall = ..; if (state.error) return p; if (p.firewall > 3) { state.error = true; return p; }\<close>\<close>

definition firewall_field :: "(u32 \<times> HolepunchPayload) step" where
  "firewall_field = (\<lambda>((f, p), s). case Uint_decode s of (x, s') \<Rightarrow>
     let p = p\<lparr>hp_firewall := ucast x\<rparr> in
     if st_error s' then (False, (f, p), s')
     else if hp_firewall p > 3 then (False, (f, p), set_error s')
     else (True, (f, p), s'))"

definition holepunch_payload_steps :: "(u32 \<times> HolepunchPayload) step" where
  "holepunch_payload_steps =
     and_then (uint32_field (\<lambda>v (_, p). (v, p)))
     (and_then (assign (\<lambda>(f, p). (f, p\<lparr>hp_connected := has_flag32 f 1, hp_punching := has_flag32 f 2\<rparr>)))
     (and_then (uint32_field (\<lambda>v (f, p). (f, p\<lparr>hp_error := v\<rparr>)))
     (and_then firewall_field
     (and_then (uint32_field (\<lambda>v (f, p). (f, p\<lparr>hp_round := v\<rparr>)))
     (and_then (guarded (\<lambda>(f, _). has_flag32 f 4) (field (Array_decode Ipv4Addr_decode) (\<lambda>v (f, p). (f, p\<lparr>hp_addresses := v\<rparr>))))
     (and_then (guarded (\<lambda>(f, _). has_flag32 f 8) (field Ipv4Addr_decode (\<lambda>v (f, p). (f, p\<lparr>hp_remote_address := Some v\<rparr>))))
     (and_then (guarded (\<lambda>(f, _). has_flag32 f 16) (field Fixed32_decode (\<lambda>v (f, p). (f, p\<lparr>hp_token := Some v\<rparr>))))
     (guarded (\<lambda>(f, _). has_flag32 f 32) (field Fixed32_decode (\<lambda>v (f, p). (f, p\<lparr>hp_remote_token := Some v\<rparr>)))))))))))"

definition decode_holepunch_payload :: "bytes \<Rightarrow> HolepunchPayload \<times> State" where
  "decode_holepunch_payload data =
     (case holepunch_payload_steps ((0, HolepunchPayload_init), for_decode (Some data) (length data)) of
        (_, (_, p), s) \<Rightarrow> (p, s))"

section \<open>The Noise payload\<close>

record UdxInfo =
  ux_version :: u32
  ux_reusable_socket :: bool
  ux_id :: u32
  ux_seq :: u32

record RelayInfo =
  ri_relay_address :: Ipv4Address
  ri_peer_address :: Ipv4Address

record HolepunchInfo =
  hi_id :: u32
  hi_relays :: "RelayInfo list"

record RelayThroughInfo =
  rti_version :: u32
  rti_public_key :: bytes
  rti_token :: bytes

record NoisePayload =
  np_version :: u32
  np_error :: u32
  np_firewall :: u32
  np_holepunch :: "HolepunchInfo option"
  np_addresses4 :: "Ipv4Address list"
  np_addresses6 :: "Ipv6Address list"
  np_udx :: "UdxInfo option"
  np_has_secret_stream :: bool
  np_relay_through :: "RelayThroughInfo option"
  np_relay_addresses :: "Ipv4Address list"

definition NoisePayload_init :: NoisePayload where
  "NoisePayload_init = \<lparr>np_version = 1, np_error = ERROR_NONE, np_firewall = FIREWALL_UNKNOWN, np_holepunch = None,
     np_addresses4 = [], np_addresses6 = [], np_udx = None, np_has_secret_stream = False, np_relay_through = None,
     np_relay_addresses = []\<rparr>"

definition UdxInfo_init :: UdxInfo where
  "UdxInfo_init = \<lparr>ux_version = 1, ux_reusable_socket = False, ux_id = 0, ux_seq = 0\<rparr>"

definition HolepunchInfo_init :: HolepunchInfo where
  "HolepunchInfo_init = \<lparr>hi_id = 0, hi_relays = []\<rparr>"

definition RelayThroughInfo_init :: RelayThroughInfo where
  "RelayThroughInfo_init = \<lparr>rti_version = 1, rti_public_key = replicate 32 0, rti_token = replicate 32 0\<rparr>"

definition noise_flags :: "NoisePayload \<Rightarrow> u32" where
  "noise_flags p =
     (let flags = 0;
          flags = (if np_holepunch p \<noteq> None then flags OR 1 else flags);
          flags = (if np_addresses4 p \<noteq> [] then flags OR 2 else flags);
          flags = (if np_addresses6 p \<noteq> [] then flags OR 4 else flags);
          flags = (if np_udx p \<noteq> None then flags OR 8 else flags);
          flags = (if np_has_secret_stream p then flags OR 16 else flags);
          flags = (if np_relay_through p \<noteq> None then flags OR 32 else flags);
          flags = (if np_relay_addresses p \<noteq> [] then flags OR 64 else flags)
      in flags)"

text \<open>The \<^verbatim>\<open>preencode\<close> and \<^verbatim>\<open>encode\<close> calls for the sub-records.\<close>

definition holepunch_info_pre :: "HolepunchInfo \<Rightarrow> (State \<Rightarrow> State) list" where
  "holepunch_info_pre h = [uint32_pre (hi_id h), \<lambda>s. Uint_preencode s (of_nat (length (hi_relays h)))] @
     concat (map (\<lambda>ri. [\<lambda>s. Ipv4Addr_preencode s (ri_relay_address ri), \<lambda>s. Ipv4Addr_preencode s (ri_peer_address ri)]) (hi_relays h))"

definition holepunch_info_enc :: "HolepunchInfo \<Rightarrow> (State \<Rightarrow> State) list" where
  "holepunch_info_enc h = [uint32_enc (hi_id h), \<lambda>s. Uint_encode s (of_nat (length (hi_relays h)))] @
     concat (map (\<lambda>ri. [\<lambda>s. Ipv4Addr_encode s (ri_relay_address ri), \<lambda>s. Ipv4Addr_encode s (ri_peer_address ri)]) (hi_relays h))"

definition udx_info_pre :: "UdxInfo \<Rightarrow> (State \<Rightarrow> State) list" where
  "udx_info_pre u = [uint32_pre (ux_version u), uint32_pre (if ux_reusable_socket u then 1 else 0), uint32_pre (ux_id u),
     uint32_pre (ux_seq u)]"

definition udx_info_enc :: "UdxInfo \<Rightarrow> (State \<Rightarrow> State) list" where
  "udx_info_enc u = [uint32_enc (ux_version u), uint32_enc (if ux_reusable_socket u then 1 else 0), uint32_enc (ux_id u),
     uint32_enc (ux_seq u)]"

definition relay_through_pre :: "RelayThroughInfo \<Rightarrow> (State \<Rightarrow> State) list" where
  "relay_through_pre r = [uint32_pre (rti_version r), uint32_pre 0, \<lambda>s. Fixed32_preencode s (rti_public_key r),
     \<lambda>s. Fixed32_preencode s (rti_token r)]"

definition relay_through_enc :: "RelayThroughInfo \<Rightarrow> (State \<Rightarrow> State) list" where
  "relay_through_enc r = [uint32_enc (rti_version r), uint32_enc 0, \<lambda>s. Fixed32_encode s (rti_public_key r),
     \<lambda>s. Fixed32_encode s (rti_token r)]"

definition sub_calls :: "('a \<Rightarrow> (State \<Rightarrow> State) list) \<Rightarrow> 'a option \<Rightarrow> State \<Rightarrow> State" where
  "sub_calls f v = opt (\<lambda>s x. run_steps (f x) s) v"

definition flag_value :: "bool \<Rightarrow> u32 option" where
  "flag_value b = (if b then Some 1 else None)"

definition encode_noise_payload :: "NoisePayload \<Rightarrow> bytes" where
  "encode_noise_payload p =
     (let flags = noise_flags p in
      encode_steps
       [uint32_pre (np_version p), uint32_pre flags, uint32_pre (np_error p), uint32_pre (np_firewall p),
        sub_calls holepunch_info_pre (np_holepunch p), opt (Array_preencode Ipv4Addr_preencode) (nonempty (np_addresses4 p)),
        opt (Array_preencode Ipv6Addr_preencode) (nonempty (np_addresses6 p)), sub_calls udx_info_pre (np_udx p),
        opt (\<lambda>s v. uint32_pre v s) (flag_value (np_has_secret_stream p)), sub_calls relay_through_pre (np_relay_through p),
        opt (Array_preencode Ipv4Addr_preencode) (nonempty (np_relay_addresses p))]
       [uint32_enc (np_version p), uint32_enc flags, uint32_enc (np_error p), uint32_enc (np_firewall p),
        sub_calls holepunch_info_enc (np_holepunch p), opt (Array_encode Ipv4Addr_encode) (nonempty (np_addresses4 p)),
        opt (Array_encode Ipv6Addr_encode) (nonempty (np_addresses6 p)), sub_calls udx_info_enc (np_udx p),
        opt (\<lambda>s v. uint32_enc v s) (flag_value (np_has_secret_stream p)), sub_calls relay_through_enc (np_relay_through p),
        opt (Array_encode Ipv4Addr_encode) (nonempty (np_relay_addresses p))])"

definition MAX_RELAYS :: u32 where "MAX_RELAYS = 128"

definition RelayInfo_init :: RelayInfo where
  "RelayInfo_init = \<lparr>ri_relay_address = Ipv4Address_init, ri_peer_address = Ipv4Address_init\<rparr>"

definition relay_info_steps :: "RelayInfo step" where
  "relay_info_steps =
     and_then (field Ipv4Addr_decode (\<lambda>v r. r\<lparr>ri_relay_address := v\<rparr>)) (field Ipv4Addr_decode (\<lambda>v r. r\<lparr>ri_peer_address := v\<rparr>))"

fun relays_loop :: "nat \<Rightarrow> HolepunchInfo step" where
  "relays_loop 0 = (\<lambda>x. (True, x))"
| "relays_loop (Suc n) =
     and_then (sub_steps relay_info_steps RelayInfo_init (\<lambda>ri h. h\<lparr>hi_relays := hi_relays h @ [ri]\<rparr>)) (relays_loop n)"

text \<open>The relay count is a local variable of the decoder.\<close>

definition relay_count_steps :: "HolepunchInfo step" where
  "relay_count_steps = (\<lambda>(h, s). case Uint_decode s of (x, s') \<Rightarrow>
     if st_error s' then (False, h, s')
     else let relay_count = ucast x :: u32 in
       if relay_count > MAX_RELAYS then (False, h, set_error s') else relays_loop (unat relay_count) (h, s'))"

definition holepunch_info_steps :: "HolepunchInfo step" where
  "holepunch_info_steps = and_then (uint32_field (\<lambda>v h. h\<lparr>hi_id := v\<rparr>)) relay_count_steps"

definition udx_info_steps :: "UdxInfo step" where
  "udx_info_steps =
     and_then (uint32_field (\<lambda>v u. u\<lparr>ux_version := v\<rparr>))
     (and_then (uint32_field (\<lambda>v u. u\<lparr>ux_reusable_socket := has_flag32 v 1\<rparr>))
     (and_then (uint32_field (\<lambda>v u. u\<lparr>ux_id := v\<rparr>)) (uint32_field (\<lambda>v u. u\<lparr>ux_seq := v\<rparr>))))"

definition relay_through_steps :: "RelayThroughInfo step" where
  "relay_through_steps =
     and_then (uint32_field (\<lambda>v r. r\<lparr>rti_version := v\<rparr>))
     (and_then (field Uint_decode (\<lambda>_ r. r))
     (and_then (field Fixed32_decode (\<lambda>v r. r\<lparr>rti_public_key := v\<rparr>)) (field Fixed32_decode (\<lambda>v r. r\<lparr>rti_token := v\<rparr>))))"

definition version_field :: "(u32 \<times> NoisePayload) step" where
  "version_field = (\<lambda>((f, p), s). case Uint_decode s of (x, s') \<Rightarrow>
     let p = p\<lparr>np_version := ucast x\<rparr> in
     if st_error s' \<or> np_version p \<noteq> 1 then (False, (f, p\<lparr>np_error := ERROR_VERSION_MISMATCH\<rparr>), s')
     else (True, (f, p), s'))"

definition noise_steps :: "(u32 \<times> NoisePayload) step" where
  "noise_steps =
     and_then version_field
     (and_then (uint32_field (\<lambda>v (_, p). (v, p)))
     (and_then (uint32_field (\<lambda>v (f, p). (f, p\<lparr>np_error := v\<rparr>)))
     (and_then (uint32_field (\<lambda>v (f, p). (f, p\<lparr>np_firewall := v\<rparr>)))
     (and_then (guarded (\<lambda>(f, _). has_flag32 f 1) (sub_steps holepunch_info_steps HolepunchInfo_init (\<lambda>v (f, p). (f, p\<lparr>np_holepunch := Some v\<rparr>))))
     (and_then (guarded (\<lambda>(f, _). has_flag32 f 2) (field (Array_decode Ipv4Addr_decode) (\<lambda>v (f, p). (f, p\<lparr>np_addresses4 := v\<rparr>))))
     (and_then (guarded (\<lambda>(f, _). has_flag32 f 4) (field (Array_decode Ipv6Addr_decode) (\<lambda>v (f, p). (f, p\<lparr>np_addresses6 := v\<rparr>))))
     (and_then (guarded (\<lambda>(f, _). has_flag32 f 8) (sub_steps udx_info_steps UdxInfo_init (\<lambda>v (f, p). (f, p\<lparr>np_udx := Some v\<rparr>))))
     (and_then (guarded (\<lambda>(f, _). has_flag32 f 16) (local_field Uint_decode (\<lambda>_ (f, p). (f, p\<lparr>np_has_secret_stream := True\<rparr>))))
     (and_then (guarded (\<lambda>(f, _). has_flag32 f 32) (sub_steps relay_through_steps RelayThroughInfo_init (\<lambda>v (f, p). (f, p\<lparr>np_relay_through := Some v\<rparr>))))
     (guarded (\<lambda>(f, _). has_flag32 f 64) (field (Array_decode Ipv4Addr_decode) (\<lambda>v (f, p). (f, p\<lparr>np_relay_addresses := v\<rparr>)))))))))))))"

definition decode_noise_payload :: "bytes \<Rightarrow> NoisePayload \<times> State" where
  "decode_noise_payload data =
     (case noise_steps ((0, NoisePayload_init), for_decode (Some data) (length data)) of (_, (_, p), s) \<Rightarrow> (p, s))"

section \<open>Safety of the steps\<close>

lemma step_safe_uint32: "step_safe (uint32_field upd)"
  unfolding uint32_field_def by (intro step_safes)

lemma step_safe_sub:
  assumes "step_safe f"
  shows "step_safe (sub_steps f init upd)"
  unfolding step_safe_def
proof (intro allI impI)
  fix r s
  assume "rd_safe s"
  then have "safe_step s (snd (snd (f (init, s))))"
    using assms by (simp add: step_safe_def)
  then show "safe_step s (snd (snd (sub_steps f init upd (r, s))))"
    by (cases "f (init, s)") (simp add: sub_steps_def)
qed

lemma safe_step_error: "safe_step s s' \<Longrightarrow> safe_step s (set_error s')"
  by (simp add: safe_step_def rd_safe_def)

lemma step_safe_bounded: "step_safe (bounded_field m upd)"
  using Uint.dec_safe safe_step_error by (fastforce simp: step_safe_def bounded_field_def split: prod.split)

lemma step_safe_firewall: "step_safe firewall_field"
  using Uint.dec_safe safe_step_error by (fastforce simp: step_safe_def firewall_field_def Let_def split: prod.split)

lemma step_safe_version: "step_safe version_field"
  using Uint.dec_safe by (fastforce simp: step_safe_def version_field_def Let_def split: prod.split)

lemma step_safe_relays: "step_safe (relays_loop n)"
proof (induction n)
  case 0
  then show ?case
    by (simp add: step_safe_def safe_step_refl)
next
  case (Suc n)
  then show ?case
    by (auto intro!: step_safe_and_then step_safe_sub step_safes simp: relay_info_steps_def)
qed

lemma step_safe_relay_count: "step_safe relay_count_steps"
  unfolding step_safe_def
proof (intro allI impI)
  fix h s
  assume s: "rd_safe s"
  obtain x s' where d: "Uint_decode s = (x, s')"
    by fastforce
  have s': "safe_step s s'"
    using Uint.dec_safe [OF s] d by simp
  then have "safe_step s' (snd (snd (relays_loop n (h, s'))))" for n
    using step_safe_relays [of n] by (simp add: step_safe_def safe_step_def)
  then show "safe_step s (snd (snd (relay_count_steps (h, s))))"
    using s' safe_step_trans [OF s'] by (simp add: relay_count_steps_def d Let_def safe_step_error)
qed

lemma steps_safe:
  "step_safe handshake_steps" "step_safe holepunch_steps" "step_safe holepunch_payload_steps" "step_safe noise_steps"
proof -
  note safes = step_safes step_safe_uint32 step_safe_sub step_safe_bounded step_safe_firewall step_safe_version
    step_safe_relay_count step_safe_vector step_safe_local Ipv6Array.dec_safe
  show "step_safe handshake_steps" "step_safe holepunch_steps" "step_safe holepunch_payload_steps"
    unfolding handshake_steps_def holepunch_steps_def holepunch_payload_steps_def by (intro safes; assumption)+
  have sub: "step_safe holepunch_info_steps" "step_safe udx_info_steps" "step_safe relay_through_steps"
    unfolding holepunch_info_steps_def udx_info_steps_def relay_through_steps_def by (intro safes; assumption)+
  show "step_safe noise_steps"
    unfolding noise_steps_def by (intro safes sub; assumption)
qed

section \<open>Reading what was written\<close>

lemma step_reads_uint32: "step_reads (uint32_field upd) r (Uint_wire (ucast c)) (upd c r)"
  unfolding uint32_field_def by (rule step_reads_command)

lemma step_reads_sub: "step_reads f init w x \<Longrightarrow> step_reads (sub_steps f init upd) r w (upd x r)"
  by (simp add: step_reads_def sub_steps_def)

lemma step_reads_bounded: "x \<le> m \<Longrightarrow> step_reads (bounded_field m upd) r (Uint_wire x) (upd x r)"
  by (auto simp: step_reads_def bounded_field_def Uint.dec_wire)

lemma step_reads_firewall:
  "fw \<le> 3 \<Longrightarrow> step_reads firewall_field (f, p) (Uint_wire (ucast fw)) (f, p\<lparr>hp_firewall := fw\<rparr>)"
  by (auto simp: step_reads_def firewall_field_def Uint.dec_wire ucast_u32_u64 Let_def)

lemma step_reads_version:
  "step_reads version_field (f, p) (Uint_wire 1) (f, p\<lparr>np_version := 1\<rparr>)"
  by (auto simp: step_reads_def version_field_def Uint.dec_wire [where v = 1] Let_def)

context codec
begin

lemma step_reads_opt_field:
  assumes "c r0 \<longleftrightarrow> v \<noteq> None" and "\<And>x. v = Some x \<Longrightarrow> ok x \<and> r1 = upd x r0" and "v = None \<Longrightarrow> r1 = r0"
  shows "step_reads (guarded c (field dec upd)) r0 (opt_wire wire v) r1"
  using assms by (intro step_reads_opt) (auto intro!: step_reads_field)

end

lemma step_wire_uint32: "step_wire (uint32_pre v) (uint32_enc v) (Uint_wire (ucast v))"
  using Uint.step_wire_codec [of "ucast v"] by simp

lemma step_wire_run:
  assumes "list_all2 (\<lambda>(p, e) w. step_wire p e w) (zip ps es) ws" and "length ps = length es"
  shows "step_wire (run_steps ps) (run_steps es) (concat ws)"
  using run_pres [OF assms(1)] run_encs [OF assms(1)] assms(2) by (simp add: step_wire_def)

lemma step_wire_sub_calls:
  assumes "\<And>x. v = Some x \<Longrightarrow> step_wire (run_steps (ps x)) (run_steps (es x)) (w x)"
  shows "step_wire (sub_calls ps v) (sub_calls es v) (opt_wire w v)"
  using assms by (cases v) (simp_all add: sub_calls_def opt_def opt_wire_def step_wire_def put_bytes_Nil)

lemma step_wire_flag_value:
  "step_wire (opt (\<lambda>s v. uint32_pre v s) (flag_value b)) (opt (\<lambda>s v. uint32_enc v s) (flag_value b))
     (opt_wire (\<lambda>v. Uint_wire (ucast v)) (flag_value b))"
  using step_wire_uint32 [of 1] by (simp add: flag_value_def opt_def opt_wire_def step_wire_def put_bytes_Nil)

lemmas peer_wires = payload_wires Ipv4.step_wire_opt Ipv6Array.step_wire_opt step_wire_uint32 step_wire_sub_calls
  step_wire_flag_value

text \<open>Handshake and holepunch wrappers.\<close>

definition HandshakeMessage_ok :: "HandshakeMessage \<Rightarrow> bool" where
  "HandshakeMessage_ok m \<longleftrightarrow> length (hm_noise m) \<le> 65536 \<and> opt_all Ipv4_ok (hm_peer_address m) \<and> opt_all Ipv4_ok (hm_relay_address m)"

definition handshake_wires :: "HandshakeMessage \<Rightarrow> bytes list" where
  "handshake_wires m = [Uint_wire (ucast (handshake_flags m)), Uint_wire (ucast (hm_mode m)), Buffer_wire (Some (hm_noise m)),
     opt_wire Ipv4Addr_wire (hm_peer_address m), opt_wire Ipv4Addr_wire (hm_relay_address m)]"

definition HolepunchMessage_ok :: "HolepunchMessage \<Rightarrow> bool" where
  "HolepunchMessage_ok m \<longleftrightarrow> hpm_mode m \<le> 0xFF \<and> length (hpm_payload m) \<le> 65536 \<and> opt_all Ipv4_ok (hpm_peer_address m)"

definition holepunch_wires :: "HolepunchMessage \<Rightarrow> bytes list" where
  "holepunch_wires m = [Uint_wire (ucast (holepunch_flags m)), Uint_wire (ucast (hpm_mode m)), Uint_wire (ucast (hpm_id m)),
     Buffer_wire (Some (hpm_payload m)), opt_wire Ipv4Addr_wire (hpm_peer_address m)]"

lemma length_opt_addr: "opt_all Ipv4_ok v \<Longrightarrow> length (opt_wire Ipv4Addr_wire v) \<le> 6"
  by (rule length_opt_wire) (auto simp: opt_all_def Ipv4_ok_def Ipv4Addr_wire_def split: option.splits)

lemma length_peer_wires:
  "HandshakeMessage_ok m \<Longrightarrow> length (concat (handshake_wires m)) < 2 ^ 64"
  "HolepunchMessage_ok h \<Longrightarrow> length (concat (holepunch_wires h)) < 2 ^ 64"
  using length_Uint_wire [of "ucast (handshake_flags m)"] length_Uint_wire [of "ucast (hm_mode m)"]
    length_Buffer_wire [of "hm_noise m"] length_opt_addr [of "hm_peer_address m"] length_opt_addr [of "hm_relay_address m"]
    length_Uint_wire [of "ucast (holepunch_flags h)"] length_Uint_wire [of "ucast (hpm_mode h)"] length_Uint_wire [of "ucast (hpm_id h)"]
    length_Buffer_wire [of "hpm_payload h"] length_opt_addr [of "hpm_peer_address h"]
  by (simp_all add: handshake_wires_def HandshakeMessage_ok_def holepunch_wires_def HolepunchMessage_ok_def)

lemma encode_handshake_wire: "HandshakeMessage_ok m \<Longrightarrow> encode_handshake_msg m = concat (handshake_wires m)"
  unfolding encode_handshake_msg_def
  by (rule encode_steps_wire [OF _ _ length_peer_wires(1)])
    (auto simp: handshake_wires_def HandshakeMessage_ok_def MAX_BUFFER_DECODE_def intro!: peer_wires dest: opt_all_Some)

lemma encode_holepunch_wire: "HolepunchMessage_ok m \<Longrightarrow> encode_holepunch_msg m = concat (holepunch_wires m)"
  unfolding encode_holepunch_msg_def
  by (rule encode_steps_wire [OF _ _ length_peer_wires(2)])
    (auto simp: holepunch_wires_def HolepunchMessage_ok_def MAX_BUFFER_DECODE_def intro!: peer_wires dest: opt_all_Some)

lemma handshake_flags_bits:
  "has_flag (handshake_flags m) 1 \<longleftrightarrow> hm_peer_address m \<noteq> None" "has_flag (handshake_flags m) 2 \<longleftrightarrow> hm_relay_address m \<noteq> None"
  "has_flag (holepunch_flags h) 1 \<longleftrightarrow> hpm_peer_address h \<noteq> None"
  by (simp_all add: has_flag_def handshake_flags_def holepunch_flags_def Let_def)

lemma ucast_u8_u64: "ucast (ucast (f :: u8) :: u64) = f"
  by (rule bit_word_eqI) (simp add: bit_simps)

lemma handshake_steps_read:
  assumes "HandshakeMessage_ok m"
  shows "step_reads handshake_steps (0, HandshakeMessage_init) (concat (handshake_wires m)) (handshake_flags m, m)"
proof -
  note a = assms [unfolded HandshakeMessage_ok_def] and fl = handshake_flags_bits(1,2) [of m]
  let ?f = "handshake_flags m" and ?m0 = HandshakeMessage_init
  let ?m1 = "?m0\<lparr>hm_mode := hm_mode m\<rparr>"
  let ?m2 = "?m1\<lparr>hm_noise := hm_noise m\<rparr>"
  let ?m3 = "?m2\<lparr>hm_peer_address := hm_peer_address m\<rparr>"
  have final: "(?f, m) = (?f, ?m3\<lparr>hm_relay_address := hm_relay_address m\<rparr>)"
    by (cases m) (simp add: HandshakeMessage_init_def)
  show ?thesis
    unfolding handshake_steps_def handshake_wires_def concat.simps append_Nil2 final
    apply (rule step_reads_and_then [where r' = "(?f, ?m0)"])
     apply (use Uint.step_reads_field [OF TrueI, where upd = "\<lambda>f (_, m). (ucast f :: u8, m)" and r = "(0, ?m0)" and v = "ucast ?f"] in \<open>simp add: ucast_u8_u64\<close>)
    apply (rule step_reads_and_then [where r' = "(?f, ?m1)"])
     apply (use step_reads_uint32 [of "\<lambda>v (f, m). (f, m\<lparr>hm_mode := v\<rparr>)" "(?f, ?m0)" "hm_mode m"] in simp)
    apply (rule step_reads_and_then [where r' = "(?f, ?m2)"])
     apply (use step_reads_vector_field [where v = "hm_noise m" and upd = "\<lambda>v (f, m). (f, m\<lparr>hm_noise := v\<rparr>)" and r = "(?f, ?m1)"] a
        in \<open>simp add: MAX_BUFFER_DECODE_def HandshakeMessage_init_def\<close>)
    apply (rule step_reads_and_then [where r' = "(?f, ?m3)"])
     apply (rule Ipv4.step_reads_opt_field; use a in \<open>auto simp: fl opt_all_def HandshakeMessage_init_def\<close>)
    apply (rule Ipv4.step_reads_opt_field; use a in \<open>auto simp: fl opt_all_def HandshakeMessage_init_def\<close>)
    done
qed

lemma ucast_le: "(v :: u32) \<le> 0xFF \<Longrightarrow> (ucast v :: u64) \<le> 0xFF" "(ucast v :: u64) \<le> 0xFFFFFFFF" "(ucast (f :: u8) :: u64) \<le> 0xFF"
  using unsigned_less [of v, where 'a = nat] unsigned_less [of f, where 'a = nat]
  by (simp_all add: word_le_nat_alt unsigned_ucast_eq unsigned_take_bit_eq take_bit_nat_eq_self)

lemma holepunch_steps_read:
  assumes "HolepunchMessage_ok m"
  shows "step_reads holepunch_steps (0, HolepunchMessage_init) (concat (holepunch_wires m)) (holepunch_flags m, m)"
proof -
  note a = assms [unfolded HolepunchMessage_ok_def] and fl = handshake_flags_bits(3) [where h = m]
  let ?f = "holepunch_flags m" and ?m0 = HolepunchMessage_init
  let ?m1 = "?m0\<lparr>hpm_mode := hpm_mode m\<rparr>"
  let ?m2 = "?m1\<lparr>hpm_id := hpm_id m\<rparr>"
  let ?m3 = "?m2\<lparr>hpm_payload := hpm_payload m\<rparr>"
  have final: "(?f, m) = (?f, ?m3\<lparr>hpm_peer_address := hpm_peer_address m\<rparr>)"
    by (cases m) (simp add: HolepunchMessage_init_def)
  show ?thesis
    unfolding holepunch_steps_def holepunch_wires_def concat.simps append_Nil2 final
    apply (rule step_reads_and_then [where r' = "(?f, ?m0)"])
     apply (use step_reads_bounded [where x = "ucast ?f" and m = "0xFF" and upd = "\<lambda>f (_, m). (ucast f :: u8, m)" and r = "(0, ?m0)"] in \<open>simp add: ucast_le ucast_u8_u64\<close>)
    apply (rule step_reads_and_then [where r' = "(?f, ?m1)"])
     apply (use step_reads_bounded [where x = "ucast (hpm_mode m)" and m = "0xFF" and upd = "\<lambda>v (f, m). (f, m\<lparr>hpm_mode := ucast v\<rparr>)" and r = "(?f, ?m0)"] a
        in \<open>simp add: ucast_le ucast_u32_u64\<close>)
    apply (rule step_reads_and_then [where r' = "(?f, ?m2)"])
     apply (use step_reads_bounded [where x = "ucast (hpm_id m)" and m = "0xFFFFFFFF" and upd = "\<lambda>v (f, m). (f, m\<lparr>hpm_id := ucast v\<rparr>)" and r = "(?f, ?m1)"]
        in \<open>simp add: ucast_le ucast_u32_u64\<close>)
    apply (rule step_reads_and_then [where r' = "(?f, ?m3)"])
     apply (use step_reads_vector_field [where v = "hpm_payload m" and upd = "\<lambda>v (f, m). (f, m\<lparr>hpm_payload := v\<rparr>)" and r = "(?f, ?m2)"] a
        in \<open>simp add: MAX_BUFFER_DECODE_def HolepunchMessage_init_def\<close>)
    apply (rule Ipv4.step_reads_opt_field; use a in \<open>auto simp: fl opt_all_def HolepunchMessage_init_def\<close>)
    done
qed

text \<open>The holepunch payload.\<close>

definition HolepunchPayload_ok :: "HolepunchPayload \<Rightarrow> bool" where
  "HolepunchPayload_ok p \<longleftrightarrow> hp_firewall p \<le> 3 \<and> Array_ok Ipv4_ok (hp_addresses p) \<and> opt_all Ipv4_ok (hp_remote_address p) \<and>
     opt_all (\<lambda>x. length x = 32) (hp_token p) \<and> opt_all (\<lambda>x. length x = 32) (hp_remote_token p)"

definition holepunch_payload_wires :: "HolepunchPayload \<Rightarrow> bytes list" where
  "holepunch_payload_wires p =
     [Uint_wire (ucast (holepunch_payload_flags p)), Uint_wire (ucast (hp_error p)), Uint_wire (ucast (hp_firewall p)),
      Uint_wire (ucast (hp_round p)), opt_wire (Array_wire Ipv4Addr_wire) (nonempty (hp_addresses p)),
      opt_wire Ipv4Addr_wire (hp_remote_address p), opt_wire (\<lambda>v. v) (hp_token p), opt_wire (\<lambda>v. v) (hp_remote_token p)]"

lemma length_opt_array: "Array_ok Ipv4_ok xs \<Longrightarrow> length (opt_wire (Array_wire Ipv4Addr_wire) (nonempty xs)) \<le> 9 + 6 * 4096"
  using length_Ipv4Array_wire [of xs]
  by (intro length_opt_wire) (simp add: opt_all_def nonempty_def Array_ok_def ARRAY_MAX_LENGTH_def Ipv4_ok_def list_all_iff)

lemma length_holepunch_payload_wires:
  "HolepunchPayload_ok p \<Longrightarrow> length (concat (holepunch_payload_wires p)) < 2 ^ 64"
  using length_Uint_wire [of "ucast (holepunch_payload_flags p)"] length_Uint_wire [of "ucast (hp_error p)"]
    length_Uint_wire [of "ucast (hp_firewall p)"] length_Uint_wire [of "ucast (hp_round p)"]
    length_opt_array [of "hp_addresses p"] length_opt_addr [of "hp_remote_address p"]
    length_opt_id [of "hp_token p"] length_opt_id [of "hp_remote_token p"]
  by (simp add: holepunch_payload_wires_def HolepunchPayload_ok_def)

lemma nonempty_ok: "Array_ok P xs \<Longrightarrow> nonempty xs = Some ys \<Longrightarrow> Array_ok P ys"
  by (simp add: nonempty_def split: if_splits)

lemma encode_holepunch_payload_wire:
  "HolepunchPayload_ok p \<Longrightarrow> encode_holepunch_payload p = concat (holepunch_payload_wires p)"
  unfolding encode_holepunch_payload_def Let_def
  by (rule encode_steps_wire [OF _ _ length_holepunch_payload_wires])
    (auto simp: holepunch_payload_wires_def HolepunchPayload_ok_def intro!: peer_wires dest: opt_all_Some nonempty_ok)

lemma holepunch_payload_flags_bits:
  "has_flag32 (holepunch_payload_flags p) 1 \<longleftrightarrow> hp_connected p" "has_flag32 (holepunch_payload_flags p) 2 \<longleftrightarrow> hp_punching p"
  "has_flag32 (holepunch_payload_flags p) 4 \<longleftrightarrow> hp_addresses p \<noteq> []" "has_flag32 (holepunch_payload_flags p) 8 \<longleftrightarrow> hp_remote_address p \<noteq> None"
  "has_flag32 (holepunch_payload_flags p) 16 \<longleftrightarrow> hp_token p \<noteq> None" "has_flag32 (holepunch_payload_flags p) 32 \<longleftrightarrow> hp_remote_token p \<noteq> None"
  by (simp_all add: has_flag32_def holepunch_payload_flags_def Let_def)

lemma holepunch_payload_steps_read:
  assumes "HolepunchPayload_ok p"
  shows "step_reads holepunch_payload_steps (0, HolepunchPayload_init) (concat (holepunch_payload_wires p)) (holepunch_payload_flags p, p)"
proof -
  note a = assms [unfolded HolepunchPayload_ok_def] and fl = holepunch_payload_flags_bits [of p]
  let ?f = "holepunch_payload_flags p" and ?p0 = HolepunchPayload_init
  let ?p1 = "?p0\<lparr>hp_connected := has_flag32 ?f 1, hp_punching := has_flag32 ?f 2\<rparr>"
  let ?p2 = "?p1\<lparr>hp_error := hp_error p\<rparr>"
  let ?p3 = "?p2\<lparr>hp_firewall := hp_firewall p\<rparr>"
  let ?p4 = "?p3\<lparr>hp_round := hp_round p\<rparr>"
  let ?p5 = "?p4\<lparr>hp_addresses := hp_addresses p\<rparr>"
  let ?p6 = "?p5\<lparr>hp_remote_address := hp_remote_address p\<rparr>"
  let ?p7 = "?p6\<lparr>hp_token := hp_token p\<rparr>"
  have final: "(?f, p) = (?f, ?p7\<lparr>hp_remote_token := hp_remote_token p\<rparr>)"
    by (cases p) (simp add: HolepunchPayload_init_def holepunch_payload_flags_bits)
  show ?thesis
    unfolding holepunch_payload_steps_def holepunch_payload_wires_def concat.simps append_Nil2 final
    apply (rule step_reads_and_then [where r' = "(?f, ?p0)"])
     apply (use step_reads_uint32 [where upd = "\<lambda>v (_, p). (v, p)" and r = "(0, ?p0)" and c = ?f] in simp)
    apply (rule step_reads_and_then [where r' = "(?f, ?p1)" and w = "[]", simplified append_Nil])
     apply (use step_reads_assign [where upd = "\<lambda>(f, p). (f, p\<lparr>hp_connected := has_flag32 f 1, hp_punching := has_flag32 f 2\<rparr>)" and r = "(?f, ?p0)"] in simp)
    apply (rule step_reads_and_then [where r' = "(?f, ?p2)"])
     apply (use step_reads_uint32 [where upd = "\<lambda>v (f, p). (f, p\<lparr>hp_error := v\<rparr>)" and r = "(?f, ?p1)" and c = "hp_error p"] in simp)
    apply (rule step_reads_and_then [OF step_reads_firewall], simp add: a)
    apply (rule step_reads_and_then [where r' = "(?f, ?p4)"])
     apply (use step_reads_uint32 [where upd = "\<lambda>v (f, p). (f, p\<lparr>hp_round := v\<rparr>)" and r = "(?f, ?p3)" and c = "hp_round p"] in simp)
    apply (rule step_reads_and_then [where r' = "(?f, ?p5)"])
     apply (rule Ipv4Array.step_reads_opt_field; use a in \<open>auto simp: fl nonempty_def HolepunchPayload_init_def split: if_splits\<close>)
    apply (rule step_reads_and_then [where r' = "(?f, ?p6)"])
     apply (rule Ipv4.step_reads_opt_field; use a in \<open>auto simp: fl opt_all_def HolepunchPayload_init_def\<close>)
    apply (rule step_reads_and_then [where r' = "(?f, ?p7)"])
     apply (rule Fixed32.step_reads_opt_field; use a in \<open>auto simp: fl opt_all_def HolepunchPayload_init_def\<close>)
    apply (rule Fixed32.step_reads_opt_field; use a in \<open>auto simp: fl opt_all_def HolepunchPayload_init_def\<close>)
    done
qed

text \<open>The Noise payload.\<close>

definition RelayInfo_ok :: "RelayInfo \<Rightarrow> bool" where
  "RelayInfo_ok r \<longleftrightarrow> Ipv4_ok (ri_relay_address r) \<and> Ipv4_ok (ri_peer_address r)"

definition HolepunchInfo_ok :: "HolepunchInfo \<Rightarrow> bool" where
  "HolepunchInfo_ok h \<longleftrightarrow> length (hi_relays h) \<le> 128 \<and> (\<forall>r \<in> set (hi_relays h). RelayInfo_ok r)"

definition RelayThroughInfo_ok :: "RelayThroughInfo \<Rightarrow> bool" where
  "RelayThroughInfo_ok r \<longleftrightarrow> length (rti_public_key r) = 32 \<and> length (rti_token r) = 32"

definition NoisePayload_ok :: "NoisePayload \<Rightarrow> bool" where
  "NoisePayload_ok p \<longleftrightarrow> np_version p = 1 \<and> opt_all HolepunchInfo_ok (np_holepunch p) \<and> Array_ok Ipv4_ok (np_addresses4 p) \<and>
     Array_ok Ipv6_ok (np_addresses6 p) \<and> opt_all RelayThroughInfo_ok (np_relay_through p) \<and> Array_ok Ipv4_ok (np_relay_addresses p)"

definition relay_info_wires :: "RelayInfo \<Rightarrow> bytes list" where
  "relay_info_wires r = [Ipv4Addr_wire (ri_relay_address r), Ipv4Addr_wire (ri_peer_address r)]"

definition holepunch_info_wires :: "HolepunchInfo \<Rightarrow> bytes list" where
  "holepunch_info_wires h = [Uint_wire (ucast (hi_id h)), Uint_wire (of_nat (length (hi_relays h)))] @
     concat (map relay_info_wires (hi_relays h))"

definition udx_info_wires :: "UdxInfo \<Rightarrow> bytes list" where
  "udx_info_wires u = [Uint_wire (ucast (ux_version u)), Uint_wire (ucast (if ux_reusable_socket u then 1 else 0 :: u32)),
     Uint_wire (ucast (ux_id u)), Uint_wire (ucast (ux_seq u))]"

definition relay_through_wires :: "RelayThroughInfo \<Rightarrow> bytes list" where
  "relay_through_wires r = [Uint_wire (ucast (rti_version r)), Uint_wire (ucast (0 :: u32)), rti_public_key r, rti_token r]"

definition noise_wires :: "NoisePayload \<Rightarrow> bytes list" where
  "noise_wires p =
     [Uint_wire (ucast (np_version p)), Uint_wire (ucast (noise_flags p)), Uint_wire (ucast (np_error p)),
      Uint_wire (ucast (np_firewall p)), opt_wire (\<lambda>h. concat (holepunch_info_wires h)) (np_holepunch p),
      opt_wire (Array_wire Ipv4Addr_wire) (nonempty (np_addresses4 p)), opt_wire (Array_wire Ipv6Addr_wire) (nonempty (np_addresses6 p)),
      opt_wire (\<lambda>u. concat (udx_info_wires u)) (np_udx p),
      opt_wire (\<lambda>v. Uint_wire (ucast v)) (flag_value (np_has_secret_stream p)),
      opt_wire (\<lambda>r. concat (relay_through_wires r)) (np_relay_through p), opt_wire (Array_wire Ipv4Addr_wire) (nonempty (np_relay_addresses p))]"

lemma step_wire_holepunch_info:
  assumes "HolepunchInfo_ok h"
  shows "step_wire (run_steps (holepunch_info_pre h)) (run_steps (holepunch_info_enc h)) (concat (holepunch_info_wires h))"
proof -
  have "length (concat (map (\<lambda>ri. [\<lambda>s. Ipv4Addr_preencode s (ri_relay_address ri), \<lambda>s. Ipv4Addr_preencode s (ri_peer_address ri)]) rs)) =
      length (concat (map (\<lambda>ri. [\<lambda>s. Ipv4Addr_encode s (ri_relay_address ri), \<lambda>s. Ipv4Addr_encode s (ri_peer_address ri)]) rs))" for rs
    by (induction rs) simp_all
  moreover have "list_all2 (\<lambda>(p, e) w. step_wire p e w)
      (zip (concat (map (\<lambda>ri. [\<lambda>s. Ipv4Addr_preencode s (ri_relay_address ri), \<lambda>s. Ipv4Addr_preencode s (ri_peer_address ri)]) rs))
         (concat (map (\<lambda>ri. [\<lambda>s. Ipv4Addr_encode s (ri_relay_address ri), \<lambda>s. Ipv4Addr_encode s (ri_peer_address ri)]) rs)))
      (concat (map relay_info_wires rs))" if "\<forall>r \<in> set rs. RelayInfo_ok r" for rs
    using that by (induction rs) (simp_all add: relay_info_wires_def RelayInfo_ok_def Ipv4.step_wire_codec)
  ultimately show ?thesis
    using assms step_wire_uint32 Uint.step_wire_codec
    by (intro step_wire_run) (simp_all add: holepunch_info_pre_def holepunch_info_enc_def holepunch_info_wires_def HolepunchInfo_ok_def)
qed

lemma step_wire_infos:
  "step_wire (run_steps (udx_info_pre u)) (run_steps (udx_info_enc u)) (concat (udx_info_wires u))"
  "RelayThroughInfo_ok r \<Longrightarrow>
     step_wire (run_steps (relay_through_pre r)) (run_steps (relay_through_enc r)) (concat (relay_through_wires r))"
  by (intro step_wire_run; simp add: udx_info_pre_def udx_info_enc_def udx_info_wires_def relay_through_pre_def
      relay_through_enc_def relay_through_wires_def RelayThroughInfo_ok_def step_wire_uint32 Uint.step_wire_codec Fixed32.step_wire_codec)+

lemma length_relays: "\<forall>r \<in> set rs. RelayInfo_ok r \<Longrightarrow> length (concat (concat (map relay_info_wires rs))) = 12 * length rs"
  by (induction rs) (simp_all add: relay_info_wires_def RelayInfo_ok_def Ipv4Addr_wire_def Ipv4_ok_def)

lemma length_Ipv6Array_wire:
  assumes "Array_ok Ipv6_ok xs"
  shows "length (opt_wire (Array_wire Ipv6Addr_wire) (nonempty xs)) \<le> 9 + 18 * 4096"
proof -
  have "length (concat (map Ipv6Addr_wire ys)) = 18 * length ys" if "list_all Ipv6_ok ys" for ys
    using that by (induction ys) (simp_all add: Ipv6Addr_wire_def Ipv6_ok_def)
  then have "length (Array_wire Ipv6Addr_wire xs) \<le> 9 + 18 * 4096"
    using assms length_Uint_wire [of "of_nat (length xs)"] by (simp add: Array_wire_def Array_ok_def ARRAY_MAX_LENGTH_def)
  then show ?thesis
    by (intro length_opt_wire) (simp add: opt_all_def nonempty_def)
qed

lemma length_noise_wires:
  assumes "NoisePayload_ok p"
  shows "length (concat (noise_wires p)) < 2 ^ 64"
proof -
  have "length (concat (holepunch_info_wires h)) \<le> 18 + 12 * 128" if "HolepunchInfo_ok h" for h
    using that length_relays [of "hi_relays h"] length_Uint_wire [of "ucast (hi_id h)"]
      length_Uint_wire [of "of_nat (length (hi_relays h))"] by (simp add: holepunch_info_wires_def HolepunchInfo_ok_def)
  then have 1: "length (opt_wire (\<lambda>h. concat (holepunch_info_wires h)) (np_holepunch p)) \<le> 18 + 12 * 128"
    using assms by (intro length_opt_wire) (auto simp: opt_all_def NoisePayload_ok_def split: option.splits)
  have "length (concat (udx_info_wires u)) \<le> 36" for u
    using length_Uint_wire [of "ucast (ux_version u)"] length_Uint_wire [of "ucast (if ux_reusable_socket u then 1 else 0 :: u32)"]
      length_Uint_wire [of "ucast (ux_id u)"] length_Uint_wire [of "ucast (ux_seq u)"] by (simp add: udx_info_wires_def)
  then have 2: "length (opt_wire (\<lambda>u. concat (udx_info_wires u)) (np_udx p)) \<le> 36"
    by (intro length_opt_wire) (simp add: opt_all_def split: option.split)
  have "length (concat (relay_through_wires r)) \<le> 82" if "RelayThroughInfo_ok r" for r
    using that length_Uint_wire [of "ucast (rti_version r)"] length_Uint_wire [of "ucast (0 :: u32)"]
    by (simp add: relay_through_wires_def RelayThroughInfo_ok_def)
  then have 3: "length (opt_wire (\<lambda>r. concat (relay_through_wires r)) (np_relay_through p)) \<le> 82"
    using assms by (intro length_opt_wire) (auto simp: opt_all_def NoisePayload_ok_def split: option.splits)
  have 4: "length (opt_wire (\<lambda>v. Uint_wire (ucast v)) (flag_value (np_has_secret_stream p))) \<le> 9"
    by (intro length_opt_wire) (simp add: opt_all_def length_Uint_wire split: option.split)
  show ?thesis
    using assms 1 2 3 4 length_Uint_wire [of "ucast (np_version p)"] length_Uint_wire [of "ucast (noise_flags p)"]
      length_Uint_wire [of "ucast (np_error p)"] length_Uint_wire [of "ucast (np_firewall p)"]
      length_opt_array [of "np_addresses4 p"] length_opt_array [of "np_relay_addresses p"] length_Ipv6Array_wire [of "np_addresses6 p"]
    by (simp add: noise_wires_def NoisePayload_ok_def)
qed

lemma encode_noise_wire: "NoisePayload_ok p \<Longrightarrow> encode_noise_payload p = concat (noise_wires p)"
  unfolding encode_noise_payload_def Let_def
  by (rule encode_steps_wire [OF _ _ length_noise_wires])
    (auto simp: noise_wires_def NoisePayload_ok_def intro!: peer_wires step_wire_holepunch_info step_wire_infos
      dest: opt_all_Some nonempty_ok)

lemma noise_flags_bits:
  "has_flag32 (noise_flags p) 1 \<longleftrightarrow> np_holepunch p \<noteq> None" "has_flag32 (noise_flags p) 2 \<longleftrightarrow> np_addresses4 p \<noteq> []"
  "has_flag32 (noise_flags p) 4 \<longleftrightarrow> np_addresses6 p \<noteq> []" "has_flag32 (noise_flags p) 8 \<longleftrightarrow> np_udx p \<noteq> None"
  "has_flag32 (noise_flags p) 16 \<longleftrightarrow> np_has_secret_stream p" "has_flag32 (noise_flags p) 32 \<longleftrightarrow> np_relay_through p \<noteq> None"
  "has_flag32 (noise_flags p) 64 \<longleftrightarrow> np_relay_addresses p \<noteq> []"
  by (simp_all add: has_flag32_def noise_flags_def Let_def)

lemma relays_loop_read:
  assumes "\<forall>r \<in> set rs. RelayInfo_ok r"
  shows "step_reads (relays_loop (length rs)) h (concat (concat (map relay_info_wires rs))) (h\<lparr>hi_relays := hi_relays h @ rs\<rparr>)"
  using assms
proof (induction rs arbitrary: h)
  case Nil
  then show ?case
    by (simp add: step_reads_def)
next
  case (Cons r rs)
  let ?upd = "\<lambda>ri h. h\<lparr>hi_relays := hi_relays h @ [ri]\<rparr>"
  have "step_reads relay_info_steps RelayInfo_init (Ipv4Addr_wire (ri_relay_address r) @ Ipv4Addr_wire (ri_peer_address r))
      (RelayInfo_init\<lparr>ri_relay_address := ri_relay_address r\<rparr>\<lparr>ri_peer_address := ri_peer_address r\<rparr>)"
    unfolding relay_info_steps_def using Cons.prems
    by (intro step_reads_and_then [OF Ipv4.step_reads_field] Ipv4.step_reads_field) (simp_all add: RelayInfo_ok_def)
  then have "step_reads (sub_steps relay_info_steps RelayInfo_init ?upd) h (concat (relay_info_wires r)) (?upd r h)"
    by (intro step_reads_sub) (cases r, simp add: relay_info_wires_def RelayInfo_init_def)
  then show ?case
    using step_reads_and_then [OF _ Cons.IH [of "?upd r h"]] Cons.prems by simp
qed

lemma holepunch_info_read:
  assumes "HolepunchInfo_ok h"
  shows "step_reads holepunch_info_steps HolepunchInfo_init (concat (holepunch_info_wires h)) h"
proof -
  let ?n = "of_nat (length (hi_relays h)) :: u64" and ?h1 = "HolepunchInfo_init\<lparr>hi_id := hi_id h\<rparr>"
  have n: "unat (ucast ?n :: u32) = length (hi_relays h)" "\<not> (ucast ?n :: u32) > MAX_RELAYS"
    using assms
    by (simp_all add: HolepunchInfo_ok_def MAX_RELAYS_def word_less_nat_alt unsigned_ucast_eq unsigned_take_bit_eq unat_of_nat
        take_bit_nat_eq_self)
  have "step_reads relay_count_steps ?h1 (Uint_wire ?n @ concat (concat (map relay_info_wires (hi_relays h)))) h"
    unfolding step_reads_def
  proof (intro allI impI)
    fix s t
    assume s: "rd_safe s" "\<not> st_error s" "rest s = (Uint_wire ?n @ concat (concat (map relay_info_wires (hi_relays h)))) @ t"
    have d: "Uint_decode s = (?n, adv s (length (Uint_wire ?n)))"
      using Uint.dec_wire [OF TrueI s(1,2)] s(3) by simp
    have "relays_loop (length (hi_relays h)) (?h1, adv s (length (Uint_wire ?n))) =
        (True, ?h1\<lparr>hi_relays := hi_relays ?h1 @ hi_relays h\<rparr>,
         adv (adv s (length (Uint_wire ?n))) (length (concat (concat (map relay_info_wires (hi_relays h))))))"
      using relays_loop_read [of "hi_relays h" ?h1] s assms
      by (simp add: step_reads_def HolepunchInfo_ok_def cursor_simps)
    then show "relay_count_steps (?h1, s) = (True, h, adv s (length (Uint_wire ?n @ concat (concat (map relay_info_wires (hi_relays h))))))"
      using n d s(2) by (cases h) (simp add: relay_count_steps_def HolepunchInfo_init_def cursor_simps Let_def)
  qed
  then show ?thesis
    unfolding holepunch_info_steps_def holepunch_info_wires_def
    using step_reads_and_then [OF step_reads_uint32 [where upd = "\<lambda>v h. h\<lparr>hi_id := v\<rparr>" and c = "hi_id h" and r = HolepunchInfo_init]]
    by simp
qed

lemma udx_info_read: "step_reads udx_info_steps UdxInfo_init (concat (udx_info_wires u)) u"
proof -
  let ?b = "if ux_reusable_socket u then 1 else 0 :: u32"
  have "step_reads udx_info_steps UdxInfo_init (concat (udx_info_wires u))
      (UdxInfo_init\<lparr>ux_version := ux_version u\<rparr>\<lparr>ux_reusable_socket := has_flag32 ?b 1\<rparr>\<lparr>ux_id := ux_id u\<rparr>\<lparr>ux_seq := ux_seq u\<rparr>)"
    unfolding udx_info_steps_def udx_info_wires_def concat.simps append_Nil2
    by (intro step_reads_and_then [OF step_reads_uint32] step_reads_uint32)
  moreover have "has_flag32 ?b 1 = ux_reusable_socket u"
    by (simp add: has_flag32_def)
  ultimately show ?thesis
    by (cases u) (simp add: UdxInfo_init_def)
qed

lemma relay_through_read:
  assumes "RelayThroughInfo_ok r"
  shows "step_reads relay_through_steps RelayThroughInfo_init (concat (relay_through_wires r)) r"
proof -
  have "step_reads relay_through_steps RelayThroughInfo_init (concat (relay_through_wires r))
      (RelayThroughInfo_init\<lparr>rti_version := rti_version r\<rparr>\<lparr>rti_public_key := rti_public_key r\<rparr>\<lparr>rti_token := rti_token r\<rparr>)"
    unfolding relay_through_steps_def relay_through_wires_def concat.simps append_Nil2
    using assms unfolding RelayThroughInfo_ok_def
    by (intro step_reads_and_then [OF step_reads_uint32] step_reads_and_then [OF Uint.step_reads_field [OF TrueI]]
        step_reads_and_then [OF Fixed32.step_reads_field] Fixed32.step_reads_field) simp_all
  then show ?thesis
    by (cases r) (simp add: RelayThroughInfo_init_def)
qed

lemma step_reads_opt_sub:
  assumes "c r0 \<longleftrightarrow> v \<noteq> None" and "\<And>x. v = Some x \<Longrightarrow> step_reads f init (w x) x \<and> r1 = upd x r0" and "v = None \<Longrightarrow> r1 = r0"
  shows "step_reads (guarded c (sub_steps f init upd)) r0 (opt_wire w v) r1"
  using assms by (intro step_reads_opt) (auto intro!: step_reads_sub)

lemma noise_steps_read:
  assumes "NoisePayload_ok p"
  shows "step_reads noise_steps (0, NoisePayload_init) (concat (noise_wires p)) (noise_flags p, p)"
proof -
  note a = assms [unfolded NoisePayload_ok_def] and fl = noise_flags_bits [of p]
  let ?f = "noise_flags p" and ?p0 = "NoisePayload_init\<lparr>np_version := 1\<rparr>"
  let ?p1 = "?p0\<lparr>np_error := np_error p\<rparr>"
  let ?p2 = "?p1\<lparr>np_firewall := np_firewall p\<rparr>"
  let ?p3 = "?p2\<lparr>np_holepunch := np_holepunch p\<rparr>"
  let ?p4 = "?p3\<lparr>np_addresses4 := np_addresses4 p\<rparr>"
  let ?p5 = "?p4\<lparr>np_addresses6 := np_addresses6 p\<rparr>"
  let ?p6 = "?p5\<lparr>np_udx := np_udx p\<rparr>"
  let ?p7 = "?p6\<lparr>np_has_secret_stream := np_has_secret_stream p\<rparr>"
  let ?p8 = "?p7\<lparr>np_relay_through := np_relay_through p\<rparr>"
  have final: "(?f, p) = (?f, ?p8\<lparr>np_relay_addresses := np_relay_addresses p\<rparr>)"
    using a by (cases p) (simp add: NoisePayload_init_def)
  have ver: "Uint_wire (ucast (np_version p)) = Uint_wire 1"
    using a by simp
  show ?thesis
    unfolding noise_steps_def noise_wires_def concat.simps append_Nil2 final ver
    apply (rule step_reads_and_then [OF step_reads_version])
    apply (rule step_reads_and_then [where r' = "(?f, ?p0)"])
     apply (use step_reads_uint32 [where upd = "\<lambda>v (_, p). (v, p)" and r = "(0, ?p0)" and c = ?f] in simp)
    apply (rule step_reads_and_then [where r' = "(?f, ?p1)"])
     apply (use step_reads_uint32 [where upd = "\<lambda>v (f, p). (f, p\<lparr>np_error := v\<rparr>)" and r = "(?f, ?p0)" and c = "np_error p"] in simp)
    apply (rule step_reads_and_then [where r' = "(?f, ?p2)"])
     apply (use step_reads_uint32 [where upd = "\<lambda>v (f, p). (f, p\<lparr>np_firewall := v\<rparr>)" and r = "(?f, ?p1)" and c = "np_firewall p"] in simp)
    apply (rule step_reads_and_then [where r' = "(?f, ?p3)"])
     apply (rule step_reads_opt_sub; use a holepunch_info_read in \<open>auto simp: fl opt_all_def NoisePayload_init_def\<close>)
    apply (rule step_reads_and_then [where r' = "(?f, ?p4)"])
     apply (rule Ipv4Array.step_reads_opt_field; use a in \<open>auto simp: fl nonempty_def NoisePayload_init_def split: if_splits\<close>)
    apply (rule step_reads_and_then [where r' = "(?f, ?p5)"])
     apply (rule Ipv6Array.step_reads_opt_field; use a in \<open>auto simp: fl nonempty_def NoisePayload_init_def split: if_splits\<close>)
    apply (rule step_reads_and_then [where r' = "(?f, ?p6)"])
     apply (rule step_reads_opt_sub; use udx_info_read in \<open>auto simp: fl NoisePayload_init_def\<close>)
    apply (rule step_reads_and_then [where r' = "(?f, ?p7)"], rule step_reads_opt)
       apply (simp add: fl flag_value_def)
      apply (use Uint.step_reads_local [OF TrueI, where upd = "\<lambda>_ (f, p). (f, p\<lparr>np_has_secret_stream := True\<rparr>)" and r = "(?f, ?p6)"]
        in \<open>simp add: flag_value_def split: if_splits\<close>)
     apply (simp add: flag_value_def NoisePayload_init_def split: if_splits)
    apply (rule step_reads_and_then [where r' = "(?f, ?p8)"])
     apply (rule step_reads_opt_sub; use a relay_through_read in \<open>auto simp: fl opt_all_def NoisePayload_init_def\<close>)
    apply (rule Ipv4Array.step_reads_opt_field; use a in \<open>auto simp: fl nonempty_def NoisePayload_init_def split: if_splits\<close>)
    done
qed

section \<open>Properties\<close>

text \<open>The payload of the Noise handshake survives encoding and decoding: version 1, every combination of optional
  fields, up to 128 relays and 4096 addresses of a kind.\<close>

lemma noise_payload_roundtrip:
  assumes "NoisePayload_ok p"
  shows "fst (decode_noise_payload (encode_noise_payload p)) = p"
  using step_reads_run [OF noise_steps_read [OF assms] length_noise_wires [OF assms]]
  by (simp add: decode_noise_payload_def encode_noise_wire [OF assms])

text \<open>The wrappers of the two connection commands and the holepunch payload survive encoding and decoding, within
  the ranges the decoder accepts (mode at most 255, firewall at most 3).\<close>

lemma connect_msgs_roundtrip:
  assumes "HandshakeMessage_ok h" and "HolepunchMessage_ok m" and "HolepunchPayload_ok p"
  shows "fst (decode_handshake_msg (encode_handshake_msg h)) = h \<and> fst (decode_holepunch_msg (encode_holepunch_msg m)) = m \<and>
    fst (decode_holepunch_payload (encode_holepunch_payload p)) = p"
  using step_reads_run [OF handshake_steps_read [OF assms(1)] length_peer_wires(1) [OF assms(1)]]
    step_reads_run [OF holepunch_steps_read [OF assms(2)] length_peer_wires(2) [OF assms(2)]]
    step_reads_run [OF holepunch_payload_steps_read [OF assms(3)] length_holepunch_payload_wires [OF assms(3)]]
  by (simp add: decode_handshake_msg_def encode_handshake_wire decode_holepunch_msg_def encode_holepunch_wire
      decode_holepunch_payload_def encode_holepunch_payload_wire assms)

text \<open>None of the decoders of connection messages reads outside its input, whatever bytes arrive.\<close>

lemma connect_decode_safe:
  assumes "length data < 2 ^ 64"
  shows "\<not> st_fault (snd (decode_handshake_msg data)) \<and> \<not> st_fault (snd (decode_holepunch_msg data)) \<and>
    \<not> st_fault (snd (decode_holepunch_payload data)) \<and> \<not> st_fault (snd (decode_noise_payload data))"
proof -
  have run: "\<not> st_fault (snd (snd (f (r, for_decode (Some data) (length data)))))" if "step_safe f" for f :: "'x step" and r
    using that rd_safe_for_decode [OF assms] unfolding step_safe_def safe_step_def rd_safe_def by blast
  show ?thesis
    using run [OF steps_safe(1), of "(0, HandshakeMessage_init)"] run [OF steps_safe(2), of "(0, HolepunchMessage_init)"]
      run [OF steps_safe(3), of "(0, HolepunchPayload_init)"] run [OF steps_safe(4), of "(0, NoisePayload_init)"]
    by (auto simp: decode_handshake_msg_def decode_holepunch_msg_def decode_holepunch_payload_def decode_noise_payload_def
        split: prod.splits)
qed

end
