(* ===== verification/Congestion.thy ===== *)
theory Congestion
  imports Prelude
begin

text \<open>
  The congestion window of the RPC socket (\<^verbatim>\<open>CongestionWindow\<close> in \<^verbatim>\<open>src/rpc.cpp\<close>): four time buckets that count the
  transmissions of the last four drain periods, and their total.  \<^verbatim>\<open>int\<close> counters are integers: they count
  transmissions of three seconds, far below \<open>2 ^ 31\<close>.
\<close>

section \<open>Operations\<close>

record CongestionWindow =
  cw_i :: nat
  cw_total :: int
  cw_window :: "int list"
  cw_max_window :: int

definition CongestionWindow_new :: "int \<Rightarrow> CongestionWindow" where
  "CongestionWindow_new max_window = \<lparr>cw_i = 0, cw_total = 0, cw_window = replicate 4 0, cw_max_window = max_window\<rparr>"

definition cw_is_full :: "CongestionWindow \<Rightarrow> bool" where
  "cw_is_full c \<longleftrightarrow> cw_total c \<ge> 2 * cw_max_window c \<or> cw_window c ! cw_i c \<ge> cw_max_window c"

definition cw_send :: "CongestionWindow \<Rightarrow> CongestionWindow" where
  "cw_send c = c\<lparr>cw_total := cw_total c + 1, cw_window := (cw_window c)[cw_i c := cw_window c ! cw_i c + 1]\<rparr>"

definition cw_recv :: "CongestionWindow \<Rightarrow> CongestionWindow" where
  "cw_recv c =
     (if cw_window c ! cw_i c > 0
      then c\<lparr>cw_window := (cw_window c)[cw_i c := cw_window c ! cw_i c - 1], cw_total := cw_total c - 1\<rparr> else c)"

definition cw_drain :: "CongestionWindow \<Rightarrow> CongestionWindow" where
  "cw_drain c =
     (let i = (cw_i c + 1) mod 4;
          total = cw_total c - cw_window c ! i;
          total = (if total < 0 then 0 else total)
      in c\<lparr>cw_i := i, cw_total := total, cw_window := (cw_window c)[i := 0]\<rparr>)"

definition cw_clear :: "CongestionWindow \<Rightarrow> CongestionWindow" where
  "cw_clear c = c\<lparr>cw_i := 0, cw_total := 0, cw_window := replicate 4 0\<rparr>"

section \<open>The total is the sum of the buckets\<close>

definition cw_ok :: "CongestionWindow \<Rightarrow> bool" where
  "cw_ok c \<longleftrightarrow> length (cw_window c) = 4 \<and> cw_i c < 4 \<and> cw_total c = sum_list (cw_window c) \<and> (\<forall>x \<in> set (cw_window c). 0 \<le> x)"

lemma sum_list_update_int:
  "i < length xs \<Longrightarrow> sum_list (xs[i := v]) = sum_list xs - xs ! i + (v :: int)"
  by (induction xs arbitrary: i) (auto split: nat.split)

lemma cw_ok_new: "cw_ok (CongestionWindow_new m)"
  by (simp add: cw_ok_def CongestionWindow_new_def sum_list_replicate)

lemma cw_ok_clear: "cw_ok c \<Longrightarrow> cw_ok (cw_clear c)"
  by (simp add: cw_ok_def cw_clear_def sum_list_replicate)

lemma cw_ok_send: "cw_ok c \<Longrightarrow> cw_ok (cw_send c)"
  by (auto simp: cw_ok_def cw_send_def sum_list_update_int dest!: set_update_subset_insert [THEN subsetD])

lemma cw_ok_recv: "cw_ok c \<Longrightarrow> cw_ok (cw_recv c)"
  by (auto simp: cw_ok_def cw_recv_def sum_list_update_int dest!: set_update_subset_insert [THEN subsetD])

lemma member_le_sum_int: "x \<in> set xs \<Longrightarrow> \<forall>y \<in> set xs. 0 \<le> y \<Longrightarrow> x \<le> sum_list (xs :: int list)"
proof (induction xs)
  case (Cons a xs)
  then show ?case
    using sum_list_nonneg [of xs] by fastforce
qed simp

text \<open>The clamp of \<^verbatim>\<open>drain()\<close> never acts: the total cannot fall below the bucket that is dropped.\<close>

lemma cw_drain_total:
  assumes "cw_ok c"
  shows "cw_total (cw_drain c) = cw_total c - cw_window c ! ((cw_i c + 1) mod 4)"
proof -
  have "cw_window c ! ((cw_i c + 1) mod 4) \<le> cw_total c"
    using assms member_le_sum_int [of "cw_window c ! ((cw_i c + 1) mod 4)" "cw_window c"] by (simp add: cw_ok_def)
  then show ?thesis
    by (simp add: cw_drain_def Let_def)
qed

lemma cw_ok_drain:
  assumes "cw_ok c"
  shows "cw_ok (cw_drain c)"
proof -
  have "cw_total (cw_drain c) = sum_list (cw_window (cw_drain c))"
    unfolding cw_drain_total [OF assms] using assms by (simp add: cw_drain_def Let_def cw_ok_def sum_list_update_int)
  moreover have "\<forall>x \<in> set (cw_window (cw_drain c)). 0 \<le> x"
    using assms by (auto simp: cw_drain_def Let_def cw_ok_def dest!: set_update_subset_insert [THEN subsetD])
  ultimately show ?thesis
    using assms by (simp add: cw_ok_def) (simp add: cw_drain_def Let_def)
qed

lemmas cw_ok_intros = cw_ok_new cw_ok_clear cw_ok_send cw_ok_recv cw_ok_drain

section \<open>The window as a history of transmissions\<close>

text \<open>
  The specification: a list of counters, the current drain period first.  Only the last four periods count.
\<close>

type_synonym periods = "int list"

definition sp_send :: "periods \<Rightarrow> periods" where
  "sp_send ps = (hd ps + 1) # tl ps"

definition sp_recv :: "periods \<Rightarrow> periods" where
  "sp_recv ps = (if hd ps > 0 then (hd ps - 1) # tl ps else ps)"

definition sp_drain :: "periods \<Rightarrow> periods" where
  "sp_drain ps = 0 # take 3 ps"

definition abs_window :: "CongestionWindow \<Rightarrow> periods" where
  "abs_window c = [cw_window c ! cw_i c, cw_window c ! ((cw_i c + 3) mod 4), cw_window c ! ((cw_i c + 2) mod 4),
     cw_window c ! ((cw_i c + 1) mod 4)]"

lemma cw_okE:
  assumes "cw_ok c"
  obtains a b d e where "cw_window c = [a, b, d, e]" "cw_i c \<in> {0, 1, 2, 3}"
proof -
  obtain a b d e where "cw_window c = [a, b, d, e]"
    using assms by (auto simp: cw_ok_def length_Suc_conv eval_nat_numeral)
  moreover have "cw_i c \<in> {0, 1, 2, 3}"
    using assms by (auto simp: cw_ok_def)
  ultimately show ?thesis
    by (rule that)
qed

lemma abs_window_ops:
  assumes "cw_ok c"
  shows "abs_window (cw_send c) = sp_send (abs_window c)"
    and "abs_window (cw_recv c) = sp_recv (abs_window c)"
    and "abs_window (cw_drain c) = sp_drain (abs_window c)"
    and "cw_total c = sum_list (abs_window c)"
    and "hd (abs_window c) = cw_window c ! cw_i c"
proof -
  obtain a b d e where w: "cw_window c = [a, b, d, e]" "cw_i c \<in> {0, 1, 2, 3}"
    using assms by (rule cw_okE)
  then consider "cw_i c = 0" | "cw_i c = 1" | "cw_i c = 2" | "cw_i c = 3"
    by auto
  then have "abs_window (cw_send c) = sp_send (abs_window c) \<and> abs_window (cw_recv c) = sp_recv (abs_window c) \<and>
    abs_window (cw_drain c) = sp_drain (abs_window c) \<and> cw_total c = sum_list (abs_window c) \<and>
    hd (abs_window c) = cw_window c ! cw_i c"
    by cases (use assms in \<open>simp_all add: w(1) cw_ok_def abs_window_def cw_send_def cw_recv_def cw_drain_def sp_send_def
      sp_recv_def sp_drain_def Let_def\<close>)
  then show "abs_window (cw_send c) = sp_send (abs_window c)" "abs_window (cw_recv c) = sp_recv (abs_window c)"
    "abs_window (cw_drain c) = sp_drain (abs_window c)" "cw_total c = sum_list (abs_window c)"
    "hd (abs_window c) = cw_window c ! cw_i c"
    by blast+
qed

text \<open>A sender that respects \<^verbatim>\<open>is_full()\<close> stays within the window in a period and within two windows in four.\<close>

definition cw_limited :: "CongestionWindow \<Rightarrow> bool" where
  "cw_limited c \<longleftrightarrow> cw_total c \<le> 2 * cw_max_window c \<and> (\<forall>x \<in> set (cw_window c). x \<le> cw_max_window c)"

lemma cw_limited_send:
  assumes "cw_ok c" and "cw_limited c" and "\<not> cw_is_full c"
  shows "cw_limited (cw_send c)"
  using assms by (auto simp: cw_limited_def cw_is_full_def cw_send_def cw_ok_def dest!: set_update_subset_insert [THEN subsetD])

lemma cw_limited_recv: "cw_ok c \<Longrightarrow> cw_limited c \<Longrightarrow> cw_limited (cw_recv c)"
  by (auto simp: cw_limited_def cw_recv_def cw_ok_def dest!: set_update_subset_insert [THEN subsetD])
    (metis diff_le_eq nth_mem order_trans zle_add1_eq_le zless_add1_eq)

end
