(* ===== verification/Rpc_Socket.thy ===== *)
theory Rpc_Socket
  imports Congestion Peer_Id Nat_Sampler Health "HOL-Library.AList"
begin

text \<open>
  The RPC socket (\<^verbatim>\<open>RpcSocket\<close>, \<^verbatim>\<open>Session\<close> in \<^verbatim>\<open>src/rpc.cpp\<close>): transaction ids, requests in flight and queued,
  retries and timeouts, adaptive round-trip times, observation of peers in the routing table with ping-and-swap eviction,
  the background tick and the firewall probe.

  Time, the hash function, the node filter, the bound ports, \<^verbatim>\<open>uv_ip4_name\<close> and the entry an unordered map holds first
  are an environment \<open>RpcEnv\<close>.  A callback is a value of \<open>Callback\<close>; calling it runs the socket's own continuation
  (\<^verbatim>\<open>reping_and_swap\<close>, \<^verbatim>\<open>check_node\<close>, \<^verbatim>\<open>Session\<close>) and records the call in the trace \<open>sk_trace\<close>, as every datagram sent
  is.  What a user's callback does to the socket is a later operation.  That is exact for the callbacks of requests and for
  \<^verbatim>\<open>on_request\<close>, which are invoked last; it is a simplification for \<^verbatim>\<open>on_health_change\<close> and \<^verbatim>\<open>on_refresh\<close>, after which
  \<^verbatim>\<open>background_tick\<close> goes on with its other duties, for \<^verbatim>\<open>on_persistent\<close>, and for the probe listeners, which
  run in a loop: what these do to the socket is placed after the whole step.  A request is identified by the number \<open>ir_ref\<close> that
  stands for its address in memory.  The model is the build without \<^verbatim>\<open>HYPERDHT_EMBEDDED\<close>: the constants and the single
  socket of the embedded build are left out.
\<close>

section \<open>Constants\<close>

definition DEFAULT_MAX_WINDOW :: int where "DEFAULT_MAX_WINDOW = 80"
definition DEFAULT_RETRIES :: int where "DEFAULT_RETRIES = 3"
definition DEFAULT_TIMEOUT_MS :: u64 where "DEFAULT_TIMEOUT_MS = 1000"
definition TOKEN_ROTATE_TICKS :: int where "TOKEN_ROTATE_TICKS = 10"
definition REFRESH_TICKS :: int where "REFRESH_TICKS = 60"
definition STABLE_TICKS_INIT :: int where "STABLE_TICKS_INIT = 240"
definition STABLE_TICKS_MORE :: int where "STABLE_TICKS_MORE = 720"
definition DEFAULT_MAX_PING_DELAY_MS :: u64 where "DEFAULT_MAX_PING_DELAY_MS = 10000"
definition RECENT_NODE_TICKS :: u32 where "RECENT_NODE_TICKS = 12"
definition OLD_NODE_TICKS :: u32 where "OLD_NODE_TICKS = 360"
definition MAX_REPINGING :: int where "MAX_REPINGING = 3"
definition MAX_CHECKS :: int where "MAX_CHECKS = 10"
definition MAX_PENDING :: nat where "MAX_PENDING = 640"
definition MAX_PEER_RTT_ENTRIES :: nat where "MAX_PEER_RTT_ENTRIES = 1024"
definition MAX_PROBE_HOSTS :: nat where "MAX_PROBE_HOSTS = 16"

section \<open>State\<close>

record SwapState =
  sw_new_node :: Node
  sw_old_id :: NodeId
  sw_last_seen :: u32

record CheckState =
  ck_target_id :: NodeId
  ck_last_seen :: u32

datatype Callback =
  OnSwap SwapState
| OnCheck CheckState
| OnUser nat
| OnSession nat

record InflightRequest =
  ir_ref :: nat
  ir_tid :: u16
  ir_command :: u32
  ir_on_response :: "Callback option"
  ir_on_timeout :: "Callback option"
  ir_sent :: int
  ir_retries :: int
  ir_sent_at :: u64
  ir_timeout_override_ms :: u64
  ir_buffer :: bytes
  ir_to :: Ipv4Address
  ir_timer :: "u64 option"
  ir_destroyed :: bool

datatype RpcEvent =
  Sent bytes Ipv4Address bool
| ResponseCalled nat Callback Response
| TimeoutCalled nat Callback u16
| RequestCalled Request
| ProbeCalled u32 Ipv4Address
| HealthChanged
| Refreshed
| Persistent
| DeadSession nat

record FirewallProbe =
  fp_running :: bool
  fp_replied_hosts :: "string list"
  fp_expected :: nat
  fp_timer :: "u64 option"

record ProbeListeners =
  pl_listeners :: "(u32 \<times> bool) list"
  pl_next_id :: u32
  pl_legacy_id :: u32

record RpcSocket =
  sk_closing :: bool
  sk_table :: RoutingTable
  sk_tokens :: TokenStore
  sk_nat_sampler :: NatSampler
  sk_congestion :: CongestionWindow
  sk_next_tid :: u16
  sk_inflight :: "InflightRequest list"
  sk_pending :: "InflightRequest list"
  sk_rotate_counter :: int
  sk_health :: HealthMonitor
  sk_refresh_ticks :: int
  sk_ephemeral :: bool
  sk_firewalled :: bool
  sk_stable_ticks :: int
  sk_last_nat_host :: string
  sk_tick_responses :: u32
  sk_tick_timeouts :: u32
  sk_peer_rtt :: "(string \<times> u64) list"
  sk_max_ping_delay_ms :: u64
  sk_tick :: u32
  sk_repinging :: int
  sk_checks :: int
  sk_bootstrapped :: bool
  sk_probe :: FirewallProbe
  sk_listeners :: ProbeListeners
  sk_on_request :: bool
  sk_on_refresh :: bool
  sk_on_persistent :: bool
  sk_on_health_change :: bool
  sk_sessions :: "nat \<rightharpoonup> u16 list"
  sk_next_ref :: nat
  sk_trace :: "RpcEvent list"

record RpcEnv =
  en_now :: u64
  en_plain :: plain_hash
  en_filter_node :: "(NodeId \<Rightarrow> Ipv4Address \<Rightarrow> bool) option"
  en_ip4_name :: "Ipv4Address \<Rightarrow> string"
  en_client_port :: u16
  en_server_port :: u16
  en_first :: "(string \<times> u64) list \<Rightarrow> nat"

definition RpcSocket_new :: "NodeId \<Rightarrow> TokenStore \<Rightarrow> u16 \<Rightarrow> RpcSocket" where
  "RpcSocket_new local_id tokens tid =
     \<lparr>sk_closing = False, sk_table = (RoutingTable_new local_id)\<lparr>rt_on_full := True\<rparr>, sk_tokens = tokens,
      sk_nat_sampler = NatSampler_new, sk_congestion = CongestionWindow_new DEFAULT_MAX_WINDOW, sk_next_tid = tid,
      sk_inflight = [], sk_pending = [], sk_rotate_counter = TOKEN_ROTATE_TICKS, sk_health = HealthMonitor_new,
      sk_refresh_ticks = REFRESH_TICKS, sk_ephemeral = True, sk_firewalled = True, sk_stable_ticks = STABLE_TICKS_INIT,
      sk_last_nat_host = [], sk_tick_responses = 0, sk_tick_timeouts = 0, sk_peer_rtt = [],
      sk_max_ping_delay_ms = DEFAULT_MAX_PING_DELAY_MS, sk_tick = 0, sk_repinging = 0, sk_checks = 0,
      sk_bootstrapped = False,
      sk_probe = \<lparr>fp_running = False, fp_replied_hosts = [], fp_expected = 0, fp_timer = None\<rparr>,
      sk_listeners = \<lparr>pl_listeners = [], pl_next_id = 1, pl_legacy_id = 0\<rparr>,
      sk_on_request = False, sk_on_refresh = False, sk_on_persistent = False, sk_on_health_change = False,
      sk_sessions = Map.empty, sk_next_ref = 0, sk_trace = []\<rparr>"

definition emit_event :: "RpcEvent \<Rightarrow> RpcSocket \<Rightarrow> RpcSocket" where
  "emit_event ev s = s\<lparr>sk_trace := sk_trace s @ [ev]\<rparr>"

text \<open>The address of a datagram's sender: the text of \<^verbatim>\<open>uv_ip4_name\<close>, parsed back.\<close>

definition addr_of_sockaddr :: "RpcEnv \<Rightarrow> Ipv4Address \<Rightarrow> Ipv4Address" where
  "addr_of_sockaddr e a = Ipv4_from_string (en_ip4_name e a) (ip_port a)"

definition filter_accept :: "RpcEnv \<Rightarrow> NodeId \<Rightarrow> Ipv4Address \<Rightarrow> bool" where
  "filter_accept e nid addr = (case en_filter_node e of None \<Rightarrow> True | Some f \<Rightarrow> f nid addr)"

section \<open>Adaptive timeouts\<close>

definition rtt_put :: "string \<Rightarrow> u64 \<Rightarrow> (string \<times> u64) list \<Rightarrow> (string \<times> u64) list" where
  "rtt_put key v m = (if map_of m key = None then m @ [(key, v)] else map (\<lambda>(k, x). if k = key then (k, v) else (k, x)) m)"

definition erase_at :: "nat \<Rightarrow> 'a list \<Rightarrow> 'a list" where
  "erase_at i xs = take i xs @ drop (Suc i) xs"

definition record_rtt :: "RpcEnv \<Rightarrow> Ipv4Address \<Rightarrow> u64 \<Rightarrow> RpcSocket \<Rightarrow> RpcSocket" where
  "record_rtt e peer rtt_ms s =
     (let key = addr_key peer; m = sk_peer_rtt s in
      case map_of m key of
        None \<Rightarrow>
          let m = (if length m \<ge> MAX_PEER_RTT_ENTRIES then erase_at (en_first e m mod length m) m else m)
          in s\<lparr>sk_peer_rtt := rtt_put key rtt_ms m\<rparr>
      | Some old \<Rightarrow> s\<lparr>sk_peer_rtt := rtt_put key ((old * 3 + rtt_ms + 2) div 4) m\<rparr>)"

definition timeout_for :: "RpcSocket \<Rightarrow> Ipv4Address \<Rightarrow> u64" where
  "timeout_for s peer =
     (case map_of (sk_peer_rtt s) (addr_key peer) of
        None \<Rightarrow> DEFAULT_TIMEOUT_MS
      | Some smoothed \<Rightarrow>
          let timeout = smoothed * 2;
              timeout = (if timeout < 200 then 200 else timeout);
              timeout = (if timeout > 5000 then 5000 else timeout)
          in timeout)"

section \<open>Sending\<close>

definition udp_send_on :: "bytes \<Rightarrow> Ipv4Address \<Rightarrow> bool \<Rightarrow> RpcSocket \<Rightarrow> RpcSocket" where
  "udp_send_on buf to server = emit_event (Sent buf to server)"

text \<open>\<^verbatim>\<open>active_socket()\<close>: true for the server socket.\<close>

definition active_socket :: "RpcSocket \<Rightarrow> bool" where
  "active_socket s \<longleftrightarrow> \<not> sk_firewalled s"

definition udp_send :: "bytes \<Rightarrow> Ipv4Address \<Rightarrow> RpcSocket \<Rightarrow> RpcSocket" where
  "udp_send buf to s = udp_send_on buf to (active_socket s) s"

definition alloc_tid :: "RpcSocket \<Rightarrow> u16 \<times> RpcSocket" where
  "alloc_tid s =
     (let tid = sk_next_tid s; next_tid = tid + 1; next_tid = (if next_tid = 0 then 1 else next_tid)
      in (tid, s\<lparr>sk_next_tid := next_tid\<rparr>))"

fun find_inflight :: "InflightRequest list \<Rightarrow> u16 \<Rightarrow> InflightRequest option" where
  "find_inflight [] tid = None"
| "find_inflight (r # rs) tid = (if ir_tid r = tid then Some r else find_inflight rs tid)"

fun ref_index :: "nat \<Rightarrow> InflightRequest list \<Rightarrow> nat option" where
  "ref_index ref [] = None"
| "ref_index ref (r # rs) = (if ir_ref r = ref then Some 0 else map_option Suc (ref_index ref rs))"

text \<open>The swap-and-pop of \<^verbatim>\<open>destroy_request\<close>.\<close>

definition swap_pop :: "nat \<Rightarrow> InflightRequest list \<Rightarrow> InflightRequest list" where
  "swap_pop ref rs = (case ref_index ref rs of None \<Rightarrow> rs | Some i \<Rightarrow> butlast (rs[i := last rs]))"

definition destroy_request :: "InflightRequest \<Rightarrow> RpcSocket \<Rightarrow> RpcSocket" where
  "destroy_request r s =
     (if ir_destroyed r then s
      else s\<lparr>sk_inflight := swap_pop (ir_ref r) (sk_inflight s), sk_congestion := cw_recv (sk_congestion s)\<rparr>)"

definition cancel_request :: "u16 \<Rightarrow> RpcSocket \<Rightarrow> bool \<times> RpcSocket" where
  "cancel_request tid s =
     (case find_inflight (sk_inflight s) tid of None \<Rightarrow> (False, s) | Some r \<Rightarrow> (True, destroy_request r s))"

definition upd_ref :: "nat \<Rightarrow> (InflightRequest \<Rightarrow> InflightRequest) \<Rightarrow> InflightRequest list \<Rightarrow> InflightRequest list" where
  "upd_ref ref f = map (\<lambda>r. if ir_ref r = ref then f r else r)"

definition send_now :: "RpcEnv \<Rightarrow> InflightRequest \<Rightarrow> RpcSocket \<Rightarrow> RpcSocket" where
  "send_now e r s =
     (if ir_destroyed r \<or> sk_closing s then s
      else
        let s = s\<lparr>sk_congestion := cw_send (sk_congestion s)\<rparr>;
            s = udp_send (ir_buffer r) (ir_to r) s;
            timeout = (if ir_timeout_override_ms r > 0 then ir_timeout_override_ms r else timeout_for s (ir_to r))
        in s\<lparr>sk_inflight := upd_ref (ir_ref r)
               (\<lambda>r. r\<lparr>ir_sent := ir_sent r + 1, ir_sent_at := en_now e, ir_timer := Some timeout\<rparr>) (sk_inflight s)\<rparr>)"

fun drain_loop :: "RpcEnv \<Rightarrow> InflightRequest list \<Rightarrow> RpcSocket \<Rightarrow> RpcSocket" where
  "drain_loop e [] s = s\<lparr>sk_pending := []\<rparr>"
| "drain_loop e (r # rs) s =
     (if cw_is_full (sk_congestion s) then s\<lparr>sk_pending := r # rs\<rparr>
      else drain_loop e rs
             (if \<not> ir_destroyed r then send_now e r (s\<lparr>sk_inflight := sk_inflight s @ [r]\<rparr>) else s))"

definition drain_pending :: "RpcEnv \<Rightarrow> RpcSocket \<Rightarrow> RpcSocket" where
  "drain_pending e s = drain_loop e (sk_pending s) s"

definition new_request :: "nat \<Rightarrow> Request \<Rightarrow> u64 \<Rightarrow> int \<Rightarrow> Callback option \<Rightarrow> Callback option \<Rightarrow> InflightRequest" where
  "new_request ref msg timeout_override_ms retries on_response on_timeout =
     \<lparr>ir_ref = ref, ir_tid = rq_tid msg, ir_command = rq_command msg, ir_on_response = on_response,
      ir_on_timeout = on_timeout, ir_sent = 0, ir_retries = retries, ir_sent_at = 0,
      ir_timeout_override_ms = timeout_override_ms, ir_buffer = encode_request msg, ir_to = rq_to msg, ir_timer = None,
      ir_destroyed = False\<rparr>"

definition request :: "RpcEnv \<Rightarrow> Request \<Rightarrow> u64 \<Rightarrow> int \<Rightarrow> Callback option \<Rightarrow> Callback option \<Rightarrow> RpcSocket \<Rightarrow> u16 \<times> RpcSocket" where
  "request e req timeout_override_ms retries on_response on_timeout s =
     (if sk_closing s then (0, s)
      else
        let (tid, s) = alloc_tid s;
            msg = req\<lparr>rq_tid := tid\<rparr>;
            r = new_request (sk_next_ref s) msg timeout_override_ms retries on_response on_timeout;
            s = s\<lparr>sk_next_ref := Suc (sk_next_ref s)\<rparr>
        in if cw_is_full (sk_congestion s)
           then if length (sk_pending s) \<ge> MAX_PENDING then (0, s)
                else (tid, s\<lparr>sk_pending := sk_pending s @ [r]\<rparr>)
           else (tid, send_now e r (s\<lparr>sk_inflight := sk_inflight s @ [r]\<rparr>)))"

definition request_default :: "RpcEnv \<Rightarrow> Request \<Rightarrow> Callback option \<Rightarrow> Callback option \<Rightarrow> RpcSocket \<Rightarrow> u16 \<times> RpcSocket" where
  "request_default e req on_response on_timeout = request e req 0 DEFAULT_RETRIES on_response on_timeout"

definition delayed_ping_value :: "u32 \<Rightarrow> bytes" where
  "delayed_ping_value delay_ms =
     [ucast (delay_ms AND 0xFF), ucast (drop_bit 8 delay_ms AND 0xFF), ucast (drop_bit 16 delay_ms AND 0xFF),
      ucast (drop_bit 24 delay_ms AND 0xFF)]"

definition delayed_ping :: "RpcEnv \<Rightarrow> Ipv4Address \<Rightarrow> u32 \<Rightarrow> Callback option \<Rightarrow> Callback option \<Rightarrow> RpcSocket \<Rightarrow> u16 \<times> RpcSocket" where
  "delayed_ping e to delay_ms on_response on_timeout s =
     (if ucast delay_ms > sk_max_ping_delay_ms s then (0, s)
      else
        let req = Request_init\<lparr>rq_to := to, rq_command := CMD_DELAYED_PING, rq_internal := True,
                               rq_value := Some (delayed_ping_value delay_ms)\<rparr>;
            timeout_ms = ucast delay_ms + 1000
        in request e req timeout_ms 0 on_response on_timeout s)"

definition RpcSocket_reply :: "Response \<Rightarrow> RpcSocket \<Rightarrow> RpcSocket" where
  "RpcSocket_reply resp s =
     (if sk_closing s then s else udp_send_on (encode_response resp) (rs_from resp) (active_socket s) s)"

definition send_probe :: "Ipv4Address \<Rightarrow> RpcSocket \<Rightarrow> RpcSocket" where
  "send_probe to s = udp_send [0] to s"

section \<open>Observation of peers and ping-and-swap\<close>

definition ping_request :: "Node \<Rightarrow> Request" where
  "ping_request n = Request_init\<lparr>rq_to := Ipv4_from_string (node_host n) (node_port n), rq_command := CMD_PING,
                                 rq_internal := True\<rparr>"

definition mark_pinged :: "NodeId \<Rightarrow> RpcSocket \<Rightarrow> RpcSocket" where
  "mark_pinged nid s =
     (if RoutingTable_get (sk_table s) nid \<noteq> None
      then s\<lparr>sk_table := RoutingTable_update (sk_table s) nid (\<lambda>n. n\<lparr>node_pinged := sk_tick s\<rparr>)\<rparr> else s)"

definition reping_and_swap :: "RpcEnv \<Rightarrow> Node \<Rightarrow> Node \<Rightarrow> RpcSocket \<Rightarrow> RpcSocket" where
  "reping_and_swap e new_node oldest s =
     (let state = \<lparr>sw_new_node = new_node, sw_old_id = node_id oldest, sw_last_seen = node_seen oldest\<rparr>;
          s = mark_pinged (node_id oldest) s;
          s = s\<lparr>sk_repinging := sk_repinging s + 1\<rparr>
      in snd (request e (ping_request oldest) 0 0 (Some (OnSwap state)) (Some (OnSwap state)) s))"

fun oldest_loop :: "u32 \<Rightarrow> Node option \<Rightarrow> Node list \<Rightarrow> Node option" where
  "oldest_loop tick oldest [] = oldest"
| "oldest_loop tick oldest (n # ns) =
     oldest_loop tick
       (if node_pinged n = tick then oldest
        else case oldest of
               None \<Rightarrow> Some n
             | Some x \<Rightarrow> if node_pinged x > node_pinged n \<or> (node_pinged x = node_pinged n \<and> node_added x > node_added n)
                        then Some n else oldest) ns"

definition on_bucket_full :: "RpcEnv \<Rightarrow> nat \<Rightarrow> Node \<Rightarrow> RpcSocket \<Rightarrow> RpcSocket" where
  "on_bucket_full e bucket_idx new_node s =
     (if \<not> sk_bootstrapped s \<or> sk_repinging s \<ge> MAX_REPINGING then s
      else case oldest_loop (sk_tick s) None (rt_buckets (sk_table s) ! bucket_idx) of
             None \<Rightarrow> s
           | Some oldest \<Rightarrow>
               let since_pinged = sk_tick s - node_pinged oldest;
                   since_added = sk_tick s - node_added oldest
               in if since_pinged < RECENT_NODE_TICKS \<and> since_added > OLD_NODE_TICKS then s
                  else reping_and_swap e new_node oldest s)"

text \<open>\<^verbatim>\<open>table_.add\<close> with the hook the constructor installs.\<close>

definition table_add :: "RpcEnv \<Rightarrow> Node \<Rightarrow> RpcSocket \<Rightarrow> RpcSocket" where
  "table_add e node s =
     (case RoutingTable_add (sk_table s) node of
        (_, t, full) \<Rightarrow>
          let s = s\<lparr>sk_table := t\<rparr>
          in case full of None \<Rightarrow> s | Some (idx, new_node) \<Rightarrow> on_bucket_full e idx new_node s)"

definition node_from_network :: "u32 \<Rightarrow> NodeId \<Rightarrow> Ipv4Address \<Rightarrow> Node" where
  "node_from_network tick nid from =
     \<lparr>node_id = nid, node_host = Ipv4_host_string from, node_port = ip_port from, node_token = [],
      node_round_trip_time = 0, node_added_at = 0, node_added = tick, node_pinged = tick, node_seen = tick,
      node_sampled = 0, node_down_hints = 0\<rparr>"

definition add_node_from_network :: "RpcEnv \<Rightarrow> NodeId \<Rightarrow> Ipv4Address \<Rightarrow> RpcSocket \<Rightarrow> RpcSocket" where
  "add_node_from_network e nid from s =
     (if \<not> filter_accept e nid from then s
      else if RoutingTable_get (sk_table s) nid \<noteq> None
      then s\<lparr>sk_table := RoutingTable_update (sk_table s) nid (\<lambda>n. n\<lparr>node_pinged := sk_tick s, node_seen := sk_tick s\<rparr>)\<rparr>
      else table_add e (node_from_network (sk_tick s) nid from) s)"

definition table_remove :: "NodeId \<Rightarrow> RpcSocket \<Rightarrow> RpcSocket" where
  "table_remove nid s = s\<lparr>sk_table := snd (RoutingTable_remove (sk_table s) nid)\<rparr>"

definition do_swap :: "RpcEnv \<Rightarrow> SwapState \<Rightarrow> RpcSocket \<Rightarrow> RpcSocket" where
  "do_swap e state s = table_add e (sw_new_node state) (table_remove (sw_old_id state) s)"

definition check_node :: "RpcEnv \<Rightarrow> Node \<Rightarrow> RpcSocket \<Rightarrow> RpcSocket" where
  "check_node e node s =
     (let state = \<lparr>ck_target_id = node_id node, ck_last_seen = node_seen node\<rparr>;
          s = mark_pinged (node_id node) s;
          s = s\<lparr>sk_checks := sk_checks s + 1\<rparr>
      in snd (request e (ping_request node) 0 0 (Some (OnCheck state)) (Some (OnCheck state)) s))"

section \<open>Callbacks\<close>

definition session_detach :: "nat \<Rightarrow> u16 \<Rightarrow> RpcSocket \<Rightarrow> RpcSocket" where
  "session_detach sid tid s =
     (case sk_sessions s sid of
        None \<Rightarrow> emit_event (DeadSession sid) s
      | Some tids \<Rightarrow> s\<lparr>sk_sessions := (sk_sessions s)(sid \<mapsto> removeAll tid tids)\<rparr>)"

fun run_response :: "RpcEnv \<Rightarrow> Callback \<Rightarrow> Response \<Rightarrow> RpcSocket \<Rightarrow> RpcSocket" where
  "run_response e (OnSwap state) resp s =
     (let s = s\<lparr>sk_repinging := sk_repinging s - 1\<rparr>
      in case RoutingTable_get (sk_table s) (sw_old_id state) of
           None \<Rightarrow> s
         | Some n \<Rightarrow> if node_seen n \<le> sw_last_seen state then do_swap e state s else s)"
| "run_response e (OnCheck state) resp s =
     (let s = s\<lparr>sk_checks := sk_checks s - 1\<rparr>
      in case RoutingTable_get (sk_table s) (ck_target_id state) of
           None \<Rightarrow> s
         | Some n \<Rightarrow> if node_seen n \<le> ck_last_seen state then table_remove (ck_target_id state) s else s)"
| "run_response e (OnUser u) resp s = s"
| "run_response e (OnSession sid) resp s = session_detach sid (rs_tid resp) s"

fun run_timeout :: "RpcEnv \<Rightarrow> Callback \<Rightarrow> u16 \<Rightarrow> RpcSocket \<Rightarrow> RpcSocket" where
  "run_timeout e (OnSwap state) tid s = do_swap e state (s\<lparr>sk_repinging := sk_repinging s - 1\<rparr>)"
| "run_timeout e (OnCheck state) tid s = table_remove (ck_target_id state) (s\<lparr>sk_checks := sk_checks s - 1\<rparr>)"
| "run_timeout e (OnUser u) tid s = s"
| "run_timeout e (OnSession sid) tid s = session_detach sid tid s"

definition call_response :: "RpcEnv \<Rightarrow> nat \<Rightarrow> Callback option \<Rightarrow> Response \<Rightarrow> RpcSocket \<Rightarrow> RpcSocket" where
  "call_response e ref cb resp s =
     (case cb of None \<Rightarrow> s | Some c \<Rightarrow> run_response e c resp (emit_event (ResponseCalled ref c resp) s))"

definition call_timeout :: "RpcEnv \<Rightarrow> nat \<Rightarrow> Callback option \<Rightarrow> u16 \<Rightarrow> RpcSocket \<Rightarrow> RpcSocket" where
  "call_timeout e ref cb tid s =
     (case cb of None \<Rightarrow> s | Some c \<Rightarrow> run_timeout e c tid (emit_event (TimeoutCalled ref c tid) s))"

section \<open>Timers\<close>

definition on_drain_tick :: "RpcEnv \<Rightarrow> RpcSocket \<Rightarrow> RpcSocket" where
  "on_drain_tick e s =
     (if sk_closing s then s
      else
        let counter = sk_rotate_counter s - 1;
            s = (if counter = 0
                 then s\<lparr>sk_rotate_counter := TOKEN_ROTATE_TICKS, sk_tokens := TokenStore_rotate (en_plain e) (sk_tokens s)\<rparr>
                 else s\<lparr>sk_rotate_counter := counter\<rparr>);
            s = s\<lparr>sk_congestion := cw_drain (sk_congestion s)\<rparr>
        in drain_pending e s)"

definition on_request_timeout :: "RpcEnv \<Rightarrow> InflightRequest \<Rightarrow> RpcSocket \<Rightarrow> RpcSocket" where
  "on_request_timeout e r s =
     (if ir_destroyed r \<or> sk_closing s then s
      else if ir_sent r > ir_retries r
      then let s = s\<lparr>sk_tick_timeouts := sk_tick_timeouts s + 1\<rparr>;
               s = destroy_request r s
           in call_timeout e (ir_ref r) (ir_on_timeout r) (ir_tid r) s
      else send_now e r s)"

section \<open>Receiving\<close>

definition add_probe_listener :: "bool \<Rightarrow> RpcSocket \<Rightarrow> u32 \<times> RpcSocket" where
  "add_probe_listener cb s =
     (let l = sk_listeners s; nid = pl_next_id l
      in (nid, s\<lparr>sk_listeners := l\<lparr>pl_next_id := nid + 1, pl_listeners := AList.update nid cb (pl_listeners l)\<rparr>\<rparr>))"

definition remove_probe_listener :: "u32 \<Rightarrow> RpcSocket \<Rightarrow> RpcSocket" where
  "remove_probe_listener nid s =
     s\<lparr>sk_listeners := (sk_listeners s)\<lparr>pl_listeners := AList.delete nid (pl_listeners (sk_listeners s))\<rparr>\<rparr>"

definition on_holepunch_probe :: "bool \<Rightarrow> RpcSocket \<Rightarrow> RpcSocket" where
  "on_holepunch_probe cb s =
     (if cb then (case add_probe_listener cb s of
                    (nid, s) \<Rightarrow> s\<lparr>sk_listeners := (sk_listeners s)\<lparr>pl_legacy_id := nid\<rparr>\<rparr>)
      else if pl_legacy_id (sk_listeners s) \<noteq> 0
      then let s = remove_probe_listener (pl_legacy_id (sk_listeners s)) s
           in s\<lparr>sk_listeners := (sk_listeners s)\<lparr>pl_legacy_id := 0\<rparr>\<rparr>
      else s)"

definition call_probe :: "Ipv4Address \<Rightarrow> RpcSocket \<Rightarrow> u32 \<times> bool \<Rightarrow> RpcSocket" where
  "call_probe from s l = (if snd l then emit_event (ProbeCalled (fst l) from) s else s)"

definition handle_request :: "RpcEnv \<Rightarrow> Request \<Rightarrow> Ipv4Address \<Rightarrow> bool \<Rightarrow> RpcSocket \<Rightarrow> RpcSocket" where
  "handle_request e req addr from_server s =
     (let from = addr_of_sockaddr e addr;
          req = req\<lparr>rq_from := from, rq_from_server := from_server\<rparr>;
          expected = compute_peer_id (en_plain e) from;
          s = (case rq_id req of
                 None \<Rightarrow> s
               | Some nid \<Rightarrow> if nid = expected then add_node_from_network e expected from s else s)
      in if sk_on_request s then emit_event (RequestCalled req) s else s)"

text \<open>A response that matches a request in flight.\<close>

definition match_response :: "RpcEnv \<Rightarrow> Response \<Rightarrow> RpcSocket \<Rightarrow> RpcSocket" where
  "match_response e resp s =
     (case find_inflight (sk_inflight s) (rs_tid resp) of
        None \<Rightarrow> s
      | Some r \<Rightarrow>
          if ir_destroyed r then s
          else
            let s = s\<lparr>sk_tick_responses := sk_tick_responses s + 1\<rparr>;
                s = (if ir_sent r \<le> 2 \<and> ir_sent_at r > 0 then record_rtt e (ir_to r) (en_now e - ir_sent_at r) s else s);
                s = destroy_request r s
            in call_response e (ir_ref r) (ir_on_response r) resp s)"

definition handle_response :: "RpcEnv \<Rightarrow> Response \<Rightarrow> Ipv4Address \<Rightarrow> RpcSocket \<Rightarrow> RpcSocket" where
  "handle_response e resp addr s =
     (let remote_addr = addr_of_sockaddr e addr;
          s = s\<lparr>sk_nat_sampler := snd (NatSampler_add (sk_nat_sampler s) (rs_from resp) remote_addr)\<rparr>;
          expected = compute_peer_id (en_plain e) remote_addr;
          s' = (if rs_id resp = Some expected then add_node_from_network e expected remote_addr s else s);
          resp = (if rs_id resp = Some expected then resp else resp\<lparr>rs_id := None\<rparr>)
      in match_response e resp s')"

definition handle_message :: "RpcEnv \<Rightarrow> bytes \<Rightarrow> Ipv4Address \<Rightarrow> bool \<Rightarrow> RpcSocket \<Rightarrow> RpcSocket" where
  "handle_message e data addr from_server s =
     (if sk_closing s then s
      else if length data = 1 \<and> data ! 0 = 0
      then foldl (call_probe (addr_of_sockaddr e addr)) s (pl_listeners (sk_listeners s))
      else if length data < 2 then s
      else case decode_message data Request_init Response_init of
             (type, req, resp) \<Rightarrow>
               if type = REQUEST_ID then handle_request e req addr from_server s
               else if type = RESPONSE_ID then handle_response e resp addr s
               else s)"

section \<open>Becoming persistent\<close>

definition probe_threshold :: "RpcSocket \<Rightarrow> nat" where
  "probe_threshold s = (if fp_expected (sk_probe s) \<ge> 5 then 3 else 1)"

fun collect_loop :: "nat \<Rightarrow> Node list \<Rightarrow> Bucket list \<Rightarrow> Node list" where
  "collect_loop m out [] = out"
| "collect_loop m out (b # bs) = (if length out < m then collect_loop m (take m (out @ b)) bs else out)"

definition collect_probe_nodes :: "nat \<Rightarrow> RpcSocket \<Rightarrow> Node list" where
  "collect_probe_nodes m s = collect_loop m [] (rt_buckets (sk_table s))"

definition do_persistent_transition :: "RpcEnv \<Rightarrow> RpcSocket \<Rightarrow> RpcSocket" where
  "do_persistent_transition e s =
     (if \<not> sk_ephemeral s then s
      else
        let s = s\<lparr>sk_ephemeral := False, sk_firewalled := False\<rparr>;
            our_addr = Ipv4_from_string (ns_host (sk_nat_sampler s)) (ns_port (sk_nat_sampler s));
            new_id = compute_peer_id (en_plain e) our_addr;
            s = (if new_id \<noteq> rt_id (sk_table s)
                 then s\<lparr>sk_table := RoutingTable_rebuild_with_id (sk_table s) new_id\<rparr> else s)
        in if sk_on_persistent s then emit_event Persistent s else s)"

definition finish_firewall_probe :: "RpcEnv \<Rightarrow> RpcSocket \<Rightarrow> RpcSocket" where
  "finish_firewall_probe e s =
     (if \<not> fp_running (sk_probe s) then s
      else
        let s = s\<lparr>sk_probe := (sk_probe s)\<lparr>fp_running := False, fp_timer := None\<rparr>\<rparr>;
            is_firewalled = length (fp_replied_hosts (sk_probe s)) < probe_threshold s;
            client_external = ns_port (sk_nat_sampler s)
        in if is_firewalled then s\<lparr>sk_firewalled := True\<rparr>
           else if client_external \<noteq> 0 \<and> client_external \<noteq> en_client_port e then s\<lparr>sk_firewalled := True\<rparr>
           else do_persistent_transition e s)"

definition probe_value :: "u16 \<Rightarrow> bytes" where
  "probe_value port = [ucast (port AND 0xFF), ucast (drop_bit 8 port AND 0xFF)]"

definition send_ping_nat :: "bytes \<Rightarrow> RpcSocket \<Rightarrow> Node \<Rightarrow> RpcSocket" where
  "send_ping_nat value s node =
     udp_send_on (encode_request (Request_init\<lparr>rq_internal := True, rq_command := CMD_PING_NAT, rq_value := Some value\<rparr>))
       (Ipv4_from_string (node_host node) (node_port node)) False s"

definition start_firewall_probe :: "RpcEnv \<Rightarrow> RpcSocket \<Rightarrow> RpcSocket" where
  "start_firewall_probe e s =
     (if fp_running (sk_probe s) \<or> sk_closing s then s
      else
        let nodes = collect_probe_nodes 5 s;
            s = s\<lparr>sk_probe := (sk_probe s)\<lparr>fp_running := True, fp_replied_hosts := [], fp_expected := length nodes\<rparr>\<rparr>
        in if nodes = [] then s\<lparr>sk_probe := (sk_probe s)\<lparr>fp_running := False\<rparr>\<rparr>
           else let s = foldl (send_ping_nat (probe_value (en_server_port e))) s nodes
                in s\<lparr>sk_probe := (sk_probe s)\<lparr>fp_timer := Some 5000\<rparr>\<rparr>)"

definition check_persistent :: "RpcEnv \<Rightarrow> RpcSocket \<Rightarrow> RpcSocket" where
  "check_persistent e s =
     (if \<not> sk_ephemeral s \<or> fp_running (sk_probe s) then s
      else
        let current_host = ns_host (sk_nat_sampler s) in
        if current_host = [] \<or> ns_port (sk_nat_sampler s) = 0 then s\<lparr>sk_stable_ticks := STABLE_TICKS_MORE\<rparr>
        else
          let s = s\<lparr>sk_stable_ticks := STABLE_TICKS_MORE, sk_last_nat_host := current_host\<rparr>;
              fw = ns_firewall (sk_nat_sampler s)
          in if fw = 2 \<or> fw = 1 then start_firewall_probe e s else s)"

definition on_recv_client :: "RpcEnv \<Rightarrow> bytes \<Rightarrow> Ipv4Address \<Rightarrow> RpcSocket \<Rightarrow> RpcSocket" where
  "on_recv_client e data addr s = (if data = [] then s else handle_message e data addr False s)"

text \<open>\<^verbatim>\<open>on_recv_server\<close> counts the hosts that reach the server socket while a probe runs.\<close>

definition note_probe_host :: "string \<Rightarrow> RpcSocket \<Rightarrow> RpcSocket" where
  "note_probe_host host s =
     (let hosts = fp_replied_hosts (sk_probe s)
      in if length hosts < MAX_PROBE_HOSTS
         then s\<lparr>sk_probe := (sk_probe s)\<lparr>fp_replied_hosts := List.insert host hosts\<rparr>\<rparr> else s)"

definition on_recv_server :: "RpcEnv \<Rightarrow> bytes \<Rightarrow> Ipv4Address \<Rightarrow> RpcSocket \<Rightarrow> RpcSocket" where
  "on_recv_server e data addr s =
     (if data = [] then s
      else
        let s = (if fp_running (sk_probe s)
                 then let s = note_probe_host (en_ip4_name e addr) s
                      in if length (fp_replied_hosts (sk_probe s)) \<ge> probe_threshold s then finish_firewall_probe e s else s
                 else s)
        in handle_message e data addr True s)"

section \<open>The background tick\<close>

definition background_tick :: "RpcEnv \<Rightarrow> RpcSocket \<Rightarrow> RpcSocket" where
  "background_tick e s =
     (let s = s\<lparr>sk_tick := sk_tick s + 1\<rparr>;
          prev_health = hm_state (sk_health s);
          s = s\<lparr>sk_health := HealthMonitor_update (sk_health s) (sk_tick_responses s) (sk_tick_timeouts s)\<rparr>;
          s = s\<lparr>sk_tick_responses := 0, sk_tick_timeouts := 0\<rparr>;
          s = (if hm_state (sk_health s) \<noteq> prev_health \<and> sk_on_health_change s then emit_event HealthChanged s else s);
          s = s\<lparr>sk_refresh_ticks := sk_refresh_ticks s - 1\<rparr>;
          s = (if sk_refresh_ticks s \<le> 0
               then let s = s\<lparr>sk_refresh_ticks := REFRESH_TICKS\<rparr> in if sk_on_refresh s then emit_event Refreshed s else s
               else s)
      in if sk_ephemeral s
         then let s = s\<lparr>sk_stable_ticks := sk_stable_ticks s - 1\<rparr>
              in if sk_stable_ticks s \<le> 0 then check_persistent e s else s
         else s)"

definition on_bg_tick :: "RpcEnv \<Rightarrow> RpcSocket \<Rightarrow> RpcSocket" where
  "on_bg_tick e s = (if sk_closing s then s else background_tick e s)"

section \<open>Closing\<close>

definition RpcSocket_close :: "RpcSocket \<Rightarrow> RpcSocket" where
  "RpcSocket_close s =
     (if sk_closing s then s
      else
        let s = s\<lparr>sk_closing := True\<rparr>;
            s = foldl (\<lambda>s r. destroy_request r s) s (sk_inflight s);
            s = s\<lparr>sk_pending := []\<rparr>
        in s\<lparr>sk_probe := (sk_probe s)\<lparr>fp_running := False, fp_timer := None\<rparr>\<rparr>)"

section \<open>Sessions\<close>

definition Session_new :: "nat \<Rightarrow> RpcSocket \<Rightarrow> RpcSocket" where
  "Session_new sid s = s\<lparr>sk_sessions := (sk_sessions s)(sid \<mapsto> [])\<rparr>"

definition Session_request :: "RpcEnv \<Rightarrow> nat \<Rightarrow> Request \<Rightarrow> RpcSocket \<Rightarrow> u16 \<times> RpcSocket" where
  "Session_request e sid req s =
     (let (tid, s) = request_default e req (Some (OnSession sid)) (Some (OnSession sid)) s
      in (tid, if tid \<noteq> 0 then s\<lparr>sk_sessions := (sk_sessions s)(sid \<mapsto> the (sk_sessions s sid) @ [tid])\<rparr> else s))"

definition Session_destroy :: "nat \<Rightarrow> RpcSocket \<Rightarrow> RpcSocket" where
  "Session_destroy sid s =
     (let tids = the (sk_sessions s sid);
          s = s\<lparr>sk_sessions := (sk_sessions s)(sid \<mapsto> [])\<rparr>
      in foldl (\<lambda>s tid. snd (cancel_request tid s)) s tids)"

definition Session_delete :: "nat \<Rightarrow> RpcSocket \<Rightarrow> RpcSocket" where
  "Session_delete sid s = (let s = Session_destroy sid s in s\<lparr>sk_sessions := (sk_sessions s)(sid := None)\<rparr>)"

end
