(* ===== verification/Rpc_Safety.thy ===== *)
theory Rpc_Safety
  imports Rpc_Socket "HOL-Library.Multiset"
begin

text \<open>
  The invariant of the RPC socket and what follows from it: every node in the routing table has the id of its address,
  a request calls at most one of its callbacks and at most once, it is sent at most once more than its retries, the
  ping-and-swap and congestion counters stay in range, and a node turns persistent only after enough hosts reached it.
\<close>

section \<open>Requests in flight\<close>

lemma ref_index_Some:
  "ref_index ref rs = Some i \<Longrightarrow> i < length rs \<and> ir_ref (rs ! i) = ref"
  by (induction rs arbitrary: i) (auto split: if_splits simp: map_option_case split: option.splits)

lemma ref_index_None: "ref_index ref rs = None \<longleftrightarrow> ref \<notin> ir_ref ` set rs"
  by (induction rs) auto

lemma mset_swap_pop_index:
  assumes "i < length rs"
  shows "mset (rs ! i # butlast (rs[i := last rs])) = mset rs"
proof -
  obtain ys y where rs: "rs = ys @ [y]"
    using assms by (cases rs rule: rev_cases) auto
  show ?thesis
  proof (cases "i = length ys")
    case True
    then show ?thesis
      by (simp add: rs)
  next
    case False
    then have i: "i < length ys"
      using assms rs by simp
    then have "butlast (rs[i := last rs]) = ys[i := y]"
      by (simp add: rs list_update_append)
    moreover have "ys ! i \<in># mset ys"
      using i by simp
    ultimately show ?thesis
      using i by (simp add: rs nth_append mset_update)
  qed
qed

lemma swap_pop_mset:
  assumes "distinct (map ir_ref rs)" and "r \<in> set rs"
  shows "mset rs = add_mset r (mset (swap_pop (ir_ref r) rs))"
proof -
  obtain i where i: "ref_index (ir_ref r) rs = Some i"
    using assms(2) ref_index_None [of "ir_ref r" rs] by auto
  then have "i < length rs" "ir_ref (rs ! i) = ir_ref r"
    using ref_index_Some by blast+
  moreover from this have "rs ! i = r"
    using assms by (meson distinct_map inj_onD nth_mem)
  ultimately show ?thesis
    using mset_swap_pop_index [of i rs] i by (simp add: swap_pop_def)
qed

lemma find_inflight_Some: "find_inflight rs tid = Some r \<Longrightarrow> r \<in> set rs \<and> ir_tid r = tid"
  by (induction rs) (auto split: if_splits)

lemma map_ref_upd:
  assumes "\<And>r. ir_ref (f r) = ir_ref r"
  shows "map ir_ref (upd_ref ref f rs) = map ir_ref rs"
  using assms by (simp add: upd_ref_def)

section \<open>The invariant\<close>

definition authentic :: "plain_hash \<Rightarrow> Node \<Rightarrow> bool" where
  "authentic plain n \<longleftrightarrow> length (node_id n) = 32 \<and>
     node_id n = compute_peer_id plain (Ipv4_from_string (node_host n) (node_port n))"

definition table_auth :: "plain_hash \<Rightarrow> RoutingTable \<Rightarrow> bool" where
  "table_auth plain t \<longleftrightarrow> table_ok t \<and> (\<forall>n \<in> nodes_of t. authentic plain n)"

definition cb_ok :: "plain_hash \<Rightarrow> Callback \<Rightarrow> bool" where
  "cb_ok plain c = (case c of
     OnSwap st \<Rightarrow> authentic plain (sw_new_node st) \<and> length (sw_old_id st) = 32
   | OnCheck st \<Rightarrow> length (ck_target_id st) = 32
   | _ \<Rightarrow> True)"

definition is_swap :: "Callback option \<Rightarrow> bool" where
  "is_swap c = (case c of Some (OnSwap _) \<Rightarrow> True | _ \<Rightarrow> False)"

definition is_check :: "Callback option \<Rightarrow> bool" where
  "is_check c = (case c of Some (OnCheck _) \<Rightarrow> True | _ \<Rightarrow> False)"

definition req_ok :: "plain_hash \<Rightarrow> InflightRequest \<Rightarrow> bool" where
  "req_ok plain r \<longleftrightarrow> \<not> ir_destroyed r \<and> 0 \<le> ir_retries r \<and>
     opt_all (cb_ok plain) (ir_on_response r) \<and> opt_all (cb_ok plain) (ir_on_timeout r) \<and>
     is_swap (ir_on_response r) = is_swap (ir_on_timeout r) \<and> is_check (ir_on_response r) = is_check (ir_on_timeout r)"

text \<open>The requests whose callback ran, in the order of the calls.\<close>

fun called :: "RpcEvent list \<Rightarrow> nat list" where
  "called [] = []"
| "called (ResponseCalled ref _ _ # tr) = ref # called tr"
| "called (TimeoutCalled ref _ _ # tr) = ref # called tr"
| "called (_ # tr) = called tr"

lemma called_append [simp]: "called (tr @ tr') = called tr @ called tr'"
  by (induction tr rule: called.induct) simp_all

definition refs_ok :: "InflightRequest list \<Rightarrow> InflightRequest list \<Rightarrow> nat \<Rightarrow> nat list \<Rightarrow> bool" where
  "refs_ok inflight pending n done_refs \<longleftrightarrow>
     distinct (done_refs @ map ir_ref inflight @ map ir_ref pending) \<and>
     (\<forall>x \<in> set done_refs \<union> ir_ref ` set inflight \<union> ir_ref ` set pending. x < n)"

definition reqs_ok :: "plain_hash \<Rightarrow> InflightRequest list \<Rightarrow> InflightRequest list \<Rightarrow> bool" where
  "reqs_ok plain inflight pending \<longleftrightarrow>
     (\<forall>r \<in> set inflight \<union> set pending. req_ok plain r) \<and>
     (\<forall>r \<in> set inflight. 1 \<le> ir_sent r \<and> ir_sent r \<le> ir_retries r + 1) \<and>
     (\<forall>r \<in> set pending. ir_sent r = 0)"

definition swaps :: "InflightRequest list \<Rightarrow> int" where
  "swaps rs = int (length (filter (\<lambda>r. is_swap (ir_on_response r)) rs))"

definition node_checks :: "InflightRequest list \<Rightarrow> int" where
  "node_checks rs = int (length (filter (\<lambda>r. is_check (ir_on_response r)) rs))"

definition counts_ok :: "InflightRequest list \<Rightarrow> InflightRequest list \<Rightarrow> int \<Rightarrow> int \<Rightarrow> bool" where
  "counts_ok inflight pending repinging checks \<longleftrightarrow>
     swaps inflight + swaps pending \<le> repinging \<and> repinging \<le> MAX_REPINGING \<and>
     node_checks inflight + node_checks pending \<le> checks"

definition rtt_ok :: "(string \<times> u64) list \<Rightarrow> bool" where
  "rtt_ok m \<longleftrightarrow> distinct (map fst m) \<and> length m \<le> MAX_PEER_RTT_ENTRIES"

definition probe_ok :: "bool \<Rightarrow> FirewallProbe \<Rightarrow> bool" where
  "probe_ok ephemeral p \<longleftrightarrow> distinct (fp_replied_hosts p) \<and> length (fp_replied_hosts p) \<le> MAX_PROBE_HOSTS \<and>
     (\<not> ephemeral \<longrightarrow> \<not> fp_running p \<and> (if fp_expected p \<ge> 5 then 3 else 1) \<le> length (fp_replied_hosts p))"

definition rpc_core :: "plain_hash \<Rightarrow> RpcSocket \<Rightarrow> bool" where
  "rpc_core plain s \<longleftrightarrow> table_auth plain (sk_table s) \<and>
     refs_ok (sk_inflight s) (sk_pending s) (sk_next_ref s) (called (sk_trace s)) \<and>
     reqs_ok plain (sk_inflight s) (sk_pending s) \<and>
     counts_ok (sk_inflight s) (sk_pending s) (sk_repinging s) (sk_checks s) \<and>
     cw_ok (sk_congestion s) \<and> rtt_ok (sk_peer_rtt s) \<and> probe_ok (sk_ephemeral s) (sk_probe s)"

definition rpc_ok :: "plain_hash \<Rightarrow> RpcSocket \<Rightarrow> bool" where
  "rpc_ok plain s \<longleftrightarrow> rpc_core plain s \<and> length (sk_pending s) \<le> MAX_PENDING"

lemma counts_simps [simp]:
  "swaps [] = 0" "node_checks [] = 0"
  "swaps (r # rs) = (if is_swap (ir_on_response r) then 1 else 0) + swaps rs"
  "node_checks (r # rs) = (if is_check (ir_on_response r) then 1 else 0) + node_checks rs"
  "swaps (rs @ rs') = swaps rs + swaps rs'" "node_checks (rs @ rs') = node_checks rs + node_checks rs'"
  by (simp_all add: swaps_def node_checks_def)

lemma counts_nonneg: "0 \<le> swaps rs" "0 \<le> node_checks rs"
  by (simp_all add: swaps_def node_checks_def)

lemma counts_mset:
  assumes "mset rs = mset rs'"
  shows "swaps rs = swaps rs'" "node_checks rs = node_checks rs'"
  using assms unfolding swaps_def node_checks_def by (metis mset_filter size_mset)+

section \<open>Transmission\<close>

lemma rpc_core_emit [simp]: "called [ev] = [] \<Longrightarrow> rpc_core plain (emit_event ev s) = rpc_core plain s"
  by (simp add: rpc_core_def emit_event_def)

definition resent :: "u64 \<Rightarrow> u64 \<Rightarrow> InflightRequest \<Rightarrow> InflightRequest" where
  "resent now timeout r = r\<lparr>ir_sent := ir_sent r + 1, ir_sent_at := now, ir_timer := Some timeout\<rparr>"

lemma resent_simps [simp]:
  "ir_ref (resent now t r) = ir_ref r" "ir_on_response (resent now t r) = ir_on_response r"
  "ir_on_timeout (resent now t r) = ir_on_timeout r" "ir_retries (resent now t r) = ir_retries r"
  "ir_sent (resent now t r) = ir_sent r + 1" "ir_destroyed (resent now t r) = ir_destroyed r"
  "ir_tid (resent now t r) = ir_tid r"
  by (simp_all add: resent_def)

lemma req_ok_resent [simp]: "req_ok plain (resent now t r) = req_ok plain r"
  by (simp add: req_ok_def)

lemma send_now_eq:
  assumes "\<not> ir_destroyed r" and "\<not> sk_closing s"
  obtains t where "send_now e r s = s\<lparr>sk_congestion := cw_send (sk_congestion s),
    sk_trace := sk_trace s @ [Sent (ir_buffer r) (ir_to r) (active_socket s)],
    sk_inflight := upd_ref (ir_ref r) (resent (en_now e) t) (sk_inflight s)\<rparr>"
  using that assms
  by (auto simp: send_now_def udp_send_def udp_send_on_def emit_event_def Let_def active_socket_def resent_def [abs_def])

lemma upd_ref_simps [simp]:
  "map ir_ref (upd_ref ref (resent now t) rs) = map ir_ref rs"
  "swaps (upd_ref ref (resent now t) rs) = swaps rs" "node_checks (upd_ref ref (resent now t) rs) = node_checks rs"
  by (induction rs) (auto simp: upd_ref_def)

lemma upd_ref_set:
  assumes "distinct (map ir_ref rs)" and "r \<in> set rs"
  shows "set (upd_ref (ir_ref r) f rs) = insert (f r) (set rs - {r})"
proof -
  have "ir_ref x = ir_ref r \<longleftrightarrow> x = r" if "x \<in> set rs" for x
    using that assms by (auto simp: distinct_map inj_on_def)
  then have "upd_ref (ir_ref r) f rs = map (\<lambda>x. if x = r then f r else x) rs"
    by (auto simp: upd_ref_def)
  then show ?thesis
    using assms(2) by auto
qed

lemma reqs_ok_sent:
  assumes "distinct (map ir_ref inflight)" and "r \<in> set inflight" and "reqs_ok plain (filter (\<lambda>x. x \<noteq> r) inflight) pending"
    and "req_ok plain r" and "0 \<le> ir_sent r" and "ir_sent r \<le> ir_retries r"
  shows "reqs_ok plain (upd_ref (ir_ref r) (resent now t) inflight) pending"
  using assms upd_ref_set [OF assms(1,2), of "resent now t"] by (auto simp: reqs_ok_def)

text \<open>A request at the head of the queue is put in flight and sent.\<close>

lemma rpc_core_send_first:
  assumes ok: "rpc_core plain (s\<lparr>sk_pending := r # rs\<rparr>)" and "\<not> sk_closing s"
  shows "rpc_core plain ((send_now e r (s\<lparr>sk_inflight := sk_inflight s @ [r]\<rparr>))\<lparr>sk_pending := rs\<rparr>)"
proof -
  let ?i = "sk_inflight s"
  have r: "req_ok plain r" "ir_sent r = 0" and nd: "\<not> ir_destroyed r"
    using ok by (auto simp: rpc_core_def reqs_ok_def req_ok_def)
  obtain t where t: "send_now e r (s\<lparr>sk_inflight := ?i @ [r]\<rparr>) = s\<lparr>sk_congestion := cw_send (sk_congestion s),
    sk_trace := sk_trace s @ [Sent (ir_buffer r) (ir_to r) (active_socket s)],
    sk_inflight := upd_ref (ir_ref r) (resent (en_now e) t) (?i @ [r])\<rparr>"
    using send_now_eq [of r "s\<lparr>sk_inflight := ?i @ [r]\<rparr>" e] nd assms(2) by (auto simp: active_socket_def)
  have d: "distinct (map ir_ref (?i @ [r]))" and i: "r \<notin> set ?i"
    using ok by (auto simp: rpc_core_def refs_ok_def)
  have "reqs_ok plain (upd_ref (ir_ref r) (resent (en_now e) t) (?i @ [r])) rs"
    using ok r i by (intro reqs_ok_sent [OF d]) (auto simp: rpc_core_def reqs_ok_def req_ok_def)
  moreover have "ir_ref ` set (upd_ref (ir_ref r) (resent (en_now e) t) (?i @ [r])) = ir_ref ` set (?i @ [r])"
    unfolding set_map [symmetric] by simp
  ultimately show ?thesis
    using ok unfolding t by (auto simp: rpc_core_def refs_ok_def counts_ok_def cw_ok_send)
qed

lemma rpc_core_drain:
  "rpc_core plain (s\<lparr>sk_pending := rs\<rparr>) \<Longrightarrow> \<not> sk_closing s \<Longrightarrow> rpc_core plain (drain_loop e rs s) \<and> length (sk_pending (drain_loop e rs s)) \<le> length rs"
proof (induction rs arbitrary: s)
  case (Cons r rs)
  let ?s = "send_now e r (s\<lparr>sk_inflight := sk_inflight s @ [r]\<rparr>)"
  have nd: "\<not> ir_destroyed r"
    using Cons.prems(1) by (auto simp: rpc_core_def reqs_ok_def req_ok_def)
  have "\<not> sk_closing ?s"
    using Cons.prems(2) nd send_now_eq [of r "s\<lparr>sk_inflight := sk_inflight s @ [r]\<rparr>" e] by fastforce
  then show ?case
    using Cons.IH [OF rpc_core_send_first [OF Cons.prems], of e] Cons.prems nd by (auto intro: le_SucI)
qed simp

text \<open>A retry.\<close>

lemma rpc_core_resend:
  assumes ok: "rpc_core plain s" and "\<not> sk_closing s" and r: "r \<in> set (sk_inflight s)" "ir_sent r \<le> ir_retries r"
  shows "rpc_core plain (send_now e r s)"
proof -
  let ?i = "sk_inflight s"
  have q: "req_ok plain r" "1 \<le> ir_sent r" "\<not> ir_destroyed r"
    using ok r by (auto simp: rpc_core_def reqs_ok_def req_ok_def)
  obtain t where t: "send_now e r s = s\<lparr>sk_congestion := cw_send (sk_congestion s),
    sk_trace := sk_trace s @ [Sent (ir_buffer r) (ir_to r) (active_socket s)],
    sk_inflight := upd_ref (ir_ref r) (resent (en_now e) t) ?i\<rparr>"
    using send_now_eq [OF q(3) assms(2)] by blast
  have d: "distinct (map ir_ref ?i)"
    using ok by (auto simp: rpc_core_def refs_ok_def)
  have "reqs_ok plain (upd_ref (ir_ref r) (resent (en_now e) t) ?i) (sk_pending s)"
    using ok q r by (intro reqs_ok_sent [OF d]) (auto simp: rpc_core_def reqs_ok_def)
  moreover have "ir_ref ` set (upd_ref (ir_ref r) (resent (en_now e) t) ?i) = ir_ref ` set ?i"
    unfolding set_map [symmetric] by simp
  ultimately show ?thesis
    using ok unfolding t by (auto simp: rpc_core_def refs_ok_def counts_ok_def cw_ok_send)
qed

text \<open>What sending leaves alone.\<close>

lemma send_now_frame [simp]:
  "sk_pending (send_now e r s) = sk_pending s" "sk_closing (send_now e r s) = sk_closing s"
  "sk_table (send_now e r s) = sk_table s" "sk_repinging (send_now e r s) = sk_repinging s"
  "sk_checks (send_now e r s) = sk_checks s" "sk_next_ref (send_now e r s) = sk_next_ref s"
  "called (sk_trace (send_now e r s)) = called (sk_trace s)" "sk_tick (send_now e r s) = sk_tick s"
  by (simp_all add: send_now_def Let_def udp_send_def udp_send_on_def emit_event_def)

section \<open>Requests\<close>

definition cbs_ok :: "plain_hash \<Rightarrow> Callback option \<Rightarrow> Callback option \<Rightarrow> bool" where
  "cbs_ok plain c d \<longleftrightarrow> opt_all (cb_ok plain) c \<and> opt_all (cb_ok plain) d \<and> is_swap c = is_swap d \<and> is_check c = is_check d"

lemma request_cases:
  fixes req tmo retries c d
  assumes "\<not> sk_closing s"
  defines "s1 \<equiv> (snd (alloc_tid s))\<lparr>sk_next_ref := Suc (sk_next_ref s)\<rparr>"
    and "r \<equiv> new_request (sk_next_ref s) (req\<lparr>rq_tid := fst (alloc_tid s)\<rparr>) tmo retries c d"
  shows "request e req tmo retries c d s =
    (if \<not> cw_is_full (sk_congestion s) then (fst (alloc_tid s), send_now e r (s1\<lparr>sk_inflight := sk_inflight s @ [r]\<rparr>))
     else if length (sk_pending s) \<ge> MAX_PENDING then (0, s1)
     else (fst (alloc_tid s), s1\<lparr>sk_pending := sk_pending s @ [r]\<rparr>))"
  using assms by (simp add: request_def Let_def alloc_tid_def)

lemma alloc_tid_frame: "snd (alloc_tid s) = s\<lparr>sk_next_tid := sk_next_tid (snd (alloc_tid s))\<rparr>"
  by (simp add: alloc_tid_def Let_def)

lemma refs_ok_enqueue:
  assumes "refs_ok inflight pending n done_refs" and "ir_ref r = n" and p: "mset p = add_mset r (mset pending)"
  shows "refs_ok inflight p (Suc n) done_refs"
proof -
  have sets: "set p = insert r (set pending)"
    using arg_cong [OF p, of set_mset] by simp
  have "mset (map ir_ref p) = mset (ir_ref r # map ir_ref pending)"
    using arg_cong [OF p, of "image_mset ir_ref"] by simp
  then have d: "distinct (map ir_ref p) = distinct (ir_ref r # map ir_ref pending)"
    by (rule mset_eq_imp_distinct_iff)
  have nin: "n \<notin> set done_refs" "n \<notin> ir_ref ` set inflight" "n \<notin> ir_ref ` set pending"
    using assms(1) unfolding refs_ok_def by blast+
  show ?thesis
    unfolding refs_ok_def
  proof
    show "distinct (done_refs @ map ir_ref inflight @ map ir_ref p)"
      using assms(1,2) nin by (simp add: refs_ok_def d sets)
    show "\<forall>x \<in> set done_refs \<union> ir_ref ` set inflight \<union> ir_ref ` set p. x < Suc n"
      using assms(1,2) by (auto simp: refs_ok_def sets intro: less_SucI)
  qed
qed

lemma rpc_core_enqueue:
  assumes ok: "rpc_core plain s" and r: "req_ok plain r" "ir_sent r = 0" "ir_ref r = sk_next_ref s"
    and swap: "is_swap (ir_on_response r) \<Longrightarrow> swaps (sk_inflight s) + swaps (sk_pending s) < sk_repinging s"
    and check: "is_check (ir_on_response r) \<Longrightarrow> node_checks (sk_inflight s) + node_checks (sk_pending s) < sk_checks s"
    and p: "mset p = add_mset r (mset (sk_pending s))"
  shows "rpc_core plain (s\<lparr>sk_next_tid := tid, sk_next_ref := Suc (sk_next_ref s), sk_pending := p\<rparr>)"
proof -
  have sets: "set p = insert r (set (sk_pending s))"
    using arg_cong [OF p, of set_mset] by simp
  have "refs_ok (sk_inflight s) p (Suc (sk_next_ref s)) (called (sk_trace s))"
    using ok by (intro refs_ok_enqueue [OF _ r(3) p]) (simp add: rpc_core_def)
  moreover have "reqs_ok plain (sk_inflight s) p"
    using ok r(1,2) by (auto simp: rpc_core_def reqs_ok_def sets)
  moreover have "counts_ok (sk_inflight s) p (sk_repinging s) (sk_checks s)"
    using ok swap check counts_mset [of p "r # sk_pending s"] p by (auto simp: rpc_core_def counts_ok_def)
  ultimately show ?thesis
    using ok by (simp add: rpc_core_def)
qed

lemma rpc_ok_request:
  assumes ok: "rpc_ok plain s" and cbs: "cbs_ok plain c d" and "0 \<le> retries"
    and swap: "is_swap c \<Longrightarrow> swaps (sk_inflight s) + swaps (sk_pending s) < sk_repinging s"
    and check: "is_check c \<Longrightarrow> node_checks (sk_inflight s) + node_checks (sk_pending s) < sk_checks s"
  shows "rpc_ok plain (snd (request e req tmo retries c d s))"
proof (cases "sk_closing s")
  case False
  define tid where "tid = sk_next_tid (snd (alloc_tid s))"
  define s1 where "s1 = s\<lparr>sk_next_tid := tid, sk_next_ref := Suc (sk_next_ref s)\<rparr>"
  define r where "r = new_request (sk_next_ref s) (req\<lparr>rq_tid := fst (alloc_tid s)\<rparr>) tmo retries c d"
  have s1: "(snd (alloc_tid s))\<lparr>sk_next_ref := Suc (sk_next_ref s)\<rparr> = s1"
    by (simp add: s1_def tid_def alloc_tid_def Let_def)
  have r: "req_ok plain r" "ir_sent r = 0" "ir_ref r = sk_next_ref s" and c: "ir_on_response r = c"
    using cbs assms(3) by (simp_all add: r_def new_request_def req_ok_def cbs_ok_def)
  have core: "rpc_core plain s"
    using ok by (simp add: rpc_ok_def)
  have queued: "rpc_core plain (s1\<lparr>sk_pending := p\<rparr>)" if "mset p = add_mset r (mset (sk_pending s))" for p
    using rpc_core_enqueue [OF core r _ _ that, of tid] swap check by (simp add: c s1_def)
  have sent: "rpc_core plain (send_now e r (s1\<lparr>sk_inflight := sk_inflight s @ [r]\<rparr>))"
  proof -
    have "rpc_core plain (s1\<lparr>sk_pending := r # sk_pending s\<rparr>)" "\<not> sk_closing s1"
      using queued [of "r # sk_pending s"] False by (simp_all add: s1_def)
    from rpc_core_send_first [OF this, of e] have "rpc_core plain ((send_now e r (s1\<lparr>sk_inflight := sk_inflight s @ [r]\<rparr>))\<lparr>sk_pending := sk_pending s\<rparr>)"
      by (simp add: s1_def)
    moreover have "(send_now e r (s1\<lparr>sk_inflight := sk_inflight s @ [r]\<rparr>))\<lparr>sk_pending := sk_pending s\<rparr> = send_now e r (s1\<lparr>sk_inflight := sk_inflight s @ [r]\<rparr>)"
      by (rule RpcSocket.equality) (simp_all add: s1_def)
    ultimately show ?thesis
      by simp
  qed
  have dropped: "rpc_core plain s1"
    using core by (auto simp: s1_def rpc_core_def refs_ok_def intro: less_SucI)
  have "length (sk_pending s) \<le> MAX_PENDING"
    using ok by (simp add: rpc_ok_def)
  then show ?thesis
    using sent dropped queued [of "sk_pending s @ [r]"]
    unfolding request_cases [OF False] s1 r_def [symmetric] by (simp add: rpc_ok_def s1_def)
qed (use ok in \<open>simp add: request_def\<close>)

section \<open>Peers\<close>

lemma table_auth_insert:
  assumes "table_auth plain t" and "authentic plain n"
  shows "table_auth plain (table_insert t n)"
  using assms add_cases(2,3) [of t n] by (auto simp: table_auth_def authentic_def split: if_splits)

lemma table_auth_remove: "table_auth plain t \<Longrightarrow> length x = 32 \<Longrightarrow> table_auth plain (snd (RoutingTable_remove t x))"
  using remove_cases(2,3) [of t x] by (auto simp: table_auth_def)

lemma table_auth_update:
  assumes t: "table_auth plain t" and x: "length x = 32"
    and f: "\<And>n. node_id (f n) = node_id n" "\<And>n. node_host (f n) = node_host n" "\<And>n. node_port (f n) = node_port n"
  shows "table_auth plain (RoutingTable_update t x f)"
proof -
  have ok: "table_ok t"
    using t by (simp add: table_auth_def)
  note u = update_spec [OF ok x, of f, OF f(1)]
  have "authentic plain n" if "n \<in> nodes_of (RoutingTable_update t x f)" for n
  proof -
    have len: "length (node_id n) = 32"
      using that nodes_of_bucket [OF u(1)] by blast
    then have "RoutingTable_get (RoutingTable_update t x f) (node_id n) = Some n"
      using get_iff [OF u(1)] that by blast
    then obtain m where "RoutingTable_get t (node_id n) = Some m" "n = m \<or> n = f m"
      using u(2) [OF len] by (auto split: if_splits)
    moreover from this have "authentic plain m"
      using get_iff [OF ok len] t by (auto simp: table_auth_def)
    ultimately show ?thesis
      by (auto simp: authentic_def f)
  qed
  then show ?thesis
    using u(1) by (simp add: table_auth_def)
qed

lemma table_auth_rebuild: "table_auth plain t \<Longrightarrow> length new_id = 32 \<Longrightarrow> table_auth plain (RoutingTable_rebuild_with_id t new_id)"
  using rebuild_spec(1,2) [of t new_id] by (auto simp: table_auth_def)

lemma oldest_loop_mem: "oldest_loop tick b ns = Some x \<Longrightarrow> x \<in> set ns \<or> b = Some x"
  by (induction ns arbitrary: b) (fastforce split: if_splits option.splits)+

lemma oldest_member:
  assumes "table_ok t" and "i < ID_BITS" and "oldest_loop tick None (rt_buckets t ! i) = Some x"
  shows "length (node_id x) = 32"
  using oldest_loop_mem [OF assms(3)] table_okD(4) [OF assms(1,2)] by simp

lemma rpc_ok_table: "rpc_ok plain s \<Longrightarrow> table_auth plain t \<Longrightarrow> rpc_ok plain (s\<lparr>sk_table := t\<rparr>)"
  by (simp add: rpc_ok_def rpc_core_def)

lemma rpc_ok_auth: "rpc_ok plain s \<Longrightarrow> table_auth plain (sk_table s)" "rpc_ok plain s \<Longrightarrow> table_ok (sk_table s)"
  by (simp_all add: rpc_ok_def rpc_core_def table_auth_def)

lemma rpc_ok_mark_pinged: "rpc_ok plain s \<Longrightarrow> length nid = 32 \<Longrightarrow> rpc_ok plain (mark_pinged nid s)"
  by (simp add: mark_pinged_def rpc_ok_table table_auth_update rpc_ok_auth)

lemma mark_pinged_frame [simp]:
  "sk_repinging (mark_pinged nid s) = sk_repinging s" "sk_checks (mark_pinged nid s) = sk_checks s"
  "sk_inflight (mark_pinged nid s) = sk_inflight s" "sk_pending (mark_pinged nid s) = sk_pending s"
  by (simp_all add: mark_pinged_def)

lemma rpc_ok_repinging:
  "rpc_ok plain s \<Longrightarrow> sk_repinging s \<le> re \<Longrightarrow> re \<le> MAX_REPINGING \<Longrightarrow> rpc_ok plain (s\<lparr>sk_repinging := re\<rparr>)"
  by (simp add: rpc_ok_def rpc_core_def counts_ok_def)

lemma rpc_ok_checks: "rpc_ok plain s \<Longrightarrow> sk_checks s \<le> ch \<Longrightarrow> rpc_ok plain (s\<lparr>sk_checks := ch\<rparr>)"
  by (simp add: rpc_ok_def rpc_core_def counts_ok_def)

lemma rpc_ok_countsD:
  "rpc_ok plain s \<Longrightarrow> swaps (sk_inflight s) + swaps (sk_pending s) \<le> sk_repinging s"
  "rpc_ok plain s \<Longrightarrow> node_checks (sk_inflight s) + node_checks (sk_pending s) \<le> sk_checks s"
  by (simp_all add: rpc_ok_def rpc_core_def counts_ok_def)

lemma rpc_ok_reping:
  assumes ok: "rpc_ok plain s" and new: "authentic plain new_node" and old: "length (node_id oldest) = 32"
    and few: "sk_repinging s < MAX_REPINGING"
  shows "rpc_ok plain (reping_and_swap e new_node oldest s)"
  unfolding reping_and_swap_def Let_def
proof (rule rpc_ok_request)
  let ?s = "mark_pinged (node_id oldest) s"
  show "rpc_ok plain (?s\<lparr>sk_repinging := sk_repinging ?s + 1\<rparr>)"
    using few by (intro rpc_ok_repinging rpc_ok_mark_pinged ok old) simp_all
qed (use rpc_ok_countsD [OF ok] new old in \<open>simp_all add: cbs_ok_def opt_all_def cb_ok_def is_swap_def is_check_def\<close>)

lemma rpc_ok_check_node:
  assumes ok: "rpc_ok plain s" and len: "length (node_id node) = 32"
  shows "rpc_ok plain (check_node e node s)"
  unfolding check_node_def Let_def
proof (rule rpc_ok_request)
  let ?s = "mark_pinged (node_id node) s"
  show "rpc_ok plain (?s\<lparr>sk_checks := sk_checks ?s + 1\<rparr>)"
    by (intro rpc_ok_checks rpc_ok_mark_pinged ok len) simp
qed (use rpc_ok_countsD [OF ok] len in \<open>simp_all add: cbs_ok_def opt_all_def cb_ok_def is_swap_def is_check_def\<close>)

lemma rpc_ok_bucket_full:
  assumes ok: "rpc_ok plain s" and new: "authentic plain new_node" and "i < ID_BITS"
  shows "rpc_ok plain (on_bucket_full e i new_node s)"
  using rpc_ok_reping [OF ok new oldest_member [OF rpc_ok_auth(2) [OF ok] assms(3)]] ok
  by (simp add: on_bucket_full_def Let_def split: option.split)

lemma add_full_index: "RoutingTable_add t n = (b, t', Some (i, m)) \<Longrightarrow> i < ID_BITS \<and> m = n"
  by (auto simp: RoutingTable_add_def Let_def split: if_splits prod.splits bool.splits)

lemma rpc_ok_table_add:
  assumes ok: "rpc_ok plain s" and n: "authentic plain n"
  shows "rpc_ok plain (table_add e n s)"
proof -
  obtain b t full where add: "RoutingTable_add (sk_table s) n = (b, t, full)"
    by (cases "RoutingTable_add (sk_table s) n") auto
  have t: "rpc_ok plain (s\<lparr>sk_table := t\<rparr>)"
    using rpc_ok_table [OF ok table_auth_insert [OF rpc_ok_auth(1) [OF ok] n]] by (simp add: add)
  show ?thesis
  proof (cases full)
    case None
    then show ?thesis
      using t by (simp add: table_add_def add)
  next
    case (Some im)
    then obtain i where "full = Some (i, n)" "i < ID_BITS"
      using add_full_index add by (metis surj_pair)
    then show ?thesis
      using rpc_ok_bucket_full [OF t n] by (simp add: table_add_def add)
  qed
qed

lemma rpc_ok_table_remove: "rpc_ok plain s \<Longrightarrow> length x = 32 \<Longrightarrow> rpc_ok plain (table_remove x s)"
  by (simp add: table_remove_def rpc_ok_table table_auth_remove rpc_ok_auth)

lemma rpc_ok_do_swap:
  "rpc_ok plain s \<Longrightarrow> authentic plain (sw_new_node st) \<Longrightarrow> length (sw_old_id st) = 32 \<Longrightarrow> rpc_ok plain (do_swap e st s)"
  by (simp add: do_swap_def rpc_ok_table_add rpc_ok_table_remove)

section \<open>Completion of a request\<close>

lemma destroy_perm:
  assumes "rpc_ok plain s" and "r \<in> set (sk_inflight s)"
  shows "mset (sk_inflight s) = add_mset r (mset (swap_pop (ir_ref r) (sk_inflight s)))"
    and "set (sk_inflight s) = insert r (set (swap_pop (ir_ref r) (sk_inflight s)))"
    and "distinct (map ir_ref (sk_inflight s)) = distinct (ir_ref r # map ir_ref (swap_pop (ir_ref r) (sk_inflight s)))"
    and "swaps (sk_inflight s) = swaps (r # swap_pop (ir_ref r) (sk_inflight s))"
    and "node_checks (sk_inflight s) = node_checks (r # swap_pop (ir_ref r) (sk_inflight s))"
proof -
  have "distinct (map ir_ref (sk_inflight s))"
    using assms(1) by (simp add: rpc_ok_def rpc_core_def refs_ok_def)
  then show m: "mset (sk_inflight s) = add_mset r (mset (swap_pop (ir_ref r) (sk_inflight s)))"
    by (rule swap_pop_mset [OF _ assms(2)])
  show "set (sk_inflight s) = insert r (set (swap_pop (ir_ref r) (sk_inflight s)))"
    using arg_cong [OF m, of set_mset] by simp
  show "distinct (map ir_ref (sk_inflight s)) = distinct (ir_ref r # map ir_ref (swap_pop (ir_ref r) (sk_inflight s)))"
    using arg_cong [OF m, of "image_mset ir_ref"] by (intro mset_eq_imp_distinct_iff) simp
  show "swaps (sk_inflight s) = swaps (r # swap_pop (ir_ref r) (sk_inflight s))"
    "node_checks (sk_inflight s) = node_checks (r # swap_pop (ir_ref r) (sk_inflight s))"
    by (rule counts_mset; simp add: m)+
qed

lemma rpc_ok_req: "rpc_ok plain s \<Longrightarrow> r \<in> set (sk_inflight s) \<Longrightarrow> req_ok plain r"
  by (simp add: rpc_ok_def rpc_core_def reqs_ok_def)

lemma distinct_move:
  assumes "distinct (d @ xs @ ps)" and "set xs = insert x (set ys)" and "distinct (x # ys)"
  shows "distinct ((d @ [x]) @ ys @ ps)" "distinct (d @ ys @ ps)"
  using assms by auto

lemma refs_ok_finish:
  assumes ok: "refs_ok inflight pending n d" and sets: "set inflight = insert r (set i)"
    and "distinct (map ir_ref inflight) = distinct (ir_ref r # map ir_ref i)"
  shows "refs_ok i pending n (d @ [ir_ref r])" "refs_ok i pending n d"
proof -
  have d: "distinct (d @ map ir_ref inflight @ map ir_ref pending)"
    and b: "\<forall>x \<in> set d \<union> ir_ref ` set inflight \<union> ir_ref ` set pending. x < n"
    using ok unfolding refs_ok_def by blast+
  have r: "distinct (ir_ref r # map ir_ref i)"
    using d assms(3) by simp
  have "set (map ir_ref inflight) = insert (ir_ref r) (set (map ir_ref i))"
    by (simp add: sets)
  note moved = distinct_move [OF d this r]
  show "refs_ok i pending n (d @ [ir_ref r])"
    unfolding refs_ok_def using moved(1) b sets by fastforce
  show "refs_ok i pending n d"
    unfolding refs_ok_def using moved(2) b sets by fastforce
qed

text \<open>Leaving the list of requests in flight, with or without the call of a callback.\<close>

lemma rpc_ok_finish:
  assumes ok: "rpc_ok plain s" and r: "r \<in> set (sk_inflight s)"
    and tr: "called tr = called (sk_trace s) \<or> called tr = called (sk_trace s) @ [ir_ref r]"
    and re: "sk_repinging s - (if is_swap (ir_on_response r) then 1 else 0) \<le> re" "re \<le> sk_repinging s"
    and ch: "sk_checks s - (if is_check (ir_on_response r) then 1 else 0) \<le> ch"
  shows "rpc_ok plain ((destroy_request r s)\<lparr>sk_trace := tr, sk_repinging := re, sk_checks := ch\<rparr>)"
proof -
  let ?i = "swap_pop (ir_ref r) (sk_inflight s)"
  note perm = destroy_perm [OF ok r]
  have "refs_ok ?i (sk_pending s) (sk_next_ref s) (called tr)"
    using refs_ok_finish [OF _ perm(2,3)] ok tr by (auto simp: rpc_ok_def rpc_core_def)
  moreover have "reqs_ok plain ?i (sk_pending s)"
    using ok perm(2) by (auto simp: rpc_ok_def rpc_core_def reqs_ok_def)
  moreover have "counts_ok ?i (sk_pending s) re ch"
    using ok re ch perm(4,5) by (auto simp: rpc_ok_def rpc_core_def counts_ok_def)
  moreover have "\<not> ir_destroyed r"
    using rpc_ok_req [OF ok r] by (simp add: req_ok_def)
  ultimately show ?thesis
    using ok by (simp add: rpc_ok_def rpc_core_def destroy_request_def cw_ok_recv)
qed

lemma rpc_ok_destroy:
  assumes "rpc_ok plain s" and "r \<in> set (sk_inflight s)"
  shows "rpc_ok plain (destroy_request r s)"
  using rpc_ok_finish [OF assms, of "sk_trace s" "sk_repinging s" "sk_checks s"] by (auto simp: destroy_request_def split: if_splits)

lemma rpc_ok_session_detach: "rpc_ok plain s \<Longrightarrow> rpc_ok plain (session_detach sid tid s)"
  by (simp add: session_detach_def rpc_ok_def rpc_core_def emit_event_def split: option.split)

lemma destroy_frame [simp]:
  "sk_trace (destroy_request r s) = sk_trace s" "sk_repinging (destroy_request r s) = sk_repinging s"
  "sk_checks (destroy_request r s) = sk_checks s" "sk_table (destroy_request r s) = sk_table s"
  "sk_pending (destroy_request r s) = sk_pending s" "sk_closing (destroy_request r s) = sk_closing s"
  by (simp_all add: destroy_request_def)

lemma rpc_ok_call_response:
  assumes ok: "rpc_ok plain s" and r: "r \<in> set (sk_inflight s)"
  shows "rpc_ok plain (call_response e (ir_ref r) (ir_on_response r) resp (destroy_request r s))"
proof (cases "ir_on_response r")
  case None
  then show ?thesis
    by (simp add: call_response_def rpc_ok_destroy [OF assms])
next
  case (Some c)
  have c: "cb_ok plain c"
    using rpc_ok_req [OF assms] Some by (simp add: req_ok_def opt_all_def)
  note fin = rpc_ok_finish [OF assms, of "sk_trace s @ [ResponseCalled (ir_ref r) c resp]"]
  show ?thesis
  proof (cases c)
    case (OnSwap st)
    have "rpc_ok plain ((destroy_request r s)\<lparr>sk_trace := sk_trace s @ [ResponseCalled (ir_ref r) c resp],
        sk_repinging := sk_repinging s - 1\<rparr>)"
      using fin [of "sk_repinging s - 1" "sk_checks s"] Some OnSwap by (simp add: is_swap_def is_check_def destroy_request_def split: if_splits)
    then show ?thesis
      using c Some OnSwap rpc_ok_do_swap
      by (simp add: call_response_def emit_event_def Let_def cb_ok_def split: option.split)
  next
    case (OnCheck st)
    have "rpc_ok plain ((destroy_request r s)\<lparr>sk_trace := sk_trace s @ [ResponseCalled (ir_ref r) c resp],
        sk_checks := sk_checks s - 1\<rparr>)"
      using fin [of "sk_repinging s" "sk_checks s - 1"] Some OnCheck by (simp add: is_swap_def is_check_def destroy_request_def split: if_splits)
    then show ?thesis
      using c Some OnCheck rpc_ok_table_remove
      by (simp add: call_response_def emit_event_def Let_def cb_ok_def split: option.split)
  next
    case (OnUser u)
    then show ?thesis
      using fin [of "sk_repinging s" "sk_checks s"] Some
      by (simp add: call_response_def emit_event_def is_swap_def is_check_def destroy_request_def split: if_splits)
  next
    case (OnSession sid)
    have "rpc_ok plain ((destroy_request r s)\<lparr>sk_trace := sk_trace s @ [ResponseCalled (ir_ref r) c resp]\<rparr>)"
      using fin [of "sk_repinging s" "sk_checks s"] Some OnSession
      by (simp add: is_swap_def is_check_def destroy_request_def split: if_splits)
    then show ?thesis
      using Some OnSession rpc_ok_session_detach by (simp add: call_response_def emit_event_def)
  qed
qed

lemma rpc_ok_call_timeout:
  assumes ok: "rpc_ok plain s" and r: "r \<in> set (sk_inflight s)"
  shows "rpc_ok plain (call_timeout e (ir_ref r) (ir_on_timeout r) tid (destroy_request r s))"
proof (cases "ir_on_timeout r")
  case None
  then show ?thesis
    by (simp add: call_timeout_def rpc_ok_destroy [OF assms])
next
  case (Some c)
  have c: "cb_ok plain c" and same: "is_swap (ir_on_response r) = is_swap (Some c)" "is_check (ir_on_response r) = is_check (Some c)"
    using rpc_ok_req [OF assms] Some by (simp_all add: req_ok_def opt_all_def)
  note fin = rpc_ok_finish [OF assms, of "sk_trace s @ [TimeoutCalled (ir_ref r) c tid]", unfolded same]
  show ?thesis
  proof (cases c)
    case (OnSwap st)
    have "rpc_ok plain ((destroy_request r s)\<lparr>sk_trace := sk_trace s @ [TimeoutCalled (ir_ref r) c tid],
        sk_repinging := sk_repinging s - 1\<rparr>)"
      using fin [of "sk_repinging s - 1" "sk_checks s"] OnSwap by (simp add: is_swap_def is_check_def destroy_request_def split: if_splits)
    then show ?thesis
      using c Some OnSwap rpc_ok_do_swap by (simp add: call_timeout_def emit_event_def cb_ok_def)
  next
    case (OnCheck st)
    have "rpc_ok plain ((destroy_request r s)\<lparr>sk_trace := sk_trace s @ [TimeoutCalled (ir_ref r) c tid],
        sk_checks := sk_checks s - 1\<rparr>)"
      using fin [of "sk_repinging s" "sk_checks s - 1"] OnCheck by (simp add: is_swap_def is_check_def destroy_request_def split: if_splits)
    then show ?thesis
      using c Some OnCheck rpc_ok_table_remove by (simp add: call_timeout_def emit_event_def cb_ok_def)
  next
    case (OnUser u)
    then show ?thesis
      using fin [of "sk_repinging s" "sk_checks s"] Some
      by (simp add: call_timeout_def emit_event_def is_swap_def is_check_def destroy_request_def split: if_splits)
  next
    case (OnSession sid)
    have "rpc_ok plain ((destroy_request r s)\<lparr>sk_trace := sk_trace s @ [TimeoutCalled (ir_ref r) c tid]\<rparr>)"
      using fin [of "sk_repinging s" "sk_checks s"] OnSession
      by (simp add: is_swap_def is_check_def destroy_request_def split: if_splits)
    then show ?thesis
      using Some OnSession rpc_ok_session_detach by (simp add: call_timeout_def emit_event_def)
  qed
qed

section \<open>Round-trip times\<close>

lemma rtt_put_keys: "map fst (rtt_put key v m) = (if map_of m key = None then map fst m @ [key] else map fst m)"
  by (auto simp: rtt_put_def)

lemma rtt_ok_put:
  assumes "rtt_ok m" and "map_of m key = None \<Longrightarrow> length m < MAX_PEER_RTT_ENTRIES"
  shows "rtt_ok (rtt_put key v m)"
proof -
  have "distinct (map fst (rtt_put key v m))"
    unfolding rtt_put_keys using assms(1) by (auto simp: rtt_ok_def map_of_eq_None_iff)
  moreover have "length (rtt_put key v m) \<le> MAX_PEER_RTT_ENTRIES"
    using assms by (auto simp: rtt_put_def rtt_ok_def Suc_le_eq)
  ultimately show ?thesis
    by (simp add: rtt_ok_def)
qed

lemma rtt_ok_erase:
  assumes "rtt_ok m" and "i < length m"
  shows "length (erase_at i m) < length m" "rtt_ok (erase_at i m)"
proof -
  show len: "length (erase_at i m) < length m"
    using assms(2) by (simp add: erase_at_def)
  have keys: "map fst (erase_at i m) = take i (map fst m) @ drop (Suc i) (map fst m)"
    by (simp add: erase_at_def take_map drop_map)
  have "distinct (map fst (erase_at i m))"
    unfolding keys using assms(1) set_take_disj_set_drop_if_distinct [of "map fst m" i "Suc i"] by (simp add: rtt_ok_def)
  then show "rtt_ok (erase_at i m)"
    using assms(1) len by (simp add: rtt_ok_def)
qed

lemma rpc_ok_record_rtt:
  assumes "rpc_ok plain s"
  shows "rpc_ok plain (record_rtt e peer rtt s)"
proof -
  let ?m = "sk_peer_rtt s" and ?i = "en_first e (sk_peer_rtt s) mod length (sk_peer_rtt s)"
  have m: "rtt_ok ?m"
    using assms by (simp add: rpc_ok_def rpc_core_def)
  have "rtt_ok (rtt_put key v (erase_at ?i ?m))" if "length ?m \<ge> MAX_PEER_RTT_ENTRIES" for key v
  proof -
    have "length ?m \<le> MAX_PEER_RTT_ENTRIES" "?i < length ?m"
      using m that by (auto simp: rtt_ok_def MAX_PEER_RTT_ENTRIES_def intro!: mod_less_divisor)
    then show ?thesis
      using rtt_ok_erase [OF m, of ?i] by (intro rtt_ok_put) simp_all
  qed
  then have "rtt_ok (sk_peer_rtt (record_rtt e peer rtt s))"
    using rtt_ok_put [OF m, of "addr_key peer"]
    by (cases "map_of ?m (addr_key peer)") (auto simp: record_rtt_def Let_def)
  then show ?thesis
    using assms by (auto simp: record_rtt_def Let_def rpc_ok_def rpc_core_def split: option.splits)
qed

end
