(* ===== verification/Rpc_Run.thy ===== *)
theory Rpc_Run
  imports Rpc_Safety
begin

text \<open>
  Every operation of the RPC socket keeps its invariant, whatever datagrams arrive; the runs of a socket, and the
  properties of all states it can reach.
\<close>

section \<open>Operations keep the invariant\<close>

lemma rpc_ok_frame [simp]:
  "rpc_ok plain (s\<lparr>sk_tick := v1\<rparr>) = rpc_ok plain s" "rpc_ok plain (s\<lparr>sk_tick_responses := v2\<rparr>) = rpc_ok plain s"
  "rpc_ok plain (s\<lparr>sk_tick_timeouts := v3\<rparr>) = rpc_ok plain s" "rpc_ok plain (s\<lparr>sk_nat_sampler := v4\<rparr>) = rpc_ok plain s"
  "rpc_ok plain (s\<lparr>sk_tokens := v5\<rparr>) = rpc_ok plain s" "rpc_ok plain (s\<lparr>sk_rotate_counter := v6\<rparr>) = rpc_ok plain s"
  "rpc_ok plain (s\<lparr>sk_health := v7\<rparr>) = rpc_ok plain s" "rpc_ok plain (s\<lparr>sk_refresh_ticks := v8\<rparr>) = rpc_ok plain s"
  "rpc_ok plain (s\<lparr>sk_firewalled := v9\<rparr>) = rpc_ok plain s" "rpc_ok plain (s\<lparr>sk_stable_ticks := v10\<rparr>) = rpc_ok plain s"
  "rpc_ok plain (s\<lparr>sk_last_nat_host := v11\<rparr>) = rpc_ok plain s" "rpc_ok plain (s\<lparr>sk_listeners := v12\<rparr>) = rpc_ok plain s"
  "rpc_ok plain (s\<lparr>sk_sessions := v13\<rparr>) = rpc_ok plain s" "rpc_ok plain (s\<lparr>sk_max_ping_delay_ms := v14\<rparr>) = rpc_ok plain s"
  "rpc_ok plain (s\<lparr>sk_bootstrapped := v15\<rparr>) = rpc_ok plain s" "rpc_ok plain (s\<lparr>sk_on_request := v16\<rparr>) = rpc_ok plain s"
  "rpc_ok plain (s\<lparr>sk_on_refresh := v17\<rparr>) = rpc_ok plain s" "rpc_ok plain (s\<lparr>sk_on_persistent := v18\<rparr>) = rpc_ok plain s"
  "rpc_ok plain (s\<lparr>sk_on_health_change := v19\<rparr>) = rpc_ok plain s" "rpc_ok plain (s\<lparr>sk_closing := v20\<rparr>) = rpc_ok plain s"
  by (simp_all add: rpc_ok_def rpc_core_def)

lemma rpc_ok_emit [simp]: "called [ev] = [] \<Longrightarrow> rpc_ok plain (emit_event ev s) = rpc_ok plain s"
  by (simp add: rpc_ok_def emit_event_def rpc_core_def)

lemma rpc_ok_udp [simp]: "rpc_ok plain (udp_send_on buf to b s) = rpc_ok plain s" "rpc_ok plain (udp_send buf to s) = rpc_ok plain s"
  by (simp_all add: udp_send_on_def udp_send_def)

lemma peer_id_length [simp]: "hash32 plain \<Longrightarrow> length (compute_peer_id plain a) = 32"
  by (simp add: hash32_def compute_peer_id_def)

lemma from_string_loop_length:
  "Ipv4_from_string_loop n i pos s a = Some b \<Longrightarrow> length (ip_host b) = length (ip_host a) \<and> ip_port b = ip_port a"
  by (induction n i pos s a rule: Ipv4_from_string_loop.induct) (auto simp: Let_def split: if_splits option.splits)

lemma from_string_length [simp]: "length (ip_host (Ipv4_from_string s p)) = 4"
  by (auto simp: Ipv4_from_string_def Ipv4Address_init_def dest!: from_string_loop_length split: option.split)

lemma addr_of_sockaddr_length [simp]: "length (ip_host (addr_of_sockaddr e a)) = 4"
  by (simp add: addr_of_sockaddr_def)

lemma authentic_from_network:
  assumes "hash32 plain" and "length (ip_host from) = 4"
  shows "authentic plain (node_from_network tick (compute_peer_id plain from) from)"
proof -
  have "Ipv4_from_string (Ipv4_host_string from) (ip_port from) = from"
    using Ipv4_from_host_string [OF assms(2), of "ip_port from"] by simp
  then show ?thesis
    using assms(1) by (simp add: authentic_def node_from_network_def)
qed

lemma rpc_ok_add_node:
  assumes ok: "rpc_ok plain s" and h: "hash32 plain" and "length (ip_host from) = 4"
  shows "rpc_ok plain (add_node_from_network e (compute_peer_id plain from) from s)"
  using rpc_ok_table_add [OF ok authentic_from_network [OF h assms(3)]] ok h
  by (simp add: add_node_from_network_def rpc_ok_table table_auth_update rpc_ok_auth)

lemma rpc_ok_handle_request:
  assumes "rpc_ok plain s" and "hash32 plain" and "en_plain e = plain"
  shows "rpc_ok plain (handle_request e req addr from_server s)"
  using rpc_ok_add_node [OF assms(1,2)] assms by (auto simp: handle_request_def Let_def split: option.split)

lemma rpc_ok_match_response:
  assumes "rpc_ok plain s"
  shows "rpc_ok plain (match_response e resp s)"
proof (cases "find_inflight (sk_inflight s) (rs_tid resp)")
  case (Some r)
  let ?s = "s\<lparr>sk_tick_responses := sk_tick_responses s + 1\<rparr>"
  let ?s' = "if ir_sent r \<le> 2 \<and> ir_sent_at r > 0 then record_rtt e (ir_to r) (en_now e - ir_sent_at r) ?s else ?s"
  have "r \<in> set (sk_inflight s)"
    using find_inflight_Some [OF Some] by simp
  moreover have "sk_inflight ?s' = sk_inflight s"
    by (simp add: record_rtt_def Let_def split: option.split)
  moreover have "rpc_ok plain ?s'"
    using rpc_ok_record_rtt assms by simp
  ultimately show ?thesis
    using rpc_ok_call_response [of plain ?s' r e resp] assms Some by (simp add: match_response_def Let_def)
qed (use assms in \<open>simp add: match_response_def\<close>)

lemma rpc_ok_handle_response:
  assumes "rpc_ok plain s" and "hash32 plain" and "en_plain e = plain"
  shows "rpc_ok plain (handle_response e resp addr s)"
  unfolding handle_response_def Let_def
  by (rule rpc_ok_match_response) (use assms rpc_ok_add_node in simp)

lemma rpc_ok_foldl:
  assumes "rpc_ok plain s" and "\<And>s x. rpc_ok plain s \<Longrightarrow> rpc_ok plain (f s x)"
  shows "rpc_ok plain (foldl f s xs)"
  using assms by (induction xs arbitrary: s) simp_all

lemma rpc_ok_handle_message:
  assumes "rpc_ok plain s" and "hash32 plain" and "en_plain e = plain"
  shows "rpc_ok plain (handle_message e data addr from_server s)"
proof -
  have "rpc_ok plain (foldl (call_probe a) s ls)" for a ls
    by (rule rpc_ok_foldl [OF assms(1)]) (simp add: call_probe_def)
  then show ?thesis
    using rpc_ok_handle_request [OF assms] rpc_ok_handle_response [OF assms] assms(1)
    by (simp add: handle_message_def split: prod.split)
qed

lemma rpc_ok_probe: "rpc_ok plain s \<Longrightarrow> probe_ok (sk_ephemeral s) p \<Longrightarrow> rpc_ok plain (s\<lparr>sk_probe := p\<rparr>)"
  by (simp add: rpc_ok_def rpc_core_def)

lemma rpc_ok_probeD: "rpc_ok plain s \<Longrightarrow> probe_ok (sk_ephemeral s) (sk_probe s)"
  by (simp add: rpc_ok_def rpc_core_def)

lemma rpc_ok_persistent:
  assumes ok: "rpc_ok plain s" and h: "hash32 plain" and e: "en_plain e = plain"
    and "\<not> fp_running (sk_probe s)" and "probe_threshold s \<le> length (fp_replied_hosts (sk_probe s))"
  shows "rpc_ok plain (do_persistent_transition e s)"
proof -
  let ?s = "s\<lparr>sk_ephemeral := False, sk_firewalled := False\<rparr>"
  have s: "rpc_ok plain ?s"
    using ok assms(4,5) by (simp add: rpc_ok_def rpc_core_def probe_ok_def probe_threshold_def)
  have "rpc_ok plain (?s\<lparr>sk_table := RoutingTable_rebuild_with_id (sk_table s) (compute_peer_id plain a)\<rparr>)" for a
    using rpc_ok_table [OF s table_auth_rebuild [OF rpc_ok_auth(1) [OF ok], of "compute_peer_id plain a"]] h by simp
  then show ?thesis
    using ok s by (simp add: do_persistent_transition_def Let_def e)
qed

lemma rpc_ok_finish_probe:
  assumes ok: "rpc_ok plain s" and "hash32 plain" and "en_plain e = plain"
  shows "rpc_ok plain (finish_firewall_probe e s)"
proof -
  let ?s = "s\<lparr>sk_probe := (sk_probe s)\<lparr>fp_running := False, fp_timer := None\<rparr>\<rparr>"
  have "rpc_ok plain ?s"
    using rpc_ok_probe [OF ok] rpc_ok_probeD [OF ok] by (simp add: probe_ok_def)
  then show ?thesis
    using rpc_ok_persistent [of plain ?s e] assms by (simp add: finish_firewall_probe_def Let_def)
qed

lemma rpc_ok_start_probe:
  assumes ok: "rpc_ok plain s" and "sk_ephemeral s"
  shows "rpc_ok plain (start_firewall_probe e s)"
proof -
  have p: "rpc_ok plain (s\<lparr>sk_probe := p\<rparr>)" if "fp_replied_hosts p = []" for p
    using rpc_ok_probe [OF ok] that assms(2) by (simp add: probe_ok_def)
  have "rpc_ok plain (foldl (send_ping_nat v) s' ns)" if "rpc_ok plain s'" for s' ns v
    by (rule rpc_ok_foldl [OF that]) (simp add: send_ping_nat_def)
  moreover have "sk_probe (foldl (send_ping_nat v) s' ns) = sk_probe s' \<and> sk_ephemeral (foldl (send_ping_nat v) s' ns) = sk_ephemeral s'" for s' ns v
    by (induction ns arbitrary: s') (simp_all add: send_ping_nat_def udp_send_on_def emit_event_def)
  ultimately show ?thesis
    using p ok assms(2) by (simp add: start_firewall_probe_def Let_def rpc_ok_probe probe_ok_def)
qed

lemma rpc_ok_check_persistent: "rpc_ok plain s \<Longrightarrow> rpc_ok plain (check_persistent e s)"
  by (simp add: check_persistent_def Let_def rpc_ok_start_probe)

lemma rpc_ok_recv_server:
  assumes ok: "rpc_ok plain s" and h: "hash32 plain" "en_plain e = plain"
  shows "rpc_ok plain (on_recv_server e data addr s)"
proof -
  have "rpc_ok plain (note_probe_host host s)" if "fp_running (sk_probe s)" for host
    using rpc_ok_probeD [OF ok] that ok
    by (auto simp: note_probe_host_def Let_def probe_ok_def List.insert_def intro!: rpc_ok_probe)
  then show ?thesis
    using ok h rpc_ok_finish_probe rpc_ok_handle_message by (simp add: on_recv_server_def Let_def)
qed

lemma rpc_ok_drain_tick:
  assumes ok: "rpc_ok plain s"
  shows "rpc_ok plain (on_drain_tick e s)"
proof (cases "sk_closing s")
  case False
  have "rpc_ok plain (drain_pending e s')" if "rpc_ok plain s'" "\<not> sk_closing s'" for s'
    using rpc_core_drain [of plain "sk_pending s'" s' e] that by (auto simp: drain_pending_def rpc_ok_def)
  moreover have "rpc_ok plain (s'\<lparr>sk_congestion := cw_drain (sk_congestion s')\<rparr>)" if "rpc_ok plain s'" for s'
    using that by (simp add: rpc_ok_def rpc_core_def cw_ok_drain)
  ultimately show ?thesis
    using ok False by (simp add: on_drain_tick_def Let_def)
qed (use ok in \<open>simp add: on_drain_tick_def\<close>)

lemma rpc_ok_bg_tick: "rpc_ok plain s \<Longrightarrow> rpc_ok plain (on_bg_tick e s)"
  by (simp add: on_bg_tick_def background_tick_def Let_def rpc_ok_check_persistent)

lemma rpc_ok_timeout:
  assumes ok: "rpc_ok plain s" and r: "r \<in> set (sk_inflight s)"
  shows "rpc_ok plain (on_request_timeout e r s)"
proof -
  let ?s = "s\<lparr>sk_tick_timeouts := sk_tick_timeouts s + 1\<rparr>"
  have "rpc_ok plain (send_now e r s)" if "ir_sent r \<le> ir_retries r" "\<not> sk_closing s"
    using rpc_core_resend [OF _ that(2) r that(1)] ok by (simp add: rpc_ok_def)
  then show ?thesis
    using rpc_ok_call_timeout [of plain ?s r] ok r by (simp add: on_request_timeout_def Let_def)
qed

lemma rpc_ok_cancel:
  assumes "rpc_ok plain s"
  shows "rpc_ok plain (snd (cancel_request tid s))"
  using rpc_ok_destroy [OF assms] find_inflight_Some assms by (fastforce simp: cancel_request_def split: option.split)

lemma destroy_other:
  assumes ok: "rpc_ok plain s" and "r \<in> set (sk_inflight s)" "r' \<in> set (sk_inflight s)" "ir_ref r' \<noteq> ir_ref r"
  shows "r' \<in> set (sk_inflight (destroy_request r s))"
  using destroy_perm(2) [OF ok assms(2)] assms(3,4) by (auto simp: destroy_request_def)

lemma rpc_ok_destroy_all:
  assumes "rpc_ok plain s" and "distinct (map ir_ref rs)" and "set rs \<subseteq> set (sk_inflight s)"
  shows "rpc_ok plain (foldl (\<lambda>s r. destroy_request r s) s rs)"
  using assms
proof (induction rs arbitrary: s)
  case (Cons r rs)
  have "set rs \<subseteq> set (sk_inflight (destroy_request r s))"
  proof
    fix r' assume r': "r' \<in> set rs"
    have "ir_ref r \<notin> ir_ref ` set rs"
      using Cons.prems(2) by simp
    then have "ir_ref r' \<noteq> ir_ref r"
      using r' by (metis imageI)
    then show "r' \<in> set (sk_inflight (destroy_request r s))"
      using Cons.prems(3) r' by (intro destroy_other [OF Cons.prems(1)]) auto
  qed
  then show ?case
    using Cons rpc_ok_destroy by simp
qed simp

lemma rpc_ok_drop_pending:
  assumes "rpc_ok plain s"
  shows "rpc_ok plain (s\<lparr>sk_pending := []\<rparr>)"
proof -
  have "refs_ok (sk_inflight s) [] (sk_next_ref s) (called (sk_trace s))"
    using assms by (auto simp: rpc_ok_def rpc_core_def refs_ok_def)
  moreover have "counts_ok (sk_inflight s) [] (sk_repinging s) (sk_checks s)"
    using assms counts_nonneg [of "sk_pending s"] by (auto simp: rpc_ok_def rpc_core_def counts_ok_def)
  ultimately show ?thesis
    using assms by (simp add: rpc_ok_def rpc_core_def reqs_ok_def)
qed

lemma rpc_ok_close:
  assumes ok: "rpc_ok plain s"
  shows "rpc_ok plain (RpcSocket_close s)"
proof -
  let ?s = "foldl (\<lambda>s r. destroy_request r s) (s\<lparr>sk_closing := True\<rparr>) (sk_inflight s)"
  have "distinct (map ir_ref (sk_inflight s))"
    using ok by (simp add: rpc_ok_def rpc_core_def refs_ok_def)
  then have s: "rpc_ok plain ?s"
    using ok by (intro rpc_ok_destroy_all) simp_all
  then show ?thesis
    using ok rpc_ok_drop_pending [OF s] rpc_ok_probeD [of plain "?s\<lparr>sk_pending := []\<rparr>"]
    by (auto simp: RpcSocket_close_def Let_def probe_ok_def intro!: rpc_ok_probe)
qed

lemma rpc_ok_session_destroy: "rpc_ok plain s \<Longrightarrow> rpc_ok plain (Session_destroy sid s)"
  unfolding Session_destroy_def Let_def by (rule rpc_ok_foldl) (simp_all add: rpc_ok_cancel)

section \<open>Runs\<close>

definition user_callback :: "Callback option \<Rightarrow> bool" where
  "user_callback c = (case c of None \<Rightarrow> True | Some (OnUser _) \<Rightarrow> True | _ \<Rightarrow> False)"

definition configure :: "bool \<Rightarrow> bool \<Rightarrow> bool \<Rightarrow> bool \<Rightarrow> bool \<Rightarrow> u64 \<Rightarrow> RpcSocket \<Rightarrow> RpcSocket" where
  "configure on_req on_ref on_pers on_health boot delay s =
     s\<lparr>sk_on_request := on_req, sk_on_refresh := on_ref, sk_on_persistent := on_pers, sk_on_health_change := on_health,
       sk_bootstrapped := boot, sk_max_ping_delay_ms := delay\<rparr>"

inductive rpc_run :: "plain_hash \<Rightarrow> RpcSocket \<Rightarrow> bool" for plain where
  start: "length local_id = 32 \<Longrightarrow> rpc_run plain (RpcSocket_new local_id tokens tid)"
| conf: "rpc_run plain s \<Longrightarrow> rpc_run plain (configure b1 b2 b3 b4 b5 delay s)"
| firewalled: "rpc_run plain s \<Longrightarrow> rpc_run plain (s\<lparr>sk_firewalled := b\<rparr>)"
| request: "rpc_run plain s \<Longrightarrow> user_callback c \<Longrightarrow> user_callback d \<Longrightarrow> 0 \<le> retries \<Longrightarrow>
    rpc_run plain (snd (request e req tmo retries c d s))"
| ping: "rpc_run plain s \<Longrightarrow> user_callback c \<Longrightarrow> user_callback d \<Longrightarrow> rpc_run plain (snd (delayed_ping e to delay c d s))"
| cancel: "rpc_run plain s \<Longrightarrow> rpc_run plain (snd (cancel_request tid s))"
| reply: "rpc_run plain s \<Longrightarrow> rpc_run plain (RpcSocket_reply resp s)"
| probe: "rpc_run plain s \<Longrightarrow> rpc_run plain (send_probe to s)"
| check: "rpc_run plain s \<Longrightarrow> length (node_id n) = 32 \<Longrightarrow> rpc_run plain (check_node e n s)"
| listen: "rpc_run plain s \<Longrightarrow> rpc_run plain (snd (add_probe_listener b s))"
| unlisten: "rpc_run plain s \<Longrightarrow> rpc_run plain (remove_probe_listener nid s)"
| legacy: "rpc_run plain s \<Longrightarrow> rpc_run plain (on_holepunch_probe b s)"
| client: "rpc_run plain s \<Longrightarrow> en_plain e = plain \<Longrightarrow> rpc_run plain (on_recv_client e data addr s)"
| server: "rpc_run plain s \<Longrightarrow> en_plain e = plain \<Longrightarrow> rpc_run plain (on_recv_server e data addr s)"
| expire: "rpc_run plain s \<Longrightarrow> r \<in> set (sk_inflight s) \<Longrightarrow> rpc_run plain (on_request_timeout e r s)"
| drain: "rpc_run plain s \<Longrightarrow> rpc_run plain (on_drain_tick e s)"
| background: "rpc_run plain s \<Longrightarrow> rpc_run plain (on_bg_tick e s)"
| probe_timer: "rpc_run plain s \<Longrightarrow> en_plain e = plain \<Longrightarrow> rpc_run plain (finish_firewall_probe e s)"
| close: "rpc_run plain s \<Longrightarrow> rpc_run plain (RpcSocket_close s)"
| session: "rpc_run plain s \<Longrightarrow> rpc_run plain (Session_new sid s)"
| session_request: "rpc_run plain s \<Longrightarrow> rpc_run plain (snd (Session_request e sid req s))"
| session_destroy: "rpc_run plain s \<Longrightarrow> rpc_run plain (Session_destroy sid s)"
| session_delete: "rpc_run plain s \<Longrightarrow> rpc_run plain (Session_delete sid s)"

lemma user_cbs_ok: "user_callback c \<Longrightarrow> user_callback d \<Longrightarrow> cbs_ok plain c d \<and> \<not> is_swap c \<and> \<not> is_check c"
  by (auto simp: user_callback_def cbs_ok_def opt_all_def cb_ok_def is_swap_def is_check_def split: option.splits Callback.splits)

lemma rpc_ok_new: "length local_id = 32 \<Longrightarrow> rpc_ok plain (RpcSocket_new local_id tokens tid)"
  by (simp add: rpc_ok_def rpc_core_def RpcSocket_new_def table_auth_def table_ok_new nodes_of_new refs_ok_def reqs_ok_def
      counts_ok_def MAX_REPINGING_def cw_ok_new rtt_ok_def probe_ok_def MAX_PENDING_def)

lemma rpc_ok_session_request:
  assumes "rpc_ok plain s"
  shows "rpc_ok plain (snd (Session_request e sid req s))"
proof -
  have "rpc_ok plain (snd (request_default e req (Some (OnSession sid)) (Some (OnSession sid)) s))"
    unfolding request_default_def using assms
    by (intro rpc_ok_request) (auto simp: cbs_ok_def opt_all_def cb_ok_def is_swap_def is_check_def DEFAULT_RETRIES_def)
  then show ?thesis
    by (cases "request_default e req (Some (OnSession sid)) (Some (OnSession sid)) s") (simp add: Session_request_def Let_def)
qed

lemma rpc_run_ok: "rpc_run plain s \<Longrightarrow> hash32 plain \<Longrightarrow> rpc_ok plain s"
proof (induction rule: rpc_run.induct)
  case (request s c d retries e req tmo)
  then show ?case
    using rpc_ok_request user_cbs_ok by blast
next
  case (ping s c d e to delay)
  then show ?case
    using rpc_ok_request [of plain s c d 0] user_cbs_ok [of c d plain] by (auto simp: delayed_ping_def Let_def)
qed (simp_all add: rpc_ok_new configure_def rpc_ok_cancel RpcSocket_reply_def send_probe_def rpc_ok_check_node
    add_probe_listener_def Let_def remove_probe_listener_def on_holepunch_probe_def on_recv_client_def
    rpc_ok_handle_message rpc_ok_recv_server rpc_ok_timeout rpc_ok_drain_tick rpc_ok_bg_tick rpc_ok_finish_probe rpc_ok_close
    Session_new_def rpc_ok_session_request rpc_ok_session_destroy Session_delete_def)

section \<open>A silent peer\<close>

text \<open>The timer of a request expires.\<close>

definition expire :: "RpcEnv \<Rightarrow> nat \<Rightarrow> RpcSocket \<Rightarrow> RpcSocket" where
  "expire e ref s = (case find (\<lambda>r. ir_ref r = ref) (sk_inflight s) of None \<Rightarrow> s | Some r \<Rightarrow> on_request_timeout e r s)"

lemma find_key: "distinct (map f xs) \<Longrightarrow> x \<in> set xs \<Longrightarrow> find (\<lambda>y. f y = f x) xs = Some x"
  by (induction xs) (auto dest: imageI [of _ _ f])

lemma find_ref:
  assumes "rpc_ok plain s" and "r \<in> set (sk_inflight s)"
  shows "find (\<lambda>x. ir_ref x = ir_ref r) (sk_inflight s) = Some r"
  by (rule find_key [OF _ assms(2)]) (use assms(1) in \<open>simp add: rpc_ok_def rpc_core_def refs_ok_def\<close>)

lemma expire_retry:
  assumes ok: "rpc_ok plain s" and r: "r \<in> set (sk_inflight s)" "ir_sent r \<le> ir_retries r" and "\<not> sk_closing s"
  obtains t where "resent (en_now e) t r \<in> set (sk_inflight (expire e (ir_ref r) s))"
    "sk_trace (expire e (ir_ref r) s) = sk_trace s @ [Sent (ir_buffer r) (ir_to r) (active_socket s)]"
    "rpc_ok plain (expire e (ir_ref r) s)" "\<not> sk_closing (expire e (ir_ref r) s)"
    "active_socket (expire e (ir_ref r) s) = active_socket s"
proof -
  have nd: "\<not> ir_destroyed r"
    using rpc_ok_req [OF ok r(1)] by (simp add: req_ok_def)
  have ex: "expire e (ir_ref r) s = on_request_timeout e r s"
    using find_ref [OF ok r(1)] by (simp add: expire_def)
  moreover have "on_request_timeout e r s = send_now e r s"
    using r(2) nd assms(4) by (simp add: on_request_timeout_def)
  moreover obtain t where t: "send_now e r s = s\<lparr>sk_congestion := cw_send (sk_congestion s),
    sk_trace := sk_trace s @ [Sent (ir_buffer r) (ir_to r) (active_socket s)],
    sk_inflight := upd_ref (ir_ref r) (resent (en_now e) t) (sk_inflight s)\<rparr>"
    by (rule send_now_eq [OF nd assms(4)])
  moreover have "resent (en_now e) t r \<in> set (sk_inflight (send_now e r s))"
    unfolding t using r(1) by (force simp: upd_ref_def)
  ultimately show ?thesis
    using that [of t] rpc_ok_timeout [OF ok r(1), of e] assms(4) by (simp add: active_socket_def)
qed

text \<open>The trace only grows.\<close>

lemma trace_run_timeout: "\<exists>more. sk_trace (run_timeout e c tid s) = sk_trace s @ more"
proof (cases c)
  case (OnSwap state)
  have send: "\<exists>more. sk_trace (send_now e r s') = sk_trace s' @ more" for r s'
    by (simp add: send_now_def Let_def udp_send_def udp_send_on_def emit_event_def)
  have request: "\<exists>more. sk_trace (snd (request e req tmo retries c d s')) = sk_trace s' @ more" for req tmo retries c d s'
    using send [of "new_request (sk_next_ref s') (req\<lparr>rq_tid := sk_next_tid s'\<rparr>) tmo retries c d"
        "(snd (alloc_tid s'))\<lparr>sk_next_ref := Suc (sk_next_ref s'), sk_inflight := sk_inflight s' @
          [new_request (sk_next_ref s') (req\<lparr>rq_tid := sk_next_tid s'\<rparr>) tmo retries c d]\<rparr>"]
    by (simp add: request_def alloc_tid_def Let_def)
  have reping: "\<exists>more. sk_trace (reping_and_swap e n m s0) = sk_trace s' @ more" if "sk_trace s0 = sk_trace s'" for n m s0 s'
  proof -
    have "\<exists>more. sk_trace (snd (request e req tmo retries c d s1)) = sk_trace s' @ more" if "sk_trace s1 = sk_trace s0" for req tmo retries c d s1
      using request [of req tmo retries c d s1] that \<open>sk_trace s0 = sk_trace s'\<close> by simp
    then show ?thesis
      using \<open>sk_trace s0 = sk_trace s'\<close>
      by (simp add: reping_and_swap_def mark_pinged_def Let_def split: option.split)
  qed
  have reping': "\<exists>more. sk_trace (reping_and_swap e n m (s'\<lparr>sk_table := t\<rparr>)) = sk_trace s' @ more" for n m s' t
    by (rule reping) simp
  have table: "\<exists>more. sk_trace (table_add e n s') = sk_trace s' @ more" for n s'
    using reping' by (auto simp: table_add_def on_bucket_full_def Let_def split: prod.split option.split)
  show ?thesis
    using table [of "sw_new_node state" "table_remove (sw_old_id state) (s\<lparr>sk_repinging := sk_repinging s - 1\<rparr>)"]
    by (simp add: OnSwap do_swap_def Let_def table_remove_def)
qed (auto simp: table_remove_def session_detach_def emit_event_def split: option.split)

lemma trace_send [simp]: "ev \<in> set (sk_trace s) \<Longrightarrow> ev \<in> set (sk_trace (send_now e r s))"
  by (simp add: send_now_def Let_def udp_send_def udp_send_on_def emit_event_def)

lemma trace_request [simp]: "ev \<in> set (sk_trace s) \<Longrightarrow> ev \<in> set (sk_trace (snd (request e req tmo retries c d s)))"
  by (simp add: request_def Let_def alloc_tid_def)

lemma trace_table [simp]:
  "ev \<in> set (sk_trace s) \<Longrightarrow> ev \<in> set (sk_trace (table_add e n s))"
  "sk_trace (table_remove nid s) = sk_trace s"
  by (auto simp: table_add_def table_remove_def on_bucket_full_def reping_and_swap_def mark_pinged_def Let_def
      split: prod.split option.split)

lemma trace_timeout [simp]: "ev \<in> set (sk_trace s) \<Longrightarrow> ev \<in> set (sk_trace (run_timeout e c tid s))"
  by (cases c) (auto simp: do_swap_def session_detach_def emit_event_def split: option.split)

lemma called_mem:
  "TimeoutCalled ref c tid \<in> set tr \<Longrightarrow> ref \<in> set (called tr)" "ResponseCalled ref c resp \<in> set tr \<Longrightarrow> ref \<in> set (called tr)"
  by (induction tr rule: called.induct) auto

lemma expire_last:
  assumes ok: "rpc_ok plain s" and r: "r \<in> set (sk_inflight s)" "ir_retries r < ir_sent r" and "\<not> sk_closing s"
  shows "ir_ref r \<notin> ir_ref ` set (sk_inflight (expire e (ir_ref r) s))"
    and "ir_on_timeout r = Some c \<Longrightarrow> \<exists>more. sk_trace (expire e (ir_ref r) s) = sk_trace s @ TimeoutCalled (ir_ref r) c (ir_tid r) # more"
    and "ir_on_timeout r = None \<Longrightarrow> sk_trace (expire e (ir_ref r) s) = sk_trace s"
proof -
  let ?s = "destroy_request r (s\<lparr>sk_tick_timeouts := sk_tick_timeouts s + 1\<rparr>)"
  have nd: "\<not> ir_destroyed r"
    using rpc_ok_req [OF ok r(1)] by (simp add: req_ok_def)
  have ex: "expire e (ir_ref r) s = call_timeout e (ir_ref r) (ir_on_timeout r) (ir_tid r) ?s"
    using find_ref [OF ok r(1)] r(2) nd assms(4) by (simp add: expire_def on_request_timeout_def)
  have tr: "sk_trace ?s = sk_trace s"
    by (simp add: destroy_request_def)
  show last: "\<exists>more. sk_trace (expire e (ir_ref r) s) = sk_trace s @ TimeoutCalled (ir_ref r) c (ir_tid r) # more"
    if "ir_on_timeout r = Some c" for c
    using trace_run_timeout [of e c "ir_tid r" "emit_event (TimeoutCalled (ir_ref r) c (ir_tid r)) ?s"]
    by (auto simp: ex that call_timeout_def emit_event_def tr)
  show "sk_trace (expire e (ir_ref r) s) = sk_trace s" if "ir_on_timeout r = None"
    by (simp add: ex that call_timeout_def tr)
  have call: "TimeoutCalled (ir_ref r) c (ir_tid r) \<in> set (sk_trace (expire e (ir_ref r) s))" if "ir_on_timeout r = Some c" for c
    using last [OF that] by auto
  have ok': "rpc_ok plain (expire e (ir_ref r) s)"
    using rpc_ok_timeout [OF ok r(1), of e] find_ref [OF ok r(1)] by (simp add: expire_def)
  show "ir_ref r \<notin> ir_ref ` set (sk_inflight (expire e (ir_ref r) s))"
  proof (cases "ir_on_timeout r")
    case None
    have "ir_ref r \<notin> ir_ref ` set (swap_pop (ir_ref r) (sk_inflight s))"
      using destroy_perm(3) [OF ok r(1)] ok by (simp add: rpc_ok_def rpc_core_def refs_ok_def)
    then show ?thesis
      by (simp add: ex None call_timeout_def destroy_request_def nd)
  next
    case (Some c)
    then have "ir_ref r \<in> set (called (sk_trace (expire e (ir_ref r) s)))"
      using called_mem(1) [OF call] by blast
    then show ?thesis
      using ok' unfolding rpc_ok_def rpc_core_def refs_ok_def by auto
  qed
qed

text \<open>All expiries but the last one send the request again.\<close>

lemma resent_fields:
  "ir_ref (resent k t r) = ir_ref r" "ir_sent (resent k t r) = ir_sent r + 1" "ir_retries (resent k t r) = ir_retries r"
  "ir_on_timeout (resent k t r) = ir_on_timeout r" "ir_tid (resent k t r) = ir_tid r" "ir_buffer (resent k t r) = ir_buffer r"
  "ir_to (resent k t r) = ir_to r"
  by (simp_all add: resent_def)

lemma expire_retries:
  assumes "rpc_ok plain s" and "r \<in> set (sk_inflight s)" and "\<not> sk_closing s" and "int n \<le> ir_retries r + 1 - ir_sent r"
  shows "\<exists>x. x \<in> set (sk_inflight ((expire e (ir_ref r) ^^ n) s)) \<and> ir_ref x = ir_ref r \<and> ir_sent x = ir_sent r + int n \<and>
      ir_retries x = ir_retries r \<and> ir_on_timeout x = ir_on_timeout r \<and> ir_tid x = ir_tid r \<and>
    rpc_ok plain ((expire e (ir_ref r) ^^ n) s) \<and> \<not> sk_closing ((expire e (ir_ref r) ^^ n) s) \<and>
    sk_trace ((expire e (ir_ref r) ^^ n) s) = sk_trace s @ replicate n (Sent (ir_buffer r) (ir_to r) (active_socket s))"
  using assms
proof (induction n arbitrary: s r)
  case 0
  then show ?case
    by (intro exI [of _ r]) simp
next
  case (Suc n)
  then have "ir_sent r \<le> ir_retries r"
    by simp
  then obtain t where t: "resent (en_now e) t r \<in> set (sk_inflight (expire e (ir_ref r) s))"
    "sk_trace (expire e (ir_ref r) s) = sk_trace s @ [Sent (ir_buffer r) (ir_to r) (active_socket s)]"
    "rpc_ok plain (expire e (ir_ref r) s)" "\<not> sk_closing (expire e (ir_ref r) s)"
    "active_socket (expire e (ir_ref r) s) = active_socket s"
    by (rule expire_retry [OF Suc.prems(1,2) _ Suc.prems(3), where e = e])
  have "(expire e (ir_ref r) ^^ Suc n) s = (expire e (ir_ref r) ^^ n) (expire e (ir_ref r) s)"
    by (simp add: funpow_swap1)
  moreover have "replicate (Suc n) ev = [ev] @ replicate n ev" for ev :: RpcEvent
    by simp
  ultimately show ?case
    using Suc.IH [OF t(3,1,4)] Suc.prems(4) t(2,5) by (simp only: resent_fields) (auto simp: algebra_simps)
qed

section \<open>Transaction ids\<close>

fun alloc_tids :: "nat \<Rightarrow> RpcSocket \<Rightarrow> u16 list" where
  "alloc_tids 0 s = []"
| "alloc_tids (Suc n) s = fst (alloc_tid s) # alloc_tids n (snd (alloc_tid s))"

definition tid_succ :: "u16 \<Rightarrow> u16" where
  "tid_succ t = (if t + 1 = 0 then 1 else t + 1)"

lemma unat_tid_succ:
  assumes "t \<noteq> 0"
  shows "unat (tid_succ t) = 1 + unat t mod 65535" "tid_succ t \<noteq> 0"
proof -
  have b: "unat t < 65536"
    using unsigned_less [of t] by simp
  have u: "unat (t + 1) = (unat t + 1) mod 65536"
    by (simp add: unat_word_ariths)
  have z: "t + 1 = 0 \<longleftrightarrow> unat t = 65535"
  proof -
    have "t + 1 = 0 \<longleftrightarrow> unat (t + 1) = 0"
      by (simp add: unat_eq_zero)
    then show ?thesis
      using b unfolding u by (auto simp: mod_Suc)
  qed
  show "unat (tid_succ t) = 1 + unat t mod 65535"
    using b u z by (auto simp: tid_succ_def mod_Suc)
  show "tid_succ t \<noteq> 0"
    by (simp add: tid_succ_def)
qed

lemma unat_tid_iterate:
  assumes "t \<noteq> 0"
  shows "unat ((tid_succ ^^ i) t) = 1 + (unat t - 1 + i) mod 65535 \<and> (tid_succ ^^ i) t \<noteq> 0"
proof (induction i)
  case 0
  have "unat t < 65536" "unat t \<noteq> 0"
    using unsigned_less [of t] assms by (simp_all add: unat_eq_zero)
  then show ?case
    using assms by simp
next
  case (Suc i)
  then show ?case
    using unat_tid_succ [of "(tid_succ ^^ i) t"] by (simp add: mod_Suc_eq)
qed

lemma alloc_tids_iterate: "alloc_tids n s = map (\<lambda>i. (tid_succ ^^ i) (sk_next_tid s)) [0..<n]"
proof (induction n arbitrary: s)
  case (Suc n)
  have "sk_next_tid (snd (alloc_tid s)) = tid_succ (sk_next_tid s)" "fst (alloc_tid s) = sk_next_tid s"
    by (simp_all add: alloc_tid_def tid_succ_def Let_def)
  then show ?case
    unfolding upt_conv_Cons [OF zero_less_Suc] by (simp add: Suc funpow_swap1 map_Suc_upt [symmetric] o_def del: upt_Suc)
qed simp

lemma mod_window_inj:
  fixes a i j m :: nat
  assumes "(a + i) mod m = (a + j) mod m" and "i \<le> j" and "j < m"
  shows "i = j"
proof -
  have "m dvd (a + j) - (a + i)"
    using assms(1,2) by (metis add_le_cancel_left mod_eq_dvd_iff_nat)
  then show ?thesis
    using assms(2,3) by (auto dest: dvd_imp_le)
qed

section \<open>An exchange\<close>

lemma upd_ref_other: "ref \<notin> ir_ref ` set rs \<Longrightarrow> upd_ref ref f rs = rs"
  by (auto simp: upd_ref_def intro!: map_idI)

lemma send_now_inflight:
  assumes "\<not> ir_destroyed r" and "\<not> sk_closing s" and "ir_ref r \<notin> ir_ref ` set (sk_inflight s)"
  obtains t where "sk_inflight (send_now e r (s\<lparr>sk_inflight := sk_inflight s @ [r]\<rparr>)) = sk_inflight s @ [resent (en_now e) t r]"
    "sk_trace (send_now e r (s\<lparr>sk_inflight := sk_inflight s @ [r]\<rparr>)) = sk_trace s @ [Sent (ir_buffer r) (ir_to r) (active_socket s)]"
proof -
  let ?s = "s\<lparr>sk_inflight := sk_inflight s @ [r]\<rparr>"
  obtain t where t: "send_now e r ?s = ?s\<lparr>sk_congestion := cw_send (sk_congestion ?s),
    sk_trace := sk_trace ?s @ [Sent (ir_buffer r) (ir_to r) (active_socket ?s)],
    sk_inflight := upd_ref (ir_ref r) (resent (en_now e) t) (sk_inflight ?s)\<rparr>"
    by (rule send_now_eq [where s = ?s and r = r and e = e]) (use assms(1,2) in simp_all)
  have "upd_ref (ir_ref r) (resent (en_now e) t) (sk_inflight s @ [r]) = sk_inflight s @ [resent (en_now e) t r]"
    using upd_ref_other [OF assms(3), of "resent (en_now e) t"] by (simp add: upd_ref_def)
  then show ?thesis
    using that [of t] unfolding t by (simp add: active_socket_def)
qed

lemma request_inflight:
  assumes ok: "rpc_ok plain s"
  shows "\<exists>rs. sk_inflight (snd (request e req tmo retries c d s)) = sk_inflight s @ rs"
proof (cases "sk_closing s")
  case False
  let ?s = "(snd (alloc_tid s))\<lparr>sk_next_ref := Suc (sk_next_ref s)\<rparr>"
  let ?r = "new_request (sk_next_ref s) (req\<lparr>rq_tid := fst (alloc_tid s)\<rparr>) tmo retries c d"
  have s: "sk_inflight ?s = sk_inflight s" "sk_closing ?s = sk_closing s"
    by (simp_all add: alloc_tid_def Let_def)
  have "ir_ref ?r \<notin> ir_ref ` set (sk_inflight s)" "\<not> ir_destroyed ?r"
    using ok unfolding rpc_ok_def rpc_core_def refs_ok_def by (auto simp: new_request_def)
  then obtain t where "sk_inflight (send_now e ?r (?s\<lparr>sk_inflight := sk_inflight s @ [?r]\<rparr>)) = sk_inflight s @ [resent (en_now e) t ?r]"
    using send_now_inflight [of ?r ?s e] False unfolding s by metis
  moreover have "sk_inflight (snd (alloc_tid s)) = sk_inflight s"
    by (simp add: alloc_tid_def Let_def)
  ultimately show ?thesis
    unfolding request_cases [OF False] by auto
qed (simp add: request_def)

lemma find_inflight_append: "find_inflight rs tid = Some r \<Longrightarrow> find_inflight (rs @ rs') tid = Some r"
  by (induction rs) (auto split: if_splits)

lemma inflight_reping:
  assumes "rpc_ok plain s" and "sk_repinging s < MAX_REPINGING" and "length (node_id oldest) = 32"
  shows "\<exists>rs. sk_inflight (reping_and_swap e n oldest s) = sk_inflight s @ rs"
proof -
  let ?s = "mark_pinged (node_id oldest) s"
  have "rpc_ok plain (?s\<lparr>sk_repinging := sk_repinging ?s + 1\<rparr>)"
    using assms by (intro rpc_ok_repinging rpc_ok_mark_pinged) simp_all
  from request_inflight [OF this, of e] show ?thesis
    by (simp add: reping_and_swap_def Let_def)
qed

lemma inflight_table_add:
  assumes ok: "rpc_ok plain s" and n: "authentic plain n"
  shows "\<exists>rs. sk_inflight (table_add e n s) = sk_inflight s @ rs"
proof -
  obtain b t full where add: "RoutingTable_add (sk_table s) n = (b, t, full)"
    by (cases "RoutingTable_add (sk_table s) n") auto
  have t: "rpc_ok plain (s\<lparr>sk_table := t\<rparr>)"
    using rpc_ok_table [OF ok table_auth_insert [OF rpc_ok_auth(1) [OF ok] n]] by (simp add: add)
  have "\<exists>rs. sk_inflight (on_bucket_full e i n (s\<lparr>sk_table := t\<rparr>)) = sk_inflight s @ rs" if "i < ID_BITS" for i
    using inflight_reping [OF t _ oldest_member [OF rpc_ok_auth(2) [OF t] that]]
    by (simp add: on_bucket_full_def Let_def split: option.split)
  then show ?thesis
    using add_full_index [of "sk_table s" n b t] add by (cases full) (auto simp: table_add_def)
qed

lemma inflight_add_node:
  assumes "rpc_ok plain s" and "hash32 plain" and "length (ip_host src) = 4"
  shows "\<exists>rs. sk_inflight (add_node_from_network e (compute_peer_id plain src) src s) = sk_inflight s @ rs"
  using inflight_table_add [OF assms(1) authentic_from_network [OF assms(2,3)]]
  by (simp add: add_node_from_network_def)

lemma trace_response [simp]: "ev \<in> set (sk_trace s) \<Longrightarrow> ev \<in> set (sk_trace (run_response e c resp s))"
  by (cases c) (auto simp: do_swap_def session_detach_def emit_event_def Let_def split: option.split)

text \<open>A response with the transaction id of a request in flight reaches the callback of that request.\<close>

lemma match_delivers:
  assumes "find_inflight (sk_inflight s) (rs_tid resp) = Some r" "ir_on_response r = Some c" "\<not> ir_destroyed r"
  shows "ResponseCalled (ir_ref r) c resp \<in> set (sk_trace (match_response e resp s))"
  using assms by (simp add: match_response_def Let_def call_response_def emit_event_def)

lemma sessions_frame [simp]: "sk_sessions (add_node_from_network e nid src s) = sk_sessions s"
proof -
  have "sk_sessions (snd (request e req tmo retries c d s')) = sk_sessions s'" for req tmo retries c d s'
    by (simp add: request_def Let_def alloc_tid_def send_now_def udp_send_def udp_send_on_def emit_event_def)
  then show ?thesis
    by (simp add: add_node_from_network_def table_add_def on_bucket_full_def reping_and_swap_def mark_pinged_def Let_def
        split: prod.split option.split)
qed

lemma response_matched:
  assumes ok: "rpc_ok plain s" and h: "hash32 plain" and e: "en_plain e = plain" and cl: "\<not> sk_closing s"
    and resp: "Response_ok resp" and r: "find_inflight (sk_inflight s) (rs_tid resp) = Some r"
  obtains s' nid where "on_recv_client e (encode_response resp) addr s = match_response e ((response_received resp)\<lparr>rs_id := nid\<rparr>) s'"
    and "find_inflight (sk_inflight s') (rs_tid resp) = Some r" and "sk_sessions s' = sk_sessions s"
proof -
  define src where "src = addr_of_sockaddr e addr"
  define s1 where "s1 = s\<lparr>sk_nat_sampler := snd (NatSampler_add (sk_nat_sampler s) (rs_from resp) src)\<rparr>"
  define same where "same \<longleftrightarrow> rs_id resp = Some (compute_peer_id plain src)"
  define s2 where "s2 = (if same then add_node_from_network e (compute_peer_id plain src) src s1 else s1)"
  define resp' where "resp' = (if same then response_received resp else (response_received resp)\<lparr>rs_id := None\<rparr>)"
  have d: "decode_message (encode_response resp) Request_init Response_init = (RESPONSE_ID, Request_init, response_received resp)"
    by (rule decode_encoded_response [OF resp])
  have "2 \<le> length (encode_response resp)"
    using d by (auto simp: decode_message_def RESPONSE_ID_def split: if_splits)
  then have "on_recv_client e (encode_response resp) addr s = handle_response e (response_received resp) addr s"
    using cl by (auto simp: on_recv_client_def handle_message_def d REQUEST_ID_def RESPONSE_ID_def)
  also have "\<dots> = match_response e resp' s2"
    by (simp add: handle_response_def Let_def e s2_def s1_def same_def resp'_def src_def response_received_def)
  finally have eq: "on_recv_client e (encode_response resp) addr s = match_response e resp' s2" .
  obtain rs where "sk_inflight (add_node_from_network e (compute_peer_id plain src) src s1) = sk_inflight s1 @ rs"
    using inflight_add_node [of plain s1 src e] ok h by (auto simp: s1_def src_def)
  then have "find_inflight (sk_inflight s2) (rs_tid resp) = Some r"
    using r find_inflight_append [OF r] by (simp add: s2_def s1_def resp'_def response_received_def)
  moreover obtain nid where "resp' = (response_received resp)\<lparr>rs_id := nid\<rparr>"
    by (metis (full_types) Response.surjective Response.update_convs(4) resp'_def)
  ultimately show thesis
    using that [of nid s2] eq by (simp add: s2_def s1_def)
qed

lemma response_delivered:
  assumes ok: "rpc_ok plain s" and "hash32 plain" "en_plain e = plain" "\<not> sk_closing s" "Response_ok resp"
    and r: "find_inflight (sk_inflight s) (rs_tid resp) = Some r" "ir_on_response r = Some c"
  shows "\<exists>nid. ResponseCalled (ir_ref r) c ((response_received resp)\<lparr>rs_id := nid\<rparr>) \<in>
    set (sk_trace (on_recv_client e (encode_response resp) addr s))"
proof -
  obtain s' nid where m: "on_recv_client e (encode_response resp) addr s = match_response e ((response_received resp)\<lparr>rs_id := nid\<rparr>) s'"
      "find_inflight (sk_inflight s') (rs_tid resp) = Some r"
    using response_matched [OF assms(1-6)] by blast
  moreover have "\<not> ir_destroyed r"
    using rpc_ok_req [OF ok] find_inflight_Some [OF r(1)] by (simp add: req_ok_def)
  ultimately have "ResponseCalled (ir_ref r) c ((response_received resp)\<lparr>rs_id := nid\<rparr>) \<in> set (sk_trace (on_recv_client e (encode_response resp) addr s))"
    using match_delivers [of s' "(response_received resp)\<lparr>rs_id := nid\<rparr>" r c] r(2) by (simp add: response_received_def)
  then show ?thesis
    by blast
qed

lemma on_request_frame [simp]: "sk_on_request (add_node_from_network e nid src s) = sk_on_request s"
proof -
  have "sk_on_request (snd (request e req tmo retries c d s')) = sk_on_request s'" for req tmo retries c d s'
    by (simp add: request_def Let_def alloc_tid_def send_now_def udp_send_def udp_send_on_def emit_event_def)
  then show ?thesis
    by (simp add: add_node_from_network_def table_add_def on_bucket_full_def reping_and_swap_def mark_pinged_def Let_def
        split: prod.split option.split)
qed

lemma request_delivered:
  assumes "Request_ok req" and "\<not> sk_closing s" and "sk_on_request s"
  shows "RequestCalled ((request_received req)\<lparr>rq_from := addr_of_sockaddr e addr\<rparr>) \<in>
    set (sk_trace (on_recv_client e (encode_request req) addr s))"
proof -
  have d: "decode_message (encode_request req) Request_init Response_init = (REQUEST_ID, request_received req, Response_init)"
    by (rule decode_encoded_request [OF assms(1)])
  have "2 \<le> length (encode_request req)"
    using d by (auto simp: decode_message_def REQUEST_ID_def split: if_splits)
  then have "on_recv_client e (encode_request req) addr s = handle_request e (request_received req) addr False s"
    using assms(2) by (auto simp: on_recv_client_def handle_message_def d)
  then show ?thesis
    using assms(3) by (auto simp: handle_request_def Let_def emit_event_def request_received_def split: option.split)
qed

lemma request_sends:
  fixes e req tmo retries c d
  assumes ok: "rpc_ok plain s" and cl: "\<not> sk_closing s" and full: "\<not> cw_is_full (sk_congestion s)"
    and fresh: "find_inflight (sk_inflight s) (sk_next_tid s) = None"
  defines "q \<equiv> request e req tmo retries c d s" and "msg \<equiv> req\<lparr>rq_tid := sk_next_tid s\<rparr>"
  shows "fst q = sk_next_tid s" and "Sent (encode_request msg) (rq_to req) (active_socket s) \<in> set (sk_trace (snd q))"
    and "\<not> sk_closing (snd q)"
    and "\<exists>r. find_inflight (sk_inflight (snd q)) (sk_next_tid s) = Some r \<and> ir_ref r = sk_next_ref s \<and> ir_on_response r = c"
proof -
  let ?s = "(snd (alloc_tid s))\<lparr>sk_next_ref := Suc (sk_next_ref s)\<rparr>"
  let ?r = "new_request (sk_next_ref s) msg tmo retries c d"
  have tid: "fst (alloc_tid s) = sk_next_tid s" and s: "sk_inflight ?s = sk_inflight s" "sk_closing ?s = sk_closing s"
    "sk_trace ?s = sk_trace s" "active_socket ?s = active_socket s"
    by (simp_all add: alloc_tid_def Let_def active_socket_def)
  have q: "q = (sk_next_tid s, send_now e ?r (?s\<lparr>sk_inflight := sk_inflight s @ [?r]\<rparr>))"
    using full unfolding q_def msg_def request_cases [OF cl] tid by simp
  have "ir_ref ?r \<notin> ir_ref ` set (sk_inflight s)" and nd: "\<not> ir_destroyed ?r"
    using ok unfolding rpc_ok_def rpc_core_def refs_ok_def by (auto simp: new_request_def)
  then obtain t where t: "sk_inflight (snd q) = sk_inflight s @ [resent (en_now e) t ?r]"
    "sk_trace (snd q) = sk_trace s @ [Sent (ir_buffer ?r) (ir_to ?r) (active_socket s)]"
    using send_now_inflight [of ?r ?s e] cl unfolding s q snd_conv by metis
  show "fst q = sk_next_tid s" "\<not> sk_closing (snd q)"
    using cl by (simp_all add: q alloc_tid_def Let_def)
  show "Sent (encode_request msg) (rq_to req) (active_socket s) \<in> set (sk_trace (snd q))"
    unfolding t by (simp add: new_request_def msg_def)
  have "find_inflight (rs @ [x]) y = Some x" if "find_inflight rs y = None" "ir_tid x = y" for rs x y
    using that by (induction rs) (auto split: if_splits)
  from this [OF fresh, of "resent (en_now e) t ?r"]
  show "\<exists>r. find_inflight (sk_inflight (snd q)) (sk_next_tid s) = Some r \<and> ir_ref r = sk_next_ref s \<and> ir_on_response r = c"
    unfolding t by (simp add: new_request_def msg_def)
qed

section \<open>Properties\<close>

definition zero_hash :: plain_hash where
  "zero_hash m = replicate 32 0"

definition demo_rpc_env :: RpcEnv where
  "demo_rpc_env = \<lparr>en_now = 7, en_plain = zero_hash, en_filter_node = None, en_ip4_name = Ipv4_host_string,
     en_client_port = 1000, en_server_port = 1001, en_first = (\<lambda>_. 0)\<rparr>"

definition demo_socket :: RpcSocket where
  "demo_socket = RpcSocket_new (replicate 32 1) (TokenStore_new (replicate 32 0) (replicate 32 0)) 5"

definition demo_peer :: Ipv4Address where
  "demo_peer = \<lparr>ip_host = [1, 2, 3, 4], ip_port = 5\<rparr>"

definition demo_sent :: RpcSocket where
  "demo_sent = snd (request demo_rpc_env Request_init 0 2 (Some (OnUser 1)) (Some (OnUser 2)) demo_socket)"

lemma zero_hash32: "hash32 zero_hash"
  by (simp add: hash32_def zero_hash_def)

lemma demo_plain: "en_plain demo_rpc_env = zero_hash"
  by (simp add: demo_rpc_env_def)

lemma rpc_demo_run: "rpc_run zero_hash demo_socket" "rpc_run zero_hash demo_sent"
  by (auto simp: demo_socket_def demo_sent_def user_callback_def intro!: rpc_run.intros)

lemma demo_socket_idle: "\<not> sk_closing demo_socket" "\<not> cw_is_full (sk_congestion demo_socket)" "sk_inflight demo_socket = []"
  "sk_next_tid demo_socket = 5" "sk_next_ref demo_socket = 0"
  by (simp_all add: demo_socket_def RpcSocket_new_def cw_is_full_def CongestionWindow_new_def DEFAULT_MAX_WINDOW_def)

lemma demo_inflight: "\<exists>t. sk_inflight demo_sent = [resent 7 t (new_request 0 (Request_init\<lparr>rq_tid := 5\<rparr>) 0 2 (Some (OnUser 1)) (Some (OnUser 2)))]"
proof -
  let ?r = "new_request 0 (Request_init\<lparr>rq_tid := 5\<rparr>) 0 2 (Some (OnUser 1)) (Some (OnUser 2))"
  let ?s = "(snd (alloc_tid demo_socket))\<lparr>sk_next_ref := Suc 0\<rparr>"
  have s: "sk_inflight ?s = []" "fst (alloc_tid demo_socket) = 5" "\<not> sk_closing ?s"
    by (simp_all add: alloc_tid_def Let_def demo_socket_idle)
  have "demo_sent = send_now demo_rpc_env ?r (?s\<lparr>sk_inflight := sk_inflight ?s @ [?r]\<rparr>)"
    unfolding demo_sent_def request_cases [OF demo_socket_idle(1)] by (simp add: demo_socket_idle s)
  moreover have "en_now demo_rpc_env = 7"
    by (simp add: demo_rpc_env_def)
  ultimately show ?thesis
    using send_now_inflight [of ?r ?s demo_rpc_env] s by (auto simp: new_request_def)
qed

text \<open>C21. Whatever datagrams arrive, and in whatever order the socket is used, every node in the routing table has the id that
  is the hash of its own address: a peer cannot choose its place in the key space, neither by a direct message nor through
  ping-and-swap, nor when the table is rebuilt under a new id.\<close>

theorem rpc_table_authentic:
  assumes "hash32 plain" and "rpc_run plain s" and "n \<in> nodes_of (sk_table s)"
  shows "node_id n = compute_peer_id plain (Ipv4_from_string (node_host n) (node_port n)) \<and> table_ok (sk_table s)"
  using rpc_run_ok [OF assms(2,1)] assms(3) by (simp add: rpc_ok_def rpc_core_def table_auth_def authentic_def)

definition demo_known :: RpcSocket where
  "demo_known = on_recv_client demo_rpc_env (encode_request (Request_init\<lparr>rq_id := Some (replicate 32 0)\<rparr>)) demo_peer demo_socket"

lemma demo_known_run: "rpc_run zero_hash demo_known"
  using rpc_demo_run by (auto simp: demo_known_def demo_plain intro: rpc_run.intros)

lemma demo_known_node: "node_from_network 0 (replicate 32 0) demo_peer \<in> nodes_of (sk_table demo_known)"
proof -
  let ?req = "Request_init\<lparr>rq_id := Some (replicate 32 0)\<rparr>" and ?n = "node_from_network 0 (replicate 32 0) demo_peer"
  have d: "decode_message (encode_request ?req) Request_init Response_init = (REQUEST_ID, request_received ?req, Response_init)"
    by (rule decode_encoded_request) (simp add: Request_ok_def Request_init_def Ipv4Address_init_def opt_all_def)
  have src: "addr_of_sockaddr demo_rpc_env demo_peer = demo_peer"
    using Ipv4_from_host_string [of demo_peer 5] by (simp add: addr_of_sockaddr_def demo_rpc_env_def demo_peer_def)
  have "2 \<le> length (encode_request ?req)"
    using d by (auto simp: decode_message_def REQUEST_ID_def split: if_splits)
  then have "demo_known = handle_request demo_rpc_env (request_received ?req) demo_peer False demo_socket"
    using demo_socket_idle(1) by (auto simp: demo_known_def on_recv_client_def handle_message_def d)
  also have "\<dots> = add_node_from_network demo_rpc_env (replicate 32 0) demo_peer demo_socket"
    by (simp add: handle_request_def Let_def src request_received_def compute_peer_id_def demo_plain zero_hash_def)
       (simp add: demo_socket_def RpcSocket_new_def)
  finally have k: "demo_known = add_node_from_network demo_rpc_env (replicate 32 0) demo_peer demo_socket" .
  have t: "sk_table demo_socket = (RoutingTable_new (replicate 32 1))\<lparr>rt_on_full := True\<rparr>" "sk_tick demo_socket = 0"
    by (simp_all add: demo_socket_def RpcSocket_new_def)
  have ok: "table_ok (sk_table demo_socket)" "nodes_of (sk_table demo_socket) = {}"
    by (simp_all add: t table_ok_new nodes_of_new)
  have get: "RoutingTable_get (sk_table demo_socket) (replicate 32 0) = None"
    using get_iff [OF ok(1), of "replicate 32 0"] ok(2) by (cases "RoutingTable_get (sk_table demo_socket) (replicate 32 0)") auto
  have ne: "replicate 32 (1 :: byte) \<noteq> replicate 32 0"
    by (simp add: replicate_eq_replicate)
  have room: "has_room (sk_table demo_socket) (replicate 32 0)"
    using bucket_index_less [of "replicate 32 1" "replicate 32 0"] ne
    by (simp add: has_room_def bucket_of_def t RoutingTable_new_def K_def)
  have acc: "fst (RoutingTable_add (sk_table demo_socket) ?n)"
    using add_cases(1) [OF ok(1), of ?n] get room ne by (simp add: node_from_network_def t RoutingTable_new_def)
  then have full: "snd (snd (RoutingTable_add (sk_table demo_socket) ?n)) = None"
    by (auto simp: RoutingTable_add_def Let_def split: if_splits prod.splits bool.splits)
  have "sk_table demo_known = table_insert (sk_table demo_socket) ?n"
    using full get by (cases "RoutingTable_add (sk_table demo_socket) ?n")
      (simp add: k add_node_from_network_def filter_accept_def demo_rpc_env_def t(2) table_add_def)
  then show ?thesis
    using add_cases(3) [OF ok(1), of ?n] acc by (simp add: node_from_network_def)
qed

theorem rpc_table_authentic_witness:
  "node_id (node_from_network 0 (replicate 32 0) demo_peer) =
     compute_peer_id zero_hash (Ipv4_from_string (Ipv4_host_string demo_peer) 5)"
  using rpc_table_authentic [OF zero_hash32 demo_known_run demo_known_node] by (simp add: node_from_network_def demo_peer_def)

text \<open>C22. A request calls at most one of its callbacks, and at most once: the requests whose callback ran are pairwise
  different, and none of them is still in flight or queued.\<close>

theorem rpc_callback_once:
  assumes "hash32 plain" and "rpc_run plain s"
  shows "distinct (called (sk_trace s) @ map ir_ref (sk_inflight s) @ map ir_ref (sk_pending s))"
  using rpc_run_ok [OF assms(2,1)] by (simp add: rpc_ok_def rpc_core_def refs_ok_def)

theorem rpc_callback_once_witness:
  "distinct (called (sk_trace demo_sent) @ map ir_ref (sk_inflight demo_sent) @ map ir_ref (sk_pending demo_sent))"
  by (rule rpc_callback_once [OF zero_hash32 rpc_demo_run(2)])

text \<open>C24. A request to a silent peer ends: every expiry of its timer sends its datagram again and nothing else, until it has been sent
  \<open>retries + 1\<close> times; the next expiry sends nothing, takes it out of the requests in flight and calls its timeout callback.\<close>

theorem rpc_silent_request_ends:
  assumes "hash32 plain" and "rpc_run plain s" and "r \<in> set (sk_inflight s)" and "\<not> sk_closing s"
  shows "let n = nat (ir_retries r + 1 - ir_sent r); s1 = (expire e (ir_ref r) ^^ n) s; s2 = expire e (ir_ref r) s1
    in (\<exists>x \<in> set (sk_inflight s1). ir_ref x = ir_ref r \<and> ir_sent x = ir_retries r + 1) \<and>
    sk_trace s1 = sk_trace s @ replicate n (Sent (ir_buffer r) (ir_to r) (active_socket s)) \<and>
    ir_ref r \<notin> ir_ref ` set (sk_inflight s2) \<and>
    (case ir_on_timeout r of
       None \<Rightarrow> sk_trace s2 = sk_trace s1
     | Some c \<Rightarrow> \<exists>more. sk_trace s2 = sk_trace s1 @ TimeoutCalled (ir_ref r) c (ir_tid r) # more)"
proof -
  note ok = rpc_run_ok [OF assms(2,1)]
  define n where "n = nat (ir_retries r + 1 - ir_sent r)"
  define s1 where "s1 = (expire e (ir_ref r) ^^ n) s"
  define s2 where "s2 = expire e (ir_ref r) s1"
  have n: "int n = ir_retries r + 1 - ir_sent r"
    using ok assms(3) by (simp add: n_def rpc_ok_def rpc_core_def reqs_ok_def)
  then obtain x where x: "x \<in> set (sk_inflight s1)" "ir_ref x = ir_ref r" "ir_sent x = ir_retries r + 1" "ir_retries x = ir_retries r"
      "ir_on_timeout x = ir_on_timeout r" "ir_tid x = ir_tid r" "rpc_ok plain s1" "\<not> sk_closing s1"
      "sk_trace s1 = sk_trace s @ replicate n (Sent (ir_buffer r) (ir_to r) (active_socket s))"
    using expire_retries [OF ok assms(3,4), of n e] by (auto simp: s1_def)
  then have "ir_retries x < ir_sent x"
    by simp
  note last = expire_last [OF x(7,1) this x(8), where e = e, unfolded x(2,5,6), folded s2_def]
  show ?thesis
    unfolding Let_def n_def [symmetric] s1_def [symmetric] s2_def [symmetric] using x last by (auto split: option.split)
qed

theorem rpc_silent_request_ends_witness:
  "\<exists>b to server more. sk_trace ((expire demo_rpc_env 0 ^^ 3) demo_sent) =
     sk_trace demo_sent @ [Sent b to server, Sent b to server] @ TimeoutCalled 0 (OnUser 2) 5 # more"
proof -
  obtain t where t: "sk_inflight demo_sent = [resent 7 t (new_request 0 (Request_init\<lparr>rq_tid := 5\<rparr>) 0 2 (Some (OnUser 1)) (Some (OnUser 2)))]"
    using demo_inflight by blast
  have "\<not> sk_closing demo_sent"
    using demo_socket_idle(1) by (simp add: demo_sent_def request_def Let_def alloc_tid_def)
  from rpc_silent_request_ends [OF zero_hash32 rpc_demo_run(2) _ this, of _ demo_rpc_env] show ?thesis
    by (force simp: t new_request_def Let_def eval_nat_numeral)
qed

text \<open>C25. The resources of a socket stay bounded: at most 640 queued requests, 1024 round-trip times and three concurrent
  ping-and-swaps, no request sent more than \<open>retries + 1\<close> times, a congestion total that is the sum of the four buckets, and
  timeouts between 200 and 5000 ms.\<close>

theorem rpc_resource_bounds:
  assumes "hash32 plain" and "rpc_run plain s"
  shows "length (sk_pending s) \<le> 640 \<and> length (sk_peer_rtt s) \<le> 1024 \<and> 0 \<le> sk_repinging s \<and> sk_repinging s \<le> 3 \<and>
    0 \<le> sk_checks s \<and> (\<forall>r \<in> set (sk_inflight s). 1 \<le> ir_sent r \<and> ir_sent r \<le> ir_retries r + 1) \<and>
    cw_total (sk_congestion s) = sum_list (cw_window (sk_congestion s)) \<and> 0 \<le> cw_total (sk_congestion s) \<and>
    200 \<le> timeout_for s peer \<and> timeout_for s peer \<le> 5000"
proof -
  note ok = rpc_run_ok [OF assms(2,1)]
  have "0 \<le> sk_repinging s" "0 \<le> sk_checks s"
    using rpc_ok_countsD [OF ok] counts_nonneg [of "sk_inflight s"] counts_nonneg [of "sk_pending s"] by linarith+
  moreover have "0 \<le> cw_total (sk_congestion s)"
    using ok by (auto simp: rpc_ok_def rpc_core_def cw_ok_def intro: sum_list_nonneg)
  moreover have "200 \<le> timeout_for s peer \<and> timeout_for s peer \<le> 5000"
    by (auto simp: timeout_for_def Let_def DEFAULT_TIMEOUT_MS_def not_less split: option.split)
  ultimately show ?thesis
    using ok by (simp add: rpc_ok_def rpc_core_def reqs_ok_def counts_ok_def rtt_ok_def cw_ok_def MAX_PENDING_def
        MAX_PEER_RTT_ENTRIES_def MAX_REPINGING_def)
qed

theorem rpc_resource_bounds_witness:
  "length (sk_pending demo_sent) \<le> 640 \<and> sk_repinging demo_sent \<le> 3 \<and> 200 \<le> timeout_for demo_sent demo_peer"
  using rpc_resource_bounds [OF zero_hash32 rpc_demo_run(2), of demo_peer] by simp

lemma transition_ephemeral: "\<not> sk_ephemeral (do_persistent_transition e s)"
  by (simp add: do_persistent_transition_def emit_event_def Let_def)

text \<open>A node turns persistent only after its server port was reached: at least three different hosts (one if fewer than
  five nodes were probed) sent a datagram to the server socket during the firewall probe.  And a probe makes the node
  persistent exactly when it ran, enough hosts replied and the NAT kept the port of the client socket.\<close>

lemma rpc_persistent_reachable:
  assumes "hash32 plain" and "rpc_run plain s"
  shows "(\<not> sk_ephemeral s \<longrightarrow>
      distinct (fp_replied_hosts (sk_probe s)) \<and> probe_threshold s \<le> length (fp_replied_hosts (sk_probe s))) \<and>
    (sk_ephemeral s \<longrightarrow> (\<not> sk_ephemeral (finish_firewall_probe e s) \<longleftrightarrow>
      fp_running (sk_probe s) \<and> probe_threshold s \<le> length (fp_replied_hosts (sk_probe s)) \<and>
      (ns_port (sk_nat_sampler s) = 0 \<or> ns_port (sk_nat_sampler s) = en_client_port e)))"
proof
  show "\<not> sk_ephemeral s \<longrightarrow>
      distinct (fp_replied_hosts (sk_probe s)) \<and> probe_threshold s \<le> length (fp_replied_hosts (sk_probe s))"
    using rpc_run_ok [OF assms(2,1)] by (simp add: rpc_ok_def rpc_core_def probe_ok_def probe_threshold_def)
  show "sk_ephemeral s \<longrightarrow> (\<not> sk_ephemeral (finish_firewall_probe e s) \<longleftrightarrow>
      fp_running (sk_probe s) \<and> probe_threshold s \<le> length (fp_replied_hosts (sk_probe s)) \<and>
      (ns_port (sk_nat_sampler s) = 0 \<or> ns_port (sk_nat_sampler s) = en_client_port e))"
    by (auto simp: finish_firewall_probe_def transition_ephemeral probe_threshold_def Let_def Suc_le_eq)
qed

text \<open>C23. A request and its answer: the datagram a socket sends reaches the request handler of the peer with the fields the
  caller gave, and a response with the same transaction id reaches the callback of exactly that request.\<close>

theorem rpc_exchange:
  assumes "hash32 plain" and "rpc_run plain s" and "\<not> sk_closing s" and "\<not> cw_is_full (sk_congestion s)"
    and "find_inflight (sk_inflight s) (sk_next_tid s) = None" and "Request_ok req" and "0 \<le> retries"
    and "user_callback (Some c)" and "user_callback d" and "en_plain e = plain"
    and "Response_ok resp" and "rs_tid resp = sk_next_tid s" and "\<not> sk_closing peer" and "sk_on_request peer"
  shows "let (tid, s') = request e req tmo retries (Some c) d s; msg = req\<lparr>rq_tid := tid\<rparr>
    in Sent (encode_request msg) (rq_to req) (active_socket s) \<in> set (sk_trace s') \<and>
       RequestCalled ((request_received msg)\<lparr>rq_from := addr_of_sockaddr e' a\<rparr>) \<in>
         set (sk_trace (on_recv_client e' (encode_request msg) a peer)) \<and>
       (\<exists>nid. ResponseCalled (sk_next_ref s) c ((response_received resp)\<lparr>rs_id := nid\<rparr>) \<in>
         set (sk_trace (on_recv_client e (encode_response resp) b s')))"
proof -
  let ?q = "request e req tmo retries (Some c) d s"
  note ok = rpc_run_ok [OF assms(2,1)]
  note sends = request_sends [OF ok assms(3,4,5), where e = e and req = req and tmo = tmo and retries = retries and c = "Some c" and d = d]
  have ok': "rpc_ok plain (snd ?q)"
    by (rule rpc_run_ok [OF rpc_run.request [OF assms(2,8,9,7)] assms(1)])
  obtain r where "find_inflight (sk_inflight (snd ?q)) (rs_tid resp) = Some r" "ir_ref r = sk_next_ref s" "ir_on_response r = Some c"
    using sends(4) assms(12) by auto
  then have "\<exists>nid. ResponseCalled (sk_next_ref s) c ((response_received resp)\<lparr>rs_id := nid\<rparr>) \<in>
      set (sk_trace (on_recv_client e (encode_response resp) b (snd ?q)))"
    using response_delivered [OF ok' assms(1,10) sends(3) assms(11)] by metis
  moreover have "Request_ok (req\<lparr>rq_tid := sk_next_tid s\<rparr>)"
    using assms(6) by (simp add: Request_ok_def)
  ultimately show ?thesis
    using sends(1,2) request_delivered [OF _ assms(13,14)] by (cases ?q) simp
qed

theorem rpc_exchange_witness:
  "RequestCalled ((request_received (Request_init\<lparr>rq_tid := 5\<rparr>))\<lparr>rq_from := addr_of_sockaddr demo_rpc_env demo_peer\<rparr>) \<in>
     set (sk_trace (on_recv_client demo_rpc_env (encode_request (Request_init\<lparr>rq_tid := 5\<rparr>)) demo_peer
       (configure True False False False False 0 demo_socket)))"
proof -
  let ?resp = "Response_init\<lparr>rs_tid := 5\<rparr>" and ?peer = "configure True False False False False 0 demo_socket"
  let ?q = "request demo_rpc_env Request_init 0 2 (Some (OnUser 1)) (Some (OnUser 2)) demo_socket"
  have fresh: "find_inflight (sk_inflight demo_socket) (sk_next_tid demo_socket) = None"
    by (simp add: demo_socket_idle)
  have r: "Request_ok Request_init" "Response_ok ?resp" "rs_tid ?resp = sk_next_tid demo_socket"
    by (simp_all add: Request_ok_def Request_init_def Ipv4Address_init_def opt_all_def Response_ok_def Response_init_def demo_socket_idle)
  have c: "user_callback (Some (OnUser 1))" "user_callback (Some (OnUser 2))" "0 \<le> (2 :: int)"
    by (simp_all add: user_callback_def)
  have peer: "\<not> sk_closing ?peer" "sk_on_request ?peer"
    by (simp_all add: configure_def demo_socket_idle)
  have tid: "fst ?q = 5"
    using demo_socket_idle by (simp add: request_def Let_def alloc_tid_def)
  show ?thesis
    using rpc_exchange [OF zero_hash32 rpc_demo_run(1) demo_socket_idle(1,2) fresh r(1) c(3,1,2) demo_plain r(2,3) peer,
        of 0 demo_rpc_env demo_peer demo_peer] tid by (simp add: Let_def split: prod.splits)
qed

text \<open>When the congestion window is full and 640 requests are queued, a request is dropped without a trace: the call
  returns 0, nothing is sent or queued, and neither callback will ever run.  A ping-and-swap or a node check dropped this
  way still counts as running, for good.\<close>

lemma rpc_full_queue_drops:
  assumes "\<not> sk_closing s" and "cw_is_full (sk_congestion s)" and "640 \<le> length (sk_pending s)"
  shows "fst (request e req tmo retries c d s) = 0 \<and> sk_inflight (snd (request e req tmo retries c d s)) = sk_inflight s \<and>
    sk_pending (snd (request e req tmo retries c d s)) = sk_pending s \<and> sk_trace (snd (request e req tmo retries c d s)) = sk_trace s \<and>
    sk_repinging (reping_and_swap e n oldest s) = sk_repinging s + 1 \<and> sk_inflight (reping_and_swap e n oldest s) = sk_inflight s \<and>
    sk_pending (reping_and_swap e n oldest s) = sk_pending s"
  using assms by (simp add: request_def Let_def alloc_tid_def MAX_PENDING_def reping_and_swap_def mark_pinged_def)

text \<open>Requests sent one after the other fill the window.\<close>

definition demo_requests :: "nat \<Rightarrow> RpcSocket" where
  "demo_requests n = ((\<lambda>s. snd (request_default demo_rpc_env Request_init None None s)) ^^ n) demo_socket"

lemma demo_requests_sent:
  assumes "n \<le> 80"
  shows "rpc_run zero_hash (demo_requests n) \<and> \<not> sk_closing (demo_requests n) \<and> sk_pending (demo_requests n) = [] \<and>
    sk_next_tid (demo_requests n) = of_nat (5 + n) \<and> sk_congestion (demo_requests n) = \<lparr>cw_i = 0, cw_total = int n, cw_window = [int n, 0, 0, 0], cw_max_window = 80\<rparr> \<and>
    (\<forall>r \<in> set (sk_inflight (demo_requests n)). unat (ir_tid r) < 5 + n)"
  using assms
proof (induction n)
  case 0
  then show ?case
    using rpc_demo_run(1)
    by (simp add: demo_requests_def) (simp add: demo_socket_def RpcSocket_new_def CongestionWindow_new_def DEFAULT_MAX_WINDOW_def eval_nat_numeral)
next
  case (Suc n)
  let ?s = "demo_requests n"
  let ?r = "new_request (sk_next_ref ?s) (Request_init\<lparr>rq_tid := of_nat (5 + n)\<rparr>) 0 DEFAULT_RETRIES None None"
  have IH: "rpc_run zero_hash ?s" "\<not> sk_closing ?s" "sk_pending ?s = []" "sk_next_tid ?s = of_nat (5 + n)"
    "sk_congestion ?s = \<lparr>cw_i = 0, cw_total = int n, cw_window = [int n, 0, 0, 0], cw_max_window = 80\<rparr>"
    "\<forall>r \<in> set (sk_inflight ?s). unat (ir_tid r) < 5 + n"
    using Suc by simp_all
  have step: "demo_requests (Suc n) = snd (request_default demo_rpc_env Request_init None None ?s)"
    by (simp add: demo_requests_def)
  have tid: "unat (of_nat (5 + n) :: u16) = 5 + n" "(of_nat (5 + n) :: u16) + 1 \<noteq> 0"
    using Suc.prems by (simp_all add: unat_of_nat take_bit_nat_eq_self word_unat_eq_iff unat_word_ariths)
  have run: "rpc_run zero_hash (demo_requests (Suc n))"
    unfolding step request_default_def by (rule rpc_run.request [OF IH(1)]) (simp_all add: user_callback_def DEFAULT_RETRIES_def)
  let ?a = "?s\<lparr>sk_next_tid := of_nat (5 + n) + 1, sk_next_ref := Suc (sk_next_ref ?s), sk_inflight := sk_inflight ?s @ [?r]\<rparr>"
  have sent: "demo_requests (Suc n) = send_now demo_rpc_env ?r ?a"
    using IH(2,4,5) Suc.prems tid(2)
    unfolding step by (simp add: request_default_def request_def alloc_tid_def cw_is_full_def Let_def)
  obtain t where "send_now demo_rpc_env ?r ?a = ?a\<lparr>sk_congestion := cw_send (sk_congestion ?a),
      sk_trace := sk_trace ?a @ [Sent (ir_buffer ?r) (ir_to ?r) (active_socket ?a)],
      sk_inflight := upd_ref (ir_ref ?r) (resent (en_now demo_rpc_env) t) (sk_inflight ?a)\<rparr>"
    by (rule send_now_eq [of ?r ?a demo_rpc_env]) (use IH(2) in \<open>simp_all add: new_request_def\<close>)
  moreover have "unat (ir_tid x) < 5 + Suc n" if "x \<in> set (upd_ref ref (resent k t) (sk_inflight ?s @ [?r]))" for x ref k
  proof -
    have "ir_tid x \<in> ir_tid ` set (sk_inflight ?s @ [?r])"
      using that by (auto simp: upd_ref_def resent_def split: if_splits)
    then show ?thesis
      using IH(6) tid(1) by (auto simp: new_request_def)
  qed
  ultimately show ?case
    using run IH(2,3,5) unfolding sent by (auto simp: cw_send_def)
qed

definition demo_busy :: RpcSocket where
  "demo_busy = Session_new 3 (demo_requests 80)"

lemma find_inflight_upd: "(\<And>r. ir_tid (f r) = ir_tid r) \<Longrightarrow> find_inflight (upd_ref ref f rs) tid = None \<longleftrightarrow> find_inflight rs tid = None"
  by (induction rs) (auto simp: upd_ref_def)

lemma upd_ref_append: "upd_ref (ir_ref r) f (rs @ [r]) = upd_ref (ir_ref r) f rs @ [f r]"
  by (simp add: upd_ref_def)

text \<open>A tick that drains a queue of one request.\<close>

lemma drain_one:
  assumes "\<not> sk_closing s" and "sk_pending s = [r]" and "\<not> ir_destroyed r" and "\<not> cw_is_full (cw_drain (sk_congestion s))"
  shows "\<exists>a. sk_inflight a = sk_inflight s @ [r] \<and> sk_sessions a = sk_sessions s \<and> \<not> sk_closing a \<and>
    on_drain_tick e s = (send_now e r a)\<lparr>sk_pending := []\<rparr>"
proof -
  define b where "b = (if sk_rotate_counter s - 1 = 0
      then s\<lparr>sk_rotate_counter := TOKEN_ROTATE_TICKS, sk_tokens := TokenStore_rotate (en_plain e) (sk_tokens s)\<rparr>
      else s\<lparr>sk_rotate_counter := sk_rotate_counter s - 1\<rparr>)"
  have b: "sk_pending b = [r]" "sk_inflight b = sk_inflight s" "sk_sessions b = sk_sessions s" "sk_closing b = sk_closing s"
    "sk_congestion b = sk_congestion s"
    using assms(2) by (simp_all add: b_def)
  have "on_drain_tick e s = drain_pending e (b\<lparr>sk_congestion := cw_drain (sk_congestion b)\<rparr>)"
    using assms(1) by (simp add: on_drain_tick_def b_def Let_def)
  then have "on_drain_tick e s = (send_now e r (b\<lparr>sk_congestion := cw_drain (sk_congestion s), sk_inflight := sk_inflight s @ [r]\<rparr>))\<lparr>sk_pending := []\<rparr>"
    using assms(3,4) by (simp add: drain_pending_def b)
  then show ?thesis
    using assms(1) b by (intro exI [of _ "b\<lparr>sk_congestion := cw_drain (sk_congestion s), sk_inflight := sk_inflight s @ [r]\<rparr>"]) simp
qed

lemma find_inflight_last: "find_inflight rs tid = None \<Longrightarrow> ir_tid r = tid \<Longrightarrow> find_inflight (rs @ [r]) tid = Some r"
  by (induction rs) (auto split: if_splits)

text \<open>C26. Deleting a session does not cancel a request of it that is queued: the queue still sends the request when the window has
  room, and the response of the peer then runs the callback of the deleted session.\<close>

theorem rpc_dead_session_called:
  assumes "hash32 plain" and "rpc_run plain s" and "\<not> sk_closing s" and full: "cw_is_full (sk_congestion s)" and queue: "sk_pending s = []"
    and session: "sk_sessions s sid = Some []" and tid: "sk_next_tid s \<noteq> 0" "find_inflight (sk_inflight s) (sk_next_tid s) = None"
    and room: "\<not> cw_is_full (cw_drain (sk_congestion s))"
    and resp: "Response_ok resp" "rs_tid resp = sk_next_tid s" and env: "en_plain e' = plain"
  shows "let s1 = Session_delete sid (snd (Session_request e sid req s)); s2 = on_drain_tick e s1;
      s3 = on_recv_client e' (encode_response resp) peer s2
    in sk_sessions s1 sid = None \<and> sk_sessions s2 sid = None \<and> DeadSession sid \<in> set (sk_trace s3)"
proof -
  let ?t = "sk_next_tid s"
  let ?r = "new_request (sk_next_ref s) (req\<lparr>rq_tid := ?t\<rparr>) 0 DEFAULT_RETRIES (Some (OnSession sid)) (Some (OnSession sid))"
  define s1 where "s1 = Session_delete sid (snd (Session_request e sid req s))"
  define s2 where "s2 = on_drain_tick e s1"
  have run: "rpc_run plain s1" "rpc_run plain s2"
    using assms(2) by (auto simp: s1_def s2_def intro: rpc_run.intros)
  have s1: "sk_pending s1 = [?r]" "sk_sessions s1 sid = None" "sk_inflight s1 = sk_inflight s" "sk_congestion s1 = sk_congestion s"
    "\<not> sk_closing s1"
    using assms(3) full queue session tid
    by (simp_all add: s1_def Session_request_def request_default_def request_def alloc_tid_def MAX_PENDING_def Session_delete_def
        Session_destroy_def cancel_request_def Let_def)
  have "\<not> ir_destroyed ?r"
    by (simp add: new_request_def)
  from drain_one [OF s1(5,1) this, of e] obtain a where a: "sk_inflight a = sk_inflight s @ [?r]" "sk_sessions a = sk_sessions s1"
      "\<not> sk_closing a" "s2 = (send_now e ?r a)\<lparr>sk_pending := []\<rparr>"
    using room by (auto simp: s1 s2_def)
  obtain t where t: "send_now e ?r a = a\<lparr>sk_congestion := cw_send (sk_congestion a),
      sk_trace := sk_trace a @ [Sent (ir_buffer ?r) (ir_to ?r) (active_socket a)],
      sk_inflight := upd_ref (ir_ref ?r) (resent (en_now e) t) (sk_inflight a)\<rparr>"
    by (rule send_now_eq [OF \<open>\<not> ir_destroyed ?r\<close> a(3)])
  have s2: "sk_inflight s2 = upd_ref (ir_ref ?r) (resent (en_now e) t) (sk_inflight s @ [?r])" "sk_sessions s2 = sk_sessions s1"
      "\<not> sk_closing s2"
    using a by (simp_all add: t)
  have "find_inflight (sk_inflight s2) (rs_tid resp) = Some (resent (en_now e) t ?r)"
    unfolding s2(1) upd_ref_append resp(2)
    by (rule find_inflight_last) (simp_all add: find_inflight_upd resent_fields tid(2), simp add: new_request_def)
  then obtain s' nid where m: "on_recv_client e' (encode_response resp) peer s2 =
        match_response e' ((response_received resp)\<lparr>rs_id := nid\<rparr>) s'"
      "find_inflight (sk_inflight s') (rs_tid resp) = Some (resent (en_now e) t ?r)" "sk_sessions s' sid = None"
    using response_matched [OF rpc_run_ok [OF run(2) assms(1)] assms(1) env s2(3) resp(1), of "resent (en_now e) t ?r" peer] s1(2) s2(2) by metis
  moreover have "sk_sessions (record_rtt e a t s0) = sk_sessions s0" for e a t s0
    by (simp add: record_rtt_def Let_def split: option.split)
  ultimately have "DeadSession sid \<in> set (sk_trace (on_recv_client e' (encode_response resp) peer s2))"
    by (simp add: match_response_def resent_def new_request_def call_response_def session_detach_def emit_event_def
        destroy_request_def response_received_def Let_def)
  then show ?thesis
    using s1(2) s2(2) unfolding Let_def s1_def [symmetric] s2_def [symmetric] by simp
qed

theorem rpc_dead_session_called_witness:
  "DeadSession 3 \<in> set (sk_trace (on_recv_client demo_rpc_env (encode_response (Response_init\<lparr>rs_tid := 85\<rparr>)) demo_peer
     (on_drain_tick demo_rpc_env (Session_delete 3 (snd (Session_request demo_rpc_env 3 Request_init demo_busy))))))"
proof -
  note d = demo_requests_sent [of 80]
  have "find_inflight (sk_inflight (demo_requests 80)) 85 = None"
  proof -
    have "find_inflight rs 85 = None" if "\<forall>r \<in> set rs. unat (ir_tid r) < 85" for rs
      using that by (induction rs) auto
    then show ?thesis
      using d by simp
  qed
  moreover have "rpc_run zero_hash demo_busy"
    using d by (simp add: demo_busy_def rpc_run.session)
  moreover have "Response_ok (Response_init\<lparr>rs_tid := 85\<rparr>)"
    by (simp add: Response_ok_def Response_init_def Ipv4Address_init_def opt_all_def)
  ultimately show ?thesis
    using rpc_dead_session_called [OF zero_hash32, of demo_busy 3 "Response_init\<lparr>rs_tid := 85\<rparr>" demo_rpc_env demo_rpc_env Request_init demo_peer] d
    by (simp add: demo_busy_def Session_new_def cw_is_full_def cw_drain_def demo_plain Let_def)
qed

text \<open>Transaction ids do not repeat while it matters: 65535 consecutive requests get pairwise different ids, none of them
  zero, once the counter is not zero.\<close>

lemma tids_distinct:
  assumes "sk_next_tid s \<noteq> 0" and "n \<le> 65535"
  shows "distinct (alloc_tids n s) \<and> 0 \<notin> set (alloc_tids n s)"
proof -
  let ?f = "\<lambda>i. (tid_succ ^^ i) (sk_next_tid s)"
  have f: "unat (?f i) = 1 + (unat (sk_next_tid s) - 1 + i) mod 65535 \<and> ?f i \<noteq> 0" for i
    by (rule unat_tid_iterate [OF assms(1)])
  have "i = j" if "i < n" "j < n" "?f i = ?f j" "i \<le> j" for i j
  proof (rule mod_window_inj [of "unat (sk_next_tid s) - 1" _ 65535])
    show "(unat (sk_next_tid s) - 1 + i) mod 65535 = (unat (sk_next_tid s) - 1 + j) mod 65535"
      using f [of i] f [of j] that(3) by simp
  qed (use that assms(2) in simp_all)
  then have "inj_on ?f {0..<n}"
    by (auto simp: inj_on_def) (metis nat_le_linear)
  then show ?thesis
    using f by (auto simp: alloc_tids_iterate distinct_map dest: sym)
qed

end
