(* ===== verification/Announce_Sig.thy ===== *)
theory Announce_Sig
  imports Dht_Messages
begin

text \<open>
  Signatures of announcements and of mutable records (\<^verbatim>\<open>src/announce_sig.cpp\<close>).  Ed25519 is the parameter
  \<open>Crypto\<close>, BLAKE2b the parameter \<open>plain\<close>; what the code relies on is that a signature made with a key pair
  verifies under its public key (\<open>signs\<close>).  A C++ pair of pointer and length is a byte list; a hash update of
  length 0, which the source skips, leaves the hashed input as it is.
\<close>

section \<open>Keys and signatures\<close>

record Keypair =
  kp_public_key :: bytes
  kp_secret_key :: bytes

record Crypto =
  cr_sign :: "bytes \<Rightarrow> bytes \<Rightarrow> bytes"
  cr_verify :: "bytes \<Rightarrow> bytes \<Rightarrow> bytes \<Rightarrow> bool"

text \<open>\<^verbatim>\<open>crypto_sign_detached\<close> and \<^verbatim>\<open>crypto_sign_verify_detached\<close> fit together for this key pair.\<close>

definition signs :: "Crypto \<Rightarrow> Keypair \<Rightarrow> bool" where
  "signs cr kp \<longleftrightarrow> (\<forall>m. cr_verify cr (cr_sign cr m (kp_secret_key kp)) m (kp_public_key kp))"

definition ann_signable :: "plain_hash \<Rightarrow> bytes \<Rightarrow> bytes \<Rightarrow> bytes \<Rightarrow> bytes \<Rightarrow> bytes \<Rightarrow> bytes \<Rightarrow> bytes" where
  "ann_signable plain ns target node_id token encoded_peer refresh =
     ns @ plain (target @ node_id @ token @ encoded_peer @ refresh)"

definition build_ann_signable :: "plain_hash \<Rightarrow> bytes \<Rightarrow> bytes \<Rightarrow> bytes \<Rightarrow> bytes \<Rightarrow> AnnounceMessage \<Rightarrow> bytes" where
  "build_ann_signable plain ns target node_id token ann =
     (let encoded_peer = (case am_peer ann of None \<Rightarrow> [] | Some p \<Rightarrow> encode_peer_record p);
          refresh = (case am_refresh ann of None \<Rightarrow> [] | Some r \<Rightarrow> r)
      in ann_signable plain ns target node_id token encoded_peer refresh)"

definition sign_announce :: "plain_hash \<Rightarrow> Crypto \<Rightarrow> bytes \<Rightarrow> bytes \<Rightarrow> bytes \<Rightarrow> AnnounceMessage \<Rightarrow> Keypair \<Rightarrow> bytes" where
  "sign_announce plain cr target node_id token ann keypair =
     (let signable = build_ann_signable plain (ns_announce plain) target node_id token ann
      in cr_sign cr signable (kp_secret_key keypair))"

definition sign_unannounce :: "plain_hash \<Rightarrow> Crypto \<Rightarrow> bytes \<Rightarrow> bytes \<Rightarrow> bytes \<Rightarrow> AnnounceMessage \<Rightarrow> Keypair \<Rightarrow> bytes" where
  "sign_unannounce plain cr target node_id token ann keypair =
     (let signable = build_ann_signable plain (ns_unannounce plain) target node_id token ann
      in cr_sign cr signable (kp_secret_key keypair))"

definition verify_announce ::
  "plain_hash \<Rightarrow> Crypto \<Rightarrow> bytes \<Rightarrow> bytes \<Rightarrow> bytes \<Rightarrow> bytes \<Rightarrow> AnnounceMessage \<Rightarrow> bytes \<Rightarrow> bytes \<Rightarrow> bool" where
  "verify_announce plain cr ns target node_id token ann signature public_key =
     (let signable = build_ann_signable plain ns target node_id token ann
      in cr_verify cr signature signable public_key)"

definition mutable_signable :: "plain_hash \<Rightarrow> u64 \<Rightarrow> bytes \<Rightarrow> bytes" where
  "mutable_signable plain seq value = ns_mutable_put plain @ plain (encode_mutable_signable seq value)"

definition sign_mutable :: "plain_hash \<Rightarrow> Crypto \<Rightarrow> u64 \<Rightarrow> bytes \<Rightarrow> Keypair \<Rightarrow> bytes" where
  "sign_mutable plain cr seq value keypair = cr_sign cr (mutable_signable plain seq value) (kp_secret_key keypair)"

definition verify_mutable :: "plain_hash \<Rightarrow> Crypto \<Rightarrow> bytes \<Rightarrow> u64 \<Rightarrow> bytes \<Rightarrow> bytes \<Rightarrow> bool" where
  "verify_mutable plain cr signature seq value public_key = cr_verify cr signature (mutable_signable plain seq value) public_key"

section \<open>What the signed bytes determine\<close>

lemma encode_peer_wire:
  assumes "PeerRecord_ok p"
  shows "encode_peer_record p = PeerRecord_wire p"
proof -
  have "encode_peer_record p = concat [PeerRecord_wire p]"
    unfolding encode_peer_record_def
    using assms length_peer_wire [OF assms] by (intro encode_steps_wire) (simp_all add: payload_wires)
  then show ?thesis
    by simp
qed

text \<open>The variable part of the hashed input: the optional peer record, then the optional refresh token.\<close>

definition peer_refresh_bytes :: "AnnounceMessage \<Rightarrow> bytes" where
  "peer_refresh_bytes ann =
     (case am_peer ann of None \<Rightarrow> [] | Some p \<Rightarrow> encode_peer_record p) @ (case am_refresh ann of None \<Rightarrow> [] | Some r \<Rightarrow> r)"

lemma build_ann_signable_eq:
  "build_ann_signable plain ns target node_id token ann = ns @ plain (target @ node_id @ token @ peer_refresh_bytes ann)"
  by (simp add: build_ann_signable_def ann_signable_def peer_refresh_bytes_def Let_def)

lemma Uint_wire_not_Nil: "Uint_wire v \<noteq> []"
  by (simp add: Uint_wire_def)

lemma peer_longer_than_refresh: "PeerRecord_ok p \<Longrightarrow> 32 < length (encode_peer_record p)"
  using Uint_wire_not_Nil by (simp add: encode_peer_wire PeerRecord_wire_def PeerRecord_ok_def Array_wire_def)

lemma peer_refresh_inject:
  assumes ok: "AnnounceMessage_ok a" "AnnounceMessage_ok b" and eq: "peer_refresh_bytes a = peer_refresh_bytes b"
  shows "am_peer a = am_peer b \<and> am_refresh a = am_refresh b"
proof -
  have len: "opt_all (\<lambda>x. length x = 32) (am_refresh a)" "opt_all (\<lambda>x. length x = 32) (am_refresh b)"
    using ok by (simp_all add: AnnounceMessage_ok_def)
  have refresh: "r = r'" if "(case r of None \<Rightarrow> [] | Some x \<Rightarrow> x) = (case r' of None \<Rightarrow> [] | Some x \<Rightarrow> x)"
    "opt_all (\<lambda>x. length x = 32) r" "opt_all (\<lambda>x. length x = 32) r'" for r r' :: "bytes option"
    using that by (auto simp: opt_all_def split: option.splits)
  have short: "length (case r of None \<Rightarrow> [] | Some x \<Rightarrow> x) \<le> 32" if "opt_all (\<lambda>x. length x = 32) r" for r :: "bytes option"
    using that by (auto simp: opt_all_def split: option.splits)
  show ?thesis
  proof (cases "am_peer a"; cases "am_peer b")
    assume "am_peer a = None" "am_peer b = None"
    then show ?thesis
      using eq refresh [OF _ len] by (simp add: peer_refresh_bytes_def)
  next
    fix p assume p: "am_peer a = Some p" "am_peer b = None"
    then have "PeerRecord_ok p"
      using ok(1) by (simp add: AnnounceMessage_ok_def opt_all_def)
    then show ?thesis
      using p arg_cong [OF eq, of length] short [OF len(2)] peer_longer_than_refresh [of p]
      by (simp add: peer_refresh_bytes_def)
  next
    fix p assume p: "am_peer a = None" "am_peer b = Some p"
    then have "PeerRecord_ok p"
      using ok(2) by (simp add: AnnounceMessage_ok_def opt_all_def)
    then show ?thesis
      using p arg_cong [OF eq, of length] short [OF len(1)] peer_longer_than_refresh [of p]
      by (simp add: peer_refresh_bytes_def)
  next
    fix p q assume p: "am_peer a = Some p" "am_peer b = Some q"
    then have pq: "PeerRecord_ok p" "PeerRecord_ok q"
      using ok by (simp_all add: AnnounceMessage_ok_def opt_all_def)
    have "length (PeerRecord_wire p @ (case am_refresh a of None \<Rightarrow> [] | Some x \<Rightarrow> x)) < 2 ^ 64"
      using length_peer_wire [OF pq(1)] short [OF len(1)] by simp
    moreover have "PeerRecord_wire p @ (case am_refresh a of None \<Rightarrow> [] | Some x \<Rightarrow> x) =
        PeerRecord_wire q @ (case am_refresh b of None \<Rightarrow> [] | Some x \<Rightarrow> x)"
      using eq p by (simp add: peer_refresh_bytes_def encode_peer_wire pq)
    ultimately show ?thesis
      using Peer.wire_prefix_free [OF pq] refresh [OF _ len] p by metis
  qed
qed

lemma ns_length [simp]:
  "hash32 plain \<Longrightarrow> length (ns_announce plain) = 32" "hash32 plain \<Longrightarrow> length (ns_unannounce plain) = 32"
  "hash32 plain \<Longrightarrow> length (ns_mutable_put plain) = 32"
  by (simp_all add: ns_announce_def ns_unannounce_def ns_mutable_put_def compute_ns_def hash32_def Let_def)

section \<open>Properties\<close>

text \<open>Every signature the code makes verifies: announcements under the announce namespace, unannouncements under the
  unannounce namespace, and mutable records, for every target, node id, token, message, sequence number and value.  The
  bump counter is not part of what is signed.\<close>

lemma signed_verifies:
  assumes "signs cr kp"
  shows "verify_announce plain cr (ns_announce plain) target node_id token ann
           (sign_announce plain cr target node_id token ann kp) (kp_public_key kp) \<and>
         verify_announce plain cr (ns_unannounce plain) target node_id token ann
           (sign_unannounce plain cr target node_id token ann kp) (kp_public_key kp) \<and>
         verify_mutable plain cr (sign_mutable plain cr seq value kp) seq value (kp_public_key kp) \<and>
         sign_announce plain cr target node_id token (ann\<lparr>am_bump := b\<rparr>) kp = sign_announce plain cr target node_id token ann kp"
  using assms by (simp add: signs_def verify_announce_def sign_announce_def sign_unannounce_def verify_mutable_def
      sign_mutable_def build_ann_signable_def Let_def)

text \<open>A signature scheme for demonstrations: the signature is the signed message.\<close>

definition echo_crypto :: Crypto where
  "echo_crypto = \<lparr>cr_sign = (\<lambda>m sk. m), cr_verify = (\<lambda>sig m pk. sig = m)\<rparr>"

definition demo_keypair :: Keypair where
  "demo_keypair = \<lparr>kp_public_key = replicate 32 7, kp_secret_key = replicate 64 7\<rparr>"

lemma echo_signs: "signs echo_crypto kp"
  by (simp add: signs_def echo_crypto_def)

text \<open>C27. A signature of an announcement is bound to what it was made for.  If it verifies for one message only, and the
  hash does not collide on the two hashed inputs, then it is accepted only for the namespace, the target, the node, the
  token, the peer record and the refresh token that were signed: it can be replayed neither to another node or target, nor
  after the token has changed, nor with other relay addresses, nor as an unannouncement.\<close>

theorem announce_signature_binds:
  assumes "hash32 plain" and "inj_on plain {target @ node_id @ token @ peer_refresh_bytes ann,
      target' @ node_id' @ token' @ peer_refresh_bytes ann'}"
    and "\<And>m. cr_verify cr signature m pk \<Longrightarrow> m = build_ann_signable plain (ns_announce plain) target node_id token ann"
    and "length target = 32" "length target' = 32" "length node_id = 32" "length node_id' = 32" "length token = length token'"
    and "length ns = 32" "AnnounceMessage_ok ann" "AnnounceMessage_ok ann'"
    and "verify_announce plain cr ns target' node_id' token' ann' signature pk"
  shows "ns = ns_announce plain \<and> target' = target \<and> node_id' = node_id \<and> token' = token \<and>
     am_peer ann' = am_peer ann \<and> am_refresh ann' = am_refresh ann"
proof -
  have "build_ann_signable plain ns target' node_id' token' ann' =
      build_ann_signable plain (ns_announce plain) target node_id token ann"
    using assms(3,12) by (simp add: verify_announce_def Let_def)
  then have ns: "ns = ns_announce plain" and "plain (target' @ node_id' @ token' @ peer_refresh_bytes ann') =
      plain (target @ node_id @ token @ peer_refresh_bytes ann)"
    using assms(1,9) by (simp_all add: build_ann_signable_eq)
  then have "target' @ node_id' @ token' @ peer_refresh_bytes ann' = target @ node_id @ token @ peer_refresh_bytes ann"
    using inj_onD [OF assms(2)] by blast
  then have "target' = target \<and> node_id' = node_id \<and> token' = token \<and> peer_refresh_bytes ann' = peer_refresh_bytes ann"
    using assms(4-8) by (simp add: append_eq_append_conv)
  then show ?thesis
    using ns peer_refresh_inject [OF assms(11,10)] by blast
qed

text \<open>A toy hash that keeps the first 32 bytes of its padded input.\<close>

definition prefix_hash :: plain_hash where
  "prefix_hash m = take 32 (m @ replicate 32 0)"

lemma prefix_hash32: "hash32 prefix_hash"
  by (auto simp: hash32_def prefix_hash_def)

theorem announce_signature_binds_witness:
  "\<not> verify_announce prefix_hash echo_crypto (ns_announce prefix_hash) (replicate 32 2) (replicate 32 9) [] AnnounceMessage_init
     (sign_announce prefix_hash echo_crypto (replicate 32 1) (replicate 32 9) [] AnnounceMessage_init demo_keypair)
     (kp_public_key demo_keypair)"
proof
  assume v: "verify_announce prefix_hash echo_crypto (ns_announce prefix_hash) (replicate 32 2) (replicate 32 9) [] AnnounceMessage_init
     (sign_announce prefix_hash echo_crypto (replicate 32 1) (replicate 32 9) [] AnnounceMessage_init demo_keypair)
     (kp_public_key demo_keypair)"
  have inj: "inj_on prefix_hash {replicate 32 1 @ replicate 32 9 @ [] @ peer_refresh_bytes AnnounceMessage_init,
      replicate 32 2 @ replicate 32 9 @ [] @ peer_refresh_bytes AnnounceMessage_init}"
    by (auto simp: inj_on_def prefix_hash_def)
  have "replicate 32 (2 :: byte) = replicate 32 1"
    using announce_signature_binds [OF prefix_hash32 inj _ _ _ _ _ _ _ _ _ v] prefix_hash32
    by (simp add: echo_crypto_def sign_announce_def Let_def AnnounceMessage_ok_def AnnounceMessage_init_def opt_all_def)
  then show False
    by simp
qed

text \<open>C28. A signature of a mutable record is bound to its sequence number and its value, and to its purpose: if it verifies
  for one message only and the hash separates the inputs in play, it is accepted for no other version and no other value,
  and neither as an announcement nor as an unannouncement.\<close>

theorem mutable_signature_binds:
  assumes "hash32 plain" and "inj_on plain {encode_mutable_signable seq value, encode_mutable_signable seq' value'}"
    and "inj_on plain ((\<lambda>c. plain (str_bytes ''hyperswarm/dht'') @ [c]) ` {0, 1, 4, 5, 6})"
    and "length value \<le> 65536" "length value' \<le> 65536"
    and only: "\<And>m. cr_verify cr signature m pk \<Longrightarrow> m = mutable_signable plain seq value"
  shows "(verify_mutable plain cr signature seq' value' pk \<longrightarrow> seq' = seq \<and> value' = value) \<and>
     \<not> verify_announce plain cr (ns_announce plain) target node_id token ann signature pk \<and>
     \<not> verify_announce plain cr (ns_unannounce plain) target node_id token ann signature pk"
proof -
  have "seq' = seq \<and> value' = value" if "verify_mutable plain cr signature seq' value' pk"
  proof -
    have "plain (encode_mutable_signable seq' value') = plain (encode_mutable_signable seq value)"
      using only that assms(1) by (auto simp: verify_mutable_def mutable_signable_def)
    then have "encode_mutable_signable seq' value' = encode_mutable_signable seq value"
      using inj_onD [OF assms(2)] by blast
    then show ?thesis
      using signable_injective [OF assms(5,4)] by blast
  qed
  moreover have "\<not> verify_announce plain cr ns target node_id token ann signature pk"
    if "length ns = 32" "ns \<noteq> ns_mutable_put plain" for ns
  proof
    assume "verify_announce plain cr ns target node_id token ann signature pk"
    then have "build_ann_signable plain ns target node_id token ann = mutable_signable plain seq value"
      using only by (simp add: verify_announce_def Let_def)
    then show False
      using that assms(1) by (simp add: build_ann_signable_eq mutable_signable_def)
  qed
  ultimately show ?thesis
    using assms(1) namespaces_distinct [OF assms(3)] by auto
qed

text \<open>A toy hash that keeps the last 32 bytes of its padded input.\<close>

definition suffix_hash :: plain_hash where
  "suffix_hash m = rev (prefix_hash (rev m))"

lemma suffix_hash32: "hash32 suffix_hash"
  using prefix_hash32 by (simp add: hash32_def suffix_hash_def)

theorem mutable_signature_binds_witness:
  "\<not> verify_mutable suffix_hash echo_crypto (sign_mutable suffix_hash echo_crypto 1 [5] demo_keypair) 2 [5] (kp_public_key demo_keypair)"
proof
  assume v: "verify_mutable suffix_hash echo_crypto (sign_mutable suffix_hash echo_crypto 1 [5] demo_keypair) 2 [5] (kp_public_key demo_keypair)"
  have wires: "encode_mutable_signable 1 [5] = [1, 1, 5]" "encode_mutable_signable 2 [5] = [2, 1, 5]"
    by (simp_all add: encode_signable_wire Uint_wire_def Buffer_wire_def)
  have inj: "inj_on suffix_hash {encode_mutable_signable 1 [5], encode_mutable_signable 2 [5]}"
    by (simp add: wires inj_on_def suffix_hash_def prefix_hash_def numeral_eq_Suc)
  have ns: "inj_on suffix_hash ((\<lambda>c. suffix_hash (str_bytes ''hyperswarm/dht'') @ [c]) ` {0, 1, 4, 5, 6})"
    by (auto simp: inj_on_def suffix_hash_def prefix_hash_def)
  have "(2 :: u64) = 1"
    using mutable_signature_binds [OF suffix_hash32 inj ns, where cr = echo_crypto
        and signature = "sign_mutable suffix_hash echo_crypto 1 [5] demo_keypair" and pk = "kp_public_key demo_keypair"] v
    by (simp add: echo_crypto_def sign_mutable_def)
  then show False
    by simp
qed

end
