(* ===== verification/Router.thy ===== *)
theory Router
  imports Peer_Messages Announce_Store
begin

text \<open>
  The forward table (\<^verbatim>\<open>Router\<close> in \<^verbatim>\<open>src/router.cpp\<close>): the servers listening on this node, by target, and
  the dispatch of the two connection commands to them.  A server's callback is a number; calling it is a value of
  \<open>RouterCall\<close>, and the closure the router hands to it is the record \<open>ReplyContext\<close> of the captured variables.  Running
  the closure gives a \<open>RouterOutput\<close>: the response for \<^verbatim>\<open>reply\<close> or the request for \<^verbatim>\<open>relay\<close>.
\<close>

section \<open>The table\<close>

record ForwardEntry =
  fe_on_peer_handshake :: "nat option"
  fe_on_peer_holepunch :: "nat option"
  fe_record :: bytes

type_synonym Router = "(TargetKey \<times> ForwardEntry) list"

definition Router_set :: "TargetKey \<Rightarrow> ForwardEntry \<Rightarrow> Router \<Rightarrow> Router" where
  "Router_set target entry r = AList.update target entry r"

definition Router_get :: "Router \<Rightarrow> TargetKey \<Rightarrow> ForwardEntry option" where
  "Router_get r target = map_of r target"

definition Router_remove :: "TargetKey \<Rightarrow> Router \<Rightarrow> Router" where
  "Router_remove target r = AList.delete target r"

definition Router_has :: "Router \<Rightarrow> TargetKey \<Rightarrow> bool" where
  "Router_has r target \<longleftrightarrow> map_of r target \<noteq> None"

definition Router_record :: "Router \<Rightarrow> TargetKey \<Rightarrow> bytes option" where
  "Router_record r target =
     (case map_of r target of None \<Rightarrow> None | Some entry \<Rightarrow> if fe_record entry = [] then None else Some (fe_record entry))"

definition Router_clear :: "Router \<Rightarrow> Router" where
  "Router_clear r = []"

definition Router_size :: "Router \<Rightarrow> nat" where
  "Router_size r = length r"

section \<open>Dispatch\<close>

record ReplyContext =
  rc_tid :: u16
  rc_from :: Ipv4Address
  rc_command :: u32
  rc_target :: "bytes option"
  rc_client_addr :: Ipv4Address
  rc_incoming_mode :: u32

datatype RouterCall =
  CallHandshake nat bytes Ipv4Address ReplyContext
| CallHolepunch nat bytes Ipv4Address ReplyContext

datatype RouterOutput = Reply Response | Relay Request

definition reply_context :: "Request \<Rightarrow> Ipv4Address \<Rightarrow> u32 \<Rightarrow> ReplyContext" where
  "reply_context req client_addr incoming_mode =
     \<lparr>rc_tid = rq_tid req, rc_from = rq_from req, rc_command = rq_command req, rc_target = rq_target req,
      rc_client_addr = client_addr, rc_incoming_mode = incoming_mode\<rparr>"

lemma reply_context_simps [simp]:
  "rc_tid (reply_context req a m) = rq_tid req" "rc_from (reply_context req a m) = rq_from req"
  "rc_command (reply_context req a m) = rq_command req" "rc_target (reply_context req a m) = rq_target req"
  "rc_client_addr (reply_context req a m) = a" "rc_incoming_mode (reply_context req a m) = m"
  by (simp_all add: reply_context_def)

definition handshake_reply_fn :: "ReplyContext \<Rightarrow> bytes \<Rightarrow> RouterOutput" where
  "handshake_reply_fn c reply_noise =
     (if rc_incoming_mode c = MODE_FROM_CLIENT
      then let resp_msg = HandshakeMessage_init\<lparr>hm_mode := MODE_REPLY, hm_noise := reply_noise\<rparr>
           in Reply (Response_init\<lparr>rs_tid := rc_tid c, rs_from := rc_from c, rs_value := Some (encode_handshake_msg resp_msg)\<rparr>)
      else let relay_msg = HandshakeMessage_init\<lparr>hm_mode := MODE_FROM_SERVER, hm_noise := reply_noise,
                             hm_peer_address := Some (rc_client_addr c)\<rparr>
           in Relay (Request_init\<lparr>rq_tid := rc_tid c, rq_to := rc_from c, rq_command := rc_command c,
                       rq_target := rc_target c, rq_internal := False, rq_value := Some (encode_handshake_msg relay_msg)\<rparr>))"

definition handle_peer_handshake :: "Router \<Rightarrow> Request \<Rightarrow> RouterCall option" where
  "handle_peer_handshake r req =
     (case (rq_target req, rq_value req) of
        (Some target, Some value) \<Rightarrow>
          (case Router_get r target of
             None \<Rightarrow> None
           | Some entry \<Rightarrow>
               (case fe_on_peer_handshake entry of
                  None \<Rightarrow> None
                | Some server \<Rightarrow>
                    let hs_msg = fst (decode_handshake_msg value) in
                    if hm_noise hs_msg = [] then None
                    else if hm_mode hs_msg \<noteq> MODE_FROM_CLIENT \<and> hm_mode hs_msg \<noteq> MODE_FROM_RELAY \<and>
                            hm_mode hs_msg \<noteq> MODE_FROM_SECOND_RELAY then None
                    else
                      let client_addr = (case hm_peer_address hs_msg of None \<Rightarrow> rq_from req | Some a \<Rightarrow> a) in
                      Some (CallHandshake server (hm_noise hs_msg) client_addr
                              (reply_context req client_addr (hm_mode hs_msg)))))
      | _ \<Rightarrow> None)"

definition holepunch_reply_fn :: "ReplyContext \<Rightarrow> bytes \<Rightarrow> RouterOutput" where
  "holepunch_reply_fn c reply_value =
     (if rc_incoming_mode c = MODE_FROM_CLIENT
      then let hp_reply = fst (decode_holepunch_msg reply_value);
               hp_reply = hp_reply\<lparr>hpm_mode := MODE_REPLY, hpm_peer_address := None\<rparr>
           in Reply (Response_init\<lparr>rs_tid := rc_tid c, rs_from := rc_from c, rs_value := Some (encode_holepunch_msg hp_reply)\<rparr>)
      else let hp_relay = fst (decode_holepunch_msg reply_value);
               hp_relay = hp_relay\<lparr>hpm_mode := MODE_FROM_SERVER, hpm_peer_address := Some (rc_client_addr c)\<rparr>
           in Relay (Request_init\<lparr>rq_tid := rc_tid c, rq_to := rc_from c, rq_command := rc_command c,
                       rq_target := rc_target c, rq_internal := False, rq_value := Some (encode_holepunch_msg hp_relay)\<rparr>))"

definition handle_peer_holepunch :: "Router \<Rightarrow> Request \<Rightarrow> RouterCall option" where
  "handle_peer_holepunch r req =
     (case (rq_target req, rq_value req) of
        (Some target, Some value) \<Rightarrow>
          (case Router_get r target of
             None \<Rightarrow> None
           | Some entry \<Rightarrow>
               (case fe_on_peer_holepunch entry of
                  None \<Rightarrow> None
                | Some server \<Rightarrow>
                    let hp_msg = fst (decode_holepunch_msg value);
                        client_addr = (case hpm_peer_address hp_msg of None \<Rightarrow> rq_from req | Some a \<Rightarrow> a)
                    in Some (CallHolepunch server value client_addr (reply_context req client_addr (hpm_mode hp_msg)))))
      | _ \<Rightarrow> None)"

text \<open>What happens when the server runs the closure it was given.\<close>

fun run_reply_fn :: "RouterCall \<Rightarrow> bytes \<Rightarrow> RouterOutput" where
  "run_reply_fn (CallHandshake server noise addr c) bs = handshake_reply_fn c bs"
| "run_reply_fn (CallHolepunch server value addr c) bs = holepunch_reply_fn c bs"

section \<open>The table is a map\<close>

locale target_map =
  fixes put :: "'k \<Rightarrow> 'v \<Rightarrow> 't \<Rightarrow> 't" and fetch :: "'t \<Rightarrow> 'k \<Rightarrow> 'v option" and drop :: "'k \<Rightarrow> 't \<Rightarrow> 't"
  assumes fetch_put: "fetch (put k v t) = (fetch t)(k \<mapsto> v)"
    and fetch_drop: "fetch (drop k t) = (fetch t)(k := None)"
begin

lemma put_shadows: "fetch (put k v (put k w t)) = fetch (put k v t)"
  by (simp add: fetch_put)

lemma drop_put: "fetch t k = None \<Longrightarrow> fetch (drop k (put k v t)) = fetch t"
  by (simp add: fetch_put fetch_drop fun_upd_idem)

lemma drop_other: "k \<noteq> k' \<Longrightarrow> fetch (drop k t) k' = fetch t k'"
  by (simp add: fetch_drop)

end

interpretation forwards: target_map Router_set Router_get Router_remove
  by unfold_locales (simp_all add: Router_set_def Router_get_def Router_remove_def update_conv' delete_conv' fun_eq_iff)

lemma Router_has_get: "Router_has r target \<longleftrightarrow> Router_get r target \<noteq> None"
  by (simp add: Router_has_def Router_get_def)

section \<open>What the parties read\<close>

lemma decode_encoded_handshake: "HandshakeMessage_ok m \<Longrightarrow> fst (decode_handshake_msg (encode_handshake_msg m)) = m"
  using step_reads_run [OF handshake_steps_read length_peer_wires(1)]
  by (simp add: decode_handshake_msg_def encode_handshake_wire)

lemma decode_encoded_holepunch: "HolepunchMessage_ok m \<Longrightarrow> fst (decode_holepunch_msg (encode_holepunch_msg m)) = m"
  using step_reads_run [OF holepunch_steps_read length_peer_wires(2)]
  by (simp add: decode_holepunch_msg_def encode_holepunch_wire)

text \<open>Where an answer goes and what it carries: \<open>answers c v out\<close> says that \<open>out\<close> answers the request captured in \<open>c\<close>
  with the wrapped message \<open>v\<close>, under the captured transaction id, to the node the request came from.\<close>

definition answers :: "ReplyContext \<Rightarrow> (bytes \<Rightarrow> bool) \<Rightarrow> RouterOutput \<Rightarrow> bool" where
  "answers c good out =
     (case out of
        Reply resp \<Rightarrow> rc_incoming_mode c = MODE_FROM_CLIENT \<and> rs_tid resp = rc_tid c \<and> rs_from resp = rc_from c \<and>
          rs_error resp = None \<and> (case rs_value resp of None \<Rightarrow> False | Some v \<Rightarrow> good v)
      | Relay req \<Rightarrow> rc_incoming_mode c \<noteq> MODE_FROM_CLIENT \<and> rq_tid req = rc_tid c \<and> rq_to req = rc_from c \<and>
          rq_command req = rc_command c \<and> rq_target req = rc_target c \<and> \<not> rq_internal req \<and>
          (case rq_value req of None \<Rightarrow> False | Some v \<Rightarrow> good v))"

lemma handshake_reply_answers:
  assumes "length noise \<le> 65536" and "Ipv4_ok (rc_client_addr c)"
  shows "answers c (\<lambda>v. let m = fst (decode_handshake_msg v) in
      hm_noise m = noise \<and> hm_relay_address m = None \<and>
      (if rc_incoming_mode c = MODE_FROM_CLIENT then hm_mode m = MODE_REPLY \<and> hm_peer_address m = None
       else hm_mode m = MODE_FROM_SERVER \<and> hm_peer_address m = Some (rc_client_addr c)))
     (handshake_reply_fn c noise)"
proof -
  let ?a = "HandshakeMessage_init\<lparr>hm_mode := MODE_REPLY, hm_noise := noise\<rparr>"
  let ?b = "HandshakeMessage_init\<lparr>hm_mode := MODE_FROM_SERVER, hm_noise := noise, hm_peer_address := Some (rc_client_addr c)\<rparr>"
  have "HandshakeMessage_ok ?a" "HandshakeMessage_ok ?b"
    using assms by (simp_all add: HandshakeMessage_ok_def HandshakeMessage_init_def opt_all_def)
  then show ?thesis
    by (simp add: answers_def handshake_reply_fn_def decode_encoded_handshake Let_def)
      (simp add: HandshakeMessage_init_def Response_init_def)
qed

text \<open>The context of a dispatched command names the request it answers.\<close>

lemma dispatched_context:
  "handle_peer_handshake r req = Some (CallHandshake server noise addr c) \<Longrightarrow>
     rc_tid c = rq_tid req \<and> rc_from c = rq_from req \<and> rc_command c = rq_command req \<and> rc_target c = rq_target req \<and>
     rc_client_addr c = addr"
  "handle_peer_holepunch r req = Some (CallHolepunch server value addr c) \<Longrightarrow>
     rc_tid c = rq_tid req \<and> rc_from c = rq_from req \<and> rc_command c = rq_command req \<and> rc_target c = rq_target req \<and>
     rc_client_addr c = addr"
  by (auto simp: handle_peer_handshake_def handle_peer_holepunch_def Let_def
      split: prod.splits option.splits if_splits)

text \<open>A server is reached from \<^verbatim>\<open>set\<close> to \<^verbatim>\<open>remove\<close>, whatever is registered under other targets.\<close>

lemma listening:
  "Router_get (Router_set target entry r) target = Some entry"
  "target' \<noteq> target \<Longrightarrow> Router_get (Router_set target' entry' r) target = Router_get r target"
  "target' \<noteq> target \<Longrightarrow> Router_get (Router_remove target' r) target = Router_get r target"
  "Router_get (Router_remove target r) target = None"
  by (simp_all add: forwards.fetch_put forwards.drop_other forwards.fetch_drop)

section \<open>Properties\<close>

text \<open>A handshake sent to a node where a server listens reaches exactly that server, with the sender's noise bytes and
  the client's address: the one in the message, or the sender's own.  Nothing is dispatched without a registered server,
  without noise bytes, or under a mode that only a server or a replying relay uses.  Whatever the server answers is sent
  back to the node the request came from under the same transaction id: to a client as a response of mode REPLY, to a relay
  as a request of mode FROM_SERVER that carries the client's address; the receiver decodes the server's noise bytes.\<close>

lemma router_handshake:
  assumes "HandshakeMessage_ok m" and "rq_value req = Some (encode_handshake_msg m)" and "length noise \<le> 65536"
    and "Ipv4_ok (rq_from req)"
  defines "client \<equiv> case hm_peer_address m of None \<Rightarrow> rq_from req | Some a \<Rightarrow> a"
  shows "handle_peer_handshake r req =
       (case Option.bind (Option.bind (rq_target req) (Router_get r)) fe_on_peer_handshake of
          None \<Rightarrow> None
        | Some server \<Rightarrow>
            if hm_noise m \<noteq> [] \<and> hm_mode m \<in> {MODE_FROM_CLIENT, MODE_FROM_RELAY, MODE_FROM_SECOND_RELAY}
            then Some (CallHandshake server (hm_noise m) client (reply_context req client (hm_mode m))) else None) \<and>
     answers (reply_context req client (hm_mode m)) (\<lambda>v. let m' = fst (decode_handshake_msg v) in
        hm_noise m' = noise \<and> hm_relay_address m' = None \<and>
        (if hm_mode m = MODE_FROM_CLIENT then hm_mode m' = MODE_REPLY \<and> hm_peer_address m' = None
         else hm_mode m' = MODE_FROM_SERVER \<and> hm_peer_address m' = Some client))
       (handshake_reply_fn (reply_context req client (hm_mode m)) noise)"
proof
  show "handle_peer_handshake r req =
       (case Option.bind (Option.bind (rq_target req) (Router_get r)) fe_on_peer_handshake of
          None \<Rightarrow> None
        | Some server \<Rightarrow>
            if hm_noise m \<noteq> [] \<and> hm_mode m \<in> {MODE_FROM_CLIENT, MODE_FROM_RELAY, MODE_FROM_SECOND_RELAY}
            then Some (CallHandshake server (hm_noise m) client (reply_context req client (hm_mode m))) else None)"
    using assms(2) decode_encoded_handshake [OF assms(1)]
    by (auto simp: handle_peer_handshake_def client_def Let_def split: option.split)
  have "Ipv4_ok client"
    using assms(1,4) by (auto simp: client_def HandshakeMessage_ok_def opt_all_def split: option.splits)
  then show "answers (reply_context req client (hm_mode m)) (\<lambda>v. let m' = fst (decode_handshake_msg v) in
        hm_noise m' = noise \<and> hm_relay_address m' = None \<and>
        (if hm_mode m = MODE_FROM_CLIENT then hm_mode m' = MODE_REPLY \<and> hm_peer_address m' = None
         else hm_mode m' = MODE_FROM_SERVER \<and> hm_peer_address m' = Some client))
       (handshake_reply_fn (reply_context req client (hm_mode m)) noise)"
    using handshake_reply_answers [OF assms(3), of "reply_context req client (hm_mode m)", unfolded reply_context_simps] by blast
qed

definition demo_router :: Router where
  "demo_router = Router_set (replicate 32 1) \<lparr>fe_on_peer_handshake = Some 7, fe_on_peer_holepunch = None, fe_record = []\<rparr> []"

text \<open>Holepunch messages are dispatched by target alone, with the message as it came.  The answer keeps the round id and
  the encrypted payload the server produced; only the mode and the peer address are rewritten: REPLY and none for a client,
  FROM_SERVER and the client's address for a relay, under the transaction id of the request.\<close>

lemma router_holepunch:
  assumes "HolepunchMessage_ok m" and "rq_value req = Some (encode_holepunch_msg m)" and "HolepunchMessage_ok reply"
    and "Ipv4_ok (rq_from req)"
  defines "client \<equiv> case hpm_peer_address m of None \<Rightarrow> rq_from req | Some a \<Rightarrow> a"
  shows "handle_peer_holepunch r req =
       map_option (\<lambda>server. CallHolepunch server (encode_holepunch_msg m) client (reply_context req client (hpm_mode m)))
         (Option.bind (Option.bind (rq_target req) (Router_get r)) fe_on_peer_holepunch) \<and>
     answers (reply_context req client (hpm_mode m)) (\<lambda>v. fst (decode_holepunch_msg v) =
        (if hpm_mode m = MODE_FROM_CLIENT then reply\<lparr>hpm_mode := MODE_REPLY, hpm_peer_address := None\<rparr>
         else reply\<lparr>hpm_mode := MODE_FROM_SERVER, hpm_peer_address := Some client\<rparr>))
       (holepunch_reply_fn (reply_context req client (hpm_mode m)) (encode_holepunch_msg reply))"
proof
  show "handle_peer_holepunch r req =
       map_option (\<lambda>server. CallHolepunch server (encode_holepunch_msg m) client (reply_context req client (hpm_mode m)))
         (Option.bind (Option.bind (rq_target req) (Router_get r)) fe_on_peer_holepunch)"
    using assms(2) decode_encoded_holepunch [OF assms(1)]
    by (auto simp: handle_peer_holepunch_def client_def Let_def split: option.split)
  have "Ipv4_ok client"
    using assms(1,4) by (auto simp: client_def HolepunchMessage_ok_def opt_all_def split: option.splits)
  then have "HolepunchMessage_ok (reply\<lparr>hpm_mode := MODE_REPLY, hpm_peer_address := None\<rparr>)"
    "HolepunchMessage_ok (reply\<lparr>hpm_mode := MODE_FROM_SERVER, hpm_peer_address := Some client\<rparr>)"
    using assms(3) by (simp_all add: HolepunchMessage_ok_def MODE_REPLY_def MODE_FROM_SERVER_def opt_all_def)
  then show "answers (reply_context req client (hpm_mode m)) (\<lambda>v. fst (decode_holepunch_msg v) =
        (if hpm_mode m = MODE_FROM_CLIENT then reply\<lparr>hpm_mode := MODE_REPLY, hpm_peer_address := None\<rparr>
         else reply\<lparr>hpm_mode := MODE_FROM_SERVER, hpm_peer_address := Some client\<rparr>))
       (holepunch_reply_fn (reply_context req client (hpm_mode m)) (encode_holepunch_msg reply))"
    by (simp add: answers_def holepunch_reply_fn_def decode_encoded_holepunch assms(3) Let_def)
      (simp add: Response_init_def)
qed

end
