(* ===== verification/Rpc_Handlers.thy ===== *)
theory Rpc_Handlers
  imports Rpc_Socket Lru_Cache Announce_Store Announce_Sig Router
begin

text \<open>
  The answers of a node to other nodes (\<^verbatim>\<open>RpcHandlers\<close> in \<^verbatim>\<open>src/rpc_handlers.cpp\<close>): the five internal commands,
  the dispatch of the two connection commands to the router, and the eight storage commands.  The state is the socket with
  everything the handlers keep beside it; \<open>HandlerEnv\<close> adds the keyed hash and the signature scheme to the environment of
  the socket.  A scheduled DELAYED_PING is identified by a number that stands for its heap address.  Calls into the servers
  registered with the router are recorded in \<open>rh_calls\<close>; \<open>server_reply\<close> is a server running the closure it was given.  The
  event loop is present (\<^verbatim>\<open>socket_.loop()\<close> is not null), and the machine is little-endian.
\<close>

section \<open>State\<close>

record StorageCacheConfig =
  scc_max_size :: nat
  scc_ttl_ms :: u64
  scc_ann_ttl_ms :: u64

definition StorageCacheConfig_init :: StorageCacheConfig where
  "StorageCacheConfig_init = \<lparr>scc_max_size = 65536, scc_ttl_ms = 48 * 60 * 60 * 1000, scc_ann_ttl_ms = DEFAULT_TTL_MS\<rparr>"

record DelayedReply =
  dr_ref :: nat
  dr_timer :: u64
  dr_tid :: u16
  dr_from :: Ipv4Address
  dr_from_server :: bool

record RpcHandlers =
  rh_socket :: RpcSocket
  rh_router :: "Router option"
  rh_store :: AnnounceStore
  rh_storage_ttl_ms :: u64
  rh_ann_ttl_ms :: u64
  rh_mutables :: "(string, bytes) LruCache"
  rh_immutables :: "(string, bytes) LruCache"
  rh_pending_delayed :: "DelayedReply list"
  rh_find_node_rate :: "(u32 \<times> u64) list"
  rh_down_hint_rate :: "(u32 \<times> u64) list"
  rh_next_ref :: nat
  rh_calls :: "RouterCall list"

record HandlerEnv =
  he_rpc :: RpcEnv
  he_keyed :: keyed_hash
  he_crypto :: Crypto

definition MAX_PENDING_DELAYED :: nat where "MAX_PENDING_DELAYED = 256"
definition MAX_MUTABLE_VALUE :: nat where "MAX_MUTABLE_VALUE = 32768"
definition MAX_IMMUTABLE_VALUE :: nat where "MAX_IMMUTABLE_VALUE = 32768"

definition RpcHandlers_new :: "RpcSocket \<Rightarrow> Router option \<Rightarrow> StorageCacheConfig \<Rightarrow> RpcHandlers" where
  "RpcHandlers_new socket router cfg =
     \<lparr>rh_socket = socket, rh_router = router, rh_store = [], rh_storage_ttl_ms = scc_ttl_ms cfg, rh_ann_ttl_ms = scc_ann_ttl_ms cfg,
      rh_mutables = LruCache_new (max 1 (scc_max_size cfg div 2)), rh_immutables = LruCache_new (max 1 (scc_max_size cfg div 2)),
      rh_pending_delayed = [], rh_find_node_rate = [], rh_down_hint_rate = [], rh_next_ref = 0, rh_calls = []\<rparr>"

text \<open>The destructor: the scheduled replies are cancelled.\<close>

definition RpcHandlers_destroy :: "RpcHandlers \<Rightarrow> RpcHandlers" where
  "RpcHandlers_destroy h = h\<lparr>rh_pending_delayed := []\<rparr>"

abbreviation he_plain :: "HandlerEnv \<Rightarrow> plain_hash" where
  "he_plain e \<equiv> en_plain (he_rpc e)"

abbreviation he_now :: "HandlerEnv \<Rightarrow> u64" where
  "he_now e \<equiv> en_now (he_rpc e)"

definition on_gc_tick :: "HandlerEnv \<Rightarrow> RpcHandlers \<Rightarrow> RpcHandlers" where
  "on_gc_tick e h =
     h\<lparr>rh_mutables := LruCache_gc (he_now e) (rh_storage_ttl_ms h) (rh_mutables h),
       rh_immutables := LruCache_gc (he_now e) (rh_storage_ttl_ms h) (rh_immutables h),
       rh_store := AnnounceStore_gc (he_now e) (rh_store h)\<rparr>"

definition to_hex_key :: "bytes \<Rightarrow> string" where
  "to_hex_key t = concat (map (\<lambda>b. [hex_char (unat (drop_bit 4 b)), hex_char (unat (b AND 0x0F))]) t)"

section \<open>Replies\<close>

definition send_reply :: "Response \<Rightarrow> RpcHandlers \<Rightarrow> RpcHandlers" where
  "send_reply resp h = h\<lparr>rh_socket := RpcSocket_reply resp (rh_socket h)\<rparr>"

text \<open>\<^verbatim>\<open>if (!socket_.is_ephemeral() && from_server) resp.id = socket_.table().id()\<close>\<close>

definition own_id :: "bool \<Rightarrow> RpcSocket \<Rightarrow> bytes option" where
  "own_id from_server s = (if \<not> sk_ephemeral s \<and> from_server then Some (rt_id (sk_table s)) else None)"

definition make_query_response :: "HandlerEnv \<Rightarrow> Request \<Rightarrow> RpcSocket \<Rightarrow> Response" where
  "make_query_response e req s =
     Response_init\<lparr>rs_tid := rq_tid req, rs_from := rq_from req, rs_id := own_id (rq_from_server req) s,
       rs_token := Some (TokenStore_create (he_keyed e) (sk_tokens s) (Ipv4_host_string (rq_from req))),
       rs_closer_nodes :=
         (case rq_target req of
            None \<Rightarrow> []
          | Some target \<Rightarrow> map (\<lambda>n. Ipv4_from_string (node_host n) (node_port n)) (RoutingTable_closest (sk_table s) target K))\<rparr>"

text \<open>The reply without token, value and closer nodes that several commands send.\<close>

definition empty_reply :: "u16 \<Rightarrow> Ipv4Address \<Rightarrow> bytes option \<Rightarrow> Response" where
  "empty_reply tid from nid = Response_init\<lparr>rs_tid := tid, rs_from := from, rs_id := nid\<rparr>"

definition send_empty_reply :: "Request \<Rightarrow> RpcHandlers \<Rightarrow> RpcHandlers" where
  "send_empty_reply req h =
     send_reply (empty_reply (rq_tid req) (rq_from req) (own_id (rq_from_server req) (rh_socket h))) h"

section \<open>Internal commands\<close>

definition handle_ping :: "HandlerEnv \<Rightarrow> Request \<Rightarrow> RpcHandlers \<Rightarrow> RpcHandlers" where
  "handle_ping e req h =
     (let resp = make_query_response e req (rh_socket h) in send_reply (resp\<lparr>rs_closer_nodes := []\<rparr>) h)"

definition handle_ping_nat :: "Request \<Rightarrow> RpcHandlers \<Rightarrow> RpcHandlers" where
  "handle_ping_nat req h =
     (case rq_value req of
        None \<Rightarrow> h
      | Some value \<Rightarrow>
          if length value < 2 then h
          else let port = read_le16 value in
            if port = 0 then h
            else send_reply (empty_reply (rq_tid req) (Ipv4_from_string (Ipv4_host_string (rq_from req)) port) None) h)"

definition rate_ip :: "Request \<Rightarrow> u32" where
  "rate_ip req = read_le32 (ip_host (rq_from req))"

text \<open>The per-IP limiters: \<open>limited\<close> is the early return, \<open>note_rate\<close> the update with the cap on the map.\<close>

definition limited :: "u64 \<Rightarrow> u32 \<Rightarrow> (u32 \<times> u64) list \<Rightarrow> bool" where
  "limited now src m = (case map_of m src of None \<Rightarrow> False | Some t \<Rightarrow> now - t < 1000)"

definition note_rate :: "nat \<Rightarrow> u64 \<Rightarrow> u32 \<Rightarrow> (u32 \<times> u64) list \<Rightarrow> (u32 \<times> u64) list" where
  "note_rate cap now src m = (let m = AList.update src now m in if length m > cap then [] else m)"

definition handle_find_node :: "HandlerEnv \<Rightarrow> Request \<Rightarrow> RpcHandlers \<Rightarrow> RpcHandlers" where
  "handle_find_node e req h =
     (if limited (he_now e) (rate_ip req) (rh_find_node_rate h) then h
      else let h = h\<lparr>rh_find_node_rate := note_rate 8192 (he_now e) (rate_ip req) (rh_find_node_rate h)\<rparr>
           in send_reply (make_query_response e req (rh_socket h)) h)"

text \<open>The part of DOWN_HINT behind the limiters: the hinted node is looked up and checked.\<close>

definition hint_node :: "HandlerEnv \<Rightarrow> bytes \<Rightarrow> RpcSocket \<Rightarrow> RpcSocket" where
  "hint_node e value s =
     (let target = he_plain e (take 6 value) in
      case RoutingTable_get (sk_table s) target of
        None \<Rightarrow> s
      | Some node \<Rightarrow>
          if node_pinged node < sk_tick s \<or> node_down_hints node = 0
          then let node = node\<lparr>node_down_hints := node_down_hints node + 1\<rparr>;
                   s = s\<lparr>sk_table := RoutingTable_update (sk_table s) target (\<lambda>n. n\<lparr>node_down_hints := node_down_hints n + 1\<rparr>)\<rparr>
               in check_node (he_rpc e) node s
          else s)"

definition handle_down_hint :: "HandlerEnv \<Rightarrow> Request \<Rightarrow> RpcHandlers \<Rightarrow> RpcHandlers" where
  "handle_down_hint e req h =
     (case rq_value req of
        None \<Rightarrow> h
      | Some value \<Rightarrow>
          if length value < 6 then h
          else if limited (he_now e) (rate_ip req) (rh_down_hint_rate h) then send_empty_reply req h
          else
            let h = h\<lparr>rh_down_hint_rate := note_rate 4096 (he_now e) (rate_ip req) (rh_down_hint_rate h)\<rparr> in
            if sk_checks (rh_socket h) \<ge> MAX_CHECKS then send_empty_reply req h
            else send_empty_reply req (h\<lparr>rh_socket := hint_node e value (rh_socket h)\<rparr>))"

definition handle_delayed_ping :: "Request \<Rightarrow> RpcHandlers \<Rightarrow> RpcHandlers" where
  "handle_delayed_ping req h =
     (case rq_value req of
        None \<Rightarrow> h
      | Some v \<Rightarrow>
          if length v < 4 then h
          else if length (rh_pending_delayed h) \<ge> MAX_PENDING_DELAYED then h
          else let delay_ms = read_le32 v in
            if ucast delay_ms > sk_max_ping_delay_ms (rh_socket h) then h
            else h\<lparr>rh_pending_delayed := rh_pending_delayed h @
                    [\<lparr>dr_ref = rh_next_ref h, dr_timer = ucast delay_ms, dr_tid = rq_tid req, dr_from = rq_from req,
                      dr_from_server = rq_from_server req\<rparr>],
                   rh_next_ref := Suc (rh_next_ref h)\<rparr>)"

fun delayed_index :: "nat \<Rightarrow> DelayedReply list \<Rightarrow> nat option" where
  "delayed_index ref [] = None"
| "delayed_index ref (d # ds) = (if dr_ref d = ref then Some 0 else map_option Suc (delayed_index ref ds))"

definition on_delayed_ping_fire :: "DelayedReply \<Rightarrow> RpcHandlers \<Rightarrow> RpcHandlers" where
  "on_delayed_ping_fire dr h =
     (let h = send_reply (empty_reply (dr_tid dr) (dr_from dr) (own_id (dr_from_server dr) (rh_socket h))) h;
          ds = rh_pending_delayed h
      in case delayed_index (dr_ref dr) ds of
           None \<Rightarrow> h
         | Some i \<Rightarrow> h\<lparr>rh_pending_delayed := butlast (ds[i := last ds])\<rparr>)"

section \<open>Peer lookup and announcements\<close>

definition handle_find_peer :: "HandlerEnv \<Rightarrow> Request \<Rightarrow> RpcHandlers \<Rightarrow> RpcHandlers" where
  "handle_find_peer e req h =
     (case rq_target req of
        None \<Rightarrow> h
      | Some target \<Rightarrow>
          let resp = make_query_response e req (rh_socket h) in
          (case Option.bind (rh_router h) (\<lambda>r. Router_record r target) of
             Some rec \<Rightarrow> send_reply (resp\<lparr>rs_value := Some rec\<rparr>) h
           | None \<Rightarrow>
               let peers = AnnounceStore_get (rh_store h) target
               in send_reply (if peers \<noteq> [] then resp\<lparr>rs_value := Some (pa_value (last peers))\<rparr> else resp) h))"

definition encode_peer_values :: "bytes list \<Rightarrow> bytes option" where
  "encode_peer_values vs =
     (let state = run_steps ((\<lambda>s. Uint_preencode s (of_nat (length vs))) # map (\<lambda>p s. Buffer_preencode s (Some p)) vs) State_init;
          state = run_steps ((\<lambda>s. Uint_encode s (of_nat (length vs))) # map (\<lambda>p s. Buffer_encode s (Some p)) vs) (alloc state)
      in if st_error state then None else Some (buffer_of state))"

definition handle_lookup :: "HandlerEnv \<Rightarrow> Request \<Rightarrow> RpcHandlers \<Rightarrow> RpcHandlers" where
  "handle_lookup e req h =
     (case rq_target req of
        None \<Rightarrow> h
      | Some target \<Rightarrow>
          let resp = make_query_response e req (rh_socket h);
              peers = AnnounceStore_get (rh_store h) target;
              peers = (if length peers > MAX_PEERS_PER_TARGET then take MAX_PEERS_PER_TARGET peers else peers)
          in send_reply
               (if peers \<noteq> []
                then (case encode_peer_values (map pa_value peers) of None \<Rightarrow> resp | Some buf \<Rightarrow> resp\<lparr>rs_value := Some buf\<rparr>)
                else resp) h)"

text \<open>\<^verbatim>\<open>socket_.token_store().validate(req.from.addr.host_string(), token)\<close>\<close>

definition token_valid :: "HandlerEnv \<Rightarrow> Request \<Rightarrow> bytes \<Rightarrow> RpcSocket \<Rightarrow> bool" where
  "token_valid e req token s = TokenStore_validate (he_keyed e) (sk_tokens s) (Ipv4_host_string (rq_from req)) token"

definition MAX_ANNOUNCE_RELAYS :: nat where "MAX_ANNOUNCE_RELAYS = 3"

definition cap_relays :: "PeerRecord \<Rightarrow> PeerRecord" where
  "cap_relays p =
     (if length (pr_relay_addresses p) > MAX_ANNOUNCE_RELAYS
      then p\<lparr>pr_relay_addresses := take MAX_ANNOUNCE_RELAYS (pr_relay_addresses p)\<rparr> else p)"

definition handle_announce :: "HandlerEnv \<Rightarrow> Request \<Rightarrow> RpcHandlers \<Rightarrow> RpcHandlers" where
  "handle_announce e req h =
     (case (rq_target req, rq_token req) of
        (Some target, Some token) \<Rightarrow>
          if \<not> token_valid e req token (rh_socket h) then h
          else
            (case rq_value req of
               None \<Rightarrow> h
             | Some value \<Rightarrow>
                 let ann = fst (decode_announce_msg value) in
                 (case am_peer ann of
                    None \<Rightarrow> if am_refresh ann = None then h else send_empty_reply req h
                  | Some p \<Rightarrow>
                      let p = cap_relays p; ann = ann\<lparr>am_peer := Some p\<rparr> in
                      (case am_signature ann of
                         None \<Rightarrow> h
                       | Some signature \<Rightarrow>
                           if \<not> verify_announce (he_plain e) (he_crypto e) (ns_announce (he_plain e)) target
                                  (rt_id (sk_table (rh_socket h))) token ann signature (pr_public_key p) then h
                           else
                             let stored = \<lparr>pa_from = rq_from req, pa_value = value, pa_created_at = he_now e, pa_ttl = rh_ann_ttl_ms h\<rparr>
                             in send_empty_reply req (h\<lparr>rh_store := AnnounceStore_put (rh_store h) target stored\<rparr>))))
      | _ \<Rightarrow> h)"

definition handle_unannounce :: "HandlerEnv \<Rightarrow> Request \<Rightarrow> RpcHandlers \<Rightarrow> RpcHandlers" where
  "handle_unannounce e req h =
     (case (rq_target req, rq_token req) of
        (Some target, Some token) \<Rightarrow>
          if \<not> token_valid e req token (rh_socket h) then h
          else
            (case rq_value req of
               None \<Rightarrow> h
             | Some value \<Rightarrow>
                 let ann = fst (decode_announce_msg value) in
                 (case (am_peer ann, am_signature ann) of
                    (Some p, Some signature) \<Rightarrow>
                      if \<not> verify_announce (he_plain e) (he_crypto e) (ns_unannounce (he_plain e)) target
                             (rt_id (sk_table (rh_socket h))) token ann signature (pr_public_key p) then h
                      else send_empty_reply req (h\<lparr>rh_store := snd (AnnounceStore_remove (rh_store h) target (rq_from req))\<rparr>)
                  | _ \<Rightarrow> h))
      | _ \<Rightarrow> h)"

section \<open>Storage\<close>

definition send_error :: "Request \<Rightarrow> u32 \<Rightarrow> RpcHandlers \<Rightarrow> RpcHandlers" where
  "send_error req err h = send_reply ((empty_reply (rq_tid req) (rq_from req) None)\<lparr>rs_error := Some err\<rparr>) h"

text \<open>The end of MUTABLE_PUT: the record is compared with the stored one and stored.\<close>

definition store_mutable :: "HandlerEnv \<Rightarrow> Request \<Rightarrow> string \<Rightarrow> MutablePutRequest \<Rightarrow> RpcHandlers \<Rightarrow> RpcHandlers" where
  "store_mutable e req key put h =
     (let (existing_ptr, c) = LruCache_get key (rh_mutables h);
          h = h\<lparr>rh_mutables := c\<rparr>;
          existing = map_option (\<lambda>v. fst (decode_mutable_get_resp v)) existing_ptr
      in if (case existing of None \<Rightarrow> False | Some g \<Rightarrow> mg_seq g = mp_seq put \<and> mg_value g \<noteq> mp_value put)
         then send_error req ERR_SEQ_REUSED h
         else if (case existing of None \<Rightarrow> False | Some g \<Rightarrow> mp_seq put < mg_seq g)
         then send_error req ERR_SEQ_TOO_LOW h
         else
           let stored = \<lparr>mg_seq = mp_seq put, mg_value = mp_value put, mg_signature = mp_signature put\<rparr>
           in send_reply (empty_reply (rq_tid req) (rq_from req) None)
                (h\<lparr>rh_mutables := LruCache_put key (encode_mutable_get_resp stored) (he_now e) (rh_mutables h)\<rparr>))"

definition handle_mutable_put :: "HandlerEnv \<Rightarrow> Request \<Rightarrow> RpcHandlers \<Rightarrow> RpcHandlers" where
  "handle_mutable_put e req h =
     (case (rq_target req, rq_token req, rq_value req) of
        (Some target, Some token, Some value) \<Rightarrow>
          if \<not> token_valid e req token (rh_socket h) then h
          else
            let put = fst (decode_mutable_put value) in
            if he_plain e (mp_public_key put) \<noteq> target then h
            else if mp_value put = [] then h
            else if length (mp_value put) > MAX_MUTABLE_VALUE then h
            else if \<not> verify_mutable (he_plain e) (he_crypto e) (mp_signature put) (mp_seq put) (mp_value put) (mp_public_key put) then h
            else store_mutable e req (to_hex_key target) put h
      | _ \<Rightarrow> h)"

definition handle_mutable_get :: "HandlerEnv \<Rightarrow> Request \<Rightarrow> RpcHandlers \<Rightarrow> RpcHandlers" where
  "handle_mutable_get e req h =
     (case (rq_target req, rq_value req) of
        (Some target, Some value) \<Rightarrow>
          let requested_seq = (if value = [] then 0 else fst (Uint_decode (for_decode (Some value) (length value))));
              resp = make_query_response e req (rh_socket h);
              (stored, c) = LruCache_get (to_hex_key target) (rh_mutables h);
              resp = (case stored of
                        None \<Rightarrow> resp
                      | Some v \<Rightarrow> if mg_seq (fst (decode_mutable_get_resp v)) \<ge> requested_seq then resp\<lparr>rs_value := Some v\<rparr> else resp)
          in send_reply resp (h\<lparr>rh_mutables := c\<rparr>)
      | _ \<Rightarrow> h)"

definition handle_immutable_put :: "HandlerEnv \<Rightarrow> Request \<Rightarrow> RpcHandlers \<Rightarrow> RpcHandlers" where
  "handle_immutable_put e req h =
     (case (rq_target req, rq_token req, rq_value req) of
        (Some target, Some token, Some value) \<Rightarrow>
          if value = [] then h
          else if length value > MAX_IMMUTABLE_VALUE then h
          else if \<not> token_valid e req token (rh_socket h) then h
          else if he_plain e value \<noteq> target then h
          else send_reply (empty_reply (rq_tid req) (rq_from req) None)
                 (h\<lparr>rh_immutables := LruCache_put (to_hex_key target) value (he_now e) (rh_immutables h)\<rparr>)
      | _ \<Rightarrow> h)"

definition handle_immutable_get :: "HandlerEnv \<Rightarrow> Request \<Rightarrow> RpcHandlers \<Rightarrow> RpcHandlers" where
  "handle_immutable_get e req h =
     (case rq_target req of
        None \<Rightarrow> h
      | Some target \<Rightarrow>
          let resp = make_query_response e req (rh_socket h);
              (stored, c) = LruCache_get (to_hex_key target) (rh_immutables h);
              resp = (case stored of None \<Rightarrow> resp | Some v \<Rightarrow> resp\<lparr>rs_value := Some v\<rparr>)
          in send_reply resp (h\<lparr>rh_immutables := c\<rparr>))"

section \<open>Dispatch\<close>

definition call_server :: "RouterCall option \<Rightarrow> RpcHandlers \<Rightarrow> RpcHandlers" where
  "call_server c h = (case c of None \<Rightarrow> h | Some c \<Rightarrow> h\<lparr>rh_calls := rh_calls h @ [c]\<rparr>)"

definition handle_internal :: "HandlerEnv \<Rightarrow> Request \<Rightarrow> RpcHandlers \<Rightarrow> RpcHandlers" where
  "handle_internal e req h =
     (if rq_command req = CMD_PING then handle_ping e req h
      else if rq_command req = CMD_PING_NAT then handle_ping_nat req h
      else if rq_command req = CMD_FIND_NODE then handle_find_node e req h
      else if rq_command req = CMD_DOWN_HINT then handle_down_hint e req h
      else if rq_command req = CMD_DELAYED_PING then handle_delayed_ping req h
      else h)"

definition handle_storage :: "HandlerEnv \<Rightarrow> Request \<Rightarrow> RpcHandlers \<Rightarrow> RpcHandlers" where
  "handle_storage e req h =
     (if rq_command req = CMD_FIND_PEER then handle_find_peer e req h
      else if rq_command req = CMD_LOOKUP then handle_lookup e req h
      else if rq_command req = CMD_ANNOUNCE then handle_announce e req h
      else if rq_command req = CMD_UNANNOUNCE then handle_unannounce e req h
      else if rq_command req = CMD_MUTABLE_PUT then handle_mutable_put e req h
      else if rq_command req = CMD_MUTABLE_GET then handle_mutable_get e req h
      else if rq_command req = CMD_IMMUTABLE_PUT then handle_immutable_put e req h
      else if rq_command req = CMD_IMMUTABLE_GET then handle_immutable_get e req h
      else h)"

definition handle :: "HandlerEnv \<Rightarrow> Request \<Rightarrow> RpcHandlers \<Rightarrow> RpcHandlers" where
  "handle e req h =
     (if rq_internal req then handle_internal e req h
      else if rq_command req = CMD_PEER_HANDSHAKE
      then (case rh_router h of None \<Rightarrow> h | Some r \<Rightarrow> call_server (handle_peer_handshake r req) h)
      else if rq_command req = CMD_PEER_HOLEPUNCH
      then (case rh_router h of None \<Rightarrow> h | Some r \<Rightarrow> call_server (handle_peer_holepunch r req) h)
      else if sk_ephemeral (rh_socket h) then h
      else handle_storage e req h)"

text \<open>The two lambdas \<^verbatim>\<open>handle\<close> gives to the router: a reply through the socket, a relayed request as a datagram.\<close>

definition server_reply :: "RouterCall \<Rightarrow> bytes \<Rightarrow> RpcHandlers \<Rightarrow> RpcHandlers" where
  "server_reply c bs h =
     (case run_reply_fn c bs of
        Reply resp \<Rightarrow> send_reply resp h
      | Relay req \<Rightarrow> h\<lparr>rh_socket := udp_send (encode_request req) (rq_to req) (rh_socket h)\<rparr>)"

text \<open>\<^verbatim>\<open>install\<close> makes \<^verbatim>\<open>handle\<close> the request callback of the socket; a datagram that arrives is processed by the
  socket, which calls it.\<close>

definition install :: "RpcHandlers \<Rightarrow> RpcHandlers" where
  "install h = h\<lparr>rh_socket := (rh_socket h)\<lparr>sk_on_request := True\<rparr>\<rparr>"

definition run_requests :: "HandlerEnv \<Rightarrow> RpcEvent list \<Rightarrow> RpcHandlers \<Rightarrow> RpcHandlers" where
  "run_requests e evs h = foldl (\<lambda>h ev. case ev of RequestCalled req \<Rightarrow> handle e req h | _ \<Rightarrow> h) h evs"

definition receive :: "HandlerEnv \<Rightarrow> bytes \<Rightarrow> Ipv4Address \<Rightarrow> bool \<Rightarrow> RpcHandlers \<Rightarrow> RpcHandlers" where
  "receive e data addr server h =
     (let s = rh_socket h;
          s' = (if server then on_recv_server (he_rpc e) data addr s else on_recv_client (he_rpc e) data addr s)
      in run_requests e (drop (length (sk_trace s)) (sk_trace s')) (h\<lparr>rh_socket := s'\<rparr>))"

end
