(* ===== verification/Handlers_Safety.thy ===== *)
theory Handlers_Safety
  imports Rpc_Run Rpc_Handlers
begin

text \<open>
  The invariant of a serving node: what it stores is authentic and bounded.  Every request, timer and datagram keeps it.
\<close>

section \<open>Keys\<close>

lemma hex_char_inject: "a < 16 \<Longrightarrow> b < 16 \<Longrightarrow> hex_char a = hex_char b \<longleftrightarrow> a = b"
  unfolding hex_char_def by (rule nth_eq_iff_index_eq) simp_all

lemma nibbles_inject:
  fixes a b :: byte
  assumes "unat (drop_bit 4 a) = unat (drop_bit 4 b)" and "unat (a AND 0x0F) = unat (b AND 0x0F)"
  shows "a = b"
proof -
  have nib: "unat x = 16 * unat (drop_bit 4 x) + unat (x AND 0x0F)" for x :: byte
  proof -
    have "x AND 0x0F = take_bit 4 x"
      by (simp add: take_bit_eq_mask mask_eq_exp_minus_1)
    then show ?thesis
      by (simp add: drop_bit_eq_div take_bit_eq_mod unat_div_distrib unat_mod_distrib)
  qed
  show ?thesis
    using nib [of a] nib [of b] assms by (simp add: word_unat_eq_iff)
qed

lemma nibble_bounds: "unat (drop_bit 4 (b :: byte)) < 16" "unat ((b :: byte) AND 0x0F) < 16"
proof -
  show "unat (drop_bit 4 b) < 16"
    using unsigned_less [of b, where 'a = nat] by (simp add: drop_bit_eq_div unat_div_distrib)
  have "b AND 0x0F = take_bit 4 b"
    by (simp add: take_bit_eq_mask mask_eq_exp_minus_1)
  then show "unat (b AND 0x0F) < 16"
    by (simp add: take_bit_eq_mod unat_mod_distrib)
qed

lemma to_hex_key_inject: "to_hex_key a = to_hex_key b \<longleftrightarrow> a = b"
proof (induction a arbitrary: b)
  case Nil
  then show ?case
    by (cases b) (simp_all add: to_hex_key_def)
next
  case (Cons x a)
  then show ?case
    using nibbles_inject nibble_bounds hex_char_inject
    by (cases b) (auto simp: to_hex_key_def)
qed

section \<open>Caches\<close>

lemma lru_put_set: "lru_ok c \<Longrightarrow> set (lru_list (LruCache_put k v now c)) \<subseteq>
    insert \<lparr>en_key = k, en_value = v, en_created_at = now\<rparr> (set (lru_list c))"
  by (auto simp: lru.put_contents dest!: in_set_takeD)

lemma lru_get_set: "lru_ok c \<Longrightarrow> set (lru_list (snd (LruCache_get k c))) = set (lru_list c)"
proof -
  assume c: "lru_ok c"
  have "x = y" if "x \<in> set (lru_list c)" "y \<in> set (lru_list c)" "en_key x = en_key y" for x y
    using lru.keys_distinct [OF c] that by (auto simp: distinct_map dest: inj_onD)
  then show ?thesis
    using lru_find_Some [OF lru.keys_distinct [OF c]] by (auto simp: lru.fetch_contents [OF c] split: option.split)
qed

lemma lru_gc_set: "lru_ok c \<Longrightarrow> set (lru_list (LruCache_gc now age c)) \<subseteq> set (lru_list c)"
  by (auto simp: lru.purge_contents)

section \<open>The invariant\<close>

text \<open>A stored mutable record is the encoding of a version that its key's owner signed.\<close>

definition mutable_entry_ok :: "plain_hash \<Rightarrow> Crypto \<Rightarrow> (string, bytes) Entry \<Rightarrow> bool" where
  "mutable_entry_ok plain cr x \<longleftrightarrow> (\<exists>pk g. en_key x = to_hex_key (plain pk) \<and> en_value x = encode_mutable_get_resp g \<and>
     MutableGet_ok g \<and> mg_value g \<noteq> [] \<and> length (mg_value g) \<le> MAX_MUTABLE_VALUE \<and>
     verify_mutable plain cr (mg_signature g) (mg_seq g) (mg_value g) pk)"

text \<open>A stored immutable record is the value that its key is the hash of.\<close>

definition immutable_entry_ok :: "plain_hash \<Rightarrow> (string, bytes) Entry \<Rightarrow> bool" where
  "immutable_entry_ok plain x \<longleftrightarrow> en_key x = to_hex_key (plain (en_value x)) \<and> en_value x \<noteq> [] \<and>
     length (en_value x) \<le> MAX_IMMUTABLE_VALUE"

text \<open>A stored announcement was signed by the peer it names, for the target it is stored under.\<close>

definition announcement_ok :: "plain_hash \<Rightarrow> Crypto \<Rightarrow> TargetKey \<Rightarrow> PeerAnnouncement \<Rightarrow> bool" where
  "announcement_ok plain cr target a \<longleftrightarrow> (\<exists>p sig node_id token.
     let ann = fst (decode_announce_msg (pa_value a)) in
       am_peer ann = Some p \<and> am_signature ann = Some sig \<and>
       verify_announce plain cr (ns_announce plain) target node_id token (ann\<lparr>am_peer := Some (cap_relays p)\<rparr>) sig (pr_public_key p))"

definition storage_ok :: "plain_hash \<Rightarrow> Crypto \<Rightarrow> RpcHandlers \<Rightarrow> bool" where
  "storage_ok plain cr h \<longleftrightarrow>
     (\<forall>x \<in> set (lru_list (rh_mutables h)). mutable_entry_ok plain cr x) \<and>
     (\<forall>x \<in> set (lru_list (rh_immutables h)). immutable_entry_ok plain x) \<and>
     (\<forall>t. \<forall>a \<in> set (AnnounceStore_get (rh_store h) t). announcement_ok plain cr t a)"

definition structure_ok :: "plain_hash \<Rightarrow> RpcHandlers \<Rightarrow> bool" where
  "structure_ok plain h \<longleftrightarrow> rpc_ok plain (rh_socket h) \<and> store_ok (rh_store h) \<and> lru_ok (rh_mutables h) \<and>
     lru_ok (rh_immutables h) \<and> length (rh_find_node_rate h) \<le> 8192 \<and> length (rh_down_hint_rate h) \<le> 4096 \<and>
     length (rh_pending_delayed h) \<le> MAX_PENDING_DELAYED \<and> distinct (map dr_ref (rh_pending_delayed h)) \<and>
     (\<forall>d \<in> set (rh_pending_delayed h). dr_ref d < rh_next_ref h)"

definition handlers_ok :: "plain_hash \<Rightarrow> Crypto \<Rightarrow> RpcHandlers \<Rightarrow> bool" where
  "handlers_ok plain cr h \<longleftrightarrow> structure_ok plain h \<and> storage_ok plain cr h"

lemma rpc_ok_reply [simp]: "rpc_ok plain (RpcSocket_reply resp s) = rpc_ok plain s"
  by (simp add: RpcSocket_reply_def)

lemma reply_frame [simp]:
  "rh_store (send_reply resp h) = rh_store h" "rh_mutables (send_reply resp h) = rh_mutables h"
  "rh_immutables (send_reply resp h) = rh_immutables h" "rh_pending_delayed (send_reply resp h) = rh_pending_delayed h"
  "rh_find_node_rate (send_reply resp h) = rh_find_node_rate h" "rh_down_hint_rate (send_reply resp h) = rh_down_hint_rate h"
  "rh_next_ref (send_reply resp h) = rh_next_ref h" "rh_calls (send_reply resp h) = rh_calls h"
  "rh_router (send_reply resp h) = rh_router h" "rh_socket (send_reply resp h) = RpcSocket_reply resp (rh_socket h)"
  by (simp_all add: send_reply_def)

lemma handlers_ok_reply [simp]:
  "handlers_ok plain cr (send_reply resp h) = handlers_ok plain cr h"
  "handlers_ok plain cr (send_empty_reply req h) = handlers_ok plain cr h"
  "handlers_ok plain cr (send_error req err h) = handlers_ok plain cr h"
  by (simp_all add: send_empty_reply_def send_error_def handlers_ok_def structure_ok_def storage_ok_def)

lemma handlers_ok_socket: "handlers_ok plain cr h \<Longrightarrow> rpc_ok plain s \<Longrightarrow> handlers_ok plain cr (h\<lparr>rh_socket := s\<rparr>)"
  by (simp add: handlers_ok_def structure_ok_def storage_ok_def)

lemma handlers_ok_calls [simp]: "handlers_ok plain cr (h\<lparr>rh_calls := cs\<rparr>) = handlers_ok plain cr h"
  by (simp add: handlers_ok_def structure_ok_def storage_ok_def)

lemma handlers_okD:
  assumes "handlers_ok plain cr h"
  shows "rpc_ok plain (rh_socket h)" "lru_ok (rh_mutables h)" "lru_ok (rh_immutables h)" "store_ok (rh_store h)"
    "x \<in> set (lru_list (rh_mutables h)) \<Longrightarrow> mutable_entry_ok plain cr x"
    "x \<in> set (lru_list (rh_immutables h)) \<Longrightarrow> immutable_entry_ok plain x"
    "a \<in> set (AnnounceStore_get (rh_store h) t) \<Longrightarrow> announcement_ok plain cr t a"
  using assms by (auto simp: handlers_ok_def structure_ok_def storage_ok_def)

lemma handlers_ok_mutables:
  "handlers_ok plain cr h \<Longrightarrow> lru_ok c \<Longrightarrow> (\<And>x. x \<in> set (lru_list c) \<Longrightarrow> mutable_entry_ok plain cr x) \<Longrightarrow>
     handlers_ok plain cr (h\<lparr>rh_mutables := c\<rparr>)"
  by (simp add: handlers_ok_def structure_ok_def storage_ok_def)

lemma handlers_ok_immutables:
  "handlers_ok plain cr h \<Longrightarrow> lru_ok c \<Longrightarrow> (\<And>x. x \<in> set (lru_list c) \<Longrightarrow> immutable_entry_ok plain x) \<Longrightarrow>
     handlers_ok plain cr (h\<lparr>rh_immutables := c\<rparr>)"
  by (simp add: handlers_ok_def structure_ok_def storage_ok_def)

lemma handlers_ok_store:
  "handlers_ok plain cr h \<Longrightarrow> store_ok st \<Longrightarrow> (\<And>t a. a \<in> set (AnnounceStore_get st t) \<Longrightarrow> announcement_ok plain cr t a) \<Longrightarrow>
     handlers_ok plain cr (h\<lparr>rh_store := st\<rparr>)"
  by (simp add: handlers_ok_def structure_ok_def storage_ok_def)

lemma handlers_ok_fetch:
  assumes "handlers_ok plain cr h"
  shows "handlers_ok plain cr (h\<lparr>rh_mutables := snd (LruCache_get k (rh_mutables h))\<rparr>)"
    and "handlers_ok plain cr (h\<lparr>rh_immutables := snd (LruCache_get k (rh_immutables h))\<rparr>)"
  by (intro handlers_ok_mutables handlers_ok_immutables assms; simp add: lru.fetch_inv lru_get_set handlers_okD [OF assms])+

lemma handlers_ok_fetched:
  assumes "handlers_ok plain cr h"
  shows "LruCache_get k (rh_mutables h) = (v, c) \<Longrightarrow> handlers_ok plain cr (h\<lparr>rh_mutables := c\<rparr>)"
    and "LruCache_get k (rh_immutables h) = (v, c) \<Longrightarrow> handlers_ok plain cr (h\<lparr>rh_immutables := c\<rparr>)"
  using handlers_ok_fetch [OF assms, of k] by simp_all

section \<open>Internal commands\<close>

lemma note_rate_length: "length (note_rate cap now src m) \<le> cap"
  by (simp add: note_rate_def Let_def)

lemma rpc_ok_hint:
  assumes ok: "rpc_ok plain s" and plain: "hash32 plain" "he_plain e = plain"
  shows "rpc_ok plain (hint_node e value s)"
proof -
  let ?t = "plain (take 6 value)" and ?f = "\<lambda>n :: Node. n\<lparr>node_down_hints := node_down_hints n + 1\<rparr>"
  have len: "length ?t = 32"
    using plain(1) by (simp add: hash32_def)
  have "rpc_ok plain (s\<lparr>sk_table := RoutingTable_update (sk_table s) ?t ?f\<rparr>)"
    by (intro rpc_ok_table [OF ok] table_auth_update rpc_ok_auth(1) [OF ok] len) simp_all
  moreover have "length (node_id n) = 32" if "RoutingTable_get (sk_table s) ?t = Some n" for n
    using that get_iff [OF rpc_ok_auth(2) [OF ok] len] len by auto
  ultimately show ?thesis
    using ok by (auto simp: hint_node_def plain(2) Let_def split: option.split intro!: rpc_ok_check_node)
qed

lemma handlers_ok_internal:
  assumes ok: "handlers_ok plain cr h" and plain: "hash32 plain" "he_plain e = plain"
  shows "handlers_ok plain cr (handle_internal e req h)"
proof -
  have nat: "handlers_ok plain cr (handle_ping_nat req h)"
    using ok by (auto simp: handle_ping_nat_def Let_def split: option.split)
  have find: "handlers_ok plain cr (handle_find_node e req h)"
    using ok note_rate_length [of 8192]
    by (auto simp: handle_find_node_def Let_def handlers_ok_def structure_ok_def storage_ok_def)
  have rate: "handlers_ok plain cr (h\<lparr>rh_down_hint_rate := note_rate 4096 now src m\<rparr>)" for now src m
    using ok note_rate_length [of 4096] by (auto simp: handlers_ok_def structure_ok_def storage_ok_def)
  have hint: "handlers_ok plain cr (handle_down_hint e req h)"
    using ok rate handlers_ok_socket [OF rate rpc_ok_hint [OF handlers_okD(1) [OF ok] plain]]
    by (auto simp: handle_down_hint_def Let_def split: option.split)
  have delayed: "handlers_ok plain cr (handle_delayed_ping req h)"
    using ok by (auto simp: handle_delayed_ping_def Let_def handlers_ok_def structure_ok_def storage_ok_def less_Suc_eq
        split: option.split)
  show ?thesis
    using ok nat find hint delayed by (simp add: handle_internal_def handle_ping_def Let_def)
qed

section \<open>Storage commands\<close>

lemma decoded_put_lengths:
  "length (mp_public_key (fst (decode_mutable_put v))) = 32" "length (mp_signature (fst (decode_mutable_put v))) = 64"
proof -
  have get: "length (fst (get_bytes s n)) = n" for s n
    by (auto simp: get_bytes_def mem_read_def split: option.split)
  have fixed: "length k = 32" if "Fixed32_decode s = (k, s')" for s s' k
    using that get [of s 32] by (auto simp: Fixed32_decode_def Fixed_decode_def split: if_splits)
  have fixed': "length k = 64" if "Fixed64_decode s = (k, s')" for s s' k
    using that get [of s 64] by (auto simp: Fixed64_decode_def Fixed_decode_def split: if_splits)
  show "length (mp_public_key (fst (decode_mutable_put v))) = 32" "length (mp_signature (fst (decode_mutable_put v))) = 64"
    by (auto simp: decode_mutable_put_def mutable_put_steps_def and_then_def field_def vector_field_def local_field_def
        MutablePutRequest_init_def dest!: fixed fixed' split: prod.splits option.splits if_splits)
qed

lemma handlers_ok_announce:
  assumes ok: "handlers_ok plain cr h" and e: "he_plain e = plain" "he_crypto e = cr"
  shows "handlers_ok plain cr (handle_announce e req h)"
proof -
  have put: "handlers_ok plain cr (h\<lparr>rh_store := AnnounceStore_put (rh_store h) target a\<rparr>)" if "announcement_ok plain cr target a" for target a
  proof (rule handlers_ok_store [OF ok])
    show "store_ok (AnnounceStore_put (rh_store h) target a)"
      by (rule put_cases(1) [OF handlers_okD(4) [OF ok]])
    show "announcement_ok plain cr t x" if "x \<in> set (AnnounceStore_get (AnnounceStore_put (rh_store h) target a) t)" for t x
    proof -
      have "t = target \<and> x = a \<or> x \<in> set (AnnounceStore_get (rh_store h) t)"
        using that put_peer_spec [OF get_peers_ok [OF handlers_okD(4) [OF ok], of target], where ann = a]
        by (auto simp: put_cases(2) [OF handlers_okD(4) [OF ok]] split: if_splits)
      then show ?thesis
        using \<open>announcement_ok plain cr target a\<close> handlers_okD(7) [OF ok] by blast
    qed
  qed
  show ?thesis
  proof (cases "rq_target req"; cases "rq_token req"; cases "rq_value req")
    fix target token v
    assume r: "rq_target req = Some target" "rq_token req = Some token" "rq_value req = Some v"
    let ?ann = "fst (decode_announce_msg v)"
    have "announcement_ok plain cr target \<lparr>pa_from = rq_from req, pa_value = v, pa_created_at = now, pa_ttl = ttl\<rparr>"
      if "am_peer ?ann = Some p" "am_signature ?ann = Some sig"
        "verify_announce plain cr (ns_announce plain) target nid token (?ann\<lparr>am_peer := Some (cap_relays p)\<rparr>) sig
           (pr_public_key (cap_relays p))" for p sig now ttl nid
      using that by (auto simp: announcement_ok_def Let_def cap_relays_def split: if_splits)
    then show ?thesis
      using ok put by (auto simp: handle_announce_def r e Let_def split: option.split)
  qed (use ok in \<open>simp_all add: handle_announce_def\<close>)
qed

lemma handlers_ok_unannounce:
  assumes ok: "handlers_ok plain cr h"
  shows "handlers_ok plain cr (handle_unannounce e req h)"
proof -
  have "handlers_ok plain cr (h\<lparr>rh_store := snd (AnnounceStore_remove (rh_store h) target src)\<rparr>)" for target src
    using handlers_okD(7) [OF ok] by (intro handlers_ok_store [OF ok])
      (auto simp: remove_cases_ann [OF handlers_okD(4) [OF ok]] split: if_splits)
  then show ?thesis
    using ok by (auto simp: handle_unannounce_def Let_def split: prod.split option.split)
qed

lemma handlers_ok_mutable_put:
  assumes ok: "handlers_ok plain cr h" and e: "he_plain e = plain" "he_crypto e = cr"
  shows "handlers_ok plain cr (handle_mutable_put e req h)"
proof -
  have store: "handlers_ok plain cr (store_mutable e req (to_hex_key (plain pk)) put h)"
    if v: "verify_mutable plain cr (mp_signature put) (mp_seq put) (mp_value put) pk" "mp_value put \<noteq> []"
      "length (mp_value put) \<le> MAX_MUTABLE_VALUE" "length (mp_signature put) = 64" for put pk
  proof -
    let ?g = "\<lparr>mg_seq = mp_seq put, mg_value = mp_value put, mg_signature = mp_signature put\<rparr>" and ?k = "to_hex_key (plain pk)"
    let ?h = "h\<lparr>rh_mutables := snd (LruCache_get ?k (rh_mutables h))\<rparr>"
    have h: "handlers_ok plain cr ?h"
      by (rule handlers_ok_fetch(1) [OF ok])
    have new: "mutable_entry_ok plain cr \<lparr>en_key = ?k, en_value = encode_mutable_get_resp ?g, en_created_at = now\<rparr>" for now
      using v by (auto simp: mutable_entry_ok_def MutableGet_ok_def MAX_MUTABLE_VALUE_def intro!: exI [of _ pk] exI [of _ ?g])
    have "handlers_ok plain cr (?h\<lparr>rh_mutables := LruCache_put ?k (encode_mutable_get_resp ?g) now (rh_mutables ?h)\<rparr>)" for now
      using lru_put_set [OF handlers_okD(2) [OF h]] new handlers_okD(5) [OF h]
      by (intro handlers_ok_mutables [OF h] lru.put_inv handlers_okD(2) [OF h]) blast
    then show ?thesis
      using h by (auto simp: store_mutable_def Let_def split: prod.split option.split)
  qed
  show ?thesis
    using ok store decoded_put_lengths(2) by (auto simp: handle_mutable_put_def e Let_def split: prod.split option.split)
qed

lemma handlers_ok_immutable_put:
  assumes ok: "handlers_ok plain cr h" and e: "he_plain e = plain"
  shows "handlers_ok plain cr (handle_immutable_put e req h)"
proof -
  have "handlers_ok plain cr (h\<lparr>rh_immutables := LruCache_put (to_hex_key (plain v)) v now (rh_immutables h)\<rparr>)"
    if "v \<noteq> []" "length v \<le> MAX_IMMUTABLE_VALUE" for v now
    using lru_put_set [OF handlers_okD(3) [OF ok], of "to_hex_key (plain v)" v now] handlers_okD(6) [OF ok] that
    by (intro handlers_ok_immutables [OF ok] lru.put_inv handlers_okD(3) [OF ok]) (auto simp: immutable_entry_ok_def)
  then show ?thesis
    using ok by (auto simp: handle_immutable_put_def e Let_def split: prod.split option.split)
qed

lemma handlers_ok_gets:
  assumes "handlers_ok plain cr h"
  shows "handlers_ok plain cr (handle_find_peer e req h)" "handlers_ok plain cr (handle_lookup e req h)"
    "handlers_ok plain cr (handle_mutable_get e req h)" "handlers_ok plain cr (handle_immutable_get e req h)"
  using assms handlers_ok_fetched [OF assms]
  by (auto simp: handle_find_peer_def handle_lookup_def handle_mutable_get_def handle_immutable_get_def Let_def
      split: prod.split option.split)

lemma handlers_ok_handle:
  assumes ok: "handlers_ok plain cr h" and e: "hash32 plain" "he_plain e = plain" "he_crypto e = cr"
  shows "handlers_ok plain cr (handle e req h)"
  using ok handlers_ok_internal [OF ok e(1,2)] handlers_ok_announce [OF ok e(2,3)] handlers_ok_unannounce [OF ok]
    handlers_ok_mutable_put [OF ok e(2,3)] handlers_ok_immutable_put [OF ok e(2)] handlers_ok_gets [OF ok]
  by (simp add: handle_def handle_storage_def call_server_def split: option.split)

section \<open>Runs\<close>

lemma handlers_ok_receive:
  assumes ok: "handlers_ok plain cr h" and e: "hash32 plain" "he_plain e = plain" "he_crypto e = cr"
  shows "handlers_ok plain cr (receive e data addr server h)"
proof -
  have run: "handlers_ok plain cr (run_requests e evs h')" if "handlers_ok plain cr h'" for evs h'
    using that unfolding run_requests_def
    by (induction evs arbitrary: h') (auto simp: handlers_ok_handle e split: RpcEvent.split)
  have "rpc_ok plain (on_recv_client (he_rpc e) data addr (rh_socket h))" "rpc_ok plain (on_recv_server (he_rpc e) data addr (rh_socket h))"
    using rpc_ok_handle_message rpc_ok_recv_server handlers_okD(1) [OF ok] e by (auto simp: on_recv_client_def)
  then show ?thesis
    using run handlers_ok_socket [OF ok] by (simp add: receive_def Let_def)
qed

lemma delayed_index_Some: "delayed_index ref ds = Some i \<Longrightarrow> i < length ds \<and> dr_ref (ds ! i) = ref"
  by (induction ds arbitrary: i) (auto split: if_splits)

lemma handlers_ok_delayed:
  assumes "handlers_ok plain cr h"
  shows "handlers_ok plain cr (on_delayed_ping_fire d h)"
proof (cases "delayed_index (dr_ref d) (rh_pending_delayed h)")
  case (Some i)
  let ?ds = "rh_pending_delayed h"
  have i: "i < length ?ds"
    using delayed_index_Some [OF Some] by simp
  let ?new = "butlast (?ds[i := last ?ds])"
  have m: "mset (?ds ! i # ?new) = mset ?ds"
    using mset_swap_pop_index [OF i] .
  have "mset (map dr_ref (?ds ! i # ?new)) = mset (map dr_ref ?ds)"
    unfolding mset_map m ..
  moreover have "distinct (map dr_ref ?ds)"
    using assms by (simp add: handlers_ok_def structure_ok_def)
  ultimately have "distinct (map dr_ref (?ds ! i # ?new))"
    using mset_eq_imp_distinct_iff by blast
  then have "distinct (map dr_ref ?new)"
    by simp
  moreover have "set ?new \<subseteq> set ?ds"
    using mset_eq_setD [OF m] by auto
  ultimately show ?thesis
    using assms Some by (auto simp: on_delayed_ping_fire_def Let_def handlers_ok_def structure_ok_def storage_ok_def)
qed (use assms in \<open>simp add: on_delayed_ping_fire_def Let_def\<close>)

end
