(* ===== verification/Handlers_Run.thy ===== *)
theory Handlers_Run
  imports Handlers_Safety
begin

text \<open>
  A serving node over time: its runs, what its stores promise in every reachable state, and what a request may change,
  answer and cost.
\<close>

section \<open>Runs\<close>

text \<open>An operation of the socket that keeps the socket's invariant; theory \<open>Rpc_Run\<close> shows it of each of them.\<close>

definition keeps_rpc :: "plain_hash \<Rightarrow> (RpcSocket \<Rightarrow> RpcSocket) \<Rightarrow> bool" where
  "keeps_rpc plain f \<longleftrightarrow> (\<forall>s. rpc_ok plain s \<longrightarrow> rpc_ok plain (f s))"

inductive handlers_run :: "plain_hash \<Rightarrow> Crypto \<Rightarrow> RpcHandlers \<Rightarrow> bool" for plain cr where
  start: "rpc_run plain s \<Longrightarrow> handlers_run plain cr (RpcHandlers_new s router cfg)"
| install: "handlers_run plain cr h \<Longrightarrow> handlers_run plain cr (install h)"
| receive: "handlers_run plain cr h \<Longrightarrow> he_plain e = plain \<Longrightarrow> he_crypto e = cr \<Longrightarrow>
    handlers_run plain cr (receive e data addr server h)"
| gc: "handlers_run plain cr h \<Longrightarrow> handlers_run plain cr (on_gc_tick e h)"
| delayed: "handlers_run plain cr h \<Longrightarrow> d \<in> set (rh_pending_delayed h) \<Longrightarrow> handlers_run plain cr (on_delayed_ping_fire d h)"
| answer: "handlers_run plain cr h \<Longrightarrow> c \<in> set (rh_calls h) \<Longrightarrow> handlers_run plain cr (server_reply c bs h)"
| router: "handlers_run plain cr h \<Longrightarrow> handlers_run plain cr (h\<lparr>rh_router := r\<rparr>)"
| socket: "handlers_run plain cr h \<Longrightarrow> keeps_rpc plain f \<Longrightarrow> handlers_run plain cr (h\<lparr>rh_socket := f (rh_socket h)\<rparr>)"
| destroy: "handlers_run plain cr h \<Longrightarrow> handlers_run plain cr (RpcHandlers_destroy h)"

lemma handlers_ok_new: "rpc_ok plain s \<Longrightarrow> handlers_ok plain cr (RpcHandlers_new s r cfg)"
  by (simp add: handlers_ok_def structure_ok_def storage_ok_def RpcHandlers_new_def lru_ok_new store_ok_def AnnounceStore_get_def
      lru_list_def LruCache_new_def) (simp add: lru_ok_new [unfolded LruCache_new_def])

lemma handlers_ok_gc:
  assumes "handlers_ok plain cr h"
  shows "handlers_ok plain cr (on_gc_tick e h)"
proof -
  note h = handlers_okD [OF assms]
  let ?h = "h\<lparr>rh_mutables := LruCache_gc (he_now e) (rh_storage_ttl_ms h) (rh_mutables h)\<rparr>"
  have "handlers_ok plain cr ?h"
    by (rule handlers_ok_mutables [OF assms lru.purge_inv [OF h(2)] h(5)]) (use lru_gc_set [OF h(2)] in blast)
  then have "handlers_ok plain cr (?h\<lparr>rh_immutables := LruCache_gc (he_now e) (rh_storage_ttl_ms h) (rh_immutables h)\<rparr>)"
    by (rule handlers_ok_immutables [OF _ lru.purge_inv [OF h(3)] h(6)]) (use lru_gc_set [OF h(3)] in blast)
  then show ?thesis
    using handlers_ok_store [OF _ gc_cases(1) [OF h(4)], of plain cr _ "he_now e"] h(7)
    by (simp add: on_gc_tick_def gc_cases(2) [OF h(4)])
qed

lemma handlers_ok_server_reply: "handlers_ok plain cr h \<Longrightarrow> handlers_ok plain cr (server_reply c bs h)"
  by (auto simp: server_reply_def handlers_okD(1) intro: handlers_ok_socket split: RouterOutput.split)

lemma handlers_run_ok:
  assumes "handlers_run plain cr h" and "hash32 plain"
  shows "handlers_ok plain cr h"
  using assms(1)
proof (induction rule: handlers_run.induct)
  case (start s router cfg)
  then show ?case
    by (simp add: handlers_ok_new rpc_run_ok assms(2))
next
  case (install h)
  then show ?case
    using handlers_okD(1) by (auto simp: install_def intro: handlers_ok_socket)
next
  case (router h r)
  then show ?case
    by (simp add: handlers_ok_def structure_ok_def storage_ok_def)
next
  case (socket h f)
  then show ?case
    using handlers_okD(1) by (auto simp: keeps_rpc_def intro: handlers_ok_socket)
next
  case (destroy h)
  then show ?case
    by (simp add: RpcHandlers_destroy_def handlers_ok_def structure_ok_def storage_ok_def)
qed (simp_all add: handlers_ok_receive assms(2) handlers_ok_gc handlers_ok_delayed handlers_ok_server_reply)

section \<open>What a node stores\<close>

lemma decode_encoded_get: "MutableGet_ok g \<Longrightarrow> fst (decode_mutable_get_resp (encode_mutable_get_resp g)) = g"
  using step_reads_run [OF mutable_get_steps_read length_mutable_wires(2)]
  by (simp add: decode_mutable_get_resp_def encode_mutable_wire)

lemma fetched_entry:
  assumes "lru_ok c" "fst (LruCache_get k c) = Some v"
  obtains x where "x \<in> set (lru_list c)" "en_key x = k" "en_value x = v"
  using assms lru_find_Some [OF lru.keys_distinct [OF assms(1)]] by (auto simp: lru.fetch_value)

text \<open>The version of a mutable record a node holds under a key.\<close>

definition stored_version :: "string \<Rightarrow> RpcHandlers \<Rightarrow> MutableGetResponse option" where
  "stored_version key h = map_option (\<lambda>v. fst (decode_mutable_get_resp v)) (fst (LruCache_get key (rh_mutables h)))"

lemma stored_version_entry:
  assumes ok: "handlers_ok plain cr h" and "stored_version key h = Some g"
  obtains pk where "key = to_hex_key (plain pk)" "fst (LruCache_get key (rh_mutables h)) = Some (encode_mutable_get_resp g)"
    "MutableGet_ok g" "mg_value g \<noteq> []" "length (mg_value g) \<le> MAX_MUTABLE_VALUE"
    "verify_mutable plain cr (mg_signature g) (mg_seq g) (mg_value g) pk"
proof -
  obtain v where v: "fst (LruCache_get key (rh_mutables h)) = Some v" "g = fst (decode_mutable_get_resp v)"
    using assms(2) by (auto simp: stored_version_def)
  obtain x where x: "x \<in> set (lru_list (rh_mutables h))" "en_key x = key" "en_value x = v"
    by (rule fetched_entry [OF handlers_okD(2) [OF ok] v(1)])
  then show ?thesis
    using handlers_okD(5) [OF ok x(1)] v that by (auto simp: mutable_entry_ok_def decode_encoded_get)
qed

text \<open>C5. In every state a serving node can reach, whatever datagrams it received, what it stores is authentic.  The value
  stored under a target of immutable storage is nonempty and hashes to that target; a mutable record is a version that the
  owner of its key signed, and its target is the hash of that key; an announcement was signed by the peer it names for the
  target it is stored under; and every node of the routing table has the identifier of its address.\<close>

theorem node_storage_authentic:
  assumes "handlers_run plain cr h" and "hash32 plain"
  shows "(\<forall>target v. fst (LruCache_get (to_hex_key target) (rh_immutables h)) = Some v \<longrightarrow> plain v = target \<and> v \<noteq> []) \<and>
     (\<forall>target g. stored_version (to_hex_key target) h = Some g \<longrightarrow>
        (\<exists>pk. target = plain pk \<and> verify_mutable plain cr (mg_signature g) (mg_seq g) (mg_value g) pk)) \<and>
     (\<forall>target. \<forall>a \<in> set (AnnounceStore_get (rh_store h) target). announcement_ok plain cr target a) \<and>
     (\<forall>n \<in> nodes_of (sk_table (rh_socket h)).
        node_id n = compute_peer_id plain (Ipv4_from_string (node_host n) (node_port n)))"
proof -
  note ok = handlers_run_ok [OF assms]
  have "plain v = target \<and> v \<noteq> []" if "fst (LruCache_get (to_hex_key target) (rh_immutables h)) = Some v" for target v
    using fetched_entry [OF handlers_okD(3) [OF ok] that] handlers_okD(6) [OF ok]
    by (metis immutable_entry_ok_def to_hex_key_inject)
  moreover have "\<exists>pk. target = plain pk \<and> verify_mutable plain cr (mg_signature g) (mg_seq g) (mg_value g) pk"
    if "stored_version (to_hex_key target) h = Some g" for target g
    using stored_version_entry [OF ok that] by (metis to_hex_key_inject)
  moreover have "node_id n = compute_peer_id plain (Ipv4_from_string (node_host n) (node_port n))"
    if "n \<in> nodes_of (sk_table (rh_socket h))" for n
    using rpc_ok_auth(1) [OF handlers_okD(1) [OF ok]] that by (auto simp: table_auth_def authentic_def)
  ultimately show ?thesis
    using handlers_okD(7) [OF ok] by blast
qed

definition demo_handlers :: RpcHandlers where
  "demo_handlers = RpcHandlers_new demo_socket None StorageCacheConfig_init"

lemma demo_handlers_run: "handlers_run zero_hash cr demo_handlers"
  unfolding demo_handlers_def by (rule handlers_run.start [OF rpc_demo_run(1)])

theorem node_storage_authentic_witness:
  "stored_version (to_hex_key []) (receive \<lparr>he_rpc = demo_rpc_env, he_keyed = (\<lambda>m k. []), he_crypto = echo_crypto\<rparr> [1, 2, 3] demo_peer False demo_handlers) = None"
proof (rule ccontr)
  let ?e = "\<lparr>he_rpc = demo_rpc_env, he_keyed = (\<lambda>m k. []), he_crypto = echo_crypto\<rparr>"
  let ?h = "receive ?e [1, 2, 3] demo_peer False demo_handlers"
  have run: "handlers_run zero_hash echo_crypto ?h"
    by (rule handlers_run.receive [OF demo_handlers_run]) (simp_all add: demo_plain)
  assume "stored_version (to_hex_key []) ?h \<noteq> None"
  then obtain g where "stored_version (to_hex_key []) ?h = Some g"
    by blast
  then obtain pk where "[] = zero_hash pk"
    using node_storage_authentic [OF run zero_hash32] by blast
  then show False
    by (simp add: zero_hash_def)
qed

text \<open>C10. Requests of other nodes cannot make a node use unbounded memory: the two value caches, the announcements (65536
  targets, 20 each), the rate limiter maps, the scheduled replies and the queue of requests keep their caps in every reachable
  state, and no stored value exceeds 32768 bytes.\<close>

theorem node_memory_bounded:
  assumes "handlers_run plain cr h" and "hash32 plain"
  shows "LruCache_size (rh_mutables h) \<le> max 1 (lc_max_size (rh_mutables h)) \<and>
     LruCache_size (rh_immutables h) \<le> max 1 (lc_max_size (rh_immutables h)) \<and>
     target_count (rh_store h) \<le> MAX_TOTAL_TARGETS \<and>
     (\<forall>t. length (AnnounceStore_get (rh_store h) t) \<le> MAX_PEERS_PER_TARGET) \<and>
     length (rh_find_node_rate h) \<le> 8192 \<and> length (rh_down_hint_rate h) \<le> 4096 \<and>
     length (rh_pending_delayed h) \<le> MAX_PENDING_DELAYED \<and> length (sk_pending (rh_socket h)) \<le> MAX_PENDING \<and>
     (\<forall>k v. fst (LruCache_get k (rh_immutables h)) = Some v \<longrightarrow> length v \<le> 32768) \<and>
     (\<forall>k g. stored_version k h = Some g \<longrightarrow> length (mg_value g) \<le> 32768)"
proof -
  note ok = handlers_run_ok [OF assms]
  have size: "LruCache_size c \<le> max 1 (lc_max_size c)" if "lru_ok c" for c :: "(string, bytes) LruCache"
  proof -
    have "distinct (map fst (lc_map c))" "set (map fst (lc_map c)) = set (map en_key (lru_list c))" "distinct (map en_key (lru_list c))"
      using that by (auto simp: lru_ok_def lru_list_def image_image case_prod_unfold)
    then have "length (lc_map c) = length (lc_entries c)"
      by (metis distinct_card length_map lru_list_def)
    then show ?thesis
      using that by (simp add: LruCache_size_def lru_ok_def)
  qed
  have "length v \<le> 32768" if "fst (LruCache_get k (rh_immutables h)) = Some v" for k v
    using fetched_entry [OF handlers_okD(3) [OF ok] that] handlers_okD(6) [OF ok]
    by (metis immutable_entry_ok_def MAX_IMMUTABLE_VALUE_def)
  moreover have "length (mg_value g) \<le> 32768" if "stored_version k h = Some g" for k g
    using stored_version_entry [OF ok that] by (metis MAX_MUTABLE_VALUE_def)
  moreover have "length (AnnounceStore_get (rh_store h) t) \<le> MAX_PEERS_PER_TARGET" for t
    using get_peers_ok [OF handlers_okD(4) [OF ok], of t] by (simp add: peers_ok_def)
  ultimately show ?thesis
    using ok size by (auto simp: handlers_ok_def structure_ok_def rpc_ok_def store_ok_def target_count_def)
qed

theorem node_memory_bounded_witness: "length (rh_find_node_rate demo_handlers) \<le> 8192"
  using node_memory_bounded [OF demo_handlers_run zero_hash32] by blast

end
