(* ===== verification/Handlers_Props.thy ===== *)
theory Handlers_Props
  imports Handlers_Run
begin

text \<open>
  What a single request may change, what it is answered and what it costs.
\<close>

section \<open>A persistent node\<close>

text \<open>The concrete node of the examples: persistent, with empty stores, whose keyed hash is constant.\<close>

definition demo_persistent :: RpcSocket where
  "demo_persistent = demo_socket\<lparr>sk_ephemeral := False,
     sk_probe := \<lparr>fp_running = False, fp_replied_hosts = [''1.2.3.4''], fp_expected = 1, fp_timer = None\<rparr>\<rparr>"

definition demo_server :: RpcHandlers where
  "demo_server = RpcHandlers_new demo_persistent None StorageCacheConfig_init"

definition demo_handler_env :: HandlerEnv where
  "demo_handler_env = \<lparr>he_rpc = demo_rpc_env, he_keyed = (\<lambda>m k. replicate 32 0), he_crypto = echo_crypto\<rparr>"

lemma demo_env_simps [simp]: "he_plain demo_handler_env = zero_hash" "he_crypto demo_handler_env = echo_crypto"
  by (simp_all add: demo_handler_env_def demo_plain)

lemma demo_server_simps [simp]: "\<not> sk_ephemeral (rh_socket demo_server)"
  "token_valid demo_handler_env req (replicate 32 0) s"
  by (simp_all add: demo_server_def demo_persistent_def RpcHandlers_new_def demo_handler_env_def token_valid_def
      TokenStore_validate_def generate_token_def)

lemma demo_server_ok: "handlers_ok zero_hash cr demo_server"
proof -
  have "rpc_ok zero_hash demo_socket"
    by (rule rpc_run_ok [OF rpc_demo_run(1) zero_hash32])
  then have "rpc_ok zero_hash demo_persistent"
    by (simp add: rpc_ok_def rpc_core_def demo_persistent_def probe_ok_def MAX_PROBE_HOSTS_def)
  then show ?thesis
    unfolding demo_server_def by (rule handlers_ok_new)
qed

lemmas storage_commands = CMD_MUTABLE_PUT_def CMD_MUTABLE_GET_def CMD_IMMUTABLE_PUT_def CMD_IMMUTABLE_GET_def CMD_PEER_HANDSHAKE_def
  CMD_PEER_HOLEPUNCH_def CMD_FIND_PEER_def CMD_LOOKUP_def CMD_ANNOUNCE_def CMD_UNANNOUNCE_def

lemma reply_ephemeral [simp]: "sk_ephemeral (RpcSocket_reply resp s) = sk_ephemeral s"
  by (simp add: RpcSocket_reply_def udp_send_on_def emit_event_def)

section \<open>Writes\<close>

text \<open>The contents of the three stores, without the recency order of the caches.\<close>

definition contents :: "RpcHandlers \<Rightarrow> AnnounceStore \<times> (string, bytes) Entry set \<times> (string, bytes) Entry set" where
  "contents h = (rh_store h, set (lru_list (rh_mutables h)), set (lru_list (rh_immutables h)))"

lemma contents_simps [simp]:
  "contents (send_reply r h) = contents h" "contents (send_empty_reply req h) = contents h"
  "contents (send_error req err h) = contents h" "contents (h\<lparr>rh_socket := s\<rparr>) = contents h"
  "contents (h\<lparr>rh_calls := cs\<rparr>) = contents h" "contents (h\<lparr>rh_find_node_rate := m\<rparr>) = contents h"
  "contents (h\<lparr>rh_down_hint_rate := m\<rparr>) = contents h" "contents (h\<lparr>rh_pending_delayed := ds\<rparr>) = contents h"
  "contents (h\<lparr>rh_next_ref := n\<rparr>) = contents h"
  by (simp_all add: contents_def send_empty_reply_def send_error_def)

lemma contents_internal: "contents (handle_internal e req h) = contents h"
  by (simp add: handle_internal_def handle_ping_def handle_ping_nat_def handle_find_node_def handle_down_hint_def
      handle_delayed_ping_def Let_def split: option.split)

lemma contents_fetch:
  assumes "lru_ok (rh_mutables h)" "lru_ok (rh_immutables h)"
  shows "LruCache_get k (rh_mutables h) = (v, c) \<Longrightarrow> contents (h\<lparr>rh_mutables := c\<rparr>) = contents h"
    and "LruCache_get k (rh_immutables h) = (v, c) \<Longrightarrow> contents (h\<lparr>rh_immutables := c\<rparr>) = contents h"
  using lru_get_set [OF assms(1), of k] lru_get_set [OF assms(2), of k] by (simp_all add: contents_def)

lemma contents_gets:
  assumes "lru_ok (rh_mutables h)" "lru_ok (rh_immutables h)"
  shows "contents (handle_find_peer e req h) = contents h" "contents (handle_lookup e req h) = contents h"
    "contents (handle_mutable_get e req h) = contents h" "contents (handle_immutable_get e req h) = contents h"
  using contents_fetch [OF assms]
  by (auto simp: handle_find_peer_def handle_lookup_def handle_mutable_get_def handle_immutable_get_def Let_def
      split: prod.split option.split)

text \<open>The guard that the four writing handlers share.\<close>

definition authorised :: "HandlerEnv \<Rightarrow> Request \<Rightarrow> RpcHandlers \<Rightarrow> bool" where
  "authorised e req h = (case rq_token req of None \<Rightarrow> False | Some token \<Rightarrow> token_valid e req token (rh_socket h))"

lemma unauthorised_write:
  assumes "\<not> authorised e req h"
  shows "handle_announce e req h = h" "handle_unannounce e req h = h" "handle_mutable_put e req h = h" "handle_immutable_put e req h = h"
  using assms by (auto simp: authorised_def handle_announce_def handle_unannounce_def handle_mutable_put_def handle_immutable_put_def
      Let_def split: prod.splits option.splits)

text \<open>C6. Only an authorised write changes what a node stores: a request that does is one of the four writing commands, comes
  with a token that this node issued to the sender's address, and reaches a node that is not ephemeral.  Everything else,
  internal commands, lookups and requests without a valid token included, leaves the stores as they are.\<close>

theorem writes_need_token:
  assumes "handlers_ok plain cr h" and "contents (handle e req h) \<noteq> contents h"
  shows "\<not> rq_internal req \<and> \<not> sk_ephemeral (rh_socket h) \<and>
     rq_command req \<in> {CMD_ANNOUNCE, CMD_UNANNOUNCE, CMD_MUTABLE_PUT, CMD_IMMUTABLE_PUT} \<and>
     (\<exists>token. rq_token req = Some token \<and>
        TokenStore_validate (he_keyed e) (sk_tokens (rh_socket h)) (Ipv4_host_string (rq_from req)) token)"
proof -
  note lru = handlers_okD(2,3) [OF assms(1)]
  have ext: "\<not> rq_internal req"
    using assms(2) contents_internal by (auto simp: handle_def)
  have "contents (call_server c h) = contents h" for c
    by (simp add: call_server_def split: option.split)
  then have "handle e req h = handle_storage e req h" and eph: "\<not> sk_ephemeral (rh_socket h)"
    using assms(2) ext by (auto simp: handle_def split: if_splits option.splits)
  then have st: "contents (handle_storage e req h) \<noteq> contents h"
    using assms(2) by simp
  then have cmd: "rq_command req \<in> {CMD_ANNOUNCE, CMD_UNANNOUNCE, CMD_MUTABLE_PUT, CMD_IMMUTABLE_PUT}"
    using contents_gets [OF lru] by (auto simp: handle_storage_def split: if_splits)
  have "contents (handle_storage e req h) = contents h" if "\<not> authorised e req h"
    using that contents_gets [OF lru] unauthorised_write [OF that] by (simp add: handle_storage_def)
  then have "authorised e req h"
    using st by blast
  then show ?thesis
    using ext eph cmd by (auto simp: authorised_def token_valid_def split: option.splits)
qed

definition demo_put :: Request where
  "demo_put = Request_init\<lparr>rq_from := demo_peer, rq_command := CMD_IMMUTABLE_PUT, rq_target := Some (replicate 32 0),
     rq_token := Some (replicate 32 0), rq_value := Some [1, 2], rq_internal := False\<rparr>"

theorem writes_need_token_witness:
  "contents (handle demo_handler_env demo_put demo_server) \<noteq> contents demo_server \<and> \<not> sk_ephemeral (rh_socket demo_server) \<and>
     TokenStore_validate (he_keyed demo_handler_env) (sk_tokens (rh_socket demo_server)) (Ipv4_host_string demo_peer) (replicate 32 0)"
proof -
  have "handle demo_handler_env demo_put demo_server = send_reply (empty_reply (rq_tid demo_put) (rq_from demo_put) None)
      (demo_server\<lparr>rh_immutables := LruCache_put (to_hex_key (replicate 32 0)) [1, 2] (he_now demo_handler_env) (rh_immutables demo_server)\<rparr>)"
    by (simp add: demo_put_def handle_def handle_storage_def handle_immutable_put_def storage_commands zero_hash_def MAX_IMMUTABLE_VALUE_def)
  moreover have "set (lru_list (LruCache_put k v now (rh_immutables demo_server))) \<noteq> {}" for k v now
    using lru.fetch_put_same [OF handlers_okD(3) [OF demo_server_ok], of k v now]
      fetched_entry [OF lru.put_inv [OF handlers_okD(3) [OF demo_server_ok]]] by (metis empty_iff)
  moreover have "set (lru_list (rh_immutables demo_server)) = {}"
    by (simp add: demo_server_def RpcHandlers_new_def lru_list_def LruCache_new_def)
  ultimately have "contents (handle demo_handler_env demo_put demo_server) \<noteq> contents demo_server"
    by (simp add: contents_def)
  with writes_need_token [OF demo_server_ok this] show ?thesis
    by (simp add: demo_put_def)
qed

section \<open>Replies\<close>

text \<open>The stores and limiters may change, the socket only by at most one response.\<close>

definition answers_only :: "(Response \<Rightarrow> bool) \<Rightarrow> RpcHandlers \<Rightarrow> RpcHandlers \<Rightarrow> bool" where
  "answers_only P h h' \<longleftrightarrow> rh_socket h' = rh_socket h \<or> (\<exists>resp. P resp \<and> rh_socket h' = RpcSocket_reply resp (rh_socket h))"

lemma answers_only_simps [simp]:
  "answers_only P h h" "P r \<Longrightarrow> rh_socket h' = rh_socket h \<Longrightarrow> answers_only P h (send_reply r h')"
  "rh_socket h' = rh_socket h \<Longrightarrow> answers_only P h h'"
  by (auto simp: answers_only_def)

definition to_sender :: "Request \<Rightarrow> Response \<Rightarrow> bool" where
  "to_sender req resp \<longleftrightarrow> rs_tid resp = rq_tid req \<and> rs_from resp = rq_from req"

lemma to_sender_simps [simp]:
  "to_sender req (make_query_response e req s)" "to_sender req (empty_reply (rq_tid req) (rq_from req) nid)"
  "to_sender req (r\<lparr>rs_value := v\<rparr>) = to_sender req r" "to_sender req (r\<lparr>rs_closer_nodes := ns\<rparr>) = to_sender req r"
  "to_sender req (r\<lparr>rs_error := err\<rparr>) = to_sender req r"
  by (simp_all add: to_sender_def make_query_response_def empty_reply_def)

lemma answers_empty [simp]:
  "rh_socket h' = rh_socket h \<Longrightarrow> answers_only (to_sender req) h (send_empty_reply req h')"
  "rh_socket h' = rh_socket h \<Longrightarrow> answers_only (to_sender req) h (send_error req err h')"
  by (simp_all add: send_empty_reply_def send_error_def)

lemma storage_answers: "answers_only (to_sender req) h (handle_storage e req h)"
proof -
  have a: "answers_only (to_sender req) h (handle_announce e req h)" "answers_only (to_sender req) h (handle_unannounce e req h)"
    by (simp_all add: handle_announce_def handle_unannounce_def Let_def split: prod.split option.split)
  have b: "answers_only (to_sender req) h (handle_mutable_put e req h)" "answers_only (to_sender req) h (handle_immutable_put e req h)"
    by (simp_all add: handle_mutable_put_def handle_immutable_put_def store_mutable_def Let_def split: prod.split option.split)
  have c: "answers_only (to_sender req) h (handle_find_peer e req h)" "answers_only (to_sender req) h (handle_lookup e req h)"
    by (simp_all add: handle_find_peer_def handle_lookup_def Let_def split: prod.split option.split)
  have d: "answers_only (to_sender req) h (handle_mutable_get e req h)" "answers_only (to_sender req) h (handle_immutable_get e req h)"
    by (simp_all add: handle_mutable_get_def handle_immutable_get_def Let_def split: prod.split option.split)
  show ?thesis
    using a b c d by (simp add: handle_storage_def)
qed

text \<open>The datagrams an operation sends: \<open>sends s s' P n\<close> says that it appends at most \<open>n\<close> datagrams to the trace, each to an
  address with \<open>P\<close>, and nothing else.\<close>

definition sends :: "RpcSocket \<Rightarrow> RpcSocket \<Rightarrow> (Ipv4Address \<Rightarrow> bool) \<Rightarrow> nat \<Rightarrow> bool" where
  "sends s s' P n \<longleftrightarrow> (\<exists>evs. sk_trace s' = sk_trace s @ evs \<and> length evs \<le> n \<and>
     (\<forall>ev \<in> set evs. \<exists>buf to server. ev = Sent buf to server \<and> P to))"

lemma sends_refl: "sk_trace s' = sk_trace s \<Longrightarrow> sends s s' P n"
  by (simp add: sends_def)

lemma sends_cong: "sk_trace s' = sk_trace s \<Longrightarrow> sends s' s'' P n = sends s s'' P n"
  by (simp add: sends_def)

lemma sends_trans:
  assumes "sends s s' P m" and "sends s' s'' P n"
  shows "sends s s'' P (m + n)"
proof -
  obtain evs evs' where "sk_trace s' = sk_trace s @ evs" "sk_trace s'' = sk_trace s' @ evs'" "length evs \<le> m" "length evs' \<le> n"
    "\<forall>ev \<in> set evs. \<exists>buf to server. ev = Sent buf to server \<and> P to"
    "\<forall>ev \<in> set evs'. \<exists>buf to server. ev = Sent buf to server \<and> P to"
    using assms unfolding sends_def by blast
  then show ?thesis
    unfolding sends_def by (intro exI [of _ "evs @ evs'"]) auto
qed

lemma sends_mono: "sends s s' P m \<Longrightarrow> m \<le> n \<Longrightarrow> (\<And>a. P a \<Longrightarrow> Q a) \<Longrightarrow> sends s s' Q n"
  unfolding sends_def by (meson le_trans)

lemma sends_one: "sk_trace s' = sk_trace s @ [Sent buf to server] \<Longrightarrow> P to \<Longrightarrow> 0 < n \<Longrightarrow> sends s s' P n"
  by (auto simp: sends_def)

lemma sends_reply: "P (rs_from resp) \<Longrightarrow> 0 < n \<Longrightarrow> sends s (RpcSocket_reply resp s) P n"
  by (cases "sk_closing s") (auto simp: RpcSocket_reply_def udp_send_on_def emit_event_def intro: sends_refl sends_one)

lemma sends_request:
  assumes "P (rq_to req)" "0 < n"
  shows "sends s (snd (request e req tmo retries c d s)) P n"
proof -
  have "sends s (send_now e r s') P n" if "sk_trace s' = sk_trace s" "ir_to r = rq_to req" for r s'
    using that assms by (cases "ir_destroyed r \<or> sk_closing s'")
      (auto simp: send_now_def udp_send_def udp_send_on_def emit_event_def Let_def intro: sends_refl sends_one)
  then show ?thesis
    by (auto simp: request_def alloc_tid_def new_request_def Let_def intro: sends_refl)
qed

lemma sends_answers:
  "answers_only Q h h' \<Longrightarrow> (\<And>resp. Q resp \<Longrightarrow> P (rs_from resp)) \<Longrightarrow> 0 < n \<Longrightarrow> sends (rh_socket h) (rh_socket h') P n"
  by (auto simp: answers_only_def intro: sends_refl intro!: sends_reply)

definition known_address :: "RpcSocket \<Rightarrow> Ipv4Address \<Rightarrow> bool" where
  "known_address s a \<longleftrightarrow> (\<exists>n \<in> nodes_of (sk_table s). a = Ipv4_from_string (node_host n) (node_port n))"

lemma sends_hint:
  assumes ok: "rpc_ok plain s" and plain: "hash32 plain" "he_plain e = plain"
  shows "sends s (hint_node e value s) (known_address s) 1"
proof (cases "RoutingTable_get (sk_table s) (plain (take 6 value))")
  case (Some node)
  have "length (plain (take 6 value)) = 32"
    using plain(1) by (simp add: hash32_def)
  then have "node \<in> nodes_of (sk_table s)"
    using Some get_iff [OF rpc_ok_auth(2) [OF ok]] by blast
  then have to: "known_address s (rq_to (ping_request (node\<lparr>node_down_hints := d\<rparr>)))" for d
    by (auto simp: known_address_def ping_request_def Request_init_def)
  have tr: "sk_trace (mark_pinged nid s') = sk_trace s'" for nid s'
    by (simp add: mark_pinged_def)
  have "sends s (check_node e' (node\<lparr>node_down_hints := d\<rparr>) (s\<lparr>sk_table := t\<rparr>)) (known_address s) 1" for e' d t
    unfolding check_node_def Let_def by (rule iffD1 [OF sends_cong sends_request]) (simp_all add: tr to)
  then show ?thesis
    using Some by (auto simp: hint_node_def plain(2) Let_def intro: sends_refl)
qed (simp add: hint_node_def plain(2) Let_def sends_refl)

lemma ping_nat_answers:
  assumes "Ipv4_ok (rq_from req)"
  shows "answers_only (\<lambda>resp. ip_host (rs_from resp) = ip_host (rq_from req)) h (handle_ping_nat req h)"
  using assms Ipv4_from_host_string [of "rq_from req"]
  by (auto simp: handle_ping_nat_def Let_def empty_reply_def Ipv4_ok_def split: option.split)

lemma down_hint_sends:
  assumes ok: "handlers_ok plain cr h" and plain: "hash32 plain" "he_plain e = plain"
  shows "sends (rh_socket h) (rh_socket (handle_down_hint e req h))
     (\<lambda>a. a = rq_from req \<or> known_address (rh_socket h) a) 2"
proof -
  let ?P = "\<lambda>a. a = rq_from req \<or> known_address (rh_socket h) a"
  have empty: "sends (rh_socket h') (rh_socket (send_empty_reply req h')) ?P 1" for h'
    by (simp add: send_empty_reply_def) (rule sends_reply, simp_all add: empty_reply_def)
  have one: "sends (rh_socket h) (rh_socket (send_empty_reply req (h\<lparr>rh_down_hint_rate := m\<rparr>))) ?P 2" for m
    using sends_mono [OF empty [of "h\<lparr>rh_down_hint_rate := m\<rparr>"], where n = 2] by simp
  have two: "sends (rh_socket h) (rh_socket (send_empty_reply req
      (h\<lparr>rh_down_hint_rate := m, rh_socket := hint_node e v (rh_socket h)\<rparr>))) ?P 2" for m v
  proof -
    have "sends (rh_socket h) (hint_node e v (rh_socket h)) ?P 1"
      by (rule sends_mono [OF sends_hint [OF handlers_okD(1) [OF ok] plain]]) simp_all
    from sends_trans [OF this, of _ 1] show ?thesis
      using empty [of "h\<lparr>rh_down_hint_rate := m, rh_socket := hint_node e v (rh_socket h)\<rparr>"] by (simp add: numeral_2_eq_2)
  qed
  show ?thesis
    using one [of "rh_down_hint_rate h"] one two by (simp add: handle_down_hint_def Let_def sends_refl split: option.split)
qed

text \<open>Answering a request cannot be used to attack a third party: whatever the request, at most two datagrams are sent, and
  each goes to the host the request came from or to a node of the routing table (the ping that a down hint causes).
  Commands other than DOWN_HINT cause at most one datagram, a response to the sender.\<close>

lemma handle_traffic:
  assumes "handlers_ok plain cr h" and "hash32 plain" and "he_plain e = plain" and "Ipv4_ok (rq_from req)"
  shows "sends (rh_socket h) (rh_socket (handle e req h))
      (\<lambda>a. ip_host a = ip_host (rq_from req) \<or> known_address (rh_socket h) a) 2 \<and>
    (\<not> (rq_internal req \<and> rq_command req = CMD_DOWN_HINT) \<longrightarrow>
      sends (rh_socket h) (rh_socket (handle e req h)) (\<lambda>a. ip_host a = ip_host (rq_from req)) 1)"
proof -
  let ?P = "\<lambda>resp. ip_host (rs_from resp) = ip_host (rq_from req)"
  have to: "answers_only ?P h h'" if "answers_only (to_sender req) h h'" for h'
    using that unfolding answers_only_def to_sender_def by metis
  have "answers_only ?P h (handle_ping e req h)" "answers_only ?P h (handle_find_node e req h)" "answers_only ?P h (handle_delayed_ping req h)"
    by (auto simp: handle_ping_def handle_find_node_def handle_delayed_ping_def Let_def split: option.split intro!: to)
  then have "answers_only ?P h (handle_internal e req h)" if "rq_command req \<noteq> CMD_DOWN_HINT"
    using that ping_nat_answers [OF assms(4)] by (simp add: handle_internal_def)
  moreover have "rh_socket (call_server c h) = rh_socket h" for c
    by (simp add: call_server_def split: option.split)
  ultimately have ans: "answers_only ?P h (handle e req h)" if "\<not> (rq_internal req \<and> rq_command req = CMD_DOWN_HINT)"
    using that to [OF storage_answers] by (simp add: handle_def split: option.split)
  show ?thesis
  proof (cases "rq_internal req \<and> rq_command req = CMD_DOWN_HINT")
    case True
    then have "handle e req h = handle_down_hint e req h"
      by (simp add: handle_def handle_internal_def CMD_DOWN_HINT_def CMD_PING_def CMD_PING_NAT_def CMD_FIND_NODE_def)
    then show ?thesis
      using True sends_mono [OF down_hint_sends [OF assms(1-3), of req], where n = 2
          and Q = "\<lambda>a. ip_host a = ip_host (rq_from req) \<or> known_address (rh_socket h) a"] by auto
  next
    case False
    have "sends (rh_socket h) (rh_socket (handle e req h)) (\<lambda>a. ip_host a = ip_host (rq_from req)) 1"
      by (rule sends_answers [OF ans [OF False]]) simp_all
    then show ?thesis
      using sends_mono [of _ _ "\<lambda>a. ip_host a = ip_host (rq_from req)" 1 2] by auto
  qed
qed

section \<open>Mutable records\<close>

lemma decode_encoded_put: "MutablePut_ok p \<Longrightarrow> fst (decode_mutable_put (encode_mutable_put p)) = p"
  using step_reads_run [OF mutable_put_steps_read length_mutable_wires(1)]
  by (simp add: decode_mutable_put_def encode_mutable_wire)

lemma stored_version_simps [simp]:
  "stored_version k (send_reply r h) = stored_version k h" "stored_version k (send_error req err h) = stored_version k h"
  "stored_version k (send_empty_reply req h) = stored_version k h"
  "stored_version k (h\<lparr>rh_socket := s\<rparr>) = stored_version k h"
  by (simp_all add: stored_version_def send_error_def send_empty_reply_def)

lemma stored_version_cong:
  assumes "lru_ok (rh_mutables h)" "lru_ok (rh_mutables h')" "set (lru_list (rh_mutables h')) = set (lru_list (rh_mutables h))"
  shows "stored_version k h' = stored_version k h"
  using lru_find_cong [OF lru.keys_distinct [OF assms(2)] lru.keys_distinct [OF assms(1)] assms(3)] assms(1,2)
  by (simp add: stored_version_def lru.fetch_value)

text \<open>The three outcomes of storing a version.\<close>

lemma store_mutable_outcome:
  fixes e req key
  assumes ok: "lru_ok (rh_mutables h)" and put: "length (mp_signature put) = 64" "length (mp_value put) \<le> 65536"
  defines "h' \<equiv> store_mutable e req key put h"
    and "new \<equiv> \<lparr>mg_seq = mp_seq put, mg_value = mp_value put, mg_signature = mp_signature put\<rparr>"
  obtains (reused) g where "stored_version key h = Some g" "mg_seq g = mp_seq put" "mg_value g \<noteq> mp_value put"
      "\<And>k. stored_version k h' = stored_version k h"
      "rh_socket h' = RpcSocket_reply ((empty_reply (rq_tid req) (rq_from req) None)\<lparr>rs_error := Some ERR_SEQ_REUSED\<rparr>) (rh_socket h)"
  | (low) g where "stored_version key h = Some g" "mp_seq put < mg_seq g"
      "\<And>k. stored_version k h' = stored_version k h"
      "rh_socket h' = RpcSocket_reply ((empty_reply (rq_tid req) (rq_from req) None)\<lparr>rs_error := Some ERR_SEQ_TOO_LOW\<rparr>) (rh_socket h)"
  | (stored) "\<And>g. stored_version key h = Some g \<Longrightarrow> mg_seq g < mp_seq put \<or> mg_seq g = mp_seq put \<and> mg_value g = mp_value put"
      "stored_version key h' = Some new" "\<And>k. k \<noteq> key \<Longrightarrow> stored_version k h' \<in> {None, stored_version k h}"
      "fst (LruCache_get key (rh_mutables h')) = Some (encode_mutable_get_resp new)"
      "rh_socket h' = RpcSocket_reply (empty_reply (rq_tid req) (rq_from req) None) (rh_socket h)"
proof -
  obtain old c where get: "LruCache_get key (rh_mutables h) = (old, c)"
    by fastforce
  have c: "lru_ok c" "fst (LruCache_get k c) = fst (LruCache_get k (rh_mutables h))" for k
    using lru.fetch_inv [OF ok, of key] lru.fetch_fetch [OF ok, of k key] get by simp_all
  have same: "stored_version k (h\<lparr>rh_mutables := c\<rparr>) = stored_version k h" for k
    by (simp add: stored_version_def c(2))
  have old: "stored_version key h = map_option (\<lambda>v. fst (decode_mutable_get_resp v)) old"
    by (simp add: stored_version_def get)
  let ?stored = "h\<lparr>rh_mutables := LruCache_put key (encode_mutable_get_resp new) (he_now e) c\<rparr>"
  have new: "stored_version key ?stored = Some new"
    using put by (simp add: stored_version_def lru.fetch_put_same [OF c(1)] decode_encoded_get MutableGet_ok_def new_def)
  have other: "stored_version k ?stored \<in> {None, stored_version k h}" if "k \<noteq> key" for k
    using lru.fetch_put_other [OF c(1) that, of "encode_mutable_get_resp new" "he_now e"] by (auto simp: stored_version_def c(2))
  consider (r) g where "stored_version key h = Some g" "mg_seq g = mp_seq put" "mg_value g \<noteq> mp_value put"
    | (l) g where "stored_version key h = Some g" "mp_seq put < mg_seq g"
    | (s) "\<And>g. stored_version key h = Some g \<Longrightarrow> mg_seq g < mp_seq put \<or> mg_seq g = mp_seq put \<and> mg_value g = mp_value put"
    by (metis linorder_neqE)
  then show thesis
  proof cases
    case r
    then have "h' = send_error req ERR_SEQ_REUSED (h\<lparr>rh_mutables := c\<rparr>)"
      using old by (auto simp: h'_def store_mutable_def get Let_def split: option.splits)
    then show thesis
      using r same by (intro reused [OF r]) (simp_all add: send_error_def)
  next
    case l
    then have "h' = send_error req ERR_SEQ_TOO_LOW (h\<lparr>rh_mutables := c\<rparr>)"
      using old by (auto simp: h'_def store_mutable_def get Let_def split: option.splits)
    then show thesis
      using l same by (intro low [OF l]) (simp_all add: send_error_def)
  next
    case s
    have "\<not> (case map_option (\<lambda>v. fst (decode_mutable_get_resp v)) old of None \<Rightarrow> False | Some g \<Rightarrow> mg_seq g = mp_seq put \<and> mg_value g \<noteq> mp_value put)"
      "\<not> (case map_option (\<lambda>v. fst (decode_mutable_get_resp v)) old of None \<Rightarrow> False | Some g \<Rightarrow> mp_seq put < mg_seq g)"
      using s old by (auto split: option.splits)
    then have h': "h' = send_reply (empty_reply (rq_tid req) (rq_from req) None) ?stored"
      by (simp add: h'_def store_mutable_def get Let_def new_def)
    show thesis
      by (rule stored) (use s new other in \<open>simp_all add: h' lru.fetch_put_same [OF c(1)]\<close>)
  qed
qed

text \<open>A put that passes every check of the handler reaches the comparison of the sequence numbers.\<close>

lemma valid_put_stored:
  assumes "he_plain e = plain" "he_crypto e = cr"
    and "\<not> sk_ephemeral (rh_socket h)" "\<not> rq_internal req" "rq_command req = CMD_MUTABLE_PUT"
    and "rq_value req = Some (encode_mutable_put put)" "MutablePut_ok put" "rq_target req = Some (plain (mp_public_key put))"
    and "rq_token req = Some token" "token_valid e req token (rh_socket h)"
    and "mp_value put \<noteq> []" "length (mp_value put) \<le> MAX_MUTABLE_VALUE"
    and "verify_mutable plain cr (mp_signature put) (mp_seq put) (mp_value put) (mp_public_key put)"
  shows "handle e req h = store_mutable e req (to_hex_key (plain (mp_public_key put))) put h"
  using assms decode_encoded_put [OF assms(7)]
  by (simp add: handle_def handle_storage_def handle_mutable_put_def Let_def storage_commands)

text \<open>C8. A node answers a valid signed put exactly as the sequence numbers demand.  If it holds another value under the same
  sequence number it answers with the error SEQ_REUSED, if it holds a newer version with SEQ_TOO_LOW, and keeps what it has;
  otherwise it stores the new version and answers without an error.\<close>

theorem mutable_put_outcome:
  assumes "handlers_ok plain cr h" and "he_plain e = plain" "he_crypto e = cr"
    and "\<not> sk_ephemeral (rh_socket h)" "\<not> rq_internal req" "rq_command req = CMD_MUTABLE_PUT"
    and "rq_value req = Some (encode_mutable_put put)" "MutablePut_ok put" "rq_target req = Some (plain (mp_public_key put))"
    and "rq_token req = Some token" "token_valid e req token (rh_socket h)"
    and "mp_value put \<noteq> []" "length (mp_value put) \<le> MAX_MUTABLE_VALUE"
    and "verify_mutable plain cr (mp_signature put) (mp_seq put) (mp_value put) (mp_public_key put)"
  defines "key \<equiv> to_hex_key (plain (mp_public_key put))" and "h' \<equiv> handle e req h"
    and "reply \<equiv> (\<lambda>err. (empty_reply (rq_tid req) (rq_from req) None)\<lparr>rs_error := err\<rparr>)"
  shows "case stored_version key h of
       Some g \<Rightarrow>
         if mg_seq g = mp_seq put \<and> mg_value g \<noteq> mp_value put
         then stored_version key h' = Some g \<and> rh_socket h' = RpcSocket_reply (reply (Some ERR_SEQ_REUSED)) (rh_socket h)
         else if mp_seq put < mg_seq g
         then stored_version key h' = Some g \<and> rh_socket h' = RpcSocket_reply (reply (Some ERR_SEQ_TOO_LOW)) (rh_socket h)
         else stored_version key h' = Some \<lparr>mg_seq = mp_seq put, mg_value = mp_value put, mg_signature = mp_signature put\<rparr> \<and>
              rh_socket h' = RpcSocket_reply (reply None) (rh_socket h)
     | None \<Rightarrow> stored_version key h' = Some \<lparr>mg_seq = mp_seq put, mg_value = mp_value put, mg_signature = mp_signature put\<rparr> \<and>
         rh_socket h' = RpcSocket_reply (reply None) (rh_socket h)"
proof -
  have h': "h' = store_mutable e req key put h"
    unfolding h'_def key_def by (rule valid_put_stored) (use assms(2-14) in simp_all)
  have none: "reply None = empty_reply (rq_tid req) (rq_from req) None"
    by (simp add: reply_def empty_reply_def Response_init_def)
  have len: "length (mp_signature put) = 64" "length (mp_value put) \<le> 65536"
    using assms(8) by (simp_all add: MutablePut_ok_def)
  from handlers_okD(2) [OF assms(1)] len show ?thesis
    by (cases rule: store_mutable_outcome [where e = e and req = req and key = key]; unfold h' [symmetric])
      (auto simp: reply_def none [unfolded reply_def] split: option.splits)
qed

definition demo_version :: "bytes \<Rightarrow> MutablePutRequest" where
  "demo_version v = \<lparr>mp_public_key = replicate 32 7, mp_seq = 3, mp_value = v, mp_signature = replicate 64 0\<rparr>"

definition demo_mutable_put :: "bytes \<Rightarrow> Request" where
  "demo_mutable_put v = Request_init\<lparr>rq_from := demo_peer, rq_command := CMD_MUTABLE_PUT, rq_target := Some (replicate 32 0),
     rq_token := Some (replicate 32 0), rq_value := Some (encode_mutable_put (demo_version v)), rq_internal := False\<rparr>"

lemma demo_put_outcome:
  assumes "v \<noteq> []" "length v \<le> 8"
  shows "\<not> rq_internal (demo_mutable_put v)" "rq_command (demo_mutable_put v) = CMD_MUTABLE_PUT"
    "rq_value (demo_mutable_put v) = Some (encode_mutable_put (demo_version v))" "MutablePut_ok (demo_version v)"
    "rq_target (demo_mutable_put v) = Some (zero_hash (mp_public_key (demo_version v)))"
    "rq_token (demo_mutable_put v) = Some (replicate 32 0)"
    "mp_value (demo_version v) \<noteq> []" "length (mp_value (demo_version v)) \<le> MAX_MUTABLE_VALUE"
    "verify_mutable zero_hash echo_crypto (mp_signature (demo_version v)) (mp_seq (demo_version v)) (mp_value (demo_version v))
       (mp_public_key (demo_version v))"
  using assms by (simp_all add: demo_mutable_put_def demo_version_def MutablePut_ok_def MAX_MUTABLE_VALUE_def zero_hash_def
      verify_mutable_def echo_crypto_def mutable_signable_def ns_mutable_put_def compute_ns_def flip: replicate_add)

theorem mutable_put_outcome_witness:
  "let h = handle demo_handler_env (demo_mutable_put [1]) demo_server; h' = handle demo_handler_env (demo_mutable_put [2]) h
   in map_option mg_value (stored_version (to_hex_key (replicate 32 0)) h') = Some [1] \<and>
      rh_socket h' = RpcSocket_reply ((empty_reply 0 demo_peer None)\<lparr>rs_error := Some ERR_SEQ_REUSED\<rparr>) (rh_socket h)"
proof -
  let ?h = "handle demo_handler_env (demo_mutable_put [1]) demo_server"
  have none: "stored_version (to_hex_key (replicate 32 0)) demo_server = None"
    by (simp add: stored_version_def demo_server_def RpcHandlers_new_def LruCache_new_def LruCache_get_def)
  have h: "stored_version (to_hex_key (replicate 32 0)) ?h = Some \<lparr>mg_seq = 3, mg_value = [1], mg_signature = replicate 64 0\<rparr>"
    "\<not> sk_ephemeral (rh_socket ?h)"
    using mutable_put_outcome [OF demo_server_ok demo_env_simps demo_server_simps(1) demo_put_outcome(1-6) [of "[1]"] demo_server_simps(2)
        demo_put_outcome(7-9) [of "[1]"]] none demo_server_simps(1)
    by (simp_all add: demo_version_def zero_hash_def)
  have "handlers_ok zero_hash echo_crypto ?h"
    by (rule handlers_ok_handle [OF demo_server_ok zero_hash32 demo_env_simps])
  from mutable_put_outcome [OF this demo_env_simps h(2) demo_put_outcome(1-6) [of "[2]"] demo_server_simps(2)
      demo_put_outcome(7-9) [of "[2]"]] show ?thesis
    using h(1) by (simp add: Let_def demo_version_def zero_hash_def demo_mutable_put_def Request_init_def)
qed

lemma other_requests_keep_mutables:
  obtains (put) put key where "handle e req h = store_mutable e req key put h" "length (mp_signature put) = 64"
      "length (mp_value put) \<le> 65536"
  | (kept) "rh_mutables (handle e req h) = rh_mutables h"
  | (fetched) k where "rh_mutables (handle e req h) = snd (LruCache_get k (rh_mutables h))"
proof (cases "rq_internal req \<or> rq_command req \<in> {CMD_PEER_HANDSHAKE, CMD_PEER_HOLEPUNCH} \<or> sk_ephemeral (rh_socket h)")
  case True
  have "rh_mutables (handle_internal e req h) = rh_mutables h"
    by (simp add: handle_internal_def handle_ping_def handle_ping_nat_def handle_find_node_def handle_down_hint_def
        handle_delayed_ping_def send_empty_reply_def Let_def split: option.split)
  then show ?thesis
    using True by (intro kept) (auto simp: handle_def call_server_def split: option.split)
next
  case False
  then have h: "handle e req h = handle_storage e req h"
    by (simp add: handle_def)
  have keep: "rh_mutables (handle_find_peer e req h) = rh_mutables h" "rh_mutables (handle_lookup e req h) = rh_mutables h"
    "rh_mutables (handle_announce e req h) = rh_mutables h" "rh_mutables (handle_unannounce e req h) = rh_mutables h"
    "rh_mutables (handle_immutable_put e req h) = rh_mutables h" "rh_mutables (handle_immutable_get e req h) = rh_mutables h"
    by (simp_all add: handle_find_peer_def handle_lookup_def handle_announce_def handle_unannounce_def handle_immutable_put_def
        handle_immutable_get_def send_empty_reply_def Let_def split: prod.split option.split)
  have get: "rh_mutables (handle_mutable_get e req h) = rh_mutables h \<or>
      (\<exists>k. rh_mutables (handle_mutable_get e req h) = snd (LruCache_get k (rh_mutables h)))"
    by (auto simp: handle_mutable_get_def Let_def split: prod.split option.split) (metis snd_conv)+
  have put_len: "length (mp_signature (fst (decode_mutable_put v))) = 64" for v
    by (rule decoded_put_lengths)
  have put': "handle_mutable_put e req h = h \<or> (\<exists>put key. handle_mutable_put e req h = store_mutable e req key put h \<and>
      length (mp_signature put) = 64 \<and> length (mp_value put) \<le> 65536)"
    using put_len unfolding handle_mutable_put_def Let_def MAX_MUTABLE_VALUE_def
    by (auto split: option.split)
  show ?thesis
    using keep get put' put kept fetched unfolding h handle_storage_def by (smt (verit))
qed

text \<open>The version of a mutable record a node holds never goes back: whatever request is handled, as long as the record is
  kept its sequence number does not decrease, and under one sequence number its value does not change.\<close>

lemma mutable_versions_monotone:
  assumes "handlers_ok plain cr h" and "stored_version key h = Some g" and "stored_version key (handle e req h) = Some g'"
  shows "mg_seq g \<le> mg_seq g' \<and> (mg_seq g = mg_seq g' \<longrightarrow> mg_value g = mg_value g')"
proof (cases rule: other_requests_keep_mutables [of e req h])
  note ok = handlers_okD(2) [OF assms(1)]
  case (put put key')
  show ?thesis
  proof (rule store_mutable_outcome [OF ok put(2,3), of key' e req], unfold put(1) [symmetric])
    fix g0
    assume "\<And>k. stored_version k (handle e req h) = stored_version k h"
    then show ?thesis
      using assms(2,3) by simp
  next
    fix g0
    assume "\<And>k. stored_version k (handle e req h) = stored_version k h"
    then show ?thesis
      using assms(2,3) by simp
  next
    assume "\<And>g. stored_version key' h = Some g \<Longrightarrow> mg_seq g < mp_seq put \<or> mg_seq g = mp_seq put \<and> mg_value g = mp_value put"
      and "stored_version key' (handle e req h) = Some \<lparr>mg_seq = mp_seq put, mg_value = mp_value put, mg_signature = mp_signature put\<rparr>"
      and "\<And>k. k \<noteq> key' \<Longrightarrow> stored_version k (handle e req h) \<in> {None, stored_version k h}"
    note stored = this
    show ?thesis
    proof (cases "key = key'")
      case True
      have "mg_seq g' = mp_seq put" "mg_value g' = mp_value put"
        using stored(2) assms(3) True by auto
      then show ?thesis
        using stored(1) assms(2) True by fastforce
    next
      case False
      then have "g' = g"
        using stored(3) [of key] assms(2,3) by simp
      then show ?thesis
        by simp
    qed
  qed
next
  case kept
  then have "stored_version key (handle e req h) = stored_version key h"
    by (simp add: stored_version_def)
  then show ?thesis
    using assms(2,3) by simp
next
  case (fetched k)
  then have "stored_version key (handle e req h) = stored_version key h"
    by (simp add: stored_version_def lru.fetch_fetch [OF handlers_okD(2) [OF assms(1)]])
  then show ?thesis
    using assms(2,3) by simp
qed

text \<open>The example node after it accepted the first version of a record.\<close>

definition demo_holder :: RpcHandlers where
  "demo_holder = handle demo_handler_env (demo_mutable_put [1]) demo_server"

lemma demo_holder_simps:
  "handlers_ok zero_hash echo_crypto demo_holder" "\<not> sk_ephemeral (rh_socket demo_holder)"
  "stored_version (to_hex_key (replicate 32 0)) demo_holder = Some \<lparr>mg_seq = 3, mg_value = [1], mg_signature = replicate 64 0\<rparr>"
proof -
  show "handlers_ok zero_hash echo_crypto demo_holder"
    unfolding demo_holder_def by (rule handlers_ok_handle [OF demo_server_ok zero_hash32 demo_env_simps])
  have holder: "demo_holder = store_mutable demo_handler_env (demo_mutable_put [1]) (to_hex_key (replicate 32 0)) (demo_version [1]) demo_server"
    unfolding demo_holder_def using valid_put_stored [OF demo_env_simps demo_server_simps(1) demo_put_outcome(1-6) [of "[1]"]
        demo_server_simps(2) demo_put_outcome(7-9) [of "[1]"]] by (simp add: demo_version_def zero_hash_def)
  have none: "stored_version (to_hex_key (replicate 32 0)) demo_server = None"
    by (simp add: stored_version_def demo_server_def RpcHandlers_new_def LruCache_new_def LruCache_get_def)
  have len: "length (mp_signature (demo_version [1])) = 64" "length (mp_value (demo_version [1])) \<le> 65536"
    by (simp_all add: demo_version_def)
  have "stored_version (to_hex_key (replicate 32 0)) demo_holder = Some \<lparr>mg_seq = 3, mg_value = [1], mg_signature = replicate 64 0\<rparr> \<and>
      \<not> sk_ephemeral (rh_socket demo_holder)"
    by (rule store_mutable_outcome [OF handlers_okD(2) [OF demo_server_ok] len, of "to_hex_key (replicate 32 0)" demo_handler_env
          "demo_mutable_put [1]"], unfold holder [symmetric]) (simp_all add: none demo_version_def demo_server_simps(1) [simplified])
  then show "\<not> sk_ephemeral (rh_socket demo_holder)"
    "stored_version (to_hex_key (replicate 32 0)) demo_holder = Some \<lparr>mg_seq = 3, mg_value = [1], mg_signature = replicate 64 0\<rparr>"
    by simp_all
qed

section \<open>Reading what was stored\<close>

text \<open>C9. A value that a node has accepted is served to whoever asks: after an accepted IMMUTABLE_PUT of a value, an
  IMMUTABLE_GET of its hash is answered, under its own transaction id and to its own sender, with exactly that value; and while a
  node holds a version of a mutable record, a MUTABLE_GET that asks for that or an older sequence number is answered with
  bytes that decode to this version, and one that asks for a newer number is answered without a value.\<close>

theorem stored_values_served:
  assumes ok: "handlers_ok plain cr h" and eph: "\<not> sk_ephemeral (rh_socket h)" and e: "he_plain e = plain"
    and put: "\<not> rq_internal put" "rq_command put = CMD_IMMUTABLE_PUT" "rq_target put = Some (plain v)" "rq_token put = Some token"
      "rq_value put = Some v" "v \<noteq> []" "length v \<le> MAX_IMMUTABLE_VALUE" "token_valid e put token (rh_socket h)"
    and get: "\<not> rq_internal get" "rq_command get = CMD_IMMUTABLE_GET" "rq_target get = Some (plain v)"
    and mget: "\<not> rq_internal mget" "rq_command mget = CMD_MUTABLE_GET" "rq_target mget = Some target"
      "rq_value mget = Some (Uint_wire seq)" "stored_version (to_hex_key target) h = Some g"
  shows "(let h1 = handle e put h in rh_socket (handle e' get h1) =
      RpcSocket_reply ((make_query_response e' get (rh_socket h1))\<lparr>rs_value := Some v\<rparr>) (rh_socket h1)) \<and>
    (\<exists>resp. rh_socket (handle e' mget h) = RpcSocket_reply resp (rh_socket h) \<and> to_sender mget resp \<and>
       (if seq \<le> mg_seq g then map_option (\<lambda>b. fst (decode_mutable_get_resp b)) (rs_value resp) = Some g else rs_value resp = None))"
proof
  let ?h1 = "handle e put h"
  have "?h1 = send_reply (empty_reply (rq_tid put) (rq_from put) None)
      (h\<lparr>rh_immutables := LruCache_put (to_hex_key (plain v)) v (he_now e) (rh_immutables h)\<rparr>)"
    using put eph e by (simp add: handle_def handle_storage_def handle_immutable_put_def storage_commands)
  then have "fst (LruCache_get (to_hex_key (plain v)) (rh_immutables ?h1)) = Some v" and eph1: "\<not> sk_ephemeral (rh_socket ?h1)"
    using lru.fetch_put_same [OF handlers_okD(3) [OF ok]] eph by simp_all
  then obtain c where "LruCache_get (to_hex_key (plain v)) (rh_immutables ?h1) = (Some v, c)"
    by (metis prod.collapse)
  with eph1 show "let h1 = handle e put h in rh_socket (handle e' get h1) =
      RpcSocket_reply ((make_query_response e' get (rh_socket h1))\<lparr>rs_value := Some v\<rparr>) (rh_socket h1)"
    using get by (simp add: Let_def handle_def [of e' get] handle_storage_def [of e' get] handle_immutable_get_def storage_commands)
next
  obtain c where c: "LruCache_get (to_hex_key target) (rh_mutables h) = (Some (encode_mutable_get_resp g), c)" and g: "MutableGet_ok g"
    using stored_version_entry [OF ok mget(5)] by (metis prod.collapse)
  have len: "length (Uint_wire seq) < 2 ^ 64"
    using length_Uint_wire [of seq] by simp
  have "fst (Uint_decode (for_decode (Some (Uint_wire seq)) (length (Uint_wire seq)))) = seq"
    using Uint.dec_wire [OF TrueI rd_safe_for_decode [OF len], of seq "[]"] by (simp add: rest_for_decode [OF len])
  then show "\<exists>resp. rh_socket (handle e' mget h) = RpcSocket_reply resp (rh_socket h) \<and> to_sender mget resp \<and>
       (if seq \<le> mg_seq g then map_option (\<lambda>b. fst (decode_mutable_get_resp b)) (rs_value resp) = Some g else rs_value resp = None)"
    using mget eph Uint_wire_not_Nil [of seq]
    by (intro exI [of _ "if seq \<le> mg_seq g then (make_query_response e' mget (rh_socket h))\<lparr>rs_value := Some (encode_mutable_get_resp g)\<rparr>
          else make_query_response e' mget (rh_socket h)"])
      (simp add: handle_def handle_storage_def handle_mutable_get_def storage_commands c decode_encoded_get g Let_def
        make_query_response_def Response_init_def to_sender_def)
qed

theorem stored_values_served_witness:
  "let get = demo_put\<lparr>rq_command := CMD_IMMUTABLE_GET, rq_token := None, rq_value := None\<rparr>;
       h1 = handle demo_handler_env demo_put demo_holder
   in rh_socket (handle demo_handler_env get h1) =
      RpcSocket_reply ((make_query_response demo_handler_env get (rh_socket h1))\<lparr>rs_value := Some [1, 2]\<rparr>) (rh_socket h1)"
proof -
  let ?get = "demo_put\<lparr>rq_command := CMD_IMMUTABLE_GET, rq_token := None, rq_value := None\<rparr>"
  let ?mget = "demo_put\<lparr>rq_command := CMD_MUTABLE_GET, rq_value := Some (Uint_wire 2)\<rparr>"
  have p: "\<not> rq_internal demo_put" "rq_command demo_put = CMD_IMMUTABLE_PUT" "rq_target demo_put = Some (zero_hash [1, 2])"
    "rq_token demo_put = Some (replicate 32 0)" "rq_value demo_put = Some [1, 2]" "[1, 2 :: byte] \<noteq> []"
    "length [1, 2 :: byte] \<le> MAX_IMMUTABLE_VALUE"
    by (simp_all add: demo_put_def zero_hash_def MAX_IMMUTABLE_VALUE_def)
  have g: "\<not> rq_internal ?get" "rq_command ?get = CMD_IMMUTABLE_GET" "rq_target ?get = Some (zero_hash [1, 2])"
    "\<not> rq_internal ?mget" "rq_command ?mget = CMD_MUTABLE_GET" "rq_target ?mget = Some (replicate 32 0)" "rq_value ?mget = Some (Uint_wire 2)"
    using p by (simp_all add: demo_put_def)
  from stored_values_served [OF demo_holder_simps(1,2) demo_env_simps(1) p demo_server_simps(2) g demo_holder_simps(3),
      of demo_handler_env] show ?thesis
    by (simp add: Let_def)
qed

section \<open>Announce and lookup\<close>

lemma encode_peer_values_wire:
  assumes "length vs \<le> 1024" and "\<forall>v \<in> set vs. length v \<le> 65536"
  shows "encode_peer_values vs = Some (Uint_wire (of_nat (length vs)) @ concat (map (\<lambda>p. Buffer_wire (Some p)) vs))"
proof -
  let ?pres = "(\<lambda>s. Uint_preencode s (of_nat (length vs))) # map (\<lambda>p s. Buffer_preencode s (Some p)) vs"
  let ?encs = "(\<lambda>s. Uint_encode s (of_nat (length vs))) # map (\<lambda>p s. Buffer_encode s (Some p)) vs"
  let ?ws = "Uint_wire (of_nat (length vs)) # map (\<lambda>p. Buffer_wire (Some p)) vs"
  let ?w = "concat ?ws"
  have "length (concat (map (\<lambda>p. Buffer_wire (Some p)) vs)) \<le> 1024 * 65545"
    using length_peers_wire [OF assms(2)] assms(1) by (meson mult_le_mono1 order_trans)
  then have len: "length ?w < 2 ^ 64"
    using length_Uint_wire [of "of_nat (length vs)"] by simp
  have "list_all2 (\<lambda>(p, e) w. step_wire p e w) (zip (map (\<lambda>p s. Buffer_preencode s (Some p)) ps)
      (map (\<lambda>p s. Buffer_encode s (Some p)) ps)) (map (\<lambda>p. Buffer_wire (Some p)) ps)" if "\<forall>p \<in> set ps. length p \<le> 65536" for ps
    using that by (induction ps) (auto simp: MAX_BUFFER_DECODE_def intro: step_wire_vector)
  then have all: "list_all2 (\<lambda>(p, e) w. step_wire p e w) (zip ?pres ?encs) ?ws"
    using assms(2) by (auto intro!: step_wires)
  have pre: "run_steps ?pres State_init = pre_add State_init (length ?w)"
    using run_pres [OF all, of State_init 0] State_init_pre_add by simp
  have enc: "run_steps ?encs (alloc (pre_add State_init (length ?w))) = put_bytes (alloc (pre_add State_init (length ?w))) ?w"
    using run_encs [OF all] len by (simp add: alloc_pre_add)
  have "\<not> st_error (put_bytes (alloc (pre_add State_init (length ?w))) ?w)"
    using put_bytes_ok(1) [of "alloc (pre_add State_init (length ?w))" ?w] alloc_pre_add [OF len] by (intro wr_ok_simps(1)) simp
  then show ?thesis
    unfolding encode_peer_values_def Let_def pre enc using put_bytes_alloc [OF len] by simp
qed

lemma decode_peer_values:
  assumes "length vs \<le> 1024" and "\<forall>v \<in> set vs. v \<noteq> [] \<and> length v \<le> 65536" and "encode_peer_values vs = Some w"
  shows "fst (decode_lookup_reply w) = \<lparr>lr_peers = vs, lr_bump = 0\<rparr>"
proof -
  let ?n = "of_nat (length vs) :: u64" and ?ps = "concat (map (\<lambda>p. Buffer_wire (Some p)) vs)"
  have w: "w = Uint_wire ?n @ ?ps"
    using assms encode_peer_values_wire [of vs] by simp
  have "length ?ps \<le> 1024 * 65545"
    using length_peers_wire [of vs] assms(1,2) by (meson mult_le_mono1 order_trans)
  then have len: "length w < 2 ^ 64"
    using length_Uint_wire [of ?n] w by simp
  define s where "s = for_decode (Some w) (length w)"
  have s: "rd_safe s" "rest s = w" "\<not> st_error s"
    using for_decode_cursor [OF len] by (simp_all add: s_def)
  have n: "unat ?n = length vs" "\<not> MAX_LOOKUP_PEERS < ?n"
    using assms(1) by (simp_all add: unat_of_nat MAX_LOOKUP_PEERS_def word_less_nat_alt)
  have d1: "Uint_decode s = (?n, adv s (length (Uint_wire ?n)))"
    using Uint.dec_wire [OF TrueI s(1,3)] s(2) w by simp
  have "rd_safe (adv s (length (Uint_wire ?n)))" "rest (adv s (length (Uint_wire ?n))) = ?ps"
    using s w by (simp_all add: rd_safe_adv rest_adv)
  moreover have "step_reads (lookup_loop (length vs)) LookupRawReply_init ?ps (LookupRawReply_init\<lparr>lr_peers := vs\<rparr>)"
    using lookup_loop_read [of vs LookupRawReply_init] assms(2) by (simp add: LookupRawReply_init_def)
  ultimately have d2: "lookup_loop (length vs) (LookupRawReply_init, adv s (length (Uint_wire ?n))) =
      (True, LookupRawReply_init\<lparr>lr_peers := vs\<rparr>, adv s (length w))"
    using s(3) by (simp add: step_reads_def w)
  have "st_start (adv s (length w)) = length w" "st_end (adv s (length w)) = length w"
    by (simp_all add: s_def adv_def)
  then show ?thesis
    using d1 d2 n s(3) by (simp add: decode_lookup_reply_def s_def [symmetric] Let_def LookupRawReply_init_def)
qed

lemma decode_encoded_announce: "AnnounceMessage_ok m \<Longrightarrow> fst (decode_announce_msg (encode_announce_msg m)) = m"
  using step_reads_run [OF announce_steps_read length_announce_wires]
  by (simp add: decode_announce_msg_def encode_announce_wire)

lemma stored_value_nonempty: "announcement_ok plain cr t a \<Longrightarrow> pa_value a \<noteq> []"
proof
  assume "announcement_ok plain cr t a" "pa_value a = []"
  moreover have "am_peer (fst (decode_announce_msg [])) = None"
    by code_simp
  ultimately show False
    by (simp add: announcement_ok_def Let_def)
qed

lemma lookup_serves:
  assumes ok: "handlers_ok plain cr h" and eph: "\<not> sk_ephemeral (rh_socket h)"
    and look: "\<not> rq_internal look" "rq_command look = CMD_LOOKUP" "rq_target look = Some t"
    and a: "a \<in> set (AnnounceStore_get (rh_store h) t)"
    and len: "\<forall>x \<in> set (AnnounceStore_get (rh_store h) t). length (pa_value x) \<le> 65536"
  shows "\<exists>resp b. rh_socket (handle e look h) = RpcSocket_reply resp (rh_socket h) \<and> to_sender look resp \<and>
     rs_value resp = Some b \<and> lr_peers (fst (decode_lookup_reply b)) = map pa_value (AnnounceStore_get (rh_store h) t)"
proof -
  let ?ps = "AnnounceStore_get (rh_store h) t"
  have few: "length ?ps \<le> MAX_PEERS_PER_TARGET"
    using get_peers_ok [OF handlers_okD(4) [OF ok], of t] by (simp add: peers_ok_def)
  then have "length (map pa_value ?ps) \<le> 1024"
    by (simp add: MAX_PEERS_PER_TARGET_def)
  moreover have "\<forall>v \<in> set (map pa_value ?ps). v \<noteq> [] \<and> length v \<le> 65536"
    using len stored_value_nonempty [OF handlers_okD(7) [OF ok]] by auto
  ultimately obtain b where b: "encode_peer_values (map pa_value ?ps) = Some b" "lr_peers (fst (decode_lookup_reply b)) = map pa_value ?ps"
    using encode_peer_values_wire [of "map pa_value ?ps"] decode_peer_values [of "map pa_value ?ps"] by fastforce
  have "?ps \<noteq> []"
    using a by auto
  then have "handle e look h = send_reply ((make_query_response e look (rh_socket h))\<lparr>rs_value := Some b\<rparr>) h"
    using look eph few b(1) by (simp add: handle_def handle_storage_def handle_lookup_def storage_commands Let_def)
  then show ?thesis
    using b(2) by (intro exI [of _ "(make_query_response e look (rh_socket h))\<lparr>rs_value := Some b\<rparr>"]) simp
qed

text \<open>C7. A signed announcement becomes visible: a node that accepts it (the token is valid, the signature covers the target, this
  node's identifier and the token, at most three relays are named, and the store is not full) stores it under the target with the sender
  and the time, and as long as the record is in the store, until it expires, is evicted or withdrawn, and the node is not ephemeral, every
  LOOKUP of the target is answered, to the sender of the lookup, with a list that contains the announced bytes and that the asking peer can
  decode; the lookup that follows the announcement is one of these.  The entries are the announce messages as stored.\<close>

theorem announce_then_lookup:
  assumes ok: "handlers_ok plain cr h" "hash32 plain" and e: "he_plain e = plain" "he_crypto e = cr"
    and eph: "\<not> sk_ephemeral (rh_socket h)"
    and req: "\<not> rq_internal req" "rq_command req = CMD_ANNOUNCE" "rq_target req = Some t" "rq_token req = Some token"
      "token_valid e req token (rh_socket h)" "rq_value req = Some (encode_announce_msg ann)" "length (encode_announce_msg ann) \<le> 65536"
    and ann: "AnnounceMessage_ok ann" "am_peer ann = Some p" "length (pr_relay_addresses p) \<le> 3" "am_signature ann = Some sig"
      "verify_announce plain cr (ns_announce plain) t (rt_id (sk_table (rh_socket h))) token ann sig (pr_public_key p)"
    and room: "target_count (rh_store h) < MAX_TOTAL_TARGETS"
    and len: "\<forall>x \<in> set (AnnounceStore_get (rh_store h) t). length (pa_value x) \<le> 65536"
    and look: "\<not> rq_internal look" "rq_command look = CMD_LOOKUP" "rq_target look = Some t"
  shows "let h1 = handle e req h;
      a = \<lparr>pa_from = rq_from req, pa_value = encode_announce_msg ann, pa_created_at = he_now e, pa_ttl = rh_ann_ttl_ms h\<rparr>;
      held = (\<lambda>h. handlers_ok plain cr h \<and> \<not> sk_ephemeral (rh_socket h) \<and> a \<in> set (AnnounceStore_get (rh_store h) t) \<and>
        (\<forall>x \<in> set (AnnounceStore_get (rh_store h) t). length (pa_value x) \<le> 65536))
    in held h1 \<and> (\<forall>h2. held h2 \<longrightarrow>
      (\<exists>resp b. rh_socket (handle e' look h2) = RpcSocket_reply resp (rh_socket h2) \<and> to_sender look resp \<and> rs_value resp = Some b \<and>
         encode_announce_msg ann \<in> set (lr_peers (fst (decode_lookup_reply b)))))"
proof -
  let ?a = "\<lparr>pa_from = rq_from req, pa_value = encode_announce_msg ann, pa_created_at = he_now e, pa_ttl = rh_ann_ttl_ms h\<rparr>"
  let ?h1 = "handle e req h"
  have cap: "cap_relays p = p" "ann\<lparr>am_peer := Some p\<rparr> = ann"
    using ann(2,3) by (simp_all add: cap_relays_def MAX_ANNOUNCE_RELAYS_def)
  have h1: "?h1 = send_empty_reply req (h\<lparr>rh_store := AnnounceStore_put (rh_store h) t ?a\<rparr>)"
    using req eph ann e decode_encoded_announce [OF ann(1)]
    by (simp add: handle_def handle_storage_def handle_announce_def storage_commands Let_def cap)
  have put: "AnnounceStore_get (rh_store ?h1) t = put_peer ?a (AnnounceStore_get (rh_store h) t)"
    using put_cases(2) [OF handlers_okD(4) [OF ok(1)], of t ?a t] room by (simp add: h1 send_empty_reply_def)
  note spec = put_peer_spec [OF get_peers_ok [OF handlers_okD(4) [OF ok(1)], of t], where ann = ?a]
  have mem: "?a \<in> set (AnnounceStore_get (rh_store ?h1) t)"
    using spec(2) by (simp add: put)
  have "length (pa_value x) \<le> 65536" if "x \<in> set (AnnounceStore_get (rh_store ?h1) t)" for x
    using that len req(7) spec by (fastforce simp: put)
  moreover have "handlers_ok plain cr ?h1"
    by (rule handlers_ok_handle [OF ok e])
  moreover have "\<not> sk_ephemeral (rh_socket ?h1)"
    using eph by (simp add: h1 send_empty_reply_def)
  moreover have "\<exists>resp b. rh_socket (handle e' look h2) = RpcSocket_reply resp (rh_socket h2) \<and> to_sender look resp \<and> rs_value resp = Some b \<and>
      encode_announce_msg ann \<in> set (lr_peers (fst (decode_lookup_reply b)))"
    if "handlers_ok plain cr h2" "\<not> sk_ephemeral (rh_socket h2)" "?a \<in> set (AnnounceStore_get (rh_store h2) t)"
      "\<forall>x \<in> set (AnnounceStore_get (rh_store h2) t). length (pa_value x) \<le> 65536" for h2
    using lookup_serves [OF that(1,2) look that(3,4), of e'] imageI [OF that(3), of pa_value] by fastforce
  ultimately show ?thesis
    using mem unfolding Let_def by blast
qed

definition demo_announcement :: AnnounceMessage where
  "demo_announcement = \<lparr>am_peer = Some \<lparr>pr_public_key = replicate 32 7, pr_relay_addresses = []\<rparr>, am_refresh = None,
     am_signature = Some (replicate 64 0), am_bump = 0\<rparr>"

definition demo_announce :: Request where
  "demo_announce = demo_put\<lparr>rq_command := CMD_ANNOUNCE, rq_value := Some (encode_announce_msg demo_announcement)\<rparr>"

theorem announce_then_lookup_witness:
  "\<exists>resp b. rh_socket (handle demo_handler_env (demo_put\<lparr>rq_command := CMD_LOOKUP\<rparr>) (handle demo_handler_env demo_announce demo_server)) =
      RpcSocket_reply resp (rh_socket (handle demo_handler_env demo_announce demo_server)) \<and> rs_value resp = Some b \<and>
      encode_announce_msg demo_announcement \<in> set (lr_peers (fst (decode_lookup_reply b)))"
proof -
  have req: "\<not> rq_internal demo_announce" "rq_command demo_announce = CMD_ANNOUNCE" "rq_target demo_announce = Some (replicate 32 0)"
    "rq_token demo_announce = Some (replicate 32 0)" "rq_value demo_announce = Some (encode_announce_msg demo_announcement)"
    by (simp_all add: demo_announce_def demo_put_def)
  have ann: "AnnounceMessage_ok demo_announcement" "am_peer demo_announcement = Some \<lparr>pr_public_key = replicate 32 7, pr_relay_addresses = []\<rparr>"
    "length (pr_relay_addresses \<lparr>pr_public_key = replicate 32 7, pr_relay_addresses = []\<rparr>) \<le> 3"
    "am_signature demo_announcement = Some (replicate 64 0)"
    by (simp_all add: demo_announcement_def AnnounceMessage_ok_def opt_all_def PeerRecord_ok_def Array_ok_def)
  have ver: "verify_announce zero_hash echo_crypto (ns_announce zero_hash) (replicate 32 0) (rt_id (sk_table (rh_socket demo_server)))
      (replicate 32 0) demo_announcement (replicate 64 0) (pr_public_key \<lparr>pr_public_key = replicate 32 7, pr_relay_addresses = []\<rparr>)"
    by (simp add: verify_announce_def echo_crypto_def build_ann_signable_def ann_signable_def Let_def ns_announce_def compute_ns_def zero_hash_def flip: replicate_add)
  have len: "length (encode_announce_msg demo_announcement) \<le> 65536"
    unfolding encode_announce_wire [OF ann(1)]
    using length_Uint_wire [of 0] length_Uint_wire [of "ucast (announce_flags demo_announcement)"]
    by (simp add: announce_wires_def demo_announcement_def PeerRecord_wire_def opt_wire_def Array_wire_def positive_def)
  have empty: "rh_store demo_server = []"
    by (simp add: demo_server_def RpcHandlers_new_def)
  then have room: "target_count (rh_store demo_server) < MAX_TOTAL_TARGETS"
    "\<forall>x \<in> set (AnnounceStore_get (rh_store demo_server) (replicate 32 0)). length (pa_value x) \<le> 65536"
    by (simp_all add: target_count_def MAX_TOTAL_TARGETS_def AnnounceStore_get_def)
  have look: "\<not> rq_internal (demo_put\<lparr>rq_command := CMD_LOOKUP\<rparr>)" "rq_command (demo_put\<lparr>rq_command := CMD_LOOKUP\<rparr>) = CMD_LOOKUP"
    "rq_target (demo_put\<lparr>rq_command := CMD_LOOKUP\<rparr>) = Some (replicate 32 0)"
    by (simp_all add: demo_put_def)
  from announce_then_lookup [OF demo_server_ok zero_hash32 demo_env_simps demo_server_simps(1) req(1-4) demo_server_simps(2) req(5) len
      ann ver room look, of demo_handler_env] show ?thesis
    unfolding Let_def by blast
qed

section \<open>Rate limits\<close>

text \<open>A host that asks twice within a second is answered once: a FIND_NODE that arrives less than 1000 milliseconds after one
  from the same host changes nothing and is not answered, unless the limiter's map overflowed and was cleared in between.\<close>

lemma find_node_rate_limited:
  assumes "rq_internal req" "rq_command req = CMD_FIND_NODE" "rq_internal req'" "rq_command req' = CMD_FIND_NODE"
    and "ip_host (rq_from req') = ip_host (rq_from req)" "he_now e' - he_now e < 1000"
    and "\<not> limited (he_now e) (rate_ip req) (rh_find_node_rate h)" "length (rh_find_node_rate h) < 8192"
  shows "handle e' req' (handle e req h) = handle e req h"
proof -
  have "length (AList.update (rate_ip req) (he_now e) (rh_find_node_rate h)) \<le> 8192"
    using assms(8) by (simp add: update_length)
  then have "map_of (rh_find_node_rate (handle e req h)) (rate_ip req') = Some (he_now e)"
    using assms(1,2,5,7) by (simp add: handle_def handle_internal_def handle_find_node_def note_rate_def Let_def rate_ip_def
        CMD_FIND_NODE_def CMD_PING_def CMD_PING_NAT_def update_conv')
  then have "limited (he_now e') (rate_ip req') (rh_find_node_rate (handle e req h))"
    using assms(6) by (simp add: limited_def)
  then show ?thesis
    using assms(3,4) by (simp add: handle_def [of e' req'] handle_internal_def [of e' req'] handle_find_node_def
        CMD_FIND_NODE_def CMD_PING_def CMD_PING_NAT_def)
qed

end
