(* ===== verification/Dht_Ops.thy ===== *)
theory Dht_Ops
  imports Handlers_Props Query_Live
begin

text \<open>
  The operations of a client: \<^verbatim>\<open>src/dht_ops.cpp\<close> configures a query per operation and builds the requests of its commit phase,
  \<^verbatim>\<open>src/dht_storage.cpp\<close> collects the verified results.  An operation gives the started query, with the lambda it hands to
  \<^verbatim>\<open>set_commit\<close> as a function from the reply of a node to the request that is sent to it; the lambda it hands to
  \<^verbatim>\<open>on_reply\<close> is a function from a reply to the result it passes on.
\<close>

section \<open>Queries\<close>

definition hash_public_key :: "plain_hash \<Rightarrow> bytes \<Rightarrow> bytes" where
  "hash_public_key plain pubkey = plain pubkey"

definition add_default_bootstrap :: "QueryEnv \<Rightarrow> Query \<Rightarrow> Query" where
  "add_default_bootstrap e q =
     (if rt_size (qe_table e) = 0 then
        let q = add_bootstrap e (Ipv4_from_string ''88.99.3.86'' 49737) q;
            q = add_bootstrap e (Ipv4_from_string ''142.93.90.113'' 49737) q
        in add_bootstrap e (Ipv4_from_string ''138.68.147.8'' 49737) q
      else q)"

definition find_peer :: "QueryEnv \<Rightarrow> bytes \<Rightarrow> bool \<Rightarrow> bool \<Rightarrow> Query" where
  "find_peer e public_key reply_cb done_cb =
     (let target = hash_public_key (qe_plain e) public_key;
          q = Query_create target CMD_FIND_PEER None;
          q = on_done done_cb (on_reply reply_cb q)
      in Query_start e (add_default_bootstrap e q))"

definition lookup :: "QueryEnv \<Rightarrow> NodeId \<Rightarrow> bool \<Rightarrow> bool \<Rightarrow> Query" where
  "lookup e target reply_cb done_cb =
     (let q = Query_create target CMD_LOOKUP None;
          q = on_done done_cb (on_reply reply_cb q)
      in Query_start e (add_default_bootstrap e q))"

definition announce_commit :: "NodeId \<Rightarrow> bytes \<Rightarrow> QueryReply \<Rightarrow> Request" where
  "announce_commit target value node =
     Request_init\<lparr>rq_to := qr_from_addr node, rq_command := CMD_ANNOUNCE, rq_target := Some target, rq_token := qr_token node,
       rq_value := Some value\<rparr>"

definition announce :: "QueryEnv \<Rightarrow> NodeId \<Rightarrow> bytes \<Rightarrow> bool \<Rightarrow> Query \<times> (QueryReply \<Rightarrow> Request)" where
  "announce e target value done_cb =
     (let q = on_done done_cb (Query_create target CMD_ANNOUNCE (Some value));
          q = set_commit True q
      in (Query_start e (add_default_bootstrap e q), announce_commit target value))"

definition immutable_put_commit :: "NodeId \<Rightarrow> bytes \<Rightarrow> QueryReply \<Rightarrow> Request" where
  "immutable_put_commit target value node =
     Request_init\<lparr>rq_to := qr_from_addr node, rq_command := CMD_IMMUTABLE_PUT, rq_target := Some target, rq_token := qr_token node,
       rq_value := Some value\<rparr>"

definition immutable_put :: "QueryEnv \<Rightarrow> bytes \<Rightarrow> bool \<Rightarrow> Query \<times> (QueryReply \<Rightarrow> Request)" where
  "immutable_put e value done_cb =
     (let target = hash_public_key (qe_plain e) value;
          q = on_done done_cb (Query_create target CMD_IMMUTABLE_GET None);
          q = set_commit True q
      in (Query_start e (add_default_bootstrap e q), immutable_put_commit target value))"

text \<open>What the reply lambda of \<^verbatim>\<open>immutable_get\<close> passes to \<^verbatim>\<open>on_result\<close>; having done so it destroys the query.\<close>

definition immutable_get_reply :: "plain_hash \<Rightarrow> bytes \<Rightarrow> QueryReply \<Rightarrow> bytes option" where
  "immutable_get_reply plain target reply =
     (case qr_value reply of
        None \<Rightarrow> None
      | Some value \<Rightarrow> if value = [] then None else if plain value = target then Some value else None)"

definition immutable_get_env :: "bytes \<Rightarrow> QueryEnv \<Rightarrow> QueryEnv" where
  "immutable_get_env target e = e\<lparr>qe_reply_destroys := (\<lambda>reply. immutable_get_reply (qe_plain e) target reply \<noteq> None)\<rparr>"

definition immutable_get :: "QueryEnv \<Rightarrow> bytes \<Rightarrow> bool \<Rightarrow> Query" where
  "immutable_get e target done_cb =
     (let q = on_done done_cb (Query_create target CMD_IMMUTABLE_GET None);
          q = on_reply True q
      in Query_start (immutable_get_env target e) (add_default_bootstrap e q))"

definition seq_value :: "u64 \<Rightarrow> bytes" where
  "seq_value seq = encode_steps [\<lambda>s. Uint_preencode s seq] [\<lambda>s. Uint_encode s seq]"

definition mutable_put_request :: "plain_hash \<Rightarrow> Crypto \<Rightarrow> Keypair \<Rightarrow> bytes \<Rightarrow> u64 \<Rightarrow> MutablePutRequest" where
  "mutable_put_request plain cr keypair value seq =
     (let signature = sign_mutable plain cr seq value keypair
      in \<lparr>mp_public_key = kp_public_key keypair, mp_seq = seq, mp_value = value, mp_signature = signature\<rparr>)"

definition mutable_put_commit :: "NodeId \<Rightarrow> bytes \<Rightarrow> QueryReply \<Rightarrow> Request" where
  "mutable_put_commit target encoded node =
     Request_init\<lparr>rq_to := qr_from_addr node, rq_command := CMD_MUTABLE_PUT, rq_target := Some target, rq_token := qr_token node,
       rq_value := Some encoded\<rparr>"

definition mutable_put ::
  "QueryEnv \<Rightarrow> Crypto \<Rightarrow> Keypair \<Rightarrow> bytes \<Rightarrow> u64 \<Rightarrow> bool \<Rightarrow> Query \<times> (QueryReply \<Rightarrow> Request)" where
  "mutable_put e cr keypair value seq done_cb =
     (let target = hash_public_key (qe_plain e) (kp_public_key keypair);
          encoded = encode_mutable_put (mutable_put_request (qe_plain e) cr keypair value seq);
          q = on_done done_cb (Query_create target CMD_MUTABLE_GET (Some (seq_value 0)));
          q = set_commit True q
      in (Query_start e (add_default_bootstrap e q), mutable_put_commit target encoded))"

record MutableResult =
  mr_seq :: u64
  mr_value :: bytes
  mr_signature :: bytes

definition mutable_get_reply :: "plain_hash \<Rightarrow> Crypto \<Rightarrow> bytes \<Rightarrow> u64 \<Rightarrow> QueryReply \<Rightarrow> MutableResult option" where
  "mutable_get_reply plain cr public_key min_seq reply =
     (case qr_value reply of
        None \<Rightarrow> None
      | Some value \<Rightarrow>
          if value = [] then None
          else let resp = fst (decode_mutable_get_resp value) in
            if mg_value resp = [] then None
            else if mg_seq resp < min_seq then None
            else if \<not> verify_mutable plain cr (mg_signature resp) (mg_seq resp) (mg_value resp) public_key then None
            else Some \<lparr>mr_seq = mg_seq resp, mr_value = mg_value resp, mr_signature = mg_signature resp\<rparr>)"

definition mutable_get_env :: "Crypto \<Rightarrow> bytes \<Rightarrow> u64 \<Rightarrow> bool \<Rightarrow> QueryEnv \<Rightarrow> QueryEnv" where
  "mutable_get_env cr public_key min_seq latest e =
     e\<lparr>qe_reply_destroys := (\<lambda>reply. mutable_get_reply (qe_plain e) cr public_key min_seq reply \<noteq> None \<and> \<not> latest)\<rparr>"

definition mutable_get :: "QueryEnv \<Rightarrow> Crypto \<Rightarrow> bytes \<Rightarrow> u64 \<Rightarrow> bool \<Rightarrow> bool \<Rightarrow> Query" where
  "mutable_get e cr public_key min_seq latest done_cb =
     (let target = hash_public_key (qe_plain e) public_key;
          q = on_done done_cb (Query_create target CMD_MUTABLE_GET (Some (seq_value min_seq)));
          q = on_reply True q
      in Query_start (mutable_get_env cr public_key min_seq latest e) (add_default_bootstrap e q))"

section \<open>Results\<close>

record ImmutablePutResult =
  ipr_hash :: bytes
  ipr_closest_nodes :: "QueryReply list"

text \<open>\<^verbatim>\<open>HyperDHT::immutable_put\<close>: refused for an empty value; otherwise the query and the result that its completion hands to the
  caller.\<close>

definition HyperDHT_immutable_put :: 
  "QueryEnv \<Rightarrow> bytes \<Rightarrow> ((Query \<times> (QueryReply \<Rightarrow> Request)) \<times> (QueryReply list \<Rightarrow> ImmutablePutResult)) option" where
  "HyperDHT_immutable_put e value =
     (if value = [] then None
      else Some (immutable_put e value True, \<lambda>closest. \<lparr>ipr_hash = qe_plain e value, ipr_closest_nodes = closest\<rparr>))"

record ImmutableGetResult =
  igr_found :: bool
  igr_value :: bytes

definition ImmutableGetResult_init :: ImmutableGetResult where
  "ImmutableGetResult_init = \<lparr>igr_found = False, igr_value = []\<rparr>"

definition immutable_get_value :: "bytes \<Rightarrow> ImmutableGetResult \<Rightarrow> ImmutableGetResult" where
  "immutable_get_value value result = (if \<not> igr_found result then result\<lparr>igr_found := True, igr_value := value\<rparr> else result)"

record MutablePutResult =
  mpr_public_key :: bytes
  mpr_seq :: u64
  mpr_signature :: bytes
  mpr_closest_nodes :: "QueryReply list"

definition HyperDHT_mutable_put ::
  "QueryEnv \<Rightarrow> Crypto \<Rightarrow> Keypair \<Rightarrow> bytes \<Rightarrow> u64 \<Rightarrow> ((Query \<times> (QueryReply \<Rightarrow> Request)) \<times> (QueryReply list \<Rightarrow> MutablePutResult)) option" where
  "HyperDHT_mutable_put e cr keypair value seq =
     (if value = [] then None
      else Some (mutable_put e cr keypair value seq True,
        \<lambda>closest. \<lparr>mpr_public_key = kp_public_key keypair, mpr_seq = seq, mpr_signature = sign_mutable (qe_plain e) cr seq value keypair,
                   mpr_closest_nodes = closest\<rparr>))"

record MutableGetResult =
  gr_found :: bool
  gr_seq :: u64
  gr_value :: bytes
  gr_signature :: bytes

definition MutableGetResult_init :: MutableGetResult where
  "MutableGetResult_init = \<lparr>gr_found = False, gr_seq = 0, gr_value = [], gr_signature = replicate 64 0\<rparr>"

definition mutable_get_value :: "bool \<Rightarrow> MutableResult \<Rightarrow> MutableGetResult \<Rightarrow> MutableGetResult" where
  "mutable_get_value latest r result =
     (if \<not> gr_found result
      then result\<lparr>gr_found := True, gr_seq := mr_seq r, gr_value := mr_value r, gr_signature := mr_signature r\<rparr>
      else if \<not> latest then result
      else if mr_seq r > gr_seq result
      then result\<lparr>gr_seq := mr_seq r, gr_value := mr_value r, gr_signature := mr_signature r\<rparr>
      else result)"

definition HyperDHT_lookup_and_unannounce :: "QueryEnv \<Rightarrow> bytes \<Rightarrow> Keypair \<Rightarrow> bool \<Rightarrow> bool \<Rightarrow> Query" where
  "HyperDHT_lookup_and_unannounce e public_key keypair reply_cb done_cb = lookup e (qe_plain e public_key) reply_cb done_cb"

definition HyperDHT_unannounce :: "QueryEnv \<Rightarrow> bytes \<Rightarrow> Keypair \<Rightarrow> Query" where
  "HyperDHT_unannounce e public_key keypair = HyperDHT_lookup_and_unannounce e public_key keypair True True"

definition HyperDHT_ping :: "RpcEnv \<Rightarrow> Ipv4Address \<Rightarrow> nat \<Rightarrow> nat \<Rightarrow> RpcSocket \<Rightarrow> u16 \<times> RpcSocket" where
  "HyperDHT_ping e addr on_ok on_fail s =
     request_default e (Request_init\<lparr>rq_command := CMD_PING, rq_internal := True, rq_to := addr\<rparr>)
       (Some (OnUser on_ok)) (Some (OnUser on_fail)) s"

section \<open>Runs of a get\<close>

text \<open>The answers that a query may receive after it was started, in any order; the routing table behind the environments may
  change, the reply lambda stays the one the operation installed.\<close>

inductive get_run :: "(QueryReply \<Rightarrow> bool) \<Rightarrow> Query \<Rightarrow> Query \<Rightarrow> bool" for destroys q0 where
  started: "get_run destroys q0 q0"
| response: "get_run destroys q0 q \<Longrightarrow> node \<in> set (q_requests q) \<Longrightarrow> qe_reply_destroys e = destroys \<Longrightarrow>
    get_run destroys q0 (deliver_response e node resp q)"
| timeout: "get_run destroys q0 q \<Longrightarrow> node \<in> set (q_requests q) \<Longrightarrow> get_run destroys q0 (deliver_timeout e node q)"
| destroy: "get_run destroys q0 q \<Longrightarrow> get_run destroys q0 (Query_destroy q)"

fun replies :: "QueryEvent list \<Rightarrow> QueryReply list" where
  "replies [] = []"
| "replies (Replied r # es) = r # replies es"
| "replies (_ # es) = replies es"

lemma replies_append [simp]: "replies (xs @ ys) = replies xs @ replies ys"
  by (induction xs rule: replies.induct) auto

definition replied :: "Query \<Rightarrow> QueryReply list" where
  "replied q = replies (q_trace q)"

lemma replied_simps [simp]:
  "replied (fire_done_once q) = replied q" "replied (q\<lparr>q_done := b\<rparr>) = replied q" "replied (Query_destroy q) = replied q"
  "replied (add_pending e i a q) = replied q" "replied (q\<lparr>q_seen := m\<rparr>) = replied q" "replied (visit node q) = replied q"
  "replied (count_reply resp q) = replied q" "replied (keep_reply resp reply q) = replied q" "replied (end_slowdown q) = replied q"
  "replied (add_closer e q a) = replied q" "replied (flush_done q) = replied q" "replied (q\<lparr>q_errors := n\<rparr>) = replied q"
  "replied (visit_answered node q) = replied q"
  by (simp_all add: replied_def fire_done_once_def emit_def Query_destroy_def add_pending_def visit_def count_reply_def keep_reply_def
      end_slowdown_def add_closer_def flush_done_def visit_answered_def Let_def)

lemma replied_foldl: "(\<And>q x. replied (f q x) = replied q) \<Longrightarrow> replied (foldl f q xs) = replied q"
  by (induction xs arbitrary: q) simp_all

lemma replied_seed: "replied (seed_from_table e q) = replied q"
proof -
  have "replied (q\<lparr>q_from_table := True\<rparr>) = replied q"
    by (simp add: replied_def)
  then show ?thesis
    by (simp add: seed_from_table_def Let_def replied_foldl)
qed

lemma replied_read_loop: "replied (read_loop limit q) = replied q"
proof (induction limit q rule: read_loop.induct)
  case (1 limit q)
  have "replied (q\<lparr>q_pending := ps\<rparr>) = replied q" for ps
    by (simp add: replied_def)
  then show ?case
    using 1 by (subst read_loop.simps) (auto simp: Let_def)
qed

lemma replied_fill: "replied (fill_slots q) = replied q"
proof -
  have "replied (q'\<lparr>q_slowdown := True\<rparr>) = replied q'" for q'
    by (simp add: replied_def)
  then show ?thesis
    by (simp add: fill_slots_def Let_def replied_read_loop)
qed

lemma replied_commit_loop: "replied (commit_loop e rs q) = replied q"
proof (induction e rs q rule: commit_loop.induct)
  case (2 e r rs q)
  have "replied (emit (Committed r) q) = replied q" "replied (q\<lparr>q_commit_inflight := i\<rparr>) = replied q"
    "replied (q\<lparr>q_commits := cs\<rparr>) = replied q" for q i cs
    by (simp_all add: replied_def emit_def)
  then have "replied (call_commit e r (q\<lparr>q_commit_inflight := i\<rparr>)) = replied q" for i
    by (simp add: call_commit_def commit_answered_def Let_def)
  then show ?case
    using 2 by simp
qed simp

lemma replied_finish: "replied (maybe_finish e q) = replied q"
proof -
  have "replied (q\<lparr>q_committing := True, q_commit_inflight := 0\<rparr>) = replied q"
    by (simp add: replied_def)
  then show ?thesis
    by (simp add: maybe_finish_def do_commit_def Let_def replied_commit_loop)
qed

lemma replied_read_more [simp]: "replied (read_more e q) = replied q"
  by (rule read_more_induct [where P = "\<lambda>r. replied r = replied q"]) (simp_all add: replied_fill replied_seed replied_finish)

lemma replied_start [simp]: "replied (Query_start e q) = replied q"
proof -
  have "replied (q'\<lparr>q_pre_seeds := ps\<rparr>) = replied q'" for q' ps
    by (simp add: replied_def)
  then show ?thesis
    by (simp add: Query_start_def Let_def replied_seed replied_foldl)
qed

lemma replied_bootstrap [simp]: "replied (add_default_bootstrap e q) = replied q"
  by (simp add: add_default_bootstrap_def add_bootstrap_def Let_def)

lemma replied_fresh [simp]: "replied (Query_create t c v) = []" "replied (on_done b q) = replied q" "replied (on_reply b q) = replied q"
  by (simp_all add: replied_def Query_create_def on_done_def on_reply_def)

text \<open>A reply is dispatched at most once per answer, and a reply that destroys the query is the last one.\<close>

definition reply_flags :: "Query \<Rightarrow> bool \<times> bool" where
  "reply_flags q = (q_done q, q_on_reply q)"

lemma reply_flags_simps:
  "reply_flags (add_pending e i a q) = reply_flags q" "reply_flags (q\<lparr>q_seen := m\<rparr>) = reply_flags q"
  "reply_flags (count_reply resp q) = reply_flags q" "reply_flags (keep_reply resp reply q) = reply_flags q"
  "reply_flags (end_slowdown q) = reply_flags q" "reply_flags (add_closer e q a) = reply_flags q"
  "reply_flags (visit_answered node q) = reply_flags q"
  by (simp_all add: reply_flags_def add_pending_def count_reply_def keep_reply_def end_slowdown_def add_closer_def
      visit_answered_def Let_def)

lemma answered_done [simp]: "q_done (visit_answered node q) = q_done q"
  by (simp add: visit_answered_def)

lemma reply_flags_foldl: "(\<And>q x. reply_flags (f q x) = reply_flags q) \<Longrightarrow> reply_flags (foldl f q xs) = reply_flags q"
  by (induction xs arbitrary: q) simp_all

text \<open>The query just before the callback sees the reply.\<close>

lemma response_cases:
  obtains (late) "q_done q" "deliver_response e node resp q = visit_answered node q"
  | (dispatched) r where "\<not> q_done q" "replied r = replied q" "reply_flags r = reply_flags q"
      "deliver_response e node resp q = flush_done (read_more e (dispatch_reply e (reply_of node resp) r))"
proof (cases "q_done q")
  case True
  then show thesis
    using late by (simp add: deliver_response_def on_visit_response_def)
next
  case False
  then show thesis
    by (intro dispatched [where r = "end_slowdown (foldl (add_closer e) (keep_reply resp (reply_of node resp) (count_reply resp
          ((visit_answered node q)\<lparr>q_seen := seen_put (addr_key (pn_addr node)) DONE (q_seen (visit_answered node q))\<rparr>)))
          (rs_closer_nodes resp))"])
      (simp_all add: replied_foldl reply_flags_foldl reply_flags_simps deliver_response_def on_visit_response_def Let_def)
qed

lemma response_replied:
  "replied (deliver_response e node resp q) =
     replied q @ (if \<not> q_done q \<and> q_on_reply q then [reply_of node resp] else [])"
proof (cases rule: response_cases [of q e node resp])
  case (dispatched r)
  have "replied (q'\<lparr>q_dispatching_reply := b\<rparr>) = replied q'" "replied (emit (Replied x) q') = replied q' @ [x]" for q' b x
    by (simp_all add: replied_def emit_def)
  then show ?thesis
    using dispatched by (simp add: dispatch_reply_def Let_def reply_flags_def)
qed simp

lemma read_more_done: "q_done q \<Longrightarrow> read_more e q = q"
  by (subst read_more.simps) simp

lemma destroy_done: "q_done (Query_destroy q)"
  by (simp add: Query_destroy_def Let_def fire_done_once_def emit_def)

lemma response_done:
  assumes "q_done q \<or> q_on_reply q \<and> qe_reply_destroys e (reply_of node resp)"
  shows "q_done (deliver_response e node resp q)"
proof (cases rule: response_cases [of q e node resp])
  case (dispatched r)
  then have "q_done (dispatch_reply e (reply_of node resp) r)"
    using assms by (simp add: dispatch_reply_def Let_def reply_flags_def destroy_done)
  then show ?thesis
    using dispatched by (simp add: read_more_done flush_done_def fire_done_once_def emit_def)
qed (simp add: visit_answered_def)

lemma timeout_replied: "replied (deliver_timeout e node q) = replied q" "q_done q \<Longrightarrow> q_done (deliver_timeout e node q)"
  by (simp_all add: deliver_timeout_def on_visit_timeout_def Let_def)

text \<open>At most one reply of a run is one that destroys the query, and after it no reply is seen.\<close>

lemma get_run_once:
  assumes "get_run destroys q0 q" and "replied q0 = []"
  shows "length (filter destroys (replied q)) \<le> 1 \<and> (filter destroys (replied q) \<noteq> [] \<longrightarrow> q_done q)"
  using assms(1)
proof (induction rule: get_run.induct)
  case (response q node e resp)
  let ?r = "reply_of node resp"
  show ?case
  proof (cases "\<not> q_done q \<and> q_on_reply q \<and> destroys ?r")
    case True
    then show ?thesis
      using response response_done [of q e node resp] by (simp add: response_replied)
  next
    case False
    then show ?thesis
      using response response_done [of q e node resp] by (auto simp: response_replied)
  qed
qed (use assms(2) timeout_replied destroy_done in auto)

lemma map_filter_single: "length (filter (\<lambda>r. f r \<noteq> None) rs) \<le> 1 \<Longrightarrow> length (List.map_filter f rs) \<le> 1"
  by (simp add: List.map_filter_def comp_def)

lemma map_filter_Nil: "List.map_filter f rs = [] \<longleftrightarrow> filter (\<lambda>r. f r \<noteq> None) rs = []"
  by (simp add: List.map_filter_def comp_def)

lemma set_map_filter: "v \<in> set (List.map_filter f rs) \<longleftrightarrow> (\<exists>r \<in> set rs. f r = Some v)"
  by (force simp: List.map_filter_def)

section \<open>Values\<close>

text \<open>C12. An immutable get hands out only authentic values: whatever nodes answer, in any order, every value passed to the caller
  hashes to the target, at most one is passed, after it the query is over, and the summary at the end is that value.\<close>

theorem immutable_get_sound:
  assumes "get_run (qe_reply_destroys (immutable_get_env target e)) (immutable_get e target done_cb) q"
  shows "let vs = List.map_filter (immutable_get_reply (qe_plain e) target) (replied q);
             result = foldl (\<lambda>r v. immutable_get_value v r) ImmutableGetResult_init vs
    in length vs \<le> 1 \<and> (vs \<noteq> [] \<longrightarrow> q_done q) \<and> (igr_found result \<longleftrightarrow> vs \<noteq> []) \<and>
       (igr_found result \<longrightarrow> qe_plain e (igr_value result) = target \<and> igr_value result \<noteq> [] \<and>
          (\<exists>r \<in> set (replied q). qr_value r = Some (igr_value result)))"
proof -
  let ?f = "immutable_get_reply (qe_plain e) target"
  let ?vs = "List.map_filter ?f (replied q)"
  have "replied (immutable_get e target done_cb) = []"
    by (simp add: immutable_get_def Let_def)
  then have once: "length (filter (\<lambda>r. ?f r \<noteq> None) (replied q)) \<le> 1" "filter (\<lambda>r. ?f r \<noteq> None) (replied q) \<noteq> [] \<Longrightarrow> q_done q"
    using get_run_once [OF assms] by (simp_all add: immutable_get_env_def)
  show ?thesis
  proof (cases ?vs)
    case Nil
    then show ?thesis
      by (simp add: ImmutableGetResult_init_def)
  next
    case (Cons v vs)
    then have vs: "?vs = [v]"
      using map_filter_single [OF once(1)] by simp
    then obtain r where "r \<in> set (replied q)" "?f r = Some v"
      using set_map_filter [of v ?f "replied q"] by auto
    then show ?thesis
      using vs once(2) map_filter_Nil [of ?f "replied q"]
      by (auto simp: ImmutableGetResult_init_def immutable_get_value_def immutable_get_reply_def split: option.splits if_splits)
  qed
qed

text \<open>The summary of a mutable get: the first result, or the first of the highest sequence number.\<close>

lemma mutable_fold:
  fixes latest :: bool
  defines "result rs \<equiv> foldl (\<lambda>res r. mutable_get_value latest r res) MutableGetResult_init rs"
  shows "if rs = [] then \<not> gr_found (result rs)
    else gr_found (result rs) \<and>
      \<lparr>mr_seq = gr_seq (result rs), mr_value = gr_value (result rs), mr_signature = gr_signature (result rs)\<rparr> \<in> set rs \<and>
      (if latest then \<forall>r \<in> set rs. mr_seq r \<le> gr_seq (result rs) else gr_seq (result rs) = mr_seq (hd rs))"
proof (induction rs rule: rev_induct)
  case Nil
  then show ?case
    by (simp add: result_def MutableGetResult_init_def)
next
  case (snoc r rs)
  have step: "result (rs @ [r]) = mutable_get_value latest r (result rs)"
    by (simp add: result_def)
  show ?case
  proof (cases "rs = []")
    case True
    then have "\<not> gr_found (result rs)"
      using snoc by simp
    then have "result (rs @ [r]) = (result rs)\<lparr>gr_found := True, gr_seq := mr_seq r, gr_value := mr_value r, gr_signature := mr_signature r\<rparr>"
      by (simp add: step mutable_get_value_def)
    then show ?thesis
      using True by simp
  next
    case False
    then show ?thesis
      using snoc by (auto simp: step mutable_get_value_def) (metis order.strict_implies_order order.trans)
  qed
qed

text \<open>C13. A mutable get hands out only versions that the owner of the key signed and that are not older than asked for.  With
  \<^verbatim>\<open>latest\<close> the summary is the highest sequence number among all verified replies of the walk; without it the first verified
  reply is the only result and ends the query (the comments of \<^verbatim>\<open>dht.hpp\<close> and \<^verbatim>\<open>dht_storage.cpp\<close> still say that the walk goes on).\<close>

theorem mutable_get_sound:
  assumes "get_run (qe_reply_destroys (mutable_get_env cr pk min_seq latest e)) (mutable_get e cr pk min_seq latest done_cb) q"
  shows "let rs = List.map_filter (mutable_get_reply (qe_plain e) cr pk min_seq) (replied q);
             result = foldl (\<lambda>res r. mutable_get_value latest r res) MutableGetResult_init rs
    in (gr_found result \<longleftrightarrow> rs \<noteq> []) \<and>
       (gr_found result \<longrightarrow> verify_mutable (qe_plain e) cr (gr_signature result) (gr_seq result) (gr_value result) pk \<and>
          min_seq \<le> gr_seq result \<and> gr_value result \<noteq> []) \<and>
       (if latest then \<forall>r \<in> set rs. mr_seq r \<le> gr_seq result else length rs \<le> 1 \<and> (rs \<noteq> [] \<longrightarrow> q_done q))"
proof -
  let ?f = "mutable_get_reply (qe_plain e) cr pk min_seq"
  let ?rs = "List.map_filter ?f (replied q)"
  let ?result = "foldl (\<lambda>res r. mutable_get_value latest r res) MutableGetResult_init ?rs"
  note fold = mutable_fold [where rs = ?rs and latest = latest]
  have init: "replied (mutable_get e cr pk min_seq latest done_cb) = []"
    by (simp add: mutable_get_def Let_def)
  have once: "length ?rs \<le> 1 \<and> (?rs \<noteq> [] \<longrightarrow> q_done q)" if "\<not> latest"
  proof -
    have "qe_reply_destroys (mutable_get_env cr pk min_seq latest e) = (\<lambda>r. ?f r \<noteq> None)"
      using that by (simp add: mutable_get_env_def)
    from get_run_once [OF assms init, unfolded this] show ?thesis
      using map_filter_single [of ?f "replied q"] map_filter_Nil [of ?f "replied q"] by blast
  qed
  have "verify_mutable (qe_plain e) cr (mr_signature r) (mr_seq r) (mr_value r) pk \<and> min_seq \<le> mr_seq r \<and> mr_value r \<noteq> []"
    if "?f r0 = Some r" for r r0
    using that by (auto simp: mutable_get_reply_def Let_def not_less split: option.splits if_splits)
  then have "verify_mutable (qe_plain e) cr (mr_signature r) (mr_seq r) (mr_value r) pk \<and> min_seq \<le> mr_seq r \<and> mr_value r \<noteq> []"
    if "r \<in> set ?rs" for r
    using that set_map_filter [of r ?f "replied q"] by blast
  note signed = this
  show ?thesis
  proof (cases "?rs = []")
    case True
    then have "\<not> gr_found ?result"
      using fold by simp
    then show ?thesis
      using True by (simp add: Let_def)
  next
    case False
    have found: "gr_found ?result"
      and best: "if latest then \<forall>r \<in> set ?rs. mr_seq r \<le> gr_seq ?result else gr_seq ?result = mr_seq (hd ?rs)"
      and mem: "\<lparr>mr_seq = gr_seq ?result, mr_value = gr_value ?result, mr_signature = gr_signature ?result\<rparr> \<in> set ?rs"
      using fold unfolding if_not_P [OF False] by blast+
    have "if latest then \<forall>r \<in> set ?rs. mr_seq r \<le> gr_seq ?result else length ?rs \<le> 1 \<and> (?rs \<noteq> [] \<longrightarrow> q_done q)"
      using best once by presburger
    then show ?thesis
      unfolding Let_def using signed [OF mem] found False by simp
  qed
qed

section \<open>A client and a serving node\<close>

text \<open>A request as the node receives it: \<^verbatim>\<open>RpcSocket::request\<close> gives it a transaction id, and the receiving socket the address it
  came from; the other fields survive the codec.\<close>

definition received :: "Request \<Rightarrow> u16 \<Rightarrow> Ipv4Address \<Rightarrow> Request" where
  "received req tid addr = req\<lparr>rq_tid := tid, rq_from := addr\<rparr>"

lemma seq_value_wire: "seq_value seq = Uint_wire seq"
proof -
  have "encode_steps [\<lambda>s. Uint_preencode s seq] [\<lambda>s. Uint_encode s seq] = concat [Uint_wire seq]"
    using length_Uint_wire [of seq] by (intro encode_steps_wire) (auto intro!: step_wires)
  then show ?thesis
    by (simp add: seq_value_def)
qed

definition op_fields :: "Query \<Rightarrow> NodeId \<times> u32 \<times> bytes option" where
  "op_fields q = (q_target q, q_command q, q_value q)"

lemma op_fields_simps [simp]:
  "op_fields (fire_done_once q) = op_fields q" "op_fields (q\<lparr>q_done := b\<rparr>) = op_fields q"
  "op_fields (add_pending e i a q) = op_fields q" "op_fields (visit node q) = op_fields q"
  by (simp_all add: op_fields_def fire_done_once_def emit_def add_pending_def visit_def Let_def)

lemma op_fields_foldl: "(\<And>q x. op_fields (f q x) = op_fields q) \<Longrightarrow> op_fields (foldl f q xs) = op_fields q"
  by (induction xs arbitrary: q) simp_all

lemma op_fields_seed: "op_fields (seed_from_table e q) = op_fields q"
proof -
  have "op_fields (q\<lparr>q_from_table := True\<rparr>) = op_fields q"
    by (simp add: op_fields_def)
  then show ?thesis
    by (simp add: seed_from_table_def Let_def op_fields_foldl)
qed

lemma op_fields_read_loop: "op_fields (read_loop limit q) = op_fields q"
proof (induction limit q rule: read_loop.induct)
  case (1 limit q)
  have "op_fields (q\<lparr>q_pending := ps\<rparr>) = op_fields q" for ps
    by (simp add: op_fields_def)
  then show ?case
    using 1 by (subst read_loop.simps) (auto simp: Let_def)
qed

lemma op_fields_fill: "op_fields (fill_slots q) = op_fields q"
proof -
  have "op_fields (q'\<lparr>q_slowdown := True\<rparr>) = op_fields q'" for q'
    by (simp add: op_fields_def)
  then show ?thesis
    by (simp add: fill_slots_def Let_def op_fields_read_loop)
qed

lemma op_fields_commit_loop: "op_fields (commit_loop e rs q) = op_fields q"
proof (induction e rs q rule: commit_loop.induct)
  case (2 e r rs q)
  have "op_fields (call_commit e r (q\<lparr>q_commit_inflight := i\<rparr>)) = op_fields q" for i
    by (simp add: call_commit_def commit_answered_def Let_def) (auto simp: op_fields_def emit_def Query_destroy_def fire_done_once_def Let_def)
  then show ?case
    using 2 by simp
qed simp

lemma op_fields_finish: "op_fields (maybe_finish e q) = op_fields q"
proof -
  have "op_fields (q\<lparr>q_committing := True, q_commit_inflight := 0\<rparr>) = op_fields q"
    by (simp add: op_fields_def)
  then show ?thesis
    by (simp add: maybe_finish_def do_commit_def Let_def op_fields_commit_loop)
qed

lemma op_fields_start: "op_fields (Query_start e q) = op_fields q"
proof -
  have "op_fields (q'\<lparr>q_pre_seeds := ps\<rparr>) = op_fields q'" for q' ps
    by (simp add: op_fields_def)
  moreover have "op_fields (read_more e q') = op_fields q'" for q'
    by (rule read_more_induct [where P = "\<lambda>r. op_fields r = op_fields q'"]) (simp_all add: op_fields_fill op_fields_seed op_fields_finish)
  ultimately show ?thesis
    by (simp add: Query_start_def Let_def op_fields_seed op_fields_foldl)
qed

lemma op_fields_ops:
  "op_fields (fst (mutable_put e cr kp v seq cb)) = (qe_plain e (kp_public_key kp), CMD_MUTABLE_GET, Some (Uint_wire 0))"
  "op_fields (mutable_get e cr pk min_seq latest cb) = (qe_plain e pk, CMD_MUTABLE_GET, Some (Uint_wire min_seq))"
  "op_fields (fst (immutable_put e v cb)) = (qe_plain e v, CMD_IMMUTABLE_GET, None)"
  "op_fields (immutable_get e target cb) = (target, CMD_IMMUTABLE_GET, None)"
  "op_fields (fst (announce e target v cb)) = (target, CMD_ANNOUNCE, Some v)"
  "op_fields (HyperDHT_unannounce e pk kp) = (qe_plain e pk, CMD_LOOKUP, None)"
proof -
  have "op_fields (add_default_bootstrap e q) = op_fields q" for q
    by (simp add: add_default_bootstrap_def add_bootstrap_def Let_def)
  moreover have "op_fields (set_commit b q) = op_fields q" "op_fields (on_done b q) = op_fields q" "op_fields (on_reply b q) = op_fields q"
    "op_fields (Query_create t c u) = (t, c, u)" for b q t c u
    by (simp_all add: op_fields_def set_commit_def on_done_def on_reply_def Query_create_def)
  ultimately show "op_fields (fst (mutable_put e cr kp v seq cb)) = (qe_plain e (kp_public_key kp), CMD_MUTABLE_GET, Some (Uint_wire 0))"
    "op_fields (mutable_get e cr pk min_seq latest cb) = (qe_plain e pk, CMD_MUTABLE_GET, Some (Uint_wire min_seq))"
    "op_fields (fst (immutable_put e v cb)) = (qe_plain e v, CMD_IMMUTABLE_GET, None)"
    "op_fields (immutable_get e target cb) = (target, CMD_IMMUTABLE_GET, None)"
    "op_fields (fst (announce e target v cb)) = (target, CMD_ANNOUNCE, Some v)"
    "op_fields (HyperDHT_unannounce e pk kp) = (qe_plain e pk, CMD_LOOKUP, None)"
    by (simp_all add: mutable_put_def mutable_get_def immutable_put_def immutable_get_def announce_def HyperDHT_unannounce_def
        HyperDHT_lookup_and_unannounce_def lookup_def hash_public_key_def Let_def op_fields_start seq_value_wire)
qed

lemma visit_fields:
  "op_fields q = (t, c, v) \<Longrightarrow> received (visit_request q pn) tid a =
     Request_init\<lparr>rq_to := pn_addr pn, rq_command := c, rq_target := Some t, rq_value := v, rq_tid := tid, rq_from := a\<rparr>"
  by (auto simp: received_def visit_request_def op_fields_def)

lemma reply_tokens [simp]: "sk_tokens (RpcSocket_reply resp s) = sk_tokens s"
  by (simp add: RpcSocket_reply_def udp_send_on_def emit_event_def)

lemma created_token_valid: "TokenStore_validate keyed s host (TokenStore_create keyed s host)"
  by (simp add: TokenStore_validate_def TokenStore_create_def)

text \<open>The answer of a node to a MUTABLE_GET: a fresh token, and the stored version if it is not too old.\<close>

lemma mutable_get_answer:
  assumes ok: "handlers_ok plain cr h" and eph: "\<not> sk_ephemeral (rh_socket h)"
    and req: "\<not> rq_internal req" "rq_command req = CMD_MUTABLE_GET" "rq_target req = Some t" "rq_value req = Some (Uint_wire n)"
  obtains resp where "rh_socket (handle e req h) = RpcSocket_reply resp (rh_socket h)"
    "rs_token resp = Some (TokenStore_create (he_keyed e) (sk_tokens (rh_socket h)) (Ipv4_host_string (rq_from req)))"
    "rs_value resp = (case stored_version (to_hex_key t) h of
       None \<Rightarrow> None | Some g \<Rightarrow> if n \<le> mg_seq g then Some (encode_mutable_get_resp g) else None)"
    "\<And>k. stored_version k (handle e req h) = stored_version k h"
proof -
  obtain v c where get: "LruCache_get (to_hex_key t) (rh_mutables h) = (v, c)"
    by fastforce
  have len: "length (Uint_wire n) < 2 ^ 64"
    using length_Uint_wire [of n] by simp
  have n: "fst (Uint_decode (for_decode (Some (Uint_wire n)) (length (Uint_wire n)))) = n"
    using Uint.dec_wire [OF TrueI rd_safe_for_decode [OF len], of n "[]"] by (simp add: rest_for_decode [OF len])
  let ?resp = "make_query_response e req (rh_socket h)"
  let ?r = "case v of None \<Rightarrow> ?resp
    | Some v \<Rightarrow> if mg_seq (fst (decode_mutable_get_resp v)) \<ge> n then ?resp\<lparr>rs_value := Some v\<rparr> else ?resp"
  have handled: "handle e req h = send_reply ?r (h\<lparr>rh_mutables := c\<rparr>)"
    using req eph get Uint_wire_not_Nil [of n] n by (simp add: handle_def handle_storage_def handle_mutable_get_def storage_commands Let_def)
  have token: "rs_token ?resp = Some (TokenStore_create (he_keyed e) (sk_tokens (rh_socket h)) (Ipv4_host_string (rq_from req)))"
    "rs_value ?resp = None"
    by (simp_all add: make_query_response_def Response_init_def)
  have same: "stored_version k (handle e req h) = stored_version k h" for k
    using lru.fetch_fetch [OF handlers_okD(2) [OF ok], of k "to_hex_key t"] get by (simp add: handled) (simp add: stored_version_def)
  show thesis
  proof (rule that [OF _ _ _ same])
    show "rh_socket (handle e req h) = RpcSocket_reply ?r (rh_socket h)"
      by (simp add: handled)
    show "rs_token ?r = Some (TokenStore_create (he_keyed e) (sk_tokens (rh_socket h)) (Ipv4_host_string (rq_from req)))"
      using token by (simp split: option.split)
    show "rs_value ?r = (case stored_version (to_hex_key t) h of
       None \<Rightarrow> None | Some g \<Rightarrow> if n \<le> mg_seq g then Some (encode_mutable_get_resp g) else None)"
    proof (cases v)
      case None
      then show ?thesis
        using get token by (simp add: stored_version_def)
    next
      case (Some b)
      then have ver: "stored_version (to_hex_key t) h = Some (fst (decode_mutable_get_resp b))"
        using get by (simp add: stored_version_def)
      have "b = encode_mutable_get_resp (fst (decode_mutable_get_resp b))"
        by (rule stored_version_entry [OF ok ver]) (use get Some in simp)
      then show ?thesis
        using Some token ver by simp
    qed
  qed
qed

lemma own_signature_verifies: "signs cr kp \<Longrightarrow> verify_mutable plain cr (sign_mutable plain cr seq value kp) seq value (kp_public_key kp)"
  using signed_verifies by blast

text \<open>C11. What a client puts, a client gets.  The walk of a mutable put is answered by a serving node with a token; the commit
  request made from this answer is accepted, unless the node holds this or a newer version; and the walk of a get with the public key
  that follows the commit is answered with bytes that the reader accepts and that give the sequence number and the value.\<close>

theorem mutable_put_get:
  assumes ok: "handlers_ok plain cr h" "hash32 plain" and e: "he_plain e = plain" "he_crypto e = cr" "qe_plain qe = plain" "qe_plain qe' = plain"
    and eph: "\<not> sk_ephemeral (rh_socket h)"
    and kp: "signs cr kp" "length (kp_public_key kp) = 32" "length (sign_mutable plain cr seq value kp) = 64"
    and v: "value \<noteq> []" "length value \<le> 32768"
    and newer: "\<forall>g. stored_version (to_hex_key (plain (kp_public_key kp))) h = Some g \<longrightarrow> mg_seq g < seq"
    and asked: "min_seq \<le> seq"
  shows "let put = mutable_put qe cr kp value seq cb;
             h1 = handle e (received (visit_request (fst put) pn) tid a) h
    in \<exists>resp. rh_socket h1 = RpcSocket_reply resp (rh_socket h) \<and>
        (let h2 = handle e (received (snd put (reply_of pn resp)) tid' a) h1;
             get = mutable_get qe' cr (kp_public_key kp) min_seq latest cb'
         in \<exists>resp'. rh_socket (handle e' (received (visit_request get pn') tid'' a') h2) = RpcSocket_reply resp' (rh_socket h2) \<and>
              mutable_get_reply plain cr (kp_public_key kp) min_seq (reply_of pn' resp') =
                Some \<lparr>mr_seq = seq, mr_value = value, mr_signature = sign_mutable plain cr seq value kp\<rparr>)"
proof -
  let ?pk = "kp_public_key kp" and ?sig = "sign_mutable plain cr seq value kp"
  let ?key = "to_hex_key (plain ?pk)"
  let ?put = "mutable_put qe cr kp value seq cb" and ?msg = "mutable_put_request plain cr kp value seq"
  let ?h1 = "handle e (received (visit_request (fst ?put) pn) tid a) h"
  have walk: "received (visit_request (fst ?put) pn) tid a = Request_init\<lparr>rq_to := pn_addr pn, rq_command := CMD_MUTABLE_GET,
      rq_target := Some (plain ?pk), rq_value := Some (Uint_wire 0), rq_tid := tid, rq_from := a\<rparr>"
    by (rule visit_fields) (simp add: op_fields_ops e)
  obtain resp where r: "rh_socket ?h1 = RpcSocket_reply resp (rh_socket h)"
    "rs_token resp = Some (TokenStore_create (he_keyed e) (sk_tokens (rh_socket h)) (Ipv4_host_string a))"
    "\<And>k. stored_version k ?h1 = stored_version k h"
    by (rule mutable_get_answer [OF ok(1) eph, of "received (visit_request (fst ?put) pn) tid a" "plain ?pk" 0 e])
      (simp_all add: walk Request_init_def)
  have ok1: "handlers_ok plain cr ?h1" and eph1: "\<not> sk_ephemeral (rh_socket ?h1)"
    using handlers_ok_handle [OF ok e(1,2)] eph r(1) by simp_all
  let ?commit = "received (snd ?put (reply_of pn resp)) tid' a"
  let ?token = "TokenStore_create (he_keyed e) (sk_tokens (rh_socket h)) (Ipv4_host_string a)"
  have commit: "\<not> rq_internal ?commit" "rq_command ?commit = CMD_MUTABLE_PUT" "rq_value ?commit = Some (encode_mutable_put ?msg)"
    "rq_target ?commit = Some (plain (mp_public_key ?msg))" "rq_token ?commit = Some ?token" "rq_from ?commit = a"
    using r(2) by (simp_all add: received_def mutable_put_def Let_def mutable_put_commit_def hash_public_key_def e reply_of_def
        mutable_put_request_def Request_init_def)
  have msg: "MutablePut_ok ?msg" "mp_value ?msg \<noteq> []" "length (mp_value ?msg) \<le> MAX_MUTABLE_VALUE"
    "verify_mutable plain cr (mp_signature ?msg) (mp_seq ?msg) (mp_value ?msg) (mp_public_key ?msg)"
    using kp v own_signature_verifies [OF kp(1)] by (simp_all add: mutable_put_request_def MutablePut_ok_def MAX_MUTABLE_VALUE_def)
  have valid: "token_valid e ?commit ?token (rh_socket ?h1)"
    by (simp add: token_valid_def commit r(1) created_token_valid)
  define h2 where "h2 = handle e ?commit ?h1"
  have stored: "h2 = store_mutable e ?commit ?key ?msg ?h1"
    using valid_put_stored [OF e(1,2) eph1 commit(1-3) msg(1) commit(4,5) valid msg(2-4)] by (simp add: h2_def mutable_put_request_def)
  have fits: "length (mp_signature ?msg) = 64" "length (mp_value ?msg) \<le> 65536"
    using kp(3) v by (simp_all add: mutable_put_request_def)
  have h2: "stored_version ?key h2 = Some \<lparr>mg_seq = seq, mg_value = value, mg_signature = ?sig\<rparr> \<and> \<not> sk_ephemeral (rh_socket h2)"
    by (rule store_mutable_outcome [OF handlers_okD(2) [OF ok1] fits, of ?key e ?commit], unfold stored [symmetric])
      (use newer r(3) eph1 in \<open>auto simp: mutable_put_request_def\<close>)
  have ok2: "handlers_ok plain cr h2"
    unfolding h2_def by (rule handlers_ok_handle [OF ok1 ok(2) e(1,2)])
  let ?get = "received (visit_request (mutable_get qe' cr ?pk min_seq latest cb') pn') tid'' a'"
  have get: "?get = Request_init\<lparr>rq_to := pn_addr pn', rq_command := CMD_MUTABLE_GET,
      rq_target := Some (plain ?pk), rq_value := Some (Uint_wire min_seq), rq_tid := tid'', rq_from := a'\<rparr>"
    by (rule visit_fields) (simp add: op_fields_ops e)
  obtain resp' where r': "rh_socket (handle e' ?get h2) = RpcSocket_reply resp' (rh_socket h2)"
    "rs_value resp' = Some (encode_mutable_get_resp \<lparr>mg_seq = seq, mg_value = value, mg_signature = ?sig\<rparr>)"
    by (rule mutable_get_answer [OF ok2 conjunct2 [OF h2], of ?get "plain ?pk" min_seq e'])
      (use h2 asked in \<open>simp_all add: get Request_init_def\<close>)
  have good: "MutableGet_ok \<lparr>mg_seq = seq, mg_value = value, mg_signature = ?sig\<rparr>"
    using kp(3) v(2) by (simp add: MutableGet_ok_def)
  note dec = decode_encoded_get [OF good]
  have "encode_mutable_get_resp \<lparr>mg_seq = seq, mg_value = value, mg_signature = ?sig\<rparr> \<noteq> []"
    using encode_mutable_wire(2) [OF good] Uint_wire_not_Nil [of seq] by (simp add: mutable_get_wires_def)
  then have "mutable_get_reply plain cr ?pk min_seq (reply_of pn' resp') = Some \<lparr>mr_seq = seq, mr_value = value, mr_signature = ?sig\<rparr>"
    using r'(2) v(1) asked own_signature_verifies [OF kp(1)] by (simp add: mutable_get_reply_def reply_of_def dec not_less Let_def)
  then show ?thesis
    using r(1) r'(1) unfolding Let_def h2_def by blast
qed

text \<open>C14. The walk of \<^verbatim>\<open>dht_ops::announce\<close> is never answered: its visits carry the command ANNOUNCE and no token, and a serving
  node ignores an ANNOUNCE without a token.  So the walk collects no tokens, and nothing is ever committed to such a node.\<close>

theorem announce_walk_ignored:
  "handle e (received (visit_request (fst (announce qe target value cb)) pn) tid a) h = h"
proof -
  have "received (visit_request (fst (announce qe target value cb)) pn) tid a = Request_init\<lparr>rq_to := pn_addr pn,
      rq_command := CMD_ANNOUNCE, rq_target := Some target, rq_value := Some value, rq_tid := tid, rq_from := a\<rparr>"
    by (rule visit_fields) (simp add: op_fields_ops)
  then show ?thesis
    by (simp add: handle_def handle_storage_def handle_announce_def storage_commands Request_init_def)
qed

section \<open>Examples\<close>

text \<open>A client that knows one bootstrap node, which answers its get.\<close>

definition demo_client :: QueryEnv where
  "demo_client = demo_env\<lparr>qe_filter := (\<lambda>_ a. a = demo_addr), qe_plain := zero_hash\<rparr>"

definition demo_get_query :: "u32 \<Rightarrow> bytes option \<Rightarrow> Query" where
  "demo_get_query c v = (Query_create (replicate 32 0) c v)\<lparr>q_on_done := True, q_on_reply := True, q_from_table := True,
     q_seen := [(addr_key demo_addr, PENDING)], q_inflight := 1, q_requests := [demo_node],
     q_trace := [Visited demo_node (visit_request (Query_create (replicate 32 0) c v) demo_node)]\<rparr>"

lemma demo_bootstrap: "add_default_bootstrap demo_client q = add_bootstrap demo_client demo_addr q"
proof -
  have boot: "Ipv4_from_string ''88.99.3.86'' 49737 = demo_addr"
    "Ipv4_from_string ''142.93.90.113'' 49737 = \<lparr>ip_host = [142, 93, 90, 113], ip_port = 49737\<rparr>"
    "Ipv4_from_string ''138.68.147.8'' 49737 = \<lparr>ip_host = [138, 68, 147, 8], ip_port = 49737\<rparr>"
    by code_simp+
  have other: "add_bootstrap demo_client \<lparr>ip_host = x # xs, ip_port = p\<rparr> q = q" if "x \<noteq> 88" for x xs p q
    using that by (simp add: add_bootstrap_def add_pending_def demo_client_def demo_addr_def Let_def)
  have "rt_size (qe_table demo_client) = 0"
    by (simp add: demo_client_def demo_env_def RoutingTable_new_def)
  then show ?thesis
    unfolding add_default_bootstrap_def boot by (simp add: other)
qed

lemma demo_get_started:
  assumes "e = demo_client\<lparr>qe_reply_destroys := d\<rparr>"
  shows "Query_start e (add_default_bootstrap demo_client (on_reply True (on_done True (Query_create (replicate 32 0) c v)))) = demo_get_query c v"
  unfolding demo_bootstrap assms
  by (simp add: Query_start_def Let_def closest_empty read_more.simps read_loop.simps demo_defs demo_client_def on_reply_def demo_get_query_def)

lemma demo_client_plain [simp]: "qe_plain demo_client = zero_hash"
  by (simp add: demo_client_def)

lemma demo_get_eq:
  "immutable_get demo_client (replicate 32 0) True = demo_get_query CMD_IMMUTABLE_GET None"
  "mutable_get demo_client cr pk min_seq latest True = demo_get_query CMD_MUTABLE_GET (Some (seq_value min_seq))"
  unfolding immutable_get_def mutable_get_def Let_def hash_public_key_def demo_client_plain zero_hash_def
  by (rule demo_get_started, simp add: immutable_get_env_def) (rule demo_get_started, simp add: mutable_get_env_def)

lemma demo_get_simps: "replied (demo_get_query c v) = []" "\<not> q_done (demo_get_query c v)" "q_on_reply (demo_get_query c v)"
  "q_requests (demo_get_query c v) = [demo_node]"
  by (simp_all add: demo_get_query_def replied_def Query_create_def)

lemma demo_get_answered:
  assumes "qe_reply_destroys e = d"
  shows "get_run d (demo_get_query c v) (deliver_response e demo_node resp (demo_get_query c v))"
    "replied (deliver_response e demo_node resp (demo_get_query c v)) = [reply_of demo_node resp]"
  using get_run.response [OF get_run.started, of demo_node _ e d resp] assms
  by (simp_all add: demo_get_simps response_replied)

theorem immutable_get_sound_witness:
  "let q = deliver_response (immutable_get_env (replicate 32 0) demo_client) demo_node (Response_init\<lparr>rs_value := Some [1, 2]\<rparr>)
         (immutable_get demo_client (replicate 32 0) True)
   in q_done q \<and> foldl (\<lambda>r v. immutable_get_value v r) ImmutableGetResult_init
      (List.map_filter (immutable_get_reply zero_hash (replicate 32 0)) (replied q)) = \<lparr>igr_found = True, igr_value = [1, 2]\<rparr>"
proof -
  let ?e = "immutable_get_env (replicate 32 0) demo_client"
  let ?q = "deliver_response ?e demo_node (Response_init\<lparr>rs_value := Some [1, 2]\<rparr>) (immutable_get demo_client (replicate 32 0) True)"
  have vs: "List.map_filter (immutable_get_reply zero_hash (replicate 32 0)) (replied ?q) = [[1, 2]]"
    using demo_get_answered(2) [OF refl, of ?e "Response_init\<lparr>rs_value := Some [1, 2]\<rparr>" CMD_IMMUTABLE_GET None]
    by (simp add: demo_get_eq List.map_filter_simps immutable_get_reply_def reply_of_def zero_hash_def)
  have "get_run (qe_reply_destroys ?e) (immutable_get demo_client (replicate 32 0) True) ?q"
    unfolding demo_get_eq by (rule demo_get_answered) simp
  from immutable_get_sound [OF this] vs show ?thesis
    by (simp add: Let_def immutable_get_value_def ImmutableGetResult_init_def)
qed

theorem mutable_get_sound_witness:
  "let g = \<lparr>mg_seq = 3, mg_value = [1], mg_signature = replicate 64 0\<rparr>;
       q = deliver_response (mutable_get_env echo_crypto (replicate 32 7) 2 True demo_client) demo_node
         (Response_init\<lparr>rs_value := Some (encode_mutable_get_resp g)\<rparr>) (mutable_get demo_client echo_crypto (replicate 32 7) 2 True True);
       result = foldl (\<lambda>res r. mutable_get_value True r res) MutableGetResult_init
         (List.map_filter (mutable_get_reply zero_hash echo_crypto (replicate 32 7) 2) (replied q))
   in gr_found result \<and> gr_value result = [1] \<and> 2 \<le> gr_seq result"
proof -
  let ?e = "mutable_get_env echo_crypto (replicate 32 7) 2 True demo_client"
  let ?g = "\<lparr>mg_seq = 3, mg_value = [1], mg_signature = replicate 64 0\<rparr>"
  let ?q = "deliver_response ?e demo_node (Response_init\<lparr>rs_value := Some (encode_mutable_get_resp ?g)\<rparr>)
    (mutable_get demo_client echo_crypto (replicate 32 7) 2 True True)"
  have g: "MutableGet_ok ?g"
    by (simp add: MutableGet_ok_def)
  have ne: "encode_mutable_get_resp ?g \<noteq> []"
    using encode_mutable_wire(2) [OF g] Uint_wire_not_Nil [of 3] by (simp add: mutable_get_wires_def)
  have ver: "verify_mutable zero_hash echo_crypto (replicate 64 0) 3 [1] (replicate 32 7)"
    using demo_put_outcome(9) [of "[1]"] by (simp add: demo_version_def)
  have rs: "List.map_filter (mutable_get_reply zero_hash echo_crypto (replicate 32 7) 2) (replied ?q) =
      [\<lparr>mr_seq = 3, mr_value = [1], mr_signature = replicate 64 0\<rparr>]"
    using demo_get_answered(2) [OF refl, of ?e "Response_init\<lparr>rs_value := Some (encode_mutable_get_resp ?g)\<rparr>" CMD_MUTABLE_GET "Some (seq_value 2)"] ne ver
    by (simp add: demo_get_eq List.map_filter_simps mutable_get_reply_def reply_of_def decode_encoded_get [OF g] Let_def)
  have "get_run (qe_reply_destroys ?e) (mutable_get demo_client echo_crypto (replicate 32 7) 2 True True) ?q"
    unfolding demo_get_eq by (rule demo_get_answered) simp
  from mutable_get_sound [OF this] rs show ?thesis
    by (simp add: Let_def mutable_get_value_def MutableGetResult_init_def)
qed

theorem mutable_put_get_witness:
  "let kp = demo_keypair; put = mutable_put demo_client echo_crypto kp [1] 3 True;
       h1 = handle demo_handler_env (received (visit_request (fst put) demo_node) 1 demo_peer) demo_server
   in \<exists>resp. rh_socket h1 = RpcSocket_reply resp (rh_socket demo_server) \<and>
      (let h2 = handle demo_handler_env (received (snd put (reply_of demo_node resp)) 2 demo_peer) h1;
           get = mutable_get demo_client echo_crypto (kp_public_key kp) 0 True True
       in \<exists>resp'. rh_socket (handle demo_handler_env (received (visit_request get demo_node) 3 demo_peer) h2) = RpcSocket_reply resp' (rh_socket h2) \<and>
            map_option mr_value (mutable_get_reply zero_hash echo_crypto (kp_public_key kp) 0 (reply_of demo_node resp')) = Some [1])"
proof -
  have kp: "length (kp_public_key demo_keypair) = 32" "length (sign_mutable zero_hash echo_crypto 3 [1] demo_keypair) = 64"
    by (simp_all add: demo_keypair_def sign_mutable_def echo_crypto_def mutable_signable_def ns_mutable_put_def compute_ns_def zero_hash_def)
  have none: "\<forall>g. stored_version (to_hex_key (zero_hash (kp_public_key demo_keypair))) demo_server = Some g \<longrightarrow> mg_seq g < 3"
    by (simp add: stored_version_def demo_server_def RpcHandlers_new_def LruCache_new_def LruCache_get_def)
  show ?thesis
    unfolding Let_def
    using mutable_put_get [OF demo_server_ok zero_hash32 demo_env_simps demo_client_plain demo_client_plain demo_server_simps(1) echo_signs kp _ _ none,
        of 0 True demo_node 1 demo_peer 2 True True demo_handler_env demo_node 3 demo_peer, unfolded Let_def]
    by force
qed

end
