(* ===== verification/Protomux.thy ===== *)
theory Protomux
  imports Codec_Contract Tokens Rpc_Handlers
begin

text \<open>
  The channel multiplexer of \<^verbatim>\<open>src/protomux.cpp\<close>.  A \<^verbatim>\<open>std::string\<close> is the list of its bytes.  A \<^verbatim>\<open>Channel *\<close> is a reference into
  \<open>mx_channels\<close>, the vector that owns the channels; using a reference whose channel is freed sets \<open>mx_fault\<close>.

  The callbacks run code of the application, which may call the multiplexer again.  \<open>me_react\<close> is what the application does
  with the multiplexer while a callback runs; each call is recorded in \<open>mx_trace\<close>.  \<open>me_write\<close> is the answer of the stream.
\<close>

section \<open>Varints and buffers\<close>

definition varint_size :: "u64 \<Rightarrow> nat" where
  "varint_size value = (if value \<le> 0xFC then 1 else if value \<le> 0xFFFF then 3 else if value \<le> 0xFFFFFFFF then 5 else 9)"

text \<open>The bytes that \<^verbatim>\<open>varint_encode\<close> writes; it returns their number.\<close>

definition varint_encode :: "u64 \<Rightarrow> bytes" where
  "varint_encode value =
     (if value \<le> 0xFC then [ucast value]
      else if value \<le> 0xFFFF then [0xFD, ucast (value AND 0xFF), ucast (drop_bit 8 value AND 0xFF)]
      else if value \<le> 0xFFFFFFFF
      then [0xFE, ucast (value AND 0xFF), ucast (drop_bit 8 value AND 0xFF), ucast (drop_bit 16 value AND 0xFF),
            ucast (drop_bit 24 value AND 0xFF)]
      else 0xFF # map (\<lambda>i. ucast (drop_bit (8 * i) value AND 0xFF)) [0..<8])"

text \<open>The pair of \<^verbatim>\<open>ptr\<close> and \<^verbatim>\<open>end\<close> is the list of the bytes between them.\<close>

definition varint_decode :: "bytes \<Rightarrow> u64 \<times> bytes" where
  "varint_decode bs =
     (case bs of
        [] \<Rightarrow> (0, [])
      | first # ptr \<Rightarrow>
          if first \<le> 0xFC then (ucast first, ptr)
          else if first = 0xFD then
            (if length ptr < 2 then (0, [])
             else (ucast (ptr ! 0) OR push_bit 8 (ucast (ptr ! 1)), drop 2 ptr))
          else if first = 0xFE then
            (if length ptr < 4 then (0, [])
             else (ucast (ptr ! 0) OR push_bit 8 (ucast (ptr ! 1)) OR push_bit 16 (ucast (ptr ! 2)) OR push_bit 24 (ucast (ptr ! 3)), drop 4 ptr))
          else
            (if length ptr < 8 then (0, [])
             else (foldl (\<lambda>v i. v OR push_bit (8 * i) (ucast (ptr ! i))) 0 [0..<8], drop 8 ptr)))"

definition buffer_preencode :: "nat \<Rightarrow> nat" where
  "buffer_preencode len = varint_size (of_nat len) + len"

definition buffer_encode :: "bytes \<Rightarrow> bytes" where
  "buffer_encode data = varint_encode (of_nat (length data)) @ data"

definition string_preencode :: "bytes \<Rightarrow> nat" where
  "string_preencode str = buffer_preencode (length str)"

definition string_encode :: "bytes \<Rightarrow> bytes" where
  "string_encode str = buffer_encode str"

definition buffer_decode :: "bytes \<Rightarrow> bytes \<times> bytes" where
  "buffer_decode bs =
     (case varint_decode bs of (len, ptr) \<Rightarrow>
        if len = 0 \<or> unat len > length ptr then ([], ptr) else (take (unat len) ptr, drop (unat len) ptr))"

definition string_decode :: "bytes \<Rightarrow> bytes \<times> bytes" where
  "string_decode bs =
     (case varint_decode bs of (len, ptr) \<Rightarrow>
        if len = 0 \<or> unat len > length ptr then ([], ptr) else (take (unat len) ptr, drop (unat len) ptr))"

definition mux_to_hex :: "bytes \<Rightarrow> bytes" where
  "mux_to_hex data = concat (map (\<lambda>b. str_bytes [hex_char (unat (drop_bit 4 b)), hex_char (unat (b AND 0x0F))]) data)"

definition build_pair_key :: "bytes \<Rightarrow> bytes \<Rightarrow> bytes" where
  "build_pair_key protocol cid = protocol @ str_bytes ''##'' @ (if cid \<noteq> [] then mux_to_hex cid else [])"

section \<open>State\<close>

definition CONTROL_BATCH :: u32 where "CONTROL_BATCH = 0"
definition CONTROL_OPEN :: u32 where "CONTROL_OPEN = 1"
definition CONTROL_REJECT :: u32 where "CONTROL_REJECT = 2"
definition CONTROL_CLOSE :: u32 where "CONTROL_CLOSE = 3"
definition MAX_BUFFERED :: nat where "MAX_BUFFERED = 32768"
definition MAX_BATCH_ENTRIES :: nat where "MAX_BATCH_ENTRIES = 1024"

text \<open>The callbacks of a channel and the handlers of its message types are present or not.\<close>

record Channel =
  ch_protocol :: bytes
  ch_id :: bytes
  ch_local_id :: u32
  ch_remote_id :: u32
  ch_open_sent :: bool
  ch_opened :: bool
  ch_closed :: bool
  ch_destroyed :: bool
  ch_local_handshake :: bytes
  ch_messages :: "bool list"
  ch_pair_keys :: "bytes list"
  ch_pending_messages :: "(u32 \<times> bytes) list"
  ch_on_open :: bool
  ch_on_close :: bool
  ch_on_destroy :: bool
  ch_on_drain :: bool

record PendingOpen =
  po_remote_local_id :: u32
  po_handshake :: bytes
  po_protocol :: bytes
  po_id :: bytes

datatype MuxEvent =
    Wrote bytes
  | OnOpen nat bytes
  | OnClose nat
  | OnDestroy nat
  | OnMessage nat u32 bytes
  | OnDrain nat
  | OnNotify "nat option" bytes bytes bytes

record Mux =
  mx_write_fn :: bool
  mx_on_notify :: bool
  mx_next_local_id :: u32
  mx_channels :: "(nat \<times> Channel) list"
  mx_remote_to_channel :: "u32 \<rightharpoonup> nat"
  mx_local_to_channel :: "u32 \<rightharpoonup> nat"
  mx_pair_notify :: "bytes \<rightharpoonup> nat"
  mx_pending_remote :: "bytes \<rightharpoonup> PendingOpen"
  mx_last_channel_by_key :: "bytes \<rightharpoonup> nat"
  mx_destroyed :: bool
  mx_cork_count :: int
  mx_batch :: "(u32 \<times> bytes) list"
  mx_drained :: bool
  mx_buffered_bytes :: nat
  mx_next_ref :: nat
  mx_fault :: bool
  mx_trace :: "MuxEvent list"

record MuxEnv =
  me_write :: "bytes \<Rightarrow> bool"
  me_react :: "MuxEvent \<Rightarrow> Mux \<Rightarrow> Mux"

definition Mux_new :: "bool \<Rightarrow> Mux" where
  "Mux_new write_fn =
     \<lparr>mx_write_fn = write_fn, mx_on_notify = False, mx_next_local_id = 1, mx_channels = [], mx_remote_to_channel = Map.empty,
      mx_local_to_channel = Map.empty, mx_pair_notify = Map.empty, mx_pending_remote = Map.empty, mx_last_channel_by_key = Map.empty,
      mx_destroyed = False, mx_cork_count = 0, mx_batch = [], mx_drained = True, mx_buffered_bytes = 0, mx_next_ref = 0,
      mx_fault = False, mx_trace = []\<rparr>"

definition Channel_new :: "bytes \<Rightarrow> bytes list \<Rightarrow> bytes \<Rightarrow> u32 \<Rightarrow> Channel" where
  "Channel_new protocol aliases cid local_id =
     \<lparr>ch_protocol = protocol, ch_id = cid, ch_local_id = local_id, ch_remote_id = 0, ch_open_sent = False, ch_opened = False,
      ch_closed = False, ch_destroyed = False, ch_local_handshake = [], ch_messages = [],
      ch_pair_keys = build_pair_key protocol cid # map (\<lambda>alias. build_pair_key alias cid) aliases,
      ch_pending_messages = [], ch_on_open = False, ch_on_close = False, ch_on_destroy = False, ch_on_drain = False\<rparr>"

text \<open>A callback runs: it is recorded, then the application reacts.\<close>

definition fire :: "MuxEnv \<Rightarrow> MuxEvent \<Rightarrow> Mux \<Rightarrow> Mux" where
  "fire e ev m = me_react e ev (m\<lparr>mx_trace := mx_trace m @ [ev]\<rparr>)"

definition chan :: "Mux \<Rightarrow> nat \<Rightarrow> Channel option" where
  "chan m r = map_of (mx_channels m) r"

text \<open>The use of a dangling pointer.\<close>

definition dangling :: "Mux \<Rightarrow> Mux" where
  "dangling m = m\<lparr>mx_fault := True\<rparr>"

definition upd :: "nat \<Rightarrow> (Channel \<Rightarrow> Channel) \<Rightarrow> Mux \<Rightarrow> Mux" where
  "upd r f m = m\<lparr>mx_channels := map (\<lambda>(k, c). (k, if k = r then f c else c)) (mx_channels m)\<rparr>"

section \<open>Writing\<close>

definition write_fn :: "MuxEnv \<Rightarrow> bytes \<Rightarrow> Mux \<Rightarrow> Mux" where
  "write_fn e data m = (if mx_write_fn m then (fire e (Wrote data) m)\<lparr>mx_drained := me_write e data\<rparr> else m)"

definition write_frame :: "MuxEnv \<Rightarrow> bytes \<Rightarrow> Mux \<Rightarrow> Mux" where
  "write_frame e data m =
     (if mx_destroyed m then m
      else if mx_cork_count m > 0 then
        (if data = [] then m
         else case varint_decode data of (local_id, payload) \<Rightarrow> m\<lparr>mx_batch := mx_batch m @ [(ucast local_id, payload)]\<rparr>)
      else write_fn e data m)"

definition cork :: "Mux \<Rightarrow> Mux" where
  "cork m = m\<lparr>mx_cork_count := mx_cork_count m + 1\<rparr>"

text \<open>The body of a batch frame: an entry of another channel than the one before is preceded by a zero length and its id.\<close>

fun batch_entries :: "u32 \<Rightarrow> (u32 \<times> bytes) list \<Rightarrow> bytes" where
  "batch_entries prev [] = []"
| "batch_entries prev ((local_id, payload) # es) =
     (if local_id \<noteq> prev then 0 # varint_encode (ucast local_id) else []) @
     varint_encode (of_nat (length payload)) @ payload @ batch_entries local_id es"

definition batch_frame :: "(u32 \<times> bytes) list \<Rightarrow> bytes" where
  "batch_frame es = [0, 0] @ varint_encode (ucast (fst (hd es))) @ batch_entries (fst (hd es)) es"

fun batch_size_loop :: "u32 \<Rightarrow> (u32 \<times> bytes) list \<Rightarrow> nat" where
  "batch_size_loop prev [] = 0"
| "batch_size_loop prev ((local_id, payload) # es) =
     (if local_id \<noteq> prev then 1 + varint_size (ucast local_id) else 0) +
     varint_size (of_nat (length payload)) + length payload + batch_size_loop local_id es"

definition batch_size :: "(u32 \<times> bytes) list \<Rightarrow> nat" where
  "batch_size es = 2 + varint_size (ucast (fst (hd es))) + batch_size_loop (fst (hd es)) es"

definition uncork :: "MuxEnv \<Rightarrow> Mux \<Rightarrow> Mux" where
  "uncork e m =
     (if mx_cork_count m \<le> 0 then m\<lparr>mx_cork_count := 0\<rparr>
      else
        let m = m\<lparr>mx_cork_count := mx_cork_count m - 1\<rparr> in
        if mx_cork_count m > 0 then m
        else if mx_batch m = [] then m
        else let frame = batch_frame (mx_batch m) in write_fn e frame (m\<lparr>mx_batch := []\<rparr>))"

section \<open>Removing and closing\<close>

definition erase_keys :: "bytes list \<Rightarrow> (bytes \<rightharpoonup> 'a) \<Rightarrow> (bytes \<rightharpoonup> 'a)" where
  "erase_keys ks m = (\<lambda>k. if k \<in> set ks then None else m k)"

definition remove_channel :: "nat \<Rightarrow> Mux \<Rightarrow> Mux" where
  "remove_channel r m =
     (case chan m r of
        None \<Rightarrow> dangling m
      | Some c \<Rightarrow>
          m\<lparr>mx_remote_to_channel :=
               (if ch_remote_id c \<noteq> 0 then (mx_remote_to_channel m)(ch_remote_id c := None) else mx_remote_to_channel m),
             mx_local_to_channel := (mx_local_to_channel m)(ch_local_id c := None),
             mx_pending_remote := erase_keys (ch_pair_keys c) (mx_pending_remote m),
             mx_last_channel_by_key :=
               (\<lambda>k. if k \<in> set (ch_pair_keys c) \<and> mx_last_channel_by_key m k = Some r then None else mx_last_channel_by_key m k),
             mx_channels := filter (\<lambda>(k, c). k \<noteq> r) (mx_channels m)\<rparr>)"

definition Channel_destroy :: "MuxEnv \<Rightarrow> nat \<Rightarrow> Mux \<Rightarrow> Mux" where
  "Channel_destroy e r m =
     (case chan m r of
        None \<Rightarrow> dangling m
      | Some c \<Rightarrow>
          if ch_destroyed c then m
          else
            let m = upd r (\<lambda>c. c\<lparr>ch_destroyed := True, ch_opened := False, ch_on_destroy := False\<rparr>) m;
                m = (if ch_on_destroy c then fire e (OnDestroy r) m else m)
            in remove_channel r m)"

definition remote_close :: "MuxEnv \<Rightarrow> nat \<Rightarrow> Mux \<Rightarrow> Mux" where
  "remote_close e r m =
     (case chan m r of
        None \<Rightarrow> dangling m
      | Some c \<Rightarrow>
          if ch_destroyed c then m
          else
            let m = upd r (\<lambda>c. c\<lparr>ch_closed := True, ch_on_close := False\<rparr>) m;
                m = Channel_destroy e r m
            in if ch_on_close c then fire e (OnClose r) m else m)"

definition close_frame :: "u32 \<Rightarrow> bytes" where
  "close_frame local_id = varint_encode 0 @ varint_encode (ucast CONTROL_CLOSE) @ varint_encode (ucast local_id)"

definition Channel_close :: "MuxEnv \<Rightarrow> nat \<Rightarrow> Mux \<Rightarrow> Mux" where
  "Channel_close e r m =
     (case chan m r of
        None \<Rightarrow> dangling m
      | Some c \<Rightarrow>
          if ch_closed c \<or> ch_destroyed c then m
          else
            let m = upd r (\<lambda>c. c\<lparr>ch_closed := True\<rparr>) m;
                m = write_frame e (close_frame (ch_local_id c)) m
            in case chan m r of
                 None \<Rightarrow> dangling m
               | Some c \<Rightarrow>
                   let m = upd r (\<lambda>c. c\<lparr>ch_on_close := False\<rparr>) m;
                       m = (if ch_on_close c then fire e (OnClose r) m else m)
                   in Channel_destroy e r m)"

section \<open>Opening and pairing\<close>

text \<open>The handler runs out of the \<^verbatim>\<open>std::function\<close> in the channel.  A handler that closes its own channel destroys that function while
  it runs; this is not counted as a use of freed memory, since nothing of the channel is read after the call.\<close>

definition dispatch :: "MuxEnv \<Rightarrow> nat \<Rightarrow> u32 \<Rightarrow> bytes \<Rightarrow> Mux \<Rightarrow> Mux" where
  "dispatch e r type data m =
     (case chan m r of
        None \<Rightarrow> dangling m
      | Some c \<Rightarrow>
          if unat type < length (ch_messages c) \<and> ch_messages c ! unat type then fire e (OnMessage r type data) m else m)"

fun pending_loop :: "MuxEnv \<Rightarrow> nat \<Rightarrow> (u32 \<times> bytes) list \<Rightarrow> Mux \<Rightarrow> Mux" where
  "pending_loop e r [] m = m"
| "pending_loop e r ((type, data) # pending) m =
     (case chan m r of
        None \<Rightarrow> dangling m
      | Some c \<Rightarrow>
          let m = m\<lparr>mx_buffered_bytes := (if mx_buffered_bytes m \<ge> length data then mx_buffered_bytes m - length data else 0)\<rparr>;
              m = (if \<not> ch_destroyed c then dispatch e r type data m else m)
          in pending_loop e r pending m)"

definition Channel_drain_pending :: "MuxEnv \<Rightarrow> nat \<Rightarrow> Mux \<Rightarrow> Mux" where
  "Channel_drain_pending e r m =
     (case chan m r of
        None \<Rightarrow> dangling m
      | Some c \<Rightarrow> pending_loop e r (ch_pending_messages c) (upd r (\<lambda>c. c\<lparr>ch_pending_messages := []\<rparr>) m))"

definition fully_open :: "MuxEnv \<Rightarrow> nat \<Rightarrow> bytes \<Rightarrow> Mux \<Rightarrow> Mux" where
  "fully_open e r remote_handshake m =
     (case chan m r of
        None \<Rightarrow> dangling m
      | Some c \<Rightarrow>
          if ch_opened c \<or> ch_destroyed c then m
          else
            let m = upd r (\<lambda>c. c\<lparr>ch_opened := True\<rparr>) m;
                m = (if ch_on_open c then fire e (OnOpen r remote_handshake) m else m)
            in Channel_drain_pending e r m)"

definition try_pair :: "MuxEnv \<Rightarrow> nat \<Rightarrow> PendingOpen \<Rightarrow> Mux \<Rightarrow> Mux" where
  "try_pair e r remote m =
     (let m = upd r (\<lambda>c. c\<lparr>ch_remote_id := po_remote_local_id remote\<rparr>) m;
          m = m\<lparr>mx_remote_to_channel := (mx_remote_to_channel m)(po_remote_local_id remote \<mapsto> r)\<rparr>
      in fully_open e r (po_handshake remote) m)"

definition open_frame :: "Channel \<Rightarrow> bytes \<Rightarrow> bytes" where
  "open_frame c handshake =
     varint_encode 0 @ varint_encode (ucast CONTROL_OPEN) @ varint_encode (ucast (ch_local_id c)) @ string_encode (ch_protocol c) @
     buffer_encode (ch_id c) @ buffer_encode handshake"

definition open_frame_size :: "Channel \<Rightarrow> bytes \<Rightarrow> nat" where
  "open_frame_size c handshake =
     varint_size 0 + varint_size (ucast CONTROL_OPEN) + varint_size (ucast (ch_local_id c)) + string_preencode (ch_protocol c) +
     buffer_preencode (length (ch_id c)) + buffer_preencode (length handshake)"

text \<open>The loop over the pair keys: the first one with a waiting OPEN of the peer is taken.\<close>

definition find_pending :: "bytes list \<Rightarrow> Mux \<Rightarrow> (bytes \<times> PendingOpen) option" where
  "find_pending ks m =
     (case filter (\<lambda>k. mx_pending_remote m k \<noteq> None) ks of
        [] \<Rightarrow> None
      | k # _ \<Rightarrow> Some (k, the (mx_pending_remote m k)))"

definition Channel_open :: "MuxEnv \<Rightarrow> nat \<Rightarrow> bytes \<Rightarrow> Mux \<Rightarrow> Mux" where
  "Channel_open e r handshake m =
     (case chan m r of
        None \<Rightarrow> dangling m
      | Some c \<Rightarrow>
          if ch_open_sent c \<or> ch_closed c \<or> ch_destroyed c then m
          else
            let m = upd r (\<lambda>c. c\<lparr>ch_open_sent := True, ch_local_handshake := (if handshake \<noteq> [] then handshake else ch_local_handshake c)\<rparr>) m;
                m = write_frame e (open_frame c handshake) m
            in case chan m r of
                 None \<Rightarrow> dangling m
               | Some c \<Rightarrow>
                   (case find_pending (ch_pair_keys c) m of
                      None \<Rightarrow> m
                    | Some (k, pending) \<Rightarrow> try_pair e r pending (m\<lparr>mx_pending_remote := (mx_pending_remote m)(k := None)\<rparr>)))"

section \<open>The application side\<close>

definition add_message :: "nat \<Rightarrow> bool \<Rightarrow> Mux \<Rightarrow> nat \<times> Mux" where
  "add_message r handler m =
     (case chan m r of
        None \<Rightarrow> (0, dangling m)
      | Some c \<Rightarrow> (length (ch_messages c), upd r (\<lambda>c. c\<lparr>ch_messages := ch_messages c @ [handler]\<rparr>) m))"

definition data_frame :: "u32 \<Rightarrow> 32 word \<Rightarrow> bytes \<Rightarrow> bytes" where
  "data_frame remote_id message_type data = varint_encode (ucast remote_id) @ varint_encode (scast message_type) @ data"

definition Channel_send :: "MuxEnv \<Rightarrow> nat \<Rightarrow> 32 word \<Rightarrow> bytes \<Rightarrow> Mux \<Rightarrow> bool \<times> Mux" where
  "Channel_send e r message_type data m =
     (case chan m r of
        None \<Rightarrow> (False, dangling m)
      | Some c \<Rightarrow>
          if \<not> ch_opened c \<or> ch_closed c \<or> ch_remote_id c = 0 then (False, m)
          else (True, write_frame e (data_frame (ch_remote_id c) message_type data) m))"

definition find_by_pair_key :: "bytes \<Rightarrow> Mux \<Rightarrow> nat option" where
  "find_by_pair_key key m =
     (case filter (\<lambda>(r, c). \<not> ch_destroyed c \<and> key \<in> set (ch_pair_keys c)) (mx_channels m) of
        [] \<Rightarrow> None
      | (r, c) # _ \<Rightarrow> Some r)"

definition create_channel :: "bytes \<Rightarrow> bytes list \<Rightarrow> bytes \<Rightarrow> bool \<Rightarrow> Mux \<Rightarrow> nat option \<times> Mux" where
  "create_channel protocol aliases cid unique m =
     (if mx_destroyed m then (None, m)
      else
        let key = build_pair_key protocol cid in
        if unique \<and> (case find_by_pair_key key m of None \<Rightarrow> False | Some r \<Rightarrow> map_option ch_opened (chan m r) = Some True)
        then (None, m)
        else
          let local_id = mx_next_local_id m; r = mx_next_ref m; c = Channel_new protocol aliases cid local_id in
          (Some r,
           m\<lparr>mx_next_local_id := local_id + 1, mx_next_ref := Suc r, mx_channels := mx_channels m @ [(r, c)],
             mx_local_to_channel := (mx_local_to_channel m)(local_id \<mapsto> r),
             mx_last_channel_by_key := (\<lambda>k. if k \<in> set (ch_pair_keys c) then Some r else mx_last_channel_by_key m k)\<rparr>))"

definition Mux_pair :: "bytes \<Rightarrow> bytes \<Rightarrow> nat \<Rightarrow> Mux \<Rightarrow> Mux" where
  "Mux_pair protocol cid fn m = m\<lparr>mx_pair_notify := (mx_pair_notify m)(build_pair_key protocol cid \<mapsto> fn)\<rparr>"

definition Mux_unpair :: "bytes \<Rightarrow> bytes \<Rightarrow> Mux \<Rightarrow> Mux" where
  "Mux_unpair protocol cid m = m\<lparr>mx_pair_notify := (mx_pair_notify m)(build_pair_key protocol cid := None)\<rparr>"

definition Mux_opened :: "bytes \<Rightarrow> bytes \<Rightarrow> Mux \<Rightarrow> bool" where
  "Mux_opened protocol cid m =
     list_ex (\<lambda>(r, c). \<not> ch_destroyed c \<and> ch_opened c \<and> build_pair_key protocol cid \<in> set (ch_pair_keys c)) (mx_channels m)"

definition get_last_channel :: "bytes \<Rightarrow> bytes \<Rightarrow> Mux \<Rightarrow> nat option" where
  "get_last_channel protocol cid m = mx_last_channel_by_key m (build_pair_key protocol cid)"

definition for_each_channel :: "(nat \<Rightarrow> Mux \<Rightarrow> Mux) \<Rightarrow> Mux \<Rightarrow> Mux" where
  "for_each_channel fn m = foldl (\<lambda>m r. fn r m) m (map fst (filter (\<lambda>(r, c). \<not> ch_destroyed c) (mx_channels m)))"

section \<open>Incoming frames\<close>

definition dispatch_notify :: "MuxEnv \<Rightarrow> bytes \<Rightarrow> bytes \<Rightarrow> bytes \<Rightarrow> Mux \<Rightarrow> Mux" where
  "dispatch_notify e protocol cid handshake m =
     (case mx_pair_notify m (build_pair_key protocol cid) of
        Some fn \<Rightarrow> fire e (OnNotify (Some fn) protocol cid handshake) m
      | None \<Rightarrow>
          (case mx_pair_notify m (build_pair_key protocol []) of
             Some fn \<Rightarrow> fire e (OnNotify (Some fn) protocol cid handshake) m
           | None \<Rightarrow> if mx_on_notify m then fire e (OnNotify None protocol cid handshake) m else m))"

definition handle_open :: "MuxEnv \<Rightarrow> bytes \<Rightarrow> Mux \<Rightarrow> Mux" where
  "handle_open e data m =
     (case varint_decode data of (raw_id, ptr) \<Rightarrow>
        if raw_id = 0 \<or> raw_id > 0xFFFFFFFF then m
        else case string_decode ptr of (protocol, ptr) \<Rightarrow>
          if protocol = [] then m
          else case buffer_decode ptr of (cid, ptr) \<Rightarrow> case buffer_decode ptr of (handshake, ptr) \<Rightarrow>
            let key = build_pair_key protocol cid;
                pending = \<lparr>po_remote_local_id = ucast raw_id, po_handshake = handshake, po_protocol = protocol, po_id = cid\<rparr>;
                stored = dispatch_notify e protocol cid handshake (m\<lparr>mx_pending_remote := (mx_pending_remote m)(key \<mapsto> pending)\<rparr>)
            in case find_by_pair_key key m of
                 None \<Rightarrow> stored
               | Some r \<Rightarrow>
                   if map_option (\<lambda>c. ch_open_sent c \<and> \<not> ch_opened c) (chan m r) = Some True then try_pair e r pending m else stored)"

definition handle_reject :: "MuxEnv \<Rightarrow> bytes \<Rightarrow> Mux \<Rightarrow> Mux" where
  "handle_reject e data m =
     (case varint_decode data of (raw_id, ptr) \<Rightarrow>
        if raw_id = 0 \<or> raw_id > 0xFFFFFFFF then m
        else case mx_local_to_channel m (ucast raw_id) of None \<Rightarrow> m | Some r \<Rightarrow> remote_close e r m)"

definition handle_close :: "MuxEnv \<Rightarrow> bytes \<Rightarrow> Mux \<Rightarrow> Mux" where
  "handle_close e data m =
     (case varint_decode data of (raw_id, ptr) \<Rightarrow>
        if raw_id = 0 \<or> raw_id > 0xFFFFFFFF then m
        else case mx_remote_to_channel m (ucast raw_id) of None \<Rightarrow> m | Some r \<Rightarrow> remote_close e r m)"

definition handle_data :: "MuxEnv \<Rightarrow> u32 \<Rightarrow> bytes \<Rightarrow> Mux \<Rightarrow> Mux" where
  "handle_data e channel_id data m =
     (case mx_remote_to_channel m channel_id of
        None \<Rightarrow> m
      | Some r \<Rightarrow>
          (case chan m r of
             None \<Rightarrow> dangling m
           | Some c \<Rightarrow>
               if ch_destroyed c then m
               else case varint_decode data of (type, ptr) \<Rightarrow>
                 if \<not> ch_opened c then
                   (if mx_buffered_bytes m + length ptr > MAX_BUFFERED then m
                    else upd r (\<lambda>c. c\<lparr>ch_pending_messages := ch_pending_messages c @ [(ucast type, ptr)]\<rparr>)
                           (m\<lparr>mx_buffered_bytes := mx_buffered_bytes m + length ptr\<rparr>))
                 else dispatch e r (ucast type) ptr m))"

text \<open>One message of a batch.\<close>

definition handle_sub :: "MuxEnv \<Rightarrow> u64 \<Rightarrow> bytes \<Rightarrow> Mux \<Rightarrow> Mux" where
  "handle_sub e channel_id sub m =
     (if channel_id = 0 then
        (case varint_decode sub of (type, body) \<Rightarrow>
           if type = ucast CONTROL_OPEN then handle_open e body m
           else if type = ucast CONTROL_REJECT then handle_reject e body m
           else if type = ucast CONTROL_CLOSE then handle_close e body m
           else m)
      else handle_data e (ucast channel_id) sub m)"

lemma varint_decode_consumes: "bs \<noteq> [] \<Longrightarrow> length (snd (varint_decode bs)) < length bs"
  by (cases bs) (auto simp: varint_decode_def)

text \<open>The two nested loops of \<^verbatim>\<open>handle_batch\<close>: \<open>cur\<close> is the channel of the inner loop, \<open>None\<close> in the outer one.\<close>

function batch_loop :: "MuxEnv \<Rightarrow> u64 option \<Rightarrow> nat \<Rightarrow> bytes \<Rightarrow> Mux \<Rightarrow> Mux" where
  "batch_loop e None entries ptr m =
     (if ptr = [] then m
      else let (channel_id, ptr') = varint_decode ptr in
        if channel_id > 0xFFFFFFFF then m else batch_loop e (Some channel_id) entries ptr' m)"
| "batch_loop e (Some channel_id) entries ptr m =
     (if ptr = [] then m
      else if entries + 1 > MAX_BATCH_ENTRIES then m
      else let (msg_len, ptr') = varint_decode ptr in
        if msg_len = 0 then batch_loop e None (entries + 1) ptr' m
        else if unat msg_len > length ptr' then m
        else batch_loop e (Some channel_id) (entries + 1) (drop (unat msg_len) ptr') (handle_sub e channel_id (take (unat msg_len) ptr') m))"
  by pat_completeness auto
termination
  by (relation "measure (\<lambda>(e, cur, entries, ptr, m). length ptr)")
    (simp_all, (metis varint_decode_consumes snd_conv less_imp_diff_less)+)

declare batch_loop.simps [simp del]

definition handle_batch :: "MuxEnv \<Rightarrow> bytes \<Rightarrow> Mux \<Rightarrow> Mux" where
  "handle_batch e data m = batch_loop e None 0 data m"

definition on_data :: "MuxEnv \<Rightarrow> bytes \<Rightarrow> Mux \<Rightarrow> Mux" where
  "on_data e data m =
     (if data = [] then m
      else case varint_decode data of (channel_id, ptr) \<Rightarrow>
        if ptr = [] then m
        else if channel_id = 0 then
          (case varint_decode ptr of (type, body) \<Rightarrow>
             if type = ucast CONTROL_BATCH then handle_batch e body m
             else if type = ucast CONTROL_OPEN then handle_open e body m
             else if type = ucast CONTROL_REJECT then handle_reject e body m
             else if type = ucast CONTROL_CLOSE then handle_close e body m
             else m)
        else if channel_id > 0xFFFFFFFF then m
        else handle_data e (ucast channel_id) ptr m)"

section \<open>The stream\<close>

fun drain_all :: "MuxEnv \<Rightarrow> nat list \<Rightarrow> Mux \<Rightarrow> Mux" where
  "drain_all e [] m = m"
| "drain_all e (r # rs) m =
     (case chan m r of
        None \<Rightarrow> dangling m
      | Some c \<Rightarrow> drain_all e rs (if ch_opened c \<and> \<not> ch_destroyed c \<and> ch_on_drain c then fire e (OnDrain r) m else m))"

definition on_stream_drain :: "MuxEnv \<Rightarrow> Mux \<Rightarrow> Mux" where
  "on_stream_drain e m = (let m = m\<lparr>mx_drained := True\<rparr> in drain_all e (map fst (mx_channels m)) m)"

definition first_live :: "Mux \<Rightarrow> nat option" where
  "first_live m = (case filter (\<lambda>(r, c). \<not> ch_destroyed c) (mx_channels m) of [] \<Rightarrow> None | (r, c) # _ \<Rightarrow> Some r)"

text \<open>\<^verbatim>\<open>Mux::destroy\<close> closes channels until none is alive.  The loop is bounded by \<open>fuel\<close>, \<open>None\<close> if that is not enough.\<close>

fun destroy_loop :: "MuxEnv \<Rightarrow> nat \<Rightarrow> Mux \<Rightarrow> Mux option" where
  "destroy_loop e fuel m =
     (case first_live m of
        None \<Rightarrow> Some m
      | Some r \<Rightarrow> (case fuel of 0 \<Rightarrow> None | Suc n \<Rightarrow> destroy_loop e n (remote_close e r m)))"

declare destroy_loop.simps [simp del]

definition Mux_destroy :: "MuxEnv \<Rightarrow> nat \<Rightarrow> Mux \<Rightarrow> Mux option" where
  "Mux_destroy e fuel m =
     (if mx_destroyed m then Some m
      else map_option (\<lambda>m. m\<lparr>mx_batch := [], mx_cork_count := 0\<rparr>) (destroy_loop e fuel (m\<lparr>mx_destroyed := True\<rparr>)))"

end
