(* ===== verification/Protomux_Frames.thy ===== *)
theory Protomux_Frames
  imports Protomux Handlers_Safety
begin

text \<open>
  The frames of the multiplexer: its varints are those of the compact encoding, the precomputed sizes are exact, the keys
  under which channels pair are unambiguous, and a batch has the effect of its entries.
\<close>

section \<open>Varints\<close>

lemma byte_of: "ucast (v AND 0xFF) = (ucast v :: byte)" for v :: u64
proof -
  have "v AND 0xFF = take_bit 8 v"
    by (simp add: take_bit_eq_mask mask_eq_exp_minus_1)
  then show ?thesis
    by (simp add: bit_eq_iff bit_simps)
qed

lemma byte_of_ucast16: "ucast (drop_bit 8 (ucast v :: u16)) = (ucast (drop_bit 8 v) :: byte)" for v :: u64
  by (rule bit_word_eqI) (auto simp: bit_simps)

lemma byte_of_ucast32:
  "n \<le> 24 \<Longrightarrow> ucast (drop_bit n (ucast v :: u32)) = (ucast (drop_bit n v) :: byte)" for v :: u64
  by (rule bit_word_eqI) (auto simp: bit_simps)

lemma byte_of_low: "ucast (ucast v :: u16) = (ucast v :: byte)" "ucast (ucast v :: u32) = (ucast v :: byte)" for v :: u64
  by (rule bit_word_eqI; auto simp: bit_simps)+

lemma varint_wire: "varint_encode v = Uint_wire v"
  by (simp add: varint_encode_def Uint_wire_def byte_of byte_of_ucast16 byte_of_ucast32 byte_of_low write_le16_def write_le32_def
      write_le64_def upt_rec)

lemma varint_length: "length (varint_encode v) = varint_size v"
  by (simp add: varint_encode_def varint_size_def)

lemma varint_not_Nil [simp]: "varint_encode v \<noteq> []"
  by (simp add: varint_encode_def)

lemma join_bytes:
  fixes v :: u64
  shows "foldl (\<lambda>w i. w OR push_bit (8 * i) (ucast (ucast (drop_bit (8 * i) v) :: byte))) 0 [0..<k] = take_bit (8 * k) v"
proof (induction k)
  case (Suc k)
  have "take_bit (8 * k) v OR push_bit (8 * k) (ucast (ucast (drop_bit (8 * k) v) :: byte)) = take_bit (8 * Suc k) v"
    by (rule bit_word_eqI) (auto simp: bit_simps)
  then show ?case
    using Suc by simp
qed simp

lemma varint_decode_first:
  "b \<le> 0xFC \<Longrightarrow> varint_decode (b # xs) = (ucast b, xs)"
  "varint_decode (0xFD # a # b # xs) = (ucast a OR push_bit 8 (ucast b), xs)"
  "varint_decode (0xFE # a # b # c # d # xs) = (ucast a OR push_bit 8 (ucast b) OR push_bit 16 (ucast c) OR push_bit 24 (ucast d), xs)"
  "length ys = 8 \<Longrightarrow> varint_decode (0xFF # ys @ xs) = (foldl (\<lambda>v i. v OR push_bit (8 * i) (ucast (ys ! i))) 0 [0..<8], xs)"
proof -
  show "b \<le> 0xFC \<Longrightarrow> varint_decode (b # xs) = (ucast b, xs)"
    "varint_decode (0xFD # a # b # xs) = (ucast a OR push_bit 8 (ucast b), xs)"
    "varint_decode (0xFE # a # b # c # d # xs) = (ucast a OR push_bit 8 (ucast b) OR push_bit 16 (ucast c) OR push_bit 24 (ucast d), xs)"
    by (simp_all add: varint_decode_def)
  assume "length ys = 8"
  then have "foldl (\<lambda>v i. v OR push_bit (8 * i) (ucast ((ys @ xs) ! i))) 0 [0..<8] =
      foldl (\<lambda>v i. v OR push_bit (8 * i) (ucast (ys ! i))) (0 :: u64) [0..<8]"
    by (intro foldl_cong) (simp_all add: nth_append)
  then show "varint_decode (0xFF # ys @ xs) = (foldl (\<lambda>v i. v OR push_bit (8 * i) (ucast (ys ! i))) 0 [0..<8], xs)"
    using \<open>length ys = 8\<close> by (simp add: varint_decode_def del: upt_rec_numeral)
qed

lemma low_bytes:
  fixes v :: u64
  shows "unat v < 2 ^ 16 \<Longrightarrow> ucast (ucast v :: byte) OR push_bit 8 (ucast (ucast (drop_bit 8 v) :: byte)) = v"
    and "unat v < 2 ^ 32 \<Longrightarrow> ucast (ucast v :: byte) OR push_bit 8 (ucast (ucast (drop_bit 8 v) :: byte)) OR
      push_bit 16 (ucast (ucast (drop_bit 16 v) :: byte)) OR push_bit 24 (ucast (ucast (drop_bit 24 v) :: byte)) = v"
proof -
  have up2: "[0..<2] = [0, 1 :: nat]" and up4: "[0..<4] = [0, 1, 2, 3 :: nat]"
    by (simp_all add: upt_rec)
  have self: "take_bit n v = v" if "unat v < 2 ^ n" for n
    using that by (simp add: word_unat_eq_iff unsigned_take_bit_eq take_bit_nat_eq_self)
  show "unat v < 2 ^ 16 \<Longrightarrow> ucast (ucast v :: byte) OR push_bit 8 (ucast (ucast (drop_bit 8 v) :: byte)) = v"
    using join_bytes [of v 2] self [of 16] by (simp add: up2)
  show "unat v < 2 ^ 32 \<Longrightarrow> ucast (ucast v :: byte) OR push_bit 8 (ucast (ucast (drop_bit 8 v) :: byte)) OR
      push_bit 16 (ucast (ucast (drop_bit 16 v) :: byte)) OR push_bit 24 (ucast (ucast (drop_bit 24 v) :: byte)) = v"
    using join_bytes [of v 4] self [of 32] by (simp add: up4 or.assoc)
qed

lemma varint_decode_encode [simp]: "varint_decode (varint_encode v @ xs) = (v, xs)"
proof -
  consider "v \<le> 0xFC" | "\<not> v \<le> 0xFC" "v \<le> 0xFFFF" | "\<not> v \<le> 0xFC" "\<not> v \<le> 0xFFFF" "v \<le> 0xFFFFFFFF"
    | "\<not> v \<le> 0xFC" "\<not> v \<le> 0xFFFF" "\<not> v \<le> 0xFFFFFFFF"
    by blast
  then show ?thesis
  proof cases
    case 1
    then have small: "unat v \<le> 252"
      by (simp add: word_le_nat_alt)
    then have "ucast (ucast v :: byte) = v" "(ucast v :: byte) \<le> 0xFC"
      by (simp_all add: word_unat_eq_iff unsigned_ucast_eq unsigned_take_bit_eq take_bit_nat_eq_self word_le_nat_alt)
    then show ?thesis
      using 1 varint_decode_first(1) [of "ucast v" xs] by (simp add: varint_encode_def)
  next
    case 2
    then have "unat v < 2 ^ 16"
      by (simp add: word_le_nat_alt)
    then show ?thesis
      using 2 low_bytes(1) [of v] by (simp add: varint_encode_def byte_of varint_decode_first)
  next
    case 3
    then have "unat v < 2 ^ 32"
      by (simp add: word_le_nat_alt)
    then show ?thesis
      using 3 low_bytes(2) [of v] by (simp add: varint_encode_def byte_of varint_decode_first)
  next
    case 4
    let ?ys = "map (\<lambda>i. ucast (drop_bit (8 * i) v) :: byte) [0..<8]"
    have "foldl (\<lambda>w i. w OR push_bit (8 * i) (ucast (?ys ! i))) 0 [0..<8] =
        foldl (\<lambda>w i. w OR push_bit (8 * i) (ucast (ucast (drop_bit (8 * i) v) :: byte))) 0 [0..<8]"
      by (rule foldl_cong) (simp_all add: nth_map_upt del: upt_rec_numeral)
    also have "\<dots> = take_bit 64 v"
      using join_bytes [of v 8] by (simp del: upt_rec_numeral)
    also have "\<dots> = v"
      by (simp add: take_bit_word_eq_self)
    finally have dec: "foldl (\<lambda>w i. w OR push_bit (8 * i) (ucast (?ys ! i))) 0 [0..<8] = v" .
    have enc: "varint_encode v = 0xFF # ?ys"
      using 4 by (simp add: varint_encode_def byte_of del: upt_rec_numeral)
    have len: "length ?ys = 8"
      by simp
    show ?thesis
      unfolding enc append_Cons varint_decode_first(4) [OF len] dec by (rule refl)
  qed
qed

lemma varint_decode_whole [simp]: "varint_decode (varint_encode v) = (v, [])"
  using varint_decode_encode [of v "[]"] by simp

lemma ucast_u32 [simp]: "ucast (ucast (i :: u32) :: u64) = i" "\<not> 0xFFFFFFFF < (ucast (i :: u32) :: u64)"
  "(ucast (i :: u32) :: u64) = 0 \<longleftrightarrow> i = 0"
proof -
  have lt: "unat i < 2 ^ 32"
    using unsigned_less [of i, where 'a = nat] by simp
  then show "ucast (ucast i :: u64) = i" "\<not> 0xFFFFFFFF < (ucast i :: u64)" "(ucast i :: u64) = 0 \<longleftrightarrow> i = 0"
    by (simp_all add: word_unat_eq_iff unsigned_ucast_eq unsigned_take_bit_eq take_bit_nat_eq_self word_less_nat_alt)
qed

lemma unat_length [simp]: "length xs < 2 ^ 32 \<Longrightarrow> unat (of_nat (length xs) :: u64) = length xs"
  by (simp add: unat_of_nat)

lemma of_length_0 [simp]: "length xs < 2 ^ 32 \<Longrightarrow> (of_nat (length xs) :: u64) = 0 \<longleftrightarrow> xs = []"
  by (metis unat_length length_0_conv unat_eq_zero)

section \<open>Buffers\<close>

lemma buffer_decode_encode [simp]: "length data < 2 ^ 32 \<Longrightarrow> buffer_decode (buffer_encode data @ xs) = (data, xs)"
  "length data < 2 ^ 32 \<Longrightarrow> string_decode (string_encode data @ xs) = (data, xs)"
  "length data < 2 ^ 32 \<Longrightarrow> buffer_decode (buffer_encode data) = (data, [])"
  using varint_decode_encode [of "of_nat (length data)" data]
  by (auto simp: buffer_decode_def buffer_encode_def string_decode_def string_encode_def)

text \<open>The sizes that the code computes before it writes are the numbers of bytes it writes.\<close>

lemma frame_sizes:
  "length (open_frame c handshake) = open_frame_size c handshake" "length (close_frame i) \<le> 16"
  "es \<noteq> [] \<Longrightarrow> length (batch_frame es) = batch_size es"
proof -
  show "length (open_frame c handshake) = open_frame_size c handshake"
    by (simp add: open_frame_def open_frame_size_def varint_length string_encode_def string_preencode_def buffer_encode_def buffer_preencode_def)
  show "length (close_frame i) \<le> 16"
    by (simp add: close_frame_def varint_length varint_size_def CONTROL_CLOSE_def)
  have "length (batch_entries prev es) = batch_size_loop prev es" for prev
    by (induction prev es rule: batch_entries.induct) (auto simp: varint_length)
  then show "es \<noteq> [] \<Longrightarrow> length (batch_frame es) = batch_size es"
    by (simp add: batch_frame_def batch_size_def varint_length)
qed

section \<open>Pair keys\<close>

lemma of_char_byte_inject: "(of_char c :: byte) = of_char d \<longleftrightarrow> c = d"
proof
  assume eq: "(of_char c :: byte) = of_char d"
  have u: "unat (of_char x :: byte) = of_char x" for x
  proof -
    have small: "unat (of_nat k :: byte) = k" if "k < 256" for k
      using that by (simp add: unat_of_nat)
    have "(of_char x :: byte) = of_nat (of_char x)"
      by (rule of_nat_of_char [symmetric])
    then show ?thesis
      by (simp only: small [OF nat_of_char_less_256])
  qed
  have "(of_char c :: nat) = of_char d"
    using u [of c] u [of d] eq by (simp only:)
  then show "c = d"
    by simp
qed simp

lemma str_bytes_eq_iff: "str_bytes s = str_bytes t \<longleftrightarrow> s = t"
  unfolding str_bytes_def by (rule inj_map_eq_map) (auto simp: inj_def of_char_byte_inject)

lemma mux_to_hex_key: "mux_to_hex d = str_bytes (to_hex_key d)"
  by (induction d) (simp_all add: mux_to_hex_def to_hex_key_def str_bytes_def)

lemma hex_no_hash: "35 \<notin> set (mux_to_hex d)"
proof -
  have "hex_char n \<noteq> CHR ''#''" if "n < 16" for n
  proof -
    have "hex_char n \<in> set ''0123456789abcdef''"
      unfolding hex_char_def using that by (intro nth_mem) simp
    then show ?thesis
      by auto
  qed
  then have "CHR ''#'' \<notin> set (to_hex_key d)"
    using nibble_bounds by (fastforce simp: to_hex_key_def)
  moreover have "x = CHR ''#''" if "of_char x = (35 :: byte)" for x
    using that of_char_byte_inject [of x "CHR ''#''"] by simp
  ultimately show ?thesis
    by (auto simp: mux_to_hex_key str_bytes_def)
qed

text \<open>No two pairs of a protocol and an identifier share a key, whatever bytes the protocol name contains.\<close>

lemma build_pair_key_inject: "build_pair_key p i = build_pair_key q j \<longleftrightarrow> p = q \<and> i = j"
proof
  assume eq: "build_pair_key p i = build_pair_key q j"
  have key: "build_pair_key p i = p @ str_bytes ''##'' @ mux_to_hex i" for p i
    by (simp add: build_pair_key_def mux_to_hex_def)
  have suffix: "takeWhile (\<lambda>b. b \<noteq> 35) (rev (build_pair_key p i)) = rev (mux_to_hex i)" for p i
  proof -
    have "rev (build_pair_key p i) = rev (mux_to_hex i) @ 35 # 35 # rev p"
      by (simp add: key str_bytes_def)
    moreover have "\<And>x. x \<in> set (rev (mux_to_hex i)) \<Longrightarrow> x \<noteq> 35"
      using hex_no_hash [of i] by auto
    ultimately show ?thesis
      using takeWhile_append2 [of "rev (mux_to_hex i)" "\<lambda>b. b \<noteq> 35" "35 # 35 # rev p"] by simp
  qed
  have "mux_to_hex i = mux_to_hex j"
    using suffix [of p i] suffix [of q j] eq by (metis rev_rev_ident)
  then have "i = j"
    by (simp add: mux_to_hex_key str_bytes_eq_iff to_hex_key_inject)
  then show "p = q \<and> i = j"
    using eq by (simp add: key)
qed simp

section \<open>Batches\<close>

text \<open>What \<^verbatim>\<open>write_frame\<close> puts into a batch: never an empty payload, and on the control channel a control message other than a batch.\<close>

definition entry_ok :: "u32 \<times> bytes \<Rightarrow> bool" where
  "entry_ok x \<longleftrightarrow> (case x of (i, p) \<Rightarrow> p \<noteq> [] \<and> length p < 2 ^ 32 \<and> (i = 0 \<longrightarrow> fst (varint_decode p) \<in> {1, 2, 3}))"

definition entry_frame :: "u32 \<times> bytes \<Rightarrow> bytes" where
  "entry_frame x = (case x of (i, p) \<Rightarrow> varint_encode (ucast i) @ p)"

text \<open>The number of entries that the receiver counts: a change of the channel counts too.\<close>

fun batch_cost :: "u32 \<Rightarrow> (u32 \<times> bytes) list \<Rightarrow> nat" where
  "batch_cost prev [] = 0"
| "batch_cost prev ((i, p) # es) = (if i \<noteq> prev then 2 else 1) + batch_cost i es"

lemma handle_sub_on_data: "entry_ok (i, p) \<Longrightarrow> handle_sub e (ucast i) p m = on_data e (entry_frame (i, p)) m"
  by (auto simp: entry_ok_def entry_frame_def handle_sub_def on_data_def CONTROL_BATCH_def CONTROL_OPEN_def CONTROL_REJECT_def
      CONTROL_CLOSE_def split: prod.split)

lemma varint_zero [simp]: "varint_decode (0 # xs) = (0, xs)"
  using varint_decode_first(1) [of 0 xs] by simp

lemma batch_entry_step:
  assumes "entry_ok (i, p)" and "n < MAX_BATCH_ENTRIES"
  shows "batch_loop e (Some (ucast i)) n (varint_encode (of_nat (length p)) @ p @ xs) m =
    batch_loop e (Some (ucast i)) (Suc n) xs (on_data e (entry_frame (i, p)) m)"
proof -
  have "p \<noteq> []" "length p < 2 ^ 32"
    using assms(1) by (simp_all add: entry_ok_def)
  then show ?thesis
    using assms(2) handle_sub_on_data [OF assms(1)] by (subst batch_loop.simps(2)) simp
qed

lemma batch_switch_step:
  assumes "n < MAX_BATCH_ENTRIES"
  shows "batch_loop e (Some j) n (0 # varint_encode (ucast (i :: u32)) @ xs) m = batch_loop e (Some (ucast i)) (Suc n) xs m"
  using assms by (subst batch_loop.simps(2)) (simp add: batch_loop.simps(1))

lemma batch_loop_entries:
  assumes "\<forall>x \<in> set es. entry_ok x" and "n + batch_cost prev es \<le> MAX_BATCH_ENTRIES"
  shows "batch_loop e (Some (ucast prev)) n (batch_entries prev es) m = foldl (\<lambda>m x. on_data e (entry_frame x) m) m es"
  using assms
proof (induction prev es arbitrary: n m rule: batch_entries.induct)
  case (1 prev)
  then show ?case
    by (simp add: batch_loop.simps(2))
next
  case (2 prev i p es)
  have ok: "entry_ok (i, p)" "\<forall>x \<in> set es. entry_ok x"
    using 2(2) by simp_all
  show ?case
  proof (cases "i = prev")
    case True
    then show ?thesis
      using 2(1) [of "Suc n"] 2(3) ok batch_entry_step [OF ok(1), of n] by simp
  next
    case False
    have "batch_loop e (Some (ucast i)) (Suc n) (varint_encode (of_nat (length p)) @ p @ batch_entries i es) m =
        foldl (\<lambda>m x. on_data e (entry_frame x) m) m ((i, p) # es)"
      using 2(1) [of "Suc (Suc n)"] 2(3) ok False batch_entry_step [OF ok(1), of "Suc n"] by simp
    then show ?thesis
      using False 2(3) batch_switch_step [of n] by simp
  qed
qed

lemma on_data_batch:
  assumes "es \<noteq> []"
  shows "on_data e (batch_frame es) m = batch_loop e (Some (ucast (fst (hd es)))) 0 (batch_entries (fst (hd es)) es) m"
proof -
  obtain i p es' where es: "es = (i, p) # es'"
    using assms by (metis list.exhaust prod.exhaust)
  have "varint_encode (of_nat (length p)) @ p @ batch_entries i es' \<noteq> []"
    by simp
  then show ?thesis
    unfolding es by (simp add: on_data_def batch_frame_def CONTROL_BATCH_def handle_batch_def batch_loop.simps(1))
qed

lemma write_corked:
  assumes "\<not> mx_destroyed m" and "mx_cork_count m > 0"
  shows "write_frame e (entry_frame (i, p)) m = m\<lparr>mx_batch := mx_batch m @ [(i, p)]\<rparr>"
  using assms by (simp add: write_frame_def entry_frame_def)

lemma write_all_corked:
  assumes "\<not> mx_destroyed m" and "mx_cork_count m > 0"
  shows "foldl (\<lambda>m x. write_frame e (entry_frame x) m) m es = m\<lparr>mx_batch := mx_batch m @ es\<rparr>"
  using assms
proof (induction es arbitrary: m)
  case (Cons x es)
  then show ?case
    using write_corked [of m e "fst x" "snd x"] by simp
qed simp

text \<open>C34. Corking changes the number of writes and nothing else: frames written between \<^verbatim>\<open>cork\<close> and \<^verbatim>\<open>uncork\<close> leave as one frame, and a peer
  that receives this frame is in the same state as if it had received the frames one by one.  The receiver counts at most 1024
  entries, a change of the channel included.\<close>

theorem corked_batch_equivalent:
  assumes "es \<noteq> []" and "\<forall>x \<in> set es. entry_ok x" and "batch_cost (fst (hd es)) es \<le> MAX_BATCH_ENTRIES"
    and "\<not> mx_destroyed m" and "mx_cork_count m = 0" and "mx_batch m = []"
  shows "uncork e (foldl (\<lambda>m x. write_frame e (entry_frame x) m) (cork m) es) = write_fn e (batch_frame es) m \<and>
    on_data e' (batch_frame es) n = foldl (\<lambda>n x. on_data e' (entry_frame x) n) n es"
proof
  have "foldl (\<lambda>m x. write_frame e (entry_frame x) m) (cork m) es = m\<lparr>mx_cork_count := 1, mx_batch := es\<rparr>"
    using write_all_corked [of "cork m" e es] assms(4-6) by (simp add: cork_def)
  moreover have "m\<lparr>mx_cork_count := 0, mx_batch := []\<rparr> = m"
    using assms(5,6) by (cases m) simp
  ultimately show "uncork e (foldl (\<lambda>m x. write_frame e (entry_frame x) m) (cork m) es) = write_fn e (batch_frame es) m"
    using assms(1) by (simp add: uncork_def)
  show "on_data e' (batch_frame es) n = foldl (\<lambda>n x. on_data e' (entry_frame x) n) n es"
    using batch_loop_entries [OF assms(2), of 0 "fst (hd es)"] assms(3) by (simp add: on_data_batch [OF assms(1)])
qed

definition quiet :: MuxEnv where
  "quiet = \<lparr>me_write = (\<lambda>_. True), me_react = (\<lambda>_ m. m)\<rparr>"

theorem corked_batch_equivalent_witness:
  "on_data quiet (batch_frame [(5, [0, 1]), (7, [0, 2])]) (Mux_new True) =
     on_data quiet (entry_frame (7, [0, 2])) (on_data quiet (entry_frame (5, [0, 1])) (Mux_new True))"
proof -
  have "\<forall>x \<in> set [(5, [0, 1]), (7, [0, 2])]. entry_ok x"
    by (simp add: entry_ok_def)
  from corked_batch_equivalent [OF _ this, of "Mux_new True" quiet quiet "Mux_new True"] show ?thesis
    by (simp add: Mux_new_def MAX_BATCH_ENTRIES_def)
qed

lemma batch_loop_truncates:
  assumes "\<forall>x \<in> set es. entry_ok x \<and> fst x = i" and "n \<le> MAX_BATCH_ENTRIES"
  shows "batch_loop e (Some (ucast i)) n (batch_entries i es) m =
    foldl (\<lambda>m x. on_data e (entry_frame x) m) m (take (MAX_BATCH_ENTRIES - n) es)"
  using assms
proof (induction es arbitrary: n m)
  case Nil
  then show ?case
    by (simp add: batch_loop.simps(2))
next
  case (Cons x es)
  obtain p where x: "x = (i, p)" "entry_ok (i, p)"
    using Cons(2) by (cases x) simp
  show ?case
  proof (cases "n < MAX_BATCH_ENTRIES")
    case True
    then have "MAX_BATCH_ENTRIES - n = Suc (MAX_BATCH_ENTRIES - Suc n)"
      by simp
    then show ?thesis
      using Cons True batch_entry_step [OF x(2) True] x(1) by simp
  next
    case False
    then show ?thesis
      using Cons(3) x(1) by (simp add: batch_loop.simps(2))
  qed
qed

text \<open>\<^verbatim>\<open>uncork\<close> puts any number of messages into one frame, but the receiver stops after 1024: of a longer batch for one channel the
  rest is lost without an error on either side.\<close>

lemma long_batch_truncated:
  assumes "es \<noteq> []" and "\<forall>x \<in> set es. entry_ok x \<and> fst x = i"
  shows "on_data e (batch_frame es) m = foldl (\<lambda>m x. on_data e (entry_frame x) m) m (take 1024 es)"
proof -
  have "fst (hd es) = i"
    using assms by simp
  then show ?thesis
    using batch_loop_truncates [OF assms(2), of 0] by (simp add: on_data_batch [OF assms(1)] MAX_BATCH_ENTRIES_def)
qed

end
