(* ===== verification/Protomux_Safety.thy ===== *)
theory Protomux_Safety
  imports Protomux_Frames
begin

text \<open>
  The invariant of the multiplexer: its lookup tables point to channels that are alive and that carry the id or key they are
  found under.  Every operation and every incoming frame keeps it, whatever the callbacks of the application do in between, as
  long as these only use the multiplexer.
\<close>

section \<open>The invariant\<close>

definition channel_ok :: "Channel \<Rightarrow> bool" where
  "channel_ok c \<longleftrightarrow> ch_pending_messages c = [] \<and> (ch_opened c \<longrightarrow> ch_open_sent c \<and> ch_remote_id c \<noteq> 0 \<and> \<not> ch_destroyed c) \<and>
     (ch_remote_id c \<noteq> 0 \<longrightarrow> ch_opened c \<or> ch_destroyed c)"

definition tables_ok :: "Mux \<Rightarrow> bool" where
  "tables_ok m \<longleftrightarrow>
     (\<forall>x r. mx_remote_to_channel m x = Some r \<longrightarrow> (\<exists>c. chan m r = Some c \<and> ch_remote_id c = x \<and> x \<noteq> 0)) \<and>
     (\<forall>x r. mx_local_to_channel m x = Some r \<longrightarrow> (\<exists>c. chan m r = Some c \<and> ch_local_id c = x)) \<and>
     (\<forall>k r. mx_last_channel_by_key m k = Some r \<longrightarrow> (\<exists>c. chan m r = Some c \<and> k \<in> set (ch_pair_keys c))) \<and>
     (\<forall>k po. mx_pending_remote m k = Some po \<longrightarrow> po_remote_local_id po \<noteq> 0 \<and> k = build_pair_key (po_protocol po) (po_id po))"

definition mux_ok :: "Mux \<Rightarrow> bool" where
  "mux_ok m \<longleftrightarrow> distinct (map fst (mx_channels m)) \<and>
     (\<forall>r c. chan m r = Some c \<longrightarrow> channel_ok c \<and> r < mx_next_ref m \<and> ch_local_id c = of_nat (Suc r)) \<and>
     mx_next_local_id m = of_nat (Suc (mx_next_ref m)) \<and>
     (mx_next_ref m \<le> 2 ^ 32 \<longrightarrow> (\<forall>r c. chan m r = Some c \<longrightarrow> mx_local_to_channel m (ch_local_id c) = Some r)) \<and>
     tables_ok m \<and> mx_buffered_bytes m = 0"

text \<open>What is needed of the callbacks; \<open>Protomux_Run\<close> shows it for every application that makes calls of the multiplexer in them.  The
  stream does not call back while it is written to.\<close>

definition reacts_ok :: "MuxEnv \<Rightarrow> bool" where
  "reacts_ok e \<longleftrightarrow> (\<forall>f m. me_react e (Wrote f) m = m) \<and> (\<forall>ev m. mux_ok m \<longrightarrow> mux_ok (me_react e ev m))"

lemma chan_upd [simp]: "chan (upd r f m) r' = (if r' = r then map_option f (chan m r) else chan m r')"
proof -
  have "map_of (map (\<lambda>(k, c). (k, if k = r then f c else c)) cs) r' = (if r' = r then map_option f (map_of cs r) else map_of cs r')" for cs
    by (induction cs) auto
  then show ?thesis
    by (simp add: chan_def upd_def)
qed

lemma chan_frame [simp]:
  "chan (m\<lparr>mx_trace := t\<rparr>) r = chan m r" "chan (m\<lparr>mx_drained := b\<rparr>) r = chan m r" "chan (m\<lparr>mx_batch := es\<rparr>) r = chan m r"
  "chan (m\<lparr>mx_cork_count := n\<rparr>) r = chan m r" "chan (m\<lparr>mx_fault := b\<rparr>) r = chan m r" "chan (m\<lparr>mx_destroyed := b\<rparr>) r = chan m r"
  "chan (m\<lparr>mx_pending_remote := po\<rparr>) r = chan m r" "chan (m\<lparr>mx_remote_to_channel := rt\<rparr>) r = chan m r"
  "chan (m\<lparr>mx_on_notify := b\<rparr>) r = chan m r" "chan (m\<lparr>mx_buffered_bytes := k\<rparr>) r = chan m r" "chan (m\<lparr>mx_pair_notify := pn\<rparr>) r = chan m r"
  by (simp_all add: chan_def)

lemma mux_ok_frame [simp]:
  "mux_ok (m\<lparr>mx_trace := t\<rparr>) = mux_ok m" "mux_ok (m\<lparr>mx_drained := b\<rparr>) = mux_ok m" "mux_ok (m\<lparr>mx_batch := es\<rparr>) = mux_ok m"
  "mux_ok (m\<lparr>mx_cork_count := n\<rparr>) = mux_ok m" "mux_ok (m\<lparr>mx_fault := b\<rparr>) = mux_ok m" "mux_ok (m\<lparr>mx_destroyed := b\<rparr>) = mux_ok m"
  "mux_ok (m\<lparr>mx_on_notify := b\<rparr>) = mux_ok m" "mux_ok (m\<lparr>mx_pair_notify := pn\<rparr>) = mux_ok m" "mux_ok (dangling m) = mux_ok m"
  by (simp_all add: mux_ok_def tables_ok_def dangling_def)

lemma upd_fields [simp]:
  "mx_remote_to_channel (upd r f m) = mx_remote_to_channel m" "mx_local_to_channel (upd r f m) = mx_local_to_channel m"
  "mx_last_channel_by_key (upd r f m) = mx_last_channel_by_key m" "mx_pending_remote (upd r f m) = mx_pending_remote m"
  "mx_buffered_bytes (upd r f m) = mx_buffered_bytes m" "mx_next_ref (upd r f m) = mx_next_ref m" "mx_fault (upd r f m) = mx_fault m"
  "mx_destroyed (upd r f m) = mx_destroyed m" "mx_cork_count (upd r f m) = mx_cork_count m" "mx_write_fn (upd r f m) = mx_write_fn m"
  "mx_trace (upd r f m) = mx_trace m" "mx_batch (upd r f m) = mx_batch m" "mx_pair_notify (upd r f m) = mx_pair_notify m"
  "mx_next_local_id (upd r f m) = mx_next_local_id m" "map fst (mx_channels (upd r f m)) = map fst (mx_channels m)"
  by (auto simp: upd_def)

lemma mux_okD:
  assumes "mux_ok m"
  shows "chan m r = Some c \<Longrightarrow> channel_ok c"
    "chan m r = Some c \<Longrightarrow> mx_next_ref m \<le> 2 ^ 32 \<Longrightarrow> mx_local_to_channel m (ch_local_id c) = Some r"
    "chan m r = Some c \<Longrightarrow> r < mx_next_ref m"
    "mx_remote_to_channel m x = Some r \<Longrightarrow> \<exists>c. chan m r = Some c \<and> ch_remote_id c = x \<and> x \<noteq> 0"
    "mx_local_to_channel m x = Some r \<Longrightarrow> \<exists>c. chan m r = Some c \<and> ch_local_id c = x"
    "mx_last_channel_by_key m k = Some r \<Longrightarrow> \<exists>c. chan m r = Some c \<and> k \<in> set (ch_pair_keys c)"
    "mx_pending_remote m k = Some po \<Longrightarrow> po_remote_local_id po \<noteq> 0 \<and> k = build_pair_key (po_protocol po) (po_id po)"
    "distinct (map fst (mx_channels m))" "mx_buffered_bytes m = 0"
    "chan m r = Some c \<Longrightarrow> ch_local_id c = of_nat (Suc r)" "mx_next_local_id m = of_nat (Suc (mx_next_ref m))"
  using assms by (auto simp: mux_ok_def tables_ok_def)

lemma mux_ok_upd:
  assumes "mux_ok m" and "\<And>c. chan m r = Some c \<Longrightarrow> channel_ok c \<Longrightarrow>
      channel_ok (f c) \<and> ch_remote_id (f c) = ch_remote_id c \<and> ch_local_id (f c) = ch_local_id c \<and> ch_pair_keys (f c) = ch_pair_keys c"
  shows "mux_ok (upd r f m)"
  unfolding mux_ok_def tables_ok_def
proof (intro conjI allI impI)
  note m = mux_okD [OF assms(1)]
  show "distinct (map fst (mx_channels (upd r f m)))" "mx_buffered_bytes (upd r f m) = 0"
    "mx_next_local_id (upd r f m) = of_nat (Suc (mx_next_ref (upd r f m)))"
    using m by simp_all
  show "channel_ok c" "r' < mx_next_ref (upd r f m)" "ch_local_id c = of_nat (Suc r')" if "chan (upd r f m) r' = Some c" for r' c
    using that assms(2) m(1,3,10) by (auto split: if_splits)
  show "mx_local_to_channel (upd r f m) (ch_local_id c) = Some r'" if "mx_next_ref (upd r f m) \<le> 2 ^ 32" "chan (upd r f m) r' = Some c" for r' c
    using that assms(2) m(1,2) by (auto split: if_splits)
  show "\<exists>c. chan (upd r f m) r' = Some c \<and> ch_remote_id c = x \<and> x \<noteq> 0" if "mx_remote_to_channel (upd r f m) x = Some r'" for x r'
    using m(4) [of x r'] that assms(2) m(1) by auto
  show "\<exists>c. chan (upd r f m) r' = Some c \<and> ch_local_id c = x" if "mx_local_to_channel (upd r f m) x = Some r'" for x r'
    using m(5) [of x r'] that assms(2) m(1) by auto
  show "\<exists>c. chan (upd r f m) r' = Some c \<and> k \<in> set (ch_pair_keys c)" if "mx_last_channel_by_key (upd r f m) k = Some r'" for k r'
    using m(6) [of k r'] that assms(2) m(1) by auto
  show "po_remote_local_id po \<noteq> 0" "k = build_pair_key (po_protocol po) (po_id po)" if "mx_pending_remote (upd r f m) k = Some po" for k po
    using m(7) [of k po] that by auto
qed

lemma chan_remove: "chan m r = Some c \<Longrightarrow> chan (remove_channel r m) r' = (if r' = r then None else chan m r')"
proof -
  have "map_of (filter (\<lambda>(k, c). k \<noteq> r) cs) r' = (if r' = r then None else map_of cs r')" for cs :: "(nat \<times> Channel) list" and r'
    by (induction cs) auto
  then show "chan m r = Some c \<Longrightarrow> ?thesis"
    by (simp add: remove_channel_def) (simp add: chan_def)
qed

lemma mux_ok_remove:
  assumes "mux_ok m"
  shows "mux_ok (remove_channel r m)"
proof (cases "chan m r")
  case None
  then show ?thesis
    using assms by (simp add: remove_channel_def)
next
  case (Some c)
  let ?m = "remove_channel r m"
  note m = mux_okD [OF assms] and ch = chan_remove [OF Some]
  have fields: "mx_remote_to_channel ?m = (if ch_remote_id c \<noteq> 0 then (mx_remote_to_channel m)(ch_remote_id c := None) else mx_remote_to_channel m)"
    "mx_local_to_channel ?m = (mx_local_to_channel m)(ch_local_id c := None)"
    "mx_pending_remote ?m = erase_keys (ch_pair_keys c) (mx_pending_remote m)"
    "mx_last_channel_by_key ?m =
       (\<lambda>k. if k \<in> set (ch_pair_keys c) \<and> mx_last_channel_by_key m k = Some r then None else mx_last_channel_by_key m k)"
    "mx_channels ?m = filter (\<lambda>(k, c). k \<noteq> r) (mx_channels m)" "mx_next_ref ?m = mx_next_ref m" "mx_buffered_bytes ?m = mx_buffered_bytes m"
    "mx_next_local_id ?m = mx_next_local_id m"
    using Some by (simp_all add: remove_channel_def)
  show ?thesis
    unfolding mux_ok_def tables_ok_def
  proof (intro conjI allI impI)
    show "distinct (map fst (mx_channels ?m))" "mx_buffered_bytes ?m = 0"
      using m(8,9) by (auto simp: fields distinct_map intro: inj_on_subset)
    show "mx_next_local_id ?m = of_nat (Suc (mx_next_ref ?m))"
      using m(11) by (simp add: fields)
    show "channel_ok c'" "r' < mx_next_ref ?m" "ch_local_id c' = of_nat (Suc r')" if "chan ?m r' = Some c'" for r' c'
      using that m(1,3,10) by (auto simp: ch fields split: if_splits)
    show "mx_local_to_channel ?m (ch_local_id c') = Some r'" if "mx_next_ref ?m \<le> 2 ^ 32" "chan ?m r' = Some c'" for r' c'
      using that m(2) [of r' c'] m(2) [OF Some] by (auto simp: ch fields split: if_splits)
    show "\<exists>c. chan ?m r' = Some c \<and> ch_remote_id c = x \<and> x \<noteq> 0" if "mx_remote_to_channel ?m x = Some r'" for x r'
      using that m(4) [of x r'] Some by (auto simp: ch fields split: if_splits)
    show "\<exists>c. chan ?m r' = Some c \<and> ch_local_id c = x" if "mx_local_to_channel ?m x = Some r'" for x r'
      using that m(5) [of x r'] Some by (auto simp: ch fields split: if_splits)
    show "\<exists>c. chan ?m r' = Some c \<and> k \<in> set (ch_pair_keys c)" if "mx_last_channel_by_key ?m k = Some r'" for k r'
      using that m(6) [of k r'] Some by (auto simp: ch fields split: if_splits)
    show "po_remote_local_id po \<noteq> 0" "k = build_pair_key (po_protocol po) (po_id po)" if "mx_pending_remote ?m k = Some po" for k po
      using that m(7) [of k po] by (auto simp: fields erase_keys_def split: if_splits)
  qed
qed

section \<open>Operations\<close>

lemma mux_ok_fire: "reacts_ok e \<Longrightarrow> mux_ok m \<Longrightarrow> mux_ok (fire e ev m)"
  by (simp add: reacts_ok_def fire_def)

lemma mux_ok_fire_if: "reacts_ok e \<Longrightarrow> mux_ok m \<Longrightarrow> mux_ok (if b then fire e ev m else m)"
  by (simp add: mux_ok_fire)

text \<open>A write leaves the channels alone.\<close>

lemma write_frame_keeps:
  assumes "reacts_ok e"
  shows "chan (write_frame e data m) r = chan m r" "mux_ok (write_frame e data m) = mux_ok m"
    "mx_pending_remote (write_frame e data m) = mx_pending_remote m" "mx_fault (write_frame e data m) = mx_fault m"
    "mx_channels (write_frame e data m) = mx_channels m"
  using assms by (auto simp: write_frame_def write_fn_def fire_def reacts_ok_def split: prod.split)

lemma mux_ok_destroy:
  assumes "reacts_ok e" and "mux_ok m"
  shows "mux_ok (Channel_destroy e r m)"
proof -
  have "mux_ok (upd r (\<lambda>c. c\<lparr>ch_destroyed := True, ch_opened := False, ch_on_destroy := False\<rparr>) m)"
    by (rule mux_ok_upd [OF assms(2)]) (simp add: channel_ok_def)
  then show ?thesis
    using assms(2) mux_ok_remove [OF mux_ok_fire_if [OF assms(1)]] by (simp add: Channel_destroy_def Let_def split: option.split)
qed

lemma mux_ok_remote_close:
  assumes "reacts_ok e" and "mux_ok m"
  shows "mux_ok (remote_close e r m)"
proof -
  have "mux_ok (upd r (\<lambda>c. c\<lparr>ch_closed := True, ch_on_close := False\<rparr>) m)"
    by (rule mux_ok_upd [OF assms(2)]) (simp add: channel_ok_def)
  from mux_ok_destroy [OF assms(1) this] show ?thesis
    using assms mux_ok_fire [OF assms(1)] by (simp add: remote_close_def Let_def split: option.split)
qed

lemma mux_ok_close:
  assumes "reacts_ok e" and "mux_ok m"
  shows "mux_ok (Channel_close e r m)"
proof -
  have upd: "mux_ok (upd r (\<lambda>c. c\<lparr>ch_closed := True\<rparr>) m')" "mux_ok (upd r (\<lambda>c. c\<lparr>ch_on_close := False\<rparr>) m')" if "mux_ok m'" for m'
    by (rule mux_ok_upd [OF that]; simp add: channel_ok_def)+
  have "mux_ok (Channel_destroy e r (if b then fire e ev m' else m'))" if "mux_ok m'" for b ev m'
    by (rule mux_ok_destroy [OF assms(1) mux_ok_fire_if [OF assms(1) that]])
  then show ?thesis
    using assms(2) upd write_frame_keeps(2) [OF assms(1)] by (simp add: Channel_close_def Let_def split: option.split)
qed

lemma mux_ok_dispatch: "reacts_ok e \<Longrightarrow> mux_ok m \<Longrightarrow> mux_ok (dispatch e r type data m)"
  by (simp add: dispatch_def mux_ok_fire split: option.split)

lemma mux_ok_drain_pending:
  assumes "mux_ok m"
  shows "mux_ok (Channel_drain_pending e r m)" "chan (Channel_drain_pending e r m) r = chan m r"
proof -
  have "ch_pending_messages c = []" if "chan m r = Some c" for c
    using mux_okD(1) [OF assms that] by (simp add: channel_ok_def)
  then show "mux_ok (Channel_drain_pending e r m)" "chan (Channel_drain_pending e r m) r = chan m r"
    using mux_ok_upd [OF assms, of r "\<lambda>c. c\<lparr>ch_pending_messages := []\<rparr>"] assms
    by (auto simp: Channel_drain_pending_def channel_ok_def dangling_def split: option.split)
qed

text \<open>Pairing a channel that has sent its OPEN and is not yet paired.\<close>

lemma mux_ok_paired:
  assumes "mux_ok m" and "chan m r = Some c" "ch_open_sent c" "\<not> ch_opened c" "\<not> ch_destroyed c" and "x \<noteq> 0"
  shows "mux_ok (upd r (\<lambda>c. c\<lparr>ch_opened := True\<rparr>) ((upd r (\<lambda>c. c\<lparr>ch_remote_id := x\<rparr>) m)
      \<lparr>mx_remote_to_channel := (mx_remote_to_channel m)(x \<mapsto> r)\<rparr>))" (is "mux_ok ?m")
  unfolding mux_ok_def tables_ok_def
proof (intro conjI allI impI)
  note m = mux_okD [OF assms(1)]
  have c: "channel_ok c" "ch_remote_id c = 0"
    using m(1) [OF assms(2)] assms(4,5) by (auto simp: channel_ok_def)
  have ch: "chan ?m r' = (if r' = r then Some (c\<lparr>ch_remote_id := x, ch_opened := True\<rparr>) else chan m r')" for r'
    using assms(2) by simp
  have fields: "mx_remote_to_channel ?m = (mx_remote_to_channel m)(x \<mapsto> r)" "mx_local_to_channel ?m = mx_local_to_channel m"
    "mx_last_channel_by_key ?m = mx_last_channel_by_key m" "mx_pending_remote ?m = mx_pending_remote m"
    "mx_next_ref ?m = mx_next_ref m" "mx_buffered_bytes ?m = mx_buffered_bytes m" "map fst (mx_channels ?m) = map fst (mx_channels m)"
    "mx_next_local_id ?m = mx_next_local_id m"
    by (simp_all add: upd_def case_prod_unfold)
  show "distinct (map fst (mx_channels ?m))" "mx_buffered_bytes ?m = 0"
    unfolding fields using m(8,9) by simp_all
  show "mx_next_local_id ?m = of_nat (Suc (mx_next_ref ?m))"
    unfolding fields by (rule m(11))
  show "channel_ok c'" "r' < mx_next_ref ?m" "ch_local_id c' = of_nat (Suc r')" if "chan ?m r' = Some c'" for r' c'
    using that m(1,3,10) [of r' c'] m(3,10) [OF assms(2)] c assms(3,5,6) unfolding ch fields by (auto simp: channel_ok_def split: if_splits)
  show "mx_local_to_channel ?m (ch_local_id c') = Some r'" if "mx_next_ref ?m \<le> 2 ^ 32" "chan ?m r' = Some c'" for r' c'
    using that m(2) [of r' c'] m(2) [OF assms(2)] unfolding ch fields by (auto split: if_splits)
  show "\<exists>c. chan ?m r' = Some c \<and> ch_remote_id c = y \<and> y \<noteq> 0" if "mx_remote_to_channel ?m y = Some r'" for y r'
    using that m(4) [of y r'] assms(2,6) c(2) unfolding ch fields by (auto split: if_splits)
  show "\<exists>c. chan ?m r' = Some c \<and> ch_local_id c = y" if "mx_local_to_channel ?m y = Some r'" for y r'
    using that m(5) [of y r'] assms(2) unfolding ch fields by auto
  show "\<exists>c. chan ?m r' = Some c \<and> k \<in> set (ch_pair_keys c)" if "mx_last_channel_by_key ?m k = Some r'" for k r'
    using that m(6) [of k r'] assms(2) unfolding ch fields by auto
  show "po_remote_local_id po \<noteq> 0" "k = build_pair_key (po_protocol po) (po_id po)" if "mx_pending_remote ?m k = Some po" for k po
    using that m(7) [of k po] unfolding fields by auto
qed

lemma try_pair_eq:
  assumes "chan m r = Some c" "\<not> ch_opened c" "\<not> ch_destroyed c"
  shows "try_pair e r po m =
    (let m' = upd r (\<lambda>c. c\<lparr>ch_opened := True\<rparr>) ((upd r (\<lambda>c. c\<lparr>ch_remote_id := po_remote_local_id po\<rparr>) m)
           \<lparr>mx_remote_to_channel := (mx_remote_to_channel m)(po_remote_local_id po \<mapsto> r)\<rparr>)
     in Channel_drain_pending e r (if ch_on_open c then fire e (OnOpen r (po_handshake po)) m' else m'))"
  using assms by (simp add: try_pair_def fully_open_def Let_def)

lemma mux_ok_try_pair:
  assumes "reacts_ok e" "mux_ok m" and "chan m r = Some c" "ch_open_sent c" "\<not> ch_opened c" "\<not> ch_destroyed c"
    and "po_remote_local_id po \<noteq> 0"
  shows "mux_ok (try_pair e r po m)"
  unfolding try_pair_eq [OF assms(3,5,6)] Let_def
  by (rule mux_ok_drain_pending(1) [OF mux_ok_fire_if [OF assms(1) mux_ok_paired [OF assms(2-7)]]])

lemma mux_ok_pending:
  "mux_ok m \<Longrightarrow> mux_ok (m\<lparr>mx_pending_remote := (mx_pending_remote m)(k := None)\<rparr>)"
  "mux_ok m \<Longrightarrow> po_remote_local_id po \<noteq> 0 \<Longrightarrow> k = build_pair_key (po_protocol po) (po_id po) \<Longrightarrow>
    mux_ok (m\<lparr>mx_pending_remote := (mx_pending_remote m)(k \<mapsto> po)\<rparr>)"
  by (auto simp: mux_ok_def tables_ok_def)

lemma mux_ok_open:
  assumes "reacts_ok e" and "mux_ok m"
  shows "mux_ok (Channel_open e r handshake m)"
proof (cases "chan m r")
  case None
  then show ?thesis
    using assms(2) by (simp add: Channel_open_def)
next
  case (Some c)
  let ?f = "\<lambda>c. c\<lparr>ch_open_sent := True, ch_local_handshake := (if handshake \<noteq> [] then handshake else ch_local_handshake c)\<rparr>"
  let ?m = "write_frame e (open_frame c handshake) (upd r ?f m)"
  show ?thesis
  proof (cases "ch_open_sent c \<or> ch_closed c \<or> ch_destroyed c")
    case True
    then show ?thesis
      using Some assms(2) by (simp add: Channel_open_def)
  next
    case False
    have c: "\<not> ch_opened c" "\<not> ch_destroyed c"
      using mux_okD(1) [OF assms(2) Some] False by (auto simp: channel_ok_def)
    have ok: "mux_ok ?m"
      unfolding write_frame_keeps [OF assms(1)] by (rule mux_ok_upd [OF assms(2)]) (auto simp: channel_ok_def)
    have ch: "chan ?m r = Some (?f c)"
      using Some by (simp add: write_frame_keeps [OF assms(1)])
    have "mux_ok (try_pair e r po (?m\<lparr>mx_pending_remote := (mx_pending_remote ?m)(k := None)\<rparr>))" if "mx_pending_remote ?m k = Some po" for k po
      by (rule mux_ok_try_pair [OF assms(1) mux_ok_pending(1) [OF ok], where c = "?f c"])
        (use ch c mux_okD(7) [OF ok that] in simp_all)
    moreover have "mx_pending_remote ?m k = Some po" if "find_pending ks ?m = Some (k, po)" for ks k po
      using that by (auto simp: find_pending_def filter_eq_Cons_iff split: list.splits)
    ultimately show ?thesis
      using Some False ch ok by (simp add: Channel_open_def Let_def split: option.split)
  qed
qed

lemma mux_ok_send: "reacts_ok e \<Longrightarrow> mux_ok m \<Longrightarrow> mux_ok (snd (Channel_send e r t data m))"
  by (simp add: Channel_send_def write_frame_keeps split: option.split)

lemma local_ids_differ:
  assumes "i < j" "j < 2 ^ 32"
  shows "(of_nat (Suc i) :: u32) \<noteq> of_nat (Suc j)"
proof
  assume "(of_nat (Suc i) :: u32) = of_nat (Suc j)"
  then have "Suc i mod 2 ^ 32 = Suc j mod 2 ^ 32"
    using unat_of_nat [where ?'a = 32, of "Suc i"] unat_of_nat [where ?'a = 32, of "Suc j"] by (simp only: len_num1 len_bit0) simp
  then have "2 ^ 32 dvd Suc j - Suc i"
    using assms(1) mod_eq_dvd_iff_nat [of "Suc i" "Suc j" "2 ^ 32"] by simp
  then have "2 ^ 32 \<le> j - i"
    using assms(1) by (intro dvd_imp_le) simp_all
  then show False
    using assms by simp
qed

lemma mux_ok_create:
  assumes "mux_ok m"
  shows "mux_ok (snd (create_channel protocol aliases cid unique m))"
proof (cases "fst (create_channel protocol aliases cid unique m)")
  case None
  then show ?thesis
    using assms by (auto simp: create_channel_def Let_def split: if_splits)
next
  case (Some r)
  let ?m = "snd (create_channel protocol aliases cid unique m)"
  let ?c = "Channel_new protocol aliases cid (mx_next_local_id m)"
  note m = mux_okD [OF assms]
  have r: "r = mx_next_ref m" and fields: "mx_channels ?m = mx_channels m @ [(r, ?c)]" "mx_next_ref ?m = Suc r"
    "mx_local_to_channel ?m = (mx_local_to_channel m)(mx_next_local_id m \<mapsto> r)" "mx_remote_to_channel ?m = mx_remote_to_channel m"
    "mx_last_channel_by_key ?m = (\<lambda>k. if k \<in> set (ch_pair_keys ?c) then Some r else mx_last_channel_by_key m k)"
    "mx_pending_remote ?m = mx_pending_remote m" "mx_buffered_bytes ?m = mx_buffered_bytes m"
    "mx_next_local_id ?m = mx_next_local_id m + 1"
    using Some by (auto simp: create_channel_def Let_def split: if_splits)
  have fresh: "r \<notin> fst ` set (mx_channels m)"
  proof
    assume "r \<in> fst ` set (mx_channels m)"
    then obtain c where "chan m r = Some c"
      unfolding chan_def by (metis map_of_eq_None_iff not_None_eq)
    then show False
      using m(3) r by blast
  qed
  have none: "chan m r = None"
    using fresh by (simp add: chan_def map_of_eq_None_iff)
  have ch: "chan ?m r' = (if r' = r then Some ?c else chan m r')" for r'
    using none by (simp add: chan_def fields map_add_def split: option.split)
  have new: "channel_ok ?c" "ch_local_id ?c = of_nat (Suc r)" "mx_next_local_id m = of_nat (Suc r)"
    using m(11) r by (simp_all add: channel_ok_def Channel_new_def)
  show ?thesis
    unfolding mux_ok_def tables_ok_def
  proof (intro conjI allI impI)
    show "distinct (map fst (mx_channels ?m))" "mx_buffered_bytes ?m = 0"
      using m(8,9) fresh by (simp_all add: fields)
    show "mx_next_local_id ?m = of_nat (Suc (mx_next_ref ?m))"
      by (simp add: fields new(3))
    show "channel_ok c" "r' < mx_next_ref ?m" "ch_local_id c = of_nat (Suc r')" if "chan ?m r' = Some c" for r' c
      using that m(1,3,10) [of r' c] new(1,2) r by (auto simp: ch fields split: if_splits)
    show "mx_local_to_channel ?m (ch_local_id c) = Some r'" if b: "mx_next_ref ?m \<le> 2 ^ 32" and c: "chan ?m r' = Some c" for r' c
    proof (cases "r' = r")
      case False
      then have old: "chan m r' = Some c"
        using c by (simp add: ch)
      then have "ch_local_id c \<noteq> mx_next_local_id m"
        using local_ids_differ [of r' r] m(3,10) [OF old] b r by (simp add: fields new(3))
      then show ?thesis
        using m(2) [OF old] b r by (simp add: fields)
    qed (use c new in \<open>simp add: ch fields\<close>)
    show "\<exists>c. chan ?m r' = Some c \<and> ch_remote_id c = x \<and> x \<noteq> 0" if "mx_remote_to_channel ?m x = Some r'" for x r'
      using that m(4) [of x r'] none by (auto simp: ch fields)
    show "\<exists>c. chan ?m r' = Some c \<and> ch_local_id c = x" if "mx_local_to_channel ?m x = Some r'" for x r'
      using that m(5) [of x r'] none new(2,3) by (auto simp: ch fields split: if_splits)
    show "\<exists>c. chan ?m r' = Some c \<and> k \<in> set (ch_pair_keys c)" if "mx_last_channel_by_key ?m k = Some r'" for k r'
      using that m(6) [of k r'] none by (auto simp: ch fields split: if_splits)
    show "po_remote_local_id po \<noteq> 0" "k = build_pair_key (po_protocol po) (po_id po)" if "mx_pending_remote ?m k = Some po" for k po
      using that m(7) [of k po] by (auto simp: fields)
  qed
qed

section \<open>Frames of the peer\<close>

lemma mux_ok_notify: "reacts_ok e \<Longrightarrow> mux_ok m \<Longrightarrow> mux_ok (dispatch_notify e p i h m)"
  by (simp add: dispatch_notify_def mux_ok_fire split: option.split)

lemma find_by_pair_key_live:
  assumes "distinct (map fst (mx_channels m))" and "find_by_pair_key key m = Some r"
  obtains c where "chan m r = Some c" "\<not> ch_destroyed c" "key \<in> set (ch_pair_keys c)"
proof -
  obtain c where "(r, c) \<in> set (mx_channels m)" "\<not> ch_destroyed c" "key \<in> set (ch_pair_keys c)"
    using assms(2) by (auto simp: find_by_pair_key_def filter_eq_Cons_iff split: list.splits prod.splits)
  then show thesis
    using that assms(1) by (simp add: chan_def)
qed

lemma ucast_raw_id: "\<not> (raw_id = 0 \<or> 0xFFFFFFFF < raw_id) \<Longrightarrow> (ucast (raw_id :: u64) :: u32) \<noteq> 0"
  by (auto simp: word_unat_eq_iff word_less_nat_alt unsigned_ucast_eq unsigned_take_bit_eq take_bit_nat_eq_self)

lemma mux_ok_handle_open:
  assumes "reacts_ok e" and "mux_ok m"
  shows "mux_ok (handle_open e data m)"
proof -
  have stored: "mux_ok (dispatch_notify e p i h (m\<lparr>mx_pending_remote := (mx_pending_remote m)(build_pair_key p i \<mapsto>
      \<lparr>po_remote_local_id = x, po_handshake = h, po_protocol = p, po_id = i\<rparr>)\<rparr>))" if "x \<noteq> 0" for p i h x
    by (rule mux_ok_notify [OF assms(1) mux_ok_pending(2) [OF assms(2)]]) (simp_all add: that)
  have paired: "mux_ok (try_pair e r po m)"
    if r: "find_by_pair_key k m = Some r" "map_option (\<lambda>c. ch_open_sent c \<and> \<not> ch_opened c) (chan m r) = Some True"
      and po: "po_remote_local_id po \<noteq> 0" for r k po
  proof (rule find_by_pair_key_live [OF mux_okD(8) [OF assms(2)] r(1)])
    fix c
    assume "chan m r = Some c" "\<not> ch_destroyed c"
    then show ?thesis
      using r(2) po by (intro mux_ok_try_pair [OF assms]) simp_all
  qed
  obtain x p1 where d1: "varint_decode data = (x, p1)"
    by fastforce
  obtain p p2 where d2: "string_decode p1 = (p, p2)"
    by fastforce
  obtain i p3 where d3: "buffer_decode p2 = (i, p3)"
    by fastforce
  obtain h p4 where d4: "buffer_decode p3 = (h, p4)"
    by fastforce
  note dec = d1 d2 d3 d4
  show ?thesis
  proof (cases "(x = 0 \<or> 0xFFFFFFFF < x) \<or> p = []")
    case True
    then show ?thesis
      using assms(2) by (auto simp: handle_open_def dec)
  next
    case False
    then have "(ucast x :: u32) \<noteq> 0"
      using ucast_raw_id by blast
    then show ?thesis
      using False stored paired by (simp add: handle_open_def dec Let_def split: option.split)
  qed
qed

lemma mux_ok_handle_reject: "reacts_ok e \<Longrightarrow> mux_ok m \<Longrightarrow> mux_ok (handle_reject e data m)"
  by (auto simp: handle_reject_def mux_ok_remote_close split: prod.split option.split)

lemma mux_ok_handle_close: "reacts_ok e \<Longrightarrow> mux_ok m \<Longrightarrow> mux_ok (handle_close e data m)"
  by (auto simp: handle_close_def mux_ok_remote_close split: prod.split option.split)

text \<open>Data reaches the handlers of an open channel or nothing at all: the branch that buffers it is never taken.\<close>

lemma handle_data_eq:
  assumes "mux_ok m"
  shows "handle_data e x data m =
    (case mx_remote_to_channel m x of
       None \<Rightarrow> m
     | Some r \<Rightarrow> if map_option ch_destroyed (chan m r) = Some True then m
         else dispatch e r (ucast (fst (varint_decode data))) (snd (varint_decode data)) m)"
proof (cases "mx_remote_to_channel m x")
  case (Some r)
  then obtain c where c: "chan m r = Some c" "ch_remote_id c \<noteq> 0"
    using mux_okD(4) [OF assms Some] by blast
  then have "ch_opened c \<or> ch_destroyed c"
    using mux_okD(1) [OF assms c(1)] by (simp add: channel_ok_def)
  then show ?thesis
    using Some c by (auto simp: handle_data_def split: prod.split)
qed (simp add: handle_data_def)

lemma mux_ok_handle_data: "reacts_ok e \<Longrightarrow> mux_ok m \<Longrightarrow> mux_ok (handle_data e x data m)"
  by (simp add: handle_data_eq mux_ok_dispatch split: option.split)

lemma mux_ok_handle_sub: "reacts_ok e \<Longrightarrow> mux_ok m \<Longrightarrow> mux_ok (handle_sub e x data m)"
  by (simp add: handle_sub_def mux_ok_handle_open mux_ok_handle_reject mux_ok_handle_close mux_ok_handle_data split: prod.split)

lemma mux_ok_batch_loop: "reacts_ok e \<Longrightarrow> mux_ok m \<Longrightarrow> mux_ok (batch_loop e cur n ptr m)"
proof (induction e cur n ptr m rule: batch_loop.induct)
  case (1 e entries ptr m)
  then show ?case
    by (subst batch_loop.simps) (auto split: prod.split)
next
  case (2 e channel_id entries ptr m)
  then show ?case
    by (subst batch_loop.simps) (auto simp: mux_ok_handle_sub split: prod.split)
qed

lemma mux_ok_on_data: "reacts_ok e \<Longrightarrow> mux_ok m \<Longrightarrow> mux_ok (on_data e data m)"
  by (simp add: on_data_def handle_batch_def mux_ok_batch_loop mux_ok_handle_open mux_ok_handle_reject mux_ok_handle_close
      mux_ok_handle_data split: prod.split)

section \<open>The stream\<close>

lemma mux_ok_drain_all: "reacts_ok e \<Longrightarrow> mux_ok m \<Longrightarrow> mux_ok (drain_all e rs m)"
  by (induction e rs m rule: drain_all.induct) (simp_all add: mux_ok_fire split: option.split)

lemma mux_ok_destroy_loop: "reacts_ok e \<Longrightarrow> mux_ok m \<Longrightarrow> destroy_loop e n m = Some m' \<Longrightarrow> mux_ok m'"
proof (induction n arbitrary: m)
  case 0
  then show ?case
    by (auto simp: destroy_loop.simps [of e 0] split: option.splits)
next
  case (Suc n)
  then show ?case
    using mux_ok_remote_close [OF Suc(2,3)] by (auto simp: destroy_loop.simps [of e "Suc n"] split: option.splits)
qed

end
