(* ===== verification/Protomux_Run.thy ===== *)
theory Protomux_Run
  imports Protomux_Safety
begin

text \<open>
  The life of a multiplexer: its runs, the absence of dangling pointers, the end of \<^verbatim>\<open>destroy\<close>, and two peers that open a
  channel to each other.
\<close>

section \<open>Runs\<close>

text \<open>The application installs or removes callbacks of a channel.\<close>

definition set_callbacks :: "nat \<Rightarrow> bool \<Rightarrow> bool \<Rightarrow> bool \<Rightarrow> bool \<Rightarrow> Mux \<Rightarrow> Mux" where
  "set_callbacks r op cl de dr m =
     (if chan m r = None then dangling m
      else upd r (\<lambda>c. c\<lparr>ch_on_open := op, ch_on_close := cl, ch_on_destroy := de, ch_on_drain := dr\<rparr>) m)"

text \<open>The application uses only channels that were not freed.\<close>

inductive mux_run :: "MuxEnv \<Rightarrow> Mux \<Rightarrow> bool" for e where
  start: "mux_run e (Mux_new w)"
| create: "mux_run e m \<Longrightarrow> mux_run e (snd (create_channel protocol aliases cid unique m))"
| callbacks: "mux_run e m \<Longrightarrow> chan m r \<noteq> None \<Longrightarrow> mux_run e (set_callbacks r op cl de dr m)"
| message: "mux_run e m \<Longrightarrow> chan m r \<noteq> None \<Longrightarrow> mux_run e (snd (add_message r handler m))"
| open_channel: "mux_run e m \<Longrightarrow> chan m r \<noteq> None \<Longrightarrow> mux_run e (Channel_open e r handshake m)"
| send: "mux_run e m \<Longrightarrow> chan m r \<noteq> None \<Longrightarrow> mux_run e (snd (Channel_send e r t data m))"
| close: "mux_run e m \<Longrightarrow> chan m r \<noteq> None \<Longrightarrow> mux_run e (Channel_close e r m)"
| receive: "mux_run e m \<Longrightarrow> mux_run e (on_data e data m)"
| cork: "mux_run e m \<Longrightarrow> mux_run e (cork m)"
| uncork: "mux_run e m \<Longrightarrow> mux_run e (uncork e m)"
| pair: "mux_run e m \<Longrightarrow> mux_run e (Mux_pair protocol cid fn m)"
| unpair: "mux_run e m \<Longrightarrow> mux_run e (Mux_unpair protocol cid m)"
| notify: "mux_run e m \<Longrightarrow> mux_run e (m\<lparr>mx_on_notify := b\<rparr>)"
| drain: "mux_run e m \<Longrightarrow> mux_run e (on_stream_drain e m)"
| destroy: "mux_run e m \<Longrightarrow> Mux_destroy e n m = Some m' \<Longrightarrow> mux_run e m'"

lemma mux_ok_callbacks: "mux_ok m \<Longrightarrow> mux_ok (set_callbacks r op cl de dr m)" "mux_ok m \<Longrightarrow> mux_ok (snd (add_message r handler m))"
  by (auto simp: set_callbacks_def add_message_def channel_ok_def intro!: mux_ok_upd split: option.split)

lemma mux_ok_uncork: "reacts_ok e \<Longrightarrow> mux_ok m \<Longrightarrow> mux_ok (uncork e m)"
  by (simp add: uncork_def Let_def write_fn_def mux_ok_fire)

lemma mux_ok_whole_destroy: "reacts_ok e \<Longrightarrow> mux_ok m \<Longrightarrow> Mux_destroy e n m = Some m' \<Longrightarrow> mux_ok m'"
  using mux_ok_destroy_loop [of e "m\<lparr>mx_destroyed := True\<rparr>" n] by (auto simp: Mux_destroy_def split: if_splits)

lemma mux_run_ok:
  assumes "mux_run e m" and "reacts_ok e"
  shows "mux_ok m"
  using assms(1)
proof (induction rule: mux_run.induct)
  case (start w)
  then show ?case
    by (simp add: mux_ok_def tables_ok_def Mux_new_def chan_def)
next
  case (destroy m n m')
  then show ?case
    using mux_ok_whole_destroy [OF assms(2)] by blast
qed (simp_all add: assms(2) mux_ok_create mux_ok_callbacks mux_ok_open mux_ok_send mux_ok_close mux_ok_on_data cork_def mux_ok_uncork
    Mux_pair_def Mux_unpair_def on_stream_drain_def mux_ok_drain_all)

section \<open>What applications do in callbacks\<close>

text \<open>The calls an application can make, and the one that frees channels besides \<^verbatim>\<open>Mux::destroy\<close>.\<close>

datatype MuxCall =
    CallCreate bytes "bytes list" bytes bool
  | CallCallbacks nat bool bool bool bool
  | CallMessage nat bool
  | CallOpen nat bytes
  | CallSend nat "32 word" bytes
  | CallClose nat
  | CallCork
  | CallUncork
  | CallPair bytes bytes nat
  | CallUnpair bytes bytes
  | CallNotify bool

fun mux_call :: "MuxEnv \<Rightarrow> MuxCall \<Rightarrow> Mux \<Rightarrow> Mux" where
  "mux_call e (CallCreate protocol aliases cid unique) m = snd (create_channel protocol aliases cid unique m)"
| "mux_call e (CallCallbacks r op cl de dr) m = set_callbacks r op cl de dr m"
| "mux_call e (CallMessage r handler) m = snd (add_message r handler m)"
| "mux_call e (CallOpen r handshake) m = Channel_open e r handshake m"
| "mux_call e (CallSend r t data) m = snd (Channel_send e r t data m)"
| "mux_call e (CallClose r) m = Channel_close e r m"
| "mux_call e CallCork m = cork m"
| "mux_call e CallUncork m = uncork e m"
| "mux_call e (CallPair protocol cid fn) m = Mux_pair protocol cid fn m"
| "mux_call e (CallUnpair protocol cid) m = Mux_unpair protocol cid m"
| "mux_call e (CallNotify b) m = m\<lparr>mx_on_notify := b\<rparr>"

fun call_channel :: "MuxCall \<Rightarrow> nat option" where
  "call_channel (CallCallbacks r op cl de dr) = Some r"
| "call_channel (CallMessage r handler) = Some r"
| "call_channel (CallOpen r handshake) = Some r"
| "call_channel (CallSend r t data) = Some r"
| "call_channel (CallClose r) = Some r"
| "call_channel c = None"

fun call_closes :: "MuxCall \<Rightarrow> bool" where
  "call_closes (CallClose r) = True"
| "call_closes c = False"

definition call_live :: "MuxCall \<Rightarrow> Mux \<Rightarrow> bool" where
  "call_live c m = (case call_channel c of None \<Rightarrow> True | Some r \<Rightarrow> chan m r \<noteq> None)"

text \<open>
  A sequence of calls takes \<open>m\<close> to \<open>m'\<close>: on channels that were not freed, and without closing any unless \<open>closing\<close>.  Callbacks that run
  inside a call are those of some environment that satisfies \<open>P\<close>.
\<close>

inductive calls_made :: "bool \<Rightarrow> (MuxEnv \<Rightarrow> bool) \<Rightarrow> Mux \<Rightarrow> Mux \<Rightarrow> bool" for closing P m where
  none: "calls_made closing P m m"
| call: "calls_made closing P m m' \<Longrightarrow> P e \<Longrightarrow> call_live c m' \<Longrightarrow> call_closes c \<longrightarrow> closing \<Longrightarrow> calls_made closing P m (mux_call e c m')"
| destroy: "calls_made closing P m m' \<Longrightarrow> P e \<Longrightarrow> closing \<Longrightarrow> Mux_destroy e n m' = Some m'' \<Longrightarrow> calls_made closing P m m''"

lemma calls_made_mono [mono]:
  assumes "\<And>e. P e \<longrightarrow> Q e"
  shows "calls_made closing P m m' \<longrightarrow> calls_made closing Q m m'"
proof
  assume "calls_made closing P m m'"
  then show "calls_made closing Q m m'"
    by (induction rule: calls_made.induct) (use assms in \<open>auto intro: calls_made.intros\<close>)
qed

text \<open>
  An application: in every callback it makes a sequence of calls of its choice, and so do the callbacks that these calls run, to any
  finite depth of nesting.  The stream does not call back while it is written to.
\<close>

inductive uses_api :: "bool \<Rightarrow> MuxEnv \<Rightarrow> bool" for closing where
  "(\<And>f m. me_react e (Wrote f) m = m) \<Longrightarrow>
   (\<And>ev m. calls_made closing (\<lambda>e'. uses_api closing e' \<and> me_write e' = me_write e) m (me_react e ev m)) \<Longrightarrow> uses_api closing e"

lemma mux_ok_call: "reacts_ok e \<Longrightarrow> mux_ok m \<Longrightarrow> mux_ok (mux_call e c m)"
  by (cases c) (simp_all add: mux_ok_create mux_ok_callbacks mux_ok_open mux_ok_send mux_ok_close cork_def mux_ok_uncork
      Mux_pair_def Mux_unpair_def)

lemma calls_made_ok: "calls_made closing reacts_ok m m' \<Longrightarrow> mux_ok m \<Longrightarrow> mux_ok m'"
  by (induction rule: calls_made.induct) (auto intro: mux_ok_call mux_ok_whole_destroy)

lemma uses_api_ok: "uses_api closing e \<Longrightarrow> reacts_ok e"
proof (induction rule: uses_api.induct)
  case (1 e)
  have "mux_ok (me_react e ev m)" if "mux_ok m" for ev m
    by (rule calls_made_ok [OF calls_made_mono [THEN mp, OF _ 1(2)] that]) simp
  with 1(1) show ?case
    by (simp add: reacts_ok_def)
qed

section \<open>Dangling pointers\<close>

text \<open>Callbacks that do not free channels.\<close>

definition keeps :: "Mux \<Rightarrow> Mux \<Rightarrow> bool" where
  "keeps m m' \<longleftrightarrow> (\<forall>r. chan m r \<noteq> None \<longrightarrow> chan m' r \<noteq> None) \<and> mx_fault m' = mx_fault m"

definition reacts_keep :: "MuxEnv \<Rightarrow> bool" where
  "reacts_keep e \<longleftrightarrow> reacts_ok e \<and> (\<forall>ev m. mux_ok m \<longrightarrow> keeps m (me_react e ev m))"

lemma keepsD: "keeps m m' \<Longrightarrow> chan m r \<noteq> None \<Longrightarrow> chan m' r \<noteq> None" "keeps m m' \<Longrightarrow> mx_fault m' = mx_fault m"
  by (simp_all add: keeps_def)

lemma keeps_trans: "keeps a b \<Longrightarrow> keeps b c \<Longrightarrow> keeps a c"
  by (auto simp: keeps_def)

lemma keeps_simps [simp]: "keeps m m" "keeps m (upd r f m')  = keeps m m'" "keeps m (m'\<lparr>mx_pending_remote := p\<rparr>) = keeps m m'"
  "keeps m (m'\<lparr>mx_remote_to_channel := t\<rparr>) = keeps m m'" "keeps (m\<lparr>mx_trace := tr\<rparr>) m' = keeps m m'" "keeps (upd r f m) m' = keeps m m'"
  "keeps m (m'\<lparr>mx_drained := b\<rparr>) = keeps m m'" "keeps m (m'\<lparr>mx_trace := tr\<rparr>) = keeps m m'" "keeps m (m'\<lparr>mx_batch := es\<rparr>) = keeps m m'"
  "keeps m (m'\<lparr>mx_cork_count := n\<rparr>) = keeps m m'" "keeps m (m'\<lparr>mx_pair_notify := pn\<rparr>) = keeps m m'"
  "keeps m (m'\<lparr>mx_on_notify := b\<rparr>) = keeps m m'" "keeps (m\<lparr>mx_pending_remote := p\<rparr>) m' = keeps m m'"
  "keeps (m\<lparr>mx_remote_to_channel := t\<rparr>) m' = keeps m m'" "keeps (m\<lparr>mx_drained := b\<rparr>) m' = keeps m m'"
  by (auto simp: keeps_def)

lemma mux_keeps_fire: "reacts_keep e \<Longrightarrow> mux_ok m \<Longrightarrow> keeps m (fire e ev m)"
proof -
  assume "reacts_keep e" and "mux_ok m"
  then have "mux_ok (m\<lparr>mx_trace := mx_trace m @ [ev]\<rparr>)" "\<forall>ev m. mux_ok m \<longrightarrow> keeps m (me_react e ev m)"
    by (simp_all add: reacts_keep_def)
  then have "keeps (m\<lparr>mx_trace := mx_trace m @ [ev]\<rparr>) (me_react e ev (m\<lparr>mx_trace := mx_trace m @ [ev]\<rparr>))"
    by blast
  then show ?thesis
    by (simp add: fire_def)
qed

lemma mux_keeps_fire_if: "reacts_keep e \<Longrightarrow> mux_ok m' \<Longrightarrow> keeps m m' \<Longrightarrow> keeps m (if b then fire e ev m' else m')"
  using keeps_trans [OF _ mux_keeps_fire] by simp

lemma reacts_keep_ok: "reacts_keep e \<Longrightarrow> reacts_ok e"
  by (simp add: reacts_keep_def)

lemma keeps_write: "reacts_keep e \<Longrightarrow> keeps m (write_frame e data m)"
  by (simp add: keeps_def write_frame_keeps reacts_keep_ok)

lemma keeps_dispatch: "reacts_keep e \<Longrightarrow> mux_ok m \<Longrightarrow> chan m r \<noteq> None \<Longrightarrow> keeps m (dispatch e r t data m)"
  by (auto simp: dispatch_def mux_keeps_fire split: option.split)

lemma fault_remove: "chan m r \<noteq> None \<Longrightarrow> mx_fault (remove_channel r m) = mx_fault m"
  by (auto simp: remove_channel_def)

lemma mux_ok_flags:
  "mux_ok m \<Longrightarrow> mux_ok (upd r (\<lambda>c. c\<lparr>ch_destroyed := True, ch_opened := False, ch_on_destroy := False\<rparr>) m)"
  "mux_ok m \<Longrightarrow> mux_ok (upd r (\<lambda>c. c\<lparr>ch_closed := True, ch_on_close := False\<rparr>) m)"
  "mux_ok m \<Longrightarrow> mux_ok (upd r (\<lambda>c. c\<lparr>ch_closed := True\<rparr>) m)"
  "mux_ok m \<Longrightarrow> mux_ok (upd r (\<lambda>c. c\<lparr>ch_on_close := False\<rparr>) m)"
  by (rule mux_ok_upd; simp add: channel_ok_def)+

lemma fault_destroy:
  assumes "reacts_keep e" and "mux_ok m" and "chan m r \<noteq> None"
  shows "mx_fault (Channel_destroy e r m) = mx_fault m"
proof -
  obtain c where c: "chan m r = Some c"
    using assms(3) by blast
  let ?m = "upd r (\<lambda>c. c\<lparr>ch_destroyed := True, ch_opened := False, ch_on_destroy := False\<rparr>) m"
  let ?m' = "if ch_on_destroy c then fire e (OnDestroy r) ?m else ?m"
  have k: "keeps m ?m'"
    by (rule mux_keeps_fire_if [OF assms(1) mux_ok_flags(1) [OF assms(2)]]) simp
  have "mx_fault (remove_channel r ?m') = mx_fault m"
    by (rule trans [OF fault_remove [OF keepsD(1) [OF k assms(3)]] keepsD(2) [OF k]])
  then show ?thesis
    using c by (simp add: Channel_destroy_def Let_def)
qed

lemma fault_fire: "reacts_keep e \<Longrightarrow> mux_ok m \<Longrightarrow> mx_fault (fire e ev m) = mx_fault m"
  using mux_keeps_fire [of e m ev] by (simp add: keeps_def)

lemma fault_remote_close:
  assumes "reacts_keep e" and "mux_ok m" and "chan m r \<noteq> None"
  shows "mx_fault (remote_close e r m) = mx_fault m"
proof -
  obtain c where c: "chan m r = Some c"
    using assms(3) by blast
  then have "mx_fault (Channel_destroy e r (upd r (\<lambda>c. c\<lparr>ch_closed := True, ch_on_close := False\<rparr>) m)) = mx_fault m"
    using fault_destroy [OF assms(1) mux_ok_flags(2) [OF assms(2), of r], of r] by simp
  then show ?thesis
    using c fault_fire [OF assms(1) mux_ok_destroy [OF reacts_keep_ok [OF assms(1)] mux_ok_flags(2) [OF assms(2)]]]
    by (simp add: remote_close_def Let_def)
qed

lemma fault_close:
  assumes "reacts_keep e" and "mux_ok m" and "chan m r \<noteq> None"
  shows "mx_fault (Channel_close e r m) = mx_fault m"
proof -
  note ok = reacts_keep_ok [OF assms(1)]
  obtain c where c: "chan m r = Some c"
    using assms(3) by blast
  let ?m = "write_frame e (close_frame (ch_local_id c)) (upd r (\<lambda>c. c\<lparr>ch_closed := True\<rparr>) m)"
  let ?c = "c\<lparr>ch_closed := True\<rparr>"
  let ?m1 = "upd r (\<lambda>c. c\<lparr>ch_on_close := False\<rparr>) ?m"
  let ?m2 = "if ch_on_close c then fire e (OnClose r) ?m1 else ?m1"
  have m: "chan ?m r = Some ?c" "mx_fault ?m = mx_fault m"
    using c by (simp_all add: write_frame_keeps [OF ok])
  have ok1: "mux_ok ?m1"
    by (rule mux_ok_flags(4)) (simp add: write_frame_keeps [OF ok] mux_ok_flags(3) [OF assms(2)])
  have k: "keeps ?m ?m2"
    by (rule mux_keeps_fire_if [OF assms(1) ok1]) simp
  have "chan ?m r \<noteq> None"
    using m(1) by simp
  from fault_destroy [OF assms(1) mux_ok_fire_if [OF ok ok1] keepsD(1) [OF k this]] keepsD(2) [OF k] m(2)
  have "mx_fault (Channel_destroy e r ?m2) = mx_fault m"
    by metis
  then show ?thesis
    using c m by (simp add: Channel_close_def Let_def)
qed

lemma fault_try_pair:
  assumes "reacts_keep e" "mux_ok m" and "chan m r = Some c" "ch_open_sent c" "\<not> ch_opened c" "\<not> ch_destroyed c" "po_remote_local_id po \<noteq> 0"
  shows "keeps m (try_pair e r po m)" "mx_fault (try_pair e r po m) = mx_fault m"
proof -
  let ?m = "upd r (\<lambda>c. c\<lparr>ch_opened := True\<rparr>) ((upd r (\<lambda>c. c\<lparr>ch_remote_id := po_remote_local_id po\<rparr>) m)
    \<lparr>mx_remote_to_channel := (mx_remote_to_channel m)(po_remote_local_id po \<mapsto> r)\<rparr>)"
  let ?m' = "if ch_on_open c then fire e (OnOpen r (po_handshake po)) ?m else ?m"
  have k: "keeps m ?m'"
    by (rule mux_keeps_fire_if [OF assms(1) mux_ok_paired [OF assms(2-7)]]) simp
  have ok: "mux_ok ?m'"
    by (rule mux_ok_fire_if [OF reacts_keep_ok [OF assms(1)] mux_ok_paired [OF assms(2-7)]])
  obtain c' where c': "chan ?m' r = Some c'"
    using keepsD(1) [OF k, of r] assms(3) by auto
  then have "Channel_drain_pending e r ?m' = upd r (\<lambda>c. c\<lparr>ch_pending_messages := []\<rparr>) ?m'"
    using mux_okD(1) [OF ok c'] by (simp add: Channel_drain_pending_def channel_ok_def)
  then have "keeps ?m (Channel_drain_pending e r ?m')"
    using k by simp
  then show "keeps m (try_pair e r po m)"
    unfolding try_pair_eq [OF assms(3,5,6)] Let_def by simp
  then show "mx_fault (try_pair e r po m) = mx_fault m"
    by (rule keepsD(2))
qed

lemma keeps_open:
  assumes "reacts_keep e" "mux_ok m" and "chan m r \<noteq> None"
  shows "keeps m (Channel_open e r handshake m)"
proof -
  note ok = reacts_keep_ok [OF assms(1)]
  obtain c where c: "chan m r = Some c"
    using assms(3) by blast
  let ?f = "\<lambda>c. c\<lparr>ch_open_sent := True, ch_local_handshake := (if handshake \<noteq> [] then handshake else ch_local_handshake c)\<rparr>"
  let ?m = "write_frame e (open_frame c handshake) (upd r ?f m)"
  show ?thesis
  proof (cases "ch_open_sent c \<or> ch_closed c \<or> ch_destroyed c")
    case False
    have fresh: "\<not> ch_opened c" "\<not> ch_destroyed c"
      using mux_okD(1) [OF assms(2) c] False by (auto simp: channel_ok_def)
    have m: "mux_ok ?m"
      unfolding write_frame_keeps [OF ok] by (rule mux_ok_upd [OF assms(2)]) (auto simp: channel_ok_def)
    have ch: "chan ?m r = Some (?f c)"
      using c by (simp add: write_frame_keeps [OF ok])
    have "keeps (upd r ?f m) ?m"
      by (rule keeps_write [OF assms(1)])
    then have k: "keeps m ?m"
      by simp
    have "keeps m (try_pair e r po (?m\<lparr>mx_pending_remote := (mx_pending_remote ?m)(k := None)\<rparr>))"
      if "mx_pending_remote ?m k = Some po" for k po
    proof (rule keeps_trans [OF k])
      let ?p = "?m\<lparr>mx_pending_remote := (mx_pending_remote ?m)(k := None)\<rparr>"
      have "keeps ?p (try_pair e r po ?p)"
        by (rule fault_try_pair(1) [OF assms(1) mux_ok_pending(1) [OF m], where c = "?f c"])
          (use ch fresh mux_okD(7) [OF m that] in simp_all)
      then show "keeps ?m (try_pair e r po ?p)"
        by simp
    qed
    moreover have "mx_pending_remote ?m k = Some po" if "find_pending ks ?m = Some (k, po)" for ks k po
      using that by (auto simp: find_pending_def filter_eq_Cons_iff split: list.splits)
    ultimately show ?thesis
      using c False ch k by (simp add: Channel_open_def Let_def split: option.split)
  qed (use c in \<open>simp add: Channel_open_def\<close>)
qed

lemma keeps_uncork: "reacts_keep e \<Longrightarrow> keeps m (uncork e m)"
  using reacts_keep_ok [of e] by (simp add: uncork_def Let_def write_fn_def fire_def reacts_ok_def)

text \<open>An application whose callbacks close no channel keeps all of them.\<close>

lemma keeps_create: "mux_ok m \<Longrightarrow> keeps m (snd (create_channel protocol aliases cid unique m))"
  by (auto simp: keeps_def create_channel_def chan_def map_add_def Let_def split: option.split)

lemma keeps_call:
  assumes "reacts_keep e" "mux_ok m" "call_live c m" "\<not> call_closes c"
  shows "keeps m (mux_call e c m)"
  using assms(3,4)
  by (cases c) (auto simp: call_live_def keeps_create [OF assms(2)] keeps_open [OF assms(1,2)] keeps_uncork [OF assms(1)]
      keeps_write [OF assms(1)] set_callbacks_def add_message_def Channel_send_def cork_def Mux_pair_def Mux_unpair_def split: option.split)

lemma calls_made_keep: "calls_made False reacts_keep m m' \<Longrightarrow> mux_ok m \<Longrightarrow> mux_ok m' \<and> keeps m m'"
proof (induction rule: calls_made.induct)
  case (call m' e c)
  then show ?case
    using mux_ok_call [OF reacts_keep_ok] keeps_call keeps_trans by blast
qed simp_all

lemma uses_api_keep: "uses_api False e \<Longrightarrow> reacts_keep e"
proof (induction rule: uses_api.induct)
  case (1 e)
  have "calls_made False reacts_keep m (me_react e ev m)" for ev m
    by (rule calls_made_mono [THEN mp, OF _ 1(2)]) simp
  with calls_made_keep have "mux_ok m \<Longrightarrow> mux_ok (me_react e ev m) \<and> keeps m (me_react e ev m)" for ev m
    by blast
  with 1(1) show ?case
    by (simp add: reacts_keep_def reacts_ok_def)
qed

lemma fault_handle_open:
  assumes "reacts_keep e" "mux_ok m"
  shows "mx_fault (handle_open e data m) = mx_fault m"
proof -
  have notify: "mx_fault (dispatch_notify e p i h (m\<lparr>mx_pending_remote := (mx_pending_remote m)(build_pair_key p i \<mapsto> po)\<rparr>)) = mx_fault m"
    if "po_remote_local_id po \<noteq> 0" "po_protocol po = p" "po_id po = i" for p i h po
    using fault_fire [OF assms(1) mux_ok_pending(2) [OF assms(2) that(1)], of "build_pair_key p i"] that(2,3)
    by (simp add: dispatch_notify_def split: option.split)
  have paired: "mx_fault (try_pair e r po m) = mx_fault m"
    if r: "find_by_pair_key k m = Some r" "map_option (\<lambda>c. ch_open_sent c \<and> \<not> ch_opened c) (chan m r) = Some True"
      and po: "po_remote_local_id po \<noteq> 0" for r k po
  proof (rule find_by_pair_key_live [OF mux_okD(8) [OF assms(2)] r(1)])
    fix c
    assume "chan m r = Some c" "\<not> ch_destroyed c"
    then show ?thesis
      using r(2) po by (intro fault_try_pair(2) [OF assms]) simp_all
  qed
  obtain x p1 where d1: "varint_decode data = (x, p1)"
    by fastforce
  obtain p p2 where d2: "string_decode p1 = (p, p2)"
    by fastforce
  obtain i p3 where d3: "buffer_decode p2 = (i, p3)"
    by fastforce
  obtain h p4 where d4: "buffer_decode p3 = (h, p4)"
    by fastforce
  show ?thesis
  proof (cases "(x = 0 \<or> 0xFFFFFFFF < x) \<or> p = []")
    case True
    then show ?thesis
      by (auto simp: handle_open_def d1 d2)
  next
    case False
    then have "(ucast x :: u32) \<noteq> 0"
      using ucast_raw_id by blast
    then show ?thesis
      using False paired by (simp add: handle_open_def d1 d2 d3 d4 Let_def notify split: option.split)
  qed
qed

lemma fault_handle_sub:
  assumes "reacts_keep e" "mux_ok m"
  shows "mx_fault (handle_reject e data m) = mx_fault m" "mx_fault (handle_close e data m) = mx_fault m"
    "mx_fault (handle_data e x data m) = mx_fault m" "mx_fault (handle_sub e y data m) = mx_fault m"
proof -
  have l: "mx_fault (remote_close e r m) = mx_fault m" if "mx_local_to_channel m z = Some r" for z r
    using mux_okD(5) [OF assms(2) that] fault_remote_close [OF assms, of r] by blast
  have r: "mx_fault (remote_close e r m) = mx_fault m" "mx_fault (dispatch e r t d m) = mx_fault m"
    if "mx_remote_to_channel m z = Some r" for z r t d
    using mux_okD(4) [OF assms(2) that] fault_remote_close [OF assms, of r] keepsD(2) [OF keeps_dispatch [OF assms], of r] by blast+
  show rej: "mx_fault (handle_reject e data m) = mx_fault m" for data
    by (simp add: handle_reject_def l split: prod.split option.split)
  show cl: "mx_fault (handle_close e data m) = mx_fault m" for data
    by (simp add: handle_close_def r split: prod.split option.split)
  show da: "mx_fault (handle_data e x data m) = mx_fault m" for x data
    by (simp add: handle_data_eq [OF assms(2)] r split: option.split)
  show "mx_fault (handle_sub e y data m) = mx_fault m"
    by (simp add: handle_sub_def rej cl da fault_handle_open [OF assms] split: prod.split)
qed

lemma fault_batch_loop: "reacts_keep e \<Longrightarrow> mux_ok m \<Longrightarrow> mx_fault (batch_loop e cur n ptr m) = mx_fault m"
proof (induction e cur n ptr m rule: batch_loop.induct)
  case (1 e entries ptr m)
  then show ?case
    by (subst batch_loop.simps) (auto split: prod.split)
next
  case (2 e channel_id entries ptr m)
  then show ?case
    using fault_handle_sub(4) [OF 2(3,4)] mux_ok_handle_sub [OF reacts_keep_ok [OF 2(3)] 2(4)]
    by (subst batch_loop.simps) (auto split: prod.split)
qed

lemma fault_on_data: "reacts_keep e \<Longrightarrow> mux_ok m \<Longrightarrow> mx_fault (on_data e data m) = mx_fault m"
  by (simp add: on_data_def handle_batch_def fault_batch_loop fault_handle_open fault_handle_sub split: prod.split)

lemma fault_drain_all:
  "reacts_keep e \<Longrightarrow> mux_ok m \<Longrightarrow> \<forall>r \<in> set rs. chan m r \<noteq> None \<Longrightarrow> mx_fault (drain_all e rs m) = mx_fault m"
proof (induction rs arbitrary: m)
  case (Cons r rs)
  then obtain c where c: "chan m r = Some c"
    by auto
  let ?m = "if ch_opened c \<and> \<not> ch_destroyed c \<and> ch_on_drain c then fire e (OnDrain r) m else m"
  have k: "keeps m ?m"
    by (rule mux_keeps_fire_if [OF Cons(2,3)]) simp
  have "\<forall>r \<in> set rs. chan ?m r \<noteq> None"
    using Cons(4) keepsD(1) [OF k] by simp
  from Cons(1) [OF Cons(2) mux_ok_fire_if [OF reacts_keep_ok [OF Cons(2)] Cons(3)] this] have "mx_fault (drain_all e rs ?m) = mx_fault m"
    using keepsD(2) [OF k] by (rule trans)
  then show ?case
    using c by simp
qed simp

lemma fault_destroy_loop:
  "reacts_keep e \<Longrightarrow> distinct (map fst (mx_channels m)) \<Longrightarrow> mux_ok m \<Longrightarrow> destroy_loop e n m = Some m' \<Longrightarrow> mx_fault m' = mx_fault m"
proof (induction n arbitrary: m)
  case 0
  then show ?case
    by (auto simp: destroy_loop.simps [of e 0] split: option.splits)
next
  case (Suc n)
  show ?case
  proof (cases "first_live m")
    case None
    then show ?thesis
      using Suc(5) by (simp add: destroy_loop.simps [of e "Suc n"])
  next
    case (Some r)
    then have "r \<in> fst ` set (mx_channels m)"
      by (auto simp: first_live_def filter_eq_Cons_iff image_iff split: list.splits prod.splits)
    then have "chan m r \<noteq> None"
      by (simp add: chan_def map_of_eq_None_iff)
    note f = fault_remote_close [OF Suc(2,4) this] and ok = mux_ok_remote_close [OF reacts_keep_ok [OF Suc(2)] Suc(4), of r]
    show ?thesis
      using Suc(1) [OF Suc(2) mux_okD(8) [OF ok] ok] Suc(5) Some f by (simp add: destroy_loop.simps [of e "Suc n"])
  qed
qed

lemma fault_whole_destroy:
  assumes "reacts_keep e" "mux_ok m" "Mux_destroy e n m = Some m'"
  shows "mx_fault m' = mx_fault m"
  using fault_destroy_loop [OF assms(1), of "m\<lparr>mx_destroyed := True\<rparr>" n] mux_okD(8) [OF assms(2)] assms(2,3)
  by (auto simp: Mux_destroy_def split: if_splits)

lemma mux_run_faultless:
  assumes "mux_run e m" and "reacts_keep e"
  shows "\<not> mx_fault m"
  using assms(1)
proof (induction rule: mux_run.induct)
  case (create m protocol aliases cid unique)
  then show ?case
    by (simp add: create_channel_def Let_def)
next
  case (open_channel m r handshake)
  then show ?case
    using keepsD(2) [OF keeps_open [OF assms(2) mux_run_ok [OF _ reacts_keep_ok [OF assms(2)]]]] by simp
next
  case (send m r t data)
  then show ?case
    by (auto simp: Channel_send_def write_frame_keeps [OF reacts_keep_ok [OF assms(2)]] split: option.split)
next
  case (receive m data)
  then show ?case
    using fault_on_data [OF assms(2) mux_run_ok [OF _ reacts_keep_ok [OF assms(2)]]] by simp
next
  case (uncork m)
  then show ?case
    using keepsD(2) [OF keeps_uncork [OF assms(2)]] by simp
next
  case (drain m)
  have "\<forall>r \<in> set (map fst (mx_channels m)). chan (m\<lparr>mx_drained := True\<rparr>) r \<noteq> None"
    by (auto simp: chan_def map_of_eq_None_iff image_iff)
  then show ?case
    using fault_drain_all [OF assms(2), of "m\<lparr>mx_drained := True\<rparr>"] mux_run_ok [OF drain(1) reacts_keep_ok [OF assms(2)]] drain(2)
    by (simp add: on_stream_drain_def)
next
  case (destroy m n m')
  then show ?case
    using fault_whole_destroy [OF assms(2) mux_run_ok [OF destroy(1) reacts_keep_ok [OF assms(2)]] destroy(2)] by simp
next
  case (close m r)
  then show ?case
    using fault_close [OF assms(2) mux_run_ok [OF close(1) reacts_keep_ok [OF assms(2)]]] by simp
qed (auto simp: Mux_new_def set_callbacks_def add_message_def cork_def Mux_pair_def Mux_unpair_def)

text \<open>C31. In every state a multiplexer can reach, whatever the peer sends and whatever calls the application makes inside its callbacks,
  each entry of its lookup tables points to a channel that is alive and carries the id or the key it is found under, a channel is found
  under its id while at most \<open>2 ^ 32\<close> were created, and nothing is ever buffered, since a channel that can be addressed is open.  No freed
  channel is ever used, provided that the callbacks do not close channels or destroy the multiplexer; they may create, open and send.\<close>

theorem mux_no_dangling:
  assumes "mux_run e m" and "uses_api closing e"
  shows "(\<not> closing \<longrightarrow> \<not> mx_fault m) \<and> mx_buffered_bytes m = 0 \<and>
    (\<forall>x r. mx_remote_to_channel m x = Some r \<longrightarrow> (\<exists>c. chan m r = Some c \<and> ch_remote_id c = x \<and> (ch_opened c \<or> ch_destroyed c))) \<and>
    (\<forall>x r. mx_local_to_channel m x = Some r \<longrightarrow> (\<exists>c. chan m r = Some c \<and> ch_local_id c = x)) \<and>
    (mx_next_ref m \<le> 2 ^ 32 \<longrightarrow> (\<forall>r c. chan m r = Some c \<longrightarrow> mx_local_to_channel m (ch_local_id c) = Some r)) \<and>
    (\<forall>k r. mx_last_channel_by_key m k = Some r \<longrightarrow> (\<exists>c. chan m r = Some c \<and> k \<in> set (ch_pair_keys c)))"
proof -
  note ok = mux_run_ok [OF assms(1) uses_api_ok [OF assms(2)]]
  have "\<exists>c. chan m r = Some c \<and> ch_remote_id c = x \<and> (ch_opened c \<or> ch_destroyed c)" if "mx_remote_to_channel m x = Some r" for x r
    using mux_okD(4) [OF ok that] mux_okD(1) [OF ok, of r] unfolding channel_ok_def by blast
  moreover have "\<not> closing \<longrightarrow> \<not> mx_fault m"
    using mux_run_faultless [OF assms(1)] uses_api_keep assms(2) by (cases closing) simp_all
  ultimately show ?thesis
    using mux_okD(2,5,6,9) [OF ok] by blast
qed

lemma quiet_api: "uses_api closing quiet"
  by (rule uses_api.intros) (simp_all add: quiet_def calls_made.none)

lemma quiet_ok: "reacts_ok quiet"
  by (rule uses_api_ok [OF quiet_api])

text \<open>A server that answers the notification of an OPEN by creating the channel and opening it, which pairs it at once; the callback for
  that sends a message.\<close>

definition greeter :: MuxEnv where
  "greeter = \<lparr>me_write = (\<lambda>_. True), me_react = (\<lambda>ev m. case ev of
     OnOpen r handshake \<Rightarrow> if chan m r = None then m else snd (Channel_send quiet r 0 [42] m)
   | _ \<Rightarrow> m)\<rparr>"

definition answering :: MuxEnv where
  "answering = \<lparr>me_write = (\<lambda>_. True), me_react = (\<lambda>ev m. case ev of
     OnNotify fn protocol cid handshake \<Rightarrow>
       (case create_channel protocol [] cid False m of
          (None, m') \<Rightarrow> m'
        | (Some r, m') \<Rightarrow> Channel_open greeter r [] (set_callbacks r True False False False m'))
   | _ \<Rightarrow> m)\<rparr>"

lemma created_live:
  assumes "create_channel protocol aliases cid unique m = (Some r, m')"
  shows "chan m' r \<noteq> None"
  using assms by (auto simp: create_channel_def chan_def map_add_def Let_def split: if_splits option.splits)

lemma answering_api: "uses_api closing answering"
proof -
  have quiet: "uses_api closing quiet \<and> me_write quiet = me_write greeter"
    using quiet_api by (simp add: quiet_def greeter_def)
  have greeter: "uses_api closing greeter \<and> me_write greeter = me_write answering"
  proof (rule conjI)
    show "uses_api closing greeter"
    proof (rule uses_api.intros)
      fix ev m
      note send = calls_made.call [OF calls_made.none, where P = "\<lambda>e'. uses_api closing e' \<and> me_write e' = me_write greeter" and m = m, OF quiet]
      show "calls_made closing (\<lambda>e'. uses_api closing e' \<and> me_write e' = me_write greeter) m (me_react greeter ev m)"
        using send [of "CallSend r 0 [42]" for r] by (cases ev) (simp_all add: greeter_def calls_made.none call_live_def)
    qed (simp add: greeter_def)
  qed (simp add: greeter_def answering_def)
  show ?thesis
  proof (rule uses_api.intros)
    fix ev m
    let ?made = "calls_made closing (\<lambda>e'. uses_api closing e' \<and> me_write e' = me_write answering) m"
    have made: "?made m' \<Longrightarrow> call_live c m' \<Longrightarrow> \<not> call_closes c \<Longrightarrow> ?made (mux_call greeter c m')" for c m'
      using greeter by (intro calls_made.call) simp_all
    have create: "?made (snd (create_channel protocol [] cid False m))" for protocol cid
      using made [OF calls_made.none, of "CallCreate protocol [] cid False"] by (simp add: call_live_def)
    have opened: "?made (Channel_open greeter r [] (set_callbacks r True False False False m'))"
      if c: "create_channel protocol [] cid False m = (Some r, m')" for protocol cid r m'
    proof -
      have "?made m'"
        using create [of protocol cid] c by simp
      from made [OF this, of "CallCallbacks r True False False False"] created_live [OF c]
      have set: "?made (set_callbacks r True False False False m')" "chan (set_callbacks r True False False False m') r \<noteq> None"
        by (auto simp: call_live_def set_callbacks_def)
      from made [OF this(1), of "CallOpen r []"] set(2) show ?thesis
        by (simp add: call_live_def)
    qed
    show "?made (me_react answering ev m)"
    proof (cases ev)
      case (OnNotify fn protocol cid handshake)
      then show ?thesis
        using create [of protocol cid] opened [of protocol cid]
        by (cases "create_channel protocol [] cid False m") (auto simp: answering_def split: option.split)
    qed (simp_all add: answering_def calls_made.none)
  qed (simp add: answering_def)
qed

theorem mux_no_dangling_witness:
  "let m = on_data answering [0, 1, 5, 1, 97, 0, 0] ((Mux_new True)\<lparr>mx_on_notify := True\<rparr>)
   in \<not> mx_fault m \<and> mx_local_to_channel m 1 = Some 0 \<and>
     mx_trace m = [OnNotify None [97] [] [], Wrote [0, 1, 1, 1, 97, 0, 0], OnOpen 0 [], Wrote [5, 0, 42]]"
proof -
  let ?m = "on_data answering [0, 1, 5, 1, 97, 0, 0] ((Mux_new True)\<lparr>mx_on_notify := True\<rparr>)"
  have "mux_run answering ?m"
    by (intro mux_run.receive mux_run.notify mux_run.start)
  from mux_no_dangling [OF this answering_api [of False]] have "\<not> mx_fault ?m"
    by simp
  moreover have "mx_local_to_channel ?m 1 = Some 0 \<and>
     mx_trace ?m = [OnNotify None [97] [] [], Wrote [0, 1, 1, 1, 97, 0, 0], OnOpen 0 [], Wrote [5, 0, 42]]"
    by code_simp
  ultimately show ?thesis
    unfolding Let_def by blast
qed

text \<open>An application that closes a channel as soon as it is told that the channel is open.\<close>

definition closing :: MuxEnv where
  "closing = \<lparr>me_write = (\<lambda>_. True), me_react = (\<lambda>ev m. case ev of OnOpen r _ \<Rightarrow> Channel_close quiet r m | _ \<Rightarrow> m)\<rparr>"

lemma quiet_fire [simp]: "fire quiet ev m = m\<lparr>mx_trace := mx_trace m @ [ev]\<rparr>"
  by (simp add: fire_def quiet_def)

lemma closed_is_freed:
  assumes "chan m r = Some c" "\<not> ch_closed c" "\<not> ch_destroyed c"
  shows "chan (Channel_close quiet r m) r = None"
proof -
  let ?m = "write_frame quiet (close_frame (ch_local_id c)) (upd r (\<lambda>c. c\<lparr>ch_closed := True\<rparr>) m)"
  let ?c = "c\<lparr>ch_closed := True\<rparr>"
  have m: "chan ?m r = Some ?c"
    using assms(1) by (simp add: write_frame_keeps [OF quiet_ok])
  have freed: "chan (Channel_destroy quiet r m') r = None" if "chan m' r = Some c'" "\<not> ch_destroyed c'" for m' c'
    using that by (auto simp: Channel_destroy_def Let_def chan_remove)
  show ?thesis
    using assms m freed by (simp add: Channel_close_def Let_def)
qed

text \<open>C32. Closing a channel in its own \<^verbatim>\<open>on_open\<close> callback uses freed memory: \<^verbatim>\<open>close\<close> destroys the channel, and \<^verbatim>\<open>fully_open\<close> goes on with
  \<^verbatim>\<open>drain_pending\<close> on the freed object.\<close>

theorem close_in_on_open_dangles:
  assumes "chan m r = Some c" "\<not> ch_opened c" "\<not> ch_closed c" "\<not> ch_destroyed c" "ch_on_open c"
  shows "mx_fault (try_pair closing r po m)"
proof -
  let ?m = "upd r (\<lambda>c. c\<lparr>ch_opened := True\<rparr>) ((upd r (\<lambda>c. c\<lparr>ch_remote_id := po_remote_local_id po\<rparr>) m)
    \<lparr>mx_remote_to_channel := (mx_remote_to_channel m)(po_remote_local_id po \<mapsto> r)\<rparr>)"
  let ?t = "?m\<lparr>mx_trace := mx_trace ?m @ [OnOpen r (po_handshake po)]\<rparr>"
  have "chan ?t r = Some (c\<lparr>ch_remote_id := po_remote_local_id po, ch_opened := True\<rparr>)"
    using assms(1) by simp
  from closed_is_freed [OF this] assms have "chan (fire closing (OnOpen r (po_handshake po)) ?m) r = None"
    by (simp add: fire_def closing_def)
  then show ?thesis
    unfolding try_pair_eq [OF assms(1,2,4)] Let_def using assms(5) by (simp add: Channel_drain_pending_def dangling_def)
qed

theorem close_in_on_open_dangles_witness:
  "mx_fault (try_pair closing 0 \<lparr>po_remote_local_id = 5, po_handshake = [], po_protocol = [97], po_id = []\<rparr>
     (Channel_open closing 0 [] (set_callbacks 0 True False False False (snd (create_channel [97] [] [] True (Mux_new True))))))"
  by (rule close_in_on_open_dangles [where c = "(Channel_new [97] [] [] 1)\<lparr>ch_open_sent := True, ch_on_open := True\<rparr>"])
    (simp_all add: Channel_open_def set_callbacks_def create_channel_def Mux_new_def Let_def chan_def upd_def Channel_new_def
      find_by_pair_key_def write_frame_def write_fn_def fire_def closing_def find_pending_def)

section \<open>The end of a multiplexer\<close>

definition live :: "Mux \<Rightarrow> nat" where
  "live m = length (filter (\<lambda>(r, c). \<not> ch_destroyed c) (mx_channels m))"

text \<open>Callbacks of a destroyed multiplexer cannot create channels.\<close>

definition reacts_shrink :: "MuxEnv \<Rightarrow> bool" where
  "reacts_shrink e \<longleftrightarrow> reacts_ok e \<and>
     (\<forall>ev m. mx_destroyed m \<longrightarrow> mx_destroyed (me_react e ev m) \<and> live (me_react e ev m) \<le> live m)"

lemma live_fire:
  assumes "reacts_shrink e" "mx_destroyed m"
  shows "mx_destroyed (if b then fire e ev m else m)" "live (if b then fire e ev m else m) \<le> live m"
proof -
  let ?t = "m\<lparr>mx_trace := mx_trace m @ [ev]\<rparr>"
  have "mx_destroyed (me_react e ev ?t) \<and> live (me_react e ev ?t) \<le> live ?t"
    using assms unfolding reacts_shrink_def by simp
  moreover have "live ?t = live m"
    by (simp add: live_def)
  ultimately show "mx_destroyed (if b then fire e ev m else m)" "live (if b then fire e ev m else m) \<le> live m"
    using assms(2) by (simp_all add: fire_def)
qed

lemma live_upd: "(\<And>c. ch_destroyed (f c) = ch_destroyed c) \<Longrightarrow> live (upd r f m) = live m"
  by (simp add: live_def upd_def filter_map comp_def case_prod_unfold)

lemma live_destroyed:
  assumes "chan m r = Some c" "\<not> ch_destroyed c" "\<And>c. ch_destroyed (f c)"
  shows "live (upd r f m) < live m"
proof -
  have "length (filter (\<lambda>(k, c). \<not> ch_destroyed c) (map (\<lambda>(k, c). (k, if k = r then f c else c)) cs)) \<le> length (filter (\<lambda>(k, c). \<not> ch_destroyed c) cs)" for cs
    using assms(3) by (induction cs) (auto split: if_splits)
  moreover have "map_of cs r = Some c \<Longrightarrow> length (filter (\<lambda>(k, c). \<not> ch_destroyed c) (map (\<lambda>(k, c). (k, if k = r then f c else c)) cs)) <
      length (filter (\<lambda>(k, c). \<not> ch_destroyed c) cs)" for cs
    using assms(2,3) calculation by (induction cs) (auto simp: less_Suc_eq_le split: if_splits)
  ultimately show ?thesis
    using assms(1) by (simp add: live_def upd_def chan_def)
qed

lemma live_remove: "live (remove_channel r m) \<le> live m" "mx_destroyed (remove_channel r m) = mx_destroyed m"
proof -
  have "length (filter P (filter Q xs)) \<le> length (filter P xs)" for P Q :: "nat \<times> Channel \<Rightarrow> bool" and xs
    by (induction xs) auto
  then show "live (remove_channel r m) \<le> live m" "mx_destroyed (remove_channel r m) = mx_destroyed m"
    by (simp_all add: remove_channel_def dangling_def live_def split: option.split)
qed

text \<open>Callbacks that make calls of the multiplexer satisfy this: on a destroyed one, no call makes a live channel.\<close>

definition shrinks :: "Mux \<Rightarrow> Mux \<Rightarrow> bool" where
  "shrinks m m' \<longleftrightarrow> (mx_destroyed m \<longrightarrow> mx_destroyed m' \<and> live m' \<le> live m)"

lemma shrinks_refl [simp]: "shrinks m m"
  by (simp add: shrinks_def)

lemma shrinks_trans: "shrinks a b \<Longrightarrow> shrinks b c \<Longrightarrow> shrinks a c"
  by (auto simp: shrinks_def)

lemma shrinks_frame:
  "shrinks m (m\<lparr>mx_pending_remote := p\<rparr>)" "shrinks m (m\<lparr>mx_remote_to_channel := t\<rparr>)" "shrinks m (m\<lparr>mx_buffered_bytes := k\<rparr>)"
  "shrinks m (m\<lparr>mx_cork_count := n\<rparr>)" "shrinks m (m\<lparr>mx_batch := es\<rparr>)" "shrinks m (m\<lparr>mx_pair_notify := pn\<rparr>)" "shrinks m (m\<lparr>mx_on_notify := b\<rparr>)"
  "shrinks m (dangling m)" "shrinks m (m\<lparr>mx_drained := b\<rparr>)"
  by (simp_all add: shrinks_def live_def dangling_def)

lemma shrinks_upd: "(\<And>c. ch_destroyed (f c) = ch_destroyed c) \<Longrightarrow> shrinks m (upd r f m)"
  by (simp add: shrinks_def live_upd)

lemma shrinks_kill: "shrinks m (upd r (\<lambda>c. c\<lparr>ch_destroyed := True, ch_opened := False, ch_on_destroy := False\<rparr>) m)"
proof -
  have "length (filter (\<lambda>(k, c). \<not> ch_destroyed c) (map (\<lambda>(k, c). (k, if k = r then c\<lparr>ch_destroyed := True, ch_opened := False, ch_on_destroy := False\<rparr> else c)) cs))
      \<le> length (filter (\<lambda>(k, c). \<not> ch_destroyed c) cs)" for cs :: "(nat \<times> Channel) list"
    by (induction cs) (auto split: if_splits)
  then show ?thesis
    by (simp add: shrinks_def live_def upd_def)
qed

lemma shrinks_fire: "reacts_shrink e \<Longrightarrow> shrinks m (fire e ev m)"
  using live_fire [of e m True ev] by (simp add: shrinks_def)

lemma shrinks_fire_if: "reacts_shrink e \<Longrightarrow> shrinks m m' \<Longrightarrow> shrinks m (if b then fire e ev m' else m')"
  using shrinks_trans [OF _ shrinks_fire] by simp

lemma shrinks_remove: "shrinks m (remove_channel r m)"
  by (simp add: shrinks_def live_remove)

lemma shrinks_write: "reacts_shrink e \<Longrightarrow> shrinks m (write_frame e data m)"
  by (simp add: shrinks_def write_frame_def)

lemma shrinks_destroy: "reacts_shrink e \<Longrightarrow> shrinks m (Channel_destroy e r m)"
  by (auto simp: Channel_destroy_def Let_def shrinks_frame shrinks_kill
      intro: shrinks_trans [OF shrinks_kill shrinks_remove] shrinks_trans [OF shrinks_trans [OF shrinks_kill shrinks_fire] shrinks_remove]
      split: option.split)

lemma shrinks_close: "reacts_shrink e \<Longrightarrow> shrinks m (Channel_close e r m)"
proof -
  assume e: "reacts_shrink e"
  let ?m = "\<lambda>c. write_frame e (close_frame (ch_local_id c)) (upd r (\<lambda>c. c\<lparr>ch_closed := True\<rparr>) m)"
  have m: "shrinks m (?m c)" for c
    by (rule shrinks_trans [OF shrinks_upd shrinks_write [OF e]]) simp
  have "shrinks (?m c) (Channel_destroy e r (if b then fire e ev (upd r (\<lambda>c. c\<lparr>ch_on_close := False\<rparr>) (?m c))
      else upd r (\<lambda>c. c\<lparr>ch_on_close := False\<rparr>) (?m c)))" for c b ev
    by (rule shrinks_trans [OF shrinks_fire_if [OF e shrinks_upd] shrinks_destroy [OF e]]) simp
  then have d: "shrinks m (Channel_destroy e r (if b then fire e ev (upd r (\<lambda>c. c\<lparr>ch_on_close := False\<rparr>) (?m c))
      else upd r (\<lambda>c. c\<lparr>ch_on_close := False\<rparr>) (?m c)))" for c b ev
    by (rule shrinks_trans [OF m])
  have dang: "shrinks m (dangling (?m c))" for c
    by (rule shrinks_trans [OF m shrinks_frame(8)])
  show ?thesis
    unfolding Channel_close_def Let_def
    by (cases "chan m r") (simp_all add: shrinks_frame dang d [simplified] split: option.split)
qed

lemma shrinks_pending_loop: "reacts_shrink e \<Longrightarrow> shrinks m (pending_loop e r ps m)"
proof (induction ps arbitrary: m)
  case (Cons p ps)
  obtain type data where p: "p = (type, data)"
    by fastforce
  let ?m = "m\<lparr>mx_buffered_bytes := (if mx_buffered_bytes m \<ge> length data then mx_buffered_bytes m - length data else 0)\<rparr>"
  have "shrinks ?m (dispatch e r type data ?m)"
    using Cons(2) by (simp add: dispatch_def shrinks_fire shrinks_frame split: option.split)
  then have "shrinks m (if b then dispatch e r type data ?m else ?m)" for b
    using shrinks_trans [OF shrinks_frame(3)] shrinks_frame(3) by simp
  then have "shrinks m (pending_loop e r ps (if b then dispatch e r type data ?m else ?m))" for b
    by (rule shrinks_trans) (rule Cons.IH [OF Cons(2)])
  then show ?case
    unfolding p pending_loop.simps Let_def by (cases "chan m r") (simp_all only: option.case shrinks_frame)
qed simp

lemma shrinks_try_pair: "reacts_shrink e \<Longrightarrow> shrinks m (try_pair e r po m)"
proof -
  assume e: "reacts_shrink e"
  have drain: "shrinks m (Channel_drain_pending e r m)" for m
    using shrinks_trans [OF shrinks_upd shrinks_pending_loop [OF e]] by (simp add: Channel_drain_pending_def shrinks_frame split: option.split)
  have "shrinks m (if b then fire e ev (upd r (\<lambda>c. c\<lparr>ch_opened := True\<rparr>) m) else upd r (\<lambda>c. c\<lparr>ch_opened := True\<rparr>) m)" for b ev m
    by (rule shrinks_fire_if [OF e shrinks_upd]) simp
  then have "shrinks m (fully_open e r h m)" for h m
    using shrinks_trans [OF _ drain] by (simp add: fully_open_def Let_def shrinks_frame split: option.split)
  moreover have "shrinks m ((upd r (\<lambda>c. c\<lparr>ch_remote_id := x\<rparr>) m)\<lparr>mx_remote_to_channel := t\<rparr>)" for x t
    by (rule shrinks_trans [OF shrinks_upd shrinks_frame(2)]) simp
  ultimately show ?thesis
    unfolding try_pair_def Let_def by (blast intro: shrinks_trans)
qed

lemma shrinks_open: "reacts_shrink e \<Longrightarrow> shrinks m (Channel_open e r handshake m)"
proof -
  assume e: "reacts_shrink e"
  let ?m = "\<lambda>c. write_frame e (open_frame c handshake)
    (upd r (\<lambda>c. c\<lparr>ch_open_sent := True, ch_local_handshake := (if handshake \<noteq> [] then handshake else ch_local_handshake c)\<rparr>) m)"
  have m: "shrinks m (?m c)" for c
    by (rule shrinks_trans [OF shrinks_upd shrinks_write [OF e]]) simp
  have pair: "shrinks m (try_pair e r po ((?m c)\<lparr>mx_pending_remote := p\<rparr>))" for po c p
    by (rule shrinks_trans [OF m shrinks_trans [OF shrinks_frame(1) shrinks_try_pair [OF e]]])
  have "shrinks m (dangling (?m c))" for c
    by (rule shrinks_trans [OF m shrinks_frame(8)])
  then show ?thesis
    using m pair by (auto simp: Channel_open_def Let_def shrinks_frame split: option.split)
qed

lemma shrinks_call: "reacts_shrink e \<Longrightarrow> shrinks m (mux_call e c m)"
proof -
  assume e: "reacts_shrink e"
  have "shrinks m (uncork e m)"
  proof -
    have "me_react e (Wrote f) m' = m'" for f m'
      using e by (simp add: reacts_shrink_def reacts_ok_def)
    then show ?thesis
      by (simp add: uncork_def Let_def write_fn_def fire_def shrinks_def live_def)
  qed
  moreover have "shrinks m (set_callbacks r op cl de dr m)" "shrinks m (snd (add_message r h m))" for r op cl de dr h
    by (auto simp: set_callbacks_def add_message_def shrinks_frame intro: shrinks_upd split: option.split)
  moreover have "shrinks m (snd (create_channel protocol aliases cid unique m))" for protocol aliases cid unique
    by (simp add: shrinks_def create_channel_def)
  moreover have "shrinks m (snd (Channel_send e r t data m))" for r t data
    using shrinks_write [OF e] by (simp add: Channel_send_def shrinks_frame split: option.split)
  ultimately show ?thesis
    by (cases c) (simp_all add: shrinks_open [OF e] shrinks_close [OF e] cork_def Mux_pair_def Mux_unpair_def shrinks_frame)
qed

lemma uses_api_shrink: "uses_api cl e \<Longrightarrow> reacts_shrink e"
proof (induction rule: uses_api.induct)
  case (1 e)
  have "uses_api cl e"
    by (rule uses_api.intros [OF 1(1)], rule calls_made_mono [THEN mp, OF _ 1(2)]) simp
  moreover have "shrinks m (me_react e ev m)" for ev m
  proof -
    have "calls_made cl reacts_shrink m (me_react e ev m)"
      by (rule calls_made_mono [THEN mp, OF _ 1(2)]) simp
    then show ?thesis
    proof (induction rule: calls_made.induct)
      case (call m' e c)
      then show ?case
        using shrinks_trans shrinks_call by blast
    next
      case (destroy m' e n m'')
      then show ?case
        by (auto simp: shrinks_def Mux_destroy_def split: if_splits)
    qed simp
  qed
  ultimately show ?case
    using uses_api_ok by (simp add: reacts_shrink_def shrinks_def)
qed

lemma live_close:
  assumes "reacts_shrink e" "mx_destroyed m" "chan m r = Some c" "\<not> ch_destroyed c"
  shows "live (remote_close e r m) < live m \<and> mx_destroyed (remote_close e r m)"
proof -
  let ?m = "upd r (\<lambda>c. c\<lparr>ch_closed := True, ch_on_close := False\<rparr>) m"
  let ?c = "c\<lparr>ch_closed := True, ch_on_close := False\<rparr>"
  let ?d = "upd r (\<lambda>c. c\<lparr>ch_destroyed := True, ch_opened := False, ch_on_destroy := False\<rparr>) ?m"
  let ?f = "if ch_on_destroy c then fire e (OnDestroy r) ?d else ?d"
  have "live ?d < live ?m"
    by (rule live_destroyed [where c = ?c]) (use assms in simp_all)
  moreover have "live ?m = live m"
    by (rule live_upd) simp
  moreover have f: "mx_destroyed ?f" "live ?f \<le> live ?d"
    by (rule live_fire [OF assms(1)]; simp add: assms(2))+
  ultimately have r: "live (remove_channel r ?f) < live m" "mx_destroyed (remove_channel r ?f)"
    using live_remove(1) [of r ?f] unfolding live_remove(2) by (linarith, blast)
  have eq: "remote_close e r m = (if ch_on_close c then fire e (OnClose r) (remove_channel r ?f) else remove_channel r ?f)"
    using assms(3,4) by (simp add: remote_close_def Let_def Channel_destroy_def)
  show ?thesis
    unfolding eq using le_less_trans [OF live_fire(2) [OF assms(1) r(2)] r(1)] live_fire(1) [OF assms(1) r(2)] by blast
qed

lemma first_live_Some:
  assumes "first_live m = Some r" and "distinct (map fst (mx_channels m))"
  obtains c where "chan m r = Some c" "\<not> ch_destroyed c"
proof -
  obtain c where "(r, c) \<in> set (mx_channels m)" "\<not> ch_destroyed c"
    using assms(1) by (auto simp: first_live_def filter_eq_Cons_iff split: list.splits prod.splits)
  then show thesis
    using that assms(2) by (simp add: chan_def)
qed

lemma destroy_loop_ends:
  assumes "reacts_shrink e"
  shows "mux_ok m \<Longrightarrow> mx_destroyed m \<Longrightarrow> live m \<le> n \<Longrightarrow>
    \<exists>m'. destroy_loop e n m = Some m' \<and> first_live m' = None \<and> mx_destroyed m'"
proof (induction n arbitrary: m)
  case 0
  then have "first_live m = None"
    by (simp add: first_live_def live_def)
  then show ?case
    using 0(2) by (simp add: destroy_loop.simps [of e 0])
next
  case (Suc n)
  show ?case
  proof (cases "first_live m")
    case None
    then show ?thesis
      using Suc(3) by (simp add: destroy_loop.simps [of e "Suc n"])
  next
    case (Some r)
    obtain c where c: "chan m r = Some c" "\<not> ch_destroyed c"
      by (rule first_live_Some [OF Some mux_okD(8) [OF Suc(2)]])
    have "live (remote_close e r m) \<le> n" "mx_destroyed (remote_close e r m)"
      using live_close [OF assms Suc(3) c] Suc(4) by simp_all
    moreover have "mux_ok (remote_close e r m)"
      using assms by (intro mux_ok_remote_close Suc(2)) (simp add: reacts_shrink_def)
    ultimately show ?thesis
      using Suc(1) Some by (simp add: destroy_loop.simps [of e "Suc n"])
  qed
qed

text \<open>C33. \<^verbatim>\<open>Mux::destroy\<close> ends, although every callback it runs may close further channels: it needs at most as many rounds as there are
  live channels, and afterwards none is left.  By \<open>uses_api_shrink\<close> this covers every application that makes calls of the multiplexer in
  its callbacks, closing ones included.\<close>

theorem mux_destroy_ends:
  assumes "reacts_shrink e" "mux_ok m" "\<not> mx_destroyed m"
  shows "\<exists>m'. Mux_destroy e (live m) m = Some m' \<and> mx_destroyed m' \<and> live m' = 0"
proof -
  let ?m = "m\<lparr>mx_destroyed := True\<rparr>"
  have "live ?m \<le> live m"
    by (simp add: live_def)
  then obtain m' where m': "destroy_loop e (live m) ?m = Some m'" "first_live m' = None" "mx_destroyed m'"
    using destroy_loop_ends [OF assms(1), of ?m "live m"] assms(2) by auto
  have "live m' = 0"
    using m'(2) by (auto simp: first_live_def live_def split: list.splits prod.splits)
  then show ?thesis
    using assms(3) m' by (simp add: Mux_destroy_def live_def)
qed

text \<open>An application that closes the next channel when one is destroyed.\<close>

definition toppling :: MuxEnv where
  "toppling = \<lparr>me_write = (\<lambda>_. True), me_react = (\<lambda>ev m. case ev of
     OnDestroy r \<Rightarrow> if chan m (Suc r) = None then m else Channel_close quiet (Suc r) m
   | _ \<Rightarrow> m)\<rparr>"

lemma toppling_api: "uses_api True toppling"
proof (rule uses_api.intros)
  fix ev m
  have "uses_api True quiet \<and> me_write quiet = me_write toppling"
    using quiet_api by (simp add: quiet_def toppling_def)
  then have "calls_made True (\<lambda>e'. uses_api True e' \<and> me_write e' = me_write toppling) m (mux_call quiet c m)" if "call_live c m" for c
    using that by (intro calls_made.call calls_made.none) simp_all
  from this [of "CallClose r" for r]
  show "calls_made True (\<lambda>e'. uses_api True e' \<and> me_write e' = me_write toppling) m (me_react toppling ev m)"
    by (cases ev) (auto simp: toppling_def calls_made.none call_live_def)
qed (simp add: toppling_def)

theorem mux_destroy_ends_witness:
  "\<exists>m'. Mux_destroy toppling 2 (set_callbacks 0 False False True False
      (snd (create_channel [98] [] [] True (snd (create_channel [97] [] [] True (Mux_new True)))))) = Some m' \<and> live m' = 0"
proof -
  let ?m = "set_callbacks 0 False False True False
      (snd (create_channel [98] [] [] True (snd (create_channel [97] [] [] True (Mux_new True)))))"
  have *: "chan ?m 0 \<noteq> None" "live ?m = 2" "\<not> mx_destroyed ?m"
    by (code_simp; simp)+
  have "mux_ok ?m"
    by (intro mux_ok_callbacks mux_ok_create mux_run_ok [OF mux_run.start quiet_ok])
  then show ?thesis
    using mux_destroy_ends [OF uses_api_shrink [OF toppling_api], of ?m] *(2,3) by metis
qed

end
