(* ===== verification/Protomux_Exchange.thy ===== *)
theory Protomux_Exchange
  imports Protomux_Run
begin

text \<open>
  Two peers that open the same protocol pair their channels, and a message that one sends reaches the handler of the other.
\<close>

text \<open>Callbacks that do not call the multiplexer.\<close>

definition silent :: "MuxEnv \<Rightarrow> bool" where
  "silent e \<longleftrightarrow> me_react e = (\<lambda>_ m. m)"

lemma silent_fire: "silent e \<Longrightarrow> fire e ev m = m\<lparr>mx_trace := mx_trace m @ [ev]\<rparr>"
  by (simp add: silent_def fire_def)

text \<open>A channel that has sent its OPEN and waits for the one of the peer; it is the first with its key.\<close>

definition half_open :: "Mux \<Rightarrow> nat \<Rightarrow> Channel \<Rightarrow> bool" where
  "half_open m r c \<longleftrightarrow> mux_ok m \<and> chan m r = Some c \<and> ch_open_sent c \<and> \<not> ch_opened c \<and> \<not> ch_closed c \<and> \<not> ch_destroyed c \<and>
     find_by_pair_key (build_pair_key (ch_protocol c) (ch_id c)) m = Some r"

definition sendable :: "Channel \<Rightarrow> bytes \<Rightarrow> bool" where
  "sendable c handshake \<longleftrightarrow> ch_local_id c \<noteq> 0 \<and> ch_protocol c \<noteq> [] \<and> length (ch_protocol c) < 2 ^ 32 \<and> length (ch_id c) < 2 ^ 32 \<and>
     length handshake < 2 ^ 32"

text \<open>The peer's OPEN, read back.\<close>

lemma on_data_open:
  assumes "sendable c h"
  shows "on_data e (open_frame c h) m =
    (let key = build_pair_key (ch_protocol c) (ch_id c);
         pending = \<lparr>po_remote_local_id = ch_local_id c, po_handshake = h, po_protocol = ch_protocol c, po_id = ch_id c\<rparr>;
         stored = dispatch_notify e (ch_protocol c) (ch_id c) h (m\<lparr>mx_pending_remote := (mx_pending_remote m)(key \<mapsto> pending)\<rparr>)
     in case find_by_pair_key key m of
          None \<Rightarrow> stored
        | Some r \<Rightarrow> if map_option (\<lambda>c. ch_open_sent c \<and> \<not> ch_opened c) (chan m r) = Some True then try_pair e r pending m else stored)"
proof -
  have "varint_decode (varint_encode (ucast CONTROL_OPEN) @ xs) = (1, xs)" for xs
    by (simp add: CONTROL_OPEN_def)
  then show ?thesis
    using assms by (simp add: open_frame_def on_data_def handle_open_def sendable_def CONTROL_OPEN_def CONTROL_BATCH_def)
qed

lemma same_trace: "mx_trace m = t \<Longrightarrow> m\<lparr>mx_trace := t\<rparr> = m"
  by auto

lemma drain_nothing:
  "chan m r = Some c \<Longrightarrow> ch_pending_messages c = [] \<Longrightarrow> Channel_drain_pending e r m = upd r (\<lambda>c. c\<lparr>ch_pending_messages := []\<rparr>) m"
  by (simp add: Channel_drain_pending_def)

text \<open>The state of an endpoint after the OPEN of its peer arrived.\<close>

lemma half_open_paired:
  assumes e: "silent e" and m: "half_open m r c" and peer: "sendable c' h"
    and key: "ch_protocol c' = ch_protocol c" "ch_id c' = ch_id c"
  defines "m' \<equiv> on_data e (open_frame c' h) m"
  shows "chan m' r = Some (c\<lparr>ch_remote_id := ch_local_id c', ch_opened := True\<rparr>)"
    "mx_remote_to_channel m' = (mx_remote_to_channel m)(ch_local_id c' \<mapsto> r)"
    "mx_trace m' = mx_trace m @ (if ch_on_open c then [OnOpen r h] else [])" "mux_ok m'"
    "mx_destroyed m' = mx_destroyed m" "mx_cork_count m' = mx_cork_count m" "mx_write_fn m' = mx_write_fn m"
proof -
  note c = m [unfolded half_open_def]
  let ?po = "\<lparr>po_remote_local_id = ch_local_id c', po_handshake = h, po_protocol = ch_protocol c, po_id = ch_id c\<rparr>"
  have eq: "m' = try_pair e r ?po m"
    using c key by (simp add: m'_def on_data_open [OF peer] Let_def)
  let ?p = "upd r (\<lambda>c. c\<lparr>ch_opened := True\<rparr>) ((upd r (\<lambda>c. c\<lparr>ch_remote_id := ch_local_id c'\<rparr>) m)
    \<lparr>mx_remote_to_channel := (mx_remote_to_channel m)(ch_local_id c' \<mapsto> r)\<rparr>)"
  let ?t = "?p\<lparr>mx_trace := mx_trace m @ (if ch_on_open c then [OnOpen r h] else [])\<rparr>"
  have pend: "ch_pending_messages c = []"
    using c mux_okD(1) [of m r c] by (simp add: channel_ok_def)
  have ch: "chan ?t r = Some (c\<lparr>ch_remote_id := ch_local_id c', ch_opened := True\<rparr>)"
    using c by simp
  have fired: "(if ch_on_open c then fire e (OnOpen r h) ?p else ?p) = ?t"
  proof (cases "ch_on_open c")
    case False
    moreover have "?p\<lparr>mx_trace := mx_trace m\<rparr> = ?p"
      by (rule same_trace) simp
    ultimately show ?thesis
      by simp
  qed (simp add: silent_fire [OF e])
  have "m' = Channel_drain_pending e r (if ch_on_open c then fire e (OnOpen r h) ?p else ?p)"
    using c by (simp add: eq try_pair_eq [of m r c] Let_def)
  then have "m' = Channel_drain_pending e r ?t"
    unfolding fired .
  then have m': "m' = upd r (\<lambda>c. c\<lparr>ch_pending_messages := []\<rparr>) ?t"
    by (rule trans) (rule drain_nothing [OF ch], simp add: pend)
  have "(c\<lparr>ch_remote_id := ch_local_id c', ch_opened := True\<rparr>)\<lparr>ch_pending_messages := []\<rparr> = c\<lparr>ch_remote_id := ch_local_id c', ch_opened := True\<rparr>"
    using pend by (cases c) simp
  then show "chan m' r = Some (c\<lparr>ch_remote_id := ch_local_id c', ch_opened := True\<rparr>)"
    unfolding m' chan_upd ch by simp
  show "mx_remote_to_channel m' = (mx_remote_to_channel m)(ch_local_id c' \<mapsto> r)"
    "mx_trace m' = mx_trace m @ (if ch_on_open c then [OnOpen r h] else [])"
    "mx_destroyed m' = mx_destroyed m" "mx_cork_count m' = mx_cork_count m" "mx_write_fn m' = mx_write_fn m"
    unfolding m' by simp_all
  have "reacts_ok e"
    using e by (simp add: silent_def reacts_ok_def)
  then show "mux_ok m'"
    unfolding m'_def using c by (intro mux_ok_on_data) simp_all
qed

text \<open>What a channel that is open sends, and what the peer does with it.\<close>

lemma send_frame:
  assumes "silent e" and "chan m r = Some c" "ch_opened c" "\<not> ch_closed c" "ch_remote_id c \<noteq> 0"
    and "\<not> mx_destroyed m" "mx_cork_count m \<le> 0" "mx_write_fn m"
  shows "fst (Channel_send e r t data m)"
    "mx_trace (snd (Channel_send e r t data m)) = mx_trace m @ [Wrote (data_frame (ch_remote_id c) t data)]"
  using assms by (simp_all add: Channel_send_def write_frame_def write_fn_def silent_fire)

lemma scast_u32 [simp]: "ucast (scast (t :: 32 word) :: u64) = t"
  by (rule bit_word_eqI) (simp add: bit_simps)

lemma receive_frame:
  assumes "mux_ok m" "x \<noteq> 0"
  shows "on_data e (data_frame x t data) m =
    (case mx_remote_to_channel m x of
       None \<Rightarrow> m
     | Some r \<Rightarrow> if map_option ch_destroyed (chan m r) = Some True then m else dispatch e r t data m)"
  using assms by (auto simp: data_frame_def on_data_def handle_data_eq split: option.split)

text \<open>C29. Channels pair and carry messages.  When each of two peers has opened a channel for the same protocol and identifier and
  the two OPEN frames have arrived, both channels are open under the id of the other side and each application is told the
  handshake of its peer; a message sent on one is then one frame, and if the two channels have the same local id, the handler
  of its type on the other side is called with exactly the bytes that were sent.\<close>

theorem channel_exchange:
  assumes "silent e" and a: "half_open a ra ca" "sendable ca ha" and b: "half_open b rb cb" "sendable cb hb"
    and same: "ch_protocol ca = ch_protocol cb" "ch_id ca = ch_id cb"
    and stream: "\<not> mx_destroyed a" "mx_cork_count a \<le> 0" "mx_write_fn a"
    and handler: "unat t < length (ch_messages cb)" "ch_messages cb ! unat t" and ids: "ch_local_id ca = ch_local_id cb"
  shows "let a1 = on_data e (open_frame cb hb) a; b1 = on_data e (open_frame ca ha) b; frame = data_frame (ch_local_id cb) t data
    in map_option ch_opened (chan a1 ra) = Some True \<and> map_option ch_opened (chan b1 rb) = Some True \<and>
       mx_trace a1 = mx_trace a @ (if ch_on_open ca then [OnOpen ra hb] else []) \<and>
       mx_trace b1 = mx_trace b @ (if ch_on_open cb then [OnOpen rb ha] else []) \<and>
       fst (Channel_send e ra t data a1) \<and> mx_trace (snd (Channel_send e ra t data a1)) = mx_trace a1 @ [Wrote frame] \<and>
       mx_trace (on_data e frame b1) = mx_trace b1 @ [OnMessage rb t data]"
proof -
  let ?a1 = "on_data e (open_frame cb hb) a" and ?b1 = "on_data e (open_frame ca ha) b"
  note a1 = half_open_paired [OF assms(1) a(1) b(2) same [symmetric]]
  note b1 = half_open_paired [OF assms(1) b(1) a(2) same]
  have ca: "\<not> ch_closed ca" "ch_local_id cb \<noteq> 0" and cb: "\<not> ch_destroyed cb"
    using a(1) b unfolding half_open_def sendable_def by simp_all
  have sent: "fst (Channel_send e ra t data ?a1)"
    "mx_trace (snd (Channel_send e ra t data ?a1)) = mx_trace ?a1 @ [Wrote (data_frame (ch_local_id cb) t data)]"
    using send_frame [OF assms(1) a1(1)] ca stream a1(5-7) by simp_all
  have "mx_trace (on_data e (data_frame (ch_local_id cb) t data) ?b1) = mx_trace ?b1 @ [OnMessage rb t data]"
    using receive_frame [OF b1(4) ca(2)] b1(1,2) ids handler cb assms(1) by (simp add: dispatch_def silent_fire)
  then show ?thesis
    using a1(1,3) b1(1,3) sent by (simp add: Let_def)
qed

text \<open>C30. A data frame carries the wrong id: \<^verbatim>\<open>send\<close> puts the peer's channel id into it, but the peer looks incoming data up by the
  sender's channel id.  If the two channels got different local ids, and the peer has no other channel under that id, the message
  is lost: the sender reports success and the receiver's state does not change.\<close>

theorem channel_misaddressed:
  assumes "silent e" and a: "half_open a ra ca" "sendable ca ha" and b: "half_open b rb cb" "sendable cb hb"
    and same: "ch_protocol ca = ch_protocol cb" "ch_id ca = ch_id cb"
    and stream: "\<not> mx_destroyed a" "mx_cork_count a \<le> 0" "mx_write_fn a"
    and ids: "ch_local_id ca \<noteq> ch_local_id cb" "mx_remote_to_channel b (ch_local_id cb) = None"
  shows "let a1 = on_data e (open_frame cb hb) a; b1 = on_data e (open_frame ca ha) b; frame = data_frame (ch_local_id cb) t data
    in fst (Channel_send e ra t data a1) \<and> mx_trace (snd (Channel_send e ra t data a1)) = mx_trace a1 @ [Wrote frame] \<and>
       on_data e frame b1 = b1"
proof -
  let ?a1 = "on_data e (open_frame cb hb) a"
  note a1 = half_open_paired [OF assms(1) a(1) b(2) same [symmetric]]
  note b1 = half_open_paired [OF assms(1) b(1) a(2) same]
  have ca: "\<not> ch_closed ca" "ch_local_id cb \<noteq> 0"
    using a(1) b unfolding half_open_def sendable_def by simp_all
  have "fst (Channel_send e ra t data ?a1)"
    "mx_trace (snd (Channel_send e ra t data ?a1)) = mx_trace ?a1 @ [Wrote (data_frame (ch_local_id cb) t data)]"
    using send_frame [OF assms(1) a1(1)] ca stream a1(5-7) by simp_all
  then show ?thesis
    using receive_frame [OF b1(4) ca(2)] b1(2) ids by (simp add: Let_def)
qed

section \<open>Examples\<close>

text \<open>An endpoint with one channel that handles messages of type 0, and one whose channel is its second.\<close>

definition first_endpoint :: Mux where
  "first_endpoint = Channel_open quiet 0 [] (snd (add_message 0 True (snd (create_channel [97] [] [] True (Mux_new True)))))"

definition second_endpoint :: Mux where
  "second_endpoint = Channel_open quiet 1 [] (snd (add_message 1 True (snd (create_channel [97] [] [] True
     (snd (create_channel [98] [] [] True (Mux_new True)))))))"

definition demo_channel :: "u32 \<Rightarrow> Channel" where
  "demo_channel i = (Channel_new [97] [] [] i)\<lparr>ch_messages := [True], ch_open_sent := True\<rparr>"

lemma silent_quiet: "silent quiet"
  by (simp add: silent_def quiet_def)

lemmas mux_eval = create_channel_def Mux_new_def Channel_new_def Let_def chan_def upd_def find_by_pair_key_def build_pair_key_inject
  add_message_def Channel_open_def write_frame_def write_fn_def find_pending_def

lemma first_eval:
  "chan first_endpoint 0 = Some (demo_channel 1)" "find_by_pair_key (build_pair_key [97] []) first_endpoint = Some 0"
  "\<not> mx_destroyed first_endpoint" "mx_cork_count first_endpoint = 0" "mx_write_fn first_endpoint"
  by (simp_all add: first_endpoint_def demo_channel_def mux_eval)

lemma second_eval:
  "chan second_endpoint 1 = Some (demo_channel 2)" "find_by_pair_key (build_pair_key [97] []) second_endpoint = Some 1"
  "mx_remote_to_channel second_endpoint = Map.empty"
  by (simp_all add: second_endpoint_def demo_channel_def mux_eval)

lemma endpoints:
  "half_open first_endpoint 0 (demo_channel 1)" "half_open second_endpoint 1 (demo_channel 2)"
  "sendable (demo_channel 1) []" "sendable (demo_channel 2) []"
proof -
  have c: "\<not> ch_opened (demo_channel i)" "\<not> ch_closed (demo_channel i)" "\<not> ch_destroyed (demo_channel i)" "ch_open_sent (demo_channel i)"
    "ch_protocol (demo_channel i) = [97]" "ch_id (demo_channel i) = []" "ch_local_id (demo_channel i) = i" for i
    by (simp_all add: demo_channel_def Channel_new_def)
  have "mux_run quiet first_endpoint"
    unfolding first_endpoint_def by (intro mux_run.open_channel mux_run.message mux_run.create mux_run.start) (simp_all add: mux_eval)
  then show "half_open first_endpoint 0 (demo_channel 1)"
    using mux_run_ok [OF _ quiet_ok] first_eval by (simp add: half_open_def c)
  have "mux_run quiet second_endpoint"
    unfolding second_endpoint_def by (intro mux_run.open_channel mux_run.message mux_run.create mux_run.start) (simp_all add: mux_eval)
  then show "half_open second_endpoint 1 (demo_channel 2)"
    using mux_run_ok [OF _ quiet_ok] second_eval by (simp add: half_open_def c)
  show "sendable (demo_channel 1) []" "sendable (demo_channel 2) []"
    by (simp_all add: sendable_def c)
qed

theorem channel_exchange_witness:
  "let m = on_data quiet (open_frame (demo_channel 1) []) first_endpoint
   in mx_trace (on_data quiet (data_frame 1 0 [42]) m) = mx_trace m @ [OnMessage 0 0 [42]]"
proof -
  have "unat (0 :: u32) < length (ch_messages (demo_channel 1))" "ch_messages (demo_channel 1) ! unat (0 :: u32)" "ch_local_id (demo_channel 1) = 1"
    by (simp_all add: demo_channel_def Channel_new_def)
  with channel_exchange [OF silent_quiet endpoints(1,3,1,3), of 0 "[42]"] first_eval(3-5) show ?thesis
    by (simp add: Let_def)
qed

theorem channel_misaddressed_witness:
  "let a = on_data quiet (open_frame (demo_channel 2) []) first_endpoint; b = on_data quiet (open_frame (demo_channel 1) []) second_endpoint
   in fst (Channel_send quiet 0 0 [42] a) \<and> on_data quiet (data_frame 2 0 [42]) b = b"
proof -
  have "ch_local_id (demo_channel i) = i" "ch_protocol (demo_channel i) = [97]" "ch_id (demo_channel i) = []" for i
    by (simp_all add: demo_channel_def Channel_new_def)
  with channel_misaddressed [OF silent_quiet endpoints(1,3,2,4), of 0 "[42]"] first_eval(3-5) second_eval(3) show ?thesis
    by (simp add: Let_def)
qed

end
