(* ===== verification/Secret_Stream.thy ===== *)
theory Secret_Stream
  imports Prelude
begin

text \<open>
  The encrypted stream of \<^verbatim>\<open>src/secret_stream.cpp\<close>: \<^verbatim>\<open>SecretStream\<close>, the pair of libsodium secretstreams with its timers, and
  \<^verbatim>\<open>SecretStreamDuplex\<close>, which frames it over a UDX stream.

  libsodium is the parameter \<open>Sodium\<close>; a function with an output buffer and a return code gives the pair of them.  libudx is the
  source of the return codes of its calls (\<open>de_rc\<close>, by the number of the call) and of the callbacks, which are steps.  The callbacks of
  the stream run code of the application: \<open>de_app\<close> is what it does with the stream meanwhile.  What the stream tells UDX and the
  application is recorded in \<open>dx_trace\<close>.
\<close>

section \<open>Constants\<close>

definition KEYBYTES :: nat where "KEYBYTES = 32"
definition HEADERBYTES :: nat where "HEADERBYTES = 24"
definition ABYTES :: nat where "ABYTES = 17"
definition STREAM_ID_LEN :: nat where "STREAM_ID_LEN = 32"
definition ID_HEADER_BYTES :: nat where "ID_HEADER_BYTES = HEADERBYTES + STREAM_ID_LEN"
definition MAX_ATOMIC_WRITE :: nat where "MAX_ATOMIC_WRITE = 0xFFFFFF - ABYTES"
definition SECRETBOX_NONCEBYTES :: nat where "SECRETBOX_NONCEBYTES = 24"
definition SECRETBOX_MACBYTES :: nat where "SECRETBOX_MACBYTES = 16"

definition NS_INITIATOR :: bytes where
  "NS_INITIATOR =
     [0xa9, 0x31, 0xa0, 0x15, 0x5b, 0x5c, 0x09, 0xe6, 0xd2, 0x86, 0x28, 0x23, 0x6a, 0xf8, 0x3c, 0x4b,
      0x8a, 0x6a, 0xf9, 0xaf, 0x60, 0x98, 0x6e, 0xde, 0xed, 0xe9, 0xdc, 0x5d, 0x63, 0x19, 0x2b, 0xf7]"

definition NS_RESPONDER :: bytes where
  "NS_RESPONDER =
     [0x74, 0x2c, 0x9d, 0x83, 0x3d, 0x43, 0x0a, 0xf4, 0xc4, 0x8a, 0x87, 0x05, 0xe9, 0x16, 0x31, 0xee,
      0xcf, 0x29, 0x54, 0x42, 0xbb, 0xca, 0x18, 0x99, 0x6e, 0x59, 0x70, 0x97, 0x72, 0x3b, 0x10, 0x61]"

definition NS_SEND :: bytes where
  "NS_SEND =
     [0xaa, 0xb9, 0x7d, 0x09, 0x74, 0x71, 0xf5, 0x66, 0x51, 0xb0, 0x46, 0x0f, 0xfc, 0x8a, 0xaa, 0x7d,
      0x33, 0x42, 0xf7, 0x37, 0x75, 0x97, 0xd6, 0x0b, 0x92, 0x5a, 0x1d, 0xac, 0x68, 0x9a, 0xdc, 0xbf]"

section \<open>The cryptographic library\<close>

text \<open>
  \<open>so_hash message key\<close> is the keyed BLAKE2b-256 hash.  \<open>so_init_push\<close> takes the random bytes it draws and gives the header and the
  state; \<open>so_init_pull\<close>, \<open>so_push\<close> and \<open>so_pull\<close> give the state, the output and the return code.  \<open>so_uninit\<close> is whatever the
  uninitialised \<^verbatim>\<open>pull_state_\<close> holds.
\<close>

record 's Sodium =
  so_hash :: "bytes \<Rightarrow> bytes \<Rightarrow> bytes"
  so_init_push :: "bytes \<Rightarrow> bytes \<Rightarrow> bytes \<times> 's"
  so_init_pull :: "bytes \<Rightarrow> bytes \<Rightarrow> 's \<times> int"
  so_push :: "'s \<Rightarrow> bytes \<Rightarrow> 's \<times> bytes \<times> int"
  so_pull :: "'s \<Rightarrow> bytes \<Rightarrow> 's \<times> bytes \<times> int"
  so_uninit :: 's
  so_increment :: "bytes \<Rightarrow> bytes"
  so_secretbox_easy :: "bytes \<Rightarrow> bytes \<Rightarrow> bytes \<Rightarrow> bytes \<times> int"
  so_secretbox_open_easy :: "bytes \<Rightarrow> bytes \<Rightarrow> bytes \<Rightarrow> bytes \<times> int"

definition compute_stream_id :: "'s Sodium \<Rightarrow> bytes \<Rightarrow> bool \<Rightarrow> bytes" where
  "compute_stream_id so handshake_hash is_initiator =
     (let ns = if is_initiator then NS_INITIATOR else NS_RESPONDER in so_hash so ns handshake_hash)"

section \<open>Frame lengths\<close>

definition write_uint24_le :: "u32 \<Rightarrow> bytes" where
  "write_uint24_le value = [ucast value, ucast (drop_bit 8 value), ucast (drop_bit 16 value)]"

definition read_uint24_le :: "bytes \<Rightarrow> u32" where
  "read_uint24_le buf = ucast (buf ! 0) OR push_bit 8 (ucast (buf ! 1)) OR push_bit 16 (ucast (buf ! 2))"

section \<open>SecretStream\<close>

text \<open>A libuv timer: when it is due, or None when it is stopped, and the interval \<^verbatim>\<open>uv_timer_again\<close> restarts it with.\<close>

record uv_timer =
  tm_due :: "nat option"
  tm_repeat :: nat

definition uv_timer_start :: "nat \<Rightarrow> nat \<Rightarrow> nat \<Rightarrow> uv_timer" where
  "uv_timer_start now timeout again = \<lparr>tm_due = Some (now + timeout), tm_repeat = again\<rparr>"

definition uv_timer_again :: "nat \<Rightarrow> uv_timer \<Rightarrow> uv_timer" where
  "uv_timer_again now t = (if tm_repeat t \<noteq> 0 then t\<lparr>tm_due := Some (now + tm_repeat t)\<rparr> else t)"

definition uv_timer_stop :: "uv_timer \<Rightarrow> uv_timer" where
  "uv_timer_stop t = t\<lparr>tm_due := None\<rparr>"

record 's SecretStream =
  ss_is_initiator :: bool
  ss_header_sent :: bool
  ss_header_received :: bool
  ss_local_id :: bytes
  ss_remote_id :: bytes
  ss_push_state :: 's
  ss_pull_state :: 's
  ss_tx_key :: bytes
  ss_rx_key :: bytes
  ss_header_bytes :: bytes
  ss_loop :: bool
  ss_timeout_ms :: nat
  ss_keep_alive_ms :: nat
  ss_timeout_timer :: "uv_timer option"
  ss_keepalive_timer :: "uv_timer option"
  ss_on_timeout :: bool
  ss_on_keepalive :: bool

definition SecretStream_new :: "'s Sodium \<Rightarrow> bytes \<Rightarrow> bytes \<Rightarrow> bytes \<Rightarrow> bytes \<Rightarrow> bool \<Rightarrow> bool \<Rightarrow> 's SecretStream" where
  "SecretStream_new so entropy tx_key rx_key handshake_hash is_initiator loop =
     (let (header, push) = so_init_push so entropy tx_key
      in \<lparr>ss_is_initiator = is_initiator, ss_header_sent = False, ss_header_received = False,
          ss_local_id = compute_stream_id so handshake_hash is_initiator,
          ss_remote_id = compute_stream_id so handshake_hash (\<not> is_initiator),
          ss_push_state = push, ss_pull_state = so_uninit so, ss_tx_key = tx_key, ss_rx_key = rx_key,
          ss_header_bytes = header, ss_loop = loop, ss_timeout_ms = 0, ss_keep_alive_ms = 0,
          ss_timeout_timer = None, ss_keepalive_timer = None, ss_on_timeout = False, ss_on_keepalive = False\<rparr>)"

definition create_header_message :: "'s SecretStream \<Rightarrow> bytes \<times> 's SecretStream" where
  "create_header_message s =
     (write_uint24_le (of_nat ID_HEADER_BYTES) @ ss_local_id s @ ss_header_bytes s, s\<lparr>ss_header_sent := True\<rparr>)"

definition receive_header :: "'s Sodium \<Rightarrow> bytes \<Rightarrow> 's SecretStream \<Rightarrow> bool \<times> 's SecretStream" where
  "receive_header so data s =
     (if length data \<noteq> ID_HEADER_BYTES then (False, s)
      else if take STREAM_ID_LEN data \<noteq> ss_remote_id s then (False, s)
      else (let (pull, rc) = so_init_pull so (drop STREAM_ID_LEN data) (ss_rx_key s);
                s = s\<lparr>ss_pull_state := pull\<rparr>
            in if rc \<noteq> 0 then (False, s) else (True, s\<lparr>ss_header_received := True\<rparr>)))"

definition is_ready :: "'s SecretStream \<Rightarrow> bool" where
  "is_ready s \<longleftrightarrow> ss_header_sent s \<and> ss_header_received s"

text \<open>The empty list is the empty vector of the error returns.\<close>

definition encrypt :: "'s Sodium \<Rightarrow> nat \<Rightarrow> bytes \<Rightarrow> 's SecretStream \<Rightarrow> bytes \<times> 's SecretStream" where
  "encrypt so now data s =
     (if \<not> is_ready s then ([], s)
      else if length data > 0xFFFFFF - ABYTES then ([], s)
      else (let (push, out, rc) = so_push so (ss_push_state s) data;
                s = s\<lparr>ss_push_state := push\<rparr>
            in if rc \<noteq> 0 then ([], s)
               else (write_uint24_le (of_nat (length out)) @ out,
                     s\<lparr>ss_keepalive_timer := map_option (uv_timer_again now) (ss_keepalive_timer s)\<rparr>)))"

definition decrypt :: "'s Sodium \<Rightarrow> nat \<Rightarrow> bytes \<Rightarrow> 's SecretStream \<Rightarrow> bytes option \<times> 's SecretStream" where
  "decrypt so now data s =
     (if \<not> is_ready s then (None, s)
      else if length data < ABYTES then (None, s)
      else (let s = s\<lparr>ss_timeout_timer := map_option (uv_timer_again now) (ss_timeout_timer s)\<rparr>;
                (pull, pt, rc) = so_pull so (ss_pull_state s) data;
                s = s\<lparr>ss_pull_state := pull\<rparr>
            in if rc \<noteq> 0 then (None, s)
               else if pt = [] \<and> ss_keep_alive_ms s > 0 then (None, s)
               else (Some pt, s)))"

definition start_timeout_timer :: "nat \<Rightarrow> 's SecretStream \<Rightarrow> 's SecretStream" where
  "start_timeout_timer now s =
     s\<lparr>ss_timeout_timer := Some (uv_timer_start now (ss_timeout_ms s) (ss_timeout_ms s))\<rparr>"

definition start_keepalive_timer :: "nat \<Rightarrow> 's SecretStream \<Rightarrow> 's SecretStream" where
  "start_keepalive_timer now s =
     s\<lparr>ss_keepalive_timer := Some (uv_timer_start now (ss_keep_alive_ms s) (ss_keep_alive_ms s))\<rparr>"

text \<open>\<^verbatim>\<open>stop_timer\<close> stops and closes the timer of either slot and clears the slot; the callback presence is a flag.\<close>

definition ss_set_timeout :: "nat \<Rightarrow> nat \<Rightarrow> bool \<Rightarrow> 's SecretStream \<Rightarrow> 's SecretStream" where
  "ss_set_timeout now ms cb s =
     (let s = s\<lparr>ss_timeout_timer := None, ss_timeout_ms := ms, ss_on_timeout := cb\<rparr>
      in if ms > 0 \<and> ss_loop s then start_timeout_timer now s else s)"

definition ss_set_keep_alive :: "nat \<Rightarrow> nat \<Rightarrow> bool \<Rightarrow> 's SecretStream \<Rightarrow> 's SecretStream" where
  "ss_set_keep_alive now ms cb s =
     (let s = s\<lparr>ss_keepalive_timer := None, ss_keep_alive_ms := ms, ss_on_keepalive := cb\<rparr>
      in if ms > 0 \<and> ss_loop s then start_keepalive_timer now s else s)"

definition stop_timers :: "'s SecretStream \<Rightarrow> 's SecretStream" where
  "stop_timers s = s\<lparr>ss_timeout_timer := None, ss_keepalive_timer := None\<rparr>"

section \<open>SecretStreamDuplex: state\<close>

record DuplexHandshake =
  hs_tx_key :: bytes
  hs_rx_key :: bytes
  hs_handshake_hash :: bytes
  hs_public_key :: bytes
  hs_remote_public_key :: bytes
  hs_is_initiator :: bool

record DuplexOptions =
  do_keep_alive_ms :: nat
  do_timeout_ms :: nat
  do_enable_send :: bool

datatype DuplexEvent =
    DxConnect
  | DxMessage bytes
  | DxEnd
  | DxClose int
  | DxUdpMessage bytes
  | DxWriteDone nat int
  | UdxReadStart
  | UdxRecvStart
  | UdxWrite bytes
  | UdxWriteEnd
  | UdxSend bytes
  | UdxDestroy

text \<open>A write context: the header frame, or the frame of a \<^verbatim>\<open>write\<close> with its callback.\<close>

datatype DuplexWriteCtx = HeaderCtx bytes | DataCtx bytes "nat option"

text \<open>
  \<open>dx_attached\<close> says that the \<^verbatim>\<open>data\<close> slot of the UDX stream points to this object, \<open>dx_alive\<close> is \<^verbatim>\<open>*alive_\<close>; \<open>dx_writes\<close> are the
  contexts of the UDX writes in flight, \<open>dx_calls\<close> counts the calls of UDX, \<open>dx_now\<close> is the clock of the loop.
\<close>

record 's Duplex =
  dx_raw_stream :: bool
  dx_attached :: bool
  dx_hs :: DuplexHandshake
  dx_opts :: DuplexOptions
  dx_crypto :: "'s SecretStream"
  dx_started :: bool
  dx_connected :: bool
  dx_header_sent :: bool
  dx_header_received :: bool
  dx_ended :: bool
  dx_destroyed :: bool
  dx_close_error :: int
  dx_on_close_fired :: bool
  dx_recv_buf :: bytes
  dx_pending_messages :: "bytes list"
  dx_send_state_ready :: bool
  dx_secretbox_tx_key :: bytes
  dx_secretbox_rx_key :: bytes
  dx_nonce_counter :: bytes
  dx_nonce_initial :: bytes
  dx_raw_bytes_read :: u64
  dx_raw_bytes_written :: u64
  dx_on_connect :: bool
  dx_on_message :: bool
  dx_on_end :: bool
  dx_on_close :: bool
  dx_on_udp_message :: bool
  dx_alive :: bool
  dx_writes :: "DuplexWriteCtx list"
  dx_calls :: nat
  dx_now :: nat
  dx_trace :: "DuplexEvent list"

record 's DuplexEnv =
  de_so :: "'s Sodium"
  de_rc :: "nat \<Rightarrow> int"
  de_app :: "DuplexEvent \<Rightarrow> 's Duplex \<Rightarrow> 's Duplex"

definition dx_emit :: "DuplexEvent \<Rightarrow> 's Duplex \<Rightarrow> 's Duplex" where
  "dx_emit e d = d\<lparr>dx_trace := dx_trace d @ [e]\<rparr>"

definition dx_fire :: "'s DuplexEnv \<Rightarrow> DuplexEvent \<Rightarrow> 's Duplex \<Rightarrow> 's Duplex" where
  "dx_fire env e d = de_app env e (dx_emit e d)"

text \<open>A call of UDX: it is recorded, and answered with the next return code.\<close>

definition udx_call :: "'s DuplexEnv \<Rightarrow> DuplexEvent \<Rightarrow> 's Duplex \<Rightarrow> int \<times> 's Duplex" where
  "udx_call env e d = (de_rc env (dx_calls d), dx_emit e (d\<lparr>dx_calls := Suc (dx_calls d)\<rparr>))"

section \<open>SecretStreamDuplex: construction\<close>

definition setup_secret_send :: "'s Sodium \<Rightarrow> bytes \<Rightarrow> 's Duplex \<Rightarrow> 's Duplex" where
  "setup_secret_send so nonce d =
     (let hash = hs_handshake_hash (dx_hs d);
          first = if hs_is_initiator (dx_hs d) then NS_INITIATOR else NS_RESPONDER;
          second = if hs_is_initiator (dx_hs d) then NS_RESPONDER else NS_INITIATOR
      in d\<lparr>dx_secretbox_tx_key := so_hash so (first @ NS_SEND) hash,
           dx_secretbox_rx_key := so_hash so (second @ NS_SEND) hash,
           dx_nonce_initial := nonce, dx_nonce_counter := nonce, dx_send_state_ready := True\<rparr>)"

text \<open>
  The constructor, with the bytes that libsodium draws for the header and \<^verbatim>\<open>randombytes_buf\<close> for the nonce; the event handlers, which
  are registered before \<^verbatim>\<open>start\<close>, are all set.
\<close>

definition Duplex_new ::
  "'s Sodium \<Rightarrow> bytes \<Rightarrow> bytes \<Rightarrow> bool \<Rightarrow> DuplexHandshake \<Rightarrow> bool \<Rightarrow> DuplexOptions \<Rightarrow> 's Duplex" where
  "Duplex_new so entropy nonce raw_stream hs loop opts =
     (let d = \<lparr>dx_raw_stream = raw_stream, dx_attached = False, dx_hs = hs, dx_opts = opts,
            dx_crypto = SecretStream_new so entropy (hs_tx_key hs) (hs_rx_key hs) (hs_handshake_hash hs) (hs_is_initiator hs) loop,
            dx_started = False, dx_connected = False, dx_header_sent = False, dx_header_received = False, dx_ended = False,
            dx_destroyed = False, dx_close_error = 0, dx_on_close_fired = False, dx_recv_buf = [], dx_pending_messages = [],
            dx_send_state_ready = False, dx_secretbox_tx_key = replicate 32 0, dx_secretbox_rx_key = replicate 32 0,
            dx_nonce_counter = replicate 8 0, dx_nonce_initial = replicate 8 0, dx_raw_bytes_read = 0, dx_raw_bytes_written = 0,
            dx_on_connect = True, dx_on_message = True, dx_on_end = True, dx_on_close = True, dx_on_udp_message = True,
            dx_alive = True, dx_writes = [], dx_calls = 0, dx_now = 0, dx_trace = []\<rparr>
      in if do_enable_send opts then setup_secret_send so nonce d else d)"

definition Duplex_delete :: "'s Duplex \<Rightarrow> 's Duplex" where
  "Duplex_delete d =
     d\<lparr>dx_alive := False, dx_crypto := stop_timers (dx_crypto d),
       dx_attached := (if dx_raw_stream d then False else dx_attached d),
       dx_secretbox_tx_key := replicate (length (dx_secretbox_tx_key d)) 0,
       dx_secretbox_rx_key := replicate (length (dx_secretbox_rx_key d)) 0\<rparr>"

section \<open>SecretStreamDuplex: closing\<close>

definition fire_close :: "'s DuplexEnv \<Rightarrow> int \<Rightarrow> 's Duplex \<Rightarrow> 's Duplex" where
  "fire_close env err d =
     (if dx_on_close_fired d then d
      else (let d = d\<lparr>dx_on_close_fired := True\<rparr> in if dx_on_close d then dx_fire env (DxClose err) d else d))"

text \<open>\<^verbatim>\<open>destroy\<close> hands the stream to \<^verbatim>\<open>udx_stream_destroy\<close>, which is taken never to call \<^verbatim>\<open>on_close\<close> before it returns: the close of
  the UDX stream is the step \<^verbatim>\<open>on_udx_close\<close> of its own.\<close>

definition dx_destroy :: "'s DuplexEnv \<Rightarrow> int \<Rightarrow> 's Duplex \<Rightarrow> 's Duplex" where
  "dx_destroy env error d =
     (if dx_destroyed d then d
      else (let d = d\<lparr>dx_destroyed := True, dx_close_error := error, dx_crypto := stop_timers (dx_crypto d)\<rparr>
            in if dx_raw_stream d then dx_emit UdxDestroy d else fire_close env error d))"

section \<open>SecretStreamDuplex: sending\<close>

text \<open>The loop that replays the queued messages.\<close>

fun replay_pending :: "'s DuplexEnv \<Rightarrow> bytes list \<Rightarrow> 's Duplex \<Rightarrow> 's Duplex" where
  "replay_pending env [] d = d"
| "replay_pending env (msg # pending) d =
     (if dx_destroyed d \<or> \<not> dx_on_message d then d else replay_pending env pending (dx_fire env (DxMessage msg) d))"

definition maybe_fire_connect :: "'s DuplexEnv \<Rightarrow> 's Duplex \<Rightarrow> 's Duplex" where
  "maybe_fire_connect env d =
     (if dx_connected d then d
      else if \<not> dx_header_sent d \<or> \<not> dx_header_received d then d
      else (let d = d\<lparr>dx_connected := True\<rparr>;
                d = (if dx_on_connect d then dx_fire env DxConnect d else d)
            in replay_pending env (dx_pending_messages d) (d\<lparr>dx_pending_messages := []\<rparr>)))"

definition send_header_frame :: "'s DuplexEnv \<Rightarrow> 's Duplex \<Rightarrow> 's Duplex" where
  "send_header_frame env d =
     (let (header, crypto) = create_header_message (dx_crypto d);
          d = d\<lparr>dx_crypto := crypto, dx_header_sent := False\<rparr>;
          (rc, d) = udx_call env (UdxWrite header) d
      in if rc < 0 then dx_destroy env rc d else d\<lparr>dx_writes := dx_writes d @ [HeaderCtx header]\<rparr>)"

definition dx_write :: "'s DuplexEnv \<Rightarrow> bytes \<Rightarrow> nat option \<Rightarrow> 's Duplex \<Rightarrow> int \<times> 's Duplex" where
  "dx_write env data cb d =
     (if dx_destroyed d \<or> dx_ended d then (-1, d)
      else if \<not> dx_connected d then (-2, d)
      else if length data > MAX_ATOMIC_WRITE then (-3, d)
      else (let (encrypted, crypto) = encrypt (de_so env) (dx_now d) data (dx_crypto d);
                d = d\<lparr>dx_crypto := crypto\<rparr>
            in if encrypted = [] \<and> length data \<noteq> 0 then (-4, d)
               else (let (rc, d) = udx_call env (UdxWrite encrypted) d
                     in if rc < 0 then (rc, d) else (0, d\<lparr>dx_writes := dx_writes d @ [DataCtx encrypted cb]\<rparr>))))"

definition dx_end :: "'s DuplexEnv \<Rightarrow> 's Duplex \<Rightarrow> 's Duplex" where
  "dx_end env d =
     (if dx_ended d \<or> dx_destroyed d then d
      else (let d = d\<lparr>dx_ended := True\<rparr>; (rc, d) = udx_call env UdxWriteEnd d
            in if rc < 0 then dx_destroy env rc d else d))"

definition dx_set_timeout :: "nat \<Rightarrow> 's Duplex \<Rightarrow> 's Duplex" where
  "dx_set_timeout ms d = d\<lparr>dx_crypto := ss_set_timeout (dx_now d) ms True (dx_crypto d)\<rparr>"

definition dx_set_keep_alive :: "nat \<Rightarrow> 's Duplex \<Rightarrow> 's Duplex" where
  "dx_set_keep_alive ms d = d\<lparr>dx_crypto := ss_set_keep_alive (dx_now d) ms True (dx_crypto d)\<rparr>"

definition dx_start :: "'s DuplexEnv \<Rightarrow> 's Duplex \<Rightarrow> 's Duplex" where
  "dx_start env d =
     (if dx_started d \<or> dx_destroyed d then d
      else (let d = d\<lparr>dx_started := True, dx_attached := True\<rparr>;
                d = dx_emit UdxReadStart d;
                d = (if do_enable_send (dx_opts d) then dx_emit UdxRecvStart d else d);
                d = send_header_frame env d;
                d = (if do_keep_alive_ms (dx_opts d) > 0 then dx_set_keep_alive (do_keep_alive_ms (dx_opts d)) d else d)
            in if do_timeout_ms (dx_opts d) > 0 then dx_set_timeout (do_timeout_ms (dx_opts d)) d else d))"

section \<open>SecretStreamDuplex: unordered messages\<close>

definition secretbox_nonce :: "bytes \<Rightarrow> bytes" where
  "secretbox_nonce counter = counter @ replicate (SECRETBOX_NONCEBYTES - 8) 0"

definition box_message :: "'s DuplexEnv \<Rightarrow> bytes \<Rightarrow> 's Duplex \<Rightarrow> bytes \<times> 's Duplex" where
  "box_message env data d =
     (let d = d\<lparr>dx_nonce_counter := so_increment (de_so env) (dx_nonce_counter d)\<rparr>
      in if dx_nonce_counter d = dx_nonce_initial d then ([], dx_destroy env (-7) d)
         else (let (box, rc) = so_secretbox_easy (de_so env) data (secretbox_nonce (dx_nonce_counter d)) (dx_secretbox_tx_key d)
               in if rc \<noteq> 0 then ([], d) else (dx_nonce_counter d @ box, d)))"

definition unbox_message :: "'s Sodium \<Rightarrow> bytes \<Rightarrow> 's Duplex \<Rightarrow> bytes option" where
  "unbox_message so data d =
     (if length data < 8 + SECRETBOX_MACBYTES then None
      else (let (out, rc) = so_secretbox_open_easy so (drop 8 data) (secretbox_nonce (take 8 data)) (dx_secretbox_rx_key d)
            in if rc \<noteq> 0 then None else Some out))"

definition send_udp :: "'s DuplexEnv \<Rightarrow> bytes \<Rightarrow> 's Duplex \<Rightarrow> int \<times> 's Duplex" where
  "send_udp env data d =
     (if dx_destroyed d \<or> \<not> dx_send_state_ready d then (-1, d)
      else (let (env_bytes, d) = box_message env data d
            in if env_bytes = [] then (-2, d)
               else (let (rc, d) = udx_call env (UdxSend env_bytes) d in if rc < 0 then (rc, d) else (0, d))))"

definition try_send_udp :: "'s DuplexEnv \<Rightarrow> bytes \<Rightarrow> 's Duplex \<Rightarrow> int \<times> 's Duplex" where
  "try_send_udp env data d = send_udp env data d"

section \<open>SecretStreamDuplex: receiving\<close>

definition handle_frame :: "'s DuplexEnv \<Rightarrow> bytes \<Rightarrow> 's Duplex \<Rightarrow> 's Duplex" where
  "handle_frame env msg d =
     (if \<not> dx_header_received d then
        (if length msg \<noteq> ID_HEADER_BYTES then dx_destroy env (-5) d
         else (let (ok, crypto) = receive_header (de_so env) msg (dx_crypto d);
                   d = d\<lparr>dx_crypto := crypto\<rparr>
               in if \<not> ok then dx_destroy env (-6) d
                  else maybe_fire_connect env (d\<lparr>dx_header_received := True\<rparr>)))
      else (let (plain, crypto) = decrypt (de_so env) (dx_now d) msg (dx_crypto d);
                d = d\<lparr>dx_crypto := crypto\<rparr>
            in case plain of
                 None \<Rightarrow> d
               | Some pt \<Rightarrow>
                   if \<not> dx_connected d then
                     (let d = d\<lparr>dx_pending_messages := dx_pending_messages d @ [pt]\<rparr>
                      in if length (dx_pending_messages d) > 64 then dx_destroy env (-7) d else d)
                   else if dx_on_message d then dx_fire env (DxMessage pt) d else d))"

definition FRAME_LEN_MAX :: u32 where
  "FRAME_LEN_MAX = of_nat (MAX_ATOMIC_WRITE + ABYTES)"

definition try_extract_frame :: "'s DuplexEnv \<Rightarrow> 's Duplex \<Rightarrow> bool \<times> 's Duplex" where
  "try_extract_frame env d =
     (if length (dx_recv_buf d) < 3 then (False, d)
      else (let frame_len = read_uint24_le (dx_recv_buf d)
            in if frame_len > FRAME_LEN_MAX then (False, dx_destroy env (-9) d)
               else if frame_len = 0 then (False, dx_destroy env (-10) d)
               else if length (dx_recv_buf d) < 3 + unat frame_len then (False, d)
               else (let body = take (unat frame_len) (drop 3 (dx_recv_buf d));
                         d = d\<lparr>dx_recv_buf := drop (3 + unat frame_len) (dx_recv_buf d)\<rparr>
                     in (True, handle_frame env body d))))"

text \<open>
  The \<^verbatim>\<open>while\<close> loop with fuel.  Every frame takes at least four bytes from \<^verbatim>\<open>recv_buf_\<close>, which the callbacks cannot fill, so that
  the length of the buffer is enough.
\<close>

fun extract_loop :: "nat \<Rightarrow> 's DuplexEnv \<Rightarrow> 's Duplex \<Rightarrow> 's Duplex" where
  "extract_loop 0 env d = d"
| "extract_loop (Suc n) env d =
     (if dx_destroyed d then d
      else (let (again, d) = try_extract_frame env d in if again then extract_loop n env d else d))"

declare extract_loop.simps(2) [simp del]

definition process_incoming_bytes :: "'s DuplexEnv \<Rightarrow> bytes \<Rightarrow> 's Duplex \<Rightarrow> 's Duplex" where
  "process_incoming_bytes env data d =
     (if data = [] then d
      else (let d = d\<lparr>dx_raw_bytes_read := dx_raw_bytes_read d + of_nat (length data), dx_recv_buf := dx_recv_buf d @ data\<rparr>
            in extract_loop (Suc (length (dx_recv_buf d))) env d))"

section \<open>SecretStreamDuplex: callbacks of UDX and of the timers\<close>

datatype UdxRead = ReadData bytes | ReadEof | ReadError int

definition on_udx_read :: "'s DuplexEnv \<Rightarrow> UdxRead \<Rightarrow> 's Duplex \<Rightarrow> 's Duplex" where
  "on_udx_read env r d =
     (if \<not> dx_attached d then d
      else case r of
             ReadEof \<Rightarrow> if dx_on_end d then dx_fire env DxEnd d else d
           | ReadError nread \<Rightarrow> dx_destroy env nread d
           | ReadData buf \<Rightarrow> process_incoming_bytes env buf d)"

definition on_udx_close :: "'s DuplexEnv \<Rightarrow> int \<Rightarrow> 's Duplex \<Rightarrow> 's Duplex" where
  "on_udx_close env err d =
     (if \<not> dx_attached d then d
      else (let d = d\<lparr>dx_attached := False, dx_destroyed := True\<rparr>;
                report_err = (if dx_close_error d \<noteq> 0 then dx_close_error d else err)
            in fire_close env report_err d))"

definition on_udx_recv_message :: "'s DuplexEnv \<Rightarrow> bytes \<Rightarrow> 's Duplex \<Rightarrow> 's Duplex" where
  "on_udx_recv_message env buf d =
     (if \<not> dx_attached d \<or> \<not> dx_send_state_ready d then d
      else if buf = [] then d
      else case unbox_message (de_so env) buf d of
             None \<Rightarrow> d
           | Some plain \<Rightarrow> if dx_on_udp_message d then dx_fire env (DxUdpMessage plain) d else d)"

text \<open>The acknowledgement of the \<open>i\<close>-th write in flight.\<close>

definition on_write_ack :: "'s DuplexEnv \<Rightarrow> nat \<Rightarrow> int \<Rightarrow> 's Duplex \<Rightarrow> 's Duplex" where
  "on_write_ack env i status d =
     (if i \<ge> length (dx_writes d) then d
      else (let ctx = dx_writes d ! i;
                d = d\<lparr>dx_writes := take i (dx_writes d) @ drop (Suc i) (dx_writes d)\<rparr>
            in if \<not> dx_alive d then d
               else case ctx of
                      HeaderCtx buf \<Rightarrow>
                        if status \<ge> 0
                        then maybe_fire_connect env
                               (d\<lparr>dx_header_sent := True, dx_raw_bytes_written := dx_raw_bytes_written d + of_nat (length buf)\<rparr>)
                        else dx_destroy env status d
                    | DataCtx buf cb \<Rightarrow>
                        (let d = (if status \<ge> 0 then d\<lparr>dx_raw_bytes_written := dx_raw_bytes_written d + of_nat (length buf)\<rparr> else d)
                         in case cb of None \<Rightarrow> d | Some c \<Rightarrow> dx_fire env (DxWriteDone c status) d)))"

text \<open>The timers fire when they are due; the handlers are the ones that \<^verbatim>\<open>set_timeout\<close> and \<^verbatim>\<open>set_keep_alive\<close> install.\<close>

definition timer_due :: "nat \<Rightarrow> uv_timer option \<Rightarrow> bool" where
  "timer_due now t \<longleftrightarrow> (case t of None \<Rightarrow> False | Some t \<Rightarrow> (case tm_due t of None \<Rightarrow> False | Some at \<Rightarrow> at \<le> now))"

definition on_timeout_cb :: "'s DuplexEnv \<Rightarrow> 's Duplex \<Rightarrow> 's Duplex" where
  "on_timeout_cb env d =
     (if \<not> timer_due (dx_now d) (ss_timeout_timer (dx_crypto d)) then d
      else (let d = d\<lparr>dx_crypto := (dx_crypto d)\<lparr>ss_timeout_timer := map_option uv_timer_stop (ss_timeout_timer (dx_crypto d))\<rparr>\<rparr>
            in if ss_on_timeout (dx_crypto d) then dx_destroy env (-8) d else d))"

definition on_keepalive_cb :: "'s DuplexEnv \<Rightarrow> 's Duplex \<Rightarrow> 's Duplex" where
  "on_keepalive_cb env d =
     (if \<not> timer_due (dx_now d) (ss_keepalive_timer (dx_crypto d)) then d
      else (let d = d\<lparr>dx_crypto := (dx_crypto d)\<lparr>ss_keepalive_timer := map_option (uv_timer_again (dx_now d)) (ss_keepalive_timer (dx_crypto d))\<rparr>\<rparr>
            in if ss_on_keepalive (dx_crypto d) \<and> dx_connected d \<and> \<not> dx_destroyed d then snd (dx_write env [] None d) else d))"

section \<open>Runs\<close>

datatype DuplexCall =
    CallStart
  | CallWrite bytes "nat option"
  | CallEnd
  | CallDestroy int
  | CallSendUdp bytes
  | CallTrySendUdp bytes
  | CallSetTimeout nat
  | CallSetKeepAlive nat

text \<open>The calls an application can make from inside a callback and outside.  Deleting the object is not one of them: it is a step between
  callbacks.\<close>

fun duplex_call :: "'s DuplexEnv \<Rightarrow> DuplexCall \<Rightarrow> 's Duplex \<Rightarrow> 's Duplex" where
  "duplex_call env CallStart d = dx_start env d"
| "duplex_call env (CallWrite data cb) d = snd (dx_write env data cb d)"
| "duplex_call env CallEnd d = dx_end env d"
| "duplex_call env (CallDestroy error) d = dx_destroy env error d"
| "duplex_call env (CallSendUdp data) d = snd (send_udp env data d)"
| "duplex_call env (CallTrySendUdp data) d = snd (try_send_udp env data d)"
| "duplex_call env (CallSetTimeout ms) d = dx_set_timeout ms d"
| "duplex_call env (CallSetKeepAlive ms) d = dx_set_keep_alive ms d"

definition duplex_calls :: "'s DuplexEnv \<Rightarrow> DuplexCall list \<Rightarrow> 's Duplex \<Rightarrow> 's Duplex" where
  "duplex_calls env cs d = foldl (\<lambda>d c. duplex_call env c d) d cs"

datatype DuplexStep =
    StepCall DuplexCall
  | StepRead UdxRead
  | StepMessage bytes
  | StepAck nat int
  | StepClose int
  | StepTimeout
  | StepKeepalive
  | StepElapse nat
  | StepDelete

text \<open>A deleted stream is not called any more; UDX and the loop may still hold its callbacks.\<close>

fun duplex_step :: "'s DuplexEnv \<Rightarrow> 's Duplex \<Rightarrow> DuplexStep \<Rightarrow> 's Duplex" where
  "duplex_step env d (StepCall c) = (if dx_alive d then duplex_call env c d else d)"
| "duplex_step env d (StepRead r) = on_udx_read env r d"
| "duplex_step env d (StepMessage buf) = on_udx_recv_message env buf d"
| "duplex_step env d (StepAck i status) = on_write_ack env i status d"
| "duplex_step env d (StepClose err) = on_udx_close env err d"
| "duplex_step env d StepTimeout = on_timeout_cb env d"
| "duplex_step env d StepKeepalive = on_keepalive_cb env d"
| "duplex_step env d (StepElapse t) = d\<lparr>dx_now := dx_now d + t\<rparr>"
| "duplex_step env d StepDelete = (if dx_alive d then Duplex_delete d else d)"

definition duplex_run :: "'s DuplexEnv \<Rightarrow> DuplexStep list \<Rightarrow> 's Duplex \<Rightarrow> 's Duplex" where
  "duplex_run env steps d = foldl (duplex_step env) d steps"

end
