(* ===== verification/Secret_Stream_Frames.thy ===== *)
theory Secret_Stream_Frames
  imports Secret_Stream
begin

text \<open>
  The frame parser of \<^verbatim>\<open>SecretStreamDuplex\<close>: what it delivers does not depend on how the transport cuts the byte stream, and the
  messages that one end writes are the messages that the other end receives.
\<close>

section \<open>The parser state is private\<close>

text \<open>The bytes of an unfinished frame and the traffic counter, which the rest of the class neither reads nor writes.\<close>

definition with_buffer :: "bytes \<Rightarrow> u64 \<Rightarrow> 's Duplex \<Rightarrow> 's Duplex" where
  "with_buffer b r d = d\<lparr>dx_raw_bytes_read := r, dx_recv_buf := b\<rparr>"

text \<open>The application does not depend on them either.\<close>

definition discreet :: "'s DuplexEnv \<Rightarrow> bool" where
  "discreet env \<longleftrightarrow> (\<forall>e d b r. de_app env e (with_buffer b r d) = with_buffer b r (de_app env e d))"

lemma with_buffer_simps [simp]:
  "with_buffer b r (with_buffer b' r' d) = with_buffer b r d"
  "with_buffer (dx_recv_buf d) (dx_raw_bytes_read d) d = d"
  "dx_recv_buf (with_buffer b r d) = b" "dx_raw_bytes_read (with_buffer b r d) = r"
  "dx_destroyed (with_buffer b r d) = dx_destroyed d" "dx_connected (with_buffer b r d) = dx_connected d"
  "dx_on_message (with_buffer b r d) = dx_on_message d" "dx_on_connect (with_buffer b r d) = dx_on_connect d"
  "dx_on_close (with_buffer b r d) = dx_on_close d" "dx_on_close_fired (with_buffer b r d) = dx_on_close_fired d"
  "dx_header_sent (with_buffer b r d) = dx_header_sent d" "dx_header_received (with_buffer b r d) = dx_header_received d"
  "dx_raw_stream (with_buffer b r d) = dx_raw_stream d" "dx_crypto (with_buffer b r d) = dx_crypto d"
  "dx_pending_messages (with_buffer b r d) = dx_pending_messages d" "dx_now (with_buffer b r d) = dx_now d"
  "dx_trace (with_buffer b r d) = dx_trace d"
  by (simp_all add: with_buffer_def)

lemma with_buffer_updates:
  "(with_buffer b r d)\<lparr>dx_crypto := c\<rparr> = with_buffer b r (d\<lparr>dx_crypto := c\<rparr>)"
  "(with_buffer b r d)\<lparr>dx_connected := x\<rparr> = with_buffer b r (d\<lparr>dx_connected := x\<rparr>)"
  "(with_buffer b r d)\<lparr>dx_header_received := x\<rparr> = with_buffer b r (d\<lparr>dx_header_received := x\<rparr>)"
  "(with_buffer b r d)\<lparr>dx_pending_messages := ms\<rparr> = with_buffer b r (d\<lparr>dx_pending_messages := ms\<rparr>)"
  "(with_buffer b r d)\<lparr>dx_on_close_fired := x\<rparr> = with_buffer b r (d\<lparr>dx_on_close_fired := x\<rparr>)"
  "(with_buffer b r d)\<lparr>dx_destroyed := x, dx_close_error := z, dx_crypto := c\<rparr> =
     with_buffer b r (d\<lparr>dx_destroyed := x, dx_close_error := z, dx_crypto := c\<rparr>)"
  by (simp_all add: with_buffer_def)

lemma with_buffer_fire: "discreet env \<Longrightarrow> dx_fire env e (with_buffer b r d) = with_buffer b r (dx_fire env e d)"
proof -
  assume "discreet env"
  moreover have "dx_emit e (with_buffer b r d) = with_buffer b r (dx_emit e d)"
    by (simp add: dx_emit_def with_buffer_def)
  ultimately show ?thesis
    by (simp add: dx_fire_def discreet_def)
qed

lemma with_buffer_fire_close: "discreet env \<Longrightarrow> fire_close env x (with_buffer b r d) = with_buffer b r (fire_close env x d)"
  by (simp add: fire_close_def with_buffer_updates with_buffer_fire Let_def)

lemma with_buffer_emit: "dx_emit e (with_buffer b r d) = with_buffer b r (dx_emit e d)"
  by (simp add: dx_emit_def with_buffer_def)

lemma with_buffer_destroy: "discreet env \<Longrightarrow> dx_destroy env x (with_buffer b r d) = with_buffer b r (dx_destroy env x d)"
  by (simp add: dx_destroy_def with_buffer_updates with_buffer_fire_close with_buffer_emit Let_def)

lemma with_buffer_replay:
  "discreet env \<Longrightarrow> replay_pending env ms (with_buffer b r d) = with_buffer b r (replay_pending env ms d)"
  by (induction ms arbitrary: d) (simp_all add: with_buffer_fire)

lemma with_buffer_connect:
  assumes "discreet env"
  shows "maybe_fire_connect env (with_buffer b r d) = with_buffer b r (maybe_fire_connect env d)"
  unfolding maybe_fire_connect_def Let_def
  by (simp add: with_buffer_updates with_buffer_fire [OF assms] with_buffer_replay [OF assms])

lemma with_buffer_frame:
  assumes "discreet env"
  shows "handle_frame env m (with_buffer b r d) = with_buffer b r (handle_frame env m d)"
  unfolding handle_frame_def Let_def
  by (simp add: with_buffer_updates with_buffer_destroy [OF assms] with_buffer_connect [OF assms] with_buffer_fire [OF assms]
      split: prod.split option.split)

lemma frame_keeps_buffer:
  assumes "discreet env"
  shows "dx_recv_buf (handle_frame env m d) = dx_recv_buf d"
    and "dx_raw_bytes_read (handle_frame env m d) = dx_raw_bytes_read d"
proof -
  have "handle_frame env m d = with_buffer (dx_recv_buf d) (dx_raw_bytes_read d) (handle_frame env m d)"
    using with_buffer_frame [OF assms, of m "dx_recv_buf d" "dx_raw_bytes_read d" d] by simp
  then show "dx_recv_buf (handle_frame env m d) = dx_recv_buf d"
    and "dx_raw_bytes_read (handle_frame env m d) = dx_raw_bytes_read d"
    by (metis with_buffer_simps(3), metis with_buffer_simps(4))
qed

lemma destroy_keeps_buffer:
  assumes "discreet env"
  shows "dx_recv_buf (dx_destroy env x d) = dx_recv_buf d"
    and "dx_raw_bytes_read (dx_destroy env x d) = dx_raw_bytes_read d"
proof -
  have "dx_destroy env x d = with_buffer (dx_recv_buf d) (dx_raw_bytes_read d) (dx_destroy env x d)"
    using with_buffer_destroy [OF assms, of x "dx_recv_buf d" "dx_raw_bytes_read d" d] by simp
  then show "dx_recv_buf (dx_destroy env x d) = dx_recv_buf d"
    and "dx_raw_bytes_read (dx_destroy env x d) = dx_raw_bytes_read d"
    by (metis with_buffer_simps(3), metis with_buffer_simps(4))
qed

section \<open>Frame extraction\<close>

text \<open>The next frame in the buffer: none yet, a protocol error, or its body and the bytes after it.\<close>

datatype frame_scan = NoFrame | BadFrame int | Frame bytes bytes

definition scan_frame :: "bytes \<Rightarrow> frame_scan" where
  "scan_frame buf =
     (if length buf < 3 then NoFrame
      else if read_uint24_le buf > FRAME_LEN_MAX then BadFrame (-9)
      else if read_uint24_le buf = 0 then BadFrame (-10)
      else if length buf < 3 + unat (read_uint24_le buf) then NoFrame
      else Frame (take (unat (read_uint24_le buf)) (drop 3 buf)) (drop (3 + unat (read_uint24_le buf)) buf))"

lemma try_extract_scan:
  "try_extract_frame env d =
     (case scan_frame (dx_recv_buf d) of
        NoFrame \<Rightarrow> (False, d)
      | BadFrame x \<Rightarrow> (False, dx_destroy env x d)
      | Frame body later \<Rightarrow> (True, handle_frame env body (with_buffer later (dx_raw_bytes_read d) d)))"
  by (simp add: try_extract_frame_def scan_frame_def with_buffer_def Let_def)

lemma read_uint24_append: "3 \<le> length buf \<Longrightarrow> read_uint24_le (buf @ b) = read_uint24_le buf"
  by (auto simp: read_uint24_le_def nth_append)

lemma scan_append:
  "scan_frame buf = BadFrame x \<Longrightarrow> scan_frame (buf @ b) = BadFrame x"
  "scan_frame buf = Frame body later \<Longrightarrow> scan_frame (buf @ b) = Frame body (later @ b)"
  by (auto simp: scan_frame_def read_uint24_append split: if_splits)

lemma scan_shorter: "scan_frame buf = Frame body later \<Longrightarrow> length later + 4 \<le> length buf"
proof -
  assume "scan_frame buf = Frame body later"
  then have "later = drop (3 + unat (read_uint24_le buf)) buf" "3 + unat (read_uint24_le buf) \<le> length buf"
    "unat (read_uint24_le buf) \<noteq> 0"
    by (auto simp: scan_frame_def unat_eq_0 split: if_splits)
  then show ?thesis
    by simp
qed

lemma extract_loop_scan:
  "extract_loop (Suc n) env d =
     (if dx_destroyed d then d
      else case scan_frame (dx_recv_buf d) of
             NoFrame \<Rightarrow> d
           | BadFrame x \<Rightarrow> dx_destroy env x d
           | Frame body later \<Rightarrow> extract_loop n env (handle_frame env body (with_buffer later (dx_raw_bytes_read d) d)))"
  by (simp add: extract_loop.simps(2) try_extract_scan split: frame_scan.split)

text \<open>The loop of \<^verbatim>\<open>process_incoming_bytes\<close> with all the fuel it needs.\<close>

definition drain_frames :: "'s DuplexEnv \<Rightarrow> 's Duplex \<Rightarrow> 's Duplex" where
  "drain_frames env d = extract_loop (Suc (length (dx_recv_buf d))) env d"

lemma extract_loop_fuel:
  assumes "discreet env" and "length (dx_recv_buf d) < n"
  shows "extract_loop n env d = drain_frames env d"
proof -
  have fuel: "length (dx_recv_buf d) < n \<Longrightarrow> length (dx_recv_buf d) < m \<Longrightarrow> extract_loop n env d = extract_loop m env d" for n m d
  proof (induction n arbitrary: m d)
    case (Suc n)
    obtain k where m: "m = Suc k"
      using Suc.prems(2) by (cases m) simp_all
    show ?case
    proof (cases "scan_frame (dx_recv_buf d)")
      case (Frame body later)
      let ?d = "handle_frame env body (with_buffer later (dx_raw_bytes_read d) d)"
      have "length (dx_recv_buf ?d) < n" "length (dx_recv_buf ?d) < k"
        using Suc.prems scan_shorter [OF Frame] m by (simp_all add: frame_keeps_buffer [OF assms(1)])
      then show ?thesis
        using Suc.IH [of ?d k] Frame m by (simp add: extract_loop_scan)
    qed (use m in \<open>simp_all add: extract_loop_scan\<close>)
  qed simp
  show ?thesis
    unfolding drain_frames_def by (rule fuel [OF assms(2)]) simp
qed

lemma drain_frames_step:
  assumes "discreet env"
  shows "drain_frames env d =
     (if dx_destroyed d then d
      else case scan_frame (dx_recv_buf d) of
             NoFrame \<Rightarrow> d
           | BadFrame x \<Rightarrow> dx_destroy env x d
           | Frame body later \<Rightarrow> drain_frames env (handle_frame env body (with_buffer later (dx_raw_bytes_read d) d)))"
proof (cases "scan_frame (dx_recv_buf d)")
  case (Frame body later)
  let ?d = "handle_frame env body (with_buffer later (dx_raw_bytes_read d) d)"
  have "extract_loop (length (dx_recv_buf d)) env ?d = drain_frames env ?d"
    using scan_shorter [OF Frame] by (intro extract_loop_fuel [OF assms]) (simp add: frame_keeps_buffer [OF assms])
  then show ?thesis
    using Frame by (subst drain_frames_def) (simp add: extract_loop_scan)
qed (simp_all add: drain_frames_def extract_loop_scan)

lemma process_drains:
  "discreet env \<Longrightarrow> process_incoming_bytes env data d =
     (if data = [] then d
      else drain_frames env (with_buffer (dx_recv_buf d @ data) (dx_raw_bytes_read d + of_nat (length data)) d))"
  by (simp add: process_incoming_bytes_def drain_frames_def with_buffer_def Let_def)

lemma destroy_destroys:
  assumes "discreet env" and "\<And>e d. dx_destroyed d \<Longrightarrow> dx_destroyed (de_app env e d)"
  shows "dx_destroyed (dx_destroy env x d)"
  by (simp add: dx_destroy_def fire_close_def dx_fire_def dx_emit_def assms(2) Let_def)

text \<open>More input after the loop has run, or before it runs.\<close>

lemma drain_append:
  assumes env: "discreet env" and dead: "\<And>e d. dx_destroyed d \<Longrightarrow> dx_destroyed (de_app env e d)"
  shows "drain_frames env (with_buffer (dx_recv_buf d @ b) r d) =
    drain_frames env (with_buffer (dx_recv_buf (drain_frames env d) @ b) r (drain_frames env d))"
proof (induction "length (dx_recv_buf d)" arbitrary: d rule: less_induct)
  case less
  note step = drain_frames_step [OF env]
  show ?case
  proof (cases "dx_destroyed d")
    case True
    then show ?thesis
      by (simp add: step [of d])
  next
    case False
    show ?thesis
    proof (cases "scan_frame (dx_recv_buf d)")
      case NoFrame
      then show ?thesis
        by (simp add: step [of d])
    next
      case (BadFrame x)
      have d: "drain_frames env d = dx_destroy env x d"
        using BadFrame False by (simp add: step [of d])
      have "drain_frames env (with_buffer (dx_recv_buf d @ b) r d) = with_buffer (dx_recv_buf d @ b) r (dx_destroy env x d)"
        using scan_append(1) [OF BadFrame] False
        by (simp add: step [of "with_buffer _ _ _"] with_buffer_destroy [OF env])
      then show ?thesis
        unfolding d using destroy_destroys [OF env dead, of x d]
        by (simp add: step [of "with_buffer _ _ (dx_destroy _ _ _)"] destroy_keeps_buffer [OF env])
    next
      case (Frame body later)
      let ?d = "handle_frame env body (with_buffer later (dx_raw_bytes_read d) d)"
      have "drain_frames env d = drain_frames env ?d"
        using Frame False by (simp add: step [of d])
      moreover have "drain_frames env (with_buffer (dx_recv_buf d @ b) r d) = drain_frames env (with_buffer (dx_recv_buf ?d @ b) r ?d)"
        using scan_append(2) [OF Frame, of b] False
        by (simp add: step [of "with_buffer (dx_recv_buf d @ b) r d"] with_buffer_frame [OF env])
      moreover have "length (dx_recv_buf ?d) < length (dx_recv_buf d)"
        using scan_shorter [OF Frame] by (simp add: frame_keeps_buffer [OF env])
      ultimately show ?thesis
        using less [of ?d] by simp
    qed
  qed
qed

lemma drain_read_count:
  assumes "discreet env"
  shows "drain_frames env (with_buffer (dx_recv_buf d) r d) = with_buffer (dx_recv_buf (drain_frames env d)) r (drain_frames env d)"
    and "dx_raw_bytes_read (drain_frames env d) = dx_raw_bytes_read d"
proof (induction "length (dx_recv_buf d)" arbitrary: d rule: less_induct)
  case less
  note step = drain_frames_step [OF assms]
  {
    case 1
    show ?case
    proof (cases "scan_frame (dx_recv_buf d)")
      case (Frame body later)
      let ?d = "handle_frame env body (with_buffer later (dx_raw_bytes_read d) d)"
      have "length (dx_recv_buf ?d) < length (dx_recv_buf d)"
        using scan_shorter [OF Frame] by (simp add: frame_keeps_buffer [OF assms])
      from less(1) [OF this] Frame show ?thesis
        by (simp add: step [of d] step [of "with_buffer _ _ _"] with_buffer_frame [OF assms] frame_keeps_buffer [OF assms])
    qed (simp_all add: step [of d] step [of "with_buffer _ _ _"] with_buffer_destroy [OF assms] destroy_keeps_buffer [OF assms])
  next
    case 2
    show ?case
    proof (cases "scan_frame (dx_recv_buf d)")
      case (Frame body later)
      let ?d = "handle_frame env body (with_buffer later (dx_raw_bytes_read d) d)"
      have "length (dx_recv_buf ?d) < length (dx_recv_buf d)"
        using scan_shorter [OF Frame] by (simp add: frame_keeps_buffer [OF assms])
      from less(2) [OF this] Frame show ?thesis
        by (simp add: step [of d] frame_keeps_buffer [OF assms])
    qed (simp_all add: step [of d] destroy_keeps_buffer [OF assms])
  }
qed

lemma process_append:
  assumes env: "discreet env" and dead: "\<And>e d. dx_destroyed d \<Longrightarrow> dx_destroyed (de_app env e d)"
  shows "process_incoming_bytes env (a @ b) d = process_incoming_bytes env b (process_incoming_bytes env a d)"
proof (cases "a = [] \<or> b = []")
  case False
  let ?r = "dx_raw_bytes_read d + of_nat (length a)"
  let ?d = "with_buffer (dx_recv_buf d @ a) ?r d"
  have "process_incoming_bytes env b (process_incoming_bytes env a d) =
      drain_frames env (with_buffer (dx_recv_buf (drain_frames env ?d) @ b) (?r + of_nat (length b)) (drain_frames env ?d))"
    using False by (simp add: process_drains [OF env] drain_read_count(2) [OF env])
  also have "\<dots> = drain_frames env (with_buffer (dx_recv_buf ?d @ b) (?r + of_nat (length b)) ?d)"
    by (rule drain_append [OF env dead, symmetric])
  finally show ?thesis
    using False by (simp add: process_drains [OF env] add.assoc)
qed (auto simp: process_drains [OF env])

end
