(* ===== verification/Secret_Stream_Delivery.thy ===== *)
theory Secret_Stream_Delivery
  imports Secret_Stream_Frames
begin

text \<open>
  Two ends of a \<^verbatim>\<open>SecretStreamDuplex\<close>: the header exchange connects them and the messages that one end writes are delivered at the
  other in order, however the transport cuts the bytes.
\<close>

section \<open>What libsodium promises\<close>

text \<open>
  \<open>in_step p q\<close> says that the push state \<open>p\<close> and the pull state \<open>q\<close> come from the same header and key and have seen the same
  messages: \<open>q\<close> opens the next message of \<open>p\<close>.
\<close>

definition secretstream_sound :: "'s Sodium \<Rightarrow> ('s \<Rightarrow> 's \<Rightarrow> bool) \<Rightarrow> bool" where
  "secretstream_sound so in_step \<longleftrightarrow>
     (\<forall>m k. length (so_hash so m k) = STREAM_ID_LEN) \<and>
     (\<forall>entropy key. case so_init_push so entropy key of (header, p) \<Rightarrow>
        length header = HEADERBYTES \<and> (case so_init_pull so header key of (q, rc) \<Rightarrow> rc = 0 \<and> in_step p q)) \<and>
     (\<forall>p q m. in_step p q \<and> length m \<le> MAX_ATOMIC_WRITE \<longrightarrow>
        (case so_push so p m of (p', c, rc) \<Rightarrow>
           rc = 0 \<and> length c = length m + ABYTES \<and>
           (case so_pull so q c of (q', m', rc') \<Rightarrow> m' = m \<and> rc' = 0 \<and> in_step p' q')))"

lemma secretstream_soundD:
  assumes "secretstream_sound so in_step"
  shows "length (so_hash so m k) = STREAM_ID_LEN"
    and "so_init_push so entropy key = (header, p) \<Longrightarrow>
      length header = HEADERBYTES \<and> (\<exists>q. so_init_pull so header key = (q, 0) \<and> in_step p q)"
    and "in_step p q \<Longrightarrow> length m \<le> MAX_ATOMIC_WRITE \<Longrightarrow>
      \<exists>p' c q'. so_push so p m = (p', c, 0) \<and> length c = length m + ABYTES \<and> so_pull so q c = (q', m, 0) \<and> in_step p' q'"
proof -
  show "length (so_hash so m k) = STREAM_ID_LEN"
    using assms unfolding secretstream_sound_def by blast
  show "length header = HEADERBYTES \<and> (\<exists>q. so_init_pull so header key = (q, 0) \<and> in_step p q)"
    if "so_init_push so entropy key = (header, p)"
  proof -
    have "case so_init_push so entropy key of (header, p) \<Rightarrow>
        length header = HEADERBYTES \<and> (case so_init_pull so header key of (q, rc) \<Rightarrow> rc = 0 \<and> in_step p q)"
      using assms by (simp add: secretstream_sound_def)
    with that show ?thesis
      by (auto split: prod.splits)
  qed
  show "\<exists>p' c q'. so_push so p m = (p', c, 0) \<and> length c = length m + ABYTES \<and> so_pull so q c = (q', m, 0) \<and> in_step p' q'"
    if "in_step p q" "length m \<le> MAX_ATOMIC_WRITE"
  proof -
    have "case so_push so p m of (p', c, rc) \<Rightarrow> rc = 0 \<and> length c = length m + ABYTES \<and>
        (case so_pull so q c of (q', m', rc') \<Rightarrow> m' = m \<and> rc' = 0 \<and> in_step p' q')"
      using assms that by (simp add: secretstream_sound_def)
    then show ?thesis
      by (auto split: prod.splits)
  qed
qed

section \<open>Frames on the wire\<close>

lemma length_write_uint24 [simp]: "length (write_uint24_le v) = 3"
  by (simp add: write_uint24_le_def)

lemma uint24_roundtrip:
  assumes "v < 2 ^ 24"
  shows "read_uint24_le (write_uint24_le v @ bs) = v"
proof -
  have "read_uint24_le (write_uint24_le v @ bs) =
      (ucast (ucast v :: u8) :: u32) OR push_bit 8 (ucast (ucast (drop_bit 8 v) :: u8)) OR push_bit 16 (ucast (ucast (drop_bit 16 v) :: u8))"
    by (simp add: read_uint24_le_def write_uint24_le_def)
  also have "\<dots> = take_bit 24 v"
  proof (rule bit_word_eqI)
    fix n :: nat
    consider "n < 8" | "8 \<le> n" "n < 16" | "16 \<le> n"
      by linarith
    then show "bit ((ucast (ucast v :: u8) :: u32) OR push_bit 8 (ucast (ucast (drop_bit 8 v) :: u8)) OR
        push_bit 16 (ucast (ucast (drop_bit 16 v) :: u8))) n = bit (take_bit 24 v) n"
      by cases (auto simp: bit_simps)
  qed
  also have "\<dots> = v"
    using assms by (simp add: word_unat_eq_iff unsigned_take_bit_eq word_less_nat_alt take_bit_nat_eq_self)
  finally show ?thesis .
qed

definition frame_of :: "bytes \<Rightarrow> bytes" where
  "frame_of c = write_uint24_le (of_nat (length c)) @ c"

lemma scan_frame_of:
  assumes "c \<noteq> []" and "length c \<le> MAX_ATOMIC_WRITE + ABYTES"
  shows "scan_frame (frame_of c @ bs) = Frame c bs"
    and "part = take n (frame_of c) \<Longrightarrow> n < length (frame_of c) \<Longrightarrow> scan_frame part = NoFrame"
proof -
  have len: "read_uint24_le (frame_of c @ bs) = of_nat (length c)" for bs
    using assms(2) unfolding frame_of_def append_assoc
    by (intro uint24_roundtrip) (simp add: MAX_ATOMIC_WRITE_def ABYTES_def word_less_nat_alt unat_of_nat take_bit_nat_eq_self)
  have small: "unat (of_nat (length c) :: u32) = length c" "(of_nat (length c) :: u32) \<noteq> 0"
    "\<not> (of_nat (length c) :: u32) > FRAME_LEN_MAX"
    using assms
    by (simp_all add: MAX_ATOMIC_WRITE_def ABYTES_def FRAME_LEN_MAX_def word_less_nat_alt unat_of_nat take_bit_nat_eq_self
        flip: unat_eq_0)
  then show "scan_frame (frame_of c @ bs) = Frame c bs"
    by (simp add: scan_frame_def len) (simp add: frame_of_def)
  assume part: "part = take n (frame_of c)" "n < length (frame_of c)"
  show "scan_frame part = NoFrame"
  proof (cases "length part < 3")
    case False
    have "frame_of c = part @ drop n (frame_of c)"
      using part(1) by simp
    then have "read_uint24_le part = of_nat (length c)"
      using len [of "[]"] read_uint24_append [of part "drop n (frame_of c)"] False by simp
    then show ?thesis
      using small False part by (simp add: scan_frame_def) (simp add: frame_of_def)
  qed (simp add: scan_frame_def)
qed

text \<open>The frames of the messages that a push state seals one after the other, and the state after them.\<close>

fun seal :: "'s Sodium \<Rightarrow> 's \<Rightarrow> bytes list \<Rightarrow> 's \<times> bytes list" where
  "seal so p [] = (p, [])"
| "seal so p (m # ms) =
     (case so_push so p m of (p', c, rc) \<Rightarrow> case seal so p' ms of (q, fs) \<Rightarrow> (q, frame_of c # fs))"

text \<open>A byte stream cut inside its frames.\<close>

lemma cut_frames:
  assumes "a @ b = concat fs"
  shows "\<exists>fs1 fs2 part. fs = fs1 @ fs2 \<and> a = concat fs1 @ part \<and> part @ b = concat fs2 \<and>
    (part = [] \<or> (\<exists>f n. fs2 \<noteq> [] \<and> f = hd fs2 \<and> n < length f \<and> part = take n f))"
  using assms
proof (induction fs arbitrary: a)
  case Nil
  then show ?case
    by (intro exI [of _ "[]"]) simp
next
  case (Cons f fs)
  show ?case
  proof (cases "length a < length f")
    case True
    then have "a = take (length a) f"
      using Cons.prems by (metis append_eq_append_conv_if concat.simps(2) less_or_eq_imp_le)
    then show ?thesis
      using True Cons.prems by (intro exI [of _ "[]"] exI [of _ "f # fs"] exI [of _ a]) auto
  next
    case False
    then obtain a' where a': "a = f @ a'"
      using Cons.prems by (metis append_eq_append_conv2 append_eq_append_conv_if concat.simps(2) linorder_not_less)
    with Cons.prems have "a' @ b = concat fs"
      by simp
    from Cons.IH [OF this] obtain fs1 fs2 part where "fs = fs1 @ fs2" "a' = concat fs1 @ part" "part @ b = concat fs2"
      "part = [] \<or> (\<exists>f n. fs2 \<noteq> [] \<and> f = hd fs2 \<and> n < length f \<and> part = take n f)"
      by blast
    then show ?thesis
      using a' by (intro exI [of _ "f # fs1"] exI [of _ fs2] exI [of _ part]) simp
  qed
qed

section \<open>The receiving end\<close>

definition messages_of :: "DuplexEvent list \<Rightarrow> bytes list" where
  "messages_of tr = List.map_filter (\<lambda>e. case e of DxMessage m \<Rightarrow> Some m | _ \<Rightarrow> None) tr"

definition written_of :: "DuplexEvent list \<Rightarrow> bytes" where
  "written_of tr = concat (List.map_filter (\<lambda>e. case e of UdxWrite b \<Rightarrow> Some b | _ \<Rightarrow> None) tr)"

lemma map_filter_snoc: "List.map_filter f (xs @ ys) = List.map_filter f xs @ List.map_filter f ys"
  by (simp add: List.map_filter_def)

lemma messages_of_snoc [simp]:
  "messages_of (tr @ [e]) = messages_of tr @ (case e of DxMessage m \<Rightarrow> [m] | _ \<Rightarrow> [])"
  by (cases e) (simp_all add: messages_of_def map_filter_snoc List.map_filter_simps)

lemma written_of_snoc [simp]:
  "written_of (tr @ [e]) = written_of tr @ (case e of UdxWrite b \<Rightarrow> b | _ \<Rightarrow> [])"
  by (cases e) (simp_all add: written_of_def map_filter_snoc List.map_filter_simps)

lemma of_empty [simp]: "messages_of [] = []" "written_of [] = []"
  by (simp_all add: messages_of_def written_of_def List.map_filter_simps)

text \<open>What the receiving side of the stream depends on.\<close>

definition rx_view where
  "rx_view d = (dx_destroyed d, dx_connected d, dx_header_sent d, dx_header_received d, dx_on_message d, dx_on_connect d,
     dx_attached d, dx_alive d, dx_pending_messages d, is_ready (dx_crypto d), ss_pull_state (dx_crypto d),
     ss_keep_alive_ms (dx_crypto d), messages_of (dx_trace d))"

text \<open>The application that only listens and writes, but does not destroy the stream or change its timers.\<close>

definition listens :: "'s DuplexEnv \<Rightarrow> bool" where
  "listens env \<longleftrightarrow> discreet env \<and> (\<forall>e d. rx_view (de_app env e d) = rx_view d)"

lemma listensD: "listens env \<Longrightarrow> discreet env" "listens env \<Longrightarrow> rx_view (de_app env e d) = rx_view d"
  by (simp_all add: listens_def)

lemma listens_dead: "listens env \<Longrightarrow> dx_destroyed d \<Longrightarrow> dx_destroyed (de_app env e d)"
  using listensD(2) [of env e d] by (simp add: rx_view_def)

lemma rx_view_fire: "listens env \<Longrightarrow> rx_view (dx_fire env e d) = rx_view (dx_emit e d)"
  by (simp add: dx_fire_def listensD)

lemma fire_keeps_buffer: "listens env \<Longrightarrow> dx_recv_buf (dx_fire env e d) = dx_recv_buf d"
  using with_buffer_fire [OF listensD(1), of env e "dx_recv_buf d" "dx_raw_bytes_read d" d]
  by (metis with_buffer_simps(2,3))

definition inbox :: "'s Duplex \<Rightarrow> bytes list" where
  "inbox d = messages_of (dx_trace d) @ dx_pending_messages d"

definition kept_messages :: "'s Duplex \<Rightarrow> bytes list \<Rightarrow> bytes list" where
  "kept_messages d ms = (if ss_keep_alive_ms (dx_crypto d) > 0 then filter (\<lambda>m. m \<noteq> []) ms else ms)"

text \<open>The stream has the header of the peer, whose push state is \<open>p\<close>.\<close>

definition receiving :: "('s \<Rightarrow> 's \<Rightarrow> bool) \<Rightarrow> 's \<Rightarrow> 's Duplex \<Rightarrow> bool" where
  "receiving in_step p d \<longleftrightarrow>
     \<not> dx_destroyed d \<and> dx_header_received d \<and> dx_on_message d \<and> is_ready (dx_crypto d) \<and>
     in_step p (ss_pull_state (dx_crypto d)) \<and> (dx_connected d \<longrightarrow> dx_pending_messages d = []) \<and>
     dx_connected d = dx_header_sent d"

text \<open>What receiving data leaves as it is.\<close>

definition same_session :: "'s Duplex \<Rightarrow> 's Duplex \<Rightarrow> bool" where
  "same_session d d' \<longleftrightarrow>
     dx_connected d' = dx_connected d \<and> dx_attached d' = dx_attached d \<and> dx_alive d' = dx_alive d \<and>
     ss_keep_alive_ms (dx_crypto d') = ss_keep_alive_ms (dx_crypto d) \<and> (\<not> dx_connected d \<longrightarrow> dx_writes d' = dx_writes d)"

lemma same_session_refl: "same_session d d"
  by (simp add: same_session_def)

lemma same_session_trans: "same_session d d' \<Longrightarrow> same_session d' d'' \<Longrightarrow> same_session d d''"
  by (simp add: same_session_def)

lemma kept_messages_same: "same_session d d' \<Longrightarrow> kept_messages d' ms = kept_messages d ms"
  by (simp add: same_session_def kept_messages_def)

lemma kept_messages_Cons: "kept_messages d (m # ms) = kept_messages d [m] @ kept_messages d ms"
  by (simp add: kept_messages_def)

lemma rx_viewD:
  assumes "rx_view d' = rx_view d"
  shows "receiving in_step p d' = receiving in_step p d" and "inbox d' = inbox d"
    and "dx_pending_messages d' = dx_pending_messages d" and "dx_destroyed d' = dx_destroyed d"
    and "dx_on_message d' = dx_on_message d" and "messages_of (dx_trace d') = messages_of (dx_trace d)"
    and "dx_connected d \<Longrightarrow> same_session d d'"
  using assms by (simp_all add: rx_view_def receiving_def inbox_def same_session_def)

lemma decrypt_opens:
  assumes "receiving in_step p d" and "so_pull so (ss_pull_state (dx_crypto d)) c = (q', m, 0)" and "ABYTES \<le> length c"
  obtains crypto where "decrypt so now c (dx_crypto d) = (if m = [] \<and> ss_keep_alive_ms (dx_crypto d) > 0 then None else Some m, crypto)"
    and "ss_pull_state crypto = q'" and "is_ready crypto" and "ss_keep_alive_ms crypto = ss_keep_alive_ms (dx_crypto d)"
proof
  let ?s = "(dx_crypto d)\<lparr>ss_timeout_timer := map_option (uv_timer_again now) (ss_timeout_timer (dx_crypto d)), ss_pull_state := q'\<rparr>"
  show "decrypt so now c (dx_crypto d) = (if m = [] \<and> ss_keep_alive_ms (dx_crypto d) > 0 then None else Some m, ?s)"
    using assms by (simp add: decrypt_def receiving_def is_ready_def Let_def)
  show "is_ready ?s"
    using assms(1) by (simp add: receiving_def is_ready_def)
qed simp_all

lemma handle_data_frame:
  assumes env: "listens env" and rx: "receiving in_step p d"
    and pull: "so_pull (de_so env) (ss_pull_state (dx_crypto d)) c = (q', m, 0)" "in_step p' q'" "ABYTES \<le> length c"
    and room: "dx_connected d \<or> length (dx_pending_messages d) < 64"
  defines "d' \<equiv> handle_frame env c d"
  shows "receiving in_step p' d' \<and> inbox d' = inbox d @ kept_messages d [m] \<and> same_session d d' \<and>
    length (dx_pending_messages d') \<le> Suc (length (dx_pending_messages d))"
proof -
  obtain crypto where crypto: "decrypt (de_so env) (dx_now d) c (dx_crypto d) =
      (if m = [] \<and> ss_keep_alive_ms (dx_crypto d) > 0 then None else Some m, crypto)" "ss_pull_state crypto = q'" "is_ready crypto"
      "ss_keep_alive_ms crypto = ss_keep_alive_ms (dx_crypto d)"
    using decrypt_opens [OF rx pull(1,3)] by blast
  let ?d = "d\<lparr>dx_crypto := crypto\<rparr>"
  have rx': "receiving in_step p' ?d"
    using rx crypto pull(2) by (simp add: receiving_def)
  consider "m = []" "ss_keep_alive_ms (dx_crypto d) > 0" | "kept_messages d [m] = [m]" "dx_connected d" | "kept_messages d [m] = [m]" "\<not> dx_connected d"
    by (cases "m = [] \<and> ss_keep_alive_ms (dx_crypto d) > 0"; cases "dx_connected d") (auto simp: kept_messages_def)
  then show ?thesis
  proof cases
    case 1
    then have "d' = ?d"
      using crypto(1) rx by (simp add: d'_def handle_frame_def receiving_def)
    then show ?thesis
      using rx' 1 crypto(4) by (simp add: inbox_def kept_messages_def same_session_def)
  next
    case 2
    then have d': "d' = dx_fire env (DxMessage m) ?d"
      using crypto(1) rx by (simp add: d'_def handle_frame_def receiving_def kept_messages_def split: if_splits)
    have "receiving in_step p' (dx_emit (DxMessage m) ?d)" "inbox (dx_emit (DxMessage m) ?d) = inbox d @ [m]"
      "same_session d (dx_emit (DxMessage m) ?d)"
      using rx' 2 rx crypto(4) by (simp_all add: receiving_def inbox_def dx_emit_def same_session_def)
    moreover note rx_viewD [OF rx_view_fire [OF env, of "DxMessage m" ?d]]
    ultimately show ?thesis
      using 2 same_session_trans unfolding d' by (fastforce simp: dx_emit_def)
  next
    case 3
    then have "d' = ?d\<lparr>dx_pending_messages := dx_pending_messages d @ [m]\<rparr>"
      using crypto(1) rx room by (simp add: d'_def handle_frame_def receiving_def kept_messages_def split: if_splits)
    then show ?thesis
      using rx' 3 crypto(4) by (simp add: receiving_def inbox_def same_session_def)
  qed
qed

lemma process_frame:
  assumes "listens env" and "c \<noteq> []" and "length c \<le> MAX_ATOMIC_WRITE + ABYTES" and "\<not> dx_destroyed d" and "dx_recv_buf d = []"
  shows "process_incoming_bytes env (frame_of c) d =
    with_buffer [] (dx_raw_bytes_read d + of_nat (length (frame_of c))) (handle_frame env c d)"
proof -
  note env = listensD(1) [OF assms(1)]
  have "frame_of c \<noteq> []"
    using assms(2) by (simp add: frame_of_def)
  then have "process_incoming_bytes env (frame_of c) d =
      drain_frames env (with_buffer [] (dx_raw_bytes_read d + of_nat (length (frame_of c))) (handle_frame env c d))"
    using scan_frame_of(1) [OF assms(2,3), of "[]"] assms(4,5)
    by (simp add: process_drains [OF env] drain_frames_step [OF env, of "with_buffer (frame_of c) _ _"] with_buffer_frame [OF env])
  then show ?thesis
    by (simp add: drain_frames_step [OF env, of "with_buffer [] _ _"] scan_frame_def)
qed

lemma rx_with_buffer [simp]:
  "rx_view (with_buffer b r d) = rx_view d" "receiving in_step p (with_buffer b r d) = receiving in_step p d"
  "inbox (with_buffer b r d) = inbox d" "same_session d (with_buffer b r d') = same_session d d'"
  "dx_writes (with_buffer b r d) = dx_writes d" "dx_attached (with_buffer b r d) = dx_attached d"
  "dx_alive (with_buffer b r d) = dx_alive d"
  by (simp_all add: rx_view_def receiving_def inbox_def same_session_def with_buffer_def)

lemma process_frames:
  assumes env: "listens env" and so: "secretstream_sound (de_so env) in_step"
    and "receiving in_step p d" and "dx_recv_buf d = []" and "\<forall>m\<in>set ms. length m \<le> MAX_ATOMIC_WRITE"
    and "dx_connected d \<or> length (dx_pending_messages d) + length ms \<le> 64"
  defines "d' \<equiv> process_incoming_bytes env (concat (snd (seal (de_so env) p ms))) d"
  shows "receiving in_step (fst (seal (de_so env) p ms)) d' \<and> dx_recv_buf d' = [] \<and>
    inbox d' = inbox d @ kept_messages d ms \<and> same_session d d' \<and>
    length (dx_pending_messages d') \<le> length (dx_pending_messages d) + length ms"
  unfolding d'_def using assms(3-6)
proof (induction ms arbitrary: p d)
  case Nil
  then show ?case
    by (simp add: process_incoming_bytes_def same_session_refl kept_messages_def)
next
  case (Cons m ms)
  have m: "length m \<le> MAX_ATOMIC_WRITE"
    using Cons.prems by simp
  obtain p' c q' where push: "so_push (de_so env) p m = (p', c, 0)" "length c = length m + ABYTES"
      "so_pull (de_so env) (ss_pull_state (dx_crypto d)) c = (q', m, 0)" "in_step p' q'"
    using secretstream_soundD(3) [OF so _ m, of p "ss_pull_state (dx_crypto d)"] Cons.prems(1) by (auto simp: receiving_def)
  let ?d = "with_buffer [] (dx_raw_bytes_read d + of_nat (length (frame_of c))) (handle_frame env c d)"
  have c: "c \<noteq> []" "length c \<le> MAX_ATOMIC_WRITE + ABYTES" "ABYTES \<le> length c"
    using push(2) m by (auto simp: ABYTES_def)
  have one: "process_incoming_bytes env (frame_of c) d = ?d"
    using Cons.prems(1,2) by (intro process_frame [OF env c(1,2)]) (simp_all add: receiving_def)
  have room: "dx_connected d \<or> length (dx_pending_messages d) < 64"
    using Cons.prems(4) by auto
  note step = handle_data_frame [OF env Cons.prems(1) push(3,4) c(3) room]
  have rest: "process_incoming_bytes env (concat (snd (seal (de_so env) p (m # ms)))) d =
      process_incoming_bytes env (concat (snd (seal (de_so env) p' ms))) ?d"
    using push(1) by (simp add: split_beta process_append [OF listensD(1) [OF env] listens_dead [OF env]] one)
  have "dx_connected ?d \<or> length (dx_pending_messages ?d) + length ms \<le> 64"
    using step Cons.prems(4) by (auto simp: same_session_def)
  from Cons.IH [OF _ _ _ this, of p'] step Cons.prems(3)
  show ?case
    unfolding rest using push(1) same_session_trans [of d ?d] kept_messages_same [of d ?d ms]
    by (simp add: split_beta kept_messages_Cons [of d m ms])
qed

section \<open>The header exchange\<close>

lemma replay_delivers:
  assumes "listens env" and "\<not> dx_destroyed d" and "dx_on_message d"
  shows "rx_view (replay_pending env ms d) = rx_view (d\<lparr>dx_trace := dx_trace d @ map DxMessage ms\<rparr>) \<and>
    dx_recv_buf (replay_pending env ms d) = dx_recv_buf d"
  using assms(2,3)
proof (induction ms arbitrary: d)
  case (Cons m ms)
  let ?d = "dx_fire env (DxMessage m) d"
  have v: "rx_view ?d = rx_view (dx_emit (DxMessage m) d)"
    by (rule rx_view_fire [OF assms(1)])
  have "\<not> dx_destroyed ?d" "dx_on_message ?d"
    using v Cons.prems by (auto simp: rx_view_def dx_emit_def)
  note IH = Cons.IH [OF this]
  moreover have "rx_view (?d\<lparr>dx_trace := dx_trace ?d @ map DxMessage ms\<rparr>) = rx_view (d\<lparr>dx_trace := dx_trace d @ map DxMessage (m # ms)\<rparr>)"
    using v by (simp add: rx_view_def dx_emit_def messages_of_def map_filter_snoc List.map_filter_simps)
  ultimately show ?case
    using Cons.prems by (simp add: fire_keeps_buffer [OF assms(1)])
qed (simp add: rx_view_def)

lemma connect_delivers:
  fixes w :: u64
  assumes env: "listens env" and "receiving in_step p d" and "\<not> dx_connected d"
  defines "d' \<equiv> maybe_fire_connect env (d\<lparr>dx_header_sent := True, dx_raw_bytes_written := w\<rparr>)"
  shows "receiving in_step p d' \<and> dx_connected d' \<and> dx_recv_buf d' = dx_recv_buf d \<and> inbox d' = inbox d \<and>
    ss_keep_alive_ms (dx_crypto d') = ss_keep_alive_ms (dx_crypto d) \<and> dx_attached d' = dx_attached d \<and> dx_alive d' = dx_alive d"
proof -
  let ?d = "d\<lparr>dx_header_sent := True, dx_raw_bytes_written := w, dx_connected := True\<rparr>"
  let ?e = "if dx_on_connect ?d then dx_fire env DxConnect ?d else ?d"
  have e: "rx_view ?e = rx_view ?d" "dx_recv_buf ?e = dx_recv_buf d"
    by (simp_all add: rx_view_fire [OF env] fire_keeps_buffer [OF env]) (simp add: rx_view_def dx_emit_def)
  let ?f = "?e\<lparr>dx_pending_messages := []\<rparr>"
  have d': "d' = replay_pending env (dx_pending_messages d) ?f"
    using assms(2,3) rx_viewD(3) [OF e(1)]
    by (simp add: d'_def maybe_fire_connect_def receiving_def Let_def)
  have live: "\<not> dx_destroyed ?f" "dx_on_message ?f"
    using rx_viewD(4,5) [OF e(1)] assms(2) by (simp_all add: receiving_def)
  note replay = replay_delivers [OF env live, of "dx_pending_messages d"]
  have view: "rx_view (?f\<lparr>dx_trace := dx_trace ?f @ map DxMessage (dx_pending_messages d)\<rparr>) =
      rx_view (?d\<lparr>dx_pending_messages := [], dx_trace := dx_trace d @ map DxMessage (dx_pending_messages d)\<rparr>)"
    using e(1) by (simp add: rx_view_def messages_of_def map_filter_snoc)
  have "messages_of (map DxMessage ms) = ms" for ms
    by (induction ms) (simp_all add: messages_of_def List.map_filter_simps)
  then have "messages_of (dx_trace d @ map DxMessage ms) = messages_of (dx_trace d) @ ms" for ms
    by (simp add: messages_of_def map_filter_snoc)
  then show ?thesis
    using replay view e(2) assms(2) unfolding d'
    by (simp add: rx_view_def receiving_def inbox_def)
qed

text \<open>A started stream that has not seen the header of the peer.\<close>

definition awaiting :: "'s Duplex \<Rightarrow> bool" where
  "awaiting d \<longleftrightarrow>
     \<not> dx_destroyed d \<and> \<not> dx_header_received d \<and> \<not> dx_connected d \<and> dx_pending_messages d = [] \<and> dx_on_message d \<and>
     ss_header_sent (dx_crypto d) \<and> dx_recv_buf d = []"

lemma header_received:
  assumes env: "listens env" and d: "awaiting d" and rid: "ss_remote_id (dx_crypto d) = rid" "length rid = STREAM_ID_LEN"
    and hb: "length hb = HEADERBYTES" "so_init_pull (de_so env) hb (ss_rx_key (dx_crypto d)) = (q, 0)" "in_step p q"
  defines "d' \<equiv> process_incoming_bytes env (frame_of (rid @ hb)) d"
  shows "receiving in_step p d' \<and> dx_recv_buf d' = [] \<and> inbox d' = inbox d \<and> dx_connected d' = dx_header_sent d \<and>
    ss_keep_alive_ms (dx_crypto d') = ss_keep_alive_ms (dx_crypto d) \<and> dx_attached d' = dx_attached d \<and> dx_alive d' = dx_alive d \<and>
    (\<not> dx_header_sent d \<longrightarrow> dx_writes d' = dx_writes d \<and> dx_pending_messages d' = [])"
proof -
  let ?crypto = "(dx_crypto d)\<lparr>ss_pull_state := q, ss_header_received := True\<rparr>"
  let ?d = "d\<lparr>dx_crypto := ?crypto, dx_header_received := True\<rparr>"
  let ?b = "d\<lparr>dx_crypto := ?crypto, dx_header_received := True, dx_header_sent := False\<rparr>"
  have len: "length (rid @ hb) = ID_HEADER_BYTES"
    using rid(2) hb(1) by (simp add: ID_HEADER_BYTES_def)
  have "receive_header (de_so env) (rid @ hb) (dx_crypto d) = (True, ?crypto)"
    using len rid hb(2) by (simp add: receive_header_def)
  then have frame: "handle_frame env (rid @ hb) d = maybe_fire_connect env ?d"
    using d len by (simp add: handle_frame_def awaiting_def)
  have d': "d' = with_buffer [] (dx_raw_bytes_read d + of_nat (length (frame_of (rid @ hb)))) (maybe_fire_connect env ?d)"
    unfolding d'_def frame [symmetric] using d len
    by (intro process_frame [OF env]) (auto simp: awaiting_def ID_HEADER_BYTES_def HEADERBYTES_def MAX_ATOMIC_WRITE_def STREAM_ID_LEN_def)
  have rx: "receiving in_step p ?b"
    using d hb(3) by (simp add: receiving_def awaiting_def is_ready_def)
  show ?thesis
  proof (cases "dx_header_sent d")
    case True
    have eq: "?b\<lparr>dx_header_sent := True, dx_raw_bytes_written := dx_raw_bytes_written d\<rparr> = ?d"
      using True by simp
    have "\<not> dx_connected ?b" "inbox ?b = inbox d"
      using d by (simp_all add: awaiting_def inbox_def)
    from connect_delivers [OF env rx this(1), of "dx_raw_bytes_written d", unfolded eq] this(2) d True
    show ?thesis
      unfolding d' by (simp add: awaiting_def)
  next
    case False
    then have "maybe_fire_connect env ?d = ?d" "?d = ?b"
      by (simp_all add: maybe_fire_connect_def)
    with rx d False show ?thesis
      unfolding d' by (simp add: awaiting_def inbox_def)
  qed
qed

section \<open>The sending end\<close>

text \<open>A connected stream with the push state \<open>p\<close>.\<close>

definition sending :: "'s \<Rightarrow> 's Duplex \<Rightarrow> bool" where
  "sending p d \<longleftrightarrow>
     \<not> dx_destroyed d \<and> \<not> dx_ended d \<and> dx_connected d \<and> is_ready (dx_crypto d) \<and> ss_push_state (dx_crypto d) = p"

fun write_all :: "'s DuplexEnv \<Rightarrow> bytes list \<Rightarrow> 's Duplex \<Rightarrow> int list \<times> 's Duplex" where
  "write_all env [] d = ([], d)"
| "write_all env (m # ms) d =
     (case dx_write env m None d of (rc, d') \<Rightarrow> case write_all env ms d' of (rcs, d'') \<Rightarrow> (rc # rcs, d''))"

lemma write_sends:
  assumes "sending p d" and "length m \<le> MAX_ATOMIC_WRITE" and "so_push (de_so env) p m = (p', c, 0)" and "\<forall>n. 0 \<le> de_rc env n"
  obtains d' where "dx_write env m None d = (0, d')" and "sending p' d'"
    and "written_of (dx_trace d') = written_of (dx_trace d) @ frame_of c"
proof
  let ?s = "(dx_crypto d)\<lparr>ss_push_state := p', ss_keepalive_timer := map_option (uv_timer_again (dx_now d)) (ss_keepalive_timer (dx_crypto d))\<rparr>"
  let ?d = "d\<lparr>dx_crypto := ?s, dx_calls := Suc (dx_calls d), dx_trace := dx_trace d @ [UdxWrite (frame_of c)],
      dx_writes := dx_writes d @ [DataCtx (frame_of c) None]\<rparr>"
  have "encrypt (de_so env) (dx_now d) m (dx_crypto d) = (frame_of c, ?s)"
    using assms(1-3) by (simp add: encrypt_def sending_def frame_of_def MAX_ATOMIC_WRITE_def)
  moreover have "\<not> de_rc env (dx_calls d) < 0"
    using assms(4) by (simp add: not_less)
  moreover have "frame_of c \<noteq> []"
    by (simp add: frame_of_def write_uint24_le_def)
  ultimately show "dx_write env m None d = (0, ?d)"
    using assms(1,2) by (simp add: dx_write_def sending_def udx_call_def dx_emit_def)
  show "sending p' ?d"
    using assms(1) by (simp add: sending_def is_ready_def)
qed simp

lemma write_all_sends:
  assumes so: "secretstream_sound (de_so env) in_step" and rc: "\<forall>n. 0 \<le> de_rc env n"
    and "sending p d" and "in_step p q" and "\<forall>m\<in>set ms. length m \<le> MAX_ATOMIC_WRITE"
  shows "fst (write_all env ms d) = replicate (length ms) 0 \<and>
    written_of (dx_trace (snd (write_all env ms d))) = written_of (dx_trace d) @ concat (snd (seal (de_so env) p ms))"
  using assms(3-5)
proof (induction ms arbitrary: p q d)
  case (Cons m ms)
  have m: "length m \<le> MAX_ATOMIC_WRITE"
    using Cons.prems by simp
  from secretstream_soundD(3) [OF so Cons.prems(2) m] obtain p' c q' where push:
      "so_push (de_so env) p m = (p', c, 0)" "in_step p' q'"
    by blast
  obtain d' where d': "dx_write env m None d = (0, d')" "sending p' d'"
      "written_of (dx_trace d') = written_of (dx_trace d) @ frame_of c"
    using write_sends [OF Cons.prems(1) m push(1) rc] by blast
  from Cons.IH [OF d'(2) push(2)] Cons.prems(3) d' push(1) show ?case
    by (simp add: split_beta)
qed simp

section \<open>End to end\<close>

definition started :: "'s DuplexEnv \<Rightarrow> bytes \<Rightarrow> bytes \<Rightarrow> DuplexHandshake \<Rightarrow> bool \<Rightarrow> DuplexOptions \<Rightarrow> 's Duplex" where
  "started env entropy nonce hs loop opts = dx_start env (Duplex_new (de_so env) entropy nonce True hs loop opts)"

lemma set_keep_alive_fields [simp]:
  "dx_destroyed (dx_set_keep_alive ms d) = dx_destroyed d"
  "dx_header_received (dx_set_keep_alive ms d) = dx_header_received d"
  "dx_connected (dx_set_keep_alive ms d) = dx_connected d"
  "dx_pending_messages (dx_set_keep_alive ms d) = dx_pending_messages d"
  "dx_on_message (dx_set_keep_alive ms d) = dx_on_message d"
  "dx_recv_buf (dx_set_keep_alive ms d) = dx_recv_buf d"
  "dx_header_sent (dx_set_keep_alive ms d) = dx_header_sent d"
  "dx_attached (dx_set_keep_alive ms d) = dx_attached d"
  "dx_alive (dx_set_keep_alive ms d) = dx_alive d"
  "dx_writes (dx_set_keep_alive ms d) = dx_writes d"
  "dx_ended (dx_set_keep_alive ms d) = dx_ended d"
  "dx_trace (dx_set_keep_alive ms d) = dx_trace d"
  "dx_opts (dx_set_keep_alive ms d) = dx_opts d"
  "ss_header_sent (dx_crypto (dx_set_keep_alive ms d)) = ss_header_sent (dx_crypto d)"
  "ss_push_state (dx_crypto (dx_set_keep_alive ms d)) = ss_push_state (dx_crypto d)"
  "ss_rx_key (dx_crypto (dx_set_keep_alive ms d)) = ss_rx_key (dx_crypto d)"
  "ss_remote_id (dx_crypto (dx_set_keep_alive ms d)) = ss_remote_id (dx_crypto d)"
  "ss_local_id (dx_crypto (dx_set_keep_alive ms d)) = ss_local_id (dx_crypto d)"
  "ss_header_bytes (dx_crypto (dx_set_keep_alive ms d)) = ss_header_bytes (dx_crypto d)"
  by (simp_all add: dx_set_keep_alive_def ss_set_keep_alive_def start_keepalive_timer_def Let_def)

lemma set_timeout_fields [simp]:
  "dx_destroyed (dx_set_timeout ms d) = dx_destroyed d"
  "dx_header_received (dx_set_timeout ms d) = dx_header_received d"
  "dx_connected (dx_set_timeout ms d) = dx_connected d"
  "dx_pending_messages (dx_set_timeout ms d) = dx_pending_messages d"
  "dx_on_message (dx_set_timeout ms d) = dx_on_message d"
  "dx_recv_buf (dx_set_timeout ms d) = dx_recv_buf d"
  "dx_header_sent (dx_set_timeout ms d) = dx_header_sent d"
  "dx_attached (dx_set_timeout ms d) = dx_attached d"
  "dx_alive (dx_set_timeout ms d) = dx_alive d"
  "dx_writes (dx_set_timeout ms d) = dx_writes d"
  "dx_ended (dx_set_timeout ms d) = dx_ended d"
  "dx_trace (dx_set_timeout ms d) = dx_trace d"
  "dx_opts (dx_set_timeout ms d) = dx_opts d"
  "ss_header_sent (dx_crypto (dx_set_timeout ms d)) = ss_header_sent (dx_crypto d)"
  "ss_push_state (dx_crypto (dx_set_timeout ms d)) = ss_push_state (dx_crypto d)"
  "ss_rx_key (dx_crypto (dx_set_timeout ms d)) = ss_rx_key (dx_crypto d)"
  "ss_remote_id (dx_crypto (dx_set_timeout ms d)) = ss_remote_id (dx_crypto d)"
  "ss_local_id (dx_crypto (dx_set_timeout ms d)) = ss_local_id (dx_crypto d)"
  "ss_header_bytes (dx_crypto (dx_set_timeout ms d)) = ss_header_bytes (dx_crypto d)"
  by (simp_all add: dx_set_timeout_def ss_set_timeout_def start_timeout_timer_def Let_def)

lemma new_fields:
  assumes "so_init_push so entropy (hs_tx_key hs) = (hb, p)"
  shows "dx_destroyed (Duplex_new so entropy nonce raw hs loop opts) = False"
    "dx_started (Duplex_new so entropy nonce raw hs loop opts) = False"
    "dx_header_received (Duplex_new so entropy nonce raw hs loop opts) = False"
    "dx_connected (Duplex_new so entropy nonce raw hs loop opts) = False"
    "dx_ended (Duplex_new so entropy nonce raw hs loop opts) = False"
    "dx_pending_messages (Duplex_new so entropy nonce raw hs loop opts) = []"
    "dx_recv_buf (Duplex_new so entropy nonce raw hs loop opts) = []"
    "dx_on_message (Duplex_new so entropy nonce raw hs loop opts) = True"
    "dx_alive (Duplex_new so entropy nonce raw hs loop opts) = True"
    "dx_writes (Duplex_new so entropy nonce raw hs loop opts) = []"
    "dx_trace (Duplex_new so entropy nonce raw hs loop opts) = []"
    "dx_opts (Duplex_new so entropy nonce raw hs loop opts) = opts"
    "ss_push_state (dx_crypto (Duplex_new so entropy nonce raw hs loop opts)) = p"
    "ss_rx_key (dx_crypto (Duplex_new so entropy nonce raw hs loop opts)) = hs_rx_key hs"
    "ss_header_bytes (dx_crypto (Duplex_new so entropy nonce raw hs loop opts)) = hb"
    "ss_local_id (dx_crypto (Duplex_new so entropy nonce raw hs loop opts)) =
      compute_stream_id so (hs_handshake_hash hs) (hs_is_initiator hs)"
    "ss_remote_id (dx_crypto (Duplex_new so entropy nonce raw hs loop opts)) =
      compute_stream_id so (hs_handshake_hash hs) (\<not> hs_is_initiator hs)"
  unfolding Duplex_new_def SecretStream_new_def assms setup_secret_send_def Let_def by simp_all

text \<open>Starting a stream, up to its timers.\<close>

definition start_io :: "'s DuplexEnv \<Rightarrow> 's Duplex \<Rightarrow> 's Duplex" where
  "start_io env d =
     (let header = fst (create_header_message (dx_crypto d))
      in d\<lparr>dx_started := True, dx_attached := True, dx_crypto := snd (create_header_message (dx_crypto d)), dx_header_sent := False,
           dx_calls := Suc (dx_calls d),
           dx_trace := dx_trace d @ [UdxReadStart] @ (if do_enable_send (dx_opts d) then [UdxRecvStart] else []) @ [UdxWrite header],
           dx_writes := dx_writes d @ [HeaderCtx header]\<rparr>)"

lemma dx_start_io:
  assumes "\<forall>n. 0 \<le> de_rc env n" and "\<not> dx_started d" and "\<not> dx_destroyed d"
  shows "dx_start env d =
    (let d = start_io env d;
         d = (if do_keep_alive_ms (dx_opts d) > 0 then dx_set_keep_alive (do_keep_alive_ms (dx_opts d)) d else d)
     in if do_timeout_ms (dx_opts d) > 0 then dx_set_timeout (do_timeout_ms (dx_opts d)) d else d)"
proof -
  have rc: "\<not> de_rc env n < 0" for n
    using assms(1) by (simp add: not_less)
  have "send_header_frame env (if do_enable_send (dx_opts d) then dx_emit UdxRecvStart (dx_emit UdxReadStart (d\<lparr>dx_started := True, dx_attached := True\<rparr>))
      else dx_emit UdxReadStart (d\<lparr>dx_started := True, dx_attached := True\<rparr>)) = start_io env d"
    by (simp add: send_header_frame_def start_io_def udx_call_def dx_emit_def rc create_header_message_def Let_def)
  then show ?thesis
    using assms(2,3) unfolding dx_start_def Let_def by (simp add: dx_emit_def)
qed

lemma started_fields:
  fixes env :: "'s DuplexEnv" and nonce :: bytes and loop :: bool and opts :: DuplexOptions
  assumes "\<forall>n. 0 \<le> de_rc env n" and "so_init_push (de_so env) entropy (hs_tx_key hs) = (hb, p)"
    and "length hb = HEADERBYTES" and "\<forall>m k. length (so_hash (de_so env) m k) = STREAM_ID_LEN"
  defines "d \<equiv> started env entropy nonce hs loop opts"
  defines "header \<equiv> frame_of (compute_stream_id (de_so env) (hs_handshake_hash hs) (hs_is_initiator hs) @ hb)"
  shows "awaiting d" and "\<not> dx_header_sent d" and "dx_attached d" and "dx_alive d" and "dx_writes d = [HeaderCtx header]"
    and "\<not> dx_ended d" and "written_of (dx_trace d) = header" and "messages_of (dx_trace d) = []"
    and "ss_push_state (dx_crypto d) = p" and "ss_rx_key (dx_crypto d) = hs_rx_key hs"
    and "ss_remote_id (dx_crypto d) = compute_stream_id (de_so env) (hs_handshake_hash hs) (\<not> hs_is_initiator hs)"
proof -
  let ?id = "compute_stream_id (de_so env) (hs_handshake_hash hs) (hs_is_initiator hs)"
  have id: "length ?id = STREAM_ID_LEN"
    using assms(4) by (simp add: compute_stream_id_def Let_def)
  then have header: "header = write_uint24_le (of_nat ID_HEADER_BYTES) @ ?id @ hb"
    using assms(3) by (simp add: header_def frame_of_def ID_HEADER_BYTES_def add.commute)
  let ?d = "Duplex_new (de_so env) entropy nonce True hs loop opts"
  note new = new_fields [OF assms(2), of nonce True loop opts]
  have d: "d = (let d = start_io env ?d;
         d = (if do_keep_alive_ms (dx_opts d) > 0 then dx_set_keep_alive (do_keep_alive_ms (dx_opts d)) d else d)
     in if do_timeout_ms (dx_opts d) > 0 then dx_set_timeout (do_timeout_ms (dx_opts d)) d else d)"
    unfolding d_def started_def by (rule dx_start_io [OF assms(1)]) (simp_all add: new)
  have start: "dx_destroyed d = dx_destroyed (start_io env ?d)" "dx_header_received d = dx_header_received (start_io env ?d)"
    "dx_connected d = dx_connected (start_io env ?d)" "dx_pending_messages d = dx_pending_messages (start_io env ?d)"
    "dx_on_message d = dx_on_message (start_io env ?d)" "dx_recv_buf d = dx_recv_buf (start_io env ?d)"
    "dx_header_sent d = dx_header_sent (start_io env ?d)" "dx_attached d = dx_attached (start_io env ?d)"
    "dx_alive d = dx_alive (start_io env ?d)" "dx_writes d = dx_writes (start_io env ?d)" "dx_ended d = dx_ended (start_io env ?d)"
    "dx_trace d = dx_trace (start_io env ?d)" "ss_header_sent (dx_crypto d) = ss_header_sent (dx_crypto (start_io env ?d))"
    "ss_push_state (dx_crypto d) = ss_push_state (dx_crypto (start_io env ?d))"
    "ss_rx_key (dx_crypto d) = ss_rx_key (dx_crypto (start_io env ?d))"
    "ss_remote_id (dx_crypto d) = ss_remote_id (dx_crypto (start_io env ?d))"
    unfolding d Let_def by simp_all
  note fields = start start_io_def create_header_message_def new header Let_def
  show "awaiting d"
    unfolding awaiting_def fields by (simp add: new)
  show "\<not> dx_header_sent d" "dx_attached d" "dx_alive d" "dx_writes d = [HeaderCtx header]" "\<not> dx_ended d"
    "ss_push_state (dx_crypto d) = p" "ss_rx_key (dx_crypto d) = hs_rx_key hs"
    "ss_remote_id (dx_crypto d) = compute_stream_id (de_so env) (hs_handshake_hash hs) (\<not> hs_is_initiator hs)"
    unfolding fields by (simp_all add: new)
  show "written_of (dx_trace d) = header" "messages_of (dx_trace d) = []"
    unfolding fields by (simp_all add: new written_of_def messages_of_def List.map_filter_simps)
qed

lemma seal_append:
  "seal so p (ms @ ns) = (fst (seal so (fst (seal so p ms)) ns), snd (seal so p ms) @ snd (seal so (fst (seal so p ms)) ns))"
  by (induction ms arbitrary: p) (simp_all add: split_beta)

lemma length_seal: "length (snd (seal so p ms)) = length ms"
  by (induction ms arbitrary: p) (simp_all add: split_beta)

lemma seal_frames:
  assumes "secretstream_sound so in_step" and "in_step p q" and "\<forall>m\<in>set ms. length m \<le> MAX_ATOMIC_WRITE"
  shows "\<forall>f\<in>set (snd (seal so p ms)). \<exists>c. f = frame_of c \<and> c \<noteq> [] \<and> length c \<le> MAX_ATOMIC_WRITE + ABYTES"
  using assms(2,3)
proof (induction ms arbitrary: p q)
  case (Cons m ms)
  from secretstream_soundD(3) [OF assms(1) Cons.prems(1), of m] Cons.prems(2) obtain p' c q' where
      push: "so_push so p m = (p', c, 0)" "length c = length m + ABYTES" "in_step p' q'"
    by auto
  from Cons.IH [OF push(3)] Cons.prems(2)
  have "\<forall>f\<in>set (snd (seal so p' ms)). \<exists>c. f = frame_of c \<and> c \<noteq> [] \<and> length c \<le> MAX_ATOMIC_WRITE + ABYTES"
    by simp
  moreover have "c \<noteq> []" "length c \<le> MAX_ATOMIC_WRITE + ABYTES"
    using push(2) Cons.prems(2) by (auto simp: ABYTES_def)
  ultimately show ?case
    using push(1) by (auto simp: split_beta)
qed simp

lemma process_part:
  assumes "discreet env" and "dx_recv_buf d = []" and "part = [] \<or> scan_frame part = NoFrame"
  shows "process_incoming_bytes env part d = with_buffer part (dx_raw_bytes_read d + of_nat (length part)) d"
proof -
  have "with_buffer [] (dx_raw_bytes_read d) d = d"
    using assms(2) by (metis with_buffer_simps(2))
  then show ?thesis
    using assms(2,3) by (auto simp: process_drains [OF assms(1)] drain_frames_step [OF assms(1), of "with_buffer _ _ _"])
qed

definition header_ack :: "'s DuplexEnv \<Rightarrow> 's Duplex \<Rightarrow> 's Duplex" where
  "header_ack env d = on_write_ack env 0 0 d"

lemma with_buffer_ack:
  assumes "discreet env" and "dx_writes d = [HeaderCtx h]"
  shows "header_ack env (with_buffer b r d) = with_buffer b r (header_ack env d)"
proof -
  have eq: "(with_buffer b r e)\<lparr>dx_header_sent := True, dx_raw_bytes_written := w\<rparr> =
      with_buffer b r (e\<lparr>dx_header_sent := True, dx_raw_bytes_written := w\<rparr>)"
    "(with_buffer b r d)\<lparr>dx_writes := []\<rparr> = with_buffer b r (d\<lparr>dx_writes := []\<rparr>)"
    "dx_raw_bytes_written (with_buffer b r e) = dx_raw_bytes_written e" for e w
    by (simp_all add: with_buffer_def)
  show ?thesis
    using assms(2) unfolding header_ack_def on_write_ack_def Let_def
    by (simp add: eq with_buffer_connect [OF assms(1)])
qed

lemma header_ack_raw: "discreet env \<Longrightarrow> dx_writes d = [HeaderCtx h] \<Longrightarrow> dx_raw_bytes_read (header_ack env d) = dx_raw_bytes_read d"
  using with_buffer_ack [of env d h "dx_recv_buf d" "dx_raw_bytes_read d"] by (metis with_buffer_simps(2,4))

text \<open>An acknowledgement in the middle of a frame does what it does before the frame.\<close>

lemma ack_inside_frame:
  assumes env: "listens env" and d: "dx_recv_buf d = []" "dx_writes d = [HeaderCtx h]"
    and part: "part = [] \<or> scan_frame part = NoFrame" and buf: "dx_recv_buf (header_ack env d) = []"
  shows "process_incoming_bytes env b (header_ack env (process_incoming_bytes env part d)) =
    process_incoming_bytes env (part @ b) (header_ack env d)"
proof -
  note discreet = listensD(1) [OF env]
  have "header_ack env (process_incoming_bytes env part d) = process_incoming_bytes env part (header_ack env d)"
    by (simp add: process_part [OF discreet d(1) part] process_part [OF discreet buf part] with_buffer_ack [OF discreet d(2)]
        header_ack_raw [OF discreet d(2)])
  then show ?thesis
    by (simp add: process_append [OF discreet listens_dead [OF env]])
qed

lemma ack_receiving:
  assumes env: "listens env" and d: "receiving in_step p d" "\<not> dx_connected d" "dx_alive d" "dx_writes d = [HeaderCtx h]"
  defines "d' \<equiv> header_ack env d"
  shows "receiving in_step p d' \<and> dx_connected d' \<and> dx_recv_buf d' = dx_recv_buf d \<and> inbox d' = inbox d \<and>
    ss_keep_alive_ms (dx_crypto d') = ss_keep_alive_ms (dx_crypto d) \<and> dx_attached d' = dx_attached d"
proof -
  let ?d = "d\<lparr>dx_writes := []\<rparr>"
  have "receiving in_step p ?d" "\<not> dx_connected ?d" "inbox ?d = inbox d"
    using d by (simp_all add: receiving_def inbox_def)
  moreover have "d' = maybe_fire_connect env (?d\<lparr>dx_header_sent := True, dx_raw_bytes_written := dx_raw_bytes_written d + of_nat (length h)\<rparr>)"
    using d by (simp add: d'_def header_ack_def on_write_ack_def)
  ultimately show ?thesis
    using connect_delivers [OF env, of in_step p ?d "dx_raw_bytes_written d + of_nat (length h)"] by simp
qed

text \<open>
  Receiving the header and the messages of the peer, when the own header is acknowledged before the first frame is complete and when
  it is acknowledged later.
\<close>

lemma session_ack_first:
  assumes env: "listens env" and so: "secretstream_sound (de_so env) in_step"
    and d: "awaiting d" "dx_alive d" "dx_writes d = [HeaderCtx h]"
    and rid: "ss_remote_id (dx_crypto d) = rid" "length rid = STREAM_ID_LEN"
    and hb: "length hb = HEADERBYTES" "so_init_pull (de_so env) hb (ss_rx_key (dx_crypto d)) = (q, 0)" "in_step p q"
    and ms: "\<forall>m\<in>set ms. length m \<le> MAX_ATOMIC_WRITE"
  defines "d' \<equiv> process_incoming_bytes env (concat (frame_of (rid @ hb) # snd (seal (de_so env) p ms))) (header_ack env d)"
  shows "dx_recv_buf (header_ack env d) = [] \<and>
    \<not> dx_destroyed d' \<and> dx_connected d' \<and> inbox d' = inbox d @ kept_messages d ms \<and> dx_pending_messages d' = [] \<and>
    ss_keep_alive_ms (dx_crypto d') = ss_keep_alive_ms (dx_crypto d)"
proof -
  let ?d = "d\<lparr>dx_writes := [], dx_header_sent := True, dx_raw_bytes_written := dx_raw_bytes_written d + of_nat (length h)\<rparr>"
  have ack: "header_ack env d = ?d"
    using d by (simp add: header_ack_def on_write_ack_def maybe_fire_connect_def awaiting_def)
  have aw: "awaiting ?d" "dx_header_sent ?d" "inbox ?d = inbox d"
    using d(1) by (simp_all add: awaiting_def inbox_def)
  let ?f = "process_incoming_bytes env (frame_of (rid @ hb)) ?d"
  have f: "receiving in_step p ?f" "dx_recv_buf ?f = []" "inbox ?f = inbox d" "dx_connected ?f"
    "ss_keep_alive_ms (dx_crypto ?f) = ss_keep_alive_ms (dx_crypto d)"
    using header_received [where in_step = in_step and p = p and q = q, OF env aw(1) _ rid(2) hb(1)] rid(1) hb(2,3) aw(2,3) by simp_all
  have d': "d' = process_incoming_bytes env (concat (snd (seal (de_so env) p ms))) ?f"
    unfolding d'_def ack by (simp add: process_append [OF listensD(1) [OF env] listens_dead [OF env]])
  from process_frames [OF env so f(1,2) ms] f(4)
  have "receiving in_step (fst (seal (de_so env) p ms)) d'" "inbox d' = inbox ?f @ kept_messages ?f ms" "same_session ?f d'"
    unfolding d' by simp_all
  then show ?thesis
    using f aw(1) ack by (simp add: receiving_def same_session_def kept_messages_def awaiting_def)
qed

lemma session_ack_later:
  assumes env: "listens env" and so: "secretstream_sound (de_so env) in_step"
    and d: "awaiting d" "\<not> dx_header_sent d" "dx_alive d" "dx_writes d = [HeaderCtx h]"
    and rid: "ss_remote_id (dx_crypto d) = rid" "length rid = STREAM_ID_LEN"
    and hb: "length hb = HEADERBYTES" "so_init_pull (de_so env) hb (ss_rx_key (dx_crypto d)) = (q, 0)" "in_step p q"
    and ms: "\<forall>m\<in>set (ms1 @ ms2). length m \<le> MAX_ATOMIC_WRITE" "length ms1 \<le> 64"
  defines "e \<equiv> process_incoming_bytes env (concat (frame_of (rid @ hb) # snd (seal (de_so env) p ms1))) d"
  defines "d' \<equiv> process_incoming_bytes env (concat (snd (seal (de_so env) (fst (seal (de_so env) p ms1)) ms2))) (header_ack env e)"
  shows "dx_recv_buf e = [] \<and> dx_recv_buf (header_ack env e) = [] \<and> dx_writes e = [HeaderCtx h] \<and>
    \<not> dx_destroyed d' \<and> dx_connected d' \<and> inbox d' = inbox d @ kept_messages d (ms1 @ ms2) \<and> dx_pending_messages d' = [] \<and>
    ss_keep_alive_ms (dx_crypto d') = ss_keep_alive_ms (dx_crypto d)"
proof -
  let ?p = "fst (seal (de_so env) p ms1)"
  let ?f = "process_incoming_bytes env (frame_of (rid @ hb)) d"
  have f: "receiving in_step p ?f" "dx_recv_buf ?f = []" "inbox ?f = inbox d" "\<not> dx_connected ?f" "dx_alive ?f"
    "dx_writes ?f = [HeaderCtx h]" "ss_keep_alive_ms (dx_crypto ?f) = ss_keep_alive_ms (dx_crypto d)" "dx_pending_messages ?f = []"
    using header_received [where in_step = in_step and p = p and q = q, OF env d(1) rid hb] d by simp_all
  have e: "e = process_incoming_bytes env (concat (snd (seal (de_so env) p ms1))) ?f"
    by (simp add: e_def process_append [OF listensD(1) [OF env] listens_dead [OF env]])
  have e': "receiving in_step ?p e" "dx_recv_buf e = []" "inbox e = inbox ?f @ kept_messages ?f ms1" "same_session ?f e"
    using process_frames [OF env so f(1,2), of ms1] ms f(8) unfolding e by simp_all
  have w: "\<not> dx_connected e" "dx_alive e" "dx_writes e = [HeaderCtx h]" "ss_keep_alive_ms (dx_crypto e) = ss_keep_alive_ms (dx_crypto d)"
    using e'(4) f by (simp_all add: same_session_def)
  note ack = ack_receiving [OF env e'(1) w(1-3)]
  have "receiving in_step (fst (seal (de_so env) ?p ms2)) d'" "inbox d' = inbox (header_ack env e) @ kept_messages (header_ack env e) ms2"
    "same_session (header_ack env e) d'"
    using process_frames [OF env so, of ?p "header_ack env e" ms2] ack e'(2) ms(1) unfolding d'_def by simp_all
  then show ?thesis
    using ack e' f w by (simp add: receiving_def same_session_def kept_messages_def)
qed

lemma session_received:
  fixes a b :: bytes and h :: bytes
  assumes env: "listens env" and so: "secretstream_sound (de_so env) in_step"
    and d: "awaiting d" "\<not> dx_header_sent d" "dx_alive d" "dx_writes d = [HeaderCtx h]"
    and rid: "ss_remote_id (dx_crypto d) = rid" "length rid = STREAM_ID_LEN"
    and hb: "length hb = HEADERBYTES" "so_init_pull (de_so env) hb (ss_rx_key (dx_crypto d)) = (q, 0)" "in_step p q"
    and ms: "\<forall>m\<in>set ms. length m \<le> MAX_ATOMIC_WRITE" "a = [] \<or> length ms \<le> 64"
    and ab: "a @ b = concat (frame_of (rid @ hb) # snd (seal (de_so env) p ms))"
  defines "d' \<equiv> process_incoming_bytes env b (header_ack env (process_incoming_bytes env a d))"
  shows "\<not> dx_destroyed d' \<and> dx_connected d' \<and> inbox d' = inbox d @ kept_messages d ms \<and> dx_pending_messages d' = [] \<and>
    ss_keep_alive_ms (dx_crypto d') = ss_keep_alive_ms (dx_crypto d)"
proof -
  note append = process_append [OF listensD(1) [OF env] listens_dead [OF env]]
  let ?hf = "frame_of (rid @ hb)" and ?fs = "snd (seal (de_so env) p ms)"
  from cut_frames [OF ab] obtain fs1 fs2 part where cut: "?hf # ?fs = fs1 @ fs2" "a = concat fs1 @ part" "part @ b = concat fs2"
      "part = [] \<or> (\<exists>f n. fs2 \<noteq> [] \<and> f = hd fs2 \<and> n < length f \<and> part = take n f)"
    by blast
  have "\<forall>f\<in>set (fs1 @ fs2). \<exists>c. f = frame_of c \<and> c \<noteq> [] \<and> length c \<le> MAX_ATOMIC_WRITE + ABYTES"
    using seal_frames [OF so hb(3) ms(1)] rid(2) hb(1) unfolding cut(1) [symmetric]
    by (auto simp: HEADERBYTES_def STREAM_ID_LEN_def MAX_ATOMIC_WRITE_def ABYTES_def intro!: exI [of _ "rid @ hb"])
  then have part: "part = [] \<or> scan_frame part = NoFrame"
    using cut(4) scan_frame_of(2) by (metis Un_iff hd_in_set set_append)
  let ?e = "process_incoming_bytes env (concat fs1) d"
  have d': "d' = process_incoming_bytes env b (header_ack env (process_incoming_bytes env part ?e))"
    by (simp add: d'_def cut(2) append)
  show ?thesis
  proof (cases fs1)
    case Nil
    then have "?e = d" "part @ b = concat (?hf # ?fs)"
      using cut(1,3) by (simp_all add: process_incoming_bytes_def)
    then show ?thesis
      using ack_inside_frame [OF env _ d(4) part, of b] session_ack_first [where p = p and q = q, OF env so d(1,3,4) rid hb ms(1)] d(1)
      by (simp add: d' awaiting_def)
  next
    case (Cons x gs)
    then have gs: "x = ?hf" "?fs = gs @ fs2"
      using cut(1) by simp_all
    define ms1 ms2 where "ms1 = take (length gs) ms" and "ms2 = drop (length gs) ms"
    let ?p = "fst (seal (de_so env) p ms1)"
    have split: "ms = ms1 @ ms2"
      by (simp add: ms1_def ms2_def)
    have "length gs \<le> length ms"
      using gs(2) length_seal [of "de_so env" p ms] by simp
    then have "length gs = length (snd (seal (de_so env) p ms1))"
      by (simp add: length_seal ms1_def)
    moreover have "gs @ fs2 = snd (seal (de_so env) p ms1) @ snd (seal (de_so env) ?p ms2)"
      using gs(2) unfolding split seal_append by simp
    ultimately have sealed: "gs = snd (seal (de_so env) p ms1)" "fs2 = snd (seal (de_so env) ?p ms2)"
      by simp_all
    have "length ms1 \<le> 64"
      using ms(2) cut(2) Cons gs(1) split by (auto simp: frame_of_def write_uint24_le_def)
    from session_ack_later [where p = p and q = q, OF env so d rid hb _ this, of ms2] ms(1)
    show ?thesis
      using ack_inside_frame [OF env _ _ part, of ?e h b] cut(3) sealed(2) unfolding split Cons gs(1) sealed(1)
      by (simp add: d' Cons gs(1) sealed(1))
  qed
qed

end
