(* ===== verification/Secret_Stream_Life.thy ===== *)
theory Secret_Stream_Life
  imports Secret_Stream
begin

text \<open>
  The life of a \<^verbatim>\<open>SecretStreamDuplex\<close> under every sequence of calls, transport callbacks and timers: the order of its events and the nonces
  of its unordered messages.
\<close>

section \<open>Events in order\<close>

definition closed_in :: "DuplexEvent list \<Rightarrow> bool" where
  "closed_in tr \<longleftrightarrow> (\<exists>x. DxClose x \<in> set tr)"

text \<open>What may happen after the events so far.\<close>

fun allowed :: "DuplexEvent list \<Rightarrow> DuplexEvent \<Rightarrow> bool" where
  "allowed tr DxConnect = (DxConnect \<notin> set tr)"
| "allowed tr (DxMessage m) = (DxConnect \<in> set tr \<and> \<not> closed_in tr)"
| "allowed tr DxEnd = (\<not> closed_in tr)"
| "allowed tr (DxUdpMessage m) = (\<not> closed_in tr)"
| "allowed tr (DxClose x) = (\<not> closed_in tr)"
| "allowed tr e = True"

definition ordered :: "DuplexEvent list \<Rightarrow> bool" where
  "ordered tr \<longleftrightarrow> (\<forall>pre e post. tr = pre @ e # post \<longrightarrow> allowed pre e)"

lemma ordered_snoc: "ordered (tr @ [e]) \<longleftrightarrow> ordered tr \<and> allowed tr e"
proof
  assume *: "ordered (tr @ [e])"
  have "ordered tr"
    unfolding ordered_def
  proof (intro allI impI)
    fix pre x post
    assume "tr = pre @ x # post"
    then have "tr @ [e] = pre @ x # (post @ [e])"
      by simp
    with * show "allowed pre x"
      unfolding ordered_def by blast
  qed
  with * show "ordered tr \<and> allowed tr e"
    by (auto simp: ordered_def)
next
  assume *: "ordered tr \<and> allowed tr e"
  show "ordered (tr @ [e])"
    unfolding ordered_def
  proof (intro allI impI)
    fix pre x post
    assume eq: "tr @ [e] = pre @ x # post"
    show "allowed pre x"
    proof (cases post rule: rev_cases)
      case Nil
      with eq * show ?thesis
        by simp
    next
      case (snoc ys y)
      with eq have "tr = pre @ x # ys"
        by simp
      with * show ?thesis
        unfolding ordered_def by blast
    qed
  qed
qed

section \<open>Nonces\<close>

fun le_value :: "bytes \<Rightarrow> nat" where
  "le_value [] = 0"
| "le_value (b # bs) = unat b + 256 * le_value bs"

text \<open>\<^verbatim>\<open>sodium_increment\<close> adds one to a little-endian number, modulo its width.\<close>

definition increments :: "'s Sodium \<Rightarrow> bool" where
  "increments so \<longleftrightarrow>
     (\<forall>n. length (so_increment so n) = length n \<and> le_value (so_increment so n) = (le_value n + 1) mod 256 ^ length n)"

definition sent_nonces :: "DuplexEvent list \<Rightarrow> bytes list" where
  "sent_nonces tr = List.map_filter (\<lambda>e. case e of UdxSend b \<Rightarrow> Some (take 8 b) | _ \<Rightarrow> None) tr"

text \<open>The counter has advanced \<open>k\<close> times, and the nonces sent are those of increasing advances.\<close>

definition nonces_ok :: "'s Duplex \<Rightarrow> bool" where
  "nonces_ok d \<longleftrightarrow>
     length (dx_nonce_counter d) = 8 \<and> length (dx_nonce_initial d) = 8 \<and>
     (\<exists>k js. le_value (dx_nonce_counter d) = (le_value (dx_nonce_initial d) + k) mod 2 ^ 64 \<and>
        (dx_destroyed d \<or> k < 2 ^ 64) \<and> sorted_wrt (<) js \<and> (\<forall>j\<in>set js. 0 < j \<and> j \<le> k \<and> j < 2 ^ 64) \<and>
        map le_value (sent_nonces (dx_trace d)) = map (\<lambda>j. (le_value (dx_nonce_initial d) + j) mod 2 ^ 64) js)"

lemma le_value_bound: "le_value bs < 256 ^ length bs"
proof (induction bs)
  case (Cons b bs)
  have "unat b < 256"
    using unsigned_less [of b] by simp
  with Cons show ?case
    by simp
qed simp

lemma digit_unique:
  fixes x y a b :: nat
  assumes "x < 256" and "y < 256" and "x + 256 * a = y + 256 * b"
  shows "x = y \<and> a = b"
proof -
  have "(x + 256 * a) mod 256 = (y + 256 * b) mod 256" "(x + 256 * a) div 256 = (y + 256 * b) div 256"
    using assms(3) by simp_all
  with assms(1,2) show ?thesis
    by simp
qed

lemma le_value_inject: "length a = length b \<Longrightarrow> le_value a = le_value b \<Longrightarrow> a = b"
proof (induction a b rule: list_induct2)
  case (Cons x xs y ys)
  have "unat x < 256" "unat y < 256"
    using unsigned_less [of x] unsigned_less [of y] by simp_all
  then have "unat x = unat y \<and> le_value xs = le_value ys"
    using Cons.prems(1) by (intro digit_unique) simp_all
  with Cons.IH show ?case
    by (simp add: word_unat_eq_iff)
qed simp

lemma offsets_distinct:
  fixes a :: nat
  assumes "sorted_wrt (<) js" and "\<forall>j\<in>set js. j < n"
  shows "distinct (map (\<lambda>j. (a + j) mod n) js)"
proof -
  have "inj_on (\<lambda>j. (a + j) mod n) (set js)"
  proof (rule inj_onI)
    fix i j
    assume "i \<in> set js" "j \<in> set js" "(a + i) mod n = (a + j) mod n"
    then obtain x y where "a + i + n * x = a + j + n * y" and less: "i < n" "j < n"
      using assms(2) by (auto simp: nat_mod_eq_iff)
    then have "(i + n * x) mod n = (j + n * y) mod n"
      by (simp add: add.assoc)
    with less show "i = j"
      by simp
  qed
  then show ?thesis
    using assms(1) by (simp add: distinct_map strict_sorted_iff)
qed

lemma nonces_distinct: "nonces_ok d \<Longrightarrow> distinct (sent_nonces (dx_trace d))"
proof -
  assume "nonces_ok d"
  then obtain js where "sorted_wrt (<) js" "\<forall>j\<in>set js. j < 2 ^ 64"
      "map le_value (sent_nonces (dx_trace d)) = map (\<lambda>j. (le_value (dx_nonce_initial d) + j) mod 2 ^ 64) js"
    by (auto simp: nonces_ok_def)
  then have "distinct (map le_value (sent_nonces (dx_trace d)))"
    using offsets_distinct by simp
  then show ?thesis
    by (simp add: distinct_map)
qed

section \<open>The invariant\<close>

definition duplex_ok :: "'s Duplex \<Rightarrow> bool" where
  "duplex_ok d \<longleftrightarrow>
     dx_raw_stream d \<and> dx_on_connect d \<and> ordered (dx_trace d) \<and> (dx_connected d \<longleftrightarrow> DxConnect \<in> set (dx_trace d)) \<and>
     (closed_in (dx_trace d) \<longrightarrow> dx_on_close_fired d) \<and> (dx_on_close_fired d \<longrightarrow> dx_destroyed d \<and> \<not> dx_attached d) \<and>
     length (dx_pending_messages d) \<le> (if dx_destroyed d then 65 else 64) \<and> nonces_ok d"

fun neutral :: "DuplexEvent \<Rightarrow> bool" where
  "neutral UdxReadStart = True"
| "neutral UdxRecvStart = True"
| "neutral (UdxWrite b) = True"
| "neutral UdxWriteEnd = True"
| "neutral UdxDestroy = True"
| "neutral (DxWriteDone c s) = True"
| "neutral e = False"

text \<open>A step that calls UDX but neither sends an unordered message nor tells the application about the stream.\<close>

definition quiet_step :: "'s Duplex \<Rightarrow> 's Duplex \<Rightarrow> bool" where
  "quiet_step d d' \<longleftrightarrow>
     dx_raw_stream d' = dx_raw_stream d \<and> dx_on_connect d' = dx_on_connect d \<and> dx_connected d' = dx_connected d \<and>
     dx_on_close_fired d' = dx_on_close_fired d \<and> (dx_destroyed d \<longrightarrow> dx_destroyed d') \<and>
     (dx_attached d' \<longrightarrow> dx_attached d \<or> \<not> dx_destroyed d) \<and>
     dx_pending_messages d' = dx_pending_messages d \<and> dx_nonce_counter d' = dx_nonce_counter d \<and>
     dx_nonce_initial d' = dx_nonce_initial d \<and> (\<exists>es. dx_trace d' = dx_trace d @ es \<and> (\<forall>e\<in>set es. neutral e))"

lemma ordered_neutral: "\<forall>e\<in>set es. neutral e \<Longrightarrow> ordered (tr @ es) = ordered tr"
proof (induction es rule: rev_induct)
  case (snoc e es)
  have "allowed (tr @ es) e"
    using snoc.prems by (cases e) auto
  with snoc show ?case
    using ordered_snoc [of "tr @ es" e] by simp
qed simp

lemma neutral_events:
  assumes "\<forall>e\<in>set es. neutral e"
  shows "closed_in (tr @ es) = closed_in tr" and "DxConnect \<in> set (tr @ es) \<longleftrightarrow> DxConnect \<in> set tr"
    and "sent_nonces (tr @ es) = sent_nonces tr"
proof -
  show "closed_in (tr @ es) = closed_in tr" "DxConnect \<in> set (tr @ es) \<longleftrightarrow> DxConnect \<in> set tr"
    using assms by (fastforce simp: closed_in_def)+
  have "sent_nonces es = []"
    using assms
  proof (induction es)
    case (Cons e es)
    then show ?case
      by (cases e) (auto simp: sent_nonces_def List.map_filter_simps)
  qed (simp add: sent_nonces_def List.map_filter_simps)
  then show "sent_nonces (tr @ es) = sent_nonces tr"
    by (simp add: sent_nonces_def List.map_filter_def)
qed

lemma duplex_ok_quiet:
  assumes "duplex_ok d" and "quiet_step d d'"
  shows "duplex_ok d'"
proof -
  obtain es where es: "dx_trace d' = dx_trace d @ es" "\<forall>e\<in>set es. neutral e"
    using assms(2) by (auto simp: quiet_step_def)
  have "nonces_ok d'"
    using assms es unfolding duplex_ok_def quiet_step_def nonces_ok_def by (auto simp: neutral_events(3) [OF es(2)])
  moreover have "length (dx_pending_messages d') \<le> (if dx_destroyed d' then 65 else 64)"
    using assms unfolding duplex_ok_def quiet_step_def by (auto split: if_splits)
  ultimately show ?thesis
    using assms es unfolding duplex_ok_def quiet_step_def
    by (auto simp: neutral_events [OF es(2)] ordered_neutral [OF es(2)] simp del: set_append)
qed

lemma quiet_refl [simp]: "quiet_step d d"
  by (simp add: quiet_step_def)

lemma quiet_trans: "quiet_step d d' \<Longrightarrow> quiet_step d' d'' \<Longrightarrow> quiet_step d d''"
  unfolding quiet_step_def by (elim conjE exE) (auto intro: exI [of _ "_ @ _"])

lemma quiet_if: "quiet_step d a \<Longrightarrow> quiet_step d b \<Longrightarrow> quiet_step d (if P then a else b)"
  by simp

lemma quiet_emit: "neutral e \<Longrightarrow> quiet_step d (dx_emit e d)"
  by (simp add: quiet_step_def dx_emit_def)

lemma quiet_update:
  "quiet_step d (d\<lparr>dx_crypto := c\<rparr>)" "quiet_step d (d\<lparr>dx_writes := ws\<rparr>)" "quiet_step d (d\<lparr>dx_ended := x\<rparr>)"
  "quiet_step d (d\<lparr>dx_header_sent := x\<rparr>)" "quiet_step d (d\<lparr>dx_calls := n\<rparr>)" "quiet_step d (d\<lparr>dx_raw_bytes_written := w\<rparr>)"
  "quiet_step d (d\<lparr>dx_raw_bytes_read := w\<rparr>)" "quiet_step d (d\<lparr>dx_recv_buf := b\<rparr>)" "quiet_step d (d\<lparr>dx_now := n\<rparr>)"
  "quiet_step d (d\<lparr>dx_header_received := x\<rparr>)" "quiet_step d (d\<lparr>dx_close_error := z\<rparr>)" "quiet_step d (d\<lparr>dx_started := x\<rparr>)"
  "quiet_step d (d\<lparr>dx_destroyed := True\<rparr>)" "quiet_step d (d\<lparr>dx_attached := False\<rparr>)"
  "\<not> dx_destroyed d \<Longrightarrow> quiet_step d (d\<lparr>dx_attached := True\<rparr>)"
  by (simp_all add: quiet_step_def)

section \<open>Calls keep the invariant\<close>

lemma quiet_destroy: "dx_raw_stream d \<Longrightarrow> quiet_step d (dx_destroy env x d)"
  by (simp add: dx_destroy_def dx_emit_def quiet_step_def Let_def)

lemma quiet_call: "neutral e \<Longrightarrow> quiet_step d (snd (udx_call env e d))"
  by (simp add: udx_call_def dx_emit_def quiet_step_def)

lemma quiet_write: "quiet_step d (snd (dx_write env data cb d))"
  unfolding dx_write_def Let_def by (simp add: quiet_step_def udx_call_def dx_emit_def split: prod.split)

lemma quiet_end: "dx_raw_stream d \<Longrightarrow> quiet_step d (dx_end env d)"
proof -
  assume raw: "dx_raw_stream d"
  let ?d = "snd (udx_call env UdxWriteEnd (d\<lparr>dx_ended := True\<rparr>))"
  have "quiet_step d ?d" "dx_raw_stream ?d"
    using raw by (simp_all add: quiet_step_def udx_call_def dx_emit_def)
  note d = this
  have "dx_end env d = (if dx_ended d \<or> dx_destroyed d then d
      else if de_rc env (dx_calls d) < 0 then dx_destroy env (de_rc env (dx_calls d)) ?d else ?d)"
    by (simp add: dx_end_def udx_call_def Let_def)
  then show ?thesis
    by (simp only:) (intro quiet_if quiet_refl d(1) quiet_trans [OF d(1) quiet_destroy [OF d(2)]])
qed

lemma quiet_timers: "quiet_step d (dx_set_timeout ms d)" "quiet_step d (dx_set_keep_alive ms d)"
  by (simp_all add: dx_set_timeout_def dx_set_keep_alive_def quiet_update)

lemma quiet_header:
  assumes "dx_raw_stream d"
  shows "quiet_step d (send_header_frame env d)"
proof -
  let ?h = "fst (create_header_message (dx_crypto d))"
  let ?d = "snd (udx_call env (UdxWrite ?h) (d\<lparr>dx_crypto := snd (create_header_message (dx_crypto d)), dx_header_sent := False\<rparr>))"
  have d: "quiet_step d ?d" "dx_raw_stream ?d"
    using assms by (simp_all add: quiet_step_def udx_call_def dx_emit_def)
  have "send_header_frame env d =
      (if de_rc env (dx_calls d) < 0 then dx_destroy env (de_rc env (dx_calls d)) ?d else ?d\<lparr>dx_writes := dx_writes ?d @ [HeaderCtx ?h]\<rparr>)"
    by (simp add: send_header_frame_def udx_call_def split_beta Let_def)
  then show ?thesis
    by (simp only:) (intro quiet_if quiet_trans [OF d(1) quiet_destroy [OF d(2)]] quiet_trans [OF d(1) quiet_update(2)])
qed

lemma quiet_start:
  assumes "dx_raw_stream d"
  shows "quiet_step d (dx_start env d)"
proof (cases "dx_started d \<or> dx_destroyed d")
  case False
  let ?a = "d\<lparr>dx_started := True, dx_attached := True\<rparr>"
  let ?b = "dx_emit UdxReadStart ?a"
  let ?c = "if do_enable_send (dx_opts ?b) then dx_emit UdxRecvStart ?b else ?b"
  let ?d = "send_header_frame env ?c"
  let ?e = "if do_keep_alive_ms (dx_opts ?d) > 0 then dx_set_keep_alive (do_keep_alive_ms (dx_opts ?d)) ?d else ?d"
  have c: "quiet_step d ?c" "dx_raw_stream ?c"
    using assms False by (simp_all add: quiet_step_def dx_emit_def)
  have d: "quiet_step d ?d"
    by (rule quiet_trans [OF c(1) quiet_header [OF c(2)]])
  have e: "quiet_step d ?e"
    by (intro quiet_if d quiet_trans [OF d quiet_timers(2)])
  have "quiet_step d (if do_timeout_ms (dx_opts ?e) > 0 then dx_set_timeout (do_timeout_ms (dx_opts ?e)) ?e else ?e)"
    by (intro quiet_if e quiet_trans [OF e quiet_timers(1)])
  then show ?thesis
    using False unfolding dx_start_def Let_def by (simp only: if_False)
qed (simp add: dx_start_def)

text \<open>Sending an unordered message advances the counter by one.\<close>

lemma nonces_advance:
  assumes so: "increments so" and d: "nonces_ok d" "\<not> dx_destroyed d"
    and d': "dx_nonce_counter d' = so_increment so (dx_nonce_counter d)" "dx_nonce_initial d' = dx_nonce_initial d"
    and alt: "dx_destroyed d' \<and> sent_nonces (dx_trace d') = sent_nonces (dx_trace d) \<or>
      dx_nonce_counter d' \<noteq> dx_nonce_initial d \<and>
      (sent_nonces (dx_trace d') = sent_nonces (dx_trace d) \<or> sent_nonces (dx_trace d') = sent_nonces (dx_trace d) @ [dx_nonce_counter d'])"
  shows "nonces_ok d'"
proof -
  let ?a = "le_value (dx_nonce_initial d)"
  obtain k js where k: "le_value (dx_nonce_counter d) = (?a + k) mod 2 ^ 64" "k < 2 ^ 64" "sorted_wrt (<) js"
      "\<forall>j\<in>set js. 0 < j \<and> j \<le> k \<and> j < 2 ^ 64" "map le_value (sent_nonces (dx_trace d)) = map (\<lambda>j. (?a + j) mod 2 ^ 64) js"
    and len: "length (dx_nonce_counter d) = 8" "length (dx_nonce_initial d) = 8"
    using d by (auto simp: nonces_ok_def)
  have len': "length (dx_nonce_counter d') = 8"
    using so len d'(1) by (simp add: increments_def)
  have "le_value (dx_nonce_counter d') = (le_value (dx_nonce_counter d) + 1) mod 2 ^ 64"
    using so len d'(1) by (simp add: increments_def)
  then have k': "le_value (dx_nonce_counter d') = (?a + Suc k) mod 2 ^ 64"
    using k(1) by (simp add: mod_Suc_eq)
  have fresh: "dx_nonce_counter d' \<noteq> dx_nonce_initial d \<Longrightarrow> Suc k < 2 ^ 64"
  proof (rule ccontr)
    assume "dx_nonce_counter d' \<noteq> dx_nonce_initial d" "\<not> Suc k < 2 ^ 64"
    then have "Suc k = 2 ^ 64"
      using k(2) by simp
    then have "le_value (dx_nonce_counter d') = ?a"
      using k' le_value_bound [of "dx_nonce_initial d"] len(2) by simp
    then show False
      using le_value_inject [of "dx_nonce_counter d'" "dx_nonce_initial d"] len(2) len' \<open>dx_nonce_counter d' \<noteq> dx_nonce_initial d\<close> by simp
  qed
  have js: "\<forall>j\<in>set js. 0 < j \<and> j \<le> Suc k \<and> j < 2 ^ 64"
    using k(4) by auto
  show ?thesis
  proof (cases "sent_nonces (dx_trace d') = sent_nonces (dx_trace d)")
    case True
    moreover have "dx_destroyed d' \<or> Suc k < 2 ^ 64"
      using alt fresh by blast
    ultimately show ?thesis
      unfolding nonces_ok_def using k(3,5) k' js len len' d'(2) by (auto intro!: exI [of _ "Suc k"] exI [of _ js])
  next
    case False
    then have sent: "sent_nonces (dx_trace d') = sent_nonces (dx_trace d) @ [dx_nonce_counter d']" "Suc k < 2 ^ 64"
      using alt fresh by blast+
    have "sorted_wrt (<) (js @ [Suc k])" "\<forall>j\<in>set (js @ [Suc k]). 0 < j \<and> j \<le> Suc k \<and> j < 2 ^ 64"
      using k(3,4) sent(2) by (auto simp: sorted_wrt_append less_Suc_eq_le)
    moreover have "map le_value (sent_nonces (dx_trace d')) = map (\<lambda>j. (?a + j) mod 2 ^ 64) (js @ [Suc k])"
      using sent(1) k(5) k' by simp
    ultimately show ?thesis
      unfolding nonces_ok_def using k' sent(2) len len' d'(2) by metis
  qed
qed

lemma box_cases:
  assumes "dx_raw_stream d"
  obtains "box_message env data d = ([], d\<lparr>dx_nonce_counter := so_increment (de_so env) (dx_nonce_counter d)\<rparr>)"
    and "so_increment (de_so env) (dx_nonce_counter d) \<noteq> dx_nonce_initial d"
  | box where "box_message env data d =
      (so_increment (de_so env) (dx_nonce_counter d) @ box, d\<lparr>dx_nonce_counter := so_increment (de_so env) (dx_nonce_counter d)\<rparr>)"
    and "so_increment (de_so env) (dx_nonce_counter d) \<noteq> dx_nonce_initial d"
  | "box_message env data d = ([], dx_destroy env (-7) (d\<lparr>dx_nonce_counter := so_increment (de_so env) (dx_nonce_counter d)\<rparr>))"
proof (cases "so_increment (de_so env) (dx_nonce_counter d) = dx_nonce_initial d")
  case False
  obtain box rc where "so_secretbox_easy (de_so env) data (secretbox_nonce (so_increment (de_so env) (dx_nonce_counter d))) (dx_secretbox_tx_key d) = (box, rc)"
    by (metis surj_pair)
  with False that(1,2) show ?thesis
    by (cases "rc = 0") (simp_all add: box_message_def Let_def)
qed (use that(3) in \<open>simp add: box_message_def Let_def\<close>)

text \<open>A step that changes the nonces only.\<close>

lemma duplex_ok_nonces:
  assumes "duplex_ok d" and "\<not> dx_destroyed d" and "increments (de_so env)"
    and "so_increment (de_so env) (dx_nonce_counter d) \<noteq> dx_nonce_initial d"
  shows "duplex_ok (d\<lparr>dx_nonce_counter := so_increment (de_so env) (dx_nonce_counter d)\<rparr>)"
    and "duplex_ok (d\<lparr>dx_nonce_counter := so_increment (de_so env) (dx_nonce_counter d), dx_calls := n,
      dx_trace := dx_trace d @ [UdxSend (so_increment (de_so env) (dx_nonce_counter d) @ box)]\<rparr>)"
proof -
  let ?n = "so_increment (de_so env) (dx_nonce_counter d)"
  have len: "length ?n = 8"
    using assms(1,3) by (simp add: duplex_ok_def nonces_ok_def increments_def)
  have ok: "nonces_ok d"
    using assms(1) by (simp add: duplex_ok_def)
  have "nonces_ok (d\<lparr>dx_nonce_counter := ?n\<rparr>)"
    using assms(4) by (intro nonces_advance [OF assms(3) ok assms(2)]) simp_all
  then show "duplex_ok (d\<lparr>dx_nonce_counter := ?n\<rparr>)"
    using assms(1) by (simp add: duplex_ok_def)
  have "sent_nonces (dx_trace d @ [UdxSend (?n @ box)]) = sent_nonces (dx_trace d) @ [?n]"
    using len by (simp add: sent_nonces_def List.map_filter_def)
  then have "nonces_ok (d\<lparr>dx_nonce_counter := ?n, dx_calls := n, dx_trace := dx_trace d @ [UdxSend (?n @ box)]\<rparr>)"
    using assms(4) by (intro nonces_advance [OF assms(3) ok assms(2)]) simp_all
  moreover have "closed_in (dx_trace d @ [UdxSend (?n @ box)]) = closed_in (dx_trace d)"
    by (simp add: closed_in_def)
  ultimately show "duplex_ok (d\<lparr>dx_nonce_counter := ?n, dx_calls := n, dx_trace := dx_trace d @ [UdxSend (?n @ box)]\<rparr>)"
    using assms(1) by (simp add: duplex_ok_def ordered_snoc)
qed

lemma duplex_ok_exhausted:
  assumes "duplex_ok d" and "\<not> dx_destroyed d" and "increments (de_so env)"
  shows "duplex_ok (dx_destroy env x (d\<lparr>dx_nonce_counter := so_increment (de_so env) (dx_nonce_counter d)\<rparr>))"
proof -
  let ?n = "so_increment (de_so env) (dx_nonce_counter d)"
  let ?d = "dx_destroy env x (d\<lparr>dx_nonce_counter := ?n\<rparr>)"
  have d: "?d = d\<lparr>dx_nonce_counter := ?n, dx_destroyed := True, dx_close_error := x, dx_crypto := stop_timers (dx_crypto d),
      dx_trace := dx_trace d @ [UdxDestroy]\<rparr>"
    using assms(1,2) by (simp add: dx_destroy_def dx_emit_def duplex_ok_def)
  have tr: "sent_nonces (dx_trace d @ [UdxDestroy]) = sent_nonces (dx_trace d)" "closed_in (dx_trace d @ [UdxDestroy]) = closed_in (dx_trace d)"
    by (simp_all add: neutral_events)
  have "nonces_ok d"
    using assms(1) by (simp add: duplex_ok_def)
  then have "nonces_ok ?d"
    unfolding d by (rule nonces_advance [OF assms(3) _ assms(2)]) (simp_all add: tr)
  then show ?thesis
    using assms(1,2) unfolding d duplex_ok_def by (auto simp: tr ordered_snoc)
qed

lemma duplex_ok_send:
  assumes "duplex_ok d" and "increments (de_so env)"
  shows "duplex_ok (snd (send_udp env data d))"
proof (cases "dx_destroyed d \<or> \<not> dx_send_state_ready d")
  case False
  then have "\<not> dx_destroyed d" "dx_raw_stream d"
    using assms(1) by (simp_all add: duplex_ok_def)
  note ok = duplex_ok_nonces [OF assms(1) this(1) assms(2)] duplex_ok_exhausted [OF assms(1) this(1) assms(2)]
  from \<open>dx_raw_stream d\<close> show ?thesis
  proof (cases rule: box_cases [of d env data])
    case 1
    then show ?thesis
      using ok(1) False by (simp add: send_udp_def)
  next
    case (2 box)
    then show ?thesis
      using ok(1) ok(2) [where n = "Suc (dx_calls d)" and box = box] False
      by (auto simp: send_udp_def udx_call_def dx_emit_def)
  next
    case 3
    then show ?thesis
      using ok(3) False by (simp add: send_udp_def)
  qed
qed (use assms(1) in \<open>simp add: send_udp_def\<close>)

lemma duplex_ok_raw: "duplex_ok d \<Longrightarrow> dx_raw_stream d"
  by (simp add: duplex_ok_def)

lemma duplex_ok_call:
  assumes "duplex_ok d" and "increments (de_so env)"
  shows "duplex_ok (duplex_call env c d)"
  using duplex_ok_send [OF assms] duplex_ok_quiet [OF assms(1)] duplex_ok_raw [OF assms(1)]
  by (cases c) (simp_all add: quiet_start quiet_write quiet_end quiet_destroy quiet_timers try_send_udp_def)

lemma call_connected: "dx_raw_stream d \<Longrightarrow> dx_connected (duplex_call env c d) = dx_connected d"
proof -
  assume raw: "dx_raw_stream d"
  have quiet: "dx_connected d' = dx_connected d" if "quiet_step d d'" for d'
    using that by (simp add: quiet_step_def)
  have "dx_connected (snd (send_udp env data d)) = dx_connected d" for data
    by (cases rule: box_cases [OF raw, of env data])
      (simp_all add: send_udp_def udx_call_def dx_emit_def dx_destroy_def raw Let_def)
  then show ?thesis
    using raw by (cases c)
      (simp_all add: quiet [OF quiet_start] quiet [OF quiet_write] quiet [OF quiet_end] quiet [OF quiet_destroy] quiet [OF quiet_timers(1)]
        quiet [OF quiet_timers(2)] try_send_udp_def)
qed

section \<open>Callbacks keep the invariant\<close>

text \<open>In its callbacks the application calls the stream, in any way.\<close>

definition calls_only :: "'s DuplexEnv \<Rightarrow> bool" where
  "calls_only env \<longleftrightarrow> increments (de_so env) \<and> (\<forall>e d. \<exists>cs. de_app env e d = duplex_calls env cs d)"

lemma duplex_ok_calls:
  assumes "increments (de_so env)" and "duplex_ok d"
  shows "duplex_ok (duplex_calls env cs d) \<and> dx_connected (duplex_calls env cs d) = dx_connected d"
  using assms(2)
proof (induction cs arbitrary: d)
  case (Cons c cs)
  from Cons.IH [OF duplex_ok_call [OF Cons.prems assms(1), of c]] show ?case
    by (simp add: duplex_calls_def call_connected [OF duplex_ok_raw [OF Cons.prems]])
qed (simp add: duplex_calls_def)

lemma duplex_ok_fire:
  assumes "calls_only env" and "duplex_ok (dx_emit e d)"
  shows "duplex_ok (dx_fire env e d) \<and> dx_connected (dx_fire env e d) = dx_connected d"
proof -
  obtain cs where "de_app env e (dx_emit e d) = duplex_calls env cs (dx_emit e d)"
    using assms(1) by (auto simp: calls_only_def)
  then show ?thesis
    using duplex_ok_calls [OF _ assms(2)] assms(1) by (simp add: dx_fire_def calls_only_def) (simp add: dx_emit_def)
qed

lemma duplex_ok_emit:
  assumes "duplex_ok d"
  shows "dx_connected d \<Longrightarrow> \<not> dx_destroyed d \<Longrightarrow> duplex_ok (dx_emit (DxMessage m) d)"
    and "dx_attached d \<Longrightarrow> duplex_ok (dx_emit DxEnd d)"
    and "dx_attached d \<Longrightarrow> duplex_ok (dx_emit (DxUdpMessage m) d)"
    and "duplex_ok (dx_emit (DxWriteDone c status) d)"
    and "\<not> dx_connected d \<Longrightarrow> duplex_ok (dx_emit DxConnect (d\<lparr>dx_connected := True\<rparr>))"
    and "\<not> dx_on_close_fired d \<Longrightarrow> dx_destroyed d \<Longrightarrow> \<not> dx_attached d \<Longrightarrow> duplex_ok (dx_emit (DxClose err) (d\<lparr>dx_on_close_fired := True\<rparr>))"
proof -
  have sent: "sent_nonces (tr @ [e]) = sent_nonces tr" if "\<forall>b. e \<noteq> UdxSend b" for tr e
    using that by (cases e) (simp_all add: sent_nonces_def List.map_filter_def)
  have closed: "closed_in (tr @ [e]) = closed_in tr" if "\<forall>x. e \<noteq> DxClose x" for tr e
    using that by (auto simp: closed_in_def)
  have closed': "closed_in (dx_trace d) \<longrightarrow> dx_on_close_fired d" "dx_on_close_fired d \<longrightarrow> dx_destroyed d \<and> \<not> dx_attached d"
    using assms by (simp_all add: duplex_ok_def)
  show "dx_connected d \<Longrightarrow> \<not> dx_destroyed d \<Longrightarrow> duplex_ok (dx_emit (DxMessage m) d)"
    "dx_attached d \<Longrightarrow> duplex_ok (dx_emit DxEnd d)" "dx_attached d \<Longrightarrow> duplex_ok (dx_emit (DxUdpMessage m) d)"
    "duplex_ok (dx_emit (DxWriteDone c status) d)"
    "\<not> dx_connected d \<Longrightarrow> duplex_ok (dx_emit DxConnect (d\<lparr>dx_connected := True\<rparr>))"
    using assms closed' by (auto simp: duplex_ok_def nonces_ok_def dx_emit_def ordered_snoc sent closed)
  show "\<not> dx_on_close_fired d \<Longrightarrow> dx_destroyed d \<Longrightarrow> \<not> dx_attached d \<Longrightarrow>
      duplex_ok (dx_emit (DxClose err) (d\<lparr>dx_on_close_fired := True\<rparr>))"
    using assms closed' by (auto simp: duplex_ok_def nonces_ok_def dx_emit_def ordered_snoc sent)
qed

lemma duplex_ok_close: "calls_only env \<Longrightarrow> duplex_ok d \<Longrightarrow> duplex_ok (on_udx_close env err d)"
proof -
  assume env: "calls_only env" and ok: "duplex_ok d"
  let ?d = "d\<lparr>dx_attached := False, dx_destroyed := True\<rparr>"
  have d: "duplex_ok ?d"
    by (rule duplex_ok_quiet [OF ok]) (simp add: quiet_step_def)
  have "duplex_ok (fire_close env x ?d)" for x
  proof (cases "dx_on_close_fired d")
    case False
    have quiet: "duplex_ok (?d\<lparr>dx_on_close_fired := True\<rparr>)"
      using d by (simp add: duplex_ok_def nonces_ok_def)
    have "duplex_ok (dx_emit (DxClose x) (?d\<lparr>dx_on_close_fired := True\<rparr>))"
      using False by (intro duplex_ok_emit(6) [OF d]) simp_all
    from duplex_ok_fire [OF env this] quiet False show ?thesis
      by (simp add: fire_close_def Let_def)
  qed (use d in \<open>simp add: fire_close_def\<close>)
  then show ?thesis
    using ok by (simp add: on_udx_close_def Let_def)
qed

lemma duplex_ok_replay:
  assumes env: "calls_only env"
  shows "duplex_ok d \<Longrightarrow> dx_connected d \<Longrightarrow> duplex_ok (replay_pending env ms d)"
proof (induction ms arbitrary: d)
  case (Cons m ms)
  show ?case
  proof (cases "dx_destroyed d \<or> \<not> dx_on_message d")
    case False
    then have "duplex_ok (dx_emit (DxMessage m) d)"
      using duplex_ok_emit(1) [OF Cons.prems] by simp
    from duplex_ok_fire [OF env this] Cons show ?thesis
      using False by simp
  qed (use Cons.prems in simp)
qed simp

lemma duplex_ok_drained: "duplex_ok d \<Longrightarrow> duplex_ok (d\<lparr>dx_pending_messages := []\<rparr>)"
  unfolding duplex_ok_def nonces_ok_def by simp

lemma duplex_ok_connect:
  assumes env: "calls_only env" and d: "duplex_ok d"
  shows "duplex_ok (maybe_fire_connect env d)"
proof (cases "dx_connected d \<or> \<not> dx_header_sent d \<or> \<not> dx_header_received d")
  case False
  let ?d = "dx_fire env DxConnect (d\<lparr>dx_connected := True\<rparr>)"
  have "duplex_ok (dx_emit DxConnect (d\<lparr>dx_connected := True\<rparr>))"
    using False by (intro duplex_ok_emit(5) [OF d]) simp
  note fire = duplex_ok_fire [OF env this]
  have "duplex_ok (?d\<lparr>dx_pending_messages := []\<rparr>)" "dx_connected (?d\<lparr>dx_pending_messages := []\<rparr>)"
    using fire by (simp_all add: duplex_ok_drained)
  from duplex_ok_replay [OF env this] show ?thesis
    using False d by (simp add: maybe_fire_connect_def duplex_ok_def Let_def)
qed (use d in \<open>auto simp: maybe_fire_connect_def\<close>)

lemma duplex_ok_frame:
  assumes env: "calls_only env" and d: "duplex_ok d" and live: "\<not> dx_destroyed d"
  shows "duplex_ok (handle_frame env msg d)"
proof (cases "dx_header_received d")
  case False
  obtain ok crypto where r: "receive_header (de_so env) msg (dx_crypto d) = (ok, crypto)"
    by (metis surj_pair)
  let ?d = "d\<lparr>dx_crypto := crypto\<rparr>"
  have ok': "duplex_ok ?d" "duplex_ok (?d\<lparr>dx_header_received := True\<rparr>)"
    by (rule duplex_ok_quiet [OF d], simp add: quiet_step_def)+
  have "duplex_ok (dx_destroy env x d)" "duplex_ok (dx_destroy env x ?d)" for x
    using duplex_ok_quiet quiet_destroy duplex_ok_raw d ok'(1) by blast+
  with r False duplex_ok_connect [OF env ok'(2)] show ?thesis
    by (simp add: handle_frame_def Let_def)
next
  case True
  obtain plain crypto where r: "decrypt (de_so env) (dx_now d) msg (dx_crypto d) = (plain, crypto)"
    by (metis surj_pair)
  let ?d = "d\<lparr>dx_crypto := crypto\<rparr>"
  have ok: "duplex_ok ?d"
    by (rule duplex_ok_quiet [OF d]) (simp add: quiet_step_def)
  have fire: "dx_connected d \<Longrightarrow> duplex_ok (dx_fire env (DxMessage pt) ?d)" for pt
    using duplex_ok_fire [OF env duplex_ok_emit(1) [OF ok]] live by simp
  have queue: "duplex_ok (let d = ?d\<lparr>dx_pending_messages := dx_pending_messages ?d @ [pt]\<rparr>
      in if length (dx_pending_messages d) > 64 then dx_destroy env (-7) d else d)" for pt
    using ok live
    by (auto simp: duplex_ok_def nonces_ok_def dx_destroy_def dx_emit_def ordered_snoc neutral_events Let_def)
  show ?thesis
    using True r ok fire queue by (simp add: handle_frame_def Let_def split: option.split)
qed

lemma duplex_ok_loop: "calls_only env \<Longrightarrow> duplex_ok d \<Longrightarrow> duplex_ok (extract_loop n env d)"
proof (induction n arbitrary: d)
  case (Suc n)
  have "duplex_ok (dx_destroy env x d)" for x
    using duplex_ok_quiet quiet_destroy duplex_ok_raw Suc.prems(2) by blast
  moreover have "\<not> dx_destroyed d \<Longrightarrow> duplex_ok (handle_frame env body (d\<lparr>dx_recv_buf := b\<rparr>))" for body b
    using duplex_ok_frame [OF Suc.prems(1) duplex_ok_quiet [OF Suc.prems(2) quiet_update(8)]] by simp
  ultimately show ?case
    using Suc by (simp add: extract_loop.simps(2) try_extract_frame_def Let_def)
qed simp

lemma duplex_ok_step:
  assumes env: "calls_only env" and d: "duplex_ok d"
  shows "duplex_ok (duplex_step env d s)"
proof (cases s)
  case (StepRead r)
  have "duplex_ok (process_incoming_bytes env b d)" for b
    using duplex_ok_loop [OF env duplex_ok_quiet [OF d], of "d\<lparr>dx_raw_bytes_read := _, dx_recv_buf := _\<rparr>"] d
    by (simp add: process_incoming_bytes_def quiet_step_def Let_def del: extract_loop.simps)
  moreover have "duplex_ok (dx_destroy env x d)" for x
    using duplex_ok_quiet quiet_destroy duplex_ok_raw d by blast
  ultimately show ?thesis
    using StepRead duplex_ok_fire [OF env duplex_ok_emit(2) [OF d]] d by (cases r) (simp_all add: on_udx_read_def)
next
  case (StepMessage b)
  then show ?thesis
    using duplex_ok_fire [OF env duplex_ok_emit(3) [OF d]] d by (simp add: on_udx_recv_message_def split: option.split)
next
  case (StepAck i status)
  let ?d = "d\<lparr>dx_writes := take i (dx_writes d) @ drop (Suc i) (dx_writes d)\<rparr>"
  have ok: "duplex_ok ?d" "duplex_ok (?d\<lparr>dx_raw_bytes_written := w\<rparr>)"
    "duplex_ok (?d\<lparr>dx_header_sent := True, dx_raw_bytes_written := w\<rparr>)" for w
    by (rule duplex_ok_quiet [OF d], simp add: quiet_step_def)+
  have "duplex_ok (dx_destroy env x ?d)" for x
    using duplex_ok_quiet [OF ok(1) quiet_destroy] duplex_ok_raw [OF ok(1)] by blast
  then show ?thesis
    using StepAck d ok duplex_ok_connect [OF env ok(3)] duplex_ok_fire [OF env duplex_ok_emit(4) [OF ok(1)]]
      duplex_ok_fire [OF env duplex_ok_emit(4) [OF ok(2)]]
    by (simp add: on_write_ack_def Let_def split: DuplexWriteCtx.split option.split)
next
  case StepTimeout
  let ?d = "d\<lparr>dx_crypto := (dx_crypto d)\<lparr>ss_timeout_timer := map_option uv_timer_stop (ss_timeout_timer (dx_crypto d))\<rparr>\<rparr>"
  have "duplex_ok ?d"
    by (rule duplex_ok_quiet [OF d quiet_update(1)])
  then show ?thesis
    using StepTimeout d duplex_ok_quiet [OF \<open>duplex_ok ?d\<close> quiet_destroy] duplex_ok_raw [OF d] by (simp add: on_timeout_cb_def Let_def)
next
  case StepKeepalive
  then show ?thesis
    using d duplex_ok_quiet [OF duplex_ok_quiet [OF d quiet_update(1)] quiet_write] duplex_ok_quiet [OF d quiet_update(1)]
    by (simp add: on_keepalive_cb_def Let_def)
next
  case StepDelete
  then show ?thesis
    using d duplex_ok_quiet [OF d] by (simp add: Duplex_delete_def quiet_step_def)
next
  case (StepCall c)
  then show ?thesis
    using d duplex_ok_call [OF d, of env c] env by (simp add: calls_only_def)
qed (use d duplex_ok_close [OF env d] duplex_ok_quiet [OF d quiet_update(9)] in simp_all)

lemma duplex_ok_new: "length nonce = 8 \<Longrightarrow> duplex_ok (Duplex_new so entropy nonce True hs loop opts)"
proof -
  assume "length nonce = 8"
  moreover have "le_value bs mod 2 ^ 64 = le_value bs" if "length bs = 8" for bs
    using le_value_bound [of bs] that by simp
  ultimately show ?thesis
    unfolding Duplex_new_def setup_secret_send_def Let_def
    by (simp add: duplex_ok_def nonces_ok_def ordered_def closed_in_def sent_nonces_def List.map_filter_simps) (auto intro!: exI [of _ 0])
qed

lemma duplex_run_ok: "calls_only env \<Longrightarrow> duplex_ok d \<Longrightarrow> duplex_ok (duplex_run env steps d)"
  by (induction steps arbitrary: d) (simp_all add: duplex_run_def duplex_ok_step)

section \<open>Properties\<close>

text \<open>C19. Whatever the application, the transport and the timers do, the events of a stream come in order: it connects at most once and
  closes at most once, no message is delivered before it connects, and no message, end or unordered message after it has closed; at most
  64 messages (65 on a destroyed stream) wait for the header exchange.
\<close>

theorem duplex_events_ordered:
  fixes env :: "'s DuplexEnv" and steps :: "DuplexStep list" and entropy :: bytes and hs :: DuplexHandshake and loop :: bool
    and opts :: DuplexOptions
  assumes "calls_only env" and "length nonce = 8"
  defines "d \<equiv> duplex_run env steps (Duplex_new (de_so env) entropy nonce True hs loop opts)"
  shows "ordered (dx_trace d) \<and> length (dx_pending_messages d) \<le> (if dx_destroyed d then 65 else 64)"
  using duplex_run_ok [OF assms(1) duplex_ok_new [OF assms(2)], of steps "de_so env" entropy hs loop opts]
  unfolding d_def [symmetric] duplex_ok_def by blast

text \<open>C20. No nonce is used twice: in every run the unordered messages a stream has handed to UDX carry pairwise different counters, and after all
  the counters are used the stream is destroyed instead of wrapping around.
\<close>

theorem udp_nonces_fresh:
  assumes "calls_only env" and "length nonce = 8"
  shows "distinct (sent_nonces (dx_trace (duplex_run env steps (Duplex_new (de_so env) entropy nonce True hs loop opts))))"
  using duplex_run_ok [OF assms(1) duplex_ok_new [OF assms(2)], of steps "de_so env" entropy hs loop opts] nonces_distinct
  unfolding duplex_ok_def by blast

section \<open>A concrete library\<close>

text \<open>A stand-in for libsodium that keeps its promises: the state counts the messages, and a sealed message carries the count.\<close>

fun demo_increment :: "bytes \<Rightarrow> bytes" where
  "demo_increment [] = []"
| "demo_increment (b # bs) = (if b = 255 then 0 # demo_increment bs else (b + 1) # bs)"

definition demo_sodium :: "nat Sodium" where
  "demo_sodium =
     \<lparr>so_hash = (\<lambda>m k. replicate 32 (hd m)),
      so_init_push = (\<lambda>entropy key. (replicate 24 7, 0)),
      so_init_pull = (\<lambda>header key. (0, 0)),
      so_push = (\<lambda>n m. (Suc n, replicate 17 (of_nat n) @ m, 0)),
      so_pull = (\<lambda>n c. if take 17 c = replicate 17 (of_nat n) then (Suc n, drop 17 c, 0) else (n, [], -1)),
      so_uninit = 0, so_increment = demo_increment,
      so_secretbox_easy = (\<lambda>m nonce key. (replicate 16 (hd nonce) @ m, 0)),
      so_secretbox_open_easy = (\<lambda>c nonce key. if take 16 c = replicate 16 (hd nonce) then (drop 16 c, 0) else ([], -1))\<rparr>"

definition dx_demo_env :: "nat DuplexEnv" where
  "dx_demo_env = \<lparr>de_so = demo_sodium, de_rc = (\<lambda>n. 0), de_app = (\<lambda>e d. d)\<rparr>"

definition demo_hs :: "bool \<Rightarrow> DuplexHandshake" where
  "demo_hs initiator = \<lparr>hs_tx_key = [1], hs_rx_key = [1], hs_handshake_hash = [2], hs_public_key = [], hs_remote_public_key = [],
     hs_is_initiator = initiator\<rparr>"

definition demo_opts :: DuplexOptions where
  "demo_opts = \<lparr>do_keep_alive_ms = 0, do_timeout_ms = 0, do_enable_send = True\<rparr>"

lemma demo_increments: "increments demo_sodium"
proof -
  have "length (demo_increment n) = length n \<and> le_value (demo_increment n) = (le_value n + 1) mod 256 ^ length n" for n
  proof (induction n)
    case (Cons b bs)
    show ?case
    proof (cases "b = 255")
      case True
      have "(255 + 256 * le_value bs + 1) mod (256 * 256 ^ length bs) = 256 * ((le_value bs + 1) mod 256 ^ length bs)"
        by (simp add: mod_mult_mult1 [symmetric] add.commute)
      then show ?thesis
        using Cons True by simp
    next
      case False
      then have "unat b < 255"
        using unsigned_less [of b, where 'a = nat] by (simp add: word_unat_eq_iff)
      then show ?thesis
        using Cons False le_value_bound [of bs] by (simp add: unat_word_ariths)
    qed
  qed simp
  then show ?thesis
    by (simp add: increments_def demo_sodium_def)
qed

lemma demo_calls: "calls_only dx_demo_env"
  using demo_increments by (auto simp: calls_only_def dx_demo_env_def duplex_calls_def intro: exI [of _ "[]"])

definition demo_life :: "DuplexStep list" where
  "demo_life =
     [StepCall CallStart, StepAck 0 0, StepRead (ReadData ([56, 0, 0] @ replicate 32 0x74 @ replicate 24 7)),
      StepCall (CallSendUdp [1]), StepCall (CallSendUdp [2]), StepCall (CallDestroy 3), StepClose 0]"

theorem duplex_events_ordered_witness:
  "ordered (dx_trace (duplex_run dx_demo_env demo_life (Duplex_new (de_so dx_demo_env) [] (replicate 8 255) True (demo_hs True) True demo_opts)))"
  using duplex_events_ordered [OF demo_calls, of "replicate 8 255" demo_life "[]" "demo_hs True" True demo_opts] by simp

theorem udp_nonces_fresh_witness:
  "distinct (sent_nonces (dx_trace (duplex_run dx_demo_env demo_life (Duplex_new (de_so dx_demo_env) [] (replicate 8 255) True (demo_hs True) True demo_opts))))"
  using udp_nonces_fresh [OF demo_calls, of "replicate 8 255" demo_life "[]" "demo_hs True" True demo_opts] by simp

end
