(* ===== verification/Secret_Stream_Props.thy ===== *)
theory Secret_Stream_Props
  imports Secret_Stream_Delivery Secret_Stream_Life
begin

text \<open>
  The properties of the encrypted stream: framing does not depend on the cuts of the transport, the two ends connect and deliver what was
  written, unordered messages never reuse a nonce, and the events of a stream come at most once and in order.
\<close>

section \<open>Attachment\<close>

definition read_chunks :: "'s DuplexEnv \<Rightarrow> bytes list \<Rightarrow> 's Duplex \<Rightarrow> 's Duplex" where
  "read_chunks env chunks d = foldl (\<lambda>d b. on_udx_read env (ReadData b) d) d chunks"

text \<open>The application does not look at the parser, does not revive a destroyed stream and does not detach it.\<close>

definition steady :: "'s DuplexEnv \<Rightarrow> bool" where
  "steady env \<longleftrightarrow> discreet env \<and>
     (\<forall>e d. (dx_destroyed d \<longrightarrow> dx_destroyed (de_app env e d)) \<and> dx_attached (de_app env e d) = dx_attached d)"

lemma steadyD: "steady env \<Longrightarrow> discreet env" "steady env \<Longrightarrow> dx_destroyed d \<Longrightarrow> dx_destroyed (de_app env e d)"
  by (simp_all add: steady_def)

lemma listens_steady:
  assumes "listens env"
  shows "steady env"
proof -
  have "rx_view (de_app env e d) = rx_view d" for e d
    by (rule listensD(2) [OF assms])
  then show ?thesis
    using listensD(1) [OF assms] by (simp add: steady_def rx_view_def)
qed

lemma attached_fire: "steady env \<Longrightarrow> dx_attached (dx_fire env e d) = dx_attached d"
  by (simp add: steady_def dx_fire_def dx_emit_def)

lemma attached_destroy: "steady env \<Longrightarrow> dx_attached (dx_destroy env x d) = dx_attached d"
  by (simp add: dx_destroy_def fire_close_def attached_fire Let_def) (simp add: dx_emit_def)

lemma attached_connect:
  assumes "steady env"
  shows "dx_attached (maybe_fire_connect env d) = dx_attached d"
proof -
  have "dx_attached (replay_pending env ms d) = dx_attached d" for ms d
    by (induction ms arbitrary: d) (simp_all add: attached_fire [OF assms])
  then show ?thesis
    by (simp add: maybe_fire_connect_def attached_fire [OF assms] Let_def)
qed

lemma attached_frame:
  assumes "steady env"
  shows "dx_attached (handle_frame env m d) = dx_attached d"
  unfolding handle_frame_def Let_def
  by (simp add: attached_destroy [OF assms] attached_connect [OF assms] attached_fire [OF assms] split: prod.split option.split)

lemma attached_process:
  assumes "steady env"
  shows "dx_attached (process_incoming_bytes env b d) = dx_attached d"
proof -
  have "dx_attached (extract_loop n env d) = dx_attached d" for n d
    by (induction n arbitrary: d)
      (simp_all add: extract_loop_scan attached_destroy [OF assms] attached_frame [OF assms] split: frame_scan.split)
  then show ?thesis
    by (simp add: process_incoming_bytes_def Let_def)
qed

lemma attached_ack: "steady env \<Longrightarrow> dx_attached (on_write_ack env i status d) = dx_attached d"
  unfolding on_write_ack_def Let_def
  by (simp add: attached_connect attached_destroy attached_fire split: DuplexWriteCtx.split option.split)

lemma read_chunks_process:
  assumes env: "steady env" and "dx_attached d"
  shows "read_chunks env chunks d = process_incoming_bytes env (concat chunks) d \<and> dx_attached (read_chunks env chunks d)"
  using assms(2)
proof (induction chunks arbitrary: d)
  case (Cons b chunks)
  let ?d = "process_incoming_bytes env b d"
  have "dx_attached ?d"
    using Cons.prems by (simp add: attached_process [OF env])
  from Cons.IH [OF this] Cons.prems show ?case
    by (simp add: read_chunks_def on_udx_read_def process_append [OF steadyD(1) [OF env] steadyD(2) [OF env]]
        attached_process [OF env])
qed (simp add: read_chunks_def process_incoming_bytes_def)

section \<open>The connecting sender\<close>

definition dx_silent :: "'s DuplexEnv \<Rightarrow> bool" where
  "dx_silent env \<longleftrightarrow> (\<forall>e d. de_app env e d = d)"

lemma dx_silent_listens: "dx_silent env \<Longrightarrow> listens env"
  by (simp add: dx_silent_def listens_def discreet_def)

lemma sender_connects:
  assumes env: "dx_silent env" and d: "awaiting d" "dx_alive d" "dx_attached d" "dx_writes d = [HeaderCtx h]" "\<not> dx_ended d"
    and rid: "ss_remote_id (dx_crypto d) = rid" "length rid = STREAM_ID_LEN"
    and hb: "length hb = HEADERBYTES" "so_init_pull (de_so env) hb (ss_rx_key (dx_crypto d)) = (q, 0)"
  defines "d' \<equiv> on_udx_read env (ReadData (frame_of (rid @ hb))) (header_ack env d)"
  shows "sending (ss_push_state (dx_crypto d)) d' \<and> written_of (dx_trace d') = written_of (dx_trace d)"
proof -
  let ?d = "d\<lparr>dx_writes := [], dx_header_sent := True, dx_raw_bytes_written := dx_raw_bytes_written d + of_nat (length h)\<rparr>"
  have ack: "header_ack env d = ?d"
    using d by (simp add: header_ack_def on_write_ack_def maybe_fire_connect_def awaiting_def)
  have len: "length (rid @ hb) = ID_HEADER_BYTES"
    using rid(2) hb(1) by (simp add: ID_HEADER_BYTES_def)
  have "receive_header (de_so env) (rid @ hb) (dx_crypto d) = (True, (dx_crypto d)\<lparr>ss_pull_state := q, ss_header_received := True\<rparr>)"
    using len rid hb(2) by (simp add: receive_header_def)
  then have "sending (ss_push_state (dx_crypto d)) (handle_frame env (rid @ hb) ?d) \<and>
      written_of (dx_trace (handle_frame env (rid @ hb) ?d)) = written_of (dx_trace d)"
    using d len env
    by (simp add: handle_frame_def awaiting_def maybe_fire_connect_def dx_fire_def dx_emit_def dx_silent_def sending_def is_ready_def Let_def)
  moreover have "d' = with_buffer [] (dx_raw_bytes_read d + of_nat (length (frame_of (rid @ hb)))) (handle_frame env (rid @ hb) ?d)"
  proof -
    have "rid @ hb \<noteq> []" "length (rid @ hb) \<le> MAX_ATOMIC_WRITE + ABYTES" "\<not> dx_destroyed ?d" "dx_recv_buf ?d = []" "dx_attached ?d"
      using d len by (auto simp: awaiting_def ID_HEADER_BYTES_def HEADERBYTES_def MAX_ATOMIC_WRITE_def STREAM_ID_LEN_def)
    then show ?thesis
      using process_frame [OF dx_silent_listens [OF env], of "rid @ hb" ?d] by (simp add: d'_def ack on_udx_read_def)
  qed
  ultimately show ?thesis
    by (simp add: sending_def with_buffer_def)
qed

text \<open>C18. What the stream does with its input does not depend on how the transport cuts it: the same bytes in other chunks lead to the same
  state and the same events, also when a frame is malformed or the application destroys the stream in between.
\<close>

theorem duplex_chunking:
  assumes "steady env" and "concat xs = concat ys"
  shows "read_chunks env xs d = read_chunks env ys d"
proof (cases "dx_attached d")
  case True
  then show ?thesis
    using read_chunks_process [OF assms(1) True] assms(2) by metis
next
  case False
  then have "read_chunks env zs d = d" for zs
    by (induction zs) (simp_all add: read_chunks_def on_udx_read_def)
  then show ?thesis
    by simp
qed

text \<open>C17. Two streams of one handshake, started on either side of a transport.  The sender has received the header of the receiver and writes
  messages; every write is accepted, and the receiver, which reads the bytes in any chunks and whose own header is acknowledged between any
  two of them, ends connected with exactly these messages, in order (empty ones apart when it has a keepalive), under libsodium's promise that a
  pull state opens what its push state seals, and provided that there are at most 64 messages if anything is read before that
  acknowledgement: the receiver holds no more messages back.
\<close>

theorem duplex_delivers:
  fixes envA envB :: "'s DuplexEnv" and entropyA entropyB nonceA nonceB :: bytes and loopA loopB :: bool
    and optsA optsB :: DuplexOptions and chunks1 chunks2 :: "bytes list"
  assumes "secretstream_sound (de_so envB) in_step" and "de_so envA = de_so envB"
    and "dx_silent envA" and "listens envB" and "\<forall>n. 0 \<le> de_rc envA n" and "\<forall>n. 0 \<le> de_rc envB n"
    and "hs_tx_key hsA = hs_rx_key hsB" and "hs_rx_key hsA = hs_tx_key hsB" and "hs_handshake_hash hsA = hs_handshake_hash hsB"
    and "hs_is_initiator hsA \<noteq> hs_is_initiator hsB"
    and "\<forall>m\<in>set ms. length m \<le> MAX_ATOMIC_WRITE" and "chunks1 = [] \<or> length ms \<le> 64"
  defines "A \<equiv> started envA entropyA nonceA hsA loopA optsA" and "B \<equiv> started envB entropyB nonceB hsB loopB optsB"
  defines "A1 \<equiv> on_udx_read envA (ReadData (written_of (dx_trace B))) (on_write_ack envA 0 0 A)"
  defines "B1 \<equiv> read_chunks envB chunks2 (on_write_ack envB 0 0 (read_chunks envB chunks1 B))"
  assumes "concat (chunks1 @ chunks2) = written_of (dx_trace (snd (write_all envA ms A1)))"
  shows "fst (write_all envA ms A1) = replicate (length ms) 0 \<and> dx_connected B1 \<and> \<not> dx_destroyed B1 \<and>
    messages_of (dx_trace B1) = kept_messages B1 ms"
proof -
  note so = assms(1) and len = secretstream_soundD(1) [OF assms(1)]
  obtain hbA pA where pushA: "so_init_push (de_so envA) entropyA (hs_tx_key hsA) = (hbA, pA)"
    by (metis surj_pair)
  obtain hbB pB where pushB: "so_init_push (de_so envB) entropyB (hs_tx_key hsB) = (hbB, pB)"
    by (metis surj_pair)
  from secretstream_soundD(2) [OF so pushA [unfolded assms(2)]] obtain qA where
      hbA: "length hbA = HEADERBYTES" "so_init_pull (de_so envB) hbA (hs_tx_key hsA) = (qA, 0)" "in_step pA qA"
    by blast
  from secretstream_soundD(2) [OF so pushB] obtain qB where
      hbB: "length hbB = HEADERBYTES" "so_init_pull (de_so envB) hbB (hs_tx_key hsB) = (qB, 0)"
    by blast
  have lens: "\<forall>m k. length (so_hash (de_so envA) m k) = STREAM_ID_LEN" "\<forall>m k. length (so_hash (de_so envB) m k) = STREAM_ID_LEN"
    using len assms(2) by simp_all
  note A = started_fields [OF assms(5) pushA hbA(1) lens(1), of nonceA loopA optsA, folded A_def, unfolded assms(2)]
  note B = started_fields [OF assms(6) pushB hbB(1) lens(2), of nonceB loopB optsB, folded B_def]
  let ?idA = "compute_stream_id (de_so envB) (hs_handshake_hash hsA) (hs_is_initiator hsA)"
  let ?idB = "compute_stream_id (de_so envB) (hs_handshake_hash hsB) (hs_is_initiator hsB)"
  have ids: "length ?idA = STREAM_ID_LEN" "length ?idB = STREAM_ID_LEN"
    "compute_stream_id (de_so envB) (hs_handshake_hash hsA) (\<not> hs_is_initiator hsA) = ?idB"
    "compute_stream_id (de_so envB) (hs_handshake_hash hsB) (\<not> hs_is_initiator hsB) = ?idA"
    using len assms(9,10) by (simp_all add: compute_stream_id_def Let_def)
  have "sending pA A1 \<and> written_of (dx_trace A1) = frame_of (?idA @ hbA)"
    using sender_connects [OF assms(3) A(1,4,3,5,6) _ ids(2) hbB(1)] A(7,9-11) B(7) hbB(2) ids(3) len assms(2,8)
    by (simp add: A1_def header_ack_def)
  with write_all_sends [where in_step = in_step and p = pA and q = qA, OF _ assms(5) _ hbA(3) assms(11), of A1] so assms(2)
  have W: "fst (write_all envA ms A1) = replicate (length ms) 0"
    "written_of (dx_trace (snd (write_all envA ms A1))) = concat (frame_of (?idA @ hbA) # snd (seal (de_so envB) pA ms))"
    by simp_all
  let ?e = "process_incoming_bytes envB (concat chunks1) B"
  have "read_chunks envB chunks1 B = ?e" "dx_attached ?e"
    using read_chunks_process [OF listens_steady [OF assms(4)] B(3), of chunks1] B(3) by (simp_all add: attached_process [OF listens_steady [OF assms(4)]])
  then have B1: "B1 = process_incoming_bytes envB (concat chunks2) (header_ack envB ?e)"
    using read_chunks_process [OF listens_steady [OF assms(4)], of "header_ack envB ?e" chunks2]
    by (simp add: B1_def header_ack_def attached_ack [OF listens_steady [OF assms(4)]])
  have "concat chunks1 @ concat chunks2 = concat (frame_of (?idA @ hbA) # snd (seal (de_so envB) pA ms))"
    using assms(17) W(2) by simp
  from session_received [where p = pA and q = qA, OF assms(4) so B(1,2,4,5) _ ids(1) hbA(1) _ hbA(3) assms(11) _ this] len
  have "\<not> dx_destroyed B1 \<and> dx_connected B1 \<and> inbox B1 = inbox B @ kept_messages B ms \<and> dx_pending_messages B1 = [] \<and>
      ss_keep_alive_ms (dx_crypto B1) = ss_keep_alive_ms (dx_crypto B)"
    unfolding B1 using B(10,11) ids(4) hbA(2) assms(7,12) by auto
  then show ?thesis
    using W(1) B(1,8) by (auto simp: inbox_def awaiting_def kept_messages_def)
qed

section \<open>Witnesses\<close>

lemma demo_sound: "secretstream_sound demo_sodium (=)"
  unfolding secretstream_sound_def
  by (auto simp: demo_sodium_def STREAM_ID_LEN_def HEADERBYTES_def ABYTES_def)

lemma demo_silent: "dx_silent dx_demo_env" "listens dx_demo_env" "steady dx_demo_env"
proof -
  show "dx_silent dx_demo_env"
    by (simp add: dx_silent_def dx_demo_env_def)
  then show "listens dx_demo_env"
    by (rule dx_silent_listens)
  then show "steady dx_demo_env"
    by (rule listens_steady)
qed

definition demo_end :: "bool \<Rightarrow> nat Duplex" where
  "demo_end initiator = started dx_demo_env [] (replicate 8 0) (demo_hs initiator) True demo_opts"

definition demo_sender :: "nat Duplex" where
  "demo_sender = on_udx_read dx_demo_env (ReadData (written_of (dx_trace (demo_end False)))) (on_write_ack dx_demo_env 0 0 (demo_end True))"

definition demo_bytes :: bytes where
  "demo_bytes = written_of (dx_trace (snd (write_all dx_demo_env [[1, 2], [], [3]] demo_sender)))"

definition demo_receiver :: "nat Duplex" where
  "demo_receiver = read_chunks dx_demo_env [take 40 (drop 61 demo_bytes), drop 40 (drop 61 demo_bytes)]
     (on_write_ack dx_demo_env 0 0 (read_chunks dx_demo_env [take 61 demo_bytes] (demo_end False)))"

theorem duplex_delivers_witness:
  "fst (write_all dx_demo_env [[1, 2], [], [3]] demo_sender) = replicate (length [[1, 2], [], [3 :: byte]]) 0 \<and> dx_connected demo_receiver \<and> \<not> dx_destroyed demo_receiver \<and>
    messages_of (dx_trace demo_receiver) = kept_messages demo_receiver [[1, 2], [], [3]]"
proof -
  have so: "secretstream_sound (de_so dx_demo_env) (=)"
    using demo_sound by (simp add: dx_demo_env_def)
  have cut: "concat ([take 61 demo_bytes] @ [take 40 (drop 61 demo_bytes), drop 40 (drop 61 demo_bytes)]) = demo_bytes"
    by (metis append_Nil2 append_take_drop_id concat.simps concat_append)
  have small: "\<forall>m\<in>set [[1, 2], [], [3 :: byte]]. length m \<le> MAX_ATOMIC_WRITE"
    by (simp add: MAX_ATOMIC_WRITE_def ABYTES_def)
  have rc: "\<forall>n. 0 \<le> de_rc dx_demo_env n"
    by (simp add: dx_demo_env_def)
  have hs: "hs_tx_key (demo_hs True) = hs_rx_key (demo_hs False)" "hs_rx_key (demo_hs True) = hs_tx_key (demo_hs False)"
    "hs_handshake_hash (demo_hs True) = hs_handshake_hash (demo_hs False)" "hs_is_initiator (demo_hs True) \<noteq> hs_is_initiator (demo_hs False)"
    by (simp_all add: demo_hs_def)
  show ?thesis
    using cut unfolding demo_receiver_def demo_bytes_def demo_sender_def demo_end_def
    by (intro duplex_delivers [OF so refl demo_silent(1,2) rc rc hs small]) simp_all
qed

theorem duplex_chunking_witness:
  "concat [[56, 0], [0, 1]] = concat [[56 :: byte], [0, 0, 1]] \<and>
    read_chunks dx_demo_env [[56, 0], [0, 1]] (demo_end True) = read_chunks dx_demo_env [[56], [0, 0, 1]] (demo_end True)"
  using duplex_chunking [OF demo_silent(3), of "[[56, 0], [0, 1]]" "[[56], [0, 0, 1]]" "demo_end True"] by simp

end
