(* ===== verification/Noise.thy ===== *)
theory Noise
  imports Announce_Sig
begin

text \<open>
  The Noise IK handshake of \<^verbatim>\<open>src/noise_wrap.cpp\<close>: HMAC and HKDF over BLAKE2b, the Ed25519 Diffie-Hellman, the cipher and symmetric
  states, and the two message patterns of \<^verbatim>\<open>NoiseIK\<close>.  The primitives of libsodium are the parameter \<open>NoiseLib\<close>; wiping memory
  has no counterpart.  \<^verbatim>\<open>rs_\<close> and \<^verbatim>\<open>re_\<close> hold zeros here until they are learned, where the object holds arbitrary bytes that
  it does not read.
\<close>

section \<open>Primitives\<close>

definition HASHLEN :: nat where "HASHLEN = 64"
definition BLOCKLEN :: nat where "BLOCKLEN = 128"
definition DHLEN :: nat where "DHLEN = 32"
definition PKLEN :: nat where "PKLEN = 32"
definition SEEDLEN :: nat where "SEEDLEN = 32"
definition KEYLEN :: nat where "KEYLEN = 32"
definition MACLEN :: nat where "MACLEN = 16"
definition NONCELEN :: nat where "NONCELEN = 12"

text \<open>\<^verbatim>\<open>crypto_generichash\<close> with 64 bytes of output, \<^verbatim>\<open>crypto_hash_sha512\<close>, \<^verbatim>\<open>crypto_scalarmult_ed25519_noclamp\<close> with its return code,
  and the IETF ChaCha20-Poly1305 pair, with the key, the nonce and the associated data.\<close>

record NoiseLib =
  nl_blake2b :: "bytes \<Rightarrow> bytes"
  nl_sha512 :: "bytes \<Rightarrow> bytes"
  nl_scalarmult :: "bytes \<Rightarrow> bytes \<Rightarrow> bytes \<times> int"
  nl_aead_encrypt :: "bytes \<Rightarrow> bytes \<Rightarrow> bytes \<Rightarrow> bytes \<Rightarrow> bytes"
  nl_aead_decrypt :: "bytes \<Rightarrow> bytes \<Rightarrow> bytes \<Rightarrow> bytes \<Rightarrow> bytes \<times> int"

definition blake2b_512 :: "NoiseLib \<Rightarrow> bytes \<Rightarrow> bytes" where
  "blake2b_512 lib data = nl_blake2b lib data"

definition hmac_blake2b :: "NoiseLib \<Rightarrow> bytes \<Rightarrow> bytes list \<Rightarrow> bytes" where
  "hmac_blake2b lib key msgs =
     (let material = (if length key > BLOCKLEN then blake2b_512 lib key else key);
          hmac_key = material @ replicate (BLOCKLEN - length material) 0;
          inner_pad = map (\<lambda>b. 0x36 XOR b) hmac_key;
          outer_pad = map (\<lambda>b. 0x5c XOR b) hmac_key;
          inner_hash = blake2b_512 lib (inner_pad @ concat msgs)
      in blake2b_512 lib (outer_pad @ inner_hash))"

definition hkdf :: "NoiseLib \<Rightarrow> bytes \<Rightarrow> bytes \<Rightarrow> bytes \<times> bytes" where
  "hkdf lib salt ikm =
     (let prk = hmac_blake2b lib salt [ikm];
          t1 = hmac_blake2b lib prk [[], [], [0x01]];
          t2 = hmac_blake2b lib prk [t1, [], [0x02]]
      in (t1, t2))"

text \<open>The scalar of a key pair: the clamped lower half of the hash of its seed.\<close>

definition clamp :: "bytes \<Rightarrow> bytes" where
  "clamp scalar = (let scalar = scalar[0 := scalar ! 0 AND 248] in scalar[31 := (scalar ! 31 AND 127) OR 64])"

definition dh :: "NoiseLib \<Rightarrow> Keypair \<Rightarrow> bytes \<Rightarrow> bytes" where
  "dh lib local_key remote =
     (let sk_full = nl_sha512 lib (take SEEDLEN (kp_secret_key local_key));
          scalar = clamp (take 32 sk_full);
          (out, rc) = nl_scalarmult lib scalar remote
      in if rc \<noteq> 0 then replicate DHLEN 0 else out)"

definition build_nonce :: "u64 \<Rightarrow> bytes" where
  "build_nonce counter =
     (let c = (ucast counter :: u32)
      in [0, 0, 0, 0, ucast c, ucast (drop_bit 8 c), ucast (drop_bit 16 c), ucast (drop_bit 24 c), 0, 0, 0, 0])"

definition noise_encrypt :: "NoiseLib \<Rightarrow> bytes \<Rightarrow> u64 \<Rightarrow> bytes \<Rightarrow> bytes \<Rightarrow> bytes" where
  "noise_encrypt lib key counter ad plaintext = nl_aead_encrypt lib key (build_nonce counter) ad plaintext"

definition noise_decrypt :: "NoiseLib \<Rightarrow> bytes \<Rightarrow> u64 \<Rightarrow> bytes \<Rightarrow> bytes \<Rightarrow> bytes option" where
  "noise_decrypt lib key counter ad ciphertext =
     (if length ciphertext < MACLEN then None
      else (let (pt, rc) = nl_aead_decrypt lib key (build_nonce counter) ad ciphertext
            in if rc \<noteq> 0 then None else Some pt))"

section \<open>CipherState\<close>

record CipherState =
  cs_key :: "bytes option"
  cs_nonce :: u64

definition CipherState_new :: CipherState where
  "CipherState_new = \<lparr>cs_key = None, cs_nonce = 0\<rparr>"

definition initialise_key :: "bytes \<Rightarrow> CipherState \<Rightarrow> CipherState" where
  "initialise_key key c = c\<lparr>cs_key := Some key, cs_nonce := 0\<rparr>"

definition encrypt_with_ad :: "NoiseLib \<Rightarrow> bytes \<Rightarrow> bytes \<Rightarrow> CipherState \<Rightarrow> bytes \<times> CipherState" where
  "encrypt_with_ad lib ad pt c =
     (case cs_key c of
        None \<Rightarrow> (pt, c)
      | Some key \<Rightarrow>
          if cs_nonce c \<ge> 0xFFFFFFFF then ([], c)
          else (noise_encrypt lib key (cs_nonce c) ad pt, c\<lparr>cs_nonce := cs_nonce c + 1\<rparr>))"

definition decrypt_with_ad :: "NoiseLib \<Rightarrow> bytes \<Rightarrow> bytes \<Rightarrow> CipherState \<Rightarrow> bytes option \<times> CipherState" where
  "decrypt_with_ad lib ad ct c =
     (case cs_key c of
        None \<Rightarrow> (Some ct, c)
      | Some key \<Rightarrow>
          (case noise_decrypt lib key (cs_nonce c) ad ct of
             None \<Rightarrow> (None, c)
           | Some pt \<Rightarrow> (Some pt, c\<lparr>cs_nonce := cs_nonce c + 1\<rparr>)))"

section \<open>SymmetricState\<close>

record SymmetricState =
  sy_digest :: bytes
  sy_chaining_key :: bytes
  sy_corrupt :: bool
  sy_cipher :: CipherState

definition SymmetricState_new :: SymmetricState where
  "SymmetricState_new = \<lparr>sy_digest = replicate HASHLEN 0, sy_chaining_key = replicate HASHLEN 0, sy_corrupt = False, sy_cipher = CipherState_new\<rparr>"

definition mix_hash :: "NoiseLib \<Rightarrow> bytes \<Rightarrow> SymmetricState \<Rightarrow> SymmetricState" where
  "mix_hash lib data y = y\<lparr>sy_digest := blake2b_512 lib (sy_digest y @ data)\<rparr>"

definition mix_key :: "NoiseLib \<Rightarrow> bytes \<Rightarrow> Keypair \<Rightarrow> SymmetricState \<Rightarrow> SymmetricState" where
  "mix_key lib remote_key local_key y =
     (let dh_result = dh lib local_key remote_key
      in if dh_result = replicate DHLEN 0 then y\<lparr>sy_corrupt := True\<rparr>
         else (let (ck, temp_k) = hkdf lib (sy_chaining_key y) dh_result
               in y\<lparr>sy_chaining_key := ck, sy_cipher := initialise_key (take KEYLEN temp_k) (sy_cipher y)\<rparr>))"

definition encrypt_and_hash :: "NoiseLib \<Rightarrow> bytes \<Rightarrow> SymmetricState \<Rightarrow> bytes \<times> SymmetricState" where
  "encrypt_and_hash lib pt y =
     (let (ct, c) = encrypt_with_ad lib (sy_digest y) pt (sy_cipher y) in (ct, mix_hash lib ct (y\<lparr>sy_cipher := c\<rparr>)))"

definition decrypt_and_hash :: "NoiseLib \<Rightarrow> bytes \<Rightarrow> SymmetricState \<Rightarrow> bytes option \<times> SymmetricState" where
  "decrypt_and_hash lib ct y =
     (let (pt, c) = decrypt_with_ad lib (sy_digest y) ct (sy_cipher y) in (pt, mix_hash lib ct (y\<lparr>sy_cipher := c\<rparr>)))"

definition split_keys :: "NoiseLib \<Rightarrow> SymmetricState \<Rightarrow> bytes \<times> bytes" where
  "split_keys lib y = (let (h1, h2) = hkdf lib (sy_chaining_key y) [] in (take KEYLEN h1, take KEYLEN h2))"

section \<open>NoiseIK\<close>

definition PROTOCOL_NAME :: bytes where
  "PROTOCOL_NAME = str_bytes ''Noise_IK_Ed25519_ChaChaPoly_BLAKE2b''"

record NoiseIK =
  ik_initiator :: bool
  ik_complete :: bool
  ik_message_index :: nat
  ik_s :: Keypair
  ik_e :: Keypair
  ik_e_generated :: bool
  ik_rs :: bytes
  ik_re :: bytes
  ik_rs_known :: bool
  ik_symmetric :: SymmetricState
  ik_corrupt :: bool
  ik_tx :: bytes
  ik_rx :: bytes
  ik_hash :: bytes

definition empty_keypair :: Keypair where
  "empty_keypair = \<lparr>kp_public_key = replicate 32 0, kp_secret_key = replicate 64 0\<rparr>"

text \<open>The constructor; \<open>remote_static\<close> is the pointer argument, which an initiator must pass.\<close>

definition NoiseIK_new :: "NoiseLib \<Rightarrow> bool \<Rightarrow> Keypair \<Rightarrow> bytes \<Rightarrow> bytes option \<Rightarrow> NoiseIK" where
  "NoiseIK_new lib initiator static_kp prologue remote_static =
     (let digest = PROTOCOL_NAME @ replicate (HASHLEN - length PROTOCOL_NAME) 0;
          y = SymmetricState_new\<lparr>sy_digest := digest, sy_chaining_key := digest\<rparr>;
          y = mix_hash lib prologue y;
          ik = \<lparr>ik_initiator = initiator, ik_complete = False, ik_message_index = 0, ik_s = static_kp, ik_e = empty_keypair,
                ik_e_generated = False, ik_rs = replicate PKLEN 0, ik_re = replicate PKLEN 0, ik_rs_known = False, ik_symmetric = y,
                ik_corrupt = False, ik_tx = replicate KEYLEN 0, ik_rx = replicate KEYLEN 0, ik_hash = replicate HASHLEN 0\<rparr>
      in if initiator
         then (case remote_static of
                 None \<Rightarrow> ik
               | Some rs \<Rightarrow> ik\<lparr>ik_rs := rs, ik_rs_known := True, ik_symmetric := mix_hash lib rs y\<rparr>)
         else ik\<lparr>ik_symmetric := mix_hash lib (kp_public_key static_kp) y\<rparr>)"

text \<open>The tail of \<^verbatim>\<open>send\<close> and \<^verbatim>\<open>recv\<close>: after the second message the transport keys are split.\<close>

definition advance_message :: "NoiseLib \<Rightarrow> NoiseIK \<Rightarrow> NoiseIK" where
  "advance_message lib ik =
     (let ik = ik\<lparr>ik_message_index := ik_message_index ik + 1\<rparr>
      in if ik_message_index ik \<ge> 2
         then (let (k1, k2) = split_keys lib (ik_symmetric ik)
               in ik\<lparr>ik_tx := (if ik_initiator ik then k1 else k2), ik_rx := (if ik_initiator ik then k2 else k1),
                     ik_hash := sy_digest (ik_symmetric ik), ik_complete := True\<rparr>)
         else ik)"

definition send_payload :: "NoiseLib \<Rightarrow> bytes \<Rightarrow> bytes \<Rightarrow> NoiseIK \<Rightarrow> bytes \<times> NoiseIK" where
  "send_payload lib out payload ik =
     (let (enc_payload, y) = encrypt_and_hash lib payload (ik_symmetric ik)
      in (out @ enc_payload, advance_message lib (ik\<lparr>ik_symmetric := y\<rparr>)))"

text \<open>The key pair that \<^verbatim>\<open>generate_keypair\<close> draws is the argument \<open>fresh\<close>.\<close>

definition take_ephemeral :: "NoiseLib \<Rightarrow> Keypair \<Rightarrow> NoiseIK \<Rightarrow> NoiseIK" where
  "take_ephemeral lib fresh ik =
     (let ik = (if \<not> ik_e_generated ik then ik\<lparr>ik_e := fresh, ik_e_generated := True\<rparr> else ik)
      in ik\<lparr>ik_symmetric := mix_hash lib (kp_public_key (ik_e ik)) (ik_symmetric ik)\<rparr>)"

definition send_message1 :: "NoiseLib \<Rightarrow> Keypair \<Rightarrow> bytes \<Rightarrow> NoiseIK \<Rightarrow> bytes \<times> NoiseIK" where
  "send_message1 lib fresh payload ik =
     (let ik = take_ephemeral lib fresh ik;
          out = kp_public_key (ik_e ik);
          ik = ik\<lparr>ik_symmetric := mix_key lib (ik_rs ik) (ik_e ik) (ik_symmetric ik)\<rparr>
      in if sy_corrupt (ik_symmetric ik) then ([], ik\<lparr>ik_corrupt := True\<rparr>)
         else (let (enc_s, y) = encrypt_and_hash lib (kp_public_key (ik_s ik)) (ik_symmetric ik);
                   ik = ik\<lparr>ik_symmetric := mix_key lib (ik_rs ik) (ik_s ik) y\<rparr>
               in if sy_corrupt (ik_symmetric ik) then ([], ik\<lparr>ik_corrupt := True\<rparr>)
                  else send_payload lib (out @ enc_s) payload ik))"

definition send_message2 :: "NoiseLib \<Rightarrow> Keypair \<Rightarrow> bytes \<Rightarrow> NoiseIK \<Rightarrow> bytes \<times> NoiseIK" where
  "send_message2 lib fresh payload ik =
     (let ik = take_ephemeral lib fresh ik;
          out = kp_public_key (ik_e ik);
          ik = ik\<lparr>ik_symmetric := mix_key lib (ik_re ik) (ik_e ik) (ik_symmetric ik)\<rparr>
      in if sy_corrupt (ik_symmetric ik) then ([], ik\<lparr>ik_corrupt := True\<rparr>)
         else (let ik = ik\<lparr>ik_symmetric := mix_key lib (ik_rs ik) (ik_e ik) (ik_symmetric ik)\<rparr>
               in if sy_corrupt (ik_symmetric ik) then ([], ik\<lparr>ik_corrupt := True\<rparr>)
                  else send_payload lib out payload ik))"

definition NoiseIK_send :: "NoiseLib \<Rightarrow> Keypair \<Rightarrow> bytes \<Rightarrow> NoiseIK \<Rightarrow> bytes \<times> NoiseIK" where
  "NoiseIK_send lib fresh payload ik =
     (if ik_complete ik \<or> ik_corrupt ik then ([], ik)
      else if ik_message_index ik = 0 \<and> \<not> ik_initiator ik then ([], ik)
      else if ik_message_index ik = 1 \<and> ik_initiator ik then ([], ik)
      else if ik_message_index ik = 0 \<and> ik_initiator ik then send_message1 lib fresh payload ik
      else if ik_message_index ik = 1 \<and> \<not> ik_initiator ik then send_message2 lib fresh payload ik
      else send_payload lib [] payload ik)"

definition recv_payload :: "NoiseLib \<Rightarrow> bytes \<Rightarrow> NoiseIK \<Rightarrow> bytes option \<times> NoiseIK" where
  "recv_payload lib remaining ik =
     (let (payload, y) = decrypt_and_hash lib remaining (ik_symmetric ik);
          ik = ik\<lparr>ik_symmetric := y\<rparr>
      in case payload of
           None \<Rightarrow> (None, ik\<lparr>ik_corrupt := True\<rparr>)
         | Some pt \<Rightarrow> (Some pt, advance_message lib ik))"

definition recv_message1 :: "NoiseLib \<Rightarrow> bytes \<Rightarrow> NoiseIK \<Rightarrow> bytes option \<times> NoiseIK" where
  "recv_message1 lib msg ik =
     (if length msg < PKLEN then (None, ik\<lparr>ik_corrupt := True\<rparr>)
      else (let re = take PKLEN msg; msg = drop PKLEN msg;
                ik = ik\<lparr>ik_re := re, ik_symmetric := mix_key lib re (ik_s ik) (mix_hash lib re (ik_symmetric ik))\<rparr>
            in if sy_corrupt (ik_symmetric ik) then (None, ik\<lparr>ik_corrupt := True\<rparr>)
               else if length msg < PKLEN + MACLEN then (None, ik\<lparr>ik_corrupt := True\<rparr>)
               else (let (dec_s, y) = decrypt_and_hash lib (take (PKLEN + MACLEN) msg) (ik_symmetric ik);
                         msg = drop (PKLEN + MACLEN) msg;
                         ik = ik\<lparr>ik_symmetric := y\<rparr>
                     in case dec_s of
                          None \<Rightarrow> (None, ik\<lparr>ik_corrupt := True\<rparr>)
                        | Some s \<Rightarrow>
                            (let rs = take PKLEN s;
                                 ik = ik\<lparr>ik_rs := rs, ik_rs_known := True, ik_symmetric := mix_key lib rs (ik_s ik) y\<rparr>
                             in if sy_corrupt (ik_symmetric ik) then (None, ik\<lparr>ik_corrupt := True\<rparr>)
                                else recv_payload lib msg ik))))"

definition recv_message2 :: "NoiseLib \<Rightarrow> bytes \<Rightarrow> NoiseIK \<Rightarrow> bytes option \<times> NoiseIK" where
  "recv_message2 lib msg ik =
     (if length msg < PKLEN then (None, ik\<lparr>ik_corrupt := True\<rparr>)
      else (let re = take PKLEN msg; msg = drop PKLEN msg;
                ik = ik\<lparr>ik_re := re, ik_symmetric := mix_key lib re (ik_e ik) (mix_hash lib re (ik_symmetric ik))\<rparr>
            in if sy_corrupt (ik_symmetric ik) then (None, ik\<lparr>ik_corrupt := True\<rparr>)
               else (let ik = ik\<lparr>ik_symmetric := mix_key lib re (ik_s ik) (ik_symmetric ik)\<rparr>
                     in if sy_corrupt (ik_symmetric ik) then (None, ik\<lparr>ik_corrupt := True\<rparr>)
                        else recv_payload lib msg ik)))"

definition NoiseIK_recv :: "NoiseLib \<Rightarrow> bytes \<Rightarrow> NoiseIK \<Rightarrow> bytes option \<times> NoiseIK" where
  "NoiseIK_recv lib msg ik =
     (if ik_complete ik \<or> ik_corrupt ik then (None, ik)
      else if ik_message_index ik = 0 \<and> ik_initiator ik then (None, ik)
      else if ik_message_index ik = 1 \<and> \<not> ik_initiator ik then (None, ik)
      else if ik_message_index ik = 0 \<and> \<not> ik_initiator ik then recv_message1 lib msg ik
      else if ik_message_index ik = 1 \<and> ik_initiator ik then recv_message2 lib msg ik
      else recv_payload lib msg ik)"

definition set_ephemeral :: "Keypair \<Rightarrow> NoiseIK \<Rightarrow> NoiseIK" where
  "set_ephemeral ephemeral ik = ik\<lparr>ik_e := ephemeral, ik_e_generated := True\<rparr>"

section \<open>Agreement\<close>

text \<open>
  What the handshake relies on: the cipher opens what it sealed and adds its tag, and the Diffie-Hellman of two key pairs is the same from
  both sides and not the neutral element.
\<close>

definition aead_sound :: "NoiseLib \<Rightarrow> bool" where
  "aead_sound lib \<longleftrightarrow>
     (\<forall>k n ad m. nl_aead_decrypt lib k n ad (nl_aead_encrypt lib k n ad m) = (m, 0) \<and>
        length (nl_aead_encrypt lib k n ad m) = length m + MACLEN)"

definition dh_agrees :: "NoiseLib \<Rightarrow> Keypair \<Rightarrow> Keypair \<Rightarrow> bool" where
  "dh_agrees lib a b \<longleftrightarrow> dh lib a (kp_public_key b) = dh lib b (kp_public_key a) \<and> dh lib a (kp_public_key b) \<noteq> replicate DHLEN 0"

definition keyed :: "SymmetricState \<Rightarrow> bool" where
  "keyed y \<longleftrightarrow> cs_key (sy_cipher y) \<noteq> None \<and> cs_nonce (sy_cipher y) = 0 \<and> \<not> sy_corrupt y"

lemma mix_key_agrees:
  assumes "dh_agrees lib a b"
  shows "mix_key lib (kp_public_key b) a y = mix_key lib (kp_public_key a) b y"
    and "\<not> sy_corrupt y \<Longrightarrow> keyed (mix_key lib (kp_public_key a) b y)"
proof -
  have "dh lib a (kp_public_key b) = dh lib b (kp_public_key a)" "dh lib b (kp_public_key a) \<noteq> replicate DHLEN 0"
    using assms by (auto simp: dh_agrees_def)
  then show "mix_key lib (kp_public_key b) a y = mix_key lib (kp_public_key a) b y"
    and "\<not> sy_corrupt y \<Longrightarrow> keyed (mix_key lib (kp_public_key a) b y)"
    by (simp_all add: mix_key_def initialise_key_def keyed_def split_beta Let_def)
qed

lemma sealed_opens:
  assumes "aead_sound lib" and "keyed y" and "encrypt_and_hash lib m y = (ct, y')"
  shows "decrypt_and_hash lib ct y = (Some m, y')" and "length ct = length m + MACLEN" and "\<not> sy_corrupt y'"
  using assms
  by (auto simp: encrypt_and_hash_def decrypt_and_hash_def encrypt_with_ad_def decrypt_with_ad_def noise_encrypt_def noise_decrypt_def
      aead_sound_def mix_hash_def keyed_def)

lemma mix_hash_corrupt [simp]: "sy_corrupt (mix_hash lib data y) = sy_corrupt y"
  by (simp add: mix_hash_def)

text \<open>The two ends after the first message: one symmetric state, and each knows the keys of the other.\<close>

definition half_done :: "Keypair \<Rightarrow> Keypair \<Rightarrow> Keypair \<Rightarrow> SymmetricState \<Rightarrow> NoiseIK \<Rightarrow> NoiseIK \<Rightarrow> bool" where
  "half_done sI sR eI y I R \<longleftrightarrow>
     ik_initiator I \<and> \<not> ik_initiator R \<and> ik_symmetric I = y \<and> ik_symmetric R = y \<and> \<not> sy_corrupt y \<and>
     ik_message_index I = 1 \<and> ik_message_index R = 1 \<and> \<not> ik_complete I \<and> \<not> ik_complete R \<and> \<not> ik_corrupt I \<and> \<not> ik_corrupt R \<and>
     ik_s I = sI \<and> ik_s R = sR \<and> ik_e I = eI \<and> \<not> ik_e_generated R \<and> ik_rs I = kp_public_key sR \<and> ik_rs R = kp_public_key sI \<and>
     ik_re R = kp_public_key eI"

lemma first_message_agrees:
  fixes prologue :: bytes
  assumes aead: "aead_sound lib" and dh: "dh_agrees lib eI sR" "dh_agrees lib sI sR"
    and pk: "length (kp_public_key eI) = PKLEN" "length (kp_public_key sI) = PKLEN"
  defines "I \<equiv> NoiseIK_new lib True sI prologue (Some (kp_public_key sR))" and "R \<equiv> NoiseIK_new lib False sR prologue None"
  shows "\<exists>I' R' msg y. NoiseIK_send lib eI p I = (msg, I') \<and> NoiseIK_recv lib msg R = (Some p, R') \<and>
    half_done sI sR eI y I' R' \<and> length msg = length p + 96"
proof -
  define y0 where "y0 = ik_symmetric I"
  have new: "ik_symmetric R = y0" "\<not> sy_corrupt y0"
    by (simp_all add: y0_def I_def R_def NoiseIK_new_def SymmetricState_new_def Let_def)
  define y1 where "y1 = mix_key lib (kp_public_key sR) eI (mix_hash lib (kp_public_key eI) y0)"
  have y1: "keyed y1" "mix_key lib (kp_public_key eI) sR (mix_hash lib (kp_public_key eI) y0) = y1"
    using mix_key_agrees [OF dh(1)] new(2) by (simp_all add: y1_def)
  obtain enc_s y2 where enc_s: "encrypt_and_hash lib (kp_public_key sI) y1 = (enc_s, y2)"
    by (metis surj_pair)
  note opened = sealed_opens [OF aead y1(1) enc_s]
  define y3 where "y3 = mix_key lib (kp_public_key sR) sI y2"
  have y3: "keyed y3" "mix_key lib (kp_public_key sI) sR y2 = y3"
    using mix_key_agrees [OF dh(2)] opened(3) by (simp_all add: y3_def)
  obtain enc_p y4 where enc_p: "encrypt_and_hash lib p y3 = (enc_p, y4)"
    by (metis surj_pair)
  note payload = sealed_opens [OF aead y3(1) enc_p]
  have fields: "ik_initiator I" "\<not> ik_complete I" "\<not> ik_corrupt I" "ik_message_index I = 0" "\<not> ik_e_generated I" "ik_s I = sI"
    "ik_rs I = kp_public_key sR" "\<not> ik_initiator R" "\<not> ik_complete R" "\<not> ik_corrupt R" "ik_message_index R = 0" "ik_s R = sR"
    "\<not> ik_e_generated R"
    by (simp_all add: I_def R_def NoiseIK_new_def Let_def)
  have c1: "\<not> sy_corrupt y1" "\<not> sy_corrupt y3"
    using y1(1) y3(1) by (simp_all add: keyed_def)
  let ?I = "I\<lparr>ik_e := eI, ik_e_generated := True, ik_symmetric := y4, ik_message_index := 1\<rparr>"
  have send: "NoiseIK_send lib eI p I = (kp_public_key eI @ enc_s @ enc_p, ?I)"
    using fields c1 enc_s enc_p
    by (simp add: NoiseIK_send_def send_message1_def take_ephemeral_def send_payload_def advance_message_def y0_def [symmetric]
        y1_def [symmetric] y3_def [symmetric] Let_def)
  let ?R = "R\<lparr>ik_re := kp_public_key eI, ik_rs := kp_public_key sI, ik_rs_known := True, ik_symmetric := y4, ik_message_index := 1\<rparr>"
  have recv: "NoiseIK_recv lib (kp_public_key eI @ enc_s @ enc_p) R = (Some p, ?R)"
    using fields c1 y1(2) y3(2) opened payload pk new(1)
    by (simp add: NoiseIK_recv_def recv_message1_def recv_payload_def advance_message_def Let_def)
  show ?thesis
    using send recv payload(2,3) opened(2) pk fields unfolding half_done_def by (fastforce simp: PKLEN_def MACLEN_def)
qed

lemma second_message_agrees:
  assumes aead: "aead_sound lib" and dh: "dh_agrees lib eR eI" "dh_agrees lib eR sI" and pk: "length (kp_public_key eR) = PKLEN"
    and half: "half_done sI sR eI y I R"
  shows "\<exists>I' R' msg. NoiseIK_send lib eR p R = (msg, R') \<and> NoiseIK_recv lib msg I = (Some p, I') \<and>
    ik_complete I' \<and> ik_complete R' \<and> ik_tx I' = ik_rx R' \<and> ik_rx I' = ik_tx R' \<and> ik_hash I' = ik_hash R' \<and>
    ik_rs I' = kp_public_key sR \<and> ik_rs R' = kp_public_key sI \<and> length msg = length p + 48"
proof -
  note fields = half [unfolded half_done_def]
  define y1 where "y1 = mix_key lib (kp_public_key eI) eR (mix_hash lib (kp_public_key eR) y)"
  have y1: "keyed y1" "mix_key lib (kp_public_key eR) eI (mix_hash lib (kp_public_key eR) y) = y1"
    using mix_key_agrees [OF dh(1)] fields by (simp_all add: y1_def)
  define y2 where "y2 = mix_key lib (kp_public_key sI) eR y1"
  have y2: "keyed y2" "mix_key lib (kp_public_key eR) sI y1 = y2"
    using mix_key_agrees [OF dh(2)] y1(1) by (simp_all add: y2_def keyed_def)
  obtain enc_p y3 where enc_p: "encrypt_and_hash lib p y2 = (enc_p, y3)"
    by (metis surj_pair)
  note payload = sealed_opens [OF aead y2(1) enc_p]
  have c: "\<not> sy_corrupt y1" "\<not> sy_corrupt y2"
    using y1(1) y2(1) by (simp_all add: keyed_def)
  let ?R = "advance_message lib (R\<lparr>ik_e := eR, ik_e_generated := True, ik_symmetric := y3\<rparr>)"
  have send: "NoiseIK_send lib eR p R = (kp_public_key eR @ enc_p, ?R)"
    using fields c enc_p
    by (simp add: NoiseIK_send_def send_message2_def take_ephemeral_def send_payload_def y1_def [symmetric] y2_def [symmetric] Let_def)
  let ?I = "advance_message lib (I\<lparr>ik_re := kp_public_key eR, ik_symmetric := y3\<rparr>)"
  have recv: "NoiseIK_recv lib (kp_public_key eR @ enc_p) I = (Some p, ?I)"
    using fields c y1(2) y2(2) payload pk
    by (simp add: NoiseIK_recv_def recv_message2_def recv_payload_def Let_def)
  show ?thesis
    using send recv fields payload(2) pk by (simp add: advance_message_def split_beta Let_def PKLEN_def MACLEN_def)
qed

section \<open>The state machine\<close>

datatype NoiseCall = NoiseSend Keypair bytes | NoiseRecv bytes

fun noise_call :: "NoiseLib \<Rightarrow> NoiseIK \<Rightarrow> NoiseCall \<Rightarrow> NoiseIK" where
  "noise_call lib ik (NoiseSend fresh payload) = snd (NoiseIK_send lib fresh payload ik)"
| "noise_call lib ik (NoiseRecv msg) = snd (NoiseIK_recv lib msg ik)"

definition noise_run :: "NoiseLib \<Rightarrow> NoiseCall list \<Rightarrow> NoiseIK \<Rightarrow> NoiseIK" where
  "noise_run lib calls ik = foldl (noise_call lib) ik calls"

text \<open>A run starts with the constructor and, in the tests, an ephemeral key pair fixed before the first call.\<close>

definition noise_start :: "NoiseLib \<Rightarrow> bool \<Rightarrow> Keypair \<Rightarrow> bytes \<Rightarrow> bytes option \<Rightarrow> Keypair option \<Rightarrow> NoiseIK" where
  "noise_start lib initiator kp prologue rs eph =
     (let ik = NoiseIK_new lib initiator kp prologue rs in case eph of None \<Rightarrow> ik | Some k \<Rightarrow> set_ephemeral k ik)"

text \<open>
  What the keys must be, as the Noise specification has it: the chaining key starts as the padded protocol name and absorbs one shared
  secret after the other, es and ss with the first message, ee and se with the second; the transport keys are the split of the last one.
\<close>

definition absorb_secrets :: "NoiseLib \<Rightarrow> bytes list \<Rightarrow> bytes" where
  "absorb_secrets lib secrets =
     foldl (\<lambda>ck secret. fst (hkdf lib ck secret)) (PROTOCOL_NAME @ replicate (HASHLEN - length PROTOCOL_NAME) 0) secrets"

definition first_secrets :: "NoiseLib \<Rightarrow> NoiseIK \<Rightarrow> bytes list" where
  "first_secrets lib ik =
     (if ik_initiator ik then [dh lib (ik_e ik) (ik_rs ik), dh lib (ik_s ik) (ik_rs ik)]
      else [dh lib (ik_s ik) (ik_re ik), dh lib (ik_s ik) (ik_rs ik)])"

definition all_secrets :: "NoiseLib \<Rightarrow> NoiseIK \<Rightarrow> bytes list" where
  "all_secrets lib ik =
     first_secrets lib ik @ [dh lib (ik_e ik) (ik_re ik), if ik_initiator ik then dh lib (ik_s ik) (ik_re ik) else dh lib (ik_e ik) (ik_rs ik)]"

definition transport_keys :: "NoiseLib \<Rightarrow> bytes \<Rightarrow> bytes \<times> bytes" where
  "transport_keys lib ck = (take KEYLEN (fst (hkdf lib ck [])), take KEYLEN (snd (hkdf lib ck [])))"

text \<open>The chaining key has absorbed the shared secrets of the messages so far, none of which is the neutral element.\<close>

definition strong :: "NoiseLib \<Rightarrow> Keypair \<Rightarrow> bytes \<Rightarrow> bool" where
  "strong lib k remote \<longleftrightarrow> dh lib k remote \<noteq> replicate DHLEN 0"

definition noise_ok :: "NoiseLib \<Rightarrow> NoiseIK \<Rightarrow> bool" where
  "noise_ok lib ik \<longleftrightarrow>
     (ik_corrupt ik \<longrightarrow> \<not> ik_complete ik) \<and> (ik_complete ik \<longleftrightarrow> ik_message_index ik = 2) \<and> ik_message_index ik \<le> 2 \<and>
     (\<not> ik_corrupt ik \<longrightarrow> \<not> sy_corrupt (ik_symmetric ik)) \<and>
     (\<not> ik_complete ik \<longrightarrow> ik_tx ik = replicate KEYLEN 0 \<and> ik_rx ik = replicate KEYLEN 0 \<and> ik_hash ik = replicate HASHLEN 0) \<and>
     (\<not> ik_corrupt ik \<and> ik_message_index ik = 0 \<longrightarrow> sy_chaining_key (ik_symmetric ik) = absorb_secrets lib []) \<and>
     (\<not> ik_corrupt ik \<and> ik_message_index ik = 1 \<longrightarrow>
        sy_chaining_key (ik_symmetric ik) = absorb_secrets lib (first_secrets lib ik) \<and> strong lib (ik_s ik) (ik_rs ik) \<and>
        (if ik_initiator ik then strong lib (ik_e ik) (ik_rs ik) \<and> ik_e_generated ik else strong lib (ik_s ik) (ik_re ik))) \<and>
     (ik_complete ik \<longrightarrow> strong lib (ik_s ik) (ik_rs ik) \<and> strong lib (ik_e ik) (ik_rs ik) \<and> strong lib (ik_s ik) (ik_re ik) \<and>
        strong lib (ik_e ik) (ik_re ik) \<and>
        (if ik_initiator ik then (ik_tx ik, ik_rx ik) else (ik_rx ik, ik_tx ik)) = transport_keys lib (absorb_secrets lib (all_secrets lib ik)))"

lemma absorb_more: "absorb_secrets lib (secrets @ [d]) = fst (hkdf lib (absorb_secrets lib secrets) d)"
  by (simp add: absorb_secrets_def)

lemma absorb_first:
  "absorb_secrets lib (first_secrets lib ik) =
     fst (hkdf lib (fst (hkdf lib (absorb_secrets lib []) (if ik_initiator ik then dh lib (ik_e ik) (ik_rs ik) else dh lib (ik_s ik) (ik_re ik))))
       (dh lib (ik_s ik) (ik_rs ik)))"
  by (simp add: absorb_secrets_def first_secrets_def)

lemma absorb_all:
  "absorb_secrets lib (all_secrets lib ik) =
     fst (hkdf lib (fst (hkdf lib (absorb_secrets lib (first_secrets lib ik)) (dh lib (ik_e ik) (ik_re ik))))
       (if ik_initiator ik then dh lib (ik_s ik) (ik_re ik) else dh lib (ik_e ik) (ik_rs ik)))"
  by (simp add: absorb_secrets_def all_secrets_def)

lemma mix_key_chaining:
  "strong lib k r \<Longrightarrow> sy_chaining_key (mix_key lib r k y) = fst (hkdf lib (sy_chaining_key y) (dh lib k r))"
  by (simp add: mix_key_def strong_def split_beta Let_def)

lemma hash_chaining:
  "sy_chaining_key (mix_hash lib data y) = sy_chaining_key y"
  "sy_chaining_key (snd (encrypt_and_hash lib pt y)) = sy_chaining_key y"
  "sy_chaining_key (snd (decrypt_and_hash lib ct y)) = sy_chaining_key y"
  by (simp_all add: mix_hash_def encrypt_and_hash_def decrypt_and_hash_def split_beta Let_def)

lemma hash_chaining_eq:
  "encrypt_and_hash lib pt y = (ct, y') \<Longrightarrow> sy_chaining_key y' = sy_chaining_key y"
  "decrypt_and_hash lib ct y = (r, y') \<Longrightarrow> sy_chaining_key y' = sy_chaining_key y"
  using hash_chaining(2) [of lib pt y] hash_chaining(3) [of lib ct y] by auto

lemma secrets_frame [simp]:
  "first_secrets lib (ik\<lparr>ik_symmetric := y\<rparr>) = first_secrets lib ik" "first_secrets lib (ik\<lparr>ik_message_index := n\<rparr>) = first_secrets lib ik"
  "all_secrets lib (ik\<lparr>ik_symmetric := y\<rparr>) = all_secrets lib ik"
  "all_secrets lib (ik\<lparr>ik_message_index := n, ik_tx := k1, ik_rx := k2, ik_hash := h, ik_complete := c\<rparr>) = all_secrets lib ik"
  by (simp_all add: first_secrets_def all_secrets_def)

lemma split_keys_transport: "split_keys lib y = transport_keys lib (sy_chaining_key y)"
  by (simp add: split_keys_def transport_keys_def split_beta Let_def)

lemma mix_key_strong: "sy_corrupt (mix_key lib r k y) \<longleftrightarrow> sy_corrupt y \<or> \<not> strong lib k r"
  by (simp add: mix_key_def strong_def split_beta Let_def)

lemma hash_corrupt:
  "encrypt_and_hash lib pt y = (ct, y') \<Longrightarrow> sy_corrupt y' = sy_corrupt y"
  "decrypt_and_hash lib ct y = (r, y') \<Longrightarrow> sy_corrupt y' = sy_corrupt y"
  by (auto simp: encrypt_and_hash_def decrypt_and_hash_def split: prod.splits)

text \<open>An unfinished handshake, and what an aborted one keeps of it.\<close>

definition unfinished :: "NoiseIK \<Rightarrow> bool" where
  "unfinished ik \<longleftrightarrow> \<not> ik_complete ik \<and> ik_message_index ik < 2 \<and> ik_tx ik = replicate KEYLEN 0 \<and> ik_rx ik = replicate KEYLEN 0 \<and>
     ik_hash ik = replicate HASHLEN 0"

lemma noise_ok_aborted: "ik_corrupt ik \<Longrightarrow> unfinished ik \<Longrightarrow> noise_ok lib ik"
  by (simp add: noise_ok_def unfinished_def)

lemma noise_ok_unfinished:
  assumes "noise_ok lib ik" and "\<not> ik_complete ik"
  shows "unfinished ik"
  using assms by (auto simp: noise_ok_def unfinished_def)

lemma noise_ok_new: "noise_ok lib (noise_start lib initiator kp prologue rs eph)"
  by (simp add: noise_ok_def noise_start_def set_ephemeral_def NoiseIK_new_def SymmetricState_new_def absorb_secrets_def mix_hash_def Let_def
      split: option.split)

text \<open>What the tail of a call relies on: the secrets of its message are mixed.\<close>

definition ready_to_advance :: "NoiseLib \<Rightarrow> NoiseIK \<Rightarrow> bool" where
  "ready_to_advance lib ik \<longleftrightarrow>
     \<not> ik_corrupt ik \<and> \<not> ik_complete ik \<and> \<not> sy_corrupt (ik_symmetric ik) \<and> ik_message_index ik < 2 \<and>
     ik_tx ik = replicate KEYLEN 0 \<and> ik_rx ik = replicate KEYLEN 0 \<and> ik_hash ik = replicate HASHLEN 0 \<and>
     strong lib (ik_s ik) (ik_rs ik) \<and>
     (if ik_initiator ik then strong lib (ik_e ik) (ik_rs ik) \<and> ik_e_generated ik else strong lib (ik_s ik) (ik_re ik)) \<and>
     (if ik_message_index ik = 0 then sy_chaining_key (ik_symmetric ik) = absorb_secrets lib (first_secrets lib ik)
      else strong lib (ik_e ik) (ik_rs ik) \<and> strong lib (ik_s ik) (ik_re ik) \<and> strong lib (ik_e ik) (ik_re ik) \<and>
        sy_chaining_key (ik_symmetric ik) = absorb_secrets lib (all_secrets lib ik))"

lemma noise_ok_advance: "ready_to_advance lib ik \<Longrightarrow> noise_ok lib (advance_message lib ik)"
  by (auto simp: ready_to_advance_def noise_ok_def advance_message_def split_keys_transport split_beta Let_def)

lemma noise_ok_payload:
  assumes "ready_to_advance lib ik"
  shows "noise_ok lib (snd (send_payload lib out payload ik))" and "noise_ok lib (snd (recv_payload lib msg ik))"
proof -
  have ready: "ready_to_advance lib (ik\<lparr>ik_symmetric := y\<rparr>)"
    if "\<not> sy_corrupt y" "sy_chaining_key y = sy_chaining_key (ik_symmetric ik)" for y
    using assms that by (simp add: ready_to_advance_def)
  have y: "\<not> sy_corrupt (ik_symmetric ik)"
    using assms by (simp add: ready_to_advance_def)
  show "noise_ok lib (snd (send_payload lib out payload ik))"
    using noise_ok_advance ready y hash_corrupt(1) hash_chaining_eq(1) unfolding send_payload_def Let_def by (auto split: prod.split)
  have "noise_ok lib (ik\<lparr>ik_symmetric := z, ik_corrupt := True\<rparr>)" for z
    using assms by (simp add: ready_to_advance_def noise_ok_def)
  then show "noise_ok lib (snd (recv_payload lib msg ik))"
    using noise_ok_advance ready y hash_corrupt(2) hash_chaining_eq(2) unfolding recv_payload_def Let_def by (auto split: prod.split option.split)
qed

lemmas mixed = mix_key_strong mix_key_chaining hash_chaining(1) absorb_first absorb_all ready_to_advance_def unfinished_def

lemma noise_ok_send:
  assumes "noise_ok lib ik"
  shows "noise_ok lib (snd (NoiseIK_send lib fresh payload ik))"
proof -
  have rules: "\<not> ik_complete ik \<Longrightarrow> unfinished ik" "\<not> ik_corrupt ik \<Longrightarrow> \<not> sy_corrupt (ik_symmetric ik)"
    "\<not> ik_corrupt ik \<Longrightarrow> ik_message_index ik = 0 \<Longrightarrow> sy_chaining_key (ik_symmetric ik) = absorb_secrets lib []"
    using assms noise_ok_unfinished by (auto simp: noise_ok_def)
  have "noise_ok lib (snd (send_message1 lib fresh payload ik))"
    if "\<not> ik_complete ik" "\<not> ik_corrupt ik" "ik_message_index ik = 0" "ik_initiator ik"
    using that rules unfolding send_message1_def take_ephemeral_def Let_def
    by (auto simp: mixed split: prod.split option.split
        intro!: noise_ok_payload(1) noise_ok_aborted dest: hash_corrupt hash_chaining_eq)
  moreover have "noise_ok lib (snd (send_message2 lib fresh payload ik))"
    if *: "\<not> ik_complete ik" "\<not> ik_corrupt ik" "ik_message_index ik = 1" "\<not> ik_initiator ik"
  proof -
    have "strong lib (ik_s ik) (ik_rs ik)" "strong lib (ik_s ik) (ik_re ik)"
      "sy_chaining_key (ik_symmetric ik) = absorb_secrets lib (first_secrets lib ik)"
      using assms * by (auto simp: noise_ok_def)
    then show ?thesis
      using * rules unfolding send_message2_def take_ephemeral_def Let_def
      by (auto simp: mixed split: prod.split option.split
          intro!: noise_ok_payload(1) noise_ok_aborted dest: hash_corrupt hash_chaining_eq)
  qed
  moreover have "ik_complete ik \<or> ik_message_index ik < 2"
    using assms by (auto simp: noise_ok_def)
  ultimately show ?thesis
    using assms by (auto simp: NoiseIK_send_def)
qed

lemma noise_ok_recv:
  assumes "noise_ok lib ik"
  shows "noise_ok lib (snd (NoiseIK_recv lib msg ik))"
proof -
  have rules: "\<not> ik_complete ik \<Longrightarrow> unfinished ik" "\<not> ik_corrupt ik \<Longrightarrow> \<not> sy_corrupt (ik_symmetric ik)"
    "\<not> ik_corrupt ik \<Longrightarrow> ik_message_index ik = 0 \<Longrightarrow> sy_chaining_key (ik_symmetric ik) = absorb_secrets lib []"
    using assms noise_ok_unfinished by (auto simp: noise_ok_def)
  have "noise_ok lib (snd (recv_message1 lib msg ik))"
    if "\<not> ik_complete ik" "\<not> ik_corrupt ik" "ik_message_index ik = 0" "\<not> ik_initiator ik"
    using that rules unfolding recv_message1_def Let_def
    by (auto simp: mixed split: prod.split option.split
        intro!: noise_ok_payload(2) noise_ok_aborted dest: hash_corrupt hash_chaining_eq)
  moreover have "noise_ok lib (snd (recv_message2 lib msg ik))"
    if *: "\<not> ik_complete ik" "\<not> ik_corrupt ik" "ik_message_index ik = 1" "ik_initiator ik"
  proof -
    have "strong lib (ik_s ik) (ik_rs ik)" "strong lib (ik_e ik) (ik_rs ik) \<and> ik_e_generated ik"
      "sy_chaining_key (ik_symmetric ik) = absorb_secrets lib (first_secrets lib ik)"
      using assms * by (auto simp: noise_ok_def)
    then show ?thesis
      using * rules unfolding recv_message2_def Let_def
      by (auto simp: mixed split: prod.split option.split
          intro!: noise_ok_payload(2) noise_ok_aborted dest: hash_corrupt hash_chaining_eq)
  qed
  moreover have "ik_complete ik \<or> ik_message_index ik < 2"
    using assms by (auto simp: noise_ok_def)
  ultimately show ?thesis
    using assms by (auto simp: NoiseIK_recv_def)
qed

lemma noise_run_ok: "noise_ok lib ik \<Longrightarrow> noise_ok lib (noise_run lib calls ik)"
proof (induction calls arbitrary: ik)
  case (Cons c calls)
  have "noise_ok lib (noise_call lib ik c)"
    using Cons.prems by (cases c) (simp_all add: noise_ok_send noise_ok_recv)
  with Cons.IH show ?case
    by (simp add: noise_run_def)
qed (simp add: noise_run_def)

lemma noise_ok_keys:
  assumes "noise_ok lib ik"
  shows "if ik_complete ik
      then \<not> ik_corrupt ik \<and> strong lib (ik_s ik) (ik_rs ik) \<and> strong lib (ik_e ik) (ik_rs ik) \<and> strong lib (ik_s ik) (ik_re ik) \<and>
        strong lib (ik_e ik) (ik_re ik) \<and>
        (if ik_initiator ik then (ik_tx ik, ik_rx ik) else (ik_rx ik, ik_tx ik)) = transport_keys lib (absorb_secrets lib (all_secrets lib ik))
      else ik_tx ik = replicate KEYLEN 0 \<and> ik_rx ik = replicate KEYLEN 0 \<and> ik_hash ik = replicate HASHLEN 0"
  using assms unfolding noise_ok_def by (cases "ik_complete ik") simp_all

section \<open>Properties\<close>

text \<open>C16. In every sequence of calls, with any messages from the network, a handshake reveals no transport key before it is complete, an aborted
  one never completes, and the transport keys of a complete one are the split of the chaining key that has absorbed the four shared secrets
  es, ss, ee and se, in this order and from the protocol name on; none of the four is the neutral element, so that low-order points of the
  peer are refused.\<close>

theorem noise_keys_strong:
  "let ik = noise_run lib calls (noise_start lib initiator kp prologue rs eph)
   in if ik_complete ik
      then \<not> ik_corrupt ik \<and> strong lib (ik_s ik) (ik_rs ik) \<and> strong lib (ik_e ik) (ik_rs ik) \<and> strong lib (ik_s ik) (ik_re ik) \<and>
        strong lib (ik_e ik) (ik_re ik) \<and>
        (if ik_initiator ik then (ik_tx ik, ik_rx ik) else (ik_rx ik, ik_tx ik)) = transport_keys lib (absorb_secrets lib (all_secrets lib ik))
      else ik_tx ik = replicate KEYLEN 0 \<and> ik_rx ik = replicate KEYLEN 0 \<and> ik_hash ik = replicate HASHLEN 0"
  unfolding Let_def by (rule noise_ok_keys [OF noise_run_ok [OF noise_ok_new]])

end
