(* ===== verification/Peer_Handshake.thy ===== *)
theory Peer_Handshake
  imports Noise Router
begin

text \<open>
  The PEER_HANDSHAKE exchange: the client call \<^verbatim>\<open>peer_connect::peer_handshake\<close> (\<^verbatim>\<open>src/peer_connect.cpp\<close>), the server side
  (\<^verbatim>\<open>src/server_connection.cpp\<close>) and the sealed holepunch payloads that follow it (\<^verbatim>\<open>SecurePayload\<close> of \<^verbatim>\<open>src/holepunch.cpp\<close> and
  \<^verbatim>\<open>handle_holepunch\<close>).  The random values that libsodium draws (key pairs, stream ids, nonces, secrets) are arguments.
\<close>

section \<open>Cryptography\<close>

text \<open>The Noise primitives, BLAKE2b-256 without and with a key (message first), and the secretbox pair (message, nonce, key).\<close>

record PeerCrypto =
  pc_noise :: NoiseLib
  pc_plain :: plain_hash
  pc_keyed :: "bytes \<Rightarrow> bytes \<Rightarrow> bytes"
  pc_secretbox_easy :: "bytes \<Rightarrow> bytes \<Rightarrow> bytes \<Rightarrow> bytes"
  pc_secretbox_open_easy :: "bytes \<Rightarrow> bytes \<Rightarrow> bytes \<Rightarrow> bytes \<times> int"

text \<open>\<^verbatim>\<open>compute_prologue\<close> of the client; the server passes \<^verbatim>\<open>ns_peer_handshake\<close>.\<close>

definition prologue :: "PeerCrypto \<Rightarrow> bytes" where
  "prologue cr = (let ns_hash = pc_plain cr (str_bytes ''hyperswarm/dht''); ns_input = ns_hash @ [0x00] in pc_plain cr ns_input)"

section \<open>SecurePayload\<close>

record SecurePayload =
  sp_shared_secret :: bytes
  sp_local_secret :: bytes

definition SecurePayload_new :: "bytes \<Rightarrow> bytes \<Rightarrow> SecurePayload" where
  "SecurePayload_new key local_secret = \<lparr>sp_shared_secret = key, sp_local_secret = local_secret\<rparr>"

definition secure_encrypt :: "PeerCrypto \<Rightarrow> bytes \<Rightarrow> bytes \<Rightarrow> SecurePayload \<Rightarrow> bytes" where
  "secure_encrypt cr nonce data sp = nonce @ pc_secretbox_easy cr data nonce (sp_shared_secret sp)"

definition secure_decrypt :: "PeerCrypto \<Rightarrow> bytes \<Rightarrow> SecurePayload \<Rightarrow> bytes option" where
  "secure_decrypt cr data sp =
     (if length data < 24 + 16 then None
      else (let (plaintext, rc) = pc_secretbox_open_easy cr (drop 24 data) (take 24 data) (sp_shared_secret sp)
            in if rc \<noteq> 0 then None else Some plaintext))"

definition secure_token :: "PeerCrypto \<Rightarrow> string \<Rightarrow> SecurePayload \<Rightarrow> bytes" where
  "secure_token cr host sp = pc_keyed cr (str_bytes host) (sp_local_secret sp)"

section \<open>The client\<close>

record HandshakeResult =
  hr_success :: bool
  hr_tx_key :: bytes
  hr_rx_key :: bytes
  hr_handshake_hash :: bytes
  hr_remote_public_key :: bytes
  hr_remote_payload :: NoisePayload
  hr_server_address :: "Ipv4Address option"

definition HandshakeResult_init :: HandshakeResult where
  "HandshakeResult_init = \<lparr>hr_success = False, hr_tx_key = replicate 32 0, hr_rx_key = replicate 32 0, hr_handshake_hash = replicate 64 0,
     hr_remote_public_key = replicate 32 0, hr_remote_payload = NoisePayload_init, hr_server_address = None\<rparr>"

definition client_payload :: "u32 \<Rightarrow> u32 \<Rightarrow> Ipv4Address list \<Rightarrow> RelayThroughInfo option \<Rightarrow> NoisePayload" where
  "client_payload our_udx_id firewall addresses4 relay_through =
     NoisePayload_init\<lparr>np_version := 1, np_error := ERROR_NONE, np_firewall := firewall, np_addresses4 := addresses4,
       np_udx := Some \<lparr>ux_version = 1, ux_reusable_socket = False, ux_id = our_udx_id, ux_seq = 0\<rparr>,
       np_has_secret_stream := True, np_relay_through := relay_through\<rparr>"

text \<open>The request that is sent and the Noise state that its callbacks share.  The overload without \<^verbatim>\<open>relay_through\<close> sends the same payload
  without it.\<close>

definition peer_handshake_relayed ::
  "PeerCrypto \<Rightarrow> Keypair \<Rightarrow> Ipv4Address \<Rightarrow> Keypair \<Rightarrow> bytes \<Rightarrow> u32 \<Rightarrow> u32 \<Rightarrow> Ipv4Address list \<Rightarrow> RelayThroughInfo option \<Rightarrow> Request \<times> NoiseIK" where
  "peer_handshake_relayed cr fresh relay_addr our_keypair remote_pubkey our_udx_id firewall addresses4 relay_through =
     (let noise_ik = NoiseIK_new (pc_noise cr) True our_keypair (prologue cr) (Some remote_pubkey);
          payload_bytes = encode_noise_payload (client_payload our_udx_id firewall addresses4 relay_through);
          (noise_msg1, noise_ik) = NoiseIK_send (pc_noise cr) fresh payload_bytes noise_ik;
          hs_value = encode_handshake_msg (HandshakeMessage_init\<lparr>hm_mode := MODE_FROM_CLIENT, hm_noise := noise_msg1\<rparr>);
          target = pc_plain cr remote_pubkey
      in (Request_init\<lparr>rq_to := relay_addr, rq_command := CMD_PEER_HANDSHAKE, rq_target := Some target, rq_value := Some hs_value\<rparr>, noise_ik))"

definition peer_handshake ::
  "PeerCrypto \<Rightarrow> Keypair \<Rightarrow> Ipv4Address \<Rightarrow> Keypair \<Rightarrow> bytes \<Rightarrow> u32 \<Rightarrow> u32 \<Rightarrow> Ipv4Address list \<Rightarrow> Request \<times> NoiseIK" where
  "peer_handshake cr fresh relay_addr our_keypair remote_pubkey our_udx_id firewall addresses4 =
     peer_handshake_relayed cr fresh relay_addr our_keypair remote_pubkey our_udx_id firewall addresses4 None"

text \<open>The response callback: the result that it passes to \<^verbatim>\<open>on_done\<close>, and the Noise state.\<close>

definition peer_handshake_response :: "PeerCrypto \<Rightarrow> bytes \<Rightarrow> Response \<Rightarrow> NoiseIK \<Rightarrow> HandshakeResult \<times> NoiseIK" where
  "peer_handshake_response cr remote_pubkey resp noise_ik =
     (case rs_value resp of
        None \<Rightarrow> (HandshakeResult_init, noise_ik)
      | Some v \<Rightarrow>
          if v = [] then (HandshakeResult_init, noise_ik)
          else (let hs_resp = fst (decode_handshake_msg v)
                in if hm_noise hs_resp = [] then (HandshakeResult_init, noise_ik)
                   else (let (decrypted, noise_ik) = NoiseIK_recv (pc_noise cr) (hm_noise hs_resp) noise_ik
                         in case decrypted of
                              None \<Rightarrow> (HandshakeResult_init, noise_ik)
                            | Some pt \<Rightarrow>
                                if \<not> ik_complete noise_ik then (HandshakeResult_init, noise_ik)
                                else (let remote_payload = fst (decode_noise_payload pt)
                                      in (\<lparr>hr_success = (np_error remote_payload = ERROR_NONE), hr_tx_key = ik_tx noise_ik, hr_rx_key = ik_rx noise_ik,
                                           hr_handshake_hash = ik_hash noise_ik, hr_remote_public_key = remote_pubkey,
                                           hr_remote_payload = remote_payload, hr_server_address = hm_peer_address hs_resp\<rparr>, noise_ik)))))"

definition peer_handshake_timeout :: HandshakeResult where
  "peer_handshake_timeout = HandshakeResult_init"

section \<open>The server\<close>

text \<open>The connection state; the UDX stream, the puncher and the relay token, which these functions do not touch, are left out.\<close>

record ServerConnection =
  sc_id :: u32
  sc_round :: u32
  sc_tx_key :: bytes
  sc_rx_key :: bytes
  sc_handshake_hash :: bytes
  sc_remote_public_key :: bytes
  sc_remote_payload :: NoisePayload
  sc_reply_noise :: bytes
  sc_secure :: "SecurePayload option"
  sc_local_udx_id :: u32
  sc_our_firewall :: u32
  sc_our_addresses :: "Ipv4Address list"
  sc_firewalled :: bool
  sc_has_error :: bool
  sc_error_code :: u32

definition ServerConnection_init :: ServerConnection where
  "ServerConnection_init = \<lparr>sc_id = -1, sc_round = 0, sc_tx_key = replicate 32 0, sc_rx_key = replicate 32 0,
     sc_handshake_hash = replicate 64 0, sc_remote_public_key = replicate 32 0, sc_remote_payload = NoisePayload_init, sc_reply_noise = [],
     sc_secure = None, sc_local_udx_id = 0, sc_our_firewall = FIREWALL_UNKNOWN, sc_our_addresses = [], sc_firewalled = False,
     sc_has_error = False, sc_error_code = ERROR_NONE\<rparr>"

record PendingHandshake =
  ph_noise_ik :: NoiseIK
  ph_remote_public_key :: bytes
  ph_remote_payload :: NoisePayload

definition decode_handshake :: "PeerCrypto \<Rightarrow> Keypair \<Rightarrow> bytes \<Rightarrow> PendingHandshake option" where
  "decode_handshake cr server_keypair noise_msg1 =
     (let noise_ik = NoiseIK_new (pc_noise cr) False server_keypair (ns_peer_handshake (pc_plain cr)) None;
          (decrypted, noise_ik) = NoiseIK_recv (pc_noise cr) noise_msg1 noise_ik
      in case decrypted of
           None \<Rightarrow> None
         | Some pt \<Rightarrow> Some \<lparr>ph_noise_ik = noise_ik, ph_remote_public_key = ik_rs noise_ik, ph_remote_payload = fst (decode_noise_payload pt)\<rparr>)"

text \<open>Steps 3 and 4 of \<^verbatim>\<open>finalize_handshake\<close>: the firewall decision and the error code.\<close>

definition apply_firewall :: "bool \<Rightarrow> ServerConnection \<Rightarrow> ServerConnection" where
  "apply_firewall rejected conn =
     (if rejected then conn\<lparr>sc_firewalled := True, sc_has_error := True, sc_error_code := ERROR_ABORTED\<rparr>
      else if np_version (sc_remote_payload conn) \<noteq> 1 then conn\<lparr>sc_error_code := ERROR_VERSION_MISMATCH, sc_has_error := True\<rparr>
      else if np_udx (sc_remote_payload conn) = None then conn\<lparr>sc_error_code := ERROR_ABORTED, sc_has_error := True\<rparr>
      else conn)"

text \<open>Step 7: the payload of the reply.\<close>

definition response_payload ::
  "u32 \<Rightarrow> Ipv4Address list \<Rightarrow> RelayInfo list \<Rightarrow> bool \<Rightarrow> RelayThroughInfo option \<Rightarrow> bool \<Rightarrow> ServerConnection \<Rightarrow> NoisePayload" where
  "response_payload holepunch_id our_addresses relay_infos has_remote_address relay_through reusable_socket conn =
     (let response = NoisePayload_init\<lparr>np_version := 1, np_error := sc_error_code conn, np_firewall := sc_our_firewall conn,
            np_addresses4 := our_addresses, np_has_secret_stream := True\<rparr>
      in if sc_has_error conn then response
         else response\<lparr>np_udx := Some \<lparr>ux_version = 1, ux_reusable_socket = reusable_socket, ux_id = sc_local_udx_id conn, ux_seq = 0\<rparr>,
                np_holepunch := (if has_remote_address then None else Some \<lparr>hi_id = holepunch_id, hi_relays = relay_infos\<rparr>),
                np_relay_addresses := map ri_relay_address relay_infos, np_relay_through := relay_through\<rparr>)"

text \<open>Steps 3 to 6: the connection that is offered in the reply.\<close>

definition offer_connection :: "u32 \<Rightarrow> bytes \<Rightarrow> NoisePayload \<Rightarrow> u32 \<Rightarrow> Ipv4Address list \<Rightarrow> bool \<Rightarrow> bool \<Rightarrow> ServerConnection" where
  "offer_connection udx_id remote_public_key remote_payload holepunch_id our_addresses firewall_rejected has_remote_address =
     (let conn = ServerConnection_init\<lparr>sc_id := holepunch_id, sc_our_addresses := our_addresses, sc_remote_payload := remote_payload,
            sc_remote_public_key := remote_public_key\<rparr>;
          conn = apply_firewall firewall_rejected conn
      in conn\<lparr>sc_local_udx_id := udx_id,
           sc_our_firewall := (if has_remote_address then FIREWALL_OPEN
             else if our_addresses = [] then FIREWALL_UNKNOWN else FIREWALL_CONSISTENT)\<rparr>)"

definition finalize_handshake ::
  "PeerCrypto \<Rightarrow> Keypair \<Rightarrow> u32 \<Rightarrow> bytes \<Rightarrow> PendingHandshake \<Rightarrow> u32 \<Rightarrow> Ipv4Address list \<Rightarrow> RelayInfo list \<Rightarrow> bool \<Rightarrow> bool \<Rightarrow>
    RelayThroughInfo option \<Rightarrow> bool \<Rightarrow> ServerConnection option" where
  "finalize_handshake cr fresh udx_id local_secret pending holepunch_id our_addresses relay_infos firewall_rejected has_remote_address
       relay_through reusable_socket =
     (let conn = offer_connection udx_id (ph_remote_public_key pending) (ph_remote_payload pending) holepunch_id our_addresses
            firewall_rejected has_remote_address;
          response = response_payload holepunch_id our_addresses relay_infos has_remote_address relay_through reusable_socket conn;
          (noise_msg2, noise_ik) = NoiseIK_send (pc_noise cr) fresh (encode_noise_payload response) (ph_noise_ik pending)
      in if \<not> ik_complete noise_ik then None
         else (let conn = conn\<lparr>sc_reply_noise := noise_msg2, sc_tx_key := ik_tx noise_ik, sc_rx_key := ik_rx noise_ik,
                     sc_handshake_hash := ik_hash noise_ik\<rparr>
               in Some (if sc_has_error conn then conn
                        else conn\<lparr>sc_secure := Some (SecurePayload_new (pc_keyed cr (ns_peer_holepunch (pc_plain cr)) (ik_hash noise_ik)) local_secret)\<rparr>)))"

definition handle_handshake ::
  "PeerCrypto \<Rightarrow> Keypair \<Rightarrow> u32 \<Rightarrow> bytes \<Rightarrow> Keypair \<Rightarrow> bytes \<Rightarrow> Ipv4Address \<Rightarrow> u32 \<Rightarrow> Ipv4Address list \<Rightarrow> RelayInfo list \<Rightarrow>
    (bytes \<Rightarrow> NoisePayload \<Rightarrow> Ipv4Address \<Rightarrow> bool) option \<Rightarrow> bool \<Rightarrow> RelayThroughInfo option \<Rightarrow> bool \<Rightarrow> ServerConnection option" where
  "handle_handshake cr fresh udx_id local_secret server_keypair noise_msg1 client_address holepunch_id our_addresses relay_infos firewall
       has_remote_address relay_through reusable_socket =
     (case decode_handshake cr server_keypair noise_msg1 of
        None \<Rightarrow> None
      | Some pending \<Rightarrow>
          (let rejected = (case firewall of
                 None \<Rightarrow> False
               | Some f \<Rightarrow> f (ph_remote_public_key pending) (ph_remote_payload pending) client_address)
           in finalize_handshake cr fresh udx_id local_secret pending holepunch_id our_addresses relay_infos rejected has_remote_address
                relay_through reusable_socket))"

section \<open>Holepunch rounds on the server\<close>

record HolepunchReply =
  hpr_value :: bytes
  hpr_should_punch :: bool
  hpr_address_verified :: bool
  hpr_remote_firewall :: u32
  hpr_remote_addresses :: "Ipv4Address list"
  hpr_try_later :: bool

definition HolepunchReply_init :: HolepunchReply where
  "HolepunchReply_init = \<lparr>hpr_value = [], hpr_should_punch = False, hpr_address_verified = False, hpr_remote_firewall = 0,
     hpr_remote_addresses = [], hpr_try_later = False\<rparr>"

text \<open>The wrapped and sealed payload of a reply.\<close>

definition holepunch_answer :: "PeerCrypto \<Rightarrow> bytes \<Rightarrow> SecurePayload \<Rightarrow> Ipv4Address \<Rightarrow> HolepunchPayload \<Rightarrow> bytes" where
  "holepunch_answer cr nonce sp client_address resp =
     encode_holepunch_msg (HolepunchMessage_init\<lparr>hpm_mode := MODE_FROM_SERVER, hpm_id := 0,
       hpm_payload := secure_encrypt cr nonce (encode_holepunch_payload resp) sp, hpm_peer_address := Some client_address\<rparr>)"

definition next_round :: "HolepunchPayload \<Rightarrow> ServerConnection \<Rightarrow> ServerConnection" where
  "next_round client_hp conn = (if hp_round client_hp \<ge> sc_round conn then conn\<lparr>sc_round := hp_round client_hp\<rparr> else conn)"

definition handle_holepunch ::
  "PeerCrypto \<Rightarrow> bytes \<Rightarrow> bytes \<Rightarrow> Ipv4Address \<Rightarrow> u32 \<Rightarrow> Ipv4Address list \<Rightarrow> bool \<Rightarrow> bool \<Rightarrow> ServerConnection \<Rightarrow> HolepunchReply \<times> ServerConnection" where
  "handle_holepunch cr nonce value client_address our_firewall our_addresses is_server_relay random_throttled conn =
     (case sc_secure conn of
        None \<Rightarrow> (HolepunchReply_init, conn)
      | Some sp \<Rightarrow>
          (let hp_msg = fst (decode_holepunch_msg value)
           in if hpm_payload hp_msg = [] then (HolepunchReply_init, conn)
              else case secure_decrypt cr (hpm_payload hp_msg) sp of
                None \<Rightarrow> (HolepunchReply_init, conn)
              | Some decrypted \<Rightarrow>
                  (let client_hp = fst (decode_holepunch_payload decrypted);
                       conn = next_round client_hp conn
                   in if hp_error client_hp \<noteq> ERROR_NONE
                      then (HolepunchReply_init\<lparr>hpr_value := holepunch_answer cr nonce sp client_address
                              (HolepunchPayload_init\<lparr>hp_error := ERROR_ABORTED, hp_firewall := FIREWALL_UNKNOWN, hp_round := sc_round conn\<rparr>)\<rparr>, conn)
                      else (let our_token = secure_token cr (Ipv4_host_string client_address) sp;
                                echoed = (is_server_relay \<and> hp_remote_token client_hp = Some our_token);
                                wants = (hp_punching client_hp \<and> hp_addresses client_hp \<noteq> []);
                                is_random_punch = (wants \<and> (hp_firewall client_hp \<ge> FIREWALL_RANDOM \<or> our_firewall \<ge> FIREWALL_RANDOM));
                                try_later = (is_random_punch \<and> random_throttled);
                                should_punch = (wants \<and> \<not> try_later);
                                resp = HolepunchPayload_init\<lparr>hp_error := (if try_later then ERROR_TRY_LATER else ERROR_NONE),
                                  hp_firewall := our_firewall, hp_round := sc_round conn, hp_punching := should_punch, hp_connected := False,
                                  hp_addresses := our_addresses, hp_token := (if is_server_relay then Some our_token else None),
                                  hp_remote_token := hp_token client_hp\<rparr>
                            in (\<lparr>hpr_value = holepunch_answer cr nonce sp client_address resp, hpr_should_punch = should_punch,
                                 hpr_address_verified = echoed, hpr_remote_firewall = hp_firewall client_hp,
                                 hpr_remote_addresses = hp_addresses client_hp, hpr_try_later = try_later\<rparr>, conn)))))"

section \<open>The exchange\<close>

definition secretbox_sound :: "PeerCrypto \<Rightarrow> bool" where
  "secretbox_sound cr \<longleftrightarrow>
     (\<forall>m n k. pc_secretbox_open_easy cr (pc_secretbox_easy cr m n k) n k = (m, 0) \<and> length (pc_secretbox_easy cr m n k) = length m + 16)"

text \<open>The key pairs of the client and of the server, long-term and fresh, agree pairwise.\<close>

definition keys_agree :: "PeerCrypto \<Rightarrow> Keypair \<Rightarrow> Keypair \<Rightarrow> Keypair \<Rightarrow> Keypair \<Rightarrow> bool" where
  "keys_agree cr sC sS eC eS \<longleftrightarrow>
     aead_sound (pc_noise cr) \<and> dh_agrees (pc_noise cr) eC sS \<and> dh_agrees (pc_noise cr) sC sS \<and> dh_agrees (pc_noise cr) eS eC \<and>
     dh_agrees (pc_noise cr) eS sC \<and> length (kp_public_key eC) = PKLEN \<and> length (kp_public_key sC) = PKLEN \<and> length (kp_public_key eS) = PKLEN"

lemma prologue_eq: "prologue cr = ns_peer_handshake (pc_plain cr)"
  by (simp add: prologue_def ns_peer_handshake_def compute_ns_def Let_def)

lemma decode_encoded_noise: "NoisePayload_ok p \<Longrightarrow> fst (decode_noise_payload (encode_noise_payload p)) = p"
  using step_reads_run [OF noise_steps_read length_noise_wires] by (simp add: decode_noise_payload_def encode_noise_wire)

lemma handshake_frame:
  fixes mode :: u32
  assumes "length noise \<le> 65536" and "opt_all Ipv4_ok addr"
  defines "m \<equiv> HandshakeMessage_init\<lparr>hm_mode := mode, hm_noise := noise, hm_peer_address := addr\<rparr>"
  shows "fst (decode_handshake_msg (encode_handshake_msg m)) = m" and "encode_handshake_msg m \<noteq> []"
proof -
  have ok: "HandshakeMessage_ok m"
    using assms by (simp add: HandshakeMessage_ok_def HandshakeMessage_init_def opt_all_def)
  then show "fst (decode_handshake_msg (encode_handshake_msg m)) = m"
    by (rule decode_encoded_handshake)
  show "encode_handshake_msg m \<noteq> []"
    by (simp add: encode_handshake_wire [OF ok] handshake_wires_def Uint_wire_not_Nil)
qed

text \<open>The first message, as the server receives it.\<close>

lemma client_reaches_server:
  assumes keys: "keys_agree cr sC sS eC eS" and ok: "NoisePayload_ok p" "length (encode_noise_payload p) \<le> 65000"
    and p: "p = client_payload our_udx_id firewall addresses4 relay_through"
    and req: "peer_handshake_relayed cr eC relay_addr sC (kp_public_key sS) our_udx_id firewall addresses4 relay_through = (req, ik)"
  obtains pending y where "decode_handshake cr sS (hm_noise (fst (decode_handshake_msg (the (rq_value req))))) = Some pending"
    and "ph_remote_public_key pending = kp_public_key sC" and "ph_remote_payload pending = p"
    and "half_done sC sS eC y ik (ph_noise_ik pending)"
proof -
  let ?lib = "pc_noise cr"
  from first_message_agrees [of ?lib eC sS sC "encode_noise_payload p" "prologue cr"] keys obtain I R msg y where
      m: "NoiseIK_send ?lib eC (encode_noise_payload p) (NoiseIK_new ?lib True sC (prologue cr) (Some (kp_public_key sS))) = (msg, I)"
      "NoiseIK_recv ?lib msg (NoiseIK_new ?lib False sS (prologue cr) None) = (Some (encode_noise_payload p), R)"
      "half_done sC sS eC y I R" "length msg = length (encode_noise_payload p) + 96"
    unfolding keys_agree_def by metis
  let ?hs = "encode_handshake_msg (HandshakeMessage_init\<lparr>hm_mode := MODE_FROM_CLIENT, hm_noise := msg\<rparr>)"
  have "fst (decode_handshake_msg ?hs) = HandshakeMessage_init\<lparr>hm_mode := MODE_FROM_CLIENT, hm_noise := msg\<rparr>"
    using handshake_frame(1) [of msg None MODE_FROM_CLIENT] m(4) ok(2) by (simp add: opt_all_def HandshakeMessage_init_def)
  moreover have "the (rq_value req) = ?hs" "ik = I"
    using req m(1) by (auto simp: peer_handshake_relayed_def p Let_def)
  moreover have "ik_rs R = kp_public_key sC"
    using m(3) by (simp add: half_done_def)
  ultimately show thesis
    using that m(2,3) by (simp add: decode_handshake_def prologue_eq [symmetric] decode_encoded_noise [OF ok(1)])
qed

lemma offer_fields:
  "sc_remote_public_key (offer_connection udx_id pk p hid addrs rejected open_addr) = pk"
  "sc_remote_payload (offer_connection udx_id pk p hid addrs rejected open_addr) = p"
  "np_version p = 1 \<Longrightarrow> np_udx p \<noteq> None \<Longrightarrow> sc_has_error (offer_connection udx_id pk p hid addrs rejected open_addr) = rejected"
  "np_version p = 1 \<Longrightarrow> np_udx p \<noteq> None \<Longrightarrow>
    sc_error_code (offer_connection udx_id pk p hid addrs rejected open_addr) = (if rejected then ERROR_ABORTED else ERROR_NONE)"
  by (auto simp: offer_connection_def apply_firewall_def ServerConnection_init_def Let_def)

lemma response_error: "np_error (response_payload hid addrs relays open_addr rt reusable conn) = sc_error_code conn"
  by (simp add: response_payload_def Let_def)

text \<open>C15. A client that knows the public key of a server completes the handshake with it: the server learns the key and the payload of the
  client, the transport keys of the two ends mirror each other and belong to one handshake hash, the client receives the payload of the server, and
  it succeeds exactly when the firewall of the server does not refuse it; a refused client gets an error and no holepunch secret is made for it.\<close>

theorem handshake_agrees:
  assumes keys: "keys_agree cr sC sS eC eS"
    and client: "NoisePayload_ok pC" "length (encode_noise_payload pC) \<le> 65000"
      "pC = client_payload our_udx_id fw addresses4 relay_through"
    and req: "peer_handshake_relayed cr eC relay_addr sC (kp_public_key sS) our_udx_id fw addresses4 relay_through = (req, ik)"
    and rejected: "rejected = (case firewall of None \<Rightarrow> False | Some f \<Rightarrow> f (kp_public_key sC) pC client_address)"
    and server: "pS = response_payload hid addrs relays open_addr rt reusable
        (offer_connection udx_id (kp_public_key sC) pC hid addrs rejected open_addr)"
      "NoisePayload_ok pS" "length (encode_noise_payload pS) \<le> 65000"
    and reply: "Ipv4_ok server_address"
  shows "\<exists>conn. handle_handshake cr eS udx_id secret sS (hm_noise (fst (decode_handshake_msg (the (rq_value req))))) client_address hid addrs
      relays firewall open_addr rt reusable = Some conn \<and>
    sc_remote_public_key conn = kp_public_key sC \<and> sc_remote_payload conn = pC \<and> (sc_secure conn = None \<longleftrightarrow> rejected) \<and>
    (let value = encode_handshake_msg (HandshakeMessage_init\<lparr>hm_mode := mode, hm_noise := sc_reply_noise conn, hm_peer_address := Some server_address\<rparr>);
         result = fst (peer_handshake_response cr (kp_public_key sS) (resp\<lparr>rs_value := Some value\<rparr>) ik)
     in hr_success result = (\<not> rejected) \<and> hr_tx_key result = sc_rx_key conn \<and> hr_rx_key result = sc_tx_key conn \<and>
        hr_handshake_hash result = sc_handshake_hash conn \<and> hr_remote_payload result = pS \<and> hr_server_address result = Some server_address)"
proof -
  let ?lib = "pc_noise cr"
  obtain pending y where pending: "decode_handshake cr sS (hm_noise (fst (decode_handshake_msg (the (rq_value req))))) = Some pending"
      "ph_remote_public_key pending = kp_public_key sC" "ph_remote_payload pending = pC" "half_done sC sS eC y ik (ph_noise_ik pending)"
    using client_reaches_server [OF keys client req] by blast
  from second_message_agrees [OF _ _ _ _ pending(4), where p = "encode_noise_payload pS"] keys obtain I R msg where
      m: "NoiseIK_send ?lib eS (encode_noise_payload pS) (ph_noise_ik pending) = (msg, R)"
      "NoiseIK_recv ?lib msg ik = (Some (encode_noise_payload pS), I)" "ik_complete I" "ik_complete R" "ik_tx I = ik_rx R" "ik_rx I = ik_tx R"
      "ik_hash I = ik_hash R" "length msg = length (encode_noise_payload pS) + 48"
    unfolding keys_agree_def by metis
  let ?offer = "offer_connection udx_id (kp_public_key sC) pC hid addrs rejected open_addr"
  let ?conn = "?offer\<lparr>sc_reply_noise := msg, sc_tx_key := ik_tx R, sc_rx_key := ik_rx R, sc_handshake_hash := ik_hash R\<rparr>"
  let ?full = "if rejected then ?conn
    else ?conn\<lparr>sc_secure := Some (SecurePayload_new (pc_keyed cr (ns_peer_holepunch (pc_plain cr)) (ik_hash R)) secret)\<rparr>"
  have pC: "np_version pC = 1" "np_udx pC \<noteq> None"
    using client(3) by (simp_all add: client_payload_def)
  have conn: "handle_handshake cr eS udx_id secret sS (hm_noise (fst (decode_handshake_msg (the (rq_value req))))) client_address hid addrs
      relays firewall open_addr rt reusable = Some ?full"
  proof -
    have "(case firewall of None \<Rightarrow> False | Some f \<Rightarrow> f (ph_remote_public_key pending) (ph_remote_payload pending) client_address) = rejected"
      unfolding pending(2,3) by (rule rejected [symmetric])
    then have "handle_handshake cr eS udx_id secret sS (hm_noise (fst (decode_handshake_msg (the (rq_value req))))) client_address hid addrs
        relays firewall open_addr rt reusable = finalize_handshake cr eS udx_id secret pending hid addrs relays rejected open_addr rt reusable"
      unfolding handle_handshake_def pending(1) Let_def by simp
    also have "\<dots> = Some ?full"
      unfolding finalize_handshake_def pending(2,3) Let_def server(1) [symmetric] m(1) using m(4) offer_fields(3) [OF pC] by simp
    finally show ?thesis .
  qed
  let ?wire = "encode_handshake_msg (HandshakeMessage_init\<lparr>hm_mode := mode, hm_noise := msg, hm_peer_address := Some server_address\<rparr>)"
  have frame: "fst (decode_handshake_msg ?wire) = HandshakeMessage_init\<lparr>hm_mode := mode, hm_noise := msg, hm_peer_address := Some server_address\<rparr>"
    "?wire \<noteq> []"
    using handshake_frame [of msg "Some server_address" mode] m(8) server(3) reply by (simp_all add: opt_all_def)
  have "msg \<noteq> []"
    using m(8) by auto
  then have result: "fst (peer_handshake_response cr (kp_public_key sS) (resp\<lparr>rs_value := Some ?wire\<rparr>) ik) =
      \<lparr>hr_success = (np_error pS = ERROR_NONE), hr_tx_key = ik_tx I, hr_rx_key = ik_rx I, hr_handshake_hash = ik_hash I,
       hr_remote_public_key = kp_public_key sS, hr_remote_payload = pS, hr_server_address = Some server_address\<rparr>"
    using frame m(2,3) by (simp add: peer_handshake_response_def decode_encoded_noise [OF server(2)])
  have "np_error pS = ERROR_NONE \<longleftrightarrow> \<not> rejected"
    using server(1) offer_fields(4) [OF pC] by (simp add: response_error ERROR_ABORTED_def ERROR_NONE_def)
  then show ?thesis
    unfolding conn using result m(5-7) by (auto simp: Let_def offer_fields offer_connection_def apply_firewall_def ServerConnection_init_def)
qed

section \<open>A concrete exchange\<close>

text \<open>A stand-in for the primitives, in which every shared secret is the same and the hashes cut or pad their input.\<close>

definition demo_noise :: NoiseLib where
  "demo_noise = \<lparr>nl_blake2b = (\<lambda>m. take 64 (m @ replicate 64 7)), nl_sha512 = (\<lambda>m. m @ m), nl_scalarmult = (\<lambda>s r. (1 # replicate 31 0, 0)),
     nl_aead_encrypt = (\<lambda>k n ad m. replicate 16 (hd k) @ m),
     nl_aead_decrypt = (\<lambda>k n ad c. if take 16 c = replicate 16 (hd k) then (drop 16 c, 0) else ([], -1))\<rparr>"

definition demo_crypto :: PeerCrypto where
  "demo_crypto = \<lparr>pc_noise = demo_noise, pc_plain = (\<lambda>m. take 32 (m @ replicate 32 1)), pc_keyed = (\<lambda>m k. take 32 (k @ m @ replicate 32 2)),
     pc_secretbox_easy = (\<lambda>m n k. replicate 16 (hd k) @ m),
     pc_secretbox_open_easy = (\<lambda>c n k. if take 16 c = replicate 16 (hd k) then (drop 16 c, 0) else ([], -1))\<rparr>"

definition demo_pair :: "byte \<Rightarrow> Keypair" where
  "demo_pair b = \<lparr>kp_public_key = replicate 32 b, kp_secret_key = replicate 64 b\<rparr>"

lemma demo_keys: "keys_agree demo_crypto (demo_pair 64) (demo_pair 72) (demo_pair 80) (demo_pair 88)"
proof -
  have "dh demo_noise a r = 1 # replicate 31 0" for a r
    by (simp add: dh_def demo_noise_def Let_def)
  moreover have "(1::byte) # replicate 31 0 \<noteq> replicate DHLEN 0"
    by (simp add: DHLEN_def list_eq_iff_nth_eq exI [of _ 0])
  ultimately have "dh_agrees demo_noise a b" for a b
    by (simp add: dh_agrees_def)
  then show ?thesis
    by (simp add: keys_agree_def demo_crypto_def demo_pair_def aead_sound_def demo_noise_def PKLEN_def MACLEN_def)
qed

definition demo_client_payload :: NoisePayload where
  "demo_client_payload = client_payload 5 FIREWALL_CONSISTENT [] None"

definition demo_server_payload :: NoisePayload where
  "demo_server_payload = response_payload 3 [] [] False None False
     (offer_connection 6 (kp_public_key (demo_pair 64)) demo_client_payload 3 [] False False)"

definition demo_call :: "Request \<times> NoiseIK" where
  "demo_call = peer_handshake_relayed demo_crypto (demo_pair 80) Ipv4Address_init (demo_pair 64) (kp_public_key (demo_pair 72)) 5 FIREWALL_CONSISTENT [] None"

lemma demo_payloads:
  "NoisePayload_ok demo_client_payload" "length (encode_noise_payload demo_client_payload) \<le> 65000"
  "NoisePayload_ok demo_server_payload" "length (encode_noise_payload demo_server_payload) \<le> 65000"
proof -
  show client: "NoisePayload_ok demo_client_payload" and server: "NoisePayload_ok demo_server_payload"
    by (simp_all add: demo_client_payload_def client_payload_def demo_server_payload_def response_payload_def offer_connection_def
        apply_firewall_def NoisePayload_ok_def NoisePayload_init_def opt_all_def Array_ok_def HolepunchInfo_ok_def Let_def)
  show "length (encode_noise_payload demo_client_payload) \<le> 65000"
    unfolding encode_noise_wire [OF client]
    by (simp add: noise_wires_def demo_client_payload_def client_payload_def demo_server_payload_def response_payload_def
        offer_connection_def apply_firewall_def ServerConnection_init_def NoisePayload_init_def opt_wire_def nonempty_def flag_value_def
        udx_info_wires_def holepunch_info_wires_def Uint_wire_def Let_def)
  show "length (encode_noise_payload demo_server_payload) \<le> 65000"
    unfolding encode_noise_wire [OF server]
    by (simp add: noise_wires_def demo_client_payload_def client_payload_def demo_server_payload_def response_payload_def
        offer_connection_def apply_firewall_def ServerConnection_init_def NoisePayload_init_def opt_wire_def nonempty_def flag_value_def
        udx_info_wires_def holepunch_info_wires_def Uint_wire_def Let_def)
qed

theorem handshake_agrees_witness:
  "\<exists>conn. handle_handshake demo_crypto (demo_pair 88) 6 [] (demo_pair 72) (hm_noise (fst (decode_handshake_msg (the (rq_value (fst demo_call))))))
      Ipv4Address_init 3 [] [] (Some (\<lambda>pk p a. pk \<noteq> replicate 32 64)) False None False = Some conn \<and>
    sc_remote_public_key conn = kp_public_key (demo_pair 64) \<and> sc_remote_payload conn = demo_client_payload \<and> (sc_secure conn = None \<longleftrightarrow> False) \<and>
    (let value = encode_handshake_msg (HandshakeMessage_init\<lparr>hm_mode := MODE_REPLY, hm_noise := sc_reply_noise conn, hm_peer_address := Some Ipv4Address_init\<rparr>);
         result = fst (peer_handshake_response demo_crypto (kp_public_key (demo_pair 72)) (Response_init\<lparr>rs_value := Some value\<rparr>) (snd demo_call))
     in hr_success result = (\<not> False) \<and> hr_tx_key result = sc_rx_key conn \<and> hr_rx_key result = sc_tx_key conn \<and>
        hr_handshake_hash result = sc_handshake_hash conn \<and> hr_remote_payload result = demo_server_payload \<and>
        hr_server_address result = Some Ipv4Address_init)"
proof (rule handshake_agrees [OF demo_keys])
  show "demo_client_payload = client_payload 5 FIREWALL_CONSISTENT [] None"
    by (fact demo_client_payload_def)
  show "demo_server_payload = response_payload 3 [] [] False None False
     (offer_connection 6 (kp_public_key (demo_pair 64)) demo_client_payload 3 [] False False)"
    by (fact demo_server_payload_def)
  show "peer_handshake_relayed demo_crypto (demo_pair 80) Ipv4Address_init (demo_pair 64) (kp_public_key (demo_pair 72)) 5 FIREWALL_CONSISTENT [] None =
      (fst demo_call, snd demo_call)"
    by (simp add: demo_call_def)
qed (simp_all add: demo_payloads demo_pair_def Ipv4_ok_def Ipv4Address_init_def)

end
