(* ===== verification/Spec2Isabelle.thy ===== *)
theory Spec2Isabelle
  imports Routing_Closest Lru_Cache Announce_Store Nat_Sampler Health Dht_Messages Query_Live Peer_Messages Rpc_Run Dht_Ops Protomux_Exchange Secret_Stream_Props Peer_Handshake
begin

text \<open>
  Verification of hyperdht-cpp, a C++ implementation of the HyperDHT: a Kademlia-style distributed hash table over UDP with
  signed announcements, mutable and immutable storage, and the messages by which two peers find and connect to each other.

  \<^bold>\<open>The program and the theories.\<close>  A node is an \<^verbatim>\<open>RpcSocket\<close> (\<^verbatim>\<open>src/rpc.cpp\<close>) that sends and receives datagrams and keeps
  the routing table, and an \<^verbatim>\<open>RpcHandlers\<close> (\<^verbatim>\<open>src/rpc_handlers.cpp\<close>) that answers other nodes out of its stores.  A client
  walks the network with a \<^verbatim>\<open>Query\<close> (\<^verbatim>\<open>src/query.cpp\<close>).

  \<^item> \<open>Prelude\<close>: machine integers, arithmetic of \<^verbatim>\<open>size_t\<close>, named collections.
  \<^item> \<open>Compact\<close>, \<open>Codec_Contract\<close>, \<open>Address\<close>: \<^verbatim>\<open>src/compact.cpp\<close> and \<^verbatim>\<open>compact.hpp\<close>.  The cursor \<^verbatim>\<open>State\<close> is a record with
    a flag that records an access outside the buffer; every codec is a preencode, an encode and a decode function, and the
    locale \<open>codec\<close> is the contract they keep, interpreted for each of them and proved once for arrays and frames.
  \<^item> \<open>Message_Steps\<close>, \<open>Messages\<close>: \<^verbatim>\<open>src/messages.cpp\<close>, written with steps that each decode a field and may stop.
  \<^item> \<open>Routing_Table\<close>, \<open>Routing_Store\<close>, \<open>Routing_Closest\<close>: \<^verbatim>\<open>src/routing_table.cpp\<close>.
  \<^item> \<open>Tokens\<close>, \<open>Lru_Cache\<close>, \<open>Announce_Store\<close>, \<open>Nat_Sampler\<close>, \<open>Health\<close>: the sources of those names.
  \<^item> \<open>Dht_Messages\<close>, \<open>Peer_Messages\<close>, \<open>Announce_Sig\<close>: the payloads of the commands (\<^verbatim>\<open>src/dht_messages.cpp\<close>, the codecs of
    \<^verbatim>\<open>src/peer_connect.cpp\<close> and \<^verbatim>\<open>src/holepunch.cpp\<close>) and what is signed in them (\<^verbatim>\<open>src/announce_sig.cpp\<close>).
  \<^item> \<open>Query\<close>, \<open>Query_Live\<close>: \<^verbatim>\<open>src/query.cpp\<close>, with its runs as an inductive relation over answers in any order.
  \<^item> \<open>Peer_Id\<close>, \<open>Congestion\<close>, \<open>Rpc_Socket\<close>, \<open>Rpc_Safety\<close>, \<open>Rpc_Run\<close>: \<^verbatim>\<open>src/rpc.cpp\<close>; the third holds the operations, the
    fourth the invariant, the last the runs and the properties.
  \<^item> \<open>Router\<close>, \<open>Rpc_Handlers\<close>, \<open>Handlers_Safety\<close>, \<open>Handlers_Run\<close>, \<open>Handlers_Props\<close>: \<^verbatim>\<open>src/router.cpp\<close> and
    \<^verbatim>\<open>src/rpc_handlers.cpp\<close>; the operations, the invariant of a serving node, its runs, and the properties of single commands.
  \<^item> \<open>Dht_Ops\<close>: the operations of a client (\<^verbatim>\<open>src/dht_ops.cpp\<close>, \<^verbatim>\<open>src/dht_storage.cpp\<close>) as queries with their commits and reply checks.
  \<^item> \<open>Noise\<close>: the Noise IK handshake (\<^verbatim>\<open>src/noise_wrap.cpp\<close>).  \<open>Peer_Handshake\<close>: the handshake call of the client
    (\<^verbatim>\<open>src/peer_connect.cpp\<close>), the server side (\<^verbatim>\<open>src/server_connection.cpp\<close>) and \<^verbatim>\<open>SecurePayload\<close> of \<^verbatim>\<open>src/holepunch.cpp\<close>.
  \<^item> \<open>Secret_Stream\<close> and \<open>Secret_Stream_Frames\<close>, \<open>_Delivery\<close>, \<open>_Life\<close>, \<open>_Props\<close>: the encrypted stream over UDX
    (\<^verbatim>\<open>src/secret_stream.cpp\<close>): definitions, frame parser, sessions of two ends, life of one end, properties.
  \<^item> \<open>Protomux\<close> and \<open>Protomux_Frames\<close>, \<open>_Safety\<close>, \<open>_Run\<close>, \<open>_Exchange\<close>: the channel multiplexer over such a stream
    (\<^verbatim>\<open>src/protomux.cpp\<close>).

  \<^bold>\<open>Correspondence.\<close>  A C++ class is a record with the class's members in its order, a method a function on the record that
  returns it updated, a \<^verbatim>\<open>std::optional\<close> an option, a \<^verbatim>\<open>std::array<uint8_t, n>\<close> or byte vector a list of bytes, an unordered map
  an association list, integers words of their width.  Callbacks are values of a datatype, and calling one runs the
  continuation the code passes; calls, datagrams and events are recorded in a trace.  Where callbacks of the application run inside an
  operation, the application is an environment that makes calls of the component there (\<open>calls_only\<close>, \<open>uses_api\<close>).  What is not in the repository is a
  parameter: BLAKE2b (\<open>plain\<close>, \<open>keyed\<close>), Ed25519 (\<open>Crypto\<close>), the primitives of the handshake and the stream (\<open>NoiseLib\<close>,
  \<open>PeerCrypto\<close>, \<open>Sodium\<close>), the return codes of UDX, the clock, libuv's address printing and random numbers, and the callbacks of
  the application, which may call back into the component.  Their documented behaviour appears as hypotheses: \<open>hash32\<close> (32 bytes of
  output), \<open>signs\<close> (a signature verifies), \<open>aead_sound\<close> and \<open>dh_agrees\<close> (a sealed message opens, the two ends compute one
  secret), injectivity of the hash on the inputs in play.

  \<^bold>\<open>What the lemmas show.\<close>  Codecs and messages: round trips and memory safety on every input.  Routing table: a bounded map with
  the bucket invariant, \<^verbatim>\<open>closest\<close> sorted by distance.  Caches and stores: refinement of lists, caps, visibility.  Query: it
  terminates, keeps the nearest repliers, visits no address twice and finishes once.  Socket: only authentic nodes enter the
  table, each request runs at most one callback once, a silent request is sent retries + 1 times and ends, queues are bounded.  Signatures: they verify and
  bind what they sign.  Router: answers return where they belong.  Handlers: what a node stores stays authentic and bounded, and
  only a valid token changes it.  Operations: a reader accepts only authentic values and gets what was put.  Handshake: the two ends
  agree on keys, payloads and the decision of the firewall; the keys come from all four shared secrets, none of them degenerate.  Stream: messages arrive in order however the
  bytes are cut, events keep their order, nonces are not reused.  Protomux: no dangling channel, whatever calls the callbacks make, batches equal single frames, destruction ends.
  Some theorems state defects of the code, which the manifest lists as findings.

  \<^bold>\<open>Loops and fuel.\<close>  Loops are structural recursions or have a termination measure, but for two that run callbacks of the application:
  \<open>extract_loop\<close> has the length of its buffer as fuel, which \<open>extract_loop_fuel\<close> shows to be enough, and \<open>Mux_destroy\<close> returns \<open>None\<close>
  without fuel, with the amount that is enough in \<open>mux_destroy_ends\<close>.

  \<^bold>\<open>Not modelled.\<close>  The blind relay, the announcer, the pools, the probing engine of holepunching, the server and connect
  orchestration, the facade, the C and Kotlin bindings, UDX and libuv glue.
\<close>

end
